(* ===== verification/Rd_Prelude.thy ===== *)
theory Rd_Prelude
  imports Complex_Main "HOL-Library.Word"
begin

text \<open>
  Shared vocabulary of the development: the collections of simplification rules, the
  integer types of the source, a few operations of Rust's standard library that several
  components use, and the interface of a bounded queue, of which the program has several
  (the event ring, the lease ends remembered for loss notices, the request ids a Cua
  attachment remembers).
\<close>

named_theorems rd_frame "what an operation leaves unchanged"

subsection \<open>Machine integers\<close>

type_synonym u8 = "8 word"
type_synonym u16 = "16 word"
type_synonym u32 = "32 word"
type_synonym u64 = "64 word"

text \<open>
  Counters that the source keeps in a \<open>u64\<close> are natural numbers here, with the
  saturation at \<open>u64::MAX\<close> written out.
\<close>

definition u64_max :: nat where
  "u64_max = 18446744073709551615"

definition sat_add64 :: "nat \<Rightarrow> nat \<Rightarrow> nat" where
  "sat_add64 a b = min (a + b) u64_max"

lemma sat_add64_ge: "a \<le> u64_max \<Longrightarrow> a \<le> sat_add64 a b"
  by (simp add: sat_add64_def)

lemma sat_add64_bound [simp]: "sat_add64 a b \<le> u64_max"
  by (simp add: sat_add64_def)

lemma sat_add64_exact: "a + b \<le> u64_max \<Longrightarrow> sat_add64 a b = a + b"
  by (simp add: sat_add64_def)

subsection \<open>The newest entries of a list\<close>

text \<open>\<open>take_last n xs\<close>: the last \<open>n\<close> entries of \<open>xs\<close>, or all of them.\<close>

definition take_last :: "nat \<Rightarrow> 'a list \<Rightarrow> 'a list" where
  "take_last n xs = drop (length xs - n) xs"

lemma length_take_last [simp]: "length (take_last n xs) = min n (length xs)"
  by (simp add: take_last_def)

lemma take_last_id [simp]: "length xs \<le> n \<Longrightarrow> take_last n xs = xs"
  by (simp add: take_last_def)

lemma set_take_last: "set (take_last n xs) \<subseteq> set xs"
  by (simp add: take_last_def set_drop_subset)

lemma take_last_append: "take_last n (take_last n xs @ ys) = take_last n (xs @ ys)"
proof (cases "length xs \<le> n")
  case False
  then show ?thesis by (simp add: take_last_def add.commute)
qed simp

lemma take_last_snoc: "0 < n \<Longrightarrow> length xs = n \<Longrightarrow> take_last n (xs @ [x]) = tl xs @ [x]"
  by (cases xs) (simp_all add: take_last_def)

text \<open>
  The idiom of the source: \<open>if q.len() >= cap { q.pop_front(); } q.push_back(x)\<close>.
\<close>

definition push_bounded :: "nat \<Rightarrow> 'a \<Rightarrow> 'a list \<Rightarrow> 'a list" where
  "push_bounded cap x q = (if cap \<le> length q then tl q else q) @ [x]"

lemma push_bounded_take_last:
  assumes "0 < cap" and "length q \<le> cap"
  shows "push_bounded cap x q = take_last cap (q @ [x])"
  using assms by (auto simp: push_bounded_def take_last_snoc)

lemma length_push_bounded:
  "0 < cap \<Longrightarrow> length q \<le> cap \<Longrightarrow> length (push_bounded cap x q) \<le> cap"
  by (simp add: push_bounded_take_last)

lemma set_push_bounded: "set (push_bounded cap x q) \<subseteq> insert x (set q)"
  by (cases q) (auto simp: push_bounded_def)

subsection \<open>The interface of a bounded queue\<close>

text \<open>
  A state \<open>'s\<close> with a queue of at most \<open>cap\<close> entries, oldest first. The one law says
  what a push does to the entries; the clients need what any number of pushes does.
\<close>

locale bounded_queue =
  fixes items :: "'s \<Rightarrow> 'a list"
    and push :: "'a \<Rightarrow> 's \<Rightarrow> 's"
    and cap :: nat
  assumes cap_pos: "0 < cap"
    and items_push: "length (items s) \<le> cap \<Longrightarrow> items (push x s) = take_last cap (items s @ [x])"
begin

lemma push_bound: "length (items s) \<le> cap \<Longrightarrow> length (items (push x s)) \<le> cap"
  by (simp add: items_push)

lemma newest_kept: "length (items s) \<le> cap \<Longrightarrow> last (items (push x s)) = x"
  using cap_pos by (simp add: items_push take_last_def)

lemma pushes:
  "length (items s) \<le> cap \<Longrightarrow> items (fold push xs s) = take_last cap (items s @ xs)"
proof (induction xs arbitrary: s)
  case (Cons x xs)
  then show ?case
    by (simp add: push_bound items_push take_last_append)
qed simp

lemma pushes_bound: "length (items s) \<le> cap \<Longrightarrow> length (items (fold push xs s)) \<le> cap"
  by (simp add: pushes)

end

subsection \<open>The interface of a store where the first value wins\<close>

text \<open>
  A store with at most one entry per key, where an entry is added only if its key is free.
  The one law says what \<open>put\<close> does to a lookup; a client that offers a list of entries
  finds the first of each key.
\<close>

locale first_wins =
  fixes get :: "'k \<Rightarrow> 's \<Rightarrow> 'c option"
    and put :: "'c \<Rightarrow> 's \<Rightarrow> 's"
    and key :: "'c \<Rightarrow> 'k"
  assumes get_put: "get k (put c s) =
    (case get k s of Some x \<Rightarrow> Some x | None \<Rightarrow> if key c = k then Some c else None)"
begin

lemma put_known: "get (key c) s \<noteq> None \<Longrightarrow> get k (put c s) = get k s"
  by (auto simp: get_put split: option.splits)

lemma get_puts:
  "get k (fold put cs s) = (case get k s of Some x \<Rightarrow> Some x | None \<Rightarrow> find (\<lambda>c. key c = k) cs)"
proof (induction cs arbitrary: s)
  case Nil
  then show ?case by (simp split: option.splits)
next
  case (Cons c cs)
  then show ?case by (simp add: get_put split: option.splits)
qed

end

end
