(* ===== verification/Rd_Text.thy ===== *)
theory Rd_Text
  imports Rd_Prelude
begin

text \<open>
  Text as the source has it: a Rust \<open>str\<close> is a sequence of Unicode scalar values, here
  their code points. \<open>lit\<close> turns an ASCII literal into such a text. The character
  classes are those of Rust's standard library: \<open>is_whitespace\<close> (the Unicode property
  White_Space), \<open>is_control\<close> (general category Cc) and the ASCII classes. \<open>str_len\<close>
  is \<open>str::len\<close>, the number of bytes of the UTF-8 encoding.
\<close>

type_synonym uchar = nat
type_synonym ustr = "uchar list"

definition lit :: "string \<Rightarrow> ustr" where
  "lit s = map of_char s"

definition ch :: "char \<Rightarrow> uchar" where
  "ch c = of_char c"

subsection \<open>Character classes\<close>

definition is_ascii_digit :: "uchar \<Rightarrow> bool" where
  "is_ascii_digit c \<longleftrightarrow> 48 \<le> c \<and> c \<le> 57"

definition is_ascii_upper :: "uchar \<Rightarrow> bool" where
  "is_ascii_upper c \<longleftrightarrow> 65 \<le> c \<and> c \<le> 90"

definition is_ascii_lower :: "uchar \<Rightarrow> bool" where
  "is_ascii_lower c \<longleftrightarrow> 97 \<le> c \<and> c \<le> 122"

definition is_ascii_alphanumeric :: "uchar \<Rightarrow> bool" where
  "is_ascii_alphanumeric c \<longleftrightarrow> is_ascii_digit c \<or> is_ascii_upper c \<or> is_ascii_lower c"

definition is_whitespace :: "uchar \<Rightarrow> bool" where
  "is_whitespace c \<longleftrightarrow>
     (9 \<le> c \<and> c \<le> 13) \<or> c = 32 \<or> c = 133 \<or> c = 160 \<or> c = 5760
     \<or> (8192 \<le> c \<and> c \<le> 8202) \<or> c = 8232 \<or> c = 8233 \<or> c = 8239 \<or> c = 8287 \<or> c = 12288"

definition is_control :: "uchar \<Rightarrow> bool" where
  "is_control c \<longleftrightarrow> c \<le> 31 \<or> (127 \<le> c \<and> c \<le> 159)"

definition to_ascii_lower :: "uchar \<Rightarrow> uchar" where
  "to_ascii_lower c = (if is_ascii_upper c then c + 32 else c)"

definition to_ascii_lowercase :: "ustr \<Rightarrow> ustr" where
  "to_ascii_lowercase s = map to_ascii_lower s"

definition eq_ignore_ascii_case :: "ustr \<Rightarrow> ustr \<Rightarrow> bool" where
  "eq_ignore_ascii_case s t \<longleftrightarrow> to_ascii_lowercase s = to_ascii_lowercase t"

lemmas char_class_defs =
  is_ascii_digit_def is_ascii_upper_def is_ascii_lower_def is_ascii_alphanumeric_def
  is_whitespace_def is_control_def to_ascii_lower_def

lemma to_ascii_lower_idem [simp]: "to_ascii_lower (to_ascii_lower c) = to_ascii_lower c"
  by (auto simp: char_class_defs)

lemma to_ascii_lowercase_idem [simp]:
  "to_ascii_lowercase (to_ascii_lowercase s) = to_ascii_lowercase s"
  by (simp add: to_ascii_lowercase_def)

lemma to_ascii_lower_not_upper: "\<not> is_ascii_upper (to_ascii_lower c)"
  by (auto simp: char_class_defs)

lemma eq_ignore_ascii_case_refl [simp]: "eq_ignore_ascii_case s s"
  by (simp add: eq_ignore_ascii_case_def)

lemma eq_ignore_ascii_case_sym: "eq_ignore_ascii_case s t \<longleftrightarrow> eq_ignore_ascii_case t s"
  by (auto simp: eq_ignore_ascii_case_def)

subsection \<open>Byte length\<close>

definition char_utf8_len :: "uchar \<Rightarrow> nat" where
  "char_utf8_len c = (if c < 128 then 1 else if c < 2048 then 2 else if c < 65536 then 3 else 4)"

definition str_len :: "ustr \<Rightarrow> nat" where
  "str_len s = sum_list (map char_utf8_len s)"

lemma char_utf8_len_pos: "1 \<le> char_utf8_len c"
  by (simp add: char_utf8_len_def)

lemma str_len_Nil [simp]: "str_len [] = 0"
  and str_len_Cons [simp]: "str_len (c # s) = char_utf8_len c + str_len s"
  and str_len_append [simp]: "str_len (s @ t) = str_len s + str_len t"
  by (simp_all add: str_len_def)

lemma length_le_str_len: "length s \<le> str_len s"
proof (induction s)
  case (Cons c s)
  then show ?case using char_utf8_len_pos [of c] by simp
qed simp

lemma str_len_ascii: "\<forall>c \<in> set s. c < 128 \<Longrightarrow> str_len s = length s"
  by (induction s) (simp_all add: char_utf8_len_def)

lemma str_len_eq_0 [simp]: "str_len s = 0 \<longleftrightarrow> s = []"
  using length_le_str_len [of s] by auto

subsection \<open>Trimming and splitting\<close>

definition trim_start :: "ustr \<Rightarrow> ustr" where
  "trim_start s = dropWhile is_whitespace s"

definition trim_end :: "ustr \<Rightarrow> ustr" where
  "trim_end s = rev (dropWhile is_whitespace (rev s))"

fun strip_prefix :: "'a list \<Rightarrow> 'a list \<Rightarrow> 'a list option" where
  "strip_prefix [] s = Some s"
| "strip_prefix (p # ps) [] = None"
| "strip_prefix (p # ps) (c # s) = (if p = c then strip_prefix ps s else None)"

lemma strip_prefix_Some_iff: "strip_prefix p s = Some t \<longleftrightarrow> s = p @ t"
  by (induction p s rule: strip_prefix.induct) auto

lemma strip_prefix_None_iff: "strip_prefix p s = None \<longleftrightarrow> (\<nexists>t. s = p @ t)"
  by (metis not_None_eq strip_prefix_Some_iff)

lemma trim_start_head: "trim_start s = c # t \<Longrightarrow> \<not> is_whitespace c"
  by (metis dropWhile_eq_Cons_conv trim_start_def)

lemma trim_start_idem [simp]: "trim_start (trim_start s) = trim_start s"
  by (simp add: trim_start_def dropWhile_idem)

subsection \<open>Decimal numbers\<close>

text \<open>The decimal digits of a number, as \<open>to_string\<close> and \<open>{n}\<close> write them.\<close>

fun dec :: "nat \<Rightarrow> ustr" where
  "dec n = (if n < 10 then [48 + n] else dec (n div 10) @ [48 + n mod 10])"

declare dec.simps [simp del]

text \<open>The value of a text of decimal digits (Horner's rule), without bound.\<close>

definition dec_value :: "ustr \<Rightarrow> nat" where
  "dec_value s = foldl (\<lambda>n c. 10 * n + (c - 48)) 0 s"

lemma dec_nonempty [simp]: "dec n \<noteq> []"
  by (subst dec.simps) simp

lemma dec_digits: "c \<in> set (dec n) \<Longrightarrow> is_ascii_digit c"
proof (induction n arbitrary: c rule: dec.induct)
  case (1 n)
  show ?case
  proof (cases "n < 10")
    case True
    with 1 show ?thesis by (auto simp: dec.simps [of n] is_ascii_digit_def)
  next
    case False
    with 1 show ?thesis by (auto simp: dec.simps [of n] is_ascii_digit_def)
  qed
qed

lemma dec_value_snoc: "dec_value (s @ [c]) = 10 * dec_value s + (c - 48)"
  by (simp add: dec_value_def)

lemma dec_value_dec [simp]: "dec_value (dec n) = n"
proof (induction n rule: dec.induct)
  case (1 n)
  then show ?case
    by (cases "n < 10") (simp_all add: dec.simps [of n] dec_value_snoc, simp add: dec_value_def)
qed

text \<open>
  \<open>str::parse\<close> for an unsigned type with largest value \<open>m\<close>: one or more digits after an
  optional plus sign, and an error on overflow.
\<close>

definition parse_unsigned :: "nat \<Rightarrow> ustr \<Rightarrow> nat option" where
  "parse_unsigned m s =
     (let d = (case s of [] \<Rightarrow> [] | c # t \<Rightarrow> if c = ch CHR ''+'' then t else s)
      in if d \<noteq> [] \<and> list_all is_ascii_digit d \<and> dec_value d \<le> m then Some (dec_value d) else None)"

lemma plus_not_digit: "\<not> is_ascii_digit (ch CHR ''+'')"
  by (simp add: is_ascii_digit_def ch_def)

lemma parse_unsigned_dec [simp]: "n \<le> m \<Longrightarrow> parse_unsigned m (dec n) = Some n"
proof -
  assume n: "n \<le> m"
  have digits: "list_all is_ascii_digit (dec n)"
    by (auto simp: list_all_iff intro: dec_digits)
  obtain c t where ct: "dec n = c # t" by (cases "dec n") auto
  with digits have "c \<noteq> ch CHR ''+''" using plus_not_digit by auto
  with ct have "(case dec n of [] \<Rightarrow> [] | c # t \<Rightarrow> if c = ch CHR ''+'' then t else dec n) = dec n"
    by simp
  with n digits show ?thesis by (simp add: parse_unsigned_def)
qed

lemma parse_unsigned_le: "parse_unsigned m s = Some n \<Longrightarrow> n \<le> m"
  by (auto simp: parse_unsigned_def Let_def split: if_splits)

end
