(* ===== verification/Bridge_Protocol.thy ===== *)
theory Bridge_Protocol
  imports Rd_Text
begin

text \<open>
  The framing between daemon and bridge, \<^verbatim>\<open>crates/rdpilot-bridge-protocol/src/lib.rs\<close>:
  the envelope and its messages, the checks of a bundle manifest, \<open>encode\<close> and the
  incremental \<open>Decoder\<close>. An inner MCP value is never looked at, so its type is a
  parameter \<open>'v\<close>. The JSON serialiser is code outside the repository: \<open>ser\<close> and \<open>de\<close>
  are arguments of the definitions that use them.
\<close>

subsection \<open>Constants and messages\<close>

definition PROTOCOL_VERSION :: nat where "PROTOCOL_VERSION = 2"
definition MAX_FRAME_BYTES :: nat where "MAX_FRAME_BYTES = 16 * 1024 * 1024"
definition BRIDGE_EXE_NAME :: ustr where "BRIDGE_EXE_NAME = lit ''rdpilot-bridge.exe''"
definition MANIFEST_NAME :: ustr where "MANIFEST_NAME = lit ''manifest.json''"
definition CUA_DRIVER_EXE_NAME :: ustr where "CUA_DRIVER_EXE_NAME = lit ''cua-driver.exe''"

datatype file_transfer_op = Upload | Download

record file_transfer_request =
  ft_op :: file_transfer_op
  ft_remote_path :: ustr
  ft_share_name :: ustr

record file_transfer_data =
  ft_bytes_transferred :: nat
  ft_sha256 :: ustr

record file_transfer_response =
  ft_success :: bool
  ft_data :: "file_transfer_data option"
  ft_error :: "ustr option"
  ft_error_kind :: "ustr option"

datatype 'v message =
    Hello (hello_bundle_id: ustr)
  | Ready (ready_bundle_id: ustr) (ready_bridge_version: ustr)
  | Ping
  | Pong
  | Open (open_attachment: nat)
  | Opened (opened_attachment: nat) (opened_runtime: nat)
  | Mcp (mcp_attachment: nat) (mcp_runtime: nat) (mcp_message: 'v)
  | Close (close_attachment: nat) (close_reason: ustr)
  | Closed (closed_attachment: nat) (closed_reason: ustr)
  | FileTransfer file_transfer_request
  | FileTransferResult file_transfer_response
  | ErrorMsg (error_reason: ustr)

record 'v envelope =
  env_version :: nat
  env_generation :: nat
  env_control_id :: nat
  env_message :: "'v message"

definition new_envelope :: "nat \<Rightarrow> nat \<Rightarrow> 'v message \<Rightarrow> 'v envelope" where
  "new_envelope generation control_id msg =
     \<lparr>env_version = PROTOCOL_VERSION, env_generation = generation,
      env_control_id = control_id, env_message = msg\<rparr>"

subsection \<open>The bundle manifest\<close>

datatype manifest_error =
    InvalidBundleId ustr
  | UnsupportedEntryName ustr
  | InvalidSha256 ustr
  | NoCuaDriver
  | ForbiddenEntry ustr

text \<open>\<open>files\<close> is a \<open>BTreeMap\<close>: its entries in key order.\<close>

record bundle_manifest =
  mf_bundle_id :: ustr
  mf_cua_version :: ustr
  mf_archive_name :: ustr
  mf_archive_sha256 :: ustr
  mf_bridge_sha256 :: ustr
  mf_files :: "(ustr \<times> ustr) list"

definition check_bundle_id :: "ustr \<Rightarrow> manifest_error + unit" where
  "check_bundle_id name =
     (if name \<noteq> [] \<and> str_len name \<le> 128 \<and> strip_prefix (lit ''.'') name = None
         \<and> list_all (\<lambda>b. is_ascii_alphanumeric b \<or> b \<in> set (lit ''._-'')) name
      then Inr () else Inl (InvalidBundleId name))"

definition ends_with :: "ustr \<Rightarrow> char \<Rightarrow> bool" where
  "ends_with s c \<longleftrightarrow> s \<noteq> [] \<and> last s = ch c"

definition starts_with :: "ustr \<Rightarrow> char \<Rightarrow> bool" where
  "starts_with s c \<longleftrightarrow> s \<noteq> [] \<and> hd s = ch c"

text \<open>The characters no archive entry name may contain: slash, backslash, \<open>: * ? " < > |\<close>.\<close>

definition entry_name_forbidden :: ustr where
  "entry_name_forbidden = [47, 92, 58, 42, 63, 34, 60, 62, 124]"

definition check_archive_entry_name :: "ustr \<Rightarrow> manifest_error + unit" where
  "check_archive_entry_name name =
     (if name = [] \<or> str_len name > 255 \<or> name = lit ''.'' \<or> name = lit ''..''
         \<or> ends_with name CHR ''.'' \<or> ends_with name CHR '' '' \<or> starts_with name CHR '' ''
         \<or> list_ex (\<lambda>c. is_control c \<or> c \<in> set entry_name_forbidden) name
      then Inl (UnsupportedEntryName name) else Inr ())"

definition is_lower_hex :: "uchar \<Rightarrow> bool" where
  "is_lower_hex b \<longleftrightarrow> (48 \<le> b \<and> b \<le> 57) \<or> (97 \<le> b \<and> b \<le> 102)"

definition check_sha256 :: "ustr \<Rightarrow> manifest_error + unit" where
  "check_sha256 hash =
     (if str_len hash = 64 \<and> list_all is_lower_hex hash then Inr () else Inl (InvalidSha256 hash))"

text \<open>The \<open>for\<close> loop over the files of \<open>validate\<close>: the first failing check returns.\<close>

fun check_files :: "(ustr \<times> ustr) list \<Rightarrow> manifest_error + unit" where
  "check_files [] = Inr ()"
| "check_files ((name, hash) # rest) =
     (case check_archive_entry_name name of
        Inl e \<Rightarrow> Inl e
      | Inr _ \<Rightarrow>
          (case check_sha256 hash of
             Inl e \<Rightarrow> Inl e
           | Inr _ \<Rightarrow>
               if eq_ignore_ascii_case name BRIDGE_EXE_NAME \<or> eq_ignore_ascii_case name MANIFEST_NAME
               then Inl (ForbiddenEntry name)
               else check_files rest))"

definition validate_manifest :: "bundle_manifest \<Rightarrow> manifest_error + unit" where
  "validate_manifest m =
     (case check_bundle_id (mf_bundle_id m) of
        Inl e \<Rightarrow> Inl e
      | Inr _ \<Rightarrow>
          (case check_archive_entry_name (mf_archive_name m) of
             Inl e \<Rightarrow> Inl e
           | Inr _ \<Rightarrow>
               (case check_sha256 (mf_archive_sha256 m) of
                  Inl e \<Rightarrow> Inl e
                | Inr _ \<Rightarrow>
                    (case check_sha256 (mf_bridge_sha256 m) of
                       Inl e \<Rightarrow> Inl e
                     | Inr _ \<Rightarrow>
                         if CUA_DRIVER_EXE_NAME \<notin> fst ` set (mf_files m) then Inl NoCuaDriver
                         else check_files (mf_files m)))))"

subsection \<open>Encoding\<close>

datatype frame_error =
    SerializeError
  | FrameTooLarge
  | InvalidLength
  | PayloadError
  | VersionMismatch nat
  | Truncated
  | SubtractOverflow

text \<open>\<open>(n as u32).to_le_bytes()\<close> and \<open>u32::from_le_bytes\<close>.\<close>

definition to_le_bytes :: "nat \<Rightarrow> u8 list" where
  "to_le_bytes n = map (\<lambda>i. word_of_nat (n div 256 ^ i)) [0, 1, 2, 3]"

definition from_le_bytes :: "u8 list \<Rightarrow> nat" where
  "from_le_bytes bs = foldr (\<lambda>b n. unat b + 256 * n) bs 0"

definition encode :: "('v envelope \<Rightarrow> u8 list option) \<Rightarrow> 'v envelope \<Rightarrow> frame_error + u8 list" where
  "encode ser e =
     (case ser e of
        None \<Rightarrow> Inl SerializeError
      | Some payload \<Rightarrow>
          if length payload > MAX_FRAME_BYTES then Inl FrameTooLarge
          else Inr (to_le_bytes (length payload) @ payload))"

subsection \<open>The incremental decoder\<close>

record decoder =
  buffer :: "u8 list"
  expected :: "nat option"

definition new_decoder :: decoder where
  "new_decoder = \<lparr>buffer = [], expected = None\<rparr>"

definition target :: "decoder \<Rightarrow> nat" where
  "target d = (case expected d of None \<Rightarrow> 4 | Some n \<Rightarrow> n)"

text \<open>
  One pass of the loop of \<open>push\<close> once the buffer holds \<open>target\<close> bytes: a length prefix
  or a payload is complete. The decoder is returned with an error too, because it
  outlives the failed call.
\<close>

definition complete_part ::
  "(u8 list \<Rightarrow> 'v envelope option) \<Rightarrow> decoder \<Rightarrow> (frame_error + 'v envelope option) \<times> decoder" where
  "complete_part de d =
     (case expected d of
        None \<Rightarrow>
          (let len = from_le_bytes (take 4 (buffer d)); d' = d\<lparr>buffer := []\<rparr>
           in if len = 0 \<or> len > MAX_FRAME_BYTES then (Inl InvalidLength, d')
              else (Inr None, d'\<lparr>expected := Some len\<rparr>))
      | Some _ \<Rightarrow>
          (case de (buffer d) of
             None \<Rightarrow> (Inl PayloadError, d)
           | Some e \<Rightarrow>
               (let d' = d\<lparr>buffer := [], expected := None\<rparr>
                in if env_version e \<noteq> PROTOCOL_VERSION then (Inl (VersionMismatch (env_version e)), d')
                   else (Inr (Some e), d'))))"

definition frame_list :: "'a option \<Rightarrow> 'a list" where
  "frame_list fo = (case fo of None \<Rightarrow> [] | Some f \<Rightarrow> [f])"

lemma complete_Inr:
  assumes "complete_part de d = (Inr fo, d2)"
  shows "buffer d2 = []" and "0 < target d2" and "expected d2 = None \<or> the (expected d2) \<le> MAX_FRAME_BYTES"
  using assms by (auto simp: complete_part_def Let_def target_def split: option.splits if_splits)

text \<open>
  The loop of \<open>Decoder::push\<close>. \<open>target - buffer.len()\<close> is a \<open>usize\<close> subtraction: where
  it would overflow the result is \<open>SubtractOverflow\<close> (no decoder that was made by
  \<open>new\<close> gets there, see \<open>decoder_inv\<close> below). Every pass either consumes a byte or
  completes a frame part that was already full, and the buffer is then empty.
\<close>

function push_loop ::
  "(u8 list \<Rightarrow> 'v envelope option) \<Rightarrow> decoder \<Rightarrow> u8 list \<Rightarrow> 'v envelope list
    \<Rightarrow> (frame_error + 'v envelope list) \<times> decoder" where
  "push_loop de d bytes frames =
     (if bytes = [] then (Inr frames, d)
      else if length (buffer d) > target d then (Inl SubtractOverflow, d)
      else
        (let n = min (target d - length (buffer d)) (length bytes);
             d1 = d\<lparr>buffer := buffer d @ take n bytes\<rparr>;
             rest = drop n bytes
         in if length (buffer d1) \<noteq> target d then push_loop de d1 rest frames
            else
              (case complete_part de d1 of
                 (Inl e, d2) \<Rightarrow> (Inl e, d2)
               | (Inr fo, d2) \<Rightarrow> push_loop de d2 rest (frames @ frame_list fo))))"
  by pat_completeness auto

termination
proof (relation "measure (\<lambda>(de, d, bytes, frames).
    2 * length bytes + (if length (buffer d) = target d then 1 else 0))", goal_cases)
  case (2 de d bytes frames n d1 rest)
  then have "0 < n" by (auto simp: target_def split: if_splits)
  with 2 show ?case by (cases bytes) (auto simp: target_def)
next
  case (3 de d bytes frames n d1 rest r d2 fo)
  then have "buffer d2 = []" and "0 < target d2"
    using complete_Inr [of de d1 fo d2] by auto
  with 3 show ?case by (cases bytes) (auto simp: min_def split: if_splits)
qed simp_all

definition push ::
  "(u8 list \<Rightarrow> 'v envelope option) \<Rightarrow> decoder \<Rightarrow> u8 list \<Rightarrow> (frame_error + 'v envelope list) \<times> decoder" where
  "push de d bytes = push_loop de d bytes []"

definition finish :: "decoder \<Rightarrow> frame_error + unit" where
  "finish d = (if buffer d = [] \<and> expected d = None then Inr () else Inl Truncated)"

declare push_loop.simps [simp del]

lemma push_loop_Nil [simp]: "push_loop de d [] frames = (Inr frames, d)"
  by (simp add: push_loop.simps)

lemma push_loop_step:
  assumes "bytes \<noteq> []" and "length (buffer d) \<le> target d"
    and "n = min (target d - length (buffer d)) (length bytes)"
    and "d1 = d\<lparr>buffer := buffer d @ take n bytes\<rparr>"
  shows "push_loop de d bytes frames =
    (if length (buffer d1) \<noteq> target d then push_loop de d1 (drop n bytes) frames
     else (case complete_part de d1 of
             (Inl e, d2) \<Rightarrow> (Inl e, d2)
           | (Inr fo, d2) \<Rightarrow> push_loop de d2 (drop n bytes) (frames @ frame_list fo)))"
proof -
  from assms(2) have "(target d < length (buffer d)) = False" by simp
  with assms(1) show ?thesis
    unfolding assms(3,4) by (subst push_loop.simps) (simp only: Let_def if_False)
qed

subsection \<open>A byte-at-a-time reference\<close>

text \<open>
  The reference machine takes one byte and completes a part exactly when it is full. The
  buffered decoder is shown equal to it, which is why the boundaries of the chunks it
  gets cannot matter.
\<close>

definition step_byte ::
  "(u8 list \<Rightarrow> 'v envelope option) \<Rightarrow> decoder \<Rightarrow> u8 \<Rightarrow> (frame_error + 'v envelope option) \<times> decoder" where
  "step_byte de d b =
     (let d1 = d\<lparr>buffer := buffer d @ [b]\<rparr>
      in if length (buffer d1) \<noteq> target d then (Inr None, d1) else complete_part de d1)"

definition and_then ::
  "(frame_error + 'v envelope list) \<times> decoder
    \<Rightarrow> (decoder \<Rightarrow> (frame_error + 'v envelope list) \<times> decoder)
    \<Rightarrow> (frame_error + 'v envelope list) \<times> decoder" where
  "and_then r k =
     (case r of
        (Inl e, d) \<Rightarrow> (Inl e, d)
      | (Inr fs, d) \<Rightarrow>
          (case k d of (Inl e, d') \<Rightarrow> (Inl e, d') | (Inr gs, d') \<Rightarrow> (Inr (fs @ gs), d')))"

definition one_frame ::
  "(frame_error + 'v envelope option) \<times> decoder \<Rightarrow> (frame_error + 'v envelope list) \<times> decoder" where
  "one_frame r = (case r of (Inl e, d) \<Rightarrow> (Inl e, d) | (Inr fo, d) \<Rightarrow> (Inr (frame_list fo), d))"

fun run_bytes ::
  "(u8 list \<Rightarrow> 'v envelope option) \<Rightarrow> decoder \<Rightarrow> u8 list \<Rightarrow> (frame_error + 'v envelope list) \<times> decoder" where
  "run_bytes de d [] = (Inr [], d)"
| "run_bytes de d (b # bs) = and_then (one_frame (step_byte de d b)) (\<lambda>d'. run_bytes de d' bs)"

lemma and_then_assoc: "and_then (and_then r k) l = and_then r (\<lambda>d. and_then (k d) l)"
  by (simp add: and_then_def split: prod.splits sum.splits)

lemma and_then_return [simp]: "and_then (Inr [], d) k = k d"
  by (simp add: and_then_def split: prod.splits sum.splits)

lemma and_then_unit [simp]: "and_then r (\<lambda>d. (Inr [], d)) = r"
  by (simp add: and_then_def split: prod.splits sum.splits)

lemma run_append: "run_bytes de d (xs @ ys) = and_then (run_bytes de d xs) (\<lambda>d'. run_bytes de d' ys)"
  by (induction xs arbitrary: d) (simp_all add: and_then_assoc)

lemma run_partial:
  "length (buffer d) + length xs < target d \<Longrightarrow>
    run_bytes de d xs = (Inr [], d\<lparr>buffer := buffer d @ xs\<rparr>)"
proof (induction xs arbitrary: d)
  case (Cons x xs)
  let ?d = "d\<lparr>buffer := buffer d @ [x]\<rparr>"
  have t: "target ?d = target d" by (simp add: target_def)
  from Cons.prems have "step_byte de d x = (Inr None, ?d)"
    by (simp add: step_byte_def)
  moreover from Cons t have "run_bytes de ?d xs = (Inr [], ?d\<lparr>buffer := buffer ?d @ xs\<rparr>)" by simp
  ultimately show ?case by (simp add: one_frame_def frame_list_def)
qed simp

lemma run_complete:
  assumes "length (buffer d) + length xs = target d" and "xs \<noteq> []"
  shows "run_bytes de d xs = one_frame (complete_part de (d\<lparr>buffer := buffer d @ xs\<rparr>))"
proof -
  obtain ys y where xs: "xs = ys @ [y]" using assms(2) by (cases xs rule: rev_cases) auto
  let ?d = "d\<lparr>buffer := buffer d @ ys\<rparr>"
  have "target ?d = target d" by (simp add: target_def)
  moreover from assms(1) xs have "run_bytes de d ys = (Inr [], ?d)" by (simp add: run_partial)
  ultimately show ?thesis using assms(1) xs by (simp add: run_append step_byte_def)
qed

lemma complete_ready: "complete_part de d = (Inr fo, d2) \<Longrightarrow> length (buffer d2) < target d2"
  using complete_Inr by fastforce

lemma push_loop_run:
  "length (buffer d) < target d \<Longrightarrow>
    push_loop de d bytes frames = and_then (Inr frames, d) (\<lambda>d'. run_bytes de d' bytes)"
proof (induction de d bytes frames rule: push_loop.induct)
  case (1 de d bytes frames)
  show ?case
  proof (cases "bytes = []")
    case True
    then show ?thesis by (simp add: and_then_def)
  next
    case ne: False
    let ?n = "min (target d - length (buffer d)) (length bytes)"
    let ?d1 = "d\<lparr>buffer := buffer d @ take ?n bytes\<rparr>"
    have t: "target ?d1 = target d" by (simp add: target_def)
    show ?thesis
    proof (cases "length (buffer ?d1) = target d")
      case False
      with 1(3) have n: "?n = length bytes" by (auto simp: min_def split: if_splits)
      from 1(3) False have "length (buffer d) + length bytes < target d"
        by (auto simp: min_def split: if_splits)
      with ne False n 1(3) show ?thesis
        by (simp add: push_loop.simps [of de d bytes] run_partial and_then_def)
    next
      case True
      with 1(3) ne have len: "length (buffer d) + length (take ?n bytes) = target d" by simp
      moreover from this ne 1(3) have "take ?n bytes \<noteq> []" by auto
      ultimately have run: "run_bytes de d (take ?n bytes) = one_frame (complete_part de ?d1)"
        by (rule run_complete)
      have all: "run_bytes de d bytes
          = and_then (one_frame (complete_part de ?d1)) (\<lambda>d'. run_bytes de d' (drop ?n bytes))"
        using run_append [of de d "take ?n bytes" "drop ?n bytes"] run by simp
      obtain r d2 where c: "complete_part de ?d1 = (r, d2)" by (cases "complete_part de ?d1")
      show ?thesis
      proof (cases r)
        case (Inl e)
        with ne True c 1(3) all show ?thesis
          by (simp add: push_loop.simps [of de d bytes] and_then_def one_frame_def Let_def)
      next
        case (Inr fo)
        from c Inr have "length (buffer d2) < target d2" by (simp add: complete_ready)
        then have "push_loop de d2 (drop ?n bytes) (frames @ frame_list fo)
            = and_then (Inr (frames @ frame_list fo), d2) (\<lambda>d'. run_bytes de d' (drop ?n bytes))"
          using 1(2) ne True c Inr 1(3) by simp
        with ne True c Inr 1(3) all show ?thesis
          by (simp add: push_loop.simps [of de d bytes] and_then_def one_frame_def Let_def
              split: prod.splits sum.splits)
      qed
    qed
  qed
qed

lemma push_run: "length (buffer d) < target d \<Longrightarrow> push de d bytes = run_bytes de d bytes"
  by (simp add: push_def push_loop_run)

subsection \<open>A stream of chunks\<close>

text \<open>What a reader of the channel does: push every chunk, stop at the first error.\<close>

fun push_all ::
  "(u8 list \<Rightarrow> 'v envelope option) \<Rightarrow> decoder \<Rightarrow> u8 list list
    \<Rightarrow> (frame_error + 'v envelope list) \<times> decoder" where
  "push_all de d [] = (Inr [], d)"
| "push_all de d (c # cs) = and_then (push de d c) (\<lambda>d'. push_all de d' cs)"

lemma run_ready:
  "length (buffer d) < target d \<Longrightarrow> run_bytes de d bs = (Inr fs, d') \<Longrightarrow> length (buffer d') < target d'"
proof (induction bs arbitrary: d fs)
  case (Cons b bs)
  obtain r d1 where s: "step_byte de d b = (r, d1)" by (cases "step_byte de d b")
  with Cons.prems(2) obtain fo gs where r: "r = Inr fo" and run: "run_bytes de d1 bs = (Inr gs, d')"
    by (cases r) (auto simp: and_then_def one_frame_def split: prod.splits sum.splits)
  from s r Cons.prems(1) have "length (buffer d1) < target d1"
    by (auto simp: step_byte_def target_def Let_def split: if_splits dest: complete_ready)
  with run show ?case by (rule Cons.IH [rotated -1])
qed auto

lemma push_all_run:
  "length (buffer d) < target d \<Longrightarrow> push_all de d chunks = run_bytes de d (concat chunks)"
proof (induction chunks arbitrary: d)
  case (Cons c cs)
  obtain r d1 where run: "run_bytes de d c = (r, d1)" by (cases "run_bytes de d c")
  show ?case
  proof (cases r)
    case (Inl e)
    with Cons.prems run show ?thesis by (simp add: push_run run_append and_then_def)
  next
    case (Inr fs)
    with Cons.prems run have "length (buffer d1) < target d1" using run_ready by blast
    with Cons.IH Cons.prems run Inr show ?thesis
      by (simp add: push_run run_append and_then_def)
  qed
qed simp

subsection \<open>One encoded frame\<close>

lemma to_le_bytes_length [simp]: "length (to_le_bytes n) = 4"
  by (simp add: to_le_bytes_def)

lemma le_bytes_arith: "n < 4294967296 \<Longrightarrow>
  n mod 256 + 256 * (n div 256 mod 256 + 256 * (n div 65536 mod 256 + 256 * (n div 16777216 mod 256))) = n"
  for n :: nat
proof -
  assume n: "n < 4294967296"
  then have t: "n div 16777216 < 256" by (simp add: div_less_iff_less_mult)
  have d2: "n div 65536 = n div 256 div 256" and d3: "n div 16777216 = n div 256 div 256 div 256"
    by (simp_all flip: div_mult2_eq)
  from t have "n div 256 div 256 div 256 mod 256 = n div 256 div 256 div 256"
    unfolding d3 by (rule mod_less)
  then show ?thesis by (simp only: d2 d3 mod_mult_div_eq)
qed

lemma from_to_le_bytes: "n < 2 ^ 32 \<Longrightarrow> from_le_bytes (to_le_bytes n) = n"
  using le_bytes_arith [of n]
  by (simp add: to_le_bytes_def from_le_bytes_def unat_of_nat)

lemma run_length_prefix:
  assumes "0 < n" and "n \<le> MAX_FRAME_BYTES"
  shows "run_bytes de new_decoder (to_le_bytes n) = (Inr [], \<lparr>buffer = [], expected = Some n\<rparr>)"
proof -
  have "from_le_bytes (to_le_bytes n) = n"
    using assms by (intro from_to_le_bytes) (simp add: MAX_FRAME_BYTES_def)
  moreover have "to_le_bytes n \<noteq> []"
    using to_le_bytes_length [of n] by fastforce
  ultimately show ?thesis
    using assms run_complete [of new_decoder "to_le_bytes n" de]
    by (simp add: new_decoder_def target_def complete_part_def one_frame_def frame_list_def)
qed

lemma run_encoded:
  assumes enc: "encode ser e = Inr bytes" and ser: "ser e = Some payload" and ne: "payload \<noteq> []"
    and de: "de payload = Some e" and v: "env_version e = PROTOCOL_VERSION"
  shows "run_bytes de new_decoder bytes = (Inr [e], new_decoder)"
proof -
  let ?n = "length payload"
  from enc ser have bytes: "bytes = to_le_bytes ?n @ payload" and n: "?n \<le> MAX_FRAME_BYTES"
    by (auto simp: encode_def split: if_splits)
  let ?d = "\<lparr>buffer = [], expected = Some ?n\<rparr>"
  have "run_bytes de ?d payload = one_frame (complete_part de (?d\<lparr>buffer := payload\<rparr>))"
    using run_complete [of ?d payload de] ne by (simp add: target_def)
  also have "\<dots> = (Inr [e], new_decoder)"
    using de v by (simp add: complete_part_def one_frame_def frame_list_def new_decoder_def)
  finally show ?thesis
    using ne n by (simp add: bytes run_append run_length_prefix)
qed

lemma run_all_encoded:
  assumes "list_all2 (\<lambda>e b. encode ser e = Inr b) es bs"
    and rt: "\<And>e p. ser e = Some p \<Longrightarrow> p \<noteq> [] \<and> de p = Some e"
    and "\<forall>e \<in> set es. env_version e = PROTOCOL_VERSION"
  shows "run_bytes de new_decoder (concat bs) = (Inr es, new_decoder)"
  using assms(1,3)
proof (induction rule: list_all2_induct)
  case (Cons e es b bs)
  obtain p where p: "ser e = Some p" using Cons.hyps(1) by (auto simp: encode_def split: option.splits)
  with Cons rt [OF p] have "run_bytes de new_decoder b = (Inr [e], new_decoder)"
    by (intro run_encoded [of ser e b p]) auto
  with Cons show ?case by (simp add: run_append and_then_def)
qed simp

subsection \<open>The decoder between calls\<close>

definition decoder_inv :: "decoder \<Rightarrow> bool" where
  "decoder_inv d \<longleftrightarrow> length (buffer d) \<le> target d \<and> 0 < target d \<and> target d \<le> MAX_FRAME_BYTES"

lemma decoder_inv_new: "decoder_inv new_decoder"
  by (simp add: decoder_inv_def new_decoder_def target_def MAX_FRAME_BYTES_def)

lemma complete_inv:
  "decoder_inv d \<Longrightarrow> complete_part de d = (r, d2) \<Longrightarrow> decoder_inv d2 \<and> r \<noteq> Inl SubtractOverflow"
  by (auto simp: decoder_inv_def complete_part_def target_def MAX_FRAME_BYTES_def Let_def
      split: option.splits if_splits)

lemma push_loop_inv:
  "decoder_inv d \<Longrightarrow> push_loop de d bytes frames = (r, d')
    \<Longrightarrow> decoder_inv d' \<and> r \<noteq> Inl SubtractOverflow"
proof (induction de d bytes frames arbitrary: r d' rule: push_loop.induct)
  case (1 de d bytes frames)
  let ?n = "min (target d - length (buffer d)) (length bytes)"
  let ?d1 = "d\<lparr>buffer := buffer d @ take ?n bytes\<rparr>"
  have inv1: "decoder_inv ?d1"
    using 1(3) by (auto simp: decoder_inv_def target_def)
  have le: "length (buffer d) \<le> target d" using 1(3) by (simp add: decoder_inv_def)
  show ?case
  proof (cases "bytes = []")
    case True
    with 1(3,4) show ?thesis by auto
  next
    case ne: False
    note step = push_loop_step [OF ne le refl refl, of de frames]
    show ?thesis
    proof (cases "length (buffer ?d1) = target d")
      case False
      with 1(4) have "push_loop de ?d1 (drop ?n bytes) frames = (r, d')"
        unfolding step by (simp only: if_True not_False_eq_True simp_thms)
      with 1(1) ne le inv1 False show ?thesis by simp
    next
      case True
      obtain q d2 where c: "complete_part de ?d1 = (q, d2)" by (cases "complete_part de ?d1")
      with inv1 have inv2: "decoder_inv d2 \<and> q \<noteq> Inl SubtractOverflow" by (rule complete_inv)
      show ?thesis
      proof (cases q)
        case (Inl e)
        with True c 1(4) inv2 show ?thesis unfolding step by auto
      next
        case (Inr fo)
        with True c 1(4) have "push_loop de d2 (drop ?n bytes) (frames @ frame_list fo) = (r, d')"
          unfolding step by simp
        from 1(2) [OF ne _ refl refl refl _ c [symmetric] Inr _ this] le True inv2 show ?thesis by simp
      qed
    qed
  qed
qed

inductive decoder_reachable :: "(u8 list \<Rightarrow> 'v envelope option) \<Rightarrow> decoder \<Rightarrow> bool" for de where
  fresh: "decoder_reachable de new_decoder"
| pushed: "decoder_reachable de d \<Longrightarrow> decoder_reachable de (snd (push de d bytes))"

lemma decoder_reachable_inv: "decoder_reachable de d \<Longrightarrow> decoder_inv d"
proof (induction rule: decoder_reachable.induct)
  case (pushed d bytes)
  then show ?case
    using push_loop_inv [of d de bytes "[]" "fst (push de d bytes)" "snd (push de d bytes)"]
    by (simp add: push_def)
qed (rule decoder_inv_new)

subsection \<open>Properties\<close>

text \<open>
  C13. The boundaries of the chunks a channel delivers do not matter: pushing a stream
  chunk by chunk gives the same frames, the same error and the same decoder as pushing
  it at once, whatever the (ready) decoder already holds.
\<close>

theorem push_chunks:
  assumes "length (buffer d) < target d"
  shows "push_all de d chunks = push de d (concat chunks)"
  using assms by (simp add: push_all_run push_run)

theorem push_chunks_witness:
  "push_all (\<lambda>_. None) new_decoder [[1, 0], [0, 0, 7]]
     = (push (\<lambda>_. None) new_decoder [1, 0, 0, 0, 7] :: (frame_error + unit envelope list) \<times> decoder)"
  using push_chunks [of new_decoder "\<lambda>_. None :: unit envelope option" "[[1, 0], [0, 0, 7]]"]
  by (simp add: new_decoder_def target_def)

text \<open>
  C32. Frames survive the channel: when every envelope of \<open>es\<close> is encoded and the bytes
  arrive in any fragmentation, the decoder returns exactly \<open>es\<close>, is fresh again and
  \<open>finish\<close> accepts. What is relied on of the JSON serialiser is that it reads back what
  it wrote and never writes an empty text.
\<close>

theorem encode_push_roundtrip:
  assumes "list_all2 (\<lambda>e b. encode ser e = Inr b) es bs"
    and "\<And>e p. ser e = Some p \<Longrightarrow> p \<noteq> [] \<and> de p = Some e"
    and "\<forall>e \<in> set es. env_version e = PROTOCOL_VERSION"
    and "concat chunks = concat bs"
  shows "push_all de new_decoder chunks = (Inr es, new_decoder) \<and> finish new_decoder = Inr ()"
proof -
  have "push_all de new_decoder chunks = run_bytes de new_decoder (concat bs)"
    using assms(4) by (simp add: push_all_run new_decoder_def target_def)
  with run_all_encoded [OF assms(1,2,3)] show ?thesis
    by (simp add: finish_def new_decoder_def)
qed

definition ping_envelope :: "unit envelope" where
  "ping_envelope = new_envelope 7 0 Ping"

definition ping_ser :: "unit envelope \<Rightarrow> u8 list option" where
  "ping_ser e = (if e = ping_envelope then Some [123, 125] else None)"

definition ping_de :: "u8 list \<Rightarrow> unit envelope option" where
  "ping_de p = (if p = [123, 125] then Some ping_envelope else None)"

lemma ping_encoded: "encode ping_ser ping_envelope = Inr [2, 0, 0, 0, 123, 125]"
  by (simp add: encode_def ping_ser_def MAX_FRAME_BYTES_def to_le_bytes_def)

lemma ping_version: "env_version ping_envelope = PROTOCOL_VERSION"
  by (simp add: ping_envelope_def new_envelope_def)

theorem encode_push_roundtrip_witness:
  "push_all ping_de new_decoder [[2], [0, 0, 0, 123, 125, 2, 0, 0], [0, 123, 125]]
     = (Inr [ping_envelope, ping_envelope], new_decoder) \<and> finish new_decoder = Inr ()"
  by (rule encode_push_roundtrip [where ser = ping_ser
        and bs = "[[2, 0, 0, 0, 123, 125], [2, 0, 0, 0, 123, 125]]"])
    (simp_all add: ping_encoded ping_version ping_ser_def ping_de_def split: if_splits)

text \<open>
  Memory of a decoder is bounded whatever the peer sends: in every state it can reach,
  also after failed calls, it buffers at most 16 MiB, and the subtraction in its loop
  never overflows.
\<close>

theorem decoder_bounded:
  assumes "decoder_reachable de d"
  shows "length (buffer d) \<le> MAX_FRAME_BYTES \<and> fst (push de d bytes) \<noteq> Inl SubtractOverflow"
proof -
  from assms have inv: "decoder_inv d" by (rule decoder_reachable_inv)
  then have "fst (push de d bytes) \<noteq> Inl SubtractOverflow"
    using push_loop_inv [of d de bytes "[]"] by (simp add: push_def prod_eq_iff)
  with inv show ?thesis by (simp add: decoder_inv_def)
qed

theorem decoder_bounded_witness:
  "length (buffer (snd (push ping_de new_decoder [9, 0]))) \<le> MAX_FRAME_BYTES
    \<and> fst (push ping_de (snd (push ping_de new_decoder [9, 0])) [1]) \<noteq> Inl SubtractOverflow"
  by (rule decoder_bounded) (intro decoder_reachable.intros)

text \<open>
  A malformed payload ends the stream for good: once \<open>push\<close> failed on it, every later
  call with at least one byte fails the same way, so no frame after it is ever delivered.
\<close>

theorem payload_error_is_final:
  assumes "decoder_reachable de d" and "push de d bytes = (Inl PayloadError, d')" and "later \<noteq> []"
  shows "push de d' later = (Inl PayloadError, d')"
proof -
  have *: "push_loop de d bytes frames = (Inl PayloadError, d') \<Longrightarrow>
      \<exists>n. expected d' = Some n \<and> length (buffer d') = n \<and> de (buffer d') = None" for d frames
  proof (induction de d bytes frames rule: push_loop.induct)
    case (1 de d bytes frames)
    from 1(3) have ne: "bytes \<noteq> []" by auto
    have le: "length (buffer d) \<le> target d"
      using 1(3) ne by (auto simp: push_loop.simps [of de d bytes] split: if_splits)
    let ?n = "min (target d - length (buffer d)) (length bytes)"
    let ?d1 = "d\<lparr>buffer := buffer d @ take ?n bytes\<rparr>"
    note step = push_loop_step [OF ne le refl refl, of de frames]
    show ?case
    proof (cases "length (buffer ?d1) = target d")
      case False
      with 1(3) have "push_loop de ?d1 (drop ?n bytes) frames = (Inl PayloadError, d')"
        unfolding step by (simp only: if_True not_False_eq_True simp_thms)
      from 1(1) [OF ne _ refl refl refl False this] le show ?thesis by simp
    next
      case True
      obtain q d2 where c: "complete_part de ?d1 = (q, d2)" by (cases "complete_part de ?d1")
      show ?thesis
      proof (cases q)
        case (Inl e)
        with True c 1(3) have "complete_part de ?d1 = (Inl PayloadError, d')" unfolding step by simp
        with True show ?thesis
          by (auto simp: complete_part_def target_def Let_def split: option.splits if_splits)
      next
        case (Inr fo)
        with True c 1(3) have "push_loop de d2 (drop ?n bytes) (frames @ frame_list fo) = (Inl PayloadError, d')"
          unfolding step by simp
        from 1(2) [OF ne _ refl refl refl _ c [symmetric] Inr this] le True show ?thesis by simp
      qed
    qed
  qed
  from * [of d "[]"] assms(2) obtain n where
    d': "expected d' = Some n" "length (buffer d') = n" "de (buffer d') = None"
    by (auto simp: push_def)
  with assms(3) have "push_loop de d' later [] = (Inl PayloadError, d')"
    by (subst push_loop_step [OF assms(3) _ refl refl]) (simp_all add: target_def complete_part_def)
  then show ?thesis by (simp add: push_def)
qed

theorem payload_error_is_final_witness:
  "push ping_de (snd (push ping_de new_decoder [1, 0, 0, 0, 9])) [2]
     = (Inl PayloadError, snd (push ping_de new_decoder [1, 0, 0, 0, 9]))"
proof (rule payload_error_is_final)
  show "decoder_reachable ping_de new_decoder" by (rule decoder_reachable.fresh)
  show "push ping_de new_decoder [1, 0, 0, 0, 9]
      = (Inl PayloadError, snd (push ping_de new_decoder [1, 0, 0, 0, 9]))"
    by (simp add: push_run new_decoder_def target_def step_byte_def complete_part_def
        from_le_bytes_def MAX_FRAME_BYTES_def one_frame_def frame_list_def and_then_def ping_de_def)
qed simp

text \<open>
  A manifest that passes \<open>validate\<close> names only plain files: no entry has a directory
  part, a drive or stream colon, a dot-only name or a trailing dot or space, none stands
  for the bridge or the manifest itself (in any case), every hash is 64 lower-case hex
  digits, and the driver executable is among the entries.
\<close>

theorem valid_manifest_entries:
  assumes "validate_manifest m = Inr ()" and "(name, hash) \<in> set (mf_files m)"
  shows "name \<noteq> [] \<and> set name \<inter> set entry_name_forbidden = {}
    \<and> name \<noteq> lit ''.'' \<and> name \<noteq> lit ''..'' \<and> last name \<notin> {ch CHR ''.'', ch CHR '' ''}
    \<and> \<not> eq_ignore_ascii_case name BRIDGE_EXE_NAME \<and> \<not> eq_ignore_ascii_case name MANIFEST_NAME
    \<and> length hash = 64 \<and> list_all is_lower_hex hash \<and> CUA_DRIVER_EXE_NAME \<in> fst ` set (mf_files m)"
proof -
  have ok: "check_files files = Inr () \<Longrightarrow> (name, hash) \<in> set files \<Longrightarrow>
      check_archive_entry_name name = Inr () \<and> check_sha256 hash = Inr ()
      \<and> \<not> eq_ignore_ascii_case name BRIDGE_EXE_NAME \<and> \<not> eq_ignore_ascii_case name MANIFEST_NAME"
    for files
    by (induction files rule: check_files.induct) (auto split: sum.splits if_splits)
  from assms(1) have "check_files (mf_files m) = Inr ()"
    and drv: "CUA_DRIVER_EXE_NAME \<in> fst ` set (mf_files m)"
    by (auto simp: validate_manifest_def split: sum.splits if_splits)
  note checks = ok [OF this(1) assms(2)]
  then have hash: "str_len hash = 64" "list_all is_lower_hex hash"
    by (auto simp: check_sha256_def split: if_splits)
  then have "length hash = 64"
    by (auto simp: is_lower_hex_def list_all_iff intro!: str_len_ascii [THEN sym, THEN trans])
  with checks drv hash show ?thesis
    by (auto simp: check_archive_entry_name_def ends_with_def list_ex_iff split: if_splits)
qed

definition sample_manifest :: bundle_manifest where
  "sample_manifest = \<lparr>mf_bundle_id = lit ''cua-1'', mf_cua_version = lit ''0.1.2'',
     mf_archive_name = lit ''cua.zip'', mf_archive_sha256 = replicate 64 97,
     mf_bridge_sha256 = replicate 64 97, mf_files = [(lit ''cua-driver.exe'', replicate 64 97)]\<rparr>"

theorem valid_manifest_entries_witness:
  "validate_manifest sample_manifest = Inr ()
    \<and> set (lit ''cua-driver.exe'') \<inter> set entry_name_forbidden = {}"
proof -
  have v: "validate_manifest sample_manifest = Inr ()" by code_simp
  have "(lit ''cua-driver.exe'', replicate 64 97) \<in> set (mf_files sample_manifest)"
    by (simp add: sample_manifest_def)
  with v valid_manifest_entries [OF v this] show ?thesis by simp
qed

end
