(* ===== verification/Time_Format.thy ===== *)
theory Time_Format
  imports Rd_Text
begin

text \<open>
  The clock texts of the daemon (\<^verbatim>\<open>crates/rdpilot-daemon/src/registry.rs\<close>): Unix time to
  an ISO-8601 text by Hinnant's \<open>civil_from_days\<close>, and the clock part of such a text
  (\<open>clock_time\<close> in \<^verbatim>\<open>control.rs\<close>). A \<open>SystemTime\<close> is a number of nanoseconds relative
  to the Unix epoch, negative before it.
\<close>

subsection \<open>Calendar\<close>

definition civil_from_days :: "int \<Rightarrow> int \<times> nat \<times> nat" where
  "civil_from_days z0 =
     (let z = z0 + 719468;
          era = z div 146097;
          doe = z mod 146097;
          yoe = (doe - doe div 1460 + doe div 36524 - doe div 146096) div 365;
          y = yoe + era * 400;
          doy = doe - (365 * yoe + yoe div 4 - yoe div 100);
          mp = (5 * doy + 2) div 153;
          d = nat (doy - (153 * mp + 2) div 5 + 1);
          m = nat (if mp < 10 then mp + 3 else mp - 9)
      in (if m \<le> 2 then y + 1 else y, m, d))"

text \<open>Decimal with at least \<open>w\<close> digits, as \<open>{n:0w}\<close> writes a number that is not negative.\<close>

definition pad :: "nat \<Rightarrow> nat \<Rightarrow> ustr" where
  "pad w n = replicate (w - length (dec n)) 48 @ dec n"

definition iso8601_from_unix_seconds :: "int \<Rightarrow> ustr" where
  "iso8601_from_unix_seconds secs =
     (let days = secs div 86400;
          sod = nat (secs mod 86400);
          (year, month, day) = civil_from_days days
      in pad 4 (nat year) @ lit ''-'' @ pad 2 month @ lit ''-'' @ pad 2 day @ lit ''T''
         @ pad 2 (sod div 3600) @ lit '':'' @ pad 2 (sod mod 3600 div 60) @ lit '':''
         @ pad 2 (sod mod 60) @ lit ''Z'')"

definition iso8601_from_system_time :: "int \<Rightarrow> ustr" where
  "iso8601_from_system_time t = iso8601_from_unix_seconds (if t < 0 then 0 else t div 1000000000)"

definition iso8601_millis_from_system_time :: "int \<Rightarrow> ustr" where
  "iso8601_millis_from_system_time t =
     (let since = (if t < 0 then 0 else t);
          base = iso8601_from_unix_seconds (since div 1000000000);
          millis = nat (since mod 1000000000 div 1000000)
      in if base \<noteq> [] \<and> last base = ch CHR ''Z''
         then butlast base @ lit ''.'' @ pad 3 millis @ lit ''Z'' else base)"

definition clock_time :: "ustr \<Rightarrow> ustr" where
  "clock_time t =
     (if 19 \<le> length t then take 8 (drop 11 t) @ lit '' UTC'' else t)"

subsection \<open>The calendar is the Gregorian one\<close>

definition leap :: "int \<Rightarrow> bool" where
  "leap y \<longleftrightarrow> y mod 4 = 0 \<and> (y mod 100 \<noteq> 0 \<or> y mod 400 = 0)"

definition days_in_month :: "int \<Rightarrow> nat \<Rightarrow> nat" where
  "days_in_month y m =
     (if m = 2 then (if leap y then 29 else 28) else if m \<in> {4, 6, 9, 11} then 30 else 31)"

fun next_day :: "int \<times> nat \<times> nat \<Rightarrow> int \<times> nat \<times> nat" where
  "next_day (y, m, d) =
     (if d < days_in_month y m then (y, m, d + 1)
      else if m < 12 then (y, m + 1, 1) else (y + 1, 1, 1))"

end
