(* ===== verification/Session_Events.thy ===== *)
theory Session_Events
  imports Time_Format
begin

text \<open>
  The per-session event log, \<^verbatim>\<open>crates/rdpilot-daemon/src/events.rs\<close>: a ring of the newest
  200 events with gapless sequence numbers, an optional sink (the recorder) that gets
  every event in order, and the call records of the native verbs. The descriptors of
  controllers and lease ends come from \<^verbatim>\<open>control.rs\<close>. Time is an argument: \<open>now\<close> is the
  monotonic clock in nanoseconds, \<open>frame_seq\<close> the frame number read before the lock.
\<close>

subsection \<open>Data\<close>

definition RING_CAPACITY :: nat where "RING_CAPACITY = 200"
definition SCHEMA :: nat where "SCHEMA = 1"

record log_header =
  lh_schema :: nat
  lh_log_id :: ustr
  lh_session :: ustr
  lh_incarnation :: nat
  lh_started_at :: ustr

datatype event_source = Cua | Cli | Viewer | Daemon

datatype stop_reason = Requested | StopSessionClosed | StopDaemonStopped | StopWriteError | StopEncoderError

definition stop_reason_str :: "stop_reason \<Rightarrow> ustr" where
  "stop_reason_str r =
     (case r of
        Requested \<Rightarrow> lit ''requested''
      | StopSessionClosed \<Rightarrow> lit ''session_closed''
      | StopDaemonStopped \<Rightarrow> lit ''daemon_stopped''
      | StopWriteError \<Rightarrow> lit ''write_error''
      | StopEncoderError \<Rightarrow> lit ''encoder_error'')"

datatype close_reason = Disconnect | IdleReap | ConnectAborted
datatype segment_close_reason = SegDuration | SegResize | SegStop | SegSizeCap | SegError
datatype video_stop_reason = VideoSizeCap | VideoEncoderError | VideoWriteError
datatype call_outcome = CallOk | CallError | NoReply
datatype recording_trigger = TrigConfig | TrigHost | TrigConnectFlag | TrigCli | TrigViewer

datatype controller_ref = Agent | Human (human_address: ustr)

datatype end_reason = HeartbeatLost | IdleTimeout | ViewerStopped | EndSessionEnded | EndDaemonStopped

datatype event_kind =
    CallStarted nat ustr
  | CallFinished nat ustr call_outcome nat
  | CuaAttached nat
  | CuaDetached nat ustr
  | SessionEnded
  | RecordingStarted recording_trigger
  | RecordingStopped stop_reason
  | SessionClosed close_reason
  | DesktopResized nat nat
  | SegmentStarted nat nat nat nat
  | SegmentClosed nat nat nat nat segment_close_reason
  | FramesDropped nat nat nat
  | EventsLost nat
  | VideoStopped video_stop_reason
  | Annotation ustr
  | ControlTaken controller_ref
  | ControlTakenOver controller_ref controller_ref
  | ControlReleased controller_ref
  | ControlEnded controller_ref end_reason
  | Unknown

record session_event =
  ev_seq :: nat
  ev_at :: ustr
  ev_offset_ms :: nat
  ev_frame_seq :: nat
  ev_source :: event_source
  ev_kind :: event_kind

record session_clock =
  clk_start :: nat
  clk_start_wall :: int

text \<open>
  \<open>sink\<close> is what has been offered to the attached sink, oldest first; \<open>None\<close> when no sink
  is attached.
\<close>

record session_events =
  se_header :: log_header
  se_clock :: session_clock
  ring_events :: "session_event list"
  ring_latest :: nat
  sink :: "session_event list option"
  se_next_call :: nat

definition offset_ms :: "session_clock \<Rightarrow> nat \<Rightarrow> nat" where
  "offset_ms c t = min ((t - clk_start c) div 1000000) u64_max"

definition wall :: "session_clock \<Rightarrow> nat \<Rightarrow> int" where
  "wall c t = clk_start_wall c + int (t - clk_start c)"

definition new_session_events :: "ustr \<Rightarrow> ustr \<Rightarrow> nat \<Rightarrow> session_clock \<Rightarrow> session_events" where
  "new_session_events log_id session incarnation c =
     \<lparr>se_header = \<lparr>lh_schema = SCHEMA, lh_log_id = log_id, lh_session = session,
                   lh_incarnation = incarnation,
                   lh_started_at = iso8601_millis_from_system_time (clk_start_wall c)\<rparr>,
      se_clock = c, ring_events = [], ring_latest = 0, sink = None, se_next_call = 1\<rparr>"

subsection \<open>Operations\<close>

definition stamp ::
  "session_events \<Rightarrow> nat \<Rightarrow> nat \<Rightarrow> nat \<Rightarrow> event_source \<Rightarrow> event_kind \<Rightarrow> session_event" where
  "stamp s now seq frame_seq src kind =
     \<lparr>ev_seq = seq, ev_at = iso8601_millis_from_system_time (wall (se_clock s) now),
      ev_offset_ms = offset_ms (se_clock s) now, ev_frame_seq = frame_seq,
      ev_source = src, ev_kind = kind\<rparr>"

definition push_event :: "session_event \<Rightarrow> session_events \<Rightarrow> session_events" where
  "push_event e s =
     s\<lparr>ring_events := (if length (ring_events s) = RING_CAPACITY then tl (ring_events s)
                       else ring_events s) @ [e]\<rparr>"

definition offer_sink :: "session_event \<Rightarrow> session_events \<Rightarrow> session_events" where
  "offer_sink e s = s\<lparr>sink := map_option (\<lambda>got. got @ [e]) (sink s)\<rparr>"

text \<open>\<open>SessionEvents::record\<close>: the new sequence number and the log.\<close>

definition record_event ::
  "nat \<Rightarrow> nat \<Rightarrow> event_source \<Rightarrow> event_kind \<Rightarrow> session_events \<Rightarrow> nat \<times> session_events" where
  "record_event now frame_seq src kind s =
     (let latest = ring_latest s + 1;
          event = stamp s now latest frame_seq src kind
      in (latest, offer_sink event (push_event event (s\<lparr>ring_latest := latest\<rparr>))))"

text \<open>\<open>attach_sink\<close>: refused (\<open>None\<close>) when a sink is attached already.\<close>

definition attach_sink ::
  "nat \<Rightarrow> nat \<Rightarrow> event_source \<Rightarrow> event_kind \<Rightarrow> session_events \<Rightarrow> (session_event \<times> session_events) option" where
  "attach_sink now frame_seq src kind s =
     (case sink s of
        Some _ \<Rightarrow> None
      | None \<Rightarrow> (let first = stamp s now 0 frame_seq src kind in Some (first, s\<lparr>sink := Some [first]\<rparr>)))"

text \<open>
  \<open>detach_sink\<close>: the final event, what the sink got in all, and the log; \<open>None\<close> without a
  sink.
\<close>

definition detach_sink ::
  "nat \<Rightarrow> nat \<Rightarrow> event_source \<Rightarrow> event_kind \<Rightarrow> session_events
    \<Rightarrow> (session_event \<times> session_event list \<times> session_events) option" where
  "detach_sink now frame_seq src kind s =
     (case sink s of
        None \<Rightarrow> None
      | Some got \<Rightarrow>
          (let last = stamp s now 0 frame_seq src kind in Some (last, got @ [last], s\<lparr>sink := None\<rparr>)))"

text \<open>\<open>record_detached\<close>: \<open>took\<close> is the answer of the sink.\<close>

definition record_detached ::
  "nat \<Rightarrow> nat \<Rightarrow> bool \<Rightarrow> event_source \<Rightarrow> event_kind \<Rightarrow> session_events \<Rightarrow> bool \<times> session_events" where
  "record_detached now frame_seq took src kind s =
     (case sink s of
        None \<Rightarrow> (False, s)
      | Some _ \<Rightarrow> (took, offer_sink (stamp s now 0 frame_seq src kind) s))"

definition next_call :: "session_events \<Rightarrow> nat \<times> session_events" where
  "next_call s = (se_next_call s, s\<lparr>se_next_call := se_next_call s + 1\<rparr>)"

definition call_started ::
  "nat \<Rightarrow> nat \<Rightarrow> event_source \<Rightarrow> ustr \<Rightarrow> session_events \<Rightarrow> nat \<times> session_events" where
  "call_started now frame_seq src name s =
     (let (call, s1) = next_call s
      in (call, snd (record_event now frame_seq src (CallStarted call name) s1)))"

definition call_finished ::
  "nat \<Rightarrow> nat \<Rightarrow> event_source \<Rightarrow> nat \<Rightarrow> ustr \<Rightarrow> call_outcome \<Rightarrow> nat \<Rightarrow> session_events \<Rightarrow> session_events" where
  "call_finished now frame_seq src call name outcome started s =
     (let duration_ms = min ((now - started) div 1000000) u64_max
      in snd (record_event now frame_seq src (CallFinished call name outcome duration_ms) s))"

record events_page =
  pg_header :: log_header
  pg_oldest :: nat
  pg_latest :: nat
  pg_events :: "session_event list"

definition events_after :: "nat \<Rightarrow> session_events \<Rightarrow> events_page" where
  "events_after after s =
     (let latest = ring_latest s;
          oldest = (case ring_events s of [] \<Rightarrow> latest + 1 | e # _ \<Rightarrow> ev_seq e)
      in \<lparr>pg_header = se_header s, pg_oldest = oldest, pg_latest = latest,
          pg_events = filter (\<lambda>e. ev_seq e > after) (ring_events s)\<rparr>)"

subsection \<open>A native verb in flight\<close>

record cli_call =
  cc_call :: nat
  cc_name :: ustr
  cc_started :: nat
  cc_finished :: bool

definition cli_call_start :: "nat \<Rightarrow> nat \<Rightarrow> ustr \<Rightarrow> session_events \<Rightarrow> cli_call \<times> session_events" where
  "cli_call_start now frame_seq name s =
     (let (call, s1) = call_started now frame_seq Cli name s
      in (\<lparr>cc_call = call, cc_name = name, cc_started = now, cc_finished = False\<rparr>, s1))"

definition cli_call_end ::
  "nat \<Rightarrow> nat \<Rightarrow> call_outcome \<Rightarrow> cli_call \<times> session_events \<Rightarrow> cli_call \<times> session_events" where
  "cli_call_end now frame_seq outcome cs =
     (let (c, s) = cs
      in if cc_finished c then (c, s)
         else (c\<lparr>cc_finished := True\<rparr>,
               call_finished now frame_seq Cli (cc_call c) (cc_name c) outcome (cc_started c) s))"

definition cli_call_drop :: "nat \<Rightarrow> nat \<Rightarrow> cli_call \<times> session_events \<Rightarrow> session_events" where
  "cli_call_drop now frame_seq cs = snd (cli_call_end now frame_seq NoReply cs)"

text \<open>\<open>finish\<close> takes the call by value, so its drop follows at once.\<close>

definition cli_call_finish :: "nat \<Rightarrow> nat \<Rightarrow> bool \<Rightarrow> cli_call \<times> session_events \<Rightarrow> session_events" where
  "cli_call_finish now frame_seq ok cs =
     cli_call_drop now frame_seq (cli_call_end now frame_seq (if ok then CallOk else CallError) cs)"

subsection \<open>The ring is a bounded queue\<close>

lemma push_event_fields [simp]:
  "ring_latest (push_event e s) = ring_latest s" "sink (push_event e s) = sink s"
  "se_header (push_event e s) = se_header s" "se_next_call (push_event e s) = se_next_call s"
  "se_clock (push_event e s) = se_clock s"
  by (simp_all add: push_event_def)

lemma offer_sink_fields [simp]:
  "ring_events (offer_sink e s) = ring_events s" "ring_latest (offer_sink e s) = ring_latest s"
  "se_header (offer_sink e s) = se_header s" "se_next_call (offer_sink e s) = se_next_call s"
  "se_clock (offer_sink e s) = se_clock s"
  "sink (offer_sink e s) = map_option (\<lambda>got. got @ [e]) (sink s)"
  by (simp_all add: offer_sink_def)

interpretation ring: bounded_queue ring_events push_event RING_CAPACITY
proof
  show "0 < RING_CAPACITY" by (simp add: RING_CAPACITY_def)
  show "ring_events (push_event e s) = take_last RING_CAPACITY (ring_events s @ [e])"
    if "length (ring_events s) \<le> RING_CAPACITY" for e s
    using that \<open>0 < RING_CAPACITY\<close> by (auto simp: push_event_def take_last_snoc)
qed

lemma record_ring:
  "ring_events (snd (record_event now f src k s)) =
     ring_events (push_event (stamp s now (ring_latest s + 1) f src k) s)"
  by (simp add: record_event_def Let_def push_event_def)

lemma record_fields [simp]:
  "fst (record_event now f src k s) = ring_latest s + 1"
  "ring_latest (snd (record_event now f src k s)) = ring_latest s + 1"
  "se_header (snd (record_event now f src k s)) = se_header s"
  "se_clock (snd (record_event now f src k s)) = se_clock s"
  "se_next_call (snd (record_event now f src k s)) = se_next_call s"
  "sink (snd (record_event now f src k s)) =
     map_option (\<lambda>got. got @ [stamp s now (ring_latest s + 1) f src k]) (sink s)"
  by (simp_all add: record_event_def Let_def)

lemma stamp_seq [simp]: "ev_seq (stamp s now n f src k) = n"
  and stamp_kind [simp]: "ev_kind (stamp s now n f src k) = k"
  and stamp_source [simp]: "ev_source (stamp s now n f src k) = src"
  by (simp_all add: stamp_def)

subsection \<open>Every way the log changes\<close>

text \<open>
  One step of a log: an event of any kind is recorded, the recorder attaches, detaches or
  gets an event of its own, or a call number is drawn.
\<close>

inductive log_step :: "session_events \<Rightarrow> session_events \<Rightarrow> bool" where
  recorded: "log_step s (snd (record_event now f src k s))"
| attached: "attach_sink now f src k s = Some (e, s') \<Longrightarrow> log_step s s'"
| detached: "detach_sink now f src k s = Some (e, got, s') \<Longrightarrow> log_step s s'"
| offered: "log_step s (snd (record_detached now f took src k s))"
| numbered: "log_step s (snd (next_call s))"

inductive_cases log_stepE: "log_step s s'"

definition ring_ok :: "session_events \<Rightarrow> bool" where
  "ring_ok s \<longleftrightarrow>
     map ev_seq (ring_events s) = take_last RING_CAPACITY [1..<Suc (ring_latest s)]"

lemma ring_ok_new: "ring_ok (new_session_events l n i c)"
  by (simp add: ring_ok_def new_session_events_def)

lemma map_take_last: "map f (take_last n xs) = take_last n (map f xs)"
  by (simp add: take_last_def drop_map)

lemma ring_ok_length: "ring_ok s \<Longrightarrow> length (ring_events s) = min RING_CAPACITY (ring_latest s)"
proof -
  assume "ring_ok s"
  then have "length (map ev_seq (ring_events s)) = length (take_last RING_CAPACITY [1..<Suc (ring_latest s)])"
    by (simp only: ring_ok_def)
  then show ?thesis by simp
qed

lemma ring_ok_push:
  assumes "ring_ok s" and "ev_seq e = ring_latest s + 1"
  shows "map ev_seq (ring_events (push_event e s))
    = take_last RING_CAPACITY [1..<Suc (ring_latest s + 1)]"
proof -
  have "map ev_seq (ring_events (push_event e s))
      = take_last RING_CAPACITY (map ev_seq (ring_events s) @ [ring_latest s + 1])"
    using assms ring_ok_length [OF assms(1)] by (simp add: ring.items_push map_take_last)
  also have "\<dots> = take_last RING_CAPACITY ([1..<Suc (ring_latest s)] @ [ring_latest s + 1])"
    using assms(1) by (simp only: ring_ok_def take_last_append)
  finally show ?thesis by simp
qed

lemma log_step_ring_ok: "log_step s s' \<Longrightarrow> ring_ok s \<Longrightarrow> ring_ok s'"
proof (induction rule: log_step.induct)
  case (recorded s now f src k)
  then show ?case
    using ring_ok_push [OF recorded, of "stamp s now (ring_latest s + 1) f src k"]
    by (simp add: ring_ok_def record_ring)
qed (auto simp: ring_ok_def attach_sink_def detach_sink_def record_detached_def next_call_def Let_def
    split: option.splits)

inductive log_reachable :: "session_events \<Rightarrow> bool" where
  fresh: "log_reachable (new_session_events l n i c)"
| step: "log_reachable s \<Longrightarrow> log_step s s' \<Longrightarrow> log_reachable s'"

lemma log_reachable_ring_ok: "log_reachable s \<Longrightarrow> ring_ok s"
  by (induction rule: log_reachable.induct) (auto intro: ring_ok_new log_step_ring_ok)

lemma ring_ok_seqs:
  "ring_ok s \<Longrightarrow> map ev_seq (ring_events s) = [Suc (ring_latest s) - length (ring_events s)..<Suc (ring_latest s)]"
  using ring_ok_length [of s]
  by (auto simp: ring_ok_def take_last_def drop_upt min_def Suc_diff_le simp del: upt_Suc)

lemma events_after_cong:
  "ring_events s' = ring_events s \<Longrightarrow> ring_latest s' = ring_latest s \<Longrightarrow> se_header s' = se_header s
    \<Longrightarrow> events_after after s' = events_after after s"
  by (simp add: events_after_def)

subsection \<open>Properties\<close>

text \<open>
  The in-memory log of a session is bounded and gapless: in every state it can reach it
  holds exactly the newest \<open>min 200 latest\<close> events, with consecutive sequence numbers that
  end at \<open>latest\<close>.
\<close>

theorem ring_newest_gapless:
  assumes "log_reachable s"
  shows "length (ring_events s) = min RING_CAPACITY (ring_latest s)
    \<and> map ev_seq (ring_events s) = [Suc (ring_latest s) - length (ring_events s)..<Suc (ring_latest s)]"
  using log_reachable_ring_ok [OF assms] by (simp add: ring_ok_length ring_ok_seqs)

definition sample_log :: session_events where
  "sample_log = new_session_events (lit ''ab'') (lit ''work'') 7 \<lparr>clk_start = 0, clk_start_wall = 0\<rparr>"

lemma sample_reachable: "log_reachable (snd (record_event 5 0 Cli SessionEnded sample_log))"
  unfolding sample_log_def by (rule log_reachable.step [OF log_reachable.fresh log_step.recorded])

theorem ring_newest_gapless_witness:
  "length (ring_events (snd (record_event 5 0 Cli SessionEnded sample_log))) =
     min RING_CAPACITY (ring_latest (snd (record_event 5 0 Cli SessionEnded sample_log)))"
  using ring_newest_gapless [OF sample_reachable] by blast

text \<open>
  A reader that pages with \<open>after\<close> misses nothing without being told: when the page
  does not report dropped events (\<open>oldest\<close> at most \<open>after + 1\<close>), its events are exactly
  the sequence numbers \<open>after + 1\<close> to \<open>latest\<close>, in order; otherwise they are exactly
  \<open>oldest\<close> to \<open>latest\<close>.
\<close>

theorem events_after_complete:
  assumes "log_reachable s"
  shows "map ev_seq (pg_events (events_after after s)) =
      [max (after + 1) (pg_oldest (events_after after s))..<Suc (pg_latest (events_after after s))]"
proof -
  let ?n = "Suc (ring_latest s) - length (ring_events s)"
  from assms have ok: "ring_ok s" by (rule log_reachable_ring_ok)
  then have len: "length (ring_events s) \<le> ring_latest s" by (simp add: ring_ok_length)
  have old: "pg_oldest (events_after after s) = ?n"
  proof (cases "ring_events s")
    case Nil
    then show ?thesis by (simp add: events_after_def Let_def)
  next
    case (Cons e es)
    then have "ev_seq e = hd (map ev_seq (ring_events s))" by simp
    also have "\<dots> = hd [?n..<Suc (ring_latest s)]" using ok by (simp only: ring_ok_seqs)
    also have "\<dots> = ?n" using Cons len by (simp only: hd_upt) (simp del: upt_Suc)
    finally show ?thesis using Cons by (simp add: events_after_def Let_def)
  qed
  have "map ev_seq (pg_events (events_after after s)) = filter (\<lambda>n. n > after) (map ev_seq (ring_events s))"
    by (simp add: events_after_def Let_def filter_map o_def)
  also have "\<dots> = filter (\<lambda>n. n > after) [?n..<Suc (ring_latest s)]"
    using ok by (simp only: ring_ok_seqs)
  also have "filter (\<lambda>n. n > after) [a..<b] = [max (after + 1) a..<b]" for a b
    by (induction b) (auto simp: max_def)
  finally show ?thesis using old by (simp add: events_after_def Let_def)
qed

theorem events_after_complete_witness:
  "map ev_seq (pg_events (events_after 0 (snd (record_event 5 0 Cli SessionEnded sample_log)))) = [1]"
  using events_after_complete [OF sample_reachable, of 0]
  by (simp add: events_after_def record_ring push_event_def sample_log_def new_session_events_def
      RING_CAPACITY_def Let_def)

text \<open>
  The recorder changes nothing a viewer sees: attaching, detaching and recording-only
  events leave the ring, \<open>latest\<close> and so every page of events as they were.
\<close>

theorem recorder_invisible:
  "events_after after (snd (record_detached now f took src k s)) = events_after after s
    \<and> (\<forall>p. attach_sink now f src k s = Some p \<longrightarrow> events_after after (snd p) = events_after after s)
    \<and> (\<forall>p. detach_sink now f src k s = Some p \<longrightarrow> events_after after (snd (snd p)) = events_after after s)"
  by (auto intro!: events_after_cong simp: attach_sink_def detach_sink_def record_detached_def Let_def
      split: option.splits)

theorem recorder_invisible_witness:
  "events_after 0 (snd (record_detached 9 0 True Daemon (EventsLost 3) sample_log)) = events_after 0 sample_log"
  using recorder_invisible [of 0 9 0 True Daemon "EventsLost 3" sample_log] by blast

text \<open>
  A native verb leaves exactly one end record: from start to drop, with or without a
  \<open>finish\<close> in between, the log advances by exactly two sequence numbers, and the second
  is the end of that call with the outcome \<open>ok\<close>, \<open>error\<close> or \<open>no_reply\<close>.
\<close>

theorem cli_call_one_end:
  "cli_call_start t0 f0 name s = (c, s1) \<Longrightarrow>
    (let dropped = cli_call_drop t1 f1 (c, s1); finished = cli_call_finish t1 f1 ok (c, s1)
     in ring_latest dropped = ring_latest s + 2 \<and> ring_latest finished = ring_latest s + 2
        \<and> (\<exists>d. ev_kind (last (ring_events dropped)) = CallFinished (cc_call c) name NoReply d)
        \<and> (\<exists>d. ev_kind (last (ring_events finished))
              = CallFinished (cc_call c) name (if ok then CallOk else CallError) d))"
  by (auto simp: cli_call_start_def cli_call_drop_def cli_call_finish_def cli_call_end_def
      call_started_def call_finished_def record_ring push_event_def next_call_def Let_def)

theorem cli_call_one_end_witness:
  "ring_latest (cli_call_finish 9 0 True (cli_call_start 5 0 (lit ''put'') sample_log)) = 2"
proof -
  obtain c s1 where cs: "cli_call_start 5 0 (lit ''put'') sample_log = (c, s1)"
    by (cases "cli_call_start 5 0 (lit ''put'') sample_log")
  then show ?thesis
    using cli_call_one_end [OF cs, of 9 0 True] by (simp add: Let_def sample_log_def new_session_events_def)
qed

end
