(* ===== verification/Session_Loop.thy ===== *)
theory Session_Loop
  imports Rd_Text
begin

text \<open>
  The session loop of the RDP client, \<^verbatim>\<open>crates/rdpilot/src/session_loop.rs\<close>, with the input
  epoch (\<^verbatim>\<open>input.rs\<close>: \<open>InputEpoch\<close>) and the lifecycle of a session (\<^verbatim>\<open>lifecycle.rs\<close>).
  The IronRDP library is a parameter: its input database (\<open>apply\<close>, \<open>release_all\<close>), the
  encoding of one fast-path batch and of a bridge request. One iteration of the loop is a
  function of the \<open>select!\<close> arm that fired; what the transport does with each output is an
  argument of the iteration.
\<close>

subsection \<open>Epochs\<close>

type_synonym epoch = nat

definition INITIAL_EPOCH :: epoch where "INITIAL_EPOCH = 0"

definition epoch_next :: "epoch \<Rightarrow> epoch" where
  "epoch_next e = sat_add64 e 1"

lemma epoch_next_gt: "e < u64_max \<Longrightarrow> e < epoch_next e"
  by (simp add: epoch_next_def sat_add64_def)

lemma epoch_next_ge: "e \<le> u64_max \<Longrightarrow> e \<le> epoch_next e"
  by (simp add: epoch_next_def sat_add64_def)

lemma epoch_next_bound [simp]: "epoch_next e \<le> u64_max"
  by (simp add: epoch_next_def)

subsection \<open>The input state of the loop\<close>

record ('db, 'op, 'ev) input_library =
  lib_release_all :: "'db \<Rightarrow> 'ev list \<times> 'db"
  lib_apply :: "'op list \<Rightarrow> 'db \<Rightarrow> 'ev list \<times> 'db"
  lib_new :: 'db

record 'db loop_input =
  li_db :: 'db
  li_epoch :: epoch

definition new_loop_input :: "('db, 'op, 'ev) input_library \<Rightarrow> 'db loop_input" where
  "new_loop_input lib = \<lparr>li_db = lib_new lib, li_epoch = INITIAL_EPOCH\<rparr>"

definition change_epoch ::
  "('db, 'op, 'ev) input_library \<Rightarrow> epoch \<Rightarrow> 'db loop_input \<Rightarrow> 'ev list option \<times> 'db loop_input" where
  "change_epoch lib e s =
     (if e > li_epoch s then
        (let (events, db) = lib_release_all lib (li_db s)
         in (Some events, \<lparr>li_db = db, li_epoch = e\<rparr>))
      else (None, s))"

datatype stale_input = StaleInput (stale_sent: epoch) (stale_current: epoch)

definition apply_batch ::
  "('db, 'op, 'ev) input_library \<Rightarrow> epoch \<Rightarrow> 'op list \<Rightarrow> 'db loop_input
    \<Rightarrow> (stale_input + 'ev list) \<times> 'db loop_input" where
  "apply_batch lib e ops s =
     (if e < li_epoch s then (Inl (StaleInput e (li_epoch s)), s)
      else
        (let (releases, s1) = change_epoch lib e s;
             (events, db) = lib_apply lib ops (li_db s1)
         in (Inr ((case releases of None \<Rightarrow> [] | Some r \<Rightarrow> r) @ events), s1\<lparr>li_db := db\<rparr>)))"

subsection \<open>Fast-path batches\<close>

text \<open>\<open>slice::chunks(n)\<close>; it panics for \<open>n = 0\<close>, and the source uses 255.\<close>

function chunks :: "nat \<Rightarrow> 'a list \<Rightarrow> 'a list list" where
  "chunks n xs = (if n = 0 \<or> xs = [] then [] else take n xs # chunks n (drop n xs))"
  by auto
termination by (relation "measure (\<lambda>(n, xs). length xs)") auto

declare chunks.simps [simp del]

lemma chunks_Nil [simp]: "chunks n [] = []"
  by (simp add: chunks.simps)

lemma chunks_Cons: "0 < n \<Longrightarrow> xs \<noteq> [] \<Longrightarrow> chunks n xs = take n xs # chunks n (drop n xs)"
  by (simp add: chunks.simps)

lemma concat_chunks: "0 < n \<Longrightarrow> concat (chunks n xs) = xs"
proof (induction n xs rule: chunks.induct)
  case (1 n xs)
  then show ?case by (cases "xs = []") (simp_all add: chunks_Cons)
qed

lemma chunks_sizes: "0 < n \<Longrightarrow> c \<in> set (chunks n xs) \<Longrightarrow> c \<noteq> [] \<and> length c \<le> n"
proof (induction n xs rule: chunks.induct)
  case (1 n xs)
  then show ?case by (cases "xs = []") (auto simp: chunks_Cons)
qed

datatype stage_output =
    ResponseFrame "u8 list"
  | GraphicsUpdate
  | DeactivateAll
  | Terminate ustr
  | PointerOutput

text \<open>\<open>inject\<close> is \<open>ActiveStage::process_fastpath_input\<close>; the first failing batch ends it.\<close>

fun process_batches ::
  "('ev list \<Rightarrow> stage_output list option) \<Rightarrow> 'ev list list \<Rightarrow> stage_output list option" where
  "process_batches inject [] = Some []"
| "process_batches inject (b # bs) =
     (case inject b of
        None \<Rightarrow> None
      | Some out \<Rightarrow> map_option (\<lambda>rest. out @ rest) (process_batches inject bs))"

definition process_fastpath_input ::
  "('ev list \<Rightarrow> stage_output list option) \<Rightarrow> 'ev list \<Rightarrow> stage_output list option" where
  "process_fastpath_input inject events = process_batches inject (chunks 255 events)"

subsection \<open>The lifecycle\<close>

datatype end_cause = ServerEnded ustr | ClientClosed | LoopError ustr

definition end_cause_str :: "end_cause \<Rightarrow> ustr" where
  "end_cause_str c =
     (case c of
        ServerEnded reason \<Rightarrow> lit ''the server ended the session: '' @ reason
      | ClientClosed \<Rightarrow> lit ''the session was closed''
      | LoopError message \<Rightarrow> lit ''the session failed: '' @ message)"

datatype lifecycle = Live | Ended end_cause

text \<open>
  The published state, the flag of the shared frame, and how often a watcher was woken.
\<close>

record lifecycle_owner =
  lc_lifecycle :: lifecycle
  lc_desktop_size :: "nat \<times> nat"
  lc_frame_ended :: bool
  lc_published :: nat

definition new_lifecycle :: "nat \<times> nat \<Rightarrow> lifecycle_owner" where
  "new_lifecycle dims = \<lparr>lc_lifecycle = Live, lc_desktop_size = dims, lc_frame_ended = False, lc_published = 0\<rparr>"

definition end_lifecycle :: "end_cause \<Rightarrow> lifecycle_owner \<Rightarrow> lifecycle_owner" where
  "end_lifecycle cause l =
     (let l1 = (if lc_lifecycle l = Live
                then l\<lparr>lc_lifecycle := Ended cause, lc_published := lc_published l + 1\<rparr> else l)
      in l1\<lparr>lc_frame_ended := True\<rparr>)"

definition set_desktop_size :: "nat \<times> nat \<Rightarrow> lifecycle_owner \<Rightarrow> lifecycle_owner" where
  "set_desktop_size dims l =
     (if lc_desktop_size l = dims then l
      else l\<lparr>lc_desktop_size := dims, lc_published := lc_published l + 1\<rparr>)"

subsection \<open>Commands and one iteration\<close>

text \<open>A reply channel is a number; \<open>'m\<close> is the bridge envelope.\<close>

datatype ('op, 'm) loop_command =
    InputCommand epoch "'op list" nat
  | SetEpoch epoch nat
  | Request 'm

datatype loop_answer = InputAccepted | InputRefused stale_input | EpochConfirmed

datatype loop_effect = Answered nat loop_answer | WroteFrame "u8 list" | PublishedFrame

text \<open>
  The arms of the \<open>select!\<close>: a signal, a PDU (\<open>None\<close> when it cannot be read or
  processed), a command, the closed command channel, the keepalive. \<open>BridgeFrame\<close> is the
  retire, ping and data arm: the frame to send, if there is one and it can be built.
\<close>

datatype ('op, 'm) loop_arm =
    Shutdown
  | BridgeFrame "u8 list option"
  | Pdu "stage_output list option"
  | Command "('op, 'm) loop_command"
  | ChannelClosed
  | Keepalive "stage_output list option"

datatype reactivation = Reactivated nat nat | ReactivationFailed | ShutDownMeanwhile

text \<open>
  What the loop relies on: the input library, the two encoders, and per iteration whether
  the write of the \<open>i\<close>-th output succeeds in time and what a reactivation comes to,
  and the text of the error if something fails.
\<close>

record ('db, 'op, 'ev, 'm) loop_env =
  le_lib :: "('db, 'op, 'ev) input_library"
  le_inject :: "'ev list \<Rightarrow> stage_output list option"
  le_build :: "'m \<Rightarrow> u8 list option"
  le_writes :: "nat \<Rightarrow> bool"
  le_reactivate :: "nat \<Rightarrow> reactivation"
  le_error :: ustr

record 'db loop_state =
  lp_input :: "'db loop_input"
  lp_lifecycle :: lifecycle_owner
  lp_stopped :: bool

datatype exit_kind = ExitOk | ExitError ustr

text \<open>
  The loop over the outputs: the effects, the lifecycle, whether the server terminated the
  session, and the early return if there is one.
\<close>

fun process_outputs ::
  "('db, 'op, 'ev, 'm) loop_env \<Rightarrow> nat \<Rightarrow> stage_output list \<Rightarrow> lifecycle_owner \<Rightarrow> bool
    \<Rightarrow> loop_effect list \<times> lifecycle_owner \<times> (exit_kind + bool)" where
  "process_outputs env i [] l terminated = ([], l, Inr terminated)"
| "process_outputs env i (out # outs) l terminated =
     (case out of
        ResponseFrame frame \<Rightarrow>
          if le_writes env i then
            (let (fx, r) = process_outputs env (i + 1) outs l terminated in (WroteFrame frame # fx, r))
          else ([], l, Inl (ExitError (le_error env)))
      | GraphicsUpdate \<Rightarrow>
          (let (fx, r) = process_outputs env (i + 1) outs l terminated in (PublishedFrame # fx, r))
      | DeactivateAll \<Rightarrow>
          (case le_reactivate env i of
             ShutDownMeanwhile \<Rightarrow> ([], l, Inl ExitOk)
           | ReactivationFailed \<Rightarrow> ([], l, Inl (ExitError (le_error env)))
           | Reactivated w h \<Rightarrow> process_outputs env (i + 1) outs (set_desktop_size (w, h) l) terminated)
      | Terminate reason \<Rightarrow>
          process_outputs env (i + 1) outs (end_lifecycle (ServerEnded reason) l) True
      | PointerOutput \<Rightarrow> process_outputs env (i + 1) outs l terminated)"

text \<open>\<open>run\<close> ends the lifecycle with the result of \<open>run_loop\<close>.\<close>

definition stop_loop :: "exit_kind \<Rightarrow> 'db loop_state \<Rightarrow> 'db loop_state" where
  "stop_loop k s =
     s\<lparr>lp_stopped := True,
       lp_lifecycle := end_lifecycle (case k of ExitOk \<Rightarrow> ClientClosed | ExitError message \<Rightarrow> LoopError message) (lp_lifecycle s)\<rparr>"

text \<open>The tail of an iteration: the outputs, then the confirmation, then the end if any.\<close>

definition finish_iteration ::
  "('db, 'op, 'ev, 'm) loop_env \<Rightarrow> stage_output list option \<Rightarrow> nat option \<Rightarrow> 'db loop_state
    \<Rightarrow> loop_effect list \<times> 'db loop_state" where
  "finish_iteration env outputs confirm s =
     (case outputs of
        None \<Rightarrow> ([], stop_loop (ExitError (le_error env)) s)
      | Some outs \<Rightarrow>
          (let (fx, l, r) = process_outputs env 0 outs (lp_lifecycle s) False;
               s1 = s\<lparr>lp_lifecycle := l\<rparr>
           in case r of
                Inl k \<Rightarrow> (fx, stop_loop k s1)
              | Inr terminated \<Rightarrow>
                  (fx @ (case confirm of None \<Rightarrow> [] | Some reply \<Rightarrow> [Answered reply EpochConfirmed]),
                   if terminated then stop_loop ExitOk s1 else s1)))"

definition frame_output :: "u8 list option \<Rightarrow> stage_output list" where
  "frame_output f = (case f of None \<Rightarrow> [] | Some bytes \<Rightarrow> [ResponseFrame bytes])"

fun run_command ::
  "('db, 'op, 'ev, 'm) loop_env \<Rightarrow> ('op, 'm) loop_command \<Rightarrow> 'db loop_state
    \<Rightarrow> loop_effect list \<times> 'db loop_state" where
  "run_command env (InputCommand e ops reply) s =
     (case apply_batch (le_lib env) e ops (lp_input s) of
        (Inr events, li) \<Rightarrow>
          (let (fx, s1) = finish_iteration env (process_fastpath_input (le_inject env) events) None
                            (s\<lparr>lp_input := li\<rparr>)
           in (Answered reply InputAccepted # fx, s1))
      | (Inl stale, li) \<Rightarrow>
          (let (fx, s1) = finish_iteration env (Some []) None (s\<lparr>lp_input := li\<rparr>)
           in (Answered reply (InputRefused stale) # fx, s1)))"
| "run_command env (SetEpoch e reply) s =
     (case change_epoch (le_lib env) e (lp_input s) of
        (Some releases, li) \<Rightarrow>
          finish_iteration env (process_fastpath_input (le_inject env) releases) (Some reply)
            (s\<lparr>lp_input := li\<rparr>)
      | (None, li) \<Rightarrow>
          (let (fx, s1) = finish_iteration env (Some []) None (s\<lparr>lp_input := li\<rparr>)
           in (Answered reply EpochConfirmed # fx, s1)))"
| "run_command env (Request m) s = finish_iteration env (Some (frame_output (le_build env m))) None s"

fun loop_iteration ::
  "('db, 'op, 'ev, 'm) loop_env \<Rightarrow> ('op, 'm) loop_arm \<Rightarrow> 'db loop_state
    \<Rightarrow> loop_effect list \<times> 'db loop_state" where
  "loop_iteration env Shutdown s = ([], stop_loop ExitOk s)"
| "loop_iteration env ChannelClosed s = ([], stop_loop ExitOk s)"
| "loop_iteration env (BridgeFrame f) s = finish_iteration env (Some (frame_output f)) None s"
| "loop_iteration env (Pdu outs) s = finish_iteration env outs None s"
| "loop_iteration env (Keepalive outs) s = finish_iteration env outs None s"
| "loop_iteration env (Command c) s = run_command env c s"

text \<open>A run of the loop: each iteration with its environment, until it stops.\<close>

fun run_loop ::
  "(('db, 'op, 'ev, 'm) loop_env \<times> ('op, 'm) loop_arm) list \<Rightarrow> 'db loop_state
    \<Rightarrow> loop_effect list \<times> 'db loop_state" where
  "run_loop [] s = ([], s)"
| "run_loop ((env, arm) # rest) s =
     (if lp_stopped s then ([], s)
      else (let (fx, s1) = loop_iteration env arm s; (fx2, s2) = run_loop rest s1
            in (fx @ fx2, s2)))"

definition new_loop :: "('db, 'op, 'ev) input_library \<Rightarrow> nat \<times> nat \<Rightarrow> 'db loop_state" where
  "new_loop lib dims =
     \<lparr>lp_input = new_loop_input lib, lp_lifecycle = set_desktop_size dims (new_lifecycle dims),
      lp_stopped = False\<rparr>"


subsection \<open>What an iteration leaves unchanged\<close>

lemma process_outputs_answers:
  "process_outputs env i outs l terminated = (fx, r) \<Longrightarrow> Answered reply a \<notin> set fx"
  by (induction env i outs l terminated arbitrary: fx r rule: process_outputs.induct)
    (auto simp: Let_def split: stage_output.splits if_splits reactivation.splits prod.splits)

lemma process_outputs_frames:
  "process_outputs env i (map ResponseFrame fs) l terminated = (fx, l', Inr b)
     \<Longrightarrow> fx = map WroteFrame fs \<and> l' = l \<and> b = terminated"
  by (induction fs arbitrary: i fx) (auto simp: Let_def split: if_splits prod.splits)

lemma stop_loop_fields [simp]: "lp_input (stop_loop k s) = lp_input s" "lp_stopped (stop_loop k s)"
  by (simp_all add: stop_loop_def)

lemma finish_iteration_input [simp]: "lp_input (snd (finish_iteration env outs c s)) = lp_input s"
  by (auto simp: finish_iteration_def Let_def split: option.splits prod.splits sum.splits)

lemma finish_iteration_nothing [simp]: "finish_iteration env (Some []) None s = ([], s)"
  by (simp add: finish_iteration_def)

lemma finish_iteration_answers:
  "Answered reply a \<in> set (fst (finish_iteration env outs c s))
     \<Longrightarrow> c = Some reply \<and> a = EpochConfirmed"
  by (auto simp: finish_iteration_def Let_def dest: process_outputs_answers
      split: option.splits prod.splits sum.splits)

lemma change_epoch_epoch:
  "li_epoch s \<le> li_epoch (snd (change_epoch lib e s)) \<and> e \<le> li_epoch (snd (change_epoch lib e s))"
  by (simp add: change_epoch_def Let_def split: prod.splits)

lemma apply_batch_epoch: "li_epoch s \<le> li_epoch (snd (apply_batch lib e ops s))"
  using change_epoch_epoch [of s lib e] by (auto simp: apply_batch_def Let_def split: prod.splits)

lemma apply_batch_stale:
  "e < li_epoch s \<Longrightarrow> apply_batch lib e ops s = (Inl (StaleInput e (li_epoch s)), s)"
  by (simp add: apply_batch_def)

lemma finish_iteration_inputD:
  "finish_iteration env outs c s = (fx, s') \<Longrightarrow> lp_input s' = lp_input s"
  using finish_iteration_input [of env outs c s] by simp

lemma run_command_input [simp]:
  "lp_input (snd (run_command env (InputCommand e ops reply) s))
     = snd (apply_batch (le_lib env) e ops (lp_input s))"
  "lp_input (snd (run_command env (SetEpoch e reply) s)) = snd (change_epoch (le_lib env) e (lp_input s))"
  "lp_input (snd (run_command env (Request m) s)) = lp_input s"
  by (auto simp: Let_def dest!: finish_iteration_inputD split: prod.splits sum.splits option.splits)

lemma run_command_epoch:
  "li_epoch (lp_input s) \<le> li_epoch (lp_input (snd (run_command env c s)))"
  by (cases c) (simp_all add: apply_batch_epoch change_epoch_epoch del: run_command.simps)

lemma loop_iteration_epoch:
  "li_epoch (lp_input s) \<le> li_epoch (lp_input (snd (loop_iteration env arm s)))"
  by (cases arm) (simp_all add: run_command_epoch)

lemma run_loop_epoch: "li_epoch (lp_input s) \<le> li_epoch (lp_input (snd (run_loop evs s)))"
proof (induction evs s rule: run_loop.induct)
  case (2 env arm rest s)
  then show ?case
    using loop_iteration_epoch [of s env arm] by (force simp: Let_def split: prod.splits)
qed simp

lemma set_epoch_reached:
  "e \<le> li_epoch (lp_input (snd (run_command env (SetEpoch e reply) s)))"
  by (simp add: change_epoch_epoch del: run_command.simps)

subsection \<open>Properties\<close>

text \<open>
  C29. The epoch fence: once the loop has handled \<open>SetEpoch e\<close>, then whatever iterations
  follow, a batch of an epoch older than \<open>e\<close> is answered as stale, writes nothing and
  changes nothing.
\<close>

theorem epoch_fence:
  assumes "s1 = snd (loop_iteration env (Command (SetEpoch e reply)) s)"
    and "s2 = snd (run_loop evs s1)"
    and "e' < e"
  shows "\<exists>cur \<ge> e. loop_iteration env' (Command (InputCommand e' ops reply')) s2
           = ([Answered reply' (InputRefused (StaleInput e' cur))], s2)"
proof -
  have "e \<le> li_epoch (lp_input s2)"
    using set_epoch_reached [of e env reply s] run_loop_epoch [of s1 evs] assms(1,2) by simp
  with assms(3) show ?thesis by (auto simp: apply_batch_stale intro!: exI [of _ "li_epoch (lp_input s2)"])
qed

definition sample_lib :: "(nat set, nat \<times> bool, nat \<times> bool) input_library" where
  "sample_lib =
     \<lparr>lib_release_all = (\<lambda>db. (map (\<lambda>k. (k, False)) (sorted_list_of_set db), {})),
      lib_apply = (\<lambda>ops db. (ops, foldl (\<lambda>D (k, down). if down then insert k D else D - {k}) db ops)),
      lib_new = {}\<rparr>"

definition sample_env :: "(nat set, nat \<times> bool, nat \<times> bool, unit) loop_env" where
  "sample_env =
     \<lparr>le_lib = sample_lib, le_inject = (\<lambda>evs. Some (map (\<lambda>(k, d). ResponseFrame [word_of_nat k, if d then 1 else 0]) evs)),
      le_build = (\<lambda>_. None), le_writes = (\<lambda>_. True), le_reactivate = (\<lambda>_. ReactivationFailed),
      le_error = lit ''connection reset''\<rparr>"

definition sample_loop :: "nat set loop_state" where
  "sample_loop = snd (loop_iteration sample_env (Command (InputCommand 0 [(30, True)] 1)) (new_loop sample_lib (800, 600)))"

theorem epoch_fence_witness:
  "\<exists>cur \<ge> 1. fst (loop_iteration sample_env (Command (InputCommand 0 [(31, True)] 3))
       (snd (run_loop [] (snd (loop_iteration sample_env (Command (SetEpoch 1 2)) sample_loop)))))
     = [Answered 3 (InputRefused (StaleInput 0 cur))]"
  using epoch_fence [OF refl refl, of 0 1 sample_env "[(31, True)]" 3 "[]" sample_env 2 sample_loop] by auto

text \<open>
  C30. A confirmed epoch change left nothing pressed: when the loop confirms a newer epoch,
  it has first written the encoded releases of everything the input database held, nothing
  else, and the database holds nothing. (\<open>held_of\<close> and the law of \<open>release_all\<close> are the
  documented behaviour of the input library; the frames of input batches are response
  frames.)
\<close>

theorem epoch_confirmed_after_releases:
  assumes "\<And>db. held_of (snd (lib_release_all (le_lib env) db)) = {}"
    and "e > li_epoch (lp_input s)"
    and "process_fastpath_input (le_inject env) (fst (lib_release_all (le_lib env) (li_db (lp_input s))))
           = Some (map ResponseFrame frames)"
    and "loop_iteration env (Command (SetEpoch e reply)) s = (fx, s')"
    and "Answered reply EpochConfirmed \<in> set fx"
  shows "fx = map WroteFrame frames @ [Answered reply EpochConfirmed]
    \<and> held_of (li_db (lp_input s')) = {} \<and> li_epoch (lp_input s') = e"
proof -
  obtain rel db where r: "lib_release_all (le_lib env) (li_db (lp_input s)) = (rel, db)" by fastforce
  with assms(2-4) have fin: "finish_iteration env (Some (map ResponseFrame frames)) (Some reply)
      (s\<lparr>lp_input := \<lparr>li_db = db, li_epoch = e\<rparr>\<rparr>) = (fx, s')"
    by (simp add: change_epoch_def)
  obtain fx1 l1 q where po: "process_outputs env 0 (map ResponseFrame frames) (lp_lifecycle s) False = (fx1, l1, q)"
    by (metis prod_cases3)
  from po have no: "Answered reply EpochConfirmed \<notin> set fx1" by (rule process_outputs_answers)
  with fin po assms(5) obtain b where b: "q = Inr b" "fx = fx1 @ [Answered reply EpochConfirmed]"
    by (auto simp: finish_iteration_def Let_def split: sum.splits)
  with po have "fx1 = map WroteFrame frames" by (auto dest: process_outputs_frames)
  moreover have "lp_input s' = \<lparr>li_db = db, li_epoch = e\<rparr>"
    using finish_iteration_input [of env "Some (map ResponseFrame frames)" "Some reply"
        "s\<lparr>lp_input := \<lparr>li_db = db, li_epoch = e\<rparr>\<rparr>"] fin by simp
  ultimately show ?thesis using b assms(1) [of "li_db (lp_input s)"] r by simp
qed

lemma sample_loop_input: "lp_input sample_loop = \<lparr>li_db = {30}, li_epoch = 0\<rparr>"
  by (simp add: sample_loop_def sample_env_def sample_lib_def new_loop_def new_loop_input_def
      apply_batch_def change_epoch_def INITIAL_EPOCH_def del: run_command.simps)

lemma sample_releases:
  "process_fastpath_input (le_inject sample_env) (fst (lib_release_all (le_lib sample_env) (li_db (lp_input sample_loop))))
     = Some (map ResponseFrame [[30, 0]])"
  by (simp add: sample_loop_input process_fastpath_input_def chunks_Cons sample_env_def sample_lib_def)

theorem epoch_confirmed_after_releases_witness:
  "\<exists>s'. loop_iteration sample_env (Command (SetEpoch 1 2)) sample_loop
      = ([WroteFrame [30, 0], Answered 2 EpochConfirmed], s') \<and> li_db (lp_input s') = {}"
proof -
  obtain fx s' where it: "loop_iteration sample_env (Command (SetEpoch 1 2)) sample_loop = (fx, s')"
    by fastforce
  have ans: "Answered 2 EpochConfirmed \<in> set fx"
    using it sample_releases
    by (auto simp: change_epoch_def sample_loop_input sample_env_def sample_lib_def finish_iteration_def)
  have "fx = map WroteFrame [[30, 0]] @ [Answered 2 EpochConfirmed]
    \<and> id (li_db (lp_input s')) = {} \<and> li_epoch (lp_input s') = 1"
    by (rule epoch_confirmed_after_releases [OF _ _ sample_releases it ans])
      (simp_all add: sample_env_def sample_lib_def sample_loop_input)
  with it show ?thesis by auto
qed

text \<open>
  Input batches reach the encoder whole and in order: the fast-path batches of an
  event list are non-empty, hold at most 255 events each, and their concatenation is the
  list.
\<close>

theorem fastpath_batches:
  "process_fastpath_input inject events = process_batches inject (chunks 255 events)
    \<and> concat (chunks 255 events) = events
    \<and> list_all (\<lambda>b. b \<noteq> [] \<and> length b \<le> 255) (chunks 255 events)"
  using chunks_sizes [of 255 _ events]
  by (auto simp: process_fastpath_input_def concat_chunks list_all_iff)

definition answers :: "nat \<Rightarrow> loop_effect list \<Rightarrow> loop_answer list" where
  "answers reply fx = concat (map (\<lambda>f. case f of Answered r a \<Rightarrow> if r = reply then [a] else [] | _ \<Rightarrow> []) fx)"

lemma answers_append [simp]: "answers r (xs @ ys) = answers r xs @ answers r ys"
  by (simp add: answers_def)

lemma answers_Cons [simp]: "answers r (Answered r' a # fx) = (if r' = r then [a] else []) @ answers r fx"
  by (simp add: answers_def)

lemma answers_none: "(\<And>a. Answered r a \<notin> set fx) \<Longrightarrow> answers r fx = []"
  by (induction fx) (auto simp: answers_def split: loop_effect.splits)

lemma answers_outputs: "answers r (fst (process_outputs env i outs l terminated)) = []"
  by (rule answers_none) (metis process_outputs_answers prod.collapse)

lemma answers_finish:
  "answers r (fst (finish_iteration env outs None s)) = []"
  "answers r (fst (finish_iteration env outs (Some r) s)) = [EpochConfirmed]
     \<or> answers r (fst (finish_iteration env outs (Some r) s)) = []
       \<and> lp_stopped (snd (finish_iteration env outs (Some r) s))"
proof -
  show "answers r (fst (finish_iteration env outs None s)) = []"
  proof (rule answers_none, rule notI)
    fix a assume "Answered r a \<in> set (fst (finish_iteration env outs None s))"
    from finish_iteration_answers [OF this] show False by simp
  qed
next
  show "answers r (fst (finish_iteration env outs (Some r) s)) = [EpochConfirmed]
     \<or> answers r (fst (finish_iteration env outs (Some r) s)) = []
       \<and> lp_stopped (snd (finish_iteration env outs (Some r) s))"
  proof (cases outs)
    case None
    then show ?thesis by (simp add: finish_iteration_def answers_def)
  next
    case (Some os)
    obtain fx l q where "process_outputs env 0 os (lp_lifecycle s) False = (fx, l, q)" by (metis prod_cases3)
    with Some answers_outputs [of r env 0 os "lp_lifecycle s" False] show ?thesis
      by (cases q) (simp_all add: finish_iteration_def Let_def, simp add: answers_def)
  qed
qed

lemma input_answer:
  "length (answers r (fst (run_command env (InputCommand e ops r) s))) = 1"
  by (simp add: Let_def answers_finish case_prod_beta answers_def [of r "[]"] split: sum.split prod.split)

lemma set_epoch_answer:
  "length (answers r (fst (run_command env (SetEpoch e r) s))) = 1
    \<or> answers r (fst (run_command env (SetEpoch e r) s)) = []
      \<and> lp_stopped (snd (run_command env (SetEpoch e r) s))"
proof (cases "change_epoch (le_lib env) e (lp_input s)")
  case (Pair o' li)
  show ?thesis
  proof (cases o')
    case (Some rel)
    then show ?thesis
      using Pair answers_finish(2) [of r env "process_fastpath_input (le_inject env) rel" "s\<lparr>lp_input := li\<rparr>"]
      by auto
  qed (use Pair in \<open>simp add: answers_def\<close>)
qed

text \<open>
  A command is answered once: an input batch always gets exactly one answer; an epoch
  change gets exactly one, or none when the loop stops in that iteration.
\<close>

theorem one_answer_per_command:
  "length (answers r (fst (loop_iteration env (Command (InputCommand e ops r)) s))) = 1
    \<and> (length (answers r (fst (loop_iteration env (Command (SetEpoch e r)) s))) = 1
       \<or> answers r (fst (loop_iteration env (Command (SetEpoch e r)) s)) = []
         \<and> lp_stopped (snd (loop_iteration env (Command (SetEpoch e r)) s)))"
  using input_answer [of r env e ops s] set_epoch_answer [of r env e s]
  by (simp del: run_command.simps)

text \<open>The frame is marked as ended exactly when the lifecycle has ended.\<close>

definition lifecycle_ok :: "lifecycle_owner \<Rightarrow> bool" where
  "lifecycle_ok l \<longleftrightarrow> (lc_frame_ended l \<longleftrightarrow> lc_lifecycle l \<noteq> Live)"

lemma lifecycle_ok_end [simp]: "lifecycle_ok (end_lifecycle c l)"
  by (simp add: lifecycle_ok_def end_lifecycle_def)

lemma lifecycle_ok_size [simp]: "lifecycle_ok (set_desktop_size d l) = lifecycle_ok l"
  by (simp add: lifecycle_ok_def set_desktop_size_def)

lemma lifecycle_ok_new [simp]: "lifecycle_ok (new_lifecycle d)"
  by (simp add: lifecycle_ok_def new_lifecycle_def)

definition keeps_end :: "lifecycle_owner \<Rightarrow> lifecycle_owner \<Rightarrow> bool" where
  "keeps_end l l' \<longleftrightarrow> (lifecycle_ok l \<longrightarrow> lifecycle_ok l')
     \<and> (\<forall>c. lc_lifecycle l = Ended c \<longrightarrow> lc_lifecycle l' = Ended c)"

lemma keeps_end_refl [simp]: "keeps_end l l"
  by (simp add: keeps_end_def)

lemma keeps_end_trans: "keeps_end a b \<Longrightarrow> keeps_end b c \<Longrightarrow> keeps_end a c"
  by (auto simp: keeps_end_def)

lemma keeps_end_ops [simp]: "keeps_end l (end_lifecycle c l)" "keeps_end l (set_desktop_size d l)"
  by (auto simp: keeps_end_def) (auto simp: end_lifecycle_def set_desktop_size_def)

lemma keeps_end_outputs: "keeps_end l (fst (snd (process_outputs env i outs l terminated)))"
proof (induction env i outs l terminated rule: process_outputs.induct)
  case (2 env i out outs l terminated)
  then show ?case
    by (auto simp: Let_def case_prod_beta split: stage_output.split reactivation.split
        intro: keeps_end_trans [OF keeps_end_ops(1)] keeps_end_trans [OF keeps_end_ops(2)])
qed simp

lemma keeps_end_stop [simp]: "keeps_end (lp_lifecycle s) (lp_lifecycle (stop_loop k s))"
  by (simp add: stop_loop_def)

lemma keeps_end_finish: "keeps_end (lp_lifecycle s) (lp_lifecycle (snd (finish_iteration env outs c s)))"
proof (cases outs)
  case (Some os)
  obtain fx l q where po: "process_outputs env 0 os (lp_lifecycle s) False = (fx, l, q)" by (metis prod_cases3)
  with keeps_end_outputs [of "lp_lifecycle s" env 0 os False] have "keeps_end (lp_lifecycle s) l" by simp
  then have "keeps_end (lp_lifecycle s) (lp_lifecycle (stop_loop k (s\<lparr>lp_lifecycle := l\<rparr>)))" for k
    by (rule keeps_end_trans) (simp add: stop_loop_def)
  with \<open>keeps_end (lp_lifecycle s) l\<close> po Some show ?thesis
    by (auto simp: finish_iteration_def Let_def split: sum.split)
qed (simp add: finish_iteration_def)

lemma keeps_end_command: "keeps_end (lp_lifecycle s) (lp_lifecycle (snd (run_command env c s)))"
proof -
  have fin: "keeps_end (lp_lifecycle s) (lp_lifecycle (snd (finish_iteration env outs d (s\<lparr>lp_input := li\<rparr>))))"
    for outs d li
    using keeps_end_finish [of "s\<lparr>lp_input := li\<rparr>" env outs d] by simp
  show ?thesis
    by (cases c) (auto simp: Let_def case_prod_beta keeps_end_finish fin split: prod.split sum.split option.split)
qed

lemma keeps_end_iteration: "keeps_end (lp_lifecycle s) (lp_lifecycle (snd (loop_iteration env arm s)))"
  by (cases arm) (simp_all add: keeps_end_finish keeps_end_command)

lemma keeps_end_run: "keeps_end (lp_lifecycle s) (lp_lifecycle (snd (run_loop evs s)))"
proof (induction evs arbitrary: s)
  case (Cons ev rest)
  obtain env arm where ev: "ev = (env, arm)" by fastforce
  from keeps_end_iteration Cons [of "snd (loop_iteration env arm s)"]
  have "keeps_end (lp_lifecycle s) (lp_lifecycle (snd (run_loop rest (snd (loop_iteration env arm s)))))"
    by (rule keeps_end_trans)
  then show ?case by (simp add: ev Let_def case_prod_beta)
qed simp

lemma lifecycle_ok_new_loop: "lifecycle_ok (lp_lifecycle (new_loop lib d))"
  by (simp add: new_loop_def)

text \<open>
  A session ends once, for its first cause: whatever iterations follow, an ended
  lifecycle keeps its cause; and at any time of a run the frame is marked as ended exactly
  when the lifecycle has ended.
\<close>

theorem lifecycle_first_cause:
  "(lc_lifecycle (lp_lifecycle s) = Ended c \<longrightarrow> lc_lifecycle (lp_lifecycle (snd (run_loop evs s))) = Ended c)
    \<and> (lc_frame_ended (lp_lifecycle (snd (run_loop evs (new_loop lib d))))
        = (lc_lifecycle (lp_lifecycle (snd (run_loop evs (new_loop lib d)))) \<noteq> Live))"
  using keeps_end_run [of s evs] keeps_end_run [of "new_loop lib d" evs] lifecycle_ok_new_loop [of lib d]
  by (auto simp: keeps_end_def lifecycle_ok_def)

theorem lifecycle_first_cause_witness:
  "lc_lifecycle (lp_lifecycle (snd (run_loop [(sample_env, Shutdown)]
      (stop_loop (ExitError (lit ''broken pipe'')) (new_loop sample_lib (800, 600)))))) = Ended (LoopError (lit ''broken pipe''))"
  using lifecycle_first_cause [of "stop_loop (ExitError (lit ''broken pipe'')) (new_loop sample_lib (800, 600))" "LoopError (lit ''broken pipe'')"
      "[(sample_env, Shutdown)]" sample_lib "(800, 600)"]
  by (simp add: stop_loop_def end_lifecycle_def new_loop_def new_lifecycle_def set_desktop_size_def
      del: run_loop.simps)

end
