(* ===== verification/Raw_Input.thy ===== *)
theory Raw_Input
  imports Rd_Text
begin

text \<open>
  The raw input of a human viewer (\<^verbatim>\<open>crates/rdpilot-vocab/src/input.rs\<close>: \<open>RawInput\<close>,
  \<open>PointerButton\<close>) and what the control lease does with a batch of it
  (\<^verbatim>\<open>crates/rdpilot-daemon/src/control.rs\<close>: \<open>Held\<close>, \<open>track\<close>, \<open>coalesce\<close>,
  \<open>geometry_matches\<close>, \<open>releases_held_button\<close>).
\<close>

subsection \<open>Data\<close>

datatype pointer_button = Left | Middle | Right | X1 | X2

datatype raw_input =
    PointerMove (move_x: u16) (move_y: u16)
  | ButtonEvent (event_button: pointer_button) (event_down: bool)
  | WheelEvent (wheel_vertical: bool) (wheel_units: u16)
  | KeyEvent (event_code: u8) (event_extended: bool) (event_down: bool)

datatype held = HeldButton pointer_button | HeldKey u8 bool

text \<open>The derived \<open>Ord\<close> of both types: declaration order, then the fields.\<close>

fun button_rank :: "pointer_button \<Rightarrow> nat" where
  "button_rank Left = 0"
| "button_rank Middle = 1"
| "button_rank Right = 2"
| "button_rank X1 = 3"
| "button_rank X2 = 4"

lemma button_rank_inj [simp]: "button_rank a = button_rank b \<longleftrightarrow> a = b"
  by (cases a; cases b) simp_all

instantiation pointer_button :: linorder
begin

definition less_eq_pointer_button :: "pointer_button \<Rightarrow> pointer_button \<Rightarrow> bool" where
  "a \<le> b \<longleftrightarrow> button_rank a \<le> button_rank b"

definition less_pointer_button :: "pointer_button \<Rightarrow> pointer_button \<Rightarrow> bool" where
  "a < b \<longleftrightarrow> button_rank a < button_rank b"

instance
  by standard (auto simp: less_eq_pointer_button_def less_pointer_button_def)

end

fun held_le :: "held \<Rightarrow> held \<Rightarrow> bool" where
  "held_le (HeldButton a) (HeldButton b) = (a \<le> b)"
| "held_le (HeldButton a) (HeldKey c e) = True"
| "held_le (HeldKey c e) (HeldButton b) = False"
| "held_le (HeldKey c e) (HeldKey c' e') = (c < c' \<or> c = c' \<and> e \<le> e')"

instantiation held :: linorder
begin

definition less_eq_held :: "held \<Rightarrow> held \<Rightarrow> bool" where
  "a \<le> b \<longleftrightarrow> held_le a b"

definition less_held :: "held \<Rightarrow> held \<Rightarrow> bool" where
  "a < b \<longleftrightarrow> held_le a b \<and> a \<noteq> b"

lemma held_le_antisym: "held_le a b \<Longrightarrow> held_le b a \<Longrightarrow> a = b"
  by (cases a; cases b) auto

lemma held_le_trans: "held_le a b \<Longrightarrow> held_le b c \<Longrightarrow> held_le a c"
  by (cases a; cases b; cases c) auto

lemma held_le_total: "held_le a b \<or> held_le b a"
  by (cases a; cases b) auto

instance
proof
  fix a b c :: held
  show "a \<le> a" by (cases a) (simp_all add: less_eq_held_def)
  show "(a < b) = (a \<le> b \<and> \<not> b \<le> a)"
    using held_le_antisym [of a b] \<open>a \<le> a\<close> by (auto simp: less_eq_held_def less_held_def)
  show "a \<le> b \<Longrightarrow> b \<le> c \<Longrightarrow> a \<le> c"
    unfolding less_eq_held_def by (rule held_le_trans)
  show "a \<le> b \<Longrightarrow> b \<le> a \<Longrightarrow> a = b"
    unfolding less_eq_held_def by (rule held_le_antisym)
  show "a \<le> b \<or> b \<le> a"
    unfolding less_eq_held_def by (rule held_le_total)
qed

end

subsection \<open>Operations\<close>

definition is_pointer :: "raw_input \<Rightarrow> bool" where
  "is_pointer event \<longleftrightarrow> (case event of KeyEvent _ _ _ \<Rightarrow> False | _ \<Rightarrow> True)"

fun release_event :: "held \<Rightarrow> raw_input" where
  "release_event (HeldButton button) = ButtonEvent button False"
| "release_event (HeldKey code extended) = KeyEvent code extended False"

text \<open>Iteration over the \<open>BTreeSet\<close> of held inputs is in their order.\<close>

definition held_list :: "held set \<Rightarrow> held list" where
  "held_list H = sorted_list_of_set H"

fun is_button :: "held \<Rightarrow> bool" where
  "is_button (HeldButton _) = True"
| "is_button (HeldKey _ _) = False"

fun track :: "raw_input \<Rightarrow> held set \<Rightarrow> held set" where
  "track (ButtonEvent button down) H =
     (if down then insert (HeldButton button) H else H - {HeldButton button})"
| "track (KeyEvent code extended down) H =
     (if down then insert (HeldKey code extended) H else H - {HeldKey code extended})"
| "track (PointerMove _ _) H = H"
| "track (WheelEvent _ _) H = H"

fun releases_held_button :: "held set \<Rightarrow> raw_input \<Rightarrow> bool" where
  "releases_held_button H (ButtonEvent button False) = (HeldButton button \<in> H)"
| "releases_held_button H _ = False"

definition geometry_matches :: "raw_input \<Rightarrow> nat \<times> nat \<Rightarrow> (nat \<times> nat) option \<Rightarrow> bool" where
  "geometry_matches event aimed current =
     (if current \<noteq> Some aimed then False
      else (case event of
              PointerMove x y \<Rightarrow> unat x < fst aimed \<and> unat y < snd aimed
            | _ \<Rightarrow> True))"

fun is_move :: "raw_input \<Rightarrow> bool" where
  "is_move (PointerMove _ _) = True"
| "is_move _ = False"

text \<open>The loop of \<open>coalesce\<close>: \<open>out\<close> is the vector built so far.\<close>

definition coalesce_step :: "raw_input list \<Rightarrow> raw_input \<Rightarrow> raw_input list" where
  "coalesce_step out event =
     (if out \<noteq> [] \<and> is_move (last out) \<and> is_move event then butlast out else out) @ [event]"

definition coalesce :: "raw_input list \<Rightarrow> raw_input list" where
  "coalesce events = foldl coalesce_step [] events"

subsection \<open>Coalescing keeps the meaning of a batch\<close>

text \<open>
  The meaning of a batch for the guest: at which pointer position each event that is not a
  move happens, and where the pointer ends.
\<close>

fun replay :: "(u16 \<times> u16) option \<Rightarrow> raw_input list
    \<Rightarrow> ((u16 \<times> u16) option \<times> raw_input) list \<times> (u16 \<times> u16) option" where
  "replay p [] = ([], p)"
| "replay p (PointerMove x y # es) = replay (Some (x, y)) es"
| "replay p (e # es) = (let (rs, q) = replay p es in ((p, e) # rs, q))"

fun no_adjacent_moves :: "raw_input list \<Rightarrow> bool" where
  "no_adjacent_moves (a # b # es) = (\<not> (is_move a \<and> is_move b) \<and> no_adjacent_moves (b # es))"
| "no_adjacent_moves _ = True"

lemma coalesce_snoc: "coalesce (es @ [e]) = coalesce_step (coalesce es) e"
  by (simp add: coalesce_def)

lemma coalesce_Nil [simp]: "coalesce [] = []"
  by (simp add: coalesce_def)

lemma replay_append:
  "replay p (xs @ ys) =
     (let (rs, q) = replay p xs; (ss, r) = replay q ys in (rs @ ss, r))"
  by (induction p xs rule: replay.induct) (auto simp: Let_def split: prod.splits)

lemma replay_single_move: "is_move e \<Longrightarrow> \<exists>q. \<forall>p. replay p [e] = ([], q)"
  by (cases e) auto

lemma replay_coalesce: "replay p (coalesce es) = replay p es"
proof (induction es arbitrary: p rule: rev_induct)
  case (snoc e es)
  show ?case
  proof (cases "coalesce es \<noteq> [] \<and> is_move (last (coalesce es)) \<and> is_move e")
    case True
    let ?c = "coalesce es"
    obtain q where q: "\<And>p. replay p [e] = ([], q)" using replay_single_move True by blast
    obtain q' where q': "\<And>p. replay p [last ?c] = ([], q')" using replay_single_move True by blast
    obtain rs r where b: "replay p (butlast ?c) = (rs, r)" by (cases "replay p (butlast ?c)")
    have "replay p es = replay p (butlast ?c @ [last ?c])" using True by (simp add: snoc.IH)
    also have "\<dots> = (rs, q')" by (simp add: replay_append b q')
    finally have "replay p (es @ [e]) = (rs, q)" by (simp add: replay_append q)
    moreover have "replay p (butlast ?c @ [e]) = (rs, q)" by (simp add: replay_append b q)
    ultimately show ?thesis using True by (simp add: coalesce_snoc coalesce_step_def)
  next
    case False
    then show ?thesis
      by (auto simp: coalesce_snoc coalesce_step_def replay_append [of p es]
          replay_append [of p "coalesce es"] snoc.IH)
  qed
qed simp

lemma no_adjacent_moves_snoc:
  "no_adjacent_moves (xs @ [e]) \<longleftrightarrow>
     no_adjacent_moves xs \<and> \<not> (xs \<noteq> [] \<and> is_move (last xs) \<and> is_move e)"
  by (induction xs rule: no_adjacent_moves.induct) auto

lemma no_adjacent_moves_butlast: "no_adjacent_moves xs \<Longrightarrow> no_adjacent_moves (butlast xs)"
  by (cases xs rule: rev_cases) (auto simp: no_adjacent_moves_snoc)

lemma coalesce_no_adjacent_moves: "no_adjacent_moves (coalesce es)"
proof (induction es rule: rev_induct)
  case (snoc e es)
  let ?c = "coalesce es"
  have "is_move e \<Longrightarrow> is_move (last ?c) \<Longrightarrow> butlast ?c \<noteq> [] \<Longrightarrow> \<not> is_move (last (butlast ?c))"
    using snoc by (cases ?c rule: rev_cases) (auto simp: no_adjacent_moves_snoc)
  with snoc show ?case
    by (auto simp: coalesce_snoc coalesce_step_def no_adjacent_moves_snoc no_adjacent_moves_butlast)
qed simp

lemma length_coalesce: "length (coalesce es) \<le> length es"
  by (induction es rule: rev_induct) (auto simp: coalesce_snoc coalesce_step_def)

lemma coalesce_Cons_nonempty: "es \<noteq> [] \<Longrightarrow> coalesce es \<noteq> []"
  by (cases es rule: rev_cases) (simp_all add: coalesce_snoc coalesce_step_def)

subsection \<open>Tracking what is held\<close>

lemma finite_track: "finite H \<Longrightarrow> finite (track e H)"
  by (cases e) auto

text \<open>The event of a batch that decides about one key or button: the last one naming it.\<close>

fun names :: "raw_input \<Rightarrow> held option" where
  "names (ButtonEvent button _) = Some (HeldButton button)"
| "names (KeyEvent code extended _) = Some (HeldKey code extended)"
| "names _ = None"

lemma track_other: "names e \<noteq> Some h \<Longrightarrow> h \<in> track e H \<longleftrightarrow> h \<in> H"
  by (cases e) auto

lemma track_named: "names e = Some h \<Longrightarrow> h \<in> track e H \<longleftrightarrow> event_down e"
  by (cases e) auto

lemma track_release: "track (release_event h) H = H - {h}"
  by (cases h) simp_all

lemma fold_track_release: "fold track (map release_event hs) H = H - set hs"
  by (induction hs arbitrary: H) (auto simp: track_release)

lemma set_held_list [simp]: "finite H \<Longrightarrow> set (held_list H) = H"
  by (simp add: held_list_def)

lemma fold_track_last:
  "h \<in> fold track es H \<longleftrightarrow>
     (case filter (\<lambda>e. names e = Some h) es of
        [] \<Rightarrow> h \<in> H
      | _ \<Rightarrow> event_down (last (filter (\<lambda>e. names e = Some h) es)))"
proof (induction es arbitrary: H)
  case (Cons e es)
  show ?case
  proof (cases "names e = Some h")
    case True
    then show ?thesis
      using Cons [of "track e H"] by (auto simp: track_named split: list.splits)
  next
    case False
    then show ?thesis using Cons [of "track e H"] by (auto simp: track_other split: list.splits)
  qed
qed simp

subsection \<open>Properties\<close>

text \<open>
  Coalescing a batch of viewer input loses nothing the guest can see: every event that
  is not a pointer move still happens at the same pointer position, the pointer ends where
  it would have, and no two moves are adjacent any more.
\<close>

theorem coalesce_meaning:
  "replay p (coalesce es) = replay p es \<and> no_adjacent_moves (coalesce es)
    \<and> length (coalesce es) \<le> length es"
  by (simp add: replay_coalesce coalesce_no_adjacent_moves length_coalesce)

text \<open>
  What the lease tracks as held is what the guest holds: after any batch, a key or
  button is tracked exactly if the last event naming it pressed it (or none named it and it
  was held before), and sending the releases of everything tracked leaves nothing held.
\<close>

theorem track_is_last_event:
  assumes "finite H"
  shows "(h \<in> fold track es H) =
      (case filter (\<lambda>e. names e = Some h) es of
         [] \<Rightarrow> h \<in> H
       | _ \<Rightarrow> event_down (last (filter (\<lambda>e. names e = Some h) es)))
    \<and> fold track (map release_event (held_list (fold track es H))) (fold track es H) = {}"
proof -
  have "finite (fold track es H)"
    using assms by (induction es arbitrary: H) (auto intro: finite_track)
  then show ?thesis by (simp add: fold_track_last fold_track_release)
qed

theorem track_is_last_event_witness:
  "HeldKey 30 False \<in> fold track [KeyEvent 30 False True, PointerMove 1 2] {}
    \<and> fold track (map release_event (held_list (fold track [KeyEvent 30 False True, PointerMove 1 2] {})))
        (fold track [KeyEvent 30 False True, PointerMove 1 2] {}) = {}"
  using track_is_last_event [of "{}" "HeldKey 30 False" "[KeyEvent 30 False True, PointerMove 1 2]"]
  by (simp del: fold_simps)

end
