(* ===== verification/Control_Lease.thy ===== *)
theory Control_Lease
  imports Session_Events Session_Loop Raw_Input
begin

text \<open>
  The control lease of a session, \<^verbatim>\<open>crates/rdpilot-daemon/src/control.rs\<close>:
  \<open>SessionControl\<close>. Each function is one critical section of the state mutex; an
  operation that waits between sections (\<open>take_within\<close>, \<open>discharge_within\<close>, \<open>expire\<close>)
  is one function per section, and \<open>Control_Steps\<close> interleaves them. Time is an
  argument: a \<open>tick\<close> is what the clocks and the frame counter show during a section.
  Durations are nanoseconds, and \<open>saturating_duration_since\<close> is subtraction of naturals.
\<close>

subsection \<open>Constants\<close>

definition TAKE_BOUND :: nat where "TAKE_BOUND = 10000000000"
definition HEARTBEAT_TIMEOUT :: nat where "HEARTBEAT_TIMEOUT = 5000000000"
definition DEFAULT_IDLE_TIMEOUT :: nat where "DEFAULT_IDLE_TIMEOUT = 300000000000"
definition EPOCH_CONFIRM_WAIT :: nat where "EPOCH_CONFIRM_WAIT = 6000000000"
definition RECENT_ENDS :: nat where "RECENT_ENDS = 16"

definition epoch_confirm_wait :: "ustr option \<Rightarrow> nat" where
  "epoch_confirm_wait value =
     (case Option.bind value (parse_unsigned u64_max) of
        None \<Rightarrow> EPOCH_CONFIRM_WAIT
      | Some ms \<Rightarrow> if ms > 0 then ms * 1000000 else EPOCH_CONFIRM_WAIT)"

subsection \<open>Data\<close>

record loss =
  loss_by :: "controller_ref option"
  loss_reason :: "ustr option"

definition end_reason_str :: "end_reason \<Rightarrow> ustr" where
  "end_reason_str r =
     (case r of
        HeartbeatLost \<Rightarrow> lit ''heartbeat_lost''
      | IdleTimeout \<Rightarrow> lit ''idle_timeout''
      | ViewerStopped \<Rightarrow> lit ''viewer_stopped''
      | EndSessionEnded \<Rightarrow> lit ''session_ended''
      | EndDaemonStopped \<Rightarrow> lit ''daemon_stopped'')"

definition loss_by_controller :: "controller_ref \<Rightarrow> loss" where
  "loss_by_controller c = \<lparr>loss_by = Some c, loss_reason = None\<rparr>"

definition loss_for_reason :: "end_reason \<Rightarrow> loss" where
  "loss_for_reason r = \<lparr>loss_by = None, loss_reason = Some (end_reason_str r)\<rparr>"

definition loss_released :: loss where
  "loss_released = \<lparr>loss_by = None, loss_reason = Some (lit ''released'')\<rparr>"

definition source_str :: "event_source \<Rightarrow> ustr" where
  "source_str s =
     (case s of Cua \<Rightarrow> lit ''cua'' | Cli \<Rightarrow> lit ''cli'' | Viewer \<Rightarrow> lit ''viewer'' | Daemon \<Rightarrow> lit ''daemon'')"

fun describe :: "controller_ref \<Rightarrow> ustr" where
  "describe Agent = lit ''the agent''"
| "describe (Human address) = lit ''human viewer '' @ address"

datatype not_held = Lost loss | UnknownLease
datatype take_error = Busy | TakeLost loss
datatype send_answer = Sent | SentStale | SendFailed

record wire_controller =
  wc_human :: bool
  wc_address :: "ustr option"
  wc_since :: "ustr option"

record grant =
  gr_lease :: ustr
  gr_generation :: nat
  gr_controller :: wire_controller

record drops =
  dr_stale :: nat
  dr_geometry :: nat
  dr_generation :: nat

record input_report =
  ir_applied :: nat
  ir_dropped :: drops
  ir_lost :: "not_held option"

datatype input_error = Unavailable

record tick =
  tk_now :: nat
  tk_wall :: int
  tk_frame :: nat

record lease =
  ls_id :: ustr
  ls_address :: ustr
  ls_since_wall :: int
  ls_granted :: bool
  ls_heartbeat :: nat
  ls_input :: nat
  ls_held :: "held set"

definition lease_controller :: "lease \<Rightarrow> controller_ref" where
  "lease_controller l = Human (ls_address l)"

text \<open>\<open>cs_pending\<close> is the count of \<open>Pending\<close>: transitions whose releases are not sent yet.\<close>

record control =
  cs_session :: ustr
  cs_generation :: nat
  cs_has_input :: bool
  cs_lease :: "lease option"
  cs_epoch :: epoch
  cs_inflight :: nat
  cs_ended :: "(ustr \<times> loss) list"
  cs_human_activity :: "(nat \<times> int) option"
  cs_pending :: nat
  cs_log :: session_events

definition new_control :: "ustr \<Rightarrow> nat \<Rightarrow> session_events \<Rightarrow> bool \<Rightarrow> control" where
  "new_control session generation events has_input =
     \<lparr>cs_session = session, cs_generation = generation, cs_has_input = has_input, cs_lease = None,
      cs_epoch = INITIAL_EPOCH, cs_inflight = 0, cs_ended = [], cs_human_activity = None,
      cs_pending = 0, cs_log = events\<rparr>"

record transition =
  tr_release :: "held list"
  tr_at :: epoch
  tr_epoch :: "epoch option"

subsection \<open>The state\<close>

definition remember :: "ustr \<times> loss \<Rightarrow> control \<Rightarrow> control" where
  "remember e c = c\<lparr>cs_ended := push_bounded RECENT_ENDS e (cs_ended c)\<rparr>"

definition loss_of :: "control \<Rightarrow> ustr \<Rightarrow> not_held" where
  "loss_of c n =
     (case find (\<lambda>(ended, _). ended = n) (rev (cs_ended c)) of
        None \<Rightarrow> UnknownLease | Some (_, loss) \<Rightarrow> Lost loss)"

definition touch_human :: "tick \<Rightarrow> control \<Rightarrow> control" where
  "touch_human t c = c\<lparr>cs_human_activity := Some (tk_now t, tk_wall t)\<rparr>"

definition held_lease :: "control \<Rightarrow> ustr \<Rightarrow> not_held + lease" where
  "held_lease c n =
     (case cs_lease c of
        Some l \<Rightarrow> if ls_id l = n \<and> ls_granted l then Inr l else Inl (loss_of c n)
      | None \<Rightarrow> Inl (loss_of c n))"

definition new_transition :: "held list \<Rightarrow> control \<Rightarrow> transition \<times> control" where
  "new_transition hs c =
     (\<lparr>tr_release = hs, tr_at = cs_epoch c, tr_epoch = None\<rparr>, c\<lparr>cs_pending := cs_pending c + 1\<rparr>)"

definition advance :: "control \<Rightarrow> transition \<times> control" where
  "advance c =
     (let c1 = c\<lparr>cs_epoch := epoch_next (cs_epoch c)\<rparr>; (tr, c2) = new_transition [] c1
      in (tr\<lparr>tr_epoch := Some (cs_epoch c1)\<rparr>, c2))"

text \<open>The drop of a transition's guard.\<close>

definition transition_done :: "control \<Rightarrow> control" where
  "transition_done c = c\<lparr>cs_pending := cs_pending c - 1\<rparr>"

definition human_wire :: "lease \<Rightarrow> wire_controller" where
  "human_wire l =
     \<lparr>wc_human = True, wc_address = Some (ls_address l),
      wc_since = Some (iso8601_from_system_time (ls_since_wall l))\<rparr>"

definition agent_wire :: wire_controller where
  "agent_wire = \<lparr>wc_human = False, wc_address = None, wc_since = None\<rparr>"

definition controller :: "control \<Rightarrow> wire_controller" where
  "controller c = (case cs_lease c of None \<Rightarrow> agent_wire | Some l \<Rightarrow> human_wire l)"

definition human_active :: "control \<Rightarrow> bool" where
  "human_active c \<longleftrightarrow> cs_lease c \<noteq> None"

text \<open>\<open>SessionControl::record\<close>: the line for the daemon log, and the event.\<close>

definition control_line :: "event_kind \<Rightarrow> ustr" where
  "control_line kind =
     (case kind of
        ControlTaken by \<Rightarrow> lit ''taken by '' @ describe by
      | ControlTakenOver from by \<Rightarrow>
          lit ''taken over from '' @ describe from @ lit '' by '' @ describe by
      | ControlReleased from \<Rightarrow> lit ''released by '' @ describe from @ lit ''; the agent controls''
      | ControlEnded from reason \<Rightarrow>
          lit ''lease of '' @ describe from @ lit '' ended ('' @ end_reason_str reason
          @ lit ''); the agent controls''
      | _ \<Rightarrow> [])"

definition record_control :: "event_source \<Rightarrow> event_kind \<Rightarrow> tick \<Rightarrow> control \<Rightarrow> control" where
  "record_control src kind t c =
     c\<lparr>cs_log := snd (record_event (tk_now t) (tk_frame t) src kind (cs_log c))\<rparr>"

subsection \<open>Refusals\<close>

definition shell_arg :: "ustr \<Rightarrow> ustr" where
  "shell_arg name =
     (if name \<noteq> [] \<and> list_all (\<lambda>b. is_ascii_alphanumeric b \<or> b \<in> set (lit ''-_.'')) name
      then name
      else [39] @ concat (map (\<lambda>c. if c = 39 then [39, 92, 39, 39] else [c]) name) @ [39])"

definition cli_refusal :: "ustr \<Rightarrow> ustr \<Rightarrow> ustr \<Rightarrow> ustr" where
  "cli_refusal session address since =
     lit ''session '' @ [34] @ session @ [34] @ lit '' is controlled by human viewer '' @ address
     @ lit '' since '' @ clock_time since
     @ lit ''; wait and retry, or take over with: rdpilot takeover --session '' @ shell_arg session"

definition mcp_refusal :: "ustr \<Rightarrow> lease \<Rightarrow> ustr" where
  "mcp_refusal session l =
     lit ''session '' @ [34] @ session @ [34] @ lit '' is controlled by human viewer '' @ ls_address l
     @ lit '' since '' @ clock_time (iso8601_from_system_time (ls_since_wall l))
     @ lit ''; wait and retry, or repeat this call with '' @ [34] @ lit ''takeover'' @ [34]
     @ lit '': true to take control''"

text \<open>What \<open>HumanControl\<close> carries: the session, the address and the time of the take.\<close>

record human_control =
  hc_session :: ustr
  hc_address :: ustr
  hc_since :: ustr

definition human_control_error :: "control \<Rightarrow> lease \<Rightarrow> human_control" where
  "human_control_error c l =
     \<lparr>hc_session = cs_session c, hc_address = ls_address l,
      hc_since = iso8601_from_system_time (ls_since_wall l)\<rparr>"

subsection \<open>Admission of the agent\<close>

definition released :: "control \<Rightarrow> bool" where
  "released c \<longleftrightarrow> cs_pending c = 0"

text \<open>One poll of \<open>admit_agent\<close>: \<open>None\<close> while it waits.\<close>

definition admit_agent :: "control \<Rightarrow> (human_control + epoch) option" where
  "admit_agent c =
     (case cs_lease c of
        Some l \<Rightarrow> Some (Inl (human_control_error c l))
      | None \<Rightarrow> if released c then Some (Inr (cs_epoch c)) else None)"

datatype 'e daemon_error = HumanControl human_control | SdkStale stale_input | OtherError 'e

definition stale_error :: "control \<Rightarrow> 'e daemon_error \<Rightarrow> 'e daemon_error" where
  "stale_error c e =
     (case e of
        SdkStale _ \<Rightarrow> (case cs_lease c of Some l \<Rightarrow> HumanControl (human_control_error c l) | None \<Rightarrow> e)
      | _ \<Rightarrow> e)"

definition end_lease :: "lease \<Rightarrow> control \<Rightarrow> transition \<times> control" where
  "end_lease l c = (if ls_granted l then advance c else new_transition [] c)"

definition agent_takeover_locked ::
  "event_source \<Rightarrow> tick \<Rightarrow> control \<Rightarrow> transition option \<times> control" where
  "agent_takeover_locked src t c =
     (case cs_lease c of
        None \<Rightarrow> (None, c)
      | Some l \<Rightarrow>
          (let c1 = remember (ls_id l, loss_by_controller Agent) (c\<lparr>cs_lease := None\<rparr>);
               c2 = touch_human t c1;
               c3 = record_control src (ControlTakenOver (lease_controller l) Agent) t c2;
               (tr, c4) = end_lease l c3
           in (Some tr, c4)))"

definition agent_takeover ::
  "event_source \<Rightarrow> tick \<Rightarrow> control \<Rightarrow> (wire_controller \<times> transition option) \<times> control" where
  "agent_takeover src t c =
     (let previous = controller c; (tr, c1) = agent_takeover_locked src t c in ((previous, tr), c1))"

definition admit_cua ::
  "nat \<Rightarrow> bool \<Rightarrow> tick \<Rightarrow> control \<Rightarrow> (ustr + transition option) \<times> control" where
  "admit_cua count takeover t c =
     (case cs_lease c of
        None \<Rightarrow> (Inr None, c\<lparr>cs_inflight := cs_inflight c + count\<rparr>)
      | Some l \<Rightarrow>
          if \<not> takeover then (Inl (mcp_refusal (cs_session c) l), c)
          else (let (tr, c1) = agent_takeover_locked Cua t c
                in (Inr tr, c1\<lparr>cs_inflight := cs_inflight c1 + count\<rparr>)))"

definition cua_finished :: "nat \<Rightarrow> control \<Rightarrow> control" where
  "cua_finished count c =
     (if count = 0 then c else c\<lparr>cs_inflight := cs_inflight c - count\<rparr>)"

subsection \<open>The end of a human lease\<close>

definition take_human :: "end_reason \<Rightarrow> tick \<Rightarrow> control \<Rightarrow> lease option \<times> control" where
  "take_human reason t c =
     (case cs_lease c of
        None \<Rightarrow> (None, c)
      | Some l \<Rightarrow>
          (let c1 = remember (ls_id l, loss_for_reason reason) (c\<lparr>cs_lease := None\<rparr>);
               c2 = touch_human t c1
           in (Some l, if ls_granted l
                       then record_control Daemon (ControlEnded (lease_controller l) reason) t c2
                       else c2)))"

definition end_human :: "end_reason \<Rightarrow> tick \<Rightarrow> control \<Rightarrow> transition option \<times> control" where
  "end_human reason t c =
     (case take_human reason t c of
        (None, c1) \<Rightarrow> (None, c1)
      | (Some l, c1) \<Rightarrow> (let (tr, c2) = end_lease l c1 in (Some tr, c2)))"

definition end_human_ended :: "tick \<Rightarrow> control \<Rightarrow> transition option \<times> control" where
  "end_human_ended t c =
     (case take_human EndSessionEnded t c of
        (None, c1) \<Rightarrow> (None, c1)
      | (Some l, c1) \<Rightarrow> (let (tr, c2) = new_transition [] c1 in (Some tr, c2)))"

subsection \<open>Discharge\<close>

datatype sent = SentEpoch epoch | SentInput "raw_input list" epoch

definition release_sends :: "bool \<Rightarrow> held list \<Rightarrow> epoch \<Rightarrow> sent list" where
  "release_sends has_input hs e =
     (if hs = [] \<or> \<not> has_input then [] else [SentInput (map release_event hs) e])"

text \<open>
  \<open>discharge_within\<close>: what is sent, and the answer when the session loop's answer to an
  epoch change within the wait is \<open>confirmed\<close>. The guard drops when it returns.
\<close>

definition discharge_sends :: "bool \<Rightarrow> transition \<Rightarrow> sent list" where
  "discharge_sends has_input tr =
     (case tr_epoch tr of
        Some e \<Rightarrow> if has_input then [SentEpoch e] else []
      | None \<Rightarrow> release_sends has_input (tr_release tr) (tr_at tr))"

definition discharge_answer :: "bool \<Rightarrow> bool \<Rightarrow> transition \<Rightarrow> bool" where
  "discharge_answer has_input confirmed tr =
     (case tr_epoch tr of Some e \<Rightarrow> \<not> has_input \<or> confirmed | None \<Rightarrow> True)"

subsection \<open>Take\<close>

definition new_lease :: "ustr \<Rightarrow> ustr \<Rightarrow> tick \<Rightarrow> lease" where
  "new_lease n address t =
     \<lparr>ls_id = n, ls_address = address, ls_since_wall = tk_wall t, ls_granted = False,
      ls_heartbeat = tk_now t, ls_input = tk_now t, ls_held = {}\<rparr>"

text \<open>First section: the new lease is set, pending; \<open>Some\<close> when a holder was displaced.\<close>

definition take_start :: "ustr \<Rightarrow> ustr \<Rightarrow> tick \<Rightarrow> control \<Rightarrow> transition option \<times> control" where
  "take_start n address t c =
     (let l = new_lease n address t; by = lease_controller l; c1 = c\<lparr>cs_lease := Some l\<rparr>
      in case cs_lease c of
           Some old \<Rightarrow>
             if ls_granted old then
               (let c2 = remember (ls_id old, loss_by_controller by) c1;
                    c3 = record_control Viewer (ControlTakenOver (lease_controller old) by) t c2;
                    (tr, c4) = advance c3
                in (Some tr, c4))
             else (None, remember (ls_id old, loss_by_controller by) c1)
         | None \<Rightarrow> (None, c1))"

definition is_lease :: "ustr \<Rightarrow> control \<Rightarrow> bool" where
  "is_lease n c \<longleftrightarrow> (case cs_lease c of Some l \<Rightarrow> ls_id l = n | None \<Rightarrow> False)"

definition lost_take :: "ustr \<Rightarrow> control \<Rightarrow> take_error" where
  "lost_take n c =
     (case loss_of c n of Lost loss \<Rightarrow> TakeLost loss | UnknownLease \<Rightarrow> TakeLost (loss_by_controller Agent))"

text \<open>Second section of a take from the agent, after the wait (\<open>settled\<close>: within the bound).\<close>

definition take_settled :: "ustr \<Rightarrow> bool \<Rightarrow> control \<Rightarrow> (take_error + transition) \<times> control" where
  "take_settled n settled c =
     (if \<not> is_lease n c then (Inl (lost_take n c), c)
      else if \<not> settled then (Inl Busy, c\<lparr>cs_lease := None\<rparr>)
      else (let (tr, c1) = advance c in (Inr tr, c1)))"

text \<open>Last section: the answer to the take.\<close>

definition take_finish :: "ustr \<Rightarrow> bool \<Rightarrow> tick \<Rightarrow> control \<Rightarrow> (take_error + lease) \<times> control" where
  "take_finish n confirmed t c =
     (case cs_lease c of
        Some l \<Rightarrow>
          if ls_id l \<noteq> n then (Inl (lost_take n c), c)
          else if \<not> confirmed then (Inl Busy, c\<lparr>cs_lease := None\<rparr>)
          else (let l1 = l\<lparr>ls_granted := True, ls_heartbeat := tk_now t, ls_input := tk_now t,
                           ls_since_wall := tk_wall t\<rparr>
                in (Inr l1, c\<lparr>cs_lease := Some l1\<rparr>))
      | None \<Rightarrow> (Inl (lost_take n c), c))"

text \<open>After the last section, outside the mutex: a take from the agent is recorded.\<close>

definition take_recorded :: "lease \<Rightarrow> tick \<Rightarrow> control \<Rightarrow> control" where
  "take_recorded l t c = record_control Viewer (ControlTaken (lease_controller l)) t c"

definition grant_of :: "control \<Rightarrow> lease \<Rightarrow> grant" where
  "grant_of c l = \<lparr>gr_lease = ls_id l, gr_generation = cs_generation c, gr_controller = human_wire l\<rparr>"

text \<open>The drop of an armed \<open>PendingTake\<close>.\<close>

definition take_dropped :: "ustr \<Rightarrow> control \<Rightarrow> control" where
  "take_dropped n c =
     (case cs_lease c of
        Some l \<Rightarrow> if ls_id l = n \<and> \<not> ls_granted l then c\<lparr>cs_lease := None\<rparr> else c
      | None \<Rightarrow> c)"

subsection \<open>Requests of the holder\<close>

definition check_lease :: "ustr \<Rightarrow> control \<Rightarrow> not_held + unit" where
  "check_lease n c = map_sum id (\<lambda>_. ()) (held_lease c n)"

definition heartbeat :: "ustr \<Rightarrow> tick \<Rightarrow> control \<Rightarrow> (not_held + unit) \<times> control" where
  "heartbeat n t c =
     (case held_lease c n of
        Inl e \<Rightarrow> (Inl e, c)
      | Inr l \<Rightarrow> (Inr (), c\<lparr>cs_lease := Some (l\<lparr>ls_heartbeat := tk_now t\<rparr>)\<rparr>))"

definition blur :: "ustr \<Rightarrow> tick \<Rightarrow> control \<Rightarrow> (not_held + transition) \<times> control" where
  "blur n t c =
     (case held_lease c n of
        Inl e \<Rightarrow> (Inl e, c)
      | Inr l \<Rightarrow>
          (let c1 = c\<lparr>cs_lease := Some (l\<lparr>ls_heartbeat := tk_now t, ls_held := {}\<rparr>)\<rparr>;
               (tr, c2) = new_transition (held_list (ls_held l)) c1
           in (Inr tr, c2)))"

definition release :: "ustr \<Rightarrow> tick \<Rightarrow> control \<Rightarrow> (not_held + transition) \<times> control" where
  "release n t c =
     (case held_lease c n of
        Inl e \<Rightarrow> (Inl e, c)
      | Inr l \<Rightarrow>
          (let c1 = remember (ls_id l, loss_released) (c\<lparr>cs_lease := None\<rparr>);
               c2 = touch_human t c1;
               c3 = record_control Viewer (ControlReleased (lease_controller l)) t c2;
               (tr, c4) = advance c3
           in (Inr tr, c4)))"

text \<open>First section of \<open>expire\<close>; its second is \<open>end_human\<close> with the reason.\<close>

definition expire_reason :: "nat \<Rightarrow> nat \<Rightarrow> control \<Rightarrow> end_reason option" where
  "expire_reason now idle c =
     (case cs_lease c of
        None \<Rightarrow> None
      | Some l \<Rightarrow>
          if \<not> ls_granted l then None
          else if now - ls_heartbeat l > HEARTBEAT_TIMEOUT then Some HeartbeatLost
          else if now - ls_input l \<ge> idle then Some IdleTimeout
          else None)"

definition expire :: "nat \<Rightarrow> nat \<Rightarrow> tick \<Rightarrow> control \<Rightarrow> transition option \<times> control" where
  "expire now idle t c =
     (case expire_reason now idle c of None \<Rightarrow> (None, c) | Some reason \<Rightarrow> end_human reason t c)"

subsection \<open>Input of the holder\<close>

text \<open>
  What one event of a request meets: what other tasks did to the state before its check,
  the frame geometry, the clock, what other tasks do while it is sent, and the answer of
  the session loop to the send.
\<close>

record input_env =
  ie_before :: "control \<Rightarrow> control"
  ie_geometry :: "(nat \<times> nat) option"
  ie_tick :: tick
  ie_during :: "control \<Rightarrow> control"
  ie_answer :: send_answer

definition add_stale :: "nat \<Rightarrow> not_held option \<Rightarrow> input_report \<Rightarrow> input_report" where
  "add_stale n lost r =
     r\<lparr>ir_dropped := (ir_dropped r)\<lparr>dr_stale := dr_stale (ir_dropped r) + n\<rparr>, ir_lost := lost\<rparr>"

definition add_geometry :: "input_report \<Rightarrow> input_report" where
  "add_geometry r =
     r\<lparr>ir_dropped := (ir_dropped r)\<lparr>dr_geometry := dr_geometry (ir_dropped r) + 1\<rparr>\<rparr>"

definition lost_now :: "ustr \<Rightarrow> control \<Rightarrow> not_held option" where
  "lost_now n c = (case check_lease n c of Inl e \<Rightarrow> Some e | Inr _ \<Rightarrow> None)"

definition off_frame :: "raw_input \<Rightarrow> nat \<times> nat \<Rightarrow> (nat \<times> nat) option \<Rightarrow> held set \<Rightarrow> bool" where
  "off_frame event aimed current H \<longleftrightarrow>
     is_pointer event \<and> \<not> geometry_matches event aimed current \<and> \<not> releases_held_button H event"

text \<open>The critical section of one event that is not fenced.\<close>

definition track_input :: "lease \<Rightarrow> raw_input \<Rightarrow> tick \<Rightarrow> control \<Rightarrow> control" where
  "track_input l event t c =
     touch_human t
       (c\<lparr>cs_lease := Some (l\<lparr>ls_held := track event (ls_held l), ls_input := tk_now t,
                               ls_heartbeat := tk_now t\<rparr>)\<rparr>)"

fun input_loop ::
  "ustr \<Rightarrow> nat \<times> nat \<Rightarrow> (raw_input \<times> input_env) list \<Rightarrow> epoch option \<Rightarrow> input_report \<Rightarrow> control
    \<Rightarrow> (input_error + input_report) \<times> sent list \<times> control" where
  "input_loop n aimed [] ep rep c = (Inr rep, [], c)"
| "input_loop n aimed ((event, env) # rest) ep rep c =
     (let remaining = length rest;
          c1 = ie_before env c;
          ep1 = (case ep of None \<Rightarrow> cs_epoch c1 | Some e \<Rightarrow> e)
      in case held_lease c1 n of
           Inl lost \<Rightarrow> (Inr (add_stale (remaining + 1) (Some lost) rep), [], c1)
         | Inr holder \<Rightarrow>
             if off_frame event aimed (ie_geometry env) (ls_held holder) then
               (let buttons = filter is_button (held_list (ls_held holder));
                    c2 = c1\<lparr>cs_lease := Some (holder\<lparr>ls_held := ls_held holder - set buttons\<rparr>)\<rparr>;
                    (r, sends, c3) =
                      input_loop n aimed rest (Some ep1) (add_geometry rep) (ie_during env c2)
                in (r, release_sends True buttons ep1 @ sends, c3))
             else
               (let c2 = ie_during env (track_input holder event (ie_tick env) c1)
                in case ie_answer env of
                     Sent \<Rightarrow>
                       (let (r, sends, c3) =
                              input_loop n aimed rest (Some ep1) (rep\<lparr>ir_applied := ir_applied rep + 1\<rparr>) c2
                        in (r, SentInput [event] ep1 # sends, c3))
                   | SentStale \<Rightarrow>
                       (Inr (add_stale (remaining + 1) (lost_now n c2) rep), [SentInput [event] ep1], c2)
                   | SendFailed \<Rightarrow> (Inl Unavailable, [SentInput [event] ep1], c2)))"

definition empty_report :: input_report where
  "empty_report =
     \<lparr>ir_applied = 0, ir_dropped = \<lparr>dr_stale = 0, dr_geometry = 0, dr_generation = 0\<rparr>, ir_lost = None\<rparr>"

text \<open>\<open>envs i\<close> is what the \<open>i\<close>-th event after coalescing meets.\<close>

definition input ::
  "ustr \<Rightarrow> nat \<Rightarrow> nat \<times> nat \<Rightarrow> raw_input list \<Rightarrow> (nat \<Rightarrow> input_env) \<Rightarrow> control
    \<Rightarrow> (input_error + input_report) \<times> sent list \<times> control" where
  "input n generation aimed events envs c =
     (if generation \<noteq> cs_generation c then
        (Inr (empty_report\<lparr>ir_dropped := \<lparr>dr_stale = 0, dr_geometry = 0, dr_generation = length events\<rparr>,
                           ir_lost := lost_now n c\<rparr>), [], c)
      else if \<not> cs_has_input c then (Inl Unavailable, [], c)
      else
        (let batch = coalesce events
         in input_loop n aimed (zip batch (map envs [0..<length batch])) None empty_report c))"

end
