(* ===== verification/Control_Facts.thy ===== *)
theory Control_Facts
  imports Control_Lease
begin

text \<open>
  What each critical section of the control lease guarantees on its own: losses are
  remembered, the agent is refused under a human lease, input is accounted for and fenced
  by geometry, and the text of a refusal can be pasted into a shell.
\<close>

subsection \<open>Frame\<close>

lemma remember_fields [simp, rd_frame]:
  "cs_lease (remember e c) = cs_lease c" "cs_epoch (remember e c) = cs_epoch c"
  "cs_inflight (remember e c) = cs_inflight c" "cs_pending (remember e c) = cs_pending c"
  "cs_log (remember e c) = cs_log c" "cs_session (remember e c) = cs_session c"
  "cs_generation (remember e c) = cs_generation c" "cs_has_input (remember e c) = cs_has_input c"
  by (simp_all add: remember_def)

lemma touch_human_fields [simp, rd_frame]:
  "cs_lease (touch_human t c) = cs_lease c" "cs_epoch (touch_human t c) = cs_epoch c"
  "cs_inflight (touch_human t c) = cs_inflight c" "cs_pending (touch_human t c) = cs_pending c"
  "cs_log (touch_human t c) = cs_log c" "cs_session (touch_human t c) = cs_session c"
  "cs_generation (touch_human t c) = cs_generation c" "cs_has_input (touch_human t c) = cs_has_input c"
  "cs_ended (touch_human t c) = cs_ended c"
  by (simp_all add: touch_human_def)

lemma record_control_fields [simp]:
  "cs_lease (record_control s k t c) = cs_lease c" "cs_epoch (record_control s k t c) = cs_epoch c"
  "cs_inflight (record_control s k t c) = cs_inflight c" "cs_pending (record_control s k t c) = cs_pending c"
  "cs_session (record_control s k t c) = cs_session c" "cs_ended (record_control s k t c) = cs_ended c"
  "cs_generation (record_control s k t c) = cs_generation c"
  "cs_has_input (record_control s k t c) = cs_has_input c"
  by (simp_all add: record_control_def)

lemma new_transition_fields [simp]:
  "snd (new_transition hs c) = c\<lparr>cs_pending := cs_pending c + 1\<rparr>"
  "fst (new_transition hs c) = \<lparr>tr_release = hs, tr_at = cs_epoch c, tr_epoch = None\<rparr>"
  by (simp_all add: new_transition_def)

lemma advance_fields [simp]:
  "snd (advance c) = c\<lparr>cs_epoch := epoch_next (cs_epoch c), cs_pending := cs_pending c + 1\<rparr>"
  "fst (advance c) = \<lparr>tr_release = [], tr_at = epoch_next (cs_epoch c), tr_epoch = Some (epoch_next (cs_epoch c))\<rparr>"
  by (simp_all add: advance_def new_transition_def Let_def)

lemma new_transition_eq:
  "new_transition hs c = (\<lparr>tr_release = hs, tr_at = cs_epoch c, tr_epoch = None\<rparr>,
     c\<lparr>cs_pending := cs_pending c + 1\<rparr>)"
  by (simp add: new_transition_def)

lemma advance_eq:
  "advance c = (\<lparr>tr_release = [], tr_at = epoch_next (cs_epoch c), tr_epoch = Some (epoch_next (cs_epoch c))\<rparr>,
     c\<lparr>cs_epoch := epoch_next (cs_epoch c), cs_pending := cs_pending c + 1\<rparr>)"
  by (simp add: advance_def new_transition_def Let_def)

lemmas control_ops =
  end_lease_def agent_takeover_locked_def agent_takeover_def admit_cua_def cua_finished_def
  take_human_def end_human_def end_human_ended_def take_start_def take_settled_def take_finish_def
  take_recorded_def take_dropped_def heartbeat_def blur_def release_def transition_done_def
  new_transition_eq advance_eq Let_def

lemma held_lease_Inr:
  "held_lease c n = Inr l \<longleftrightarrow> cs_lease c = Some l \<and> ls_id l = n \<and> ls_granted l"
  by (auto simp: held_lease_def split: option.splits)

lemma held_lease_Inl: "held_lease c n = Inl e \<Longrightarrow> e = loss_of c n"
  by (auto simp: held_lease_def split: option.splits if_splits)

subsection \<open>The losses are a bounded queue\<close>

interpretation ends: bounded_queue cs_ended remember RECENT_ENDS
proof
  show "0 < RECENT_ENDS" by (simp add: RECENT_ENDS_def)
  show "cs_ended (remember e c) = take_last RECENT_ENDS (cs_ended c @ [e])"
    if "length (cs_ended c) \<le> RECENT_ENDS" for e c
    using that \<open>0 < RECENT_ENDS\<close> by (simp add: remember_def push_bounded_take_last)
qed

lemma find_append: "find P (xs @ ys) = (case find P xs of None \<Rightarrow> find P ys | Some x \<Rightarrow> Some x)"
  by (induction xs) simp_all

lemma loss_of_newest:
  assumes "cs_ended c = xs @ (n, loss) # ys" and "n \<notin> fst ` set ys"
  shows "loss_of c n = Lost loss"
proof -
  have "find (\<lambda>(ended, _). ended = n) (rev ys) = None"
    using assms(2) by (force simp: find_None_iff)
  then show ?thesis by (simp add: loss_of_def assms(1) find_append)
qed

lemma loss_of_later:
  assumes "length (cs_ended c) \<le> RECENT_ENDS"
    and "length later < RECENT_ENDS" and "n \<notin> fst ` set later"
  shows "loss_of (fold remember later (remember (n, loss) c)) n = Lost loss"
proof -
  have "cs_ended (fold remember later (remember (n, loss) c))
      = take_last RECENT_ENDS (cs_ended c @ (n, loss) # later)"
    using ends.pushes [of c "(n, loss) # later"] assms(1) by simp
  also have "\<dots> = take_last (RECENT_ENDS - Suc (length later)) (cs_ended c) @ (n, loss) # later"
    using assms(2) by (simp add: take_last_def Suc_diff_le)
  finally show ?thesis using assms(3) by (rule loss_of_newest)
qed

subsection \<open>What a request sends\<close>

text \<open>What the guest holds after a send of the daemon, if it held \<open>H\<close> before.\<close>

fun guest_after :: "sent \<Rightarrow> held set \<Rightarrow> held set" where
  "guest_after (SentEpoch e) H = {}"
| "guest_after (SentInput events e) H = fold track events H"

fun sent_epoch :: "sent \<Rightarrow> epoch" where
  "sent_epoch (SentEpoch e) = e"
| "sent_epoch (SentInput events e) = e"

definition accounted :: "input_report \<Rightarrow> nat" where
  "accounted r = ir_applied r + dr_stale (ir_dropped r) + dr_geometry (ir_dropped r)"

lemma accounted_simps [simp]:
  "accounted (add_stale k lost r) = accounted r + k"
  "accounted (add_geometry r) = accounted r + 1"
  "accounted (r\<lparr>ir_applied := ir_applied r + 1\<rparr>) = accounted r + 1"
  "accounted empty_report = 0"
  by (simp_all add: accounted_def add_stale_def add_geometry_def empty_report_def)

lemma input_loop_accounted:
  "input_loop n aimed evs ep rep c = (Inr rep', sends, c')
     \<Longrightarrow> accounted rep' = accounted rep + length evs"
proof (induction evs arbitrary: ep rep c rep' sends c')
  case (Cons ev rest)
  obtain event env where ev: "ev = (event, env)" by fastforce
  from Cons.prems show ?case
    by (auto simp: ev Let_def split: sum.splits if_splits send_answer.splits prod.splits dest!: Cons.IH)
      (simp_all add: accounted_def)
qed simp

lemma release_sends_epoch: "s \<in> set (release_sends b hs e) \<Longrightarrow> sent_epoch s = e"
  by (auto simp: release_sends_def split: if_splits)

lemma input_loop_epoch:
  "input_loop n aimed evs (Some e) rep c = (r, sends, c') \<Longrightarrow> s \<in> set sends \<Longrightarrow> sent_epoch s = e"
proof (induction evs arbitrary: rep c r sends c' s)
  case (Cons ev rest)
  obtain event env where ev: "ev = (event, env)" by fastforce
  from Cons.prems show ?case
    by (auto simp: ev Let_def release_sends_epoch split: sum.splits if_splits send_answer.splits prod.splits
        dest: Cons.IH)
qed simp

lemma input_loop_first_epoch:
  "input_loop n aimed ((event, env) # rest) None rep c
     = input_loop n aimed ((event, env) # rest) (Some (cs_epoch (ie_before env c))) rep c"
  by simp

lemma buttons_of: "finite H \<Longrightarrow> set (filter is_button (held_list H)) = {h \<in> H. is_button h}"
  by auto

lemma guest_after_release_sends:
  "guest_after (SentInput (map release_event hs) e) H = H - set hs"
  by (simp add: fold_track_release)

lemma fold_release_sends: "fold guest_after (release_sends True hs e) H = H - set hs"
  by (simp add: release_sends_def fold_track_release)

text \<open>Nothing interferes with the request, and the loop takes every send.\<close>

definition undisturbed :: "input_env \<Rightarrow> bool" where
  "undisturbed env \<longleftrightarrow> ie_before env = id \<and> ie_during env = id \<and> ie_answer env = Sent"

lemma track_input_held:
  "ls_granted l \<Longrightarrow> ls_id l = n \<Longrightarrow>
     held_lease (track_input l event t c) n
       = Inr (l\<lparr>ls_held := track event (ls_held l), ls_input := tk_now t, ls_heartbeat := tk_now t\<rparr>)"
  by (simp add: track_input_def held_lease_Inr)

lemma input_loop_tracks:
  assumes "input_loop n aimed evs ep rep c = (r, sends, c')"
    and "\<forall>x \<in> set evs. undisturbed (snd x)"
    and "held_lease c n = Inr l" and "finite (ls_held l)"
  shows "\<exists>l'. held_lease c' n = Inr l' \<and> ls_held l' = fold guest_after sends (ls_held l)"
  using assms
proof (induction evs arbitrary: ep rep c r sends c' l)
  case (Cons ev rest)
  obtain event env where ev: "ev = (event, env)" by fastforce
  from Cons.prems(2) ev have env: "ie_before env = id" "ie_during env = id" "ie_answer env = Sent"
    by (auto simp: undisturbed_def)
  from Cons.prems(3) have l: "cs_lease c = Some l" "ls_id l = n" "ls_granted l"
    by (simp_all add: held_lease_Inr)
  let ?e = "case ep of None \<Rightarrow> cs_epoch c | Some e \<Rightarrow> e"
  show ?case
  proof (cases "off_frame event aimed (ie_geometry env) (ls_held l)")
    case True
    let ?b = "filter is_button (held_list (ls_held l))"
    let ?c = "c\<lparr>cs_lease := Some (l\<lparr>ls_held := ls_held l - set ?b\<rparr>)\<rparr>"
    obtain r1 s1 c1 where rec: "input_loop n aimed rest (Some ?e) (add_geometry rep) ?c = (r1, s1, c1)"
      by (metis prod_cases3)
    with Cons.prems(1,3) env True have eq: "c' = c1" "sends = release_sends True ?b ?e @ s1"
      by (simp_all add: ev Let_def)
    have "held_lease ?c n = Inr (l\<lparr>ls_held := ls_held l - set ?b\<rparr>)" using l by (simp add: held_lease_Inr)
    from Cons.IH [OF rec _ this] Cons.prems(2,4) eq show ?thesis by (auto simp: fold_release_sends)
  next
    case False
    let ?c = "track_input l event (ie_tick env) c"
    obtain r1 s1 c1 where rec: "input_loop n aimed rest (Some ?e) (rep\<lparr>ir_applied := ir_applied rep + 1\<rparr>) ?c = (r1, s1, c1)"
      by (metis prod_cases3)
    with Cons.prems(1,3) env False have eq: "c' = c1" "sends = SentInput [event] ?e # s1"
      by (simp_all add: ev Let_def)
    from Cons.IH [OF rec _ track_input_held [OF l(3,2)]] Cons.prems(2,4) eq show ?thesis
      by (auto simp: finite_track)
  qed
qed simp

subsection \<open>Properties\<close>

text \<open>
  A lost lease is explained: when the holder releases its lease, a later heartbeat of
  that lease answers that it was released, as long as fewer than 16 other leases ended
  since and the lease id is not granted again.
\<close>

theorem loss_notice:
  assumes "held_lease c n = Inr l" and "length (cs_ended c) \<le> RECENT_ENDS"
    and "cs_ended c' = cs_ended (fold remember later (snd (release n t c)))"
    and "length later < RECENT_ENDS" and "n \<notin> fst ` set later"
    and "\<not> is_lease n c'"
  shows "fst (heartbeat n t' c') = Inl (Lost loss_released)"
proof -
  have cong: "cs_ended x = cs_ended y \<Longrightarrow> loss_of x n = loss_of y n" for x y by (simp add: loss_of_def)
  have fold_cong: "cs_ended x = cs_ended y \<Longrightarrow> cs_ended (fold remember es x) = cs_ended (fold remember es y)" for es x y
    by (induction es arbitrary: x y) (simp_all add: remember_def)
  from assms(1) have l: "ls_id l = n" by (simp add: held_lease_Inr)
  have "cs_ended (snd (release n t c)) = cs_ended (remember (n, loss_released) c)"
    using assms(1) l by (simp add: release_def Let_def advance_eq remember_def)
  then have "loss_of c' n = loss_of (fold remember later (remember (n, loss_released) c)) n"
    by (intro cong trans [OF assms(3)] fold_cong)
  also have "\<dots> = Lost loss_released" by (rule loss_of_later [OF assms(2,4,5)])
  finally show ?thesis using assms(6) by (auto simp: heartbeat_def held_lease_def is_lease_def split: option.splits)
qed

definition sample_tick :: tick where "sample_tick = \<lparr>tk_now = 3, tk_wall = 4, tk_frame = 5\<rparr>"

definition sample_lease :: lease where
  "sample_lease = (new_lease (lit ''a1'') (lit ''10.0.0.7'') sample_tick)\<lparr>ls_granted := True\<rparr>"

definition sample_control :: control where
  "sample_control = (new_control (lit ''work'') 1 sample_log True)\<lparr>cs_lease := Some sample_lease\<rparr>"

lemma sample_held: "held_lease sample_control (lit ''a1'') = Inr sample_lease"
  by (simp add: held_lease_Inr sample_control_def sample_lease_def new_lease_def)

theorem loss_notice_witness:
  "fst (heartbeat (lit ''a1'') sample_tick
      (remember (lit ''b2'', loss_released) (snd (release (lit ''a1'') sample_tick sample_control))))
    = Inl (Lost loss_released)"
proof (rule loss_notice [OF sample_held, where later = "[(lit ''b2'', loss_released)]"])
  have "cs_lease (snd (release (lit ''a1'') sample_tick sample_control)) = None"
    by (simp add: release_def sample_held Let_def advance_eq)
  then show "\<not> is_lease (lit ''a1'') (remember (lit ''b2'', loss_released) (snd (release (lit ''a1'') sample_tick sample_control)))"
    by (simp add: is_lease_def)
qed (simp_all add: sample_control_def new_control_def RECENT_ENDS_def lit_def)

text \<open>
  C32. Under a human lease, pending or granted, the agent gets nowhere without a takeover:
  its native actions and its acting Cua calls are refused with the holder's name, and the
  state does not change; with a takeover the lease is gone and the calls are counted in the
  same section.
\<close>

theorem agent_refused_under_lease:
  assumes "cs_lease c = Some l"
  shows "admit_agent c = Some (Inl (human_control_error c l))
    \<and> admit_cua count False t c = (Inl (mcp_refusal (cs_session c) l), c)
    \<and> (\<exists>tr c'. admit_cua count True t c = (Inr (Some tr), c') \<and> cs_lease c' = None
         \<and> cs_inflight c' = cs_inflight c + count \<and> cs_pending c' = cs_pending c + 1
         \<and> loss_of c' (ls_id l) = Lost (loss_by_controller Agent))"
  using assms
  by (auto simp: admit_agent_def control_ops remember_def push_bounded_def loss_of_def)

theorem agent_refused_under_lease_witness:
  "\<exists>c'. cs_lease c' = None \<and> cs_inflight c' = 2 \<and> snd (admit_cua 2 True sample_tick sample_control) = c'"
  using agent_refused_under_lease [of sample_control sample_lease 2 sample_tick]
  by (auto simp: sample_control_def new_control_def)

text \<open>
  C29. No input event is lost silently: a request that is answered accounts for every event
  of its batch after coalescing as applied, dropped as stale or dropped for its geometry,
  whatever other tasks do meanwhile; all that it sends carries one epoch, that of its first
  check.
\<close>

theorem input_accounted:
  assumes "generation = cs_generation c" and "cs_has_input c"
    and "input n generation aimed events envs c = (Inr rep, sends, c')"
  shows "accounted rep = length (coalesce events)
    \<and> (\<forall>s \<in> set sends. sent_epoch s = cs_epoch (ie_before (envs 0) c))"
proof -
  let ?evs = "zip (coalesce events) (map envs [0..<length (coalesce events)])"
  from assms have run: "input_loop n aimed ?evs None empty_report c = (Inr rep, sends, c')"
    by (simp add: input_def Let_def)
  then have acc: "accounted rep = length (coalesce events)"
    using input_loop_accounted [OF run] by simp
  show ?thesis
  proof (cases "coalesce events")
    case Nil
    with run acc show ?thesis by simp
  next
    case (Cons e es)
    then have "?evs = (e, envs 0) # zip es (map envs [1..<length (coalesce events)])"
      by (simp add: upt_conv_Cons del: upt_Suc)
    with run have "input_loop n aimed ((e, envs 0) # zip es (map envs [1..<length (coalesce events)]))
        (Some (cs_epoch (ie_before (envs 0) c))) empty_report c = (Inr rep, sends, c')"
      by (simp only: input_loop_first_epoch)
    from input_loop_epoch [OF this] acc show ?thesis by blast
  qed
qed

definition calm_env :: "(nat \<times> nat) option \<Rightarrow> nat \<Rightarrow> input_env" where
  "calm_env geometry i =
     \<lparr>ie_before = id, ie_geometry = geometry, ie_tick = sample_tick, ie_during = id, ie_answer = Sent\<rparr>"

theorem input_accounted_witness:
  "\<exists>rep sends c'. input (lit ''a1'') 1 (800, 600) [ButtonEvent Left True, PointerMove 900 0, KeyEvent 3 False True]
       (calm_env (Some (800, 600))) sample_control = (Inr rep, sends, c') \<and> accounted rep = 3"
proof -
  let ?evs = "[ButtonEvent Left True, PointerMove 900 0, KeyEvent 3 False True]"
  have c: "coalesce ?evs = ?evs" by (simp add: coalesce_def coalesce_step_def)
  obtain r sends c' where i: "input (lit ''a1'') 1 (800, 600) ?evs (calm_env (Some (800, 600))) sample_control
      = (r, sends, c')" by (metis prod_cases3)
  have ok: "cs_generation sample_control = 1" "cs_has_input sample_control"
    by (simp_all add: sample_control_def new_control_def)
  have "\<forall>e. r \<noteq> Inl e"
    using i ok by (auto simp: input_def c Let_def calm_env_def sample_held track_input_held split: sum.splits prod.splits if_splits)
  then obtain rep where "r = Inr rep" by (cases r) auto
  with i input_accounted [of 1 sample_control "lit ''a1''" "(800, 600)" ?evs "calm_env (Some (800, 600))" rep sends c'] ok c
  show ?thesis by auto
qed

text \<open>
  The daemon knows what the guest holds: when nothing interferes and the loop takes
  every send, the keys and buttons recorded for the holder after a request are those the
  guest holds after what was sent (releases of fenced buttons included).
\<close>

theorem input_tracks_guest:
  assumes "input n (cs_generation c) aimed events envs c = (r, sends, c')" and "cs_has_input c"
    and "\<forall>i. undisturbed (envs i)" and "held_lease c n = Inr l" and "finite (ls_held l)"
  shows "\<exists>l'. held_lease c' n = Inr l' \<and> ls_held l' = fold guest_after sends (ls_held l)"
  using assms
  by (auto simp: input_def Let_def set_zip intro!: input_loop_tracks [where evs = "zip (coalesce events) (map envs [0..<length (coalesce events)])"])

theorem input_tracks_guest_witness:
  "\<exists>sends c' l'. held_lease c' (lit ''a1'') = Inr l' \<and> ls_held l' = fold guest_after sends {}
     \<and> snd (input (lit ''a1'') 1 (800, 600) [ButtonEvent Left True, PointerMove 900 0]
          (calm_env (Some (800, 600))) sample_control) = (sends, c')"
proof -
  obtain r sends c' where i: "input (lit ''a1'') 1 (800, 600) [ButtonEvent Left True, PointerMove 900 0]
      (calm_env (Some (800, 600))) sample_control = (r, sends, c')" by (metis prod_cases3)
  have ok: "cs_generation sample_control = 1" "cs_has_input sample_control" "ls_held sample_lease = {}"
    by (simp_all add: sample_control_def new_control_def sample_lease_def new_lease_def)
  with i input_tracks_guest [of "lit ''a1''" sample_control "(800, 600)" _ "calm_env (Some (800, 600))" r sends c' sample_lease]
  show ?thesis by (auto simp: sample_held calm_env_def undisturbed_def)
qed

text \<open>
  C31. The geometry fence leaves no button down: a pointer event aimed at another frame (and
  not the release of a held button) is not sent; instead every held button is released,
  and afterwards neither the daemon nor the guest has a button down, while held keys stay.
\<close>

theorem fence_releases_buttons:
  assumes "held_lease c n = Inr l" and "finite (ls_held l)" and "cs_has_input c"
    and "off_frame event aimed (ie_geometry (envs 0)) (ls_held l)" and "ie_before (envs 0) = id"
    and "input n (cs_generation c) aimed [event] envs c = (r, sends, c')"
  shows "\<exists>rep. r = Inr rep \<and> ir_applied rep = 0 \<and> dr_geometry (ir_dropped rep) = 1
    \<and> fold guest_after sends (ls_held l) = {h \<in> ls_held l. \<not> is_button h}
    \<and> (\<exists>c1. c' = ie_during (envs 0) c1 \<and>
          held_lease c1 n = Inr (l\<lparr>ls_held := {h \<in> ls_held l. \<not> is_button h}\<rparr>))"
proof -
  let ?keys = "{h \<in> ls_held l. \<not> is_button h}"
  let ?c = "c\<lparr>cs_lease := Some (l\<lparr>ls_held := ?keys\<rparr>)\<rparr>"
  have co: "coalesce [event] = [event]" by (simp add: coalesce_def coalesce_step_def)
  have keys: "ls_held l - set (filter is_button (held_list (ls_held l))) = ?keys"
    using assms(2) by auto
  from assms(3,6) have "input_loop n aimed [(event, envs 0)] None empty_report c = (r, sends, c')"
    by (simp add: input_def Let_def co del: input_loop.simps)
  then have "r = Inr (add_geometry empty_report)
      \<and> sends = release_sends True (filter is_button (held_list (ls_held l))) (cs_epoch c)
      \<and> c' = ie_during (envs 0) ?c"
    using assms(1,4,5) unfolding input_loop.simps by (simp add: Let_def keys del: filter_set set_filter)
  moreover from assms(1) have "held_lease ?c n = Inr (l\<lparr>ls_held := ?keys\<rparr>)" by (simp add: held_lease_Inr)
  ultimately show ?thesis
    using keys by (auto simp: fold_release_sends add_geometry_def empty_report_def simp del: set_filter)
qed

definition dragging_control :: control where
  "dragging_control = sample_control\<lparr>cs_lease := Some (sample_lease\<lparr>ls_held := {HeldButton Left, HeldKey 3 False}\<rparr>)\<rparr>"

theorem fence_releases_buttons_witness:
  "fold guest_after (fst (snd (input (lit ''a1'') 1 (800, 600) [PointerMove 900 0]
       (calm_env (Some (800, 600))) dragging_control))) {HeldButton Left, HeldKey 3 False} = {HeldKey 3 False}"
proof -
  obtain r sends c' where i: "input (lit ''a1'') 1 (800, 600) [PointerMove 900 0] (calm_env (Some (800, 600)))
      dragging_control = (r, sends, c')" by (metis prod_cases3)
  have h: "held_lease dragging_control (lit ''a1'') = Inr (sample_lease\<lparr>ls_held := {HeldButton Left, HeldKey 3 False}\<rparr>)"
    by (simp add: held_lease_Inr dragging_control_def sample_lease_def new_lease_def)
  have ok: "cs_generation dragging_control = 1" "cs_has_input dragging_control"
    by (simp_all add: dragging_control_def sample_control_def new_control_def)
  have "off_frame (PointerMove 900 0) (800, 600) (ie_geometry (calm_env (Some (800, 600)) 0))
      {HeldButton Left, HeldKey 3 False}"
    by (simp add: calm_env_def off_frame_def is_pointer_def geometry_matches_def)
  then obtain keys where "fold guest_after sends {HeldButton Left, HeldKey 3 False} = keys"
    and keys: "keys = {h \<in> {HeldButton Left, HeldKey 3 False}. \<not> is_button h}"
    using fence_releases_buttons [OF h _ ok(2) _ _ i [folded ok(1)]] by (simp add: calm_env_def) blast
  moreover have "keys = {HeldKey 3 False}" unfolding keys by auto
  ultimately have "fold guest_after sends {HeldButton Left, HeldKey 3 False} = {HeldKey 3 False}" by simp
  with i show ?thesis by simp
qed

text \<open>
  A human lease expires exactly on its deadlines: a sweep leaves the state alone unless
  a granted lease has had no heartbeat for more than five seconds or no input for the idle
  timeout; then the lease ends with that reason, the heartbeat first, the loss is
  remembered, the epoch advances and one transition is pending.
\<close>

theorem expire_exactly_on_deadlines:
  "(case cs_lease c of
      Some l \<Rightarrow>
        (let lost = tk_now t - ls_heartbeat l > HEARTBEAT_TIMEOUT; idled = tk_now t - ls_input l \<ge> idle
         in if ls_granted l \<and> (lost \<or> idled)
            then (let reason = (if lost then HeartbeatLost else IdleTimeout); (tr, c') = expire (tk_now t) idle t c
                  in tr \<noteq> None \<and> cs_lease c' = None \<and> loss_of c' (ls_id l) = Lost (loss_for_reason reason)
                     \<and> ev_kind (last (ring_events (cs_log c'))) = ControlEnded (lease_controller l) reason
                     \<and> cs_epoch c' = epoch_next (cs_epoch c) \<and> cs_pending c' = cs_pending c + 1)
            else expire (tk_now t) idle t c = (None, c))
    | None \<Rightarrow> expire (tk_now t) idle t c = (None, c))"
  by (auto simp: expire_def expire_reason_def control_ops loss_of_def remember_def push_bounded_def
      record_control_def record_ring push_event_def split: option.splits)

text \<open>
  A blur gives back what was held and nothing more: its transition, sent to a loop of
  the same epoch, leaves the guest with none of the keys and buttons of the holder, the
  lease is kept and records nothing as held, and agent admission waits for the discharge.
\<close>

theorem blur_releases_held:
  assumes "held_lease c n = Inr l" and "finite (ls_held l)" and "blur n t c = (r, c')"
  shows "\<exists>tr. r = Inr tr
    \<and> fold guest_after (discharge_sends True tr) (ls_held l) = {}
    \<and> (\<forall>s \<in> set (discharge_sends True tr). sent_epoch s = cs_epoch c)
    \<and> held_lease c' n = Inr (l\<lparr>ls_heartbeat := tk_now t, ls_held := {}\<rparr>)
    \<and> \<not> released c'"
proof -
  from assms(1) have l: "cs_lease c = Some l" "ls_id l = n" "ls_granted l" by (simp_all add: held_lease_Inr)
  have tr: "r = Inr \<lparr>tr_release = held_list (ls_held l), tr_at = cs_epoch c, tr_epoch = None\<rparr>"
    and c': "c' = c\<lparr>cs_lease := Some (l\<lparr>ls_heartbeat := tk_now t, ls_held := {}\<rparr>), cs_pending := cs_pending c + 1\<rparr>"
    using assms(1,3) by (auto simp: blur_def Let_def new_transition_eq)
  show ?thesis
    using assms(2) l
    by (auto simp: tr c' discharge_sends_def fold_release_sends held_lease_Inr released_def release_sends_epoch)
qed

theorem blur_releases_held_witness:
  "\<exists>tr. fst (blur (lit ''a1'') sample_tick dragging_control) = Inr tr
     \<and> fold guest_after (discharge_sends True tr) {HeldButton Left, HeldKey 3 False} = {}"
proof -
  have h: "held_lease dragging_control (lit ''a1'') = Inr (sample_lease\<lparr>ls_held := {HeldButton Left, HeldKey 3 False}\<rparr>)"
    by (simp add: held_lease_Inr dragging_control_def sample_lease_def new_lease_def)
  obtain r c' where b: "blur (lit ''a1'') sample_tick dragging_control = (r, c')" by fastforce
  with blur_releases_held [OF h _ b] show ?thesis by auto
qed

text \<open>How a POSIX shell reads one word without expansions; \<open>None\<close> for anything it would interpret.\<close>

fun sh_read :: "bool \<Rightarrow> ustr \<Rightarrow> ustr option" where
  "sh_read True [] = None"
| "sh_read True (c # cs) = (if c = 39 then sh_read False cs else map_option ((#) c) (sh_read True cs))"
| "sh_read False [] = Some []"
| "sh_read False (c # cs) =
     (if c = 39 then sh_read True cs
      else if c = 92 then (case cs of [] \<Rightarrow> None | d # ds \<Rightarrow> map_option ((#) d) (sh_read False ds))
      else if is_ascii_alphanumeric c \<or> c \<in> set (lit ''-_.'') then map_option ((#) c) (sh_read False cs)
      else None)"

definition sh_word :: "ustr \<Rightarrow> ustr option" where
  "sh_word s = (if s = [] then None else sh_read False s)"

lemma sh_read_quoted:
  "sh_read True (concat (map (\<lambda>c. if c = 39 then [39, 92, 39, 39] else [c]) name) @ [39]) = Some name"
  by (induction name) simp_all

lemma sh_read_plain:
  "list_all (\<lambda>b. is_ascii_alphanumeric b \<or> b \<in> set (lit ''-_.'')) name \<Longrightarrow> sh_read False name = Some name"
proof (induction name)
  case (Cons c name)
  then have "c \<noteq> 39 \<and> c \<noteq> 92" by (auto simp: char_class_defs lit_def)
  with Cons show ?case by simp
qed simp

text \<open>
  The command in a refusal is safe to paste: whatever the name of a session, a shell
  reads \<open>shell_arg\<close> of it as exactly one word, the name, and interprets no character.
\<close>

theorem shell_arg_roundtrip: "sh_word (shell_arg name) = Some name"
proof (cases "name \<noteq> [] \<and> list_all (\<lambda>b. is_ascii_alphanumeric b \<or> b \<in> set (lit ''-_.'')) name")
  case True
  then show ?thesis by (simp add: shell_arg_def sh_word_def sh_read_plain)
next
  case False
  then have "shell_arg name = 39 # concat (map (\<lambda>c. if c = 39 then [39, 92, 39, 39] else [c]) name) @ [39]"
    by (auto simp: shell_arg_def)
  then show ?thesis by (simp add: sh_word_def sh_read_quoted)
qed

end
