(* ===== verification/Control_Steps.thy ===== *)
theory Control_Steps
  imports Control_Facts
begin

text \<open>
  The control lease and the session loop together, as the tasks of the daemon interleave
  them: every step is one critical section of \<open>Control_Lease\<close> or one iteration of
  \<open>Session_Loop\<close>. \<open>take_within\<close> and the discharge of a transition wait between
  sections, so each is a small state machine; its states name the await the task is at.
\<close>

subsection \<open>The system\<close>

datatype take_pc =
    Waits
  | Settles
  | Observed bool
  | Sends nat
  | MovedSends nat
  | MovedWaits
  | Answers bool bool
  | Records lease
  | Undoing
  | Over

text \<open>
  \<open>sy_open\<close> are the transitions whose guard is alive, by number; the number is also the
  reply channel of the epoch change. \<open>sy_queue\<close> is the command channel of the loop,
  \<open>sy_answers\<close> what the loop answered. \<open>sy_admitted\<close> are the epochs of admitted agent
  actions, \<open>sy_human\<close> lease and epoch of each checked human input, \<open>sy_looked\<close> the
  verdicts of sweeps that have not acted yet.
\<close>

record ('db, 'op, 'm) system =
  sy_control :: control
  sy_loop :: "'db loop_state"
  sy_queue :: "('op, 'm) loop_command list"
  sy_answers :: "(nat \<times> loop_answer) list"
  sy_sent :: "nat \<Rightarrow> epoch option"
  sy_open :: "(nat \<times> transition) list"
  sy_next :: nat
  sy_takes :: "ustr \<Rightarrow> take_pc option"
  sy_admitted :: "epoch list"
  sy_human :: "(ustr \<times> epoch) list"
  sy_looked :: "end_reason list"
  sy_closed :: bool

definition new_system :: "control \<Rightarrow> 'db loop_state \<Rightarrow> ('db, 'op, 'm) system" where
  "new_system c l =
     \<lparr>sy_control = c, sy_loop = l, sy_queue = [], sy_answers = [], sy_sent = Map.empty, sy_open = [],
      sy_next = 0, sy_takes = Map.empty, sy_admitted = [], sy_human = [], sy_looked = [], sy_closed = False\<rparr>"

definition open_transition :: "transition \<Rightarrow> ('db, 'op, 'm) system \<Rightarrow> ('db, 'op, 'm) system" where
  "open_transition tr s =
     s\<lparr>sy_open := (sy_next s, tr) # sy_open s, sy_next := sy_next s + 1\<rparr>"

text \<open>The guard of transition \<open>k\<close> drops.\<close>

definition close_transition :: "nat \<Rightarrow> ('db, 'op, 'm) system \<Rightarrow> ('db, 'op, 'm) system" where
  "close_transition k s =
     s\<lparr>sy_open := filter (\<lambda>(i, _). i \<noteq> k) (sy_open s), sy_control := transition_done (sy_control s)\<rparr>"

abbreviation set_control where "set_control c s \<equiv> s\<lparr>sy_control := c\<rparr>"
abbreviation set_take where "set_take n pc s \<equiv> s\<lparr>sy_takes := (sy_takes s)(n \<mapsto> pc)\<rparr>"
abbreviation enqueue where "enqueue cmd s \<equiv> s\<lparr>sy_queue := sy_queue s @ [cmd]\<rparr>"

definition loop_answers :: "loop_effect list \<Rightarrow> (nat \<times> loop_answer) list" where
  "loop_answers fx = concat (map (\<lambda>f. case f of Answered r a \<Rightarrow> [(r, a)] | _ \<Rightarrow> []) fx)"

text \<open>Whether a take is sending transition \<open>k\<close>.\<close>

definition owned :: "nat \<Rightarrow> ('db, 'op, 'm) system \<Rightarrow> bool" where
  "owned k s \<longleftrightarrow> (\<exists>n. sy_takes s n = Some (Sends k) \<or> sy_takes s n = Some (MovedSends k))"

inductive sys_step ::
  "('db, 'op, 'ev, 'm) loop_env set \<Rightarrow> ('db, 'op, 'm) system \<Rightarrow> ('db, 'op, 'm) system \<Rightarrow> bool"
  for envs where
  take_begin: "sy_takes s n = None \<Longrightarrow> take_start n a t (sy_control s) = (None, c')
    \<Longrightarrow> sys_step envs s (set_take n Waits (set_control c' s))"
| take_move: "sy_takes s n = None \<Longrightarrow> take_start n a t (sy_control s) = (Some tr, c')
    \<Longrightarrow> sys_step envs s (set_take n (MovedSends (sy_next s)) (open_transition tr (set_control c' s)))"
| take_none_in_flight: "sy_takes s n = Some Waits \<Longrightarrow> cs_inflight (sy_control s) = 0
    \<Longrightarrow> sys_step envs s (set_take n Settles s)"
| take_none_pending: "sy_takes s n = Some Settles \<Longrightarrow> released (sy_control s)
    \<Longrightarrow> sys_step envs s (set_take n (Observed True) s)"
| take_timed_out: "sy_takes s n = Some Waits \<or> sy_takes s n = Some Settles
    \<Longrightarrow> sys_step envs s (set_take n (Observed False) s)"
| take_advance: "sy_takes s n = Some (Observed b) \<Longrightarrow> take_settled n b (sy_control s) = (Inr tr, c')
    \<Longrightarrow> sys_step envs s (set_take n (Sends (sy_next s)) (open_transition tr (set_control c' s)))"
| take_refused: "sy_takes s n = Some (Observed b) \<Longrightarrow> take_settled n b (sy_control s) = (Inl e, c')
    \<Longrightarrow> sys_step envs s (set_take n Over (set_control c' s))"
| take_sent: "sy_takes s n = Some (Sends k) \<Longrightarrow> (k, tr) \<in> set (sy_open s)
    \<Longrightarrow> (ok \<longrightarrow> (k, EpochConfirmed) \<in> set (sy_answers s))
    \<Longrightarrow> sys_step envs s (set_take n (Answers (discharge_answer (cs_has_input (sy_control s)) ok tr) True)
          (close_transition k s))"
| take_moved_sent: "sy_takes s n = Some (MovedSends k) \<Longrightarrow> (k, tr) \<in> set (sy_open s)
    \<Longrightarrow> (ok \<longrightarrow> (k, EpochConfirmed) \<in> set (sy_answers s))
    \<Longrightarrow> sys_step envs s (set_take n
          (if discharge_answer (cs_has_input (sy_control s)) ok tr then MovedWaits else Answers False False)
          (close_transition k s))"
| take_moved_released: "sy_takes s n = Some MovedWaits \<Longrightarrow> released (sy_control s)
    \<Longrightarrow> sys_step envs s (set_take n (Answers True False) s)"
| take_moved_timed_out: "sy_takes s n = Some MovedWaits
    \<Longrightarrow> sys_step envs s (set_take n (Answers False False) s)"
| take_granted: "sy_takes s n = Some (Answers b f) \<Longrightarrow> take_finish n b t (sy_control s) = (Inr l, c')
    \<Longrightarrow> sys_step envs s (set_take n (if f then Records l else Over) (set_control c' s))"
| take_failed: "sy_takes s n = Some (Answers b f) \<Longrightarrow> take_finish n b t (sy_control s) = (Inl e, c')
    \<Longrightarrow> sys_step envs s (set_take n Over (set_control c' s))"
| take_records: "sy_takes s n = Some (Records l)
    \<Longrightarrow> sys_step envs s (set_take n Over (set_control (take_recorded l t (sy_control s)) s))"
| take_abandoned: "sy_takes s n \<in> {Some Waits, Some Settles, Some MovedWaits}
    \<Longrightarrow> sys_step envs s (set_take n Undoing s)"
| take_abandoned_sending: "sy_takes s n = Some (Sends k) \<or> sy_takes s n = Some (MovedSends k)
    \<Longrightarrow> k \<in> fst ` set (sy_open s) \<Longrightarrow> sys_step envs s (set_take n Undoing (close_transition k s))"
| take_undone: "sy_takes s n = Some Undoing
    \<Longrightarrow> sys_step envs s (set_take n Over (set_control (take_dropped n (sy_control s)) s))"
| send_epoch: "(k, tr) \<in> set (sy_open s) \<Longrightarrow> tr_epoch tr = Some e \<Longrightarrow> cs_has_input (sy_control s)
    \<Longrightarrow> sy_sent s k = None
    \<Longrightarrow> sys_step envs s (enqueue (SetEpoch e k) (s\<lparr>sy_sent := (sy_sent s)(k \<mapsto> e)\<rparr>))"
| send_releases: "(k, tr) \<in> set (sy_open s) \<Longrightarrow> tr_epoch tr = None \<Longrightarrow> cs_has_input (sy_control s)
    \<Longrightarrow> sys_step envs s (enqueue (InputCommand (tr_at tr) ops r) s)"
| discharged: "k \<in> fst ` set (sy_open s) \<Longrightarrow> \<not> owned k s \<Longrightarrow> sys_step envs s (close_transition k s)"
| agent_admitted: "admit_agent (sy_control s) = Some (Inr e)
    \<Longrightarrow> sys_step envs s (s\<lparr>sy_admitted := e # sy_admitted s\<rparr>)"
| agent_sends: "e \<in> set (sy_admitted s) \<Longrightarrow> sys_step envs s (enqueue (InputCommand e ops r) s)"
| cua_admitted: "admit_cua k tk t (sy_control s) = (Inr None, c') \<Longrightarrow> sys_step envs s (set_control c' s)"
| cua_took_over: "admit_cua k tk t (sy_control s) = (Inr (Some tr), c')
    \<Longrightarrow> sys_step envs s (open_transition tr (set_control c' s))"
| cua_answered: "sys_step envs s (set_control (cua_finished k (sy_control s)) s)"
| takeover: "agent_takeover src t (sy_control s) = ((p, Some tr), c')
    \<Longrightarrow> sys_step envs s (open_transition tr (set_control c' s))"
| viewer_ended: "reason = ViewerStopped \<or> reason = EndDaemonStopped
    \<Longrightarrow> end_human reason t (sy_control s) = (Some tr, c')
    \<Longrightarrow> sys_step envs s (open_transition tr (set_control c' s))"
| session_closed: "end_human_ended t (sy_control s) = (Some tr, c')
    \<Longrightarrow> sys_step envs s ((open_transition tr (set_control c' s))\<lparr>sy_closed := True\<rparr>)"
| beat: "heartbeat n t (sy_control s) = (Inr (), c') \<Longrightarrow> sys_step envs s (set_control c' s)"
| blurred: "blur n t (sy_control s) = (Inr tr, c')
    \<Longrightarrow> sys_step envs s (open_transition tr (set_control c' s))"
| holder_released: "release n t (sy_control s) = (Inr tr, c')
    \<Longrightarrow> sys_step envs s (open_transition tr (set_control c' s))"
| sweep_looks: "expire_reason now idle (sy_control s) = Some reason
    \<Longrightarrow> sys_step envs s (s\<lparr>sy_looked := reason # sy_looked s\<rparr>)"
| sweep_ends: "reason \<in> set (sy_looked s) \<Longrightarrow> end_human reason t (sy_control s) = (Some tr, c')
    \<Longrightarrow> sys_step envs s (open_transition tr (set_control c' (s\<lparr>sy_looked := remove1 reason (sy_looked s)\<rparr>)))"
| input_checked: "held_lease (sy_control s) n = Inr l
    \<Longrightarrow> c' = track_input l event t (sy_control s)
        \<or> c' = (sy_control s)\<lparr>cs_lease := Some (l\<lparr>ls_held := ls_held l - set (filter is_button (held_list (ls_held l)))\<rparr>)\<rparr>
    \<Longrightarrow> sys_step envs s (set_control c' (s\<lparr>sy_human := (n, cs_epoch (sy_control s)) # sy_human s\<rparr>))"
| input_sends: "(n, e) \<in> set (sy_human s) \<Longrightarrow> sys_step envs s (enqueue (InputCommand e ops r) s)"
| loop_command: "env \<in> envs \<Longrightarrow> \<not> lp_stopped (sy_loop s) \<Longrightarrow> sy_queue s = cmd # rest
    \<Longrightarrow> loop_iteration env (Command cmd) (sy_loop s) = (fx, l')
    \<Longrightarrow> sys_step envs s (s\<lparr>sy_loop := l', sy_queue := rest, sy_answers := sy_answers s @ loop_answers fx\<rparr>)"
| loop_other: "env \<in> envs \<Longrightarrow> \<not> lp_stopped (sy_loop s) \<Longrightarrow> \<nexists>cmd. arm = Command cmd
    \<Longrightarrow> loop_iteration env arm (sy_loop s) = (fx, l') \<Longrightarrow> sys_step envs s (s\<lparr>sy_loop := l'\<rparr>)"

inductive sys_reachable ::
  "('db, 'op, 'ev, 'm) loop_env set \<Rightarrow> ('db, 'op, 'm) system \<Rightarrow> bool" for envs where
  fresh: "env \<in> envs
    \<Longrightarrow> sys_reachable envs (new_system (new_control name gen events has_input) (new_loop (le_lib env) dims))"
| step: "sys_reachable envs s \<Longrightarrow> sys_step envs s s' \<Longrightarrow> sys_reachable envs s'"


subsection \<open>What the sections do to the four counters\<close>

text \<open>
  \<open>ends_lease l tr c c'\<close>: lease \<open>l\<close> is gone and \<open>tr\<close> is pending; the epoch advanced when
  the lease was granted.
\<close>

definition ends_lease :: "lease \<Rightarrow> transition \<Rightarrow> control \<Rightarrow> control \<Rightarrow> bool" where
  "ends_lease l tr c c' \<longleftrightarrow>
     cs_lease c = Some l \<and> cs_lease c' = None \<and> cs_pending c' = cs_pending c + 1
     \<and> cs_has_input c' = cs_has_input c
     \<and> cs_epoch c' = (if ls_granted l then epoch_next (cs_epoch c) else cs_epoch c)
     \<and> tr_epoch tr = (if ls_granted l then Some (epoch_next (cs_epoch c)) else None)
     \<and> tr_at tr = cs_epoch c'"

lemma ends_leaseI:
  assumes "cs_lease c = Some l" and "cs_lease c1 = None" and "cs_epoch c1 = cs_epoch c"
    and "cs_pending c1 = cs_pending c" and "cs_has_input c1 = cs_has_input c"
    and "end_lease l c1 = (tr, c2)"
  shows "ends_lease l tr c (c2\<lparr>cs_inflight := k\<rparr>)" and "ends_lease l tr c c2"
    and "cs_inflight c2 = cs_inflight c1"
  using assms by (auto simp: ends_lease_def end_lease_def new_transition_eq advance_eq split: if_splits)

lemma takeover_locked_ends:
  assumes "agent_takeover_locked src t c = (Some tr, c')"
  shows "ends_lease (the (cs_lease c)) tr c (c'\<lparr>cs_inflight := k\<rparr>)"
    and "ends_lease (the (cs_lease c)) tr c c'" and "cs_inflight c' = cs_inflight c"
proof -
  from assms obtain l where l: "cs_lease c = Some l" by (auto simp: agent_takeover_locked_def split: option.splits)
  let ?c1 = "record_control src (ControlTakenOver (lease_controller l) Agent) t
      (touch_human t (remember (ls_id l, loss_by_controller Agent) (c\<lparr>cs_lease := None\<rparr>)))"
  from assms l have e: "end_lease l ?c1 = (tr, c')"
    by (simp add: agent_takeover_locked_def Let_def split: prod.splits)
  note ends_leaseI [OF l _ _ _ _ e]
  then show "ends_lease (the (cs_lease c)) tr c (c'\<lparr>cs_inflight := k\<rparr>)"
    and "ends_lease (the (cs_lease c)) tr c c'" and "cs_inflight c' = cs_inflight c"
    by (simp_all add: l)
qed

lemma takeover_locked_None: "agent_takeover_locked src t c = (None, c') \<Longrightarrow> c' = c \<and> cs_lease c = None"
  by (auto simp: agent_takeover_locked_def Let_def split: option.splits prod.splits)

lemma agent_takeover_ends:
  "agent_takeover src t c = ((p, Some tr), c') \<Longrightarrow>
     ends_lease (the (cs_lease c)) tr c c' \<and> cs_inflight c' = cs_inflight c"
  by (auto simp: agent_takeover_def Let_def dest: takeover_locked_ends split: prod.splits)

lemma admit_cua_ends:
  "admit_cua k tk t c = (Inr (Some tr), c') \<Longrightarrow> ends_lease (the (cs_lease c)) tr c c'"
  by (auto simp: admit_cua_def Let_def dest: takeover_locked_ends(1) split: prod.splits option.splits if_splits)

lemma end_human_ends:
  assumes "end_human reason t c = (Some tr, c')"
  shows "ends_lease (the (cs_lease c)) tr c c' \<and> cs_inflight c' = cs_inflight c"
proof -
  obtain lo c1 where th: "take_human reason t c = (lo, c1)" by fastforce
  with assms obtain l where lo: "lo = Some l" and e: "end_lease l c1 = (tr, c')"
    by (auto simp: end_human_def Let_def split: option.splits prod.splits)
  from th lo have "cs_lease c = Some l" "cs_lease c1 = None" "cs_epoch c1 = cs_epoch c"
    "cs_pending c1 = cs_pending c" "cs_has_input c1 = cs_has_input c" "cs_inflight c1 = cs_inflight c"
    by (auto simp: take_human_def Let_def split: option.splits if_splits)
  with ends_leaseI [OF _ _ _ _ _ e, of c] show ?thesis by simp
qed

lemma release_ends:
  "release n t c = (Inr tr, c') \<Longrightarrow>
     ends_lease (the (cs_lease c)) tr c c' \<and> cs_inflight c' = cs_inflight c \<and> held_lease c n = Inr (the (cs_lease c))"
  by (auto simp: release_def ends_lease_def held_lease_Inr Let_def advance_eq split: sum.splits)

lemma end_human_ended_effect:
  "end_human_ended t c = (Some tr, c') \<Longrightarrow>
     cs_lease c' = None \<and> cs_pending c' = cs_pending c + 1 \<and> cs_has_input c' = cs_has_input c
     \<and> cs_epoch c' = cs_epoch c \<and> cs_inflight c' = cs_inflight c \<and> tr_epoch tr = None
     \<and> tr_at tr = cs_epoch c"
  by (auto simp: control_ops split: option.splits if_splits prod.splits)

lemma admit_cua_counts: "admit_cua k tk t c = (Inr None, c') \<Longrightarrow> cs_lease c = None
    \<and> c' = c\<lparr>cs_inflight := cs_inflight c + k\<rparr>"
  by (auto simp: admit_cua_def agent_takeover_locked_def Let_def split: option.splits if_splits prod.splits)

lemma take_start_None: "take_start n a t c = (None, c') \<Longrightarrow>
    cs_lease c' = Some (new_lease n a t) \<and> cs_pending c' = cs_pending c \<and> cs_has_input c' = cs_has_input c
    \<and> cs_epoch c' = cs_epoch c \<and> cs_inflight c' = cs_inflight c
    \<and> (\<forall>l. cs_lease c = Some l \<longrightarrow> \<not> ls_granted l)"
  by (auto simp: control_ops split: option.splits if_splits prod.splits)

lemma take_start_Some: "take_start n a t c = (Some tr, c') \<Longrightarrow>
    cs_lease c' = Some (new_lease n a t) \<and> cs_pending c' = cs_pending c + 1 \<and> cs_has_input c' = cs_has_input c
    \<and> cs_epoch c' = epoch_next (cs_epoch c) \<and> cs_inflight c' = cs_inflight c
    \<and> tr_epoch tr = Some (epoch_next (cs_epoch c)) \<and> tr_at tr = epoch_next (cs_epoch c) \<and> (\<exists>l. cs_lease c = Some l \<and> ls_granted l)"
  by (auto simp: control_ops split: option.splits if_splits prod.splits)

lemma take_settled_Inr: "take_settled n b c = (Inr tr, c') \<Longrightarrow>
    b \<and> is_lease n c \<and> tr_epoch tr = Some (epoch_next (cs_epoch c)) \<and> tr_at tr = epoch_next (cs_epoch c)
    \<and> c' = c\<lparr>cs_epoch := epoch_next (cs_epoch c), cs_pending := cs_pending c + 1\<rparr>"
  by (auto simp: control_ops split: if_splits)

lemma take_settled_Inl: "take_settled n b c = (Inl e, c') \<Longrightarrow>
    c' = c \<or> is_lease n c \<and> c' = c\<lparr>cs_lease := None\<rparr>"
  by (auto simp: control_ops split: if_splits)

lemma take_finish_Inr: "take_finish n b t c = (Inr l, c') \<Longrightarrow>
    b \<and> is_lease n c \<and> ls_id l = n \<and> ls_granted l \<and> c' = c\<lparr>cs_lease := Some l\<rparr>"
  by (auto simp: control_ops is_lease_def split: option.splits if_splits)

lemma take_finish_Inl: "take_finish n b t c = (Inl e, c') \<Longrightarrow>
    c' = c \<or> is_lease n c \<and> \<not> b \<and> c' = c\<lparr>cs_lease := None\<rparr>"
  by (auto simp: control_ops is_lease_def split: option.splits if_splits)

lemma take_dropped_effect: "take_dropped n c = c
    \<or> (\<exists>l. cs_lease c = Some l \<and> \<not> ls_granted l \<and> ls_id l = n) \<and> take_dropped n c = c\<lparr>cs_lease := None\<rparr>"
  by (auto simp: take_dropped_def split: option.splits)

lemma heartbeat_Inr: "heartbeat n t c = (Inr (), c') \<Longrightarrow>
    \<exists>l. held_lease c n = Inr l \<and> c' = c\<lparr>cs_lease := Some (l\<lparr>ls_heartbeat := tk_now t\<rparr>)\<rparr>"
  by (auto simp: heartbeat_def split: sum.splits)

lemma blur_Inr: "blur n t c = (Inr tr, c') \<Longrightarrow>
    \<exists>l. held_lease c n = Inr l \<and> tr_epoch tr = None \<and> tr_at tr = cs_epoch c
      \<and> c' = c\<lparr>cs_lease := Some (l\<lparr>ls_heartbeat := tk_now t, ls_held := {}\<rparr>), cs_pending := cs_pending c + 1\<rparr>"
  by (auto simp: blur_def Let_def new_transition_eq split: sum.splits)

lemma cua_finished_effect: "cua_finished k c = c\<lparr>cs_inflight := cs_inflight c - k\<rparr>"
  by (simp add: cua_finished_def)

lemma is_lease_None [simp]: "cs_lease c = None \<Longrightarrow> \<not> is_lease n c"
  by (simp add: is_lease_def)

lemma is_lease_Some: "cs_lease c = Some l \<Longrightarrow> is_lease n c \<longleftrightarrow> ls_id l = n"
  by (simp add: is_lease_def)

subsection \<open>Pending transitions\<close>

definition inv_pending :: "('db, 'op, 'm) system \<Rightarrow> bool" where
  "inv_pending s \<longleftrightarrow> cs_pending (sy_control s) = length (sy_open s) \<and> distinct (map fst (sy_open s))
     \<and> (\<forall>k \<in> fst ` set (sy_open s). k < sy_next s)"

lemma open_transition_fields [simp]:
  "sy_control (open_transition tr s) = sy_control s" "sy_open (open_transition tr s) = (sy_next s, tr) # sy_open s"
  "sy_next (open_transition tr s) = sy_next s + 1" "sy_takes (open_transition tr s) = sy_takes s"
  "sy_loop (open_transition tr s) = sy_loop s" "sy_queue (open_transition tr s) = sy_queue s"
  "sy_answers (open_transition tr s) = sy_answers s" "sy_sent (open_transition tr s) = sy_sent s"
  "sy_admitted (open_transition tr s) = sy_admitted s" "sy_human (open_transition tr s) = sy_human s"
  "sy_looked (open_transition tr s) = sy_looked s" "sy_closed (open_transition tr s) = sy_closed s"
  by (simp_all add: open_transition_def)

lemma close_transition_fields [simp]:
  "sy_control (close_transition k s) = transition_done (sy_control s)"
  "sy_open (close_transition k s) = filter (\<lambda>(i, _). i \<noteq> k) (sy_open s)"
  "sy_next (close_transition k s) = sy_next s" "sy_takes (close_transition k s) = sy_takes s"
  "sy_loop (close_transition k s) = sy_loop s" "sy_queue (close_transition k s) = sy_queue s"
  "sy_answers (close_transition k s) = sy_answers s" "sy_sent (close_transition k s) = sy_sent s"
  "sy_admitted (close_transition k s) = sy_admitted s" "sy_human (close_transition k s) = sy_human s"
  "sy_looked (close_transition k s) = sy_looked s" "sy_closed (close_transition k s) = sy_closed s"
  by (simp_all add: close_transition_def)

lemma transition_done_fields [simp]:
  "cs_lease (transition_done c) = cs_lease c" "cs_epoch (transition_done c) = cs_epoch c"
  "cs_inflight (transition_done c) = cs_inflight c" "cs_has_input (transition_done c) = cs_has_input c"
  "cs_pending (transition_done c) = cs_pending c - 1" "is_lease n (transition_done c) = is_lease n c"
  by (simp_all add: transition_done_def is_lease_def)

lemma length_filter_key:
  "distinct (map fst xs) \<Longrightarrow> k \<in> fst ` set xs \<Longrightarrow> length (filter (\<lambda>(i, _). i \<noteq> k) xs) = length xs - 1"
proof (induction xs)
  case (Cons x xs)
  obtain i v where x: "x = (i, v)" by fastforce
  show ?case
  proof (cases "i = k")
    case True
    with Cons.prems x have "filter (\<lambda>(i, _). i \<noteq> k) xs = xs" by (force simp: filter_id_conv)
    with True x show ?thesis by simp
  next
    case False
    with Cons x have "k \<in> fst ` set xs" by auto
    moreover from this have "xs \<noteq> []" by auto
    ultimately show ?thesis using Cons False x by (cases xs) auto
  qed
qed simp

lemma inv_pending_open:
  "inv_pending s \<Longrightarrow> cs_pending c' = cs_pending (sy_control s) + 1 \<Longrightarrow> inv_pending (open_transition tr (set_control c' s))"
  by (auto simp: inv_pending_def)

lemma distinct_map_filter': "distinct (map f xs) \<Longrightarrow> distinct (map f (filter P xs))"
  by (simp add: distinct_map_filter)

lemma inv_pending_close:
  "inv_pending s \<Longrightarrow> k \<in> fst ` set (sy_open s) \<Longrightarrow> inv_pending (close_transition k s)"
  by (auto simp: inv_pending_def length_filter_key distinct_map_filter')

lemma inv_pending_cong:
  "inv_pending s \<Longrightarrow> cs_pending (sy_control s') = cs_pending (sy_control s) \<Longrightarrow> sy_open s' = sy_open s
    \<Longrightarrow> sy_next s' = sy_next s \<Longrightarrow> inv_pending s'"
  by (simp add: inv_pending_def)

lemma open_mem: "(k, tr) \<in> set xs \<Longrightarrow> k \<in> fst ` set xs"
  by force

lemmas effects =
  agent_takeover_ends end_human_ends admit_cua_ends release_ends end_human_ended_effect admit_cua_counts
  take_start_None take_start_Some take_settled_Inr take_settled_Inl take_finish_Inr take_finish_Inl
  heartbeat_Inr blur_Inr

lemma inv_pending_takes [simp]: "inv_pending (s\<lparr>sy_takes := x\<rparr>) = inv_pending s"
  by (simp add: inv_pending_def)

lemma sys_step_pending: "sys_step envs s s' \<Longrightarrow> inv_pending s \<Longrightarrow> inv_pending s'"
proof (induction rule: sys_step.induct)
  case (take_undone s n)
  then show ?case using take_dropped_effect [of n "sy_control s"] by (auto simp: inv_pending_def)
next
  case (take_sent s n k tr ok)
  then show ?case by (simp add: inv_pending_close open_mem)
next
  case (take_moved_sent s n k tr ok)
  then show ?case by (simp add: inv_pending_close open_mem)
next
  case (take_abandoned_sending s n k)
  then show ?case by (simp add: inv_pending_close)
next
  case (discharged k s)
  then show ?case by (simp add: inv_pending_close)
qed (force simp: inv_pending_def ends_lease_def take_recorded_def
      cua_finished_effect track_input_def dest: effects)+


subsection \<open>No acting Cua call is in flight under a granted lease\<close>

fun quiet :: "take_pc \<Rightarrow> bool" where
  "quiet Waits = False"
| "quiet Settles = True"
| "quiet (Observed b) = b"
| "quiet (Sends k) = True"
| "quiet (MovedSends k) = True"
| "quiet MovedWaits = True"
| "quiet (Answers b f) = True"
| "quiet (Records l) = False"
| "quiet Undoing = False"
| "quiet Over = False"

definition inv_quiet :: "('db, 'op, 'm) system \<Rightarrow> bool" where
  "inv_quiet s \<longleftrightarrow>
     (\<forall>l. cs_lease (sy_control s) = Some l \<longrightarrow>
        sy_takes s (ls_id l) \<noteq> None
        \<and> (ls_granted l \<or> quiet (the (sy_takes s (ls_id l))) \<longrightarrow> cs_inflight (sy_control s) = 0))"

lemma new_lease_fields [simp]: "ls_id (new_lease n a t) = n" "\<not> ls_granted (new_lease n a t)"
  by (simp_all add: new_lease_def)

lemma take_recorded_fields [simp]:
  "cs_lease (take_recorded l t c) = cs_lease c" "cs_epoch (take_recorded l t c) = cs_epoch c"
  "cs_inflight (take_recorded l t c) = cs_inflight c" "cs_has_input (take_recorded l t c) = cs_has_input c"
  by (simp_all add: take_recorded_def)

lemma sys_step_quiet: "sys_step envs s s' \<Longrightarrow> inv_quiet s \<Longrightarrow> inv_quiet s'"
proof (induction rule: sys_step.induct)
  case (take_undone s n)
  then show ?case using take_dropped_effect [of n "sy_control s"] by (auto simp: inv_quiet_def)
next
  case (input_checked s n l c' event t)
  then show ?case by (auto simp: inv_quiet_def held_lease_Inr track_input_def)
next
  case (take_granted s n b f t l c')
  from take_finish_Inr [OF take_granted(2)] take_granted(1,3) show ?case
    by (auto simp: inv_quiet_def is_lease_def split: option.splits)
next
  case (take_begin s n a t c')
  from take_start_None [OF take_begin(2)] show ?case by (auto simp: inv_quiet_def)
qed (auto simp: inv_quiet_def ends_lease_def is_lease_def held_lease_Inr cua_finished_effect
      dest!: effects split: option.splits if_splits)


subsection \<open>Epochs\<close>

fun command_epoch :: "('op, 'm) loop_command \<Rightarrow> epoch" where
  "command_epoch (InputCommand e ops r) = e"
| "command_epoch (SetEpoch e r) = e"
| "command_epoch (Request m) = 0"

lemma loop_command_epoch:
  "li_epoch (lp_input (snd (run_command env c s))) \<le> max (li_epoch (lp_input s)) (command_epoch c)"
  by (cases c) (simp_all add: apply_batch_def change_epoch_def Let_def case_prod_beta del: run_command.simps)

lemma loop_other_epoch:
  "\<nexists>cmd. arm = Command cmd \<Longrightarrow> lp_input (snd (loop_iteration env arm s)) = lp_input s"
  by (cases arm) simp_all

lemma loop_answers_mem: "(k, a) \<in> set (loop_answers fx) \<longleftrightarrow> Answered k a \<in> set fx"
  by (induction fx) (auto simp: loop_answers_def split: loop_effect.splits)

lemma run_command_confirms:
  assumes "Answered k EpochConfirmed \<in> set (fst (run_command env c s))"
  shows "\<exists>e. c = SetEpoch e k"
proof (cases c)
  case (InputCommand e ops r)
  with assms show ?thesis
    by (auto simp: Let_def case_prod_beta dest!: finish_iteration_answers split: sum.splits prod.splits)
next
  case (SetEpoch e r)
  with assms show ?thesis
    by (auto simp: Let_def case_prod_beta dest!: finish_iteration_answers split: option.splits prod.splits)
next
  case (Request m)
  with assms show ?thesis by (auto dest!: finish_iteration_answers)
qed

definition inv_epoch :: "('db, 'op, 'm) system \<Rightarrow> bool" where
  "inv_epoch s \<longleftrightarrow>
     cs_epoch (sy_control s) \<le> u64_max
     \<and> (\<forall>x \<in> set (sy_admitted s). x \<le> cs_epoch (sy_control s))
     \<and> (\<forall>x \<in> set (sy_human s). snd x \<le> cs_epoch (sy_control s))
     \<and> (\<forall>x \<in> set (sy_open s). tr_at (snd x) \<le> cs_epoch (sy_control s)
          \<and> (\<forall>e. tr_epoch (snd x) = Some e \<longrightarrow> e \<le> cs_epoch (sy_control s)))
     \<and> (\<forall>cmd \<in> set (sy_queue s). command_epoch cmd \<le> cs_epoch (sy_control s))
     \<and> li_epoch (lp_input (sy_loop s)) \<le> cs_epoch (sy_control s)"

definition epoch_step :: "control \<Rightarrow> control \<Rightarrow> bool" where
  "epoch_step c c' \<longleftrightarrow> cs_epoch c' = cs_epoch c \<or> cs_epoch c' = epoch_next (cs_epoch c)"

lemma inv_epoch_control: "inv_epoch s \<Longrightarrow> epoch_step (sy_control s) c' \<Longrightarrow> inv_epoch (set_control c' s)"
proof -
  assume inv: "inv_epoch s" and "epoch_step (sy_control s) c'"
  moreover from inv have "cs_epoch (sy_control s) \<le> epoch_next (cs_epoch (sy_control s))"
    by (simp add: inv_epoch_def epoch_next_ge)
  ultimately have "cs_epoch (sy_control s) \<le> cs_epoch c'" "cs_epoch c' \<le> u64_max"
    by (auto simp: epoch_step_def inv_epoch_def)
  with inv show ?thesis unfolding inv_epoch_def by (auto intro: order_trans)
qed

lemma inv_epoch_open:
  "inv_epoch s \<Longrightarrow> tr_at tr = cs_epoch (sy_control s)
     \<Longrightarrow> tr_epoch tr = None \<or> tr_epoch tr = Some (cs_epoch (sy_control s)) \<Longrightarrow> inv_epoch (open_transition tr s)"
  by (auto simp: inv_epoch_def)

lemma inv_epoch_simps [simp]:
  "inv_epoch (s\<lparr>sy_takes := x\<rparr>) = inv_epoch s" "inv_epoch (s\<lparr>sy_sent := y\<rparr>) = inv_epoch s"
  "inv_epoch (s\<lparr>sy_looked := z\<rparr>) = inv_epoch s" "inv_epoch (s\<lparr>sy_closed := b\<rparr>) = inv_epoch s"
  "inv_epoch (s\<lparr>sy_answers := w\<rparr>) = inv_epoch s"
  by (simp_all add: inv_epoch_def)

lemma inv_epoch_close: "inv_epoch s \<Longrightarrow> inv_epoch (close_transition k s)"
  by (auto simp: inv_epoch_def)

lemma inv_epoch_enqueue:
  "inv_epoch s \<Longrightarrow> command_epoch cmd \<le> cs_epoch (sy_control s) \<Longrightarrow> inv_epoch (enqueue cmd s)"
  by (auto simp: inv_epoch_def)

lemma ends_lease_epoch:
  "ends_lease l tr c c' \<Longrightarrow> epoch_step c c' \<and> tr_at tr = cs_epoch c'
     \<and> (tr_epoch tr = None \<or> tr_epoch tr = Some (cs_epoch c'))"
  by (auto simp: ends_lease_def epoch_step_def)

lemma inv_epoch_ends:
  "inv_epoch s \<Longrightarrow> ends_lease l tr (sy_control s) c' \<Longrightarrow> inv_epoch (open_transition tr (set_control c' s))"
  by (auto dest!: ends_lease_epoch intro: inv_epoch_open inv_epoch_control)

lemma sys_step_epoch: "sys_step envs s s' \<Longrightarrow> inv_epoch s \<Longrightarrow> inv_epoch s'"
proof (induction rule: sys_step.induct)
  case (take_undone s n)
  then show ?case using take_dropped_effect [of n "sy_control s"]
    by (auto intro!: inv_epoch_control simp: epoch_step_def)
next
  case (take_move s n a t tr c')
  from take_start_Some [OF take_move(2)] take_move(3) show ?case
    by (auto intro!: inv_epoch_open inv_epoch_control simp: epoch_step_def)
next
  case (take_begin s n a t c')
  from take_start_None [OF take_begin(2)] take_begin(3) show ?case
    by (auto intro!: inv_epoch_control simp: epoch_step_def)
next
  case (take_advance s n b tr c')
  from take_settled_Inr [OF take_advance(2)] take_advance(3) show ?case
    by (auto intro!: inv_epoch_open inv_epoch_control simp: epoch_step_def)
next
  case (take_refused s n b e c')
  from take_settled_Inl [OF take_refused(2)] take_refused(3) show ?case
    by (auto intro!: inv_epoch_control simp: epoch_step_def)
next
  case (take_granted s n b f t l c')
  from take_finish_Inr [OF take_granted(2)] take_granted(3) show ?case
    by (auto intro!: inv_epoch_control simp: epoch_step_def)
next
  case (take_failed s n b f t e c')
  from take_finish_Inl [OF take_failed(2)] take_failed(3) show ?case
    by (auto intro!: inv_epoch_control simp: epoch_step_def)
next
  case (sweep_ends reason s t tr c')
  from end_human_ends [OF sweep_ends(2)] sweep_ends(3) show ?case
    by (intro inv_epoch_ends [where l = "the (cs_lease (sy_control s))"]) simp_all
next
  case (session_closed t s tr c')
  from end_human_ended_effect [OF session_closed(1)] session_closed(2) show ?case
    by (auto intro!: inv_epoch_open inv_epoch_control simp: epoch_step_def)
next
  case (blurred n t s tr c')
  from blur_Inr [OF blurred(1)] blurred(2) show ?case
    by (auto intro!: inv_epoch_open inv_epoch_control simp: epoch_step_def)
next
  case (loop_command env s cmd rest fx l')
  then show ?case using loop_command_epoch [of env cmd "sy_loop s"] by (auto simp: inv_epoch_def max_def split: if_splits)
next
  case (loop_other env s arm fx l')
  then show ?case using loop_other_epoch [OF loop_other(3), of env "sy_loop s"] by (auto simp: inv_epoch_def)
next
  case (agent_admitted s e)
  then show ?case by (auto simp: inv_epoch_def admit_agent_def split: option.splits if_splits)
next
  case (input_checked s n l c' event t)
  then have "inv_epoch (s\<lparr>sy_human := (n, cs_epoch (sy_control s)) # sy_human s\<rparr>)" by (simp add: inv_epoch_def)
  then have "inv_epoch (set_control c' (s\<lparr>sy_human := (n, cs_epoch (sy_control s)) # sy_human s\<rparr>))"
    using input_checked(2) by (intro inv_epoch_control) (auto simp: epoch_step_def track_input_def)
  then show ?case .
next
  case (send_epoch k tr s e)
  then have "e \<le> cs_epoch (sy_control s)" by (force simp: inv_epoch_def)
  with send_epoch show ?case by (intro inv_epoch_enqueue) simp_all
next
  case (send_releases k tr s ops r)
  then have "tr_at tr \<le> cs_epoch (sy_control s)" by (force simp: inv_epoch_def)
  with send_releases show ?case by (intro inv_epoch_enqueue) simp_all
next
  case (agent_sends e s ops r)
  then show ?case by (intro inv_epoch_enqueue) (auto simp: inv_epoch_def)
next
  case (input_sends n e s ops r)
  then have "e \<le> cs_epoch (sy_control s)" by (force simp: inv_epoch_def)
  with input_sends show ?case by (intro inv_epoch_enqueue) simp_all
qed (auto intro!: inv_epoch_control inv_epoch_close inv_epoch_ends simp: epoch_step_def cua_finished_effect
      dest!: agent_takeover_ends end_human_ends admit_cua_ends release_ends admit_cua_counts heartbeat_Inr)


subsection \<open>Confirmations\<close>

definition inv_answers :: "('db, 'op, 'm) system \<Rightarrow> bool" where
  "inv_answers s \<longleftrightarrow>
     (\<forall>k e. sy_sent s k = Some e \<longrightarrow> k < sy_next s \<and> (\<forall>tr. (k, tr) \<in> set (sy_open s) \<longrightarrow> tr_epoch tr = Some e))
     \<and> (\<forall>k e. SetEpoch e k \<in> set (sy_queue s) \<longrightarrow> sy_sent s k = Some e)
     \<and> (\<forall>k. (k, EpochConfirmed) \<in> set (sy_answers s)
          \<longrightarrow> (\<exists>e. sy_sent s k = Some e \<and> e \<le> li_epoch (lp_input (sy_loop s))))"

lemma inv_answers_simps [simp]:
  "inv_answers (set_control c s) = inv_answers s" "inv_answers (s\<lparr>sy_takes := x\<rparr>) = inv_answers s"
  "inv_answers (s\<lparr>sy_looked := z\<rparr>) = inv_answers s" "inv_answers (s\<lparr>sy_closed := b\<rparr>) = inv_answers s"
  "inv_answers (s\<lparr>sy_admitted := a\<rparr>) = inv_answers s" "inv_answers (s\<lparr>sy_human := h\<rparr>) = inv_answers s"
  "inv_answers (enqueue (InputCommand e ops r) s) = inv_answers s"
  by (simp_all add: inv_answers_def)

lemma inv_answers_open [simp]: "inv_answers s \<Longrightarrow> inv_answers (open_transition tr s)"
  unfolding inv_answers_def by (fastforce simp: less_Suc_eq)

lemma inv_answers_close [simp]: "inv_answers s \<Longrightarrow> inv_answers (close_transition k s)"
  unfolding inv_answers_def by auto

lemma open_unique:
  "inv_pending s \<Longrightarrow> (k, tr) \<in> set (sy_open s) \<Longrightarrow> (k, tr') \<in> set (sy_open s) \<Longrightarrow> tr' = tr"
  by (auto simp: inv_pending_def dest: eq_key_imp_eq_value)

lemma sys_step_answers:
  "sys_step envs s s' \<Longrightarrow> inv_pending s \<Longrightarrow> inv_answers s \<Longrightarrow> inv_answers s'"
proof (induction rule: sys_step.induct)
  case (send_epoch k tr s e)
  then have "k < sy_next s" by (force simp: inv_pending_def)
  with send_epoch show ?case
    unfolding inv_answers_def by (auto dest: open_unique)
next
  case (loop_command env s cmd rest fx l')
  have mono: "li_epoch (lp_input (sy_loop s)) \<le> li_epoch (lp_input l')"
    using loop_iteration_epoch [of "sy_loop s" env "Command cmd"] loop_command(4) by simp
  have conf: "\<exists>e. sy_sent s k = Some e \<and> e \<le> li_epoch (lp_input l')" if "Answered k EpochConfirmed \<in> set fx" for k
  proof -
    from that loop_command(4) obtain e where e: "cmd = SetEpoch e k"
      using run_command_confirms [of k env cmd "sy_loop s"] by auto
    with loop_command have "sy_sent s k = Some e" by (simp add: inv_answers_def)
    moreover have "e \<le> li_epoch (lp_input l')"
      using set_epoch_reached [of e env k "sy_loop s"] loop_command(4) by (simp add: e)
    ultimately show ?thesis by blast
  qed
  from loop_command(6) mono show ?case
    unfolding inv_answers_def by (fastforce simp: loop_answers_mem loop_command(3) dest: conf)
next
  case (loop_other env s arm fx l')
  then show ?case using loop_other_epoch [OF loop_other(3), of env "sy_loop s"]
    by (simp add: inv_answers_def)
qed simp_all

subsection \<open>The fence around a granted lease\<close>

text \<open>Every admitted agent action is of an older epoch (unless the 64-bit counter is exhausted).\<close>

definition fenced :: "('db, 'op, 'm) system \<Rightarrow> bool" where
  "fenced s \<longleftrightarrow> cs_epoch (sy_control s) = u64_max \<or> (\<forall>e \<in> set (sy_admitted s). e < cs_epoch (sy_control s))"

text \<open>The loop is at the epoch of the controller.\<close>

definition synced :: "('db, 'op, 'm) system \<Rightarrow> bool" where
  "synced s \<longleftrightarrow> (cs_has_input (sy_control s) \<longrightarrow> cs_epoch (sy_control s) \<le> li_epoch (lp_input (sy_loop s)))"

definition sends_current :: "nat \<Rightarrow> ('db, 'op, 'm) system \<Rightarrow> bool" where
  "sends_current k s \<longleftrightarrow> k < sy_next s \<and> (\<forall>tr. (k, tr) \<in> set (sy_open s) \<longrightarrow> tr_epoch tr = Some (cs_epoch (sy_control s)))"

fun fence_at :: "take_pc \<Rightarrow> ('db, 'op, 'm) system \<Rightarrow> bool" where
  "fence_at (Sends k) s = (fenced s \<and> sends_current k s)"
| "fence_at (MovedSends k) s = (fenced s \<and> sends_current k s)"
| "fence_at MovedWaits s = (fenced s \<and> synced s)"
| "fence_at (Answers b f) s = (fenced s \<and> (b \<longrightarrow> synced s))"
| "fence_at _ s = True"

fun over_pc :: "take_pc \<Rightarrow> bool" where
  "over_pc (Records l) = True"
| "over_pc Over = True"
| "over_pc _ = False"

definition inv_fence :: "('db, 'op, 'm) system \<Rightarrow> bool" where
  "inv_fence s \<longleftrightarrow>
     (\<forall>l. cs_lease (sy_control s) = Some l \<longrightarrow>
        sy_takes s (ls_id l) \<noteq> None
        \<and> fence_at (the (sy_takes s (ls_id l))) s
        \<and> (ls_granted l \<longrightarrow> fenced s \<and> synced s \<and> over_pc (the (sy_takes s (ls_id l)))))"

lemma fenced_advance:
  assumes "inv_epoch s" and "cs_epoch (sy_control s') = epoch_next (cs_epoch (sy_control s))"
    and "sy_admitted s' = sy_admitted s"
  shows "fenced s'"
proof (cases "cs_epoch (sy_control s) < u64_max")
  case True
  then have "cs_epoch (sy_control s) < cs_epoch (sy_control s')" using assms(2) by (simp add: epoch_next_gt)
  with assms show ?thesis by (auto simp: fenced_def inv_epoch_def)
next
  case False
  with assms(1) have "cs_epoch (sy_control s) = u64_max" by (simp add: inv_epoch_def)
  with assms(2) show ?thesis by (simp add: fenced_def epoch_next_def sat_add64_def)
qed

text \<open>Steps that leave lease and epoch alone, move the loop forward only and open or close transitions.\<close>

lemma fence_at_mono:
  assumes "fence_at pc s"
    and "cs_epoch (sy_control s') = cs_epoch (sy_control s)"
    and "cs_has_input (sy_control s') = cs_has_input (sy_control s)"
    and "sy_admitted s' = sy_admitted s"
    and "li_epoch (lp_input (sy_loop s)) \<le> li_epoch (lp_input (sy_loop s'))"
    and "sy_next s \<le> sy_next s'"
    and "\<forall>k tr. (k, tr) \<in> set (sy_open s') \<longrightarrow> k < sy_next s \<longrightarrow> (k, tr) \<in> set (sy_open s)"
  shows "fence_at pc s'"
  using assms by (cases pc) (auto simp: fenced_def synced_def sends_current_def)

lemma synced_mono:
  "synced s \<Longrightarrow> cs_epoch (sy_control s') = cs_epoch (sy_control s)
    \<Longrightarrow> cs_has_input (sy_control s') = cs_has_input (sy_control s)
    \<Longrightarrow> li_epoch (lp_input (sy_loop s)) \<le> li_epoch (lp_input (sy_loop s')) \<Longrightarrow> synced s'"
  by (auto simp: synced_def)

text \<open>Two leases that differ only in what the holder's requests change.\<close>

definition same_lease :: "lease \<Rightarrow> lease \<Rightarrow> bool" where
  "same_lease l l' \<longleftrightarrow> ls_id l' = ls_id l \<and> ls_granted l' = ls_granted l"

definition fence_keeps :: "('db, 'op, 'm) system \<Rightarrow> ('db, 'op, 'm) system \<Rightarrow> bool" where
  "fence_keeps s s' \<longleftrightarrow>
     (\<forall>l'. cs_lease (sy_control s') = Some l' \<longrightarrow>
        (\<exists>l. cs_lease (sy_control s) = Some l \<and> same_lease l l')
        \<and> cs_epoch (sy_control s') = cs_epoch (sy_control s)
        \<and> sy_takes s' (ls_id l') = sy_takes s (ls_id l')
        \<and> sy_admitted s' = sy_admitted s)
     \<and> cs_has_input (sy_control s') = cs_has_input (sy_control s)
     \<and> li_epoch (lp_input (sy_loop s)) \<le> li_epoch (lp_input (sy_loop s'))
     \<and> sy_next s \<le> sy_next s'
     \<and> (\<forall>k tr. (k, tr) \<in> set (sy_open s') \<longrightarrow> k < sy_next s \<longrightarrow> (k, tr) \<in> set (sy_open s))"

lemma inv_fence_keeps: "inv_fence s \<Longrightarrow> fence_keeps s s' \<Longrightarrow> inv_fence s'"
  unfolding inv_fence_def fence_keeps_def
  by (metis (no_types, lifting) fence_at_mono fenced_def same_lease_def synced_mono)


lemma inv_fence_take:
  assumes "inv_fence s" and "sy_takes s n = Some pc" and "\<not> over_pc pc"
    and "is_lease n (sy_control s) \<Longrightarrow> fence_at pc s \<Longrightarrow> fence_at pc' s"
  shows "inv_fence (set_take n pc' s)"
proof -
  have cong: "fence_at p (set_take n pc' s) = fence_at p s" for p
    by (cases p) (simp_all add: fenced_def synced_def sends_current_def)
  show ?thesis
    using assms unfolding inv_fence_def
    by (auto simp: cong is_lease_def fenced_def synced_def split: option.splits)
qed

lemma inv_fence_over: "inv_fence s \<Longrightarrow> inv_fence (set_take n Over s)"
proof -
  assume inv: "inv_fence s"
  have cong: "fence_at p (set_take n Over s) = fence_at p s" for p
    by (cases p) (simp_all add: fenced_def synced_def sends_current_def)
  from inv show ?thesis
    unfolding inv_fence_def by (auto simp: cong fenced_def synced_def)
qed

lemma inv_fence_no_lease: "cs_lease (sy_control s) = None \<Longrightarrow> inv_fence s"
  by (simp add: inv_fence_def)

lemma fence_keeps_refl [simp]: "fence_keeps s s"
  by (simp add: fence_keeps_def same_lease_def)

lemma close_take: "close_transition k (set_take n pc s) = set_take n pc (close_transition k s)"
  by (cases s) (simp add: close_transition_def)

lemma inv_fence_close: "inv_fence s \<Longrightarrow> inv_fence (close_transition k s)"
  by (erule inv_fence_keeps) (auto simp: fence_keeps_def same_lease_def)

lemma confirmed_synced:
  assumes "inv_answers s" and "sends_current k s" and "(k, tr) \<in> set (sy_open s)"
    and "ok \<longrightarrow> (k, EpochConfirmed) \<in> set (sy_answers s)"
    and "discharge_answer (cs_has_input (sy_control s)) ok tr"
  shows "synced s"
proof -
  from assms(2,3) have e: "tr_epoch tr = Some (cs_epoch (sy_control s))" by (auto simp: sends_current_def)
  { assume "cs_has_input (sy_control s)"
    with assms(4,5) e have "(k, EpochConfirmed) \<in> set (sy_answers s)" by (simp add: discharge_answer_def)
    with assms(1) obtain x where "sy_sent s k = Some x" "x \<le> li_epoch (lp_input (sy_loop s))"
      by (auto simp: inv_answers_def)
    with assms(1,3) e have "cs_epoch (sy_control s) \<le> li_epoch (lp_input (sy_loop s))"
      by (auto simp: inv_answers_def) }
  then show ?thesis by (simp add: synced_def)
qed

lemma sys_step_fence:
  "sys_step envs s s' \<Longrightarrow> inv_pending s \<Longrightarrow> inv_epoch s \<Longrightarrow> inv_answers s \<Longrightarrow> inv_fence s \<Longrightarrow> inv_fence s'"
proof (induction rule: sys_step.induct)
  case (take_begin s n a t c')
  from take_start_None [OF take_begin(2)] show ?case by (simp add: inv_fence_def)
next
  case (take_move s n a t tr c')
  let ?s' = "set_take n (MovedSends (sy_next s)) (open_transition tr (set_control c' s))"
  note st = take_start_Some [OF take_move(2)]
  have "fenced ?s'" by (rule fenced_advance [OF take_move(4)]) (use st in simp_all)
  moreover have "sends_current (sy_next s) ?s'"
    using st take_move(3) by (force simp: sends_current_def inv_pending_def)
  ultimately show ?case using st by (simp add: inv_fence_def)
next
  case (take_advance s n b tr c')
  let ?s' = "set_take n (Sends (sy_next s)) (open_transition tr (set_control c' s))"
  note st = take_settled_Inr [OF take_advance(2)]
  have "fenced ?s'" by (rule fenced_advance [OF take_advance(4)]) (use st in simp_all)
  moreover have "sends_current (sy_next s) ?s'"
    using st take_advance(3) by (force simp: sends_current_def inv_pending_def)
  moreover have "\<forall>l. cs_lease (sy_control s) = Some l \<longrightarrow> ls_id l = n \<and> \<not> ls_granted l"
    using st take_advance(1,6) by (auto simp: is_lease_def inv_fence_def)
  ultimately show ?case using st by (auto simp: inv_fence_def)
next
  case (take_sent s n k tr ok)
  let ?b = "discharge_answer (cs_has_input (sy_control s)) ok tr"
  have "inv_fence (set_take n (Answers ?b True) s)"
  proof (rule inv_fence_take [OF take_sent(7,1)])
    assume "fence_at (Sends k) s"
    then show "fence_at (Answers ?b True) s"
      using confirmed_synced [OF take_sent(6) _ take_sent(2,3)] by simp
  qed simp
  from inv_fence_close [OF this, of k] show ?case by (simp only: close_take)
next
  case (take_moved_sent s n k tr ok)
  let ?b = "discharge_answer (cs_has_input (sy_control s)) ok tr"
  have "inv_fence (set_take n (if ?b then MovedWaits else Answers False False) s)"
  proof (rule inv_fence_take [OF take_moved_sent(7,1)])
    assume "fence_at (MovedSends k) s"
    then show "fence_at (if ?b then MovedWaits else Answers False False) s"
      using confirmed_synced [OF take_moved_sent(6) _ take_moved_sent(2,3)] by simp
  qed simp
  from inv_fence_close [OF this, of k] show ?case by (simp only: close_take)
next
  case (take_granted s n b f t l c')
  note st = take_finish_Inr [OF take_granted(2)]
  from st take_granted(1,6) have "fenced s \<and> synced s" by (auto simp: inv_fence_def is_lease_def split: option.splits)
  with st show ?case by (auto simp: inv_fence_def fenced_def synced_def)
next
  case (take_records s n l t)
  have "fence_keeps s (set_control (take_recorded l t (sy_control s)) s)"
    by (simp add: fence_keeps_def same_lease_def)
  from inv_fence_over [OF inv_fence_keeps [OF take_records(5) this]] show ?case .
next
  case (take_undone s n)
  show ?case
  proof (cases "cs_lease (take_dropped n (sy_control s)) = None")
    case False
    with take_dropped_effect [of n "sy_control s"] have "take_dropped n (sy_control s) = sy_control s" by auto
    with inv_fence_take [OF take_undone(5,1), of Over] show ?thesis by simp
  qed (simp add: inv_fence_no_lease)
next
  case (take_refused s n b e c')
  from take_settled_Inl [OF take_refused(2)] inv_fence_take [OF take_refused(6,1), of Over] show ?case
    by (auto simp: inv_fence_no_lease)
next
  case (take_failed s n b f t e c')
  from take_finish_Inl [OF take_failed(2)] inv_fence_take [OF take_failed(6,1), of Over] show ?case
    by (auto simp: inv_fence_no_lease)
next
  case (take_none_in_flight s n)
  then show ?case by (auto intro: inv_fence_take)
next
  case (take_none_pending s n)
  then show ?case by (auto intro: inv_fence_take)
next
  case (take_timed_out s n)
  then show ?case by (auto intro: inv_fence_take)
next
  case (take_moved_released s n)
  then show ?case by (auto intro: inv_fence_take)
next
  case (take_moved_timed_out s n)
  then show ?case by (auto intro: inv_fence_take)
next
  case (take_abandoned s n)
  then show ?case by (auto intro: inv_fence_take)
next
  case (take_abandoned_sending s n k)
  then have "inv_fence (set_take n Undoing s)" by (auto intro: inv_fence_take)
  from inv_fence_close [OF this, of k] show ?case by (simp only: close_take)
next
  case (discharged k s)
  then show ?case by (simp add: inv_fence_close)
next
  case (loop_command env s cmd rest fx l')
  then show ?case using loop_iteration_epoch [of "sy_loop s" env "Command cmd"]
    by (elim inv_fence_keeps) (simp add: fence_keeps_def same_lease_def)
next
  case (loop_other env s arm fx l')
  then show ?case using loop_other_epoch [OF loop_other(3), of env "sy_loop s"]
    by (elim inv_fence_keeps) (simp add: fence_keeps_def same_lease_def)
next
  case (agent_admitted s e)
  then show ?case by (intro inv_fence_no_lease) (auto simp: admit_agent_def split: option.splits)
next
  case (blurred n t s tr c')
  from blur_Inr [OF blurred(1)] show ?case
    by (intro inv_fence_keeps [OF blurred(5)])
      (auto simp: fence_keeps_def same_lease_def held_lease_Inr)
next
  case (beat n t s c')
  from heartbeat_Inr [OF beat(1)] show ?case
    by (intro inv_fence_keeps [OF beat(5)]) (auto simp: fence_keeps_def same_lease_def held_lease_Inr)
next
  case (input_checked s n l c' event t)
  then show ?case
    by (elim inv_fence_keeps) (auto simp: fence_keeps_def same_lease_def held_lease_Inr track_input_def)
next
  case (cua_answered s k)
  then show ?case by (elim inv_fence_keeps) (simp add: fence_keeps_def same_lease_def cua_finished_effect)
next
  case (send_epoch k tr s e)
  then show ?case by (elim inv_fence_keeps) (simp add: fence_keeps_def same_lease_def)
next
  case (send_releases k tr s ops r)
  then show ?case by (elim inv_fence_keeps) (simp add: fence_keeps_def same_lease_def)
next
  case (agent_sends e s ops r)
  then show ?case by (elim inv_fence_keeps) (simp add: fence_keeps_def same_lease_def)
next
  case (input_sends n e s ops r)
  then show ?case by (elim inv_fence_keeps) (simp add: fence_keeps_def same_lease_def)
next
  case (sweep_looks now idle s reason)
  then show ?case by (elim inv_fence_keeps) (simp add: fence_keeps_def same_lease_def)
next
  case (cua_admitted k tk t s c')
  from admit_cua_counts [OF cua_admitted(1)] show ?case by (intro inv_fence_no_lease) simp
next
  case (cua_took_over k tk t s tr c')
  from admit_cua_ends [OF cua_took_over(1)] show ?case by (intro inv_fence_no_lease) (simp add: ends_lease_def)
next
  case (takeover src t s p tr c')
  from agent_takeover_ends [OF takeover(1)] show ?case by (intro inv_fence_no_lease) (simp add: ends_lease_def)
next
  case (viewer_ended reason t s tr c')
  from end_human_ends [OF viewer_ended(2)] show ?case by (intro inv_fence_no_lease) (simp add: ends_lease_def)
next
  case (session_closed t s tr c')
  from end_human_ended_effect [OF session_closed(1)] show ?case by (intro inv_fence_no_lease) simp
next
  case (holder_released n t s tr c')
  from release_ends [OF holder_released(1)] show ?case by (intro inv_fence_no_lease) (simp add: ends_lease_def)
next
  case (sweep_ends reason s t tr c')
  from end_human_ends [OF sweep_ends(2)] show ?case by (intro inv_fence_no_lease) (simp add: ends_lease_def)
qed


subsection \<open>Human input of a past lease is of an older epoch\<close>

definition holds :: "ustr \<Rightarrow> control \<Rightarrow> bool" where
  "holds n c \<longleftrightarrow> (\<exists>l. cs_lease c = Some l \<and> ls_id l = n \<and> ls_granted l)"

definition outdated :: "epoch \<Rightarrow> control \<Rightarrow> bool" where
  "outdated e c \<longleftrightarrow> e < cs_epoch c \<or> cs_epoch c = u64_max"

definition inv_human :: "('db, 'op, 'm) system \<Rightarrow> bool" where
  "inv_human s \<longleftrightarrow>
     (\<forall>x \<in> set (sy_human s). sy_takes s (fst x) \<noteq> None
        \<and> (holds (fst x) (sy_control s) \<or> outdated (snd x) (sy_control s) \<or> sy_closed s))"

lemma holds_held_lease: "holds n c \<longleftrightarrow> (\<exists>l. held_lease c n = Inr l)"
  by (auto simp: holds_def held_lease_Inr)

definition human_keeps :: "('db, 'op, 'm) system \<Rightarrow> ('db, 'op, 'm) system \<Rightarrow> bool" where
  "human_keeps s s' \<longleftrightarrow>
     sy_human s' = sy_human s \<and> (\<forall>n. sy_takes s n \<noteq> None \<longrightarrow> sy_takes s' n \<noteq> None)
     \<and> (sy_closed s \<longrightarrow> sy_closed s')
     \<and> (cs_epoch (sy_control s') = epoch_next (cs_epoch (sy_control s))
        \<or> cs_epoch (sy_control s') = cs_epoch (sy_control s)
          \<and> (\<forall>n. sy_takes s n \<noteq> None \<longrightarrow> holds n (sy_control s) \<longrightarrow> holds n (sy_control s')))"

lemma inv_human_keeps:
  assumes "inv_human s" and "inv_epoch s" and "human_keeps s s'"
  shows "inv_human s'"
proof -
  have "outdated e (sy_control s')"
    if "cs_epoch (sy_control s') = epoch_next (cs_epoch (sy_control s))" "(n, e) \<in> set (sy_human s)" for n e
  proof (cases "cs_epoch (sy_control s) < u64_max")
    case True
    from that(2) assms(2) have "e \<le> cs_epoch (sy_control s)" by (force simp: inv_epoch_def)
    with epoch_next_gt [OF True] that(1) show ?thesis by (simp add: outdated_def)
  next
    case False
    with assms(2) have "cs_epoch (sy_control s) = u64_max" by (simp add: inv_epoch_def)
    with that(1) show ?thesis by (simp add: outdated_def epoch_next_def sat_add64_def)
  qed
  moreover have "outdated e (sy_control s')"
    if "outdated e (sy_control s)" "cs_epoch (sy_control s') = cs_epoch (sy_control s)" for e
    using that by (simp add: outdated_def)
  ultimately show ?thesis
    using assms(1,3) unfolding inv_human_def human_keeps_def by (metis prod.collapse)
qed

lemma human_keeps_ends: "ends_lease l tr (sy_control s) c' \<Longrightarrow> human_keeps s (open_transition tr (set_control c' s))"
  by (auto simp: human_keeps_def ends_lease_def holds_def)

lemma sys_step_human:
  "sys_step envs s s' \<Longrightarrow> inv_epoch s \<Longrightarrow> inv_fence s \<Longrightarrow> inv_human s \<Longrightarrow> inv_human s'"
proof (induction rule: sys_step.induct)
  case (take_begin s n a t c')
  from take_start_None [OF take_begin(2)] show ?case
    by (intro inv_human_keeps [OF take_begin(5,3)]) (auto simp: human_keeps_def holds_def)
next
  case (take_move s n a t tr c')
  from take_start_Some [OF take_move(2)] show ?case
    by (intro inv_human_keeps [OF take_move(5,3)]) (auto simp: human_keeps_def holds_def)
next
  case (take_advance s n b tr c')
  from take_settled_Inr [OF take_advance(2)] show ?case
    by (intro inv_human_keeps [OF take_advance(5,3)]) (auto simp: human_keeps_def holds_def)
next
  case (take_refused s n b e c')
  with take_settled_Inl [OF take_refused(2)] show ?case
    by (intro inv_human_keeps [OF take_refused(5,3)])
      (auto simp: human_keeps_def holds_def inv_fence_def is_lease_def split: option.splits)
next
  case (take_granted s n b f t l c')
  from take_finish_Inr [OF take_granted(2)] show ?case
    by (intro inv_human_keeps [OF take_granted(5,3)])
      (auto simp: human_keeps_def holds_def is_lease_def split: option.splits)
next
  case (take_failed s n b f t e c')
  with take_finish_Inl [OF take_failed(2)] show ?case
    by (intro inv_human_keeps [OF take_failed(5,3)])
      (auto simp: human_keeps_def holds_def inv_fence_def is_lease_def split: option.splits)
next
  case (take_undone s n)
  with take_dropped_effect [of n "sy_control s"] show ?case
    by (intro inv_human_keeps [OF take_undone(4,2)]) (auto simp: human_keeps_def holds_def)
next
  case (cua_took_over k tk t s tr c')
  from inv_human_keeps [OF cua_took_over(4,2) human_keeps_ends [OF admit_cua_ends [OF cua_took_over(1)]]]
  show ?case .
next
  case (takeover src t s p tr c')
  from agent_takeover_ends [OF takeover(1)] show ?case
    by (intro inv_human_keeps [OF takeover(4,2)] human_keeps_ends [where l = "the (cs_lease (sy_control s))"]) simp
next
  case (viewer_ended reason t s tr c')
  from end_human_ends [OF viewer_ended(2)] show ?case
    by (intro inv_human_keeps [OF viewer_ended(5,3)] human_keeps_ends [where l = "the (cs_lease (sy_control s))"]) simp
next
  case (holder_released n t s tr c')
  from release_ends [OF holder_released(1)] show ?case
    by (intro inv_human_keeps [OF holder_released(4,2)] human_keeps_ends [where l = "the (cs_lease (sy_control s))"]) simp
next
  case (sweep_ends reason s t tr c')
  have "inv_human (open_transition tr (set_control c' s))"
    using end_human_ends [OF sweep_ends(2)] by (intro inv_human_keeps [OF sweep_ends(5,3)] human_keeps_ends [where l = "the (cs_lease (sy_control s))"]) simp
  then show ?case by (simp add: inv_human_def)
next
  case (session_closed t s tr c')
  then show ?case by (simp add: inv_human_def)
next
  case (input_checked s n l c' event t)
  then have "holds n c'" "cs_epoch c' = cs_epoch (sy_control s)"
    "\<And>m. holds m (sy_control s) \<Longrightarrow> holds m c'"
    by (auto simp: holds_def held_lease_Inr track_input_def)
  moreover have "sy_takes s n \<noteq> None"
    using input_checked(1,4) by (auto simp: inv_fence_def held_lease_Inr)
  ultimately show ?case using input_checked(5)
    by (fastforce simp: inv_human_def outdated_def)
next
  case (beat n t s c')
  from heartbeat_Inr [OF beat(1)] show ?case
    by (intro inv_human_keeps [OF beat(4,2)]) (auto simp: human_keeps_def holds_def held_lease_Inr)
next
  case (blurred n t s tr c')
  from blur_Inr [OF blurred(1)] show ?case
    by (intro inv_human_keeps [OF blurred(4,2)]) (auto simp: human_keeps_def holds_def held_lease_Inr)
next
  case (cua_admitted k tk t s c')
  from admit_cua_counts [OF cua_admitted(1)] show ?case
    by (intro inv_human_keeps [OF cua_admitted(4,2)]) (auto simp: human_keeps_def holds_def)
qed (erule inv_human_keeps, assumption, simp add: human_keeps_def holds_def cua_finished_effect)+

subsection \<open>The invariant of the system\<close>

definition sys_inv :: "('db, 'op, 'm) system \<Rightarrow> bool" where
  "sys_inv s \<longleftrightarrow> inv_pending s \<and> inv_quiet s \<and> inv_epoch s \<and> inv_answers s \<and> inv_fence s \<and> inv_human s"

lemma sys_inv_new: "sys_inv (new_system (new_control name gen events has_input) (new_loop lib dims))"
  by (simp add: sys_inv_def inv_pending_def inv_quiet_def inv_epoch_def inv_answers_def inv_fence_def
      inv_human_def new_system_def new_control_def new_loop_def new_loop_input_def INITIAL_EPOCH_def u64_max_def)

lemma sys_reachable_inv: "sys_reachable envs s \<Longrightarrow> sys_inv s"
proof (induction rule: sys_reachable.induct)
  case (step s s')
  then show ?case
    using sys_step_pending [OF step(2)] sys_step_quiet [OF step(2)] sys_step_epoch [OF step(2)]
      sys_step_answers [OF step(2)] sys_step_fence [OF step(2)] sys_step_human [OF step(2)]
    by (simp add: sys_inv_def)
qed (rule sys_inv_new)

end
