(* ===== verification/Control_Safety.thy ===== *)
theory Control_Safety
  imports Control_Steps
begin

text \<open>
  What the invariant of \<open>Control_Steps\<close> means for the users of a session: a human who was
  granted control is alone with the guest, the agent acts only after every release is out,
  and a former holder's late input never reaches the guest. Two runs show interleavings
  that the comments of the source rule out.
\<close>

declare One_nat_def [simp del]

subsection \<open>A run to a granted lease\<close>

text \<open>
  An agent action is admitted in epoch 0, then a tab at 10.0.0.7 takes the lease \<open>a1\<close>: the
  epoch advances to 1, the loop confirms, the lease is granted.
\<close>

abbreviation the_envs where "the_envs \<equiv> {sample_env}"

definition run0 :: "(nat set, nat \<times> bool, unit) system" where
  "run0 = new_system (new_control (lit ''work'') 1 sample_log True) (new_loop (le_lib sample_env) (800, 600))"

definition run1 :: "(nat set, nat \<times> bool, unit) system" where
  "run1 = run0\<lparr>sy_admitted := 0 # sy_admitted run0\<rparr>"

definition run2 :: "(nat set, nat \<times> bool, unit) system" where
  "run2 = set_take (lit ''a1'') Waits
     (set_control (snd (take_start (lit ''a1'') (lit ''10.0.0.7'') sample_tick (sy_control run1))) run1)"

definition run4 :: "(nat set, nat \<times> bool, unit) system" where
  "run4 = set_take (lit ''a1'') (Observed True) (set_take (lit ''a1'') Settles run2)"

definition run5 :: "(nat set, nat \<times> bool, unit) system" where
  "run5 = set_take (lit ''a1'') (Sends 0)
     (open_transition \<lparr>tr_release = [], tr_at = 1, tr_epoch = Some 1\<rparr>
       (set_control (snd (take_settled (lit ''a1'') True (sy_control run4))) run4))"

definition run6 :: "(nat set, nat \<times> bool, unit) system" where
  "run6 = enqueue (SetEpoch 1 0) (run5\<lparr>sy_sent := (sy_sent run5)(0 \<mapsto> 1)\<rparr>)"

definition run7 :: "(nat set, nat \<times> bool, unit) system" where
  "run7 = run6\<lparr>sy_loop := snd (loop_iteration sample_env (Command (SetEpoch 1 0)) (sy_loop run6)), sy_queue := [],
      sy_answers := sy_answers run6 @ loop_answers (fst (loop_iteration sample_env (Command (SetEpoch 1 0)) (sy_loop run6)))\<rparr>"

definition run8 :: "(nat set, nat \<times> bool, unit) system" where
  "run8 = set_take (lit ''a1'') (Answers True True) (close_transition 0 run7)"

definition granted_lease :: lease where
  "granted_lease = (new_lease (lit ''a1'') (lit ''10.0.0.7'') sample_tick)\<lparr>ls_granted := True\<rparr>"

definition run9 :: "(nat set, nat \<times> bool, unit) system" where
  "run9 = set_take (lit ''a1'') (Records granted_lease)
     (set_control ((sy_control run8)\<lparr>cs_lease := Some granted_lease\<rparr>) run8)"

lemma run0_reachable: "sys_reachable the_envs run0"
  unfolding run0_def by (rule sys_reachable.fresh) simp

lemma run1_reachable: "sys_reachable the_envs run1"
  unfolding run1_def
  by (rule sys_reachable.step [OF run0_reachable sys_step.agent_admitted])
    (simp add: run0_def new_system_def new_control_def admit_agent_def released_def INITIAL_EPOCH_def)

lemma run1_control: "sy_control run1 = new_control (lit ''work'') 1 sample_log True"
  "sy_takes run1 = Map.empty" "sy_loop run1 = new_loop sample_lib (800, 600)" "sy_queue run1 = []"
  "sy_answers run1 = []" "sy_sent run1 = Map.empty" "sy_open run1 = []" "sy_next run1 = 0" "sy_admitted run1 = [0]" "sy_looked run1 = []"
  by (simp_all add: run1_def run0_def new_system_def sample_env_def)

lemma run2_reachable: "sys_reachable the_envs run2"
  unfolding run2_def
  by (rule sys_reachable.step [OF run1_reachable sys_step.take_begin])
    (simp_all add: run1_control new_control_def take_start_def Let_def)

lemma run2_fields:
  "sy_control run2 = (new_control (lit ''work'') 1 sample_log True)\<lparr>cs_lease :=
     Some (new_lease (lit ''a1'') (lit ''10.0.0.7'') sample_tick)\<rparr>"
  "sy_takes run2 = [lit ''a1'' \<mapsto> Waits]" "sy_loop run2 = new_loop sample_lib (800, 600)" "sy_queue run2 = []"
  "sy_answers run2 = []" "sy_sent run2 = Map.empty" "sy_open run2 = []" "sy_next run2 = 0" "sy_admitted run2 = [0]" "sy_looked run2 = []"
  by (simp_all add: run2_def run1_control new_control_def take_start_def Let_def)

lemma run4_reachable: "sys_reachable the_envs run4"
  unfolding run4_def
  by (rule sys_reachable.step [OF sys_reachable.step [OF run2_reachable sys_step.take_none_in_flight]
        sys_step.take_none_pending])
    (simp_all add: run2_fields new_control_def released_def)

lemma run4_fields:
  "sy_control run4 = sy_control run2" "sy_takes run4 = [lit ''a1'' \<mapsto> Observed True]"
  "sy_loop run4 = new_loop sample_lib (800, 600)" "sy_queue run4 = []"
  "sy_answers run4 = []" "sy_sent run4 = Map.empty" "sy_open run4 = []" "sy_next run4 = 0" "sy_admitted run4 = [0]" "sy_looked run4 = []"
  by (simp_all add: run4_def run2_fields)

lemma epoch_next_0: "epoch_next 0 = 1"
  by (simp add: epoch_next_def sat_add64_def u64_max_def)

lemma run4_settled:
  "take_settled (lit ''a1'') True (sy_control run2)
     = (Inr \<lparr>tr_release = [], tr_at = 1, tr_epoch = Some 1\<rparr>,
        (sy_control run2)\<lparr>cs_epoch := 1, cs_pending := 1\<rparr>)"
  by (simp add: run2_fields take_settled_def is_lease_def advance_eq new_control_def
      INITIAL_EPOCH_def epoch_next_0)

lemma run5_reachable: "sys_reachable the_envs run5"
proof -
  have "sys_step the_envs run4 (set_take (lit ''a1'') (Sends (sy_next run4))
      (open_transition \<lparr>tr_release = [], tr_at = 1, tr_epoch = Some 1\<rparr>
        (set_control ((sy_control run2)\<lparr>cs_epoch := 1, cs_pending := 1\<rparr>) run4)))"
    by (rule sys_step.take_advance [where b = True]) (simp_all add: run4_fields run4_settled)
  then have "sys_step the_envs run4 run5" by (simp add: run5_def run4_settled run4_fields)
  then show ?thesis by (rule sys_reachable.step [OF run4_reachable])
qed

lemma run5_fields:
  "sy_control run5 = (sy_control run2)\<lparr>cs_epoch := 1, cs_pending := 1\<rparr>" "sy_takes run5 = [lit ''a1'' \<mapsto> Sends 0]"
  "sy_loop run5 = new_loop sample_lib (800, 600)" "sy_queue run5 = []" "sy_answers run5 = []"
  "sy_sent run5 = Map.empty" "sy_open run5 = [(0, \<lparr>tr_release = [], tr_at = 1, tr_epoch = Some 1\<rparr>)]"
  "sy_next run5 = 1" "sy_admitted run5 = [0]" "sy_looked run5 = []"
  by (simp_all add: run5_def run4_fields run4_settled)

lemma run6_reachable: "sys_reachable the_envs run6"
  unfolding run6_def
  by (rule sys_reachable.step [OF run5_reachable sys_step.send_epoch])
    (simp_all add: run5_fields run2_fields new_control_def, simp)

lemma loop_confirms:
  "loop_iteration sample_env (Command (SetEpoch 1 0)) (new_loop sample_lib (800, 600))
     = ([Answered 0 EpochConfirmed], (new_loop sample_lib (800, 600))\<lparr>lp_input := \<lparr>li_db = {}, li_epoch = 1\<rparr>\<rparr>)"
  by (simp add: change_epoch_def sample_env_def sample_lib_def new_loop_def new_loop_input_def INITIAL_EPOCH_def
      process_fastpath_input_def finish_iteration_def)

lemma run6_fields:
  "sy_control run6 = sy_control run5" "sy_takes run6 = [lit ''a1'' \<mapsto> Sends 0]"
  "sy_loop run6 = new_loop sample_lib (800, 600)" "sy_queue run6 = [SetEpoch 1 0]" "sy_answers run6 = []"
  "sy_open run6 = [(0, \<lparr>tr_release = [], tr_at = 1, tr_epoch = Some 1\<rparr>)]" "sy_next run6 = 1" "sy_admitted run6 = [0]" "sy_looked run6 = []"
  by (simp_all add: run6_def run5_fields)

lemma run7_reachable: "sys_reachable the_envs run7"
  unfolding run7_def
  by (rule sys_reachable.step [OF run6_reachable sys_step.loop_command [where env = sample_env and cmd = "SetEpoch 1 0"]])
    (simp_all add: run6_fields new_loop_def del: run_command.simps)

lemma new_loop_running [simp]: "\<not> lp_stopped (new_loop lib d)"
  by (simp add: new_loop_def)

lemma run7_fields:
  "\<not> lp_stopped (sy_loop run7)"
  "sy_control run7 = sy_control run5" "sy_takes run7 = [lit ''a1'' \<mapsto> Sends 0]"
  "lp_input (sy_loop run7) = \<lparr>li_db = {}, li_epoch = 1\<rparr>" "sy_answers run7 = [(0, EpochConfirmed)]"
  "sy_open run7 = [(0, \<lparr>tr_release = [], tr_at = 1, tr_epoch = Some 1\<rparr>)]" "sy_next run7 = 1" "sy_admitted run7 = [0]" "sy_looked run7 = []"
  by (simp_all add: run7_def run6_fields loop_confirms loop_answers_def del: loop_iteration.simps)

lemma run8_reachable: "sys_reachable the_envs run8"
proof -
  have "sys_step the_envs run7 (set_take (lit ''a1'')
      (Answers (discharge_answer (cs_has_input (sy_control run7)) True \<lparr>tr_release = [], tr_at = 1, tr_epoch = Some 1\<rparr>) True)
      (close_transition 0 run7))"
    by (rule sys_step.take_sent) (simp_all add: run7_fields)
  then have "sys_step the_envs run7 run8" by (simp add: run8_def discharge_answer_def)
  then show ?thesis by (rule sys_reachable.step [OF run7_reachable])
qed

lemma run8_fields:
  "sy_control run8 = (sy_control run2)\<lparr>cs_epoch := 1\<rparr>" "sy_takes run8 = [lit ''a1'' \<mapsto> Answers True True]"
  "lp_input (sy_loop run8) = \<lparr>li_db = {}, li_epoch = 1\<rparr>" "sy_open run8 = []" "sy_admitted run8 = [0]" "sy_looked run8 = []" "sy_next run8 = 1"
  by (simp_all add: run8_def run7_fields run5_fields run2_fields transition_done_def new_control_def)

lemma run9_reachable: "sys_reachable the_envs run9"
proof -
  have "take_finish (lit ''a1'') True sample_tick (sy_control run8)
      = (Inr granted_lease, (sy_control run8)\<lparr>cs_lease := Some granted_lease\<rparr>)"
    by (simp add: run8_fields run2_fields take_finish_def new_lease_def granted_lease_def sample_tick_def Let_def)
  from sys_step.take_granted [OF _ this, where f = True and envs = the_envs]
  have "sys_step the_envs run8 run9" by (simp add: run9_def run8_fields)
  then show ?thesis by (rule sys_reachable.step [OF run8_reachable])
qed

lemma run9_fields:
  "sy_control run9 = (new_control (lit ''work'') 1 sample_log True)\<lparr>cs_lease := Some granted_lease, cs_epoch := 1\<rparr>"
  "sy_takes run9 = [lit ''a1'' \<mapsto> Records granted_lease]" "sy_open run9 = []"
  "lp_input (sy_loop run9) = \<lparr>li_db = {}, li_epoch = 1\<rparr>" "sy_admitted run9 = [0]" "sy_next run9 = 1" "sy_looked run9 = []"
  by (simp_all add: run9_def run8_fields run2_fields new_control_def)

subsection \<open>Properties\<close>

text \<open>
  C1. A human who holds the lease is alone: while a lease is granted, no acting Cua call is
  in flight, the session loop is at the controller's epoch, and any batch of an agent
  action that was ever admitted is refused by the loop, writes nothing and changes nothing.
\<close>

theorem granted_lease_is_exclusive:
  assumes "sys_reachable envs s" and "cs_lease (sy_control s) = Some l" and "ls_granted l"
    and "cs_has_input (sy_control s)" and "cs_epoch (sy_control s) < u64_max"
    and "e \<in> set (sy_admitted s)"
  shows "cs_inflight (sy_control s) = 0
    \<and> li_epoch (lp_input (sy_loop s)) = cs_epoch (sy_control s)
    \<and> loop_iteration env (Command (InputCommand e ops r)) (sy_loop s)
        = ([Answered r (InputRefused (StaleInput e (cs_epoch (sy_control s))))], sy_loop s)"
proof -
  from sys_reachable_inv [OF assms(1)] have inv: "inv_quiet s" "inv_epoch s" "inv_fence s"
    by (simp_all add: sys_inv_def)
  from inv(3) assms(2,3) have f: "fenced s" "synced s" by (auto simp: inv_fence_def)
  with inv(2) assms(4) have li: "li_epoch (lp_input (sy_loop s)) = cs_epoch (sy_control s)"
    by (auto simp: synced_def inv_epoch_def)
  moreover from f assms(5,6) have "e < cs_epoch (sy_control s)" by (auto simp: fenced_def)
  ultimately show ?thesis using inv(1) assms(2,3) by (auto simp: inv_quiet_def apply_batch_stale)
qed

theorem granted_lease_is_exclusive_witness:
  "loop_iteration sample_env (Command (InputCommand 0 [(31, True)] 9)) (sy_loop run9)
     = ([Answered 9 (InputRefused (StaleInput 0 1))], sy_loop run9)"
  using granted_lease_is_exclusive [OF run9_reachable, of granted_lease 0 sample_env "[(31, True)]" 9]
  by (simp add: run9_fields new_control_def granted_lease_def u64_max_def)

text \<open>
  C2. The agent acts only on a clean guest: when a native action is admitted, no human holds
  or takes the lease, every transition made so far has been sent or given up, and the
  action gets the current epoch, which no loop has passed.
\<close>

theorem agent_admitted_after_releases:
  assumes "sys_reachable envs s" and "admit_agent (sy_control s) = Some (Inr e)"
  shows "sy_open s = [] \<and> cs_lease (sy_control s) = None \<and> e = cs_epoch (sy_control s)
    \<and> li_epoch (lp_input (sy_loop s)) \<le> e"
  using sys_reachable_inv [OF assms(1)] assms(2)
  by (auto simp: sys_inv_def inv_pending_def inv_epoch_def admit_agent_def released_def split: option.splits if_splits)

theorem agent_admitted_after_releases_witness:
  "sy_open run0 = [] \<and> li_epoch (lp_input (sy_loop run0)) \<le> 0"
  using agent_admitted_after_releases [OF run0_reachable, of 0]
  by (simp add: run0_def new_system_def new_control_def admit_agent_def released_def INITIAL_EPOCH_def)

text \<open>
  C2. Late input of a former holder is lost, not applied: once a lease is no longer held
  (the session still open) and the loop is at the controller's epoch, a batch that was
  checked under that lease is refused and writes nothing.
\<close>

theorem former_holder_refused:
  assumes "sys_reachable envs s" and "(n, e) \<in> set (sy_human s)"
    and "\<not> holds n (sy_control s)" and "\<not> sy_closed s"
    and "cs_epoch (sy_control s) < u64_max" and "li_epoch (lp_input (sy_loop s)) = cs_epoch (sy_control s)"
  shows "loop_iteration env (Command (InputCommand e ops r)) (sy_loop s)
           = ([Answered r (InputRefused (StaleInput e (cs_epoch (sy_control s))))], sy_loop s)"
proof -
  from sys_reachable_inv [OF assms(1)] assms(2-5) have "e < cs_epoch (sy_control s)"
    by (force simp: sys_inv_def inv_human_def outdated_def)
  with assms(6) show ?thesis by (simp add: apply_batch_stale)
qed

text \<open>The run goes on: the holder presses a key, and then releases control.\<close>

definition run10 :: "(nat set, nat \<times> bool, unit) system" where
  "run10 = set_control (track_input granted_lease (KeyEvent 30 False True) sample_tick (sy_control run9))
     (run9\<lparr>sy_human := (lit ''a1'', cs_epoch (sy_control run9)) # sy_human run9\<rparr>)"

lemma run10_reachable: "sys_reachable the_envs run10"
  unfolding run10_def
  by (rule sys_reachable.step [OF run9_reachable sys_step.input_checked])
    (auto simp: run9_fields new_control_def held_lease_Inr granted_lease_def)

lemma run10_fields:
  "held_lease (sy_control run10) (lit ''a1'') = Inr (granted_lease\<lparr>ls_held := {HeldKey 30 False}\<rparr>)"
  "cs_epoch (sy_control run10) = 1" "sy_human run10 = (lit ''a1'', 1) # sy_human run9"
  "sy_closed run10 = sy_closed run9" "sy_takes run10 = sy_takes run9" "sy_loop run10 = sy_loop run9"
  "sy_next run10 = 1" "sy_looked run10 = []"
  by (simp_all add: run10_def run9_fields track_input_def held_lease_Inr granted_lease_def new_control_def
      new_lease_def sample_tick_def)

lemma take_start_displaces:
  "cs_lease c = Some l \<Longrightarrow> ls_granted l \<Longrightarrow> \<exists>tr c'. take_start n a t c = (Some tr, c')"
  by (auto simp: take_start_def Let_def split: prod.split)

lemma end_human_some: "cs_lease c = Some l \<Longrightarrow> \<exists>tr c'. end_human reason t c = (Some tr, c')"
  by (auto simp: end_human_def take_human_def Let_def split: prod.split)

lemma release_some: "held_lease c n = Inr l \<Longrightarrow> \<exists>tr c'. release n t c = (Inr tr, c')"
  by (auto simp: release_def Let_def split: prod.split)

lemma run9_displaced: "\<exists>tr c'. take_start n a t (sy_control run9) = (Some tr, c')"
  by (rule take_start_displaces [where l = granted_lease]) (simp_all add: run9_fields granted_lease_def)

lemma run13_exists:
  "\<exists>s. sys_reachable the_envs s \<and> (lit ''a1'', 1) \<in> set (sy_human s) \<and> cs_lease (sy_control s) = None
     \<and> \<not> sy_closed s \<and> cs_epoch (sy_control s) = 2 \<and> li_epoch (lp_input (sy_loop s)) = 2"
proof -
  have two: "epoch_next 1 = 2" by (simp add: epoch_next_def sat_add64_def u64_max_def)
  have open9: "sy_queue run9 = []" "sy_sent run9 = [0 \<mapsto> 1]" "\<not> sy_closed run9" "\<not> lp_stopped (sy_loop run9)"
    by (simp_all add: run9_def run8_def run7_fields, simp_all add: run7_def run6_fields)
      (simp_all add: run6_def run5_def run4_def run2_def run1_def run0_def new_system_def)
  have inp: "cs_has_input (sy_control run10)" by (simp add: run10_def run9_fields track_input_def new_control_def)
  obtain tr c' where rel: "release (lit ''a1'') sample_tick (sy_control run10) = (Inr tr, c')"
    using release_some [OF run10_fields(1)] by blast
  note e = release_ends [OF rel] run10_fields(1)
  then have c': "cs_lease c' = None" "cs_epoch c' = 2" "tr_epoch tr = Some 2" "cs_has_input c'"
    using run10_fields(2) inp two by (auto simp: ends_lease_def held_lease_Inr granted_lease_def)
  define s1 where "s1 = open_transition tr (set_control c' run10)"
  have "sys_step the_envs run10 s1" unfolding s1_def by (rule sys_step.holder_released [OF rel])
  then have r1: "sys_reachable the_envs s1" by (rule sys_reachable.step [OF run10_reachable])
  define s2 where "s2 = enqueue (SetEpoch 2 1) (s1\<lparr>sy_sent := (sy_sent s1)(1 \<mapsto> 2)\<rparr>)"
  have "sys_step the_envs s1 s2"
    unfolding s2_def by (rule sys_step.send_epoch [where tr = tr])
      (use c' in \<open>simp_all add: s1_def run10_fields\<close>, simp add: run10_def open9)
  with r1 have r2: "sys_reachable the_envs s2" by (rule sys_reachable.step)
  obtain fx l' where it: "loop_iteration sample_env (Command (SetEpoch 2 1)) (sy_loop s2) = (fx, l')" by fastforce
  have li: "li_epoch (lp_input (sy_loop s2)) = 1" by (simp add: s2_def s1_def run10_fields run9_fields)
  have "li_epoch (lp_input l') = li_epoch (lp_input (snd (run_command sample_env (SetEpoch 2 1) (sy_loop s2))))"
    using it by simp
  also have "\<dots> = 2" by (simp add: li change_epoch_def case_prod_beta del: run_command.simps)
  finally have l2: "li_epoch (lp_input l') = 2" .
  define s3 where "s3 = s2\<lparr>sy_loop := l', sy_queue := [], sy_answers := sy_answers s2 @ loop_answers fx\<rparr>"
  have "sys_step the_envs s2 s3"
    unfolding s3_def by (rule sys_step.loop_command [OF _ _ _ it])
      (simp_all add: s2_def s1_def run10_fields open9, simp add: run10_def open9)
  with r2 have "sys_reachable the_envs s3" by (rule sys_reachable.step)
  moreover have "(lit ''a1'', 1) \<in> set (sy_human s3)" "\<not> sy_closed s3"
    by (simp_all add: s3_def s2_def s1_def run10_fields open9)
  ultimately show ?thesis using c' l2 by (intro exI [of _ s3]) (simp add: s3_def s2_def s1_def)
qed

theorem former_holder_refused_witness:
  "\<exists>s :: (nat set, nat \<times> bool, unit) system.
     loop_iteration sample_env (Command (InputCommand 1 [(31, True)] 9)) (sy_loop s)
       = ([Answered 9 (InputRefused (StaleInput 1 2))], sy_loop s)"
proof -
  obtain s where s: "sys_reachable the_envs s" "(lit ''a1'', 1) \<in> set (sy_human s)"
    "cs_lease (sy_control s) = None" "\<not> sy_closed s" "cs_epoch (sy_control s) = 2"
    "li_epoch (lp_input (sy_loop s)) = 2"
    using run13_exists by blast
  have "\<not> holds (lit ''a1'') (sy_control s)" "cs_epoch (sy_control s) < u64_max"
    using s by (simp_all add: holds_def u64_max_def)
  from former_holder_refused [OF s(1,2) this(1) s(4) this(2), of sample_env "[(31, True)]" 9] s(5,6)
  show ?thesis by auto
qed

subsection \<open>Two interleavings\<close>

text \<open>
  A take that waits can be ended by a sweep: \<open>expire\<close> decides in one section and ends
  the lease in another, and by then the expired lease may have been displaced. The pending
  lease of the new tab is ended as \<open>heartbeat_lost\<close>, although it never was granted.
\<close>

theorem sweep_can_end_pending_take:
  "\<exists>s s' l. sys_reachable the_envs s \<and> sys_step the_envs s s'
     \<and> cs_lease (sy_control s) = Some l \<and> \<not> ls_granted l
     \<and> sy_takes s (ls_id l) = Some (MovedSends 1)
     \<and> cs_lease (sy_control s') = None
     \<and> loss_of (sy_control s') (ls_id l) = Lost (loss_for_reason HeartbeatLost)"
proof -
  let ?t = "sample_tick\<lparr>tk_now := 6000000000\<rparr>"
  define s1 where "s1 = run9\<lparr>sy_looked := [HeartbeatLost]\<rparr>"
  have "expire_reason 6000000000 300000000000 (sy_control run9) = Some HeartbeatLost"
    by (simp add: expire_reason_def run9_fields new_control_def granted_lease_def new_lease_def
        sample_tick_def HEARTBEAT_TIMEOUT_def)
  from sys_step.sweep_looks [OF this, of the_envs] have r1: "sys_reachable the_envs s1"
    by (auto simp: s1_def run9_fields intro: sys_reachable.step [OF run9_reachable])
  obtain tr c2 where c2: "take_start (lit ''b2'') (lit ''10.0.0.8'') ?t (sy_control run9) = (Some tr, c2)"
    using run9_displaced by blast
  define s2 where "s2 = set_take (lit ''b2'') (MovedSends (sy_next s1)) (open_transition tr (set_control c2 s1))"
  have "sys_step the_envs s1 s2"
    unfolding s2_def by (rule sys_step.take_move) (use c2 in \<open>simp_all add: s1_def run9_fields lit_def\<close>)
  with r1 have r2: "sys_reachable the_envs s2" by (rule sys_reachable.step)
  note l2 = take_start_Some [OF c2]
  obtain tr3 c3 where c3: "end_human HeartbeatLost ?t c2 = (Some tr3, c3)"
    using l2 end_human_some by blast
  define s3 where "s3 = open_transition tr3 (set_control c3 (s2\<lparr>sy_looked := remove1 HeartbeatLost (sy_looked s2)\<rparr>))"
  have "sys_step the_envs s2 s3"
    unfolding s3_def by (rule sys_step.sweep_ends) (use c3 in \<open>simp_all add: s2_def s1_def\<close>)
  moreover have "cs_lease c3 = None" "loss_of c3 (lit ''b2'') = Lost (loss_for_reason HeartbeatLost)"
    using c3 l2 by (auto simp: control_ops loss_of_def remember_def push_bounded_def)
  moreover have "sy_takes s2 (lit ''b2'') = Some (MovedSends 1)" by (simp add: s2_def s1_def run9_fields)
  moreover have "sy_control s2 = c2" "sy_control s3 = c3" by (simp_all add: s2_def s3_def)
  ultimately show ?thesis
    using r2 l2 by (intro exI [of _ s2] exI [of _ s3] exI [of _ "new_lease (lit ''b2'') (lit ''10.0.0.8'') ?t"]) simp
qed

text \<open>
  The control events of two tabs can be recorded out of order: the grant of a take from
  the agent is recorded after the state mutex is released, so the takeover that displaces
  the new holder can be recorded before the event that says it took control.
\<close>

theorem taken_recorded_after_takeover:
  "\<exists>s. sys_reachable the_envs s
     \<and> map ev_kind (take_last 2 (ring_events (cs_log (sy_control s))))
         = [ControlTakenOver (Human (lit ''10.0.0.7'')) (Human (lit ''10.0.0.8'')),
            ControlTaken (Human (lit ''10.0.0.7''))]"
proof -
  obtain tr c2 where c2: "take_start (lit ''b2'') (lit ''10.0.0.8'') sample_tick (sy_control run9) = (Some tr, c2)"
    using run9_displaced by blast
  define s2 where "s2 = set_take (lit ''b2'') (MovedSends (sy_next run9)) (open_transition tr (set_control c2 run9))"
  have "sys_step the_envs run9 s2"
    unfolding s2_def by (rule sys_step.take_move) (use c2 in \<open>simp_all add: run9_fields lit_def\<close>)
  then have r2: "sys_reachable the_envs s2" by (rule sys_reachable.step [OF run9_reachable])
  define s3 where "s3 = set_take (lit ''a1'') Over (set_control (take_recorded granted_lease sample_tick (sy_control s2)) s2)"
  have "sys_step the_envs s2 s3"
    unfolding s3_def by (rule sys_step.take_records) (simp add: s2_def run9_fields lit_def)
  with r2 have "sys_reachable the_envs s3" by (rule sys_reachable.step)
  moreover have "cs_log c2 = snd (record_event 3 5 Viewer (ControlTakenOver (Human (lit ''10.0.0.7'')) (Human (lit ''10.0.0.8'')))
      sample_log)"
    using c2 by (auto simp: run9_fields take_start_def granted_lease_def Let_def new_control_def advance_eq
        record_control_def lease_controller_def new_lease_def sample_tick_def remember_def)
  ultimately show ?thesis
    by (intro exI [of _ s3])
      (simp add: s3_def s2_def take_recorded_def record_control_def record_ring push_event_def sample_log_def
        new_session_events_def RING_CAPACITY_def take_last_def lease_controller_def granted_lease_def new_lease_def)
qed

end
