(* ===== verification/Json_Value.thy ===== *)
theory Json_Value
  imports Rd_Text "HOL-Library.List_Lexorder"
begin

text \<open>
  JSON values as \<^verbatim>\<open>serde_json\<close> has them (\<open>Value\<close>, with its default \<open>BTreeMap\<close>
  object: the entries in key order). The three number forms are distinct, as
  \<open>Number\<close>'s are; a float is the rational number it stands for.
\<close>

datatype json =
    JNull
  | JBool bool
  | JPosInt nat
  | JNegInt int
  | JFloat rat
  | JString ustr
  | JArray "json list"
  | JObject "(ustr \<times> json) list"

type_synonym json_object = "(ustr \<times> json) list"

fun as_object :: "json \<Rightarrow> json_object option" where
  "as_object (JObject o') = Some o'"
| "as_object _ = None"

fun as_str :: "json \<Rightarrow> ustr option" where
  "as_str (JString s) = Some s"
| "as_str _ = None"

fun as_array :: "json \<Rightarrow> json list option" where
  "as_array (JArray a) = Some a"
| "as_array _ = None"

fun as_bool :: "json \<Rightarrow> bool option" where
  "as_bool (JBool b) = Some b"
| "as_bool _ = None"

fun is_string :: "json \<Rightarrow> bool" where
  "is_string (JString _) = True"
| "is_string _ = False"

fun is_number :: "json \<Rightarrow> bool" where
  "is_number (JPosInt _) = True"
| "is_number (JNegInt _) = True"
| "is_number (JFloat _) = True"
| "is_number _ = False"

text \<open>\<open>Value::get\<close> with a key: \<open>None\<close> for anything that is not an object.\<close>

definition get_field :: "json \<Rightarrow> ustr \<Rightarrow> json option" where
  "get_field v k = Option.bind (as_object v) (\<lambda>o'. map_of o' k)"

text \<open>\<open>Map::remove\<close>, \<open>Map::insert\<close> and writing through \<open>get_mut\<close>.\<close>

definition object_remove :: "ustr \<Rightarrow> json_object \<Rightarrow> json_object" where
  "object_remove k o' = filter (\<lambda>(k', _). k' \<noteq> k) o'"

fun object_insert :: "ustr \<Rightarrow> json \<Rightarrow> json_object \<Rightarrow> json_object" where
  "object_insert k v [] = [(k, v)]"
| "object_insert k v ((k', v') # rest) =
     (if k < k' then (k, v) # (k', v') # rest
      else if k = k' then (k, v) # rest
      else (k', v') # object_insert k v rest)"

definition object_set :: "ustr \<Rightarrow> json \<Rightarrow> json_object \<Rightarrow> json_object" where
  "object_set k v o' = map (\<lambda>(k', v'). (k', if k' = k then v else v')) o'"

lemma map_of_remove [simp]: "map_of (object_remove k o') = (map_of o')(k := None)"
  unfolding object_remove_def by (induction o') auto

lemma map_of_insert [simp]: "map_of (object_insert k v o') = (map_of o')(k \<mapsto> v)"
  by (induction k v o' rule: object_insert.induct) auto

lemma map_of_set [simp]:
  "map_of (object_set k v o') = (if map_of o' k = None then map_of o' else (map_of o')(k \<mapsto> v))"
  unfolding object_set_def
proof (induction o')
  case (Cons x o')
  then show ?case by (cases x) (auto simp: fun_eq_iff)
qed simp

lemma object_set_same:
  "distinct (map fst o') \<Longrightarrow> map_of o' k = Some v \<Longrightarrow> object_set k v o' = o'"
  unfolding object_set_def by (rule map_idI) (auto dest: eq_key_imp_eq_value map_of_SomeD)

lemma object_remove_absent: "map_of o' k = None \<Longrightarrow> object_remove k o' = o'"
  unfolding object_remove_def by (induction o') (auto split: if_splits)

text \<open>Keys are in order and unique, everywhere in a value.\<close>

definition sorted_keys :: "json_object \<Rightarrow> bool" where
  "sorted_keys o' \<longleftrightarrow> sorted_wrt (<) (map fst o')"

lemma sorted_keys_distinct: "sorted_keys o' \<Longrightarrow> distinct (map fst o')"
  unfolding sorted_keys_def by (auto simp: strict_sorted_iff)

lemma set_object_insert: "set (map fst (object_insert k v o')) = insert k (set (map fst o'))"
  by (induction k v o' rule: object_insert.induct) auto

lemma sorted_keys_insert: "sorted_keys o' \<Longrightarrow> sorted_keys (object_insert k v o')"
  unfolding sorted_keys_def
proof (induction k v o' rule: object_insert.induct)
  case (2 k v k' v' rest)
  then show ?case using set_object_insert [of k v rest] by (auto simp: not_less_iff_gr_or_eq)
qed simp

lemma sorted_keys_remove: "sorted_keys o' \<Longrightarrow> sorted_keys (object_remove k o')"
  unfolding sorted_keys_def object_remove_def by (induction o') auto

lemma sorted_keys_set: "sorted_keys o' \<Longrightarrow> sorted_keys (object_set k v o')"
  unfolding sorted_keys_def object_set_def by (simp add: case_prod_beta o_def)

lemma sorted_keys_Nil [simp]: "sorted_keys []"
  by (simp add: sorted_keys_def)

end
