(* ===== verification/Cua_Gate.thy ===== *)
theory Cua_Gate
  imports Control_Facts Json_Value
begin

text \<open>
  The control gate on a Cua attachment, \<^verbatim>\<open>crates/rdpilot-daemon/src/ipc/cua_gate.rs\<close>:
  which tool calls of an MCP client may reach Cua while a human holds the lease, how
  \<open>takeover\<close> is added to tool lists and removed from calls, and how calls in flight are
  counted in the control lease.
\<close>

subsection \<open>Data\<close>

definition READ_ONLY_CUA_TOOLS :: "ustr list" where
  "READ_ONLY_CUA_TOOLS = map lit
     [''check_for_update'', ''check_permissions'', ''clipboard_read'', ''debug_window_info'',
      ''get_accessibility_tree'', ''get_agent_cursor_state'', ''get_browser_state'', ''get_config'',
      ''get_cursor_position'', ''get_desktop_state'', ''get_recording_state'', ''get_screen_size'',
      ''get_session'', ''get_session_state'', ''get_window_state'', ''list_apps'', ''list_sessions'',
      ''list_windows'', ''parse_visual_regions'', ''screenshot'', ''verify_state'', ''zoom'']"

definition CUA_PENDING_CAP :: nat where "CUA_PENDING_CAP = 64"
definition BATCH_REFUSED_CODE :: int where "BATCH_REFUSED_CODE = -32000"

definition BATCH_REFUSED_MESSAGE :: ustr where
  "BATCH_REFUSED_MESSAGE =
     lit ''batch not forwarded because it contains calls refused under human control; send read-only calls separately''"

definition is_acting :: "ustr \<Rightarrow> bool" where
  "is_acting name \<longleftrightarrow> name \<notin> set READ_ONLY_CUA_TOOLS"

definition takeover_property :: json where
  "takeover_property = JObject
     [(lit ''default'', JBool False),
      (lit ''description'', JString (lit ''Take control of this session from a human viewer before acting. Default false.'')),
      (lit ''type'', JString (lit ''boolean''))]"

datatype inbound_decision =
    Forward json
  | AnswerLocally json json
  | DropMessage

record call =
  call_acting :: bool
  call_takeover :: bool
  call_id :: "json option"

record gate =
  g_lists :: "json list"
  g_acting :: "json list"

definition new_gate :: gate where
  "new_gate = \<lparr>g_lists = [], g_acting = []\<rparr>"

subsection \<open>Messages from the caller\<close>

text \<open>A non-null \<open>id\<close>.\<close>

definition request_id :: "json_object \<Rightarrow> json option" where
  "request_id o' = (case map_of o' (lit ''id'') of Some i \<Rightarrow> if i = JNull then None else Some i | None \<Rightarrow> None)"

definition remember_list :: "json \<Rightarrow> gate \<Rightarrow> gate" where
  "remember_list i g = g\<lparr>g_lists := push_bounded CUA_PENDING_CAP i (g_lists g)\<rparr>"

definition tool_name :: "json option \<Rightarrow> ustr" where
  "tool_name params =
     (case Option.bind params (\<lambda>p. Option.bind (get_field p (lit ''name'')) as_str) of
        Some n \<Rightarrow> n | None \<Rightarrow> [])"

text \<open>The \<open>arguments\<close> object of a \<open>tools/call\<close>, and the message with \<open>takeover\<close> removed from it.\<close>

definition arguments :: "json_object \<Rightarrow> json_object option" where
  "arguments o' =
     Option.bind (map_of o' (lit ''params'')) (\<lambda>p.
     Option.bind (get_field p (lit ''arguments'')) as_object)"

definition strip_takeover :: "json_object \<Rightarrow> json_object" where
  "strip_takeover o' =
     (case (Option.bind (map_of o' (lit ''params'')) as_object, arguments o') of
        (Some p, Some args) \<Rightarrow>
          object_set (lit ''params'')
            (JObject (object_set (lit ''arguments'') (JObject (object_remove (lit ''takeover'') args)) p)) o'
      | _ \<Rightarrow> o')"

definition wants_takeover :: "json_object \<Rightarrow> bool" where
  "wants_takeover o' \<longleftrightarrow>
     Option.bind (arguments o') (\<lambda>args. map_of args (lit ''takeover'')) = Some (JBool True)"

definition inspect :: "json \<Rightarrow> gate \<Rightarrow> call option \<times> json \<times> gate" where
  "inspect message g =
     (case as_object message of
        None \<Rightarrow> (None, message, g)
      | Some o' \<Rightarrow>
          (case Option.bind (map_of o' (lit ''method'')) as_str of
             None \<Rightarrow> (None, message, g)
           | Some method \<Rightarrow>
               (let i = request_id o' in
                if method = lit ''tools/list'' then
                  (None, message, case i of Some i' \<Rightarrow> remember_list i' g | None \<Rightarrow> g)
                else if method \<noteq> lit ''tools/call'' then (None, message, g)
                else
                  (let name = tool_name (map_of o' (lit ''params''));
                       acting = is_acting name
                   in (Some \<lparr>call_acting = acting, call_takeover = acting \<and> wants_takeover o', call_id = i\<rparr>,
                       JObject (strip_takeover o'), g)))))"

fun inspect_all :: "json list \<Rightarrow> gate \<Rightarrow> call list \<times> json list \<times> gate" where
  "inspect_all [] g = ([], [], g)"
| "inspect_all (m # ms) g =
     (let (c, m', g1) = inspect m g; (cs, ms', g2) = inspect_all ms g1
      in ((case c of Some c' \<Rightarrow> [c'] | None \<Rightarrow> []) @ cs, m' # ms', g2))"

definition inspect_message :: "json \<Rightarrow> gate \<Rightarrow> call list \<times> json \<times> gate" where
  "inspect_message message g =
     (case message of
        JArray items \<Rightarrow> (let (cs, items', g') = inspect_all items g in (cs, JArray items', g'))
      | _ \<Rightarrow> (let (c, m', g') = inspect message g in (case c of Some c' \<Rightarrow> [c'] | None \<Rightarrow> [], m', g')))"

text \<open>\<open>VecDeque::position\<close> and \<open>remove\<close>: the first occurrence.\<close>

definition forget_acting :: "json \<Rightarrow> gate \<times> control \<Rightarrow> gate \<times> control" where
  "forget_acting i s =
     (let (g, c) = s in
      if i \<in> set (g_acting g) then (g\<lparr>g_acting := remove1 i (g_acting g)\<rparr>, cua_finished 1 c) else (g, c))"

definition remember_acting :: "json \<Rightarrow> gate \<times> control \<Rightarrow> gate \<times> control" where
  "remember_acting i s =
     (let (g1, c1) = forget_acting i s;
          (g2, c2) = (if CUA_PENDING_CAP \<le> length (g_acting g1)
                      then (g1\<lparr>g_acting := tl (g_acting g1)\<rparr>, cua_finished 1 c1) else (g1, c1))
      in (g2\<lparr>g_acting := g_acting g2 @ [i]\<rparr>, c2))"

definition refused_reply :: "json \<Rightarrow> ustr \<Rightarrow> json option" where
  "refused_reply message text' =
     (case get_field message (lit ''id'') of
        None \<Rightarrow> None
      | Some i \<Rightarrow>
          if i = JNull then None
          else
            (let acting = Option.bind (get_field message (lit ''method'')) as_str = Some (lit ''tools/call'')
                          \<and> is_acting (tool_name (get_field message (lit ''params'')))
             in Some (if acting
                then JObject
                  [(lit ''id'', i), (lit ''jsonrpc'', JString (lit ''2.0'')),
                   (lit ''result'', JObject
                      [(lit ''content'', JArray [JObject [(lit ''text'', JString text'), (lit ''type'', JString (lit ''text''))]]),
                       (lit ''isError'', JBool True)])]
                else JObject
                  [(lit ''error'', JObject
                      [(lit ''code'', JNegInt BATCH_REFUSED_CODE), (lit ''message'', JString BATCH_REFUSED_MESSAGE)]),
                   (lit ''id'', i), (lit ''jsonrpc'', JString (lit ''2.0''))])))"

definition answered_ids :: "call list \<Rightarrow> json list" where
  "answered_ids calls = List.map_filter call_id (filter call_acting calls)"

definition inbound ::
  "tick \<Rightarrow> json \<Rightarrow> gate \<times> control \<Rightarrow> (inbound_decision \<times> transition option) \<times> gate \<times> control" where
  "inbound t message s =
     (let (g, c) = s; (calls, message', g1) = inspect_message message g in
      if \<not> list_ex call_acting calls then ((Forward message', None), (g1, c))
      else
        (let takeover = list_ex call_takeover calls; answered = answered_ids calls
         in case admit_cua (length answered) takeover t c of
              (Inr transition, c1) \<Rightarrow> ((Forward message', transition), fold remember_acting answered (g1, c1))
            | (Inl refusal, c1) \<Rightarrow>
                (case message' of
                   JArray items \<Rightarrow>
                     (let replies = List.map_filter (\<lambda>item. refused_reply item refusal) items
                      in if replies = [] then ((DropMessage, None), (g1, c1))
                         else ((AnswerLocally message' (JArray replies), None), (g1, c1)))
                 | _ \<Rightarrow>
                     (case refused_reply message' refusal of
                        Some reply \<Rightarrow> ((AnswerLocally message' reply, None), (g1, c1))
                      | None \<Rightarrow> ((DropMessage, None), (g1, c1))))))"

subsection \<open>Messages from Cua\<close>

definition patch_tool :: "json \<Rightarrow> json" where
  "patch_tool tool =
     (case as_object tool of
        None \<Rightarrow> tool
      | Some o' \<Rightarrow>
          if \<not> (case Option.bind (map_of o' (lit ''name'')) as_str of Some n \<Rightarrow> is_acting n | None \<Rightarrow> False) then tool
          else
            (case Option.bind (map_of o' (lit ''inputSchema'')) as_object of
               None \<Rightarrow> tool
             | Some schema \<Rightarrow>
                 (let schema1 = (if map_of schema (lit ''properties'') = None
                                 then object_insert (lit ''properties'') (JObject []) schema else schema);
                      schema2 = (case Option.bind (map_of schema1 (lit ''properties'')) as_object of
                                   Some props \<Rightarrow>
                                     object_set (lit ''properties'')
                                       (JObject (object_insert (lit ''takeover'') takeover_property props)) schema1
                                 | None \<Rightarrow> schema1)
                  in JObject (object_set (lit ''inputSchema'') (JObject schema2) o'))))"

text \<open>The tool list of a \<open>tools/list\<close> result, patched.\<close>

definition patch_list :: "json_object \<Rightarrow> json_object" where
  "patch_list o' =
     (case Option.bind (map_of o' (lit ''result'')) as_object of
        None \<Rightarrow> o'
      | Some r \<Rightarrow>
          (case Option.bind (map_of r (lit ''tools'')) as_array of
             None \<Rightarrow> o'
           | Some tools \<Rightarrow>
               object_set (lit ''result'')
                 (JObject (object_set (lit ''tools'') (JArray (map patch_tool tools)) r)) o'))"

definition response :: "json \<Rightarrow> gate \<times> control \<Rightarrow> json \<times> gate \<times> control" where
  "response message s =
     (case as_object message of
        None \<Rightarrow> (message, s)
      | Some o' \<Rightarrow>
          if map_of o' (lit ''method'') \<noteq> None
             \<or> \<not> (map_of o' (lit ''result'') \<noteq> None \<or> map_of o' (lit ''error'') \<noteq> None)
          then (message, s)
          else
            (case map_of o' (lit ''id'') of
               None \<Rightarrow> (message, s)
             | Some i \<Rightarrow>
                 (let (g1, c1) = forget_acting i s in
                  if i \<in> set (g_lists g1)
                  then (JObject (patch_list o'), (g1\<lparr>g_lists := remove1 i (g_lists g1)\<rparr>, c1))
                  else (message, (g1, c1)))))"

fun response_all :: "json list \<Rightarrow> gate \<times> control \<Rightarrow> json list \<times> gate \<times> control" where
  "response_all [] s = ([], s)"
| "response_all (m # ms) s =
     (let (m', s1) = response m s; (ms', s2) = response_all ms s1 in (m' # ms', s2))"

definition outbound :: "json \<Rightarrow> gate \<times> control \<Rightarrow> json \<times> gate \<times> control" where
  "outbound message s =
     (case message of
        JArray items \<Rightarrow> (let (items', s') = response_all items s in (JArray items', s'))
      | _ \<Rightarrow> response message s)"

definition drop_gate :: "gate \<times> control \<Rightarrow> control" where
  "drop_gate s = cua_finished (length (g_acting (fst s))) (snd s)"


subsection \<open>The interface of an in-flight ledger\<close>

text \<open>
  A client that keeps the ids of its open calls (at most \<open>cap\<close>, no two equal) and counts
  them in a shared counter. \<open>settle\<close> takes one id out of both; \<open>remember\<close> puts an id in
  whose count was added before. Whatever it drops (an id used again, the oldest id when
  full) leaves the counter as well.
\<close>

locale in_flight_ledger =
  fixes ids :: "'s \<Rightarrow> 'id list"
    and count :: "'s \<Rightarrow> nat"
    and remember :: "'id \<Rightarrow> 's \<Rightarrow> 's"
    and settle :: "'id \<Rightarrow> 's \<Rightarrow> 's"
    and cap :: nat
  assumes settle_ids: "ids (settle i s) = remove1 i (ids s)"
    and settle_count: "count (settle i s) = count s - (if i \<in> set (ids s) then 1 else 0)"
    and remember_ids: "length (ids s) \<le> cap \<Longrightarrow> ids (remember i s) = take_last cap (remove1 i (ids s) @ [i])"
    and remember_count: "length (ids s) < count s \<Longrightarrow>
          count (remember i s) + length (ids s) + 1 = count s + length (ids (remember i s))"
begin

definition owing :: "nat \<Rightarrow> nat \<Rightarrow> 's \<Rightarrow> bool" where
  "owing b k s \<longleftrightarrow> count s = b + length (ids s) + k \<and> distinct (ids s) \<and> length (ids s) \<le> cap"

lemma owing_settle: "owing b k s \<Longrightarrow> owing b k (settle i s)"
proof (cases "i \<in> set (ids s)")
  case True
  then obtain n where "length (ids s) = Suc n" by (cases "ids s") auto
  with True show "owing b k s \<Longrightarrow> ?thesis" by (auto simp: owing_def settle_ids settle_count length_remove1)
qed (simp add: owing_def settle_ids settle_count remove1_idem)

lemma owing_remember:
  assumes "owing b (Suc k) s"
  shows "owing b k (remember i s)"
proof -
  from assms have len: "length (ids s) \<le> cap" and d: "distinct (ids s)" by (simp_all add: owing_def)
  from assms have "count (remember i s) + length (ids s) + 1 = count s + length (ids (remember i s))"
    by (intro remember_count) (simp add: owing_def)
  moreover have "distinct (remove1 i (ids s) @ [i])" using d by (simp add: distinct_remove1)
  then have "distinct (ids (remember i s))" using len by (simp add: remember_ids take_last_def distinct_drop del: drop_append)
  moreover have "length (ids (remember i s)) \<le> cap" using len by (simp add: remember_ids)
  ultimately show ?thesis using assms by (simp add: owing_def)
qed

lemma owing_remembers: "owing b (length is) s \<Longrightarrow> owing b 0 (fold remember is s)"
  by (induction "is" arbitrary: s) (auto intro: owing_remember)

lemma newest_remembered: "0 < cap \<Longrightarrow> length (ids s) \<le> cap \<Longrightarrow> i \<in> set (ids (remember i s))"
  by (simp add: remember_ids take_last_def)

end

lemma cua_finished_inflight [simp]: "cs_inflight (cua_finished k c) = cs_inflight c - k"
  by (simp add: cua_finished_def)

lemma forget_acting_ids: "g_acting (fst (forget_acting i s)) = remove1 i (g_acting (fst s))"
  by (auto simp: forget_acting_def Let_def remove1_idem split: prod.split)

lemma forget_acting_count:
  "cs_inflight (snd (forget_acting i s)) = cs_inflight (snd s) - (if i \<in> set (g_acting (fst s)) then 1 else 0)"
  by (auto simp: forget_acting_def Let_def split: prod.split)

lemma forget_acting_lists [simp]: "g_lists (fst (forget_acting i s)) = g_lists (fst s)"
  by (auto simp: forget_acting_def Let_def split: prod.split)

lemma remember_acting_eq:
  "fst (remember_acting i s) = (fst (forget_acting i s))\<lparr>g_acting :=
     (if CUA_PENDING_CAP \<le> length (g_acting (fst (forget_acting i s)))
      then tl (g_acting (fst (forget_acting i s))) else g_acting (fst (forget_acting i s))) @ [i]\<rparr>"
  "cs_inflight (snd (remember_acting i s)) = cs_inflight (snd (forget_acting i s))
     - (if CUA_PENDING_CAP \<le> length (g_acting (fst (forget_acting i s))) then 1 else 0)"
  by (auto simp: remember_acting_def Let_def split: prod.split)


interpretation ledger: in_flight_ledger
  "\<lambda>s. g_acting (fst s)" "\<lambda>s. cs_inflight (snd s)" remember_acting forget_acting CUA_PENDING_CAP
proof
  fix i :: json and s :: "gate \<times> control"
  let ?ids = "g_acting (fst s)"
  show "g_acting (fst (forget_acting i s)) = remove1 i ?ids" by (rule forget_acting_ids)
  show "cs_inflight (snd (forget_acting i s)) = cs_inflight (snd s) - (if i \<in> set ?ids then 1 else 0)"
    by (rule forget_acting_count)
  show "g_acting (fst (remember_acting i s)) = take_last CUA_PENDING_CAP (remove1 i ?ids @ [i])"
    if "length ?ids \<le> CUA_PENDING_CAP"
  proof -
    have "length (remove1 i ?ids) \<le> CUA_PENDING_CAP" using that by (auto simp: length_remove1)
    then have "push_bounded CUA_PENDING_CAP i (remove1 i ?ids) = take_last CUA_PENDING_CAP (remove1 i ?ids @ [i])"
      by (intro push_bounded_take_last) (simp_all add: CUA_PENDING_CAP_def)
    moreover have "g_acting (fst (remember_acting i s)) = push_bounded CUA_PENDING_CAP i (remove1 i ?ids)"
      by (simp add: remember_acting_eq forget_acting_ids push_bounded_def)
    ultimately show ?thesis by simp
  qed
  show "cs_inflight (snd (remember_acting i s)) + length ?ids + 1
      = cs_inflight (snd s) + length (g_acting (fst (remember_acting i s)))"
    if "length ?ids < cs_inflight (snd s)"
  proof -
    show ?thesis
    proof (cases "i \<in> set ?ids")
      case True
      then obtain k where "length ?ids = Suc k" by (cases ?ids) auto
      with True that show ?thesis
        by (simp add: remember_acting_eq forget_acting_ids forget_acting_count length_remove1 CUA_PENDING_CAP_def) arith
    next
      case False
      with that show ?thesis
        by (simp add: remember_acting_eq forget_acting_ids forget_acting_count CUA_PENDING_CAP_def remove1_idem)
    qed
  qed
qed

interpretation lists: bounded_queue g_lists remember_list CUA_PENDING_CAP
proof
  show "0 < CUA_PENDING_CAP" by (simp add: CUA_PENDING_CAP_def)
  show "g_lists (remember_list i g) = take_last CUA_PENDING_CAP (g_lists g @ [i])"
    if "length (g_lists g) \<le> CUA_PENDING_CAP" for i g
    using that by (simp add: remember_list_def push_bounded_take_last CUA_PENDING_CAP_def)
qed

subsection \<open>What a message leaves in the gate\<close>

lemma remember_list_acting [simp]: "g_acting (remember_list i g) = g_acting g"
  by (simp add: remember_list_def)

lemma inspect_gate: "g_acting (snd (snd (inspect m g))) = g_acting g
    \<and> (length (g_lists g) \<le> CUA_PENDING_CAP \<longrightarrow> length (g_lists (snd (snd (inspect m g)))) \<le> CUA_PENDING_CAP)"
  by (auto simp: inspect_def Let_def lists.push_bound split: option.splits)

lemma inspect_all_gate: "g_acting (snd (snd (inspect_all ms g))) = g_acting g
    \<and> (length (g_lists g) \<le> CUA_PENDING_CAP \<longrightarrow> length (g_lists (snd (snd (inspect_all ms g)))) \<le> CUA_PENDING_CAP)"
proof (induction ms arbitrary: g)
  case (Cons m ms)
  from Cons [of "snd (snd (inspect m g))"] inspect_gate [of m g] show ?case
    by (simp add: Let_def case_prod_beta)
qed simp

lemma inspect_message_gate: "g_acting (snd (snd (inspect_message m g))) = g_acting g
    \<and> (length (g_lists g) \<le> CUA_PENDING_CAP \<longrightarrow> length (g_lists (snd (snd (inspect_message m g)))) \<le> CUA_PENDING_CAP)"
  using inspect_gate [of m g] inspect_all_gate [of _ g]
  by (auto simp: inspect_message_def Let_def case_prod_beta split: json.split)

lemma remember_acting_lists: "g_lists (fst (fold remember_acting is s)) = g_lists (fst s)"
  by (induction "is" arbitrary: s) (simp_all add: remember_acting_eq)

lemma takeover_locked_inflight: "cs_inflight (snd (agent_takeover_locked src t c)) = cs_inflight c"
  by (simp add: agent_takeover_locked_def end_lease_def advance_eq new_transition_eq Let_def split: option.split)

lemma admit_cua_inflight:
  "cs_inflight (snd (admit_cua k takeover t c)) =
     cs_inflight c + (case fst (admit_cua k takeover t c) of Inr _ \<Rightarrow> k | Inl _ \<Rightarrow> 0)"
  by (simp add: admit_cua_def Let_def case_prod_beta takeover_locked_inflight split: option.split)

lemma admit_cua_refused: "admit_cua k takeover t c = (Inl r, c') \<Longrightarrow>
    c' = c \<and> \<not> takeover \<and> (\<exists>l. cs_lease c = Some l \<and> r = mcp_refusal (cs_session c) l)"
  by (auto simp: admit_cua_def Let_def split: option.splits if_splits prod.splits)


subsection \<open>What a message is\<close>

fun elements :: "json \<Rightarrow> json list" where
  "elements (JArray items) = items"
| "elements m = [m]"

definition method_of :: "json \<Rightarrow> ustr option" where
  "method_of m = Option.bind (get_field m (lit ''method'')) as_str"

definition is_call :: "json \<Rightarrow> bool" where
  "is_call m \<longleftrightarrow> method_of m = Some (lit ''tools/call'')"

definition acting_call :: "json \<Rightarrow> bool" where
  "acting_call m \<longleftrightarrow> is_call m \<and> is_acting (tool_name (get_field m (lit ''params'')))"

definition asks_takeover :: "json \<Rightarrow> bool" where
  "asks_takeover m \<longleftrightarrow> acting_call m \<and> (\<exists>o'. m = JObject o' \<and> wants_takeover o')"

definition message_id :: "json \<Rightarrow> json option" where
  "message_id m = (case get_field m (lit ''id'') of Some i \<Rightarrow> if i = JNull then None else Some i | None \<Rightarrow> None)"

text \<open>The message without \<open>takeover\<close>, which is what Cua may see.\<close>

definition strip :: "json \<Rightarrow> json" where
  "strip m = (case m of JObject o' \<Rightarrow> if is_call m then JObject (strip_takeover o') else m | _ \<Rightarrow> m)"

definition strip_message :: "json \<Rightarrow> json" where
  "strip_message m = (case m of JArray items \<Rightarrow> JArray (map strip items) | _ \<Rightarrow> strip m)"

definition describe_call :: "json \<Rightarrow> call list" where
  "describe_call m =
     (if is_call m then [\<lparr>call_acting = acting_call m, call_takeover = asks_takeover m, call_id = message_id m\<rparr>]
      else [])"

lemma get_field_object [simp]: "get_field (JObject o') k = map_of o' k"
  by (simp add: get_field_def)

lemma get_field_other [simp]: "as_object m = None \<Longrightarrow> get_field m k = None"
  by (simp add: get_field_def)

lemma call_not_list: "lit ''tools/list'' \<noteq> lit ''tools/call''"
  by (simp add: lit_def)

lemma as_object_Some: "as_object m = Some o' \<longleftrightarrow> m = JObject o'"
  by (cases m) auto

lemma inspect_eq:
  "(case fst (inspect m g) of Some c \<Rightarrow> [c] | None \<Rightarrow> []) = describe_call m \<and> fst (snd (inspect m g)) = strip m"
proof (cases "as_object m")
  case None
  then have "\<not> is_call m" by (simp add: is_call_def method_of_def)
  with None show ?thesis by (simp add: inspect_def describe_call_def strip_def split: json.split) auto
next
  case (Some o')
  then have m: "m = JObject o'" by (simp add: as_object_Some)
  show ?thesis
  proof (cases "method_of m = Some (lit ''tools/call'')")
    case True
    then have "Option.bind (map_of o' (lit ''method'')) as_str = Some (lit ''tools/call'')"
      by (simp add: method_of_def m)
    with True show ?thesis
      using call_not_list
      by (simp add: inspect_def m describe_call_def is_call_def strip_def acting_call_def asks_takeover_def
          message_id_def request_id_def Let_def)
  next
    case False
    then have "Option.bind (map_of o' (lit ''method'')) as_str \<noteq> Some (lit ''tools/call'')"
      by (simp add: method_of_def m)
    with False show ?thesis
      by (auto simp: inspect_def m describe_call_def is_call_def strip_def Let_def split: option.split)
  qed
qed

lemma inspect_all_eq:
  "fst (inspect_all ms g) = concat (map describe_call ms) \<and> fst (snd (inspect_all ms g)) = map strip ms"
proof (induction ms arbitrary: g)
  case (Cons m ms)
  from Cons [of "snd (snd (inspect m g))"] inspect_eq [of m g] show ?case
    by (simp add: Let_def case_prod_beta)
qed simp

lemma inspect_message_eq:
  "fst (inspect_message m g) = concat (map describe_call (elements m))"
  "fst (snd (inspect_message m g)) = strip_message m"
  using inspect_eq [of m g] inspect_all_eq [of _ g]
  by (auto simp: inspect_message_def strip_message_def Let_def case_prod_beta split: json.split)

lemma acting_elements: "list_ex call_acting (concat (map describe_call ms)) = list_ex acting_call ms"
  by (induction ms) (auto simp: describe_call_def acting_call_def)

lemma takeover_elements: "list_ex call_takeover (concat (map describe_call ms)) = list_ex asks_takeover ms"
  by (induction ms) (auto simp: describe_call_def asks_takeover_def acting_call_def)

definition acting_ids :: "json \<Rightarrow> json list" where
  "acting_ids m = List.map_filter message_id (filter acting_call (elements m))"

lemma answered_elements: "answered_ids (concat (map describe_call ms)) = List.map_filter message_id (filter acting_call ms)"
  by (induction ms) (auto simp: answered_ids_def describe_call_def acting_call_def List.map_filter_simps split: option.split)

text \<open>The gate on one message, in terms of its elements.\<close>

lemma inbound_passes:
  assumes "\<not> list_ex acting_call (elements m)"
  shows "inbound t m (g, c) = ((Forward (strip_message m), None), (snd (snd (inspect_message m g)), c))"
  using assms inspect_message_eq [of m g]
  by (cases "inspect_message m g") (simp add: inbound_def acting_elements Let_def)

lemma inbound_admitted:
  assumes "list_ex acting_call (elements m)"
    and "admit_cua (length (acting_ids m)) (list_ex asks_takeover (elements m)) t c = (Inr tr, c')"
  shows "inbound t m (g, c) = ((Forward (strip_message m), tr),
     fold remember_acting (acting_ids m) (snd (snd (inspect_message m g)), c'))"
  using assms inspect_message_eq [of m g]
  by (cases "inspect_message m g")
    (simp add: inbound_def acting_elements takeover_elements answered_elements acting_ids_def Let_def)

lemma refused_reply_id: "refused_reply m msg = Some r \<Longrightarrow> get_field r (lit ''id'') = message_id m \<and> message_id m \<noteq> None"
  by (auto simp: refused_reply_def message_id_def Let_def lit_def split: option.splits if_splits)

lemma refused_reply_None: "refused_reply m msg = None \<longleftrightarrow> message_id m = None"
  by (auto simp: refused_reply_def message_id_def Let_def split: option.splits)

lemma refused_replies:
  "map (\<lambda>r. get_field r (lit ''id'')) (List.map_filter (\<lambda>x. refused_reply x msg) ms)
     = map Some (List.map_filter message_id ms)"
proof (induction ms)
  case (Cons m ms)
  then show ?case
    using refused_reply_id [of m msg] refused_reply_None [of m msg]
    by (cases "refused_reply m msg") (auto simp: List.map_filter_simps)
qed (simp add: List.map_filter_simps)

lemma method_of_object: "method_of (JObject o') = Option.bind (map_of o' (lit ''method'')) as_str"
  by (simp add: method_of_def)

lemma strip_takeover_fields:
  "k \<noteq> lit ''params'' \<Longrightarrow> map_of (strip_takeover o') k = map_of o' k"
  by (auto simp: strip_takeover_def split: option.split)

lemma lit_keys [simp]:
  "lit ''method'' \<noteq> lit ''params''" "lit ''id'' \<noteq> lit ''params''" "lit ''name'' \<noteq> lit ''arguments''"
  "lit ''takeover'' \<noteq> lit ''name''"
  by (simp_all add: lit_def)

lemma strip_is_call [simp]: "is_call (strip m) = is_call m"
  by (auto simp: strip_def is_call_def method_of_object strip_takeover_fields split: json.split)

lemma strip_message_id [simp]: "message_id (strip m) = message_id m"
  by (auto simp: strip_def message_id_def strip_takeover_fields split: json.split)

lemma arguments_strip:
  "arguments (strip_takeover o') = map_option (object_remove (lit ''takeover'')) (arguments o')"
proof (cases "map_of o' (lit ''params'')")
  case (Some p)
  show ?thesis
  proof (cases p)
    case (JObject p')
    show ?thesis
    proof (cases "arguments o'")
      case (Some args)
      with \<open>map_of o' (lit ''params'') = Some p\<close> JObject
      have "map_of p' (lit ''arguments'') = Some (JObject args)"
        by (auto simp: arguments_def as_object_Some bind_eq_Some_conv)
      with Some \<open>map_of o' (lit ''params'') = Some p\<close> JObject show ?thesis
        by (simp add: strip_takeover_def arguments_def)
    next
      case None
      with \<open>map_of o' (lit ''params'') = Some p\<close> JObject show ?thesis by (simp add: strip_takeover_def)
    qed
  qed (use Some in \<open>simp_all add: strip_takeover_def arguments_def\<close>)
qed (simp add: strip_takeover_def arguments_def)

lemma strip_no_takeover:
  "is_call x \<Longrightarrow> strip x = JObject o' \<Longrightarrow> arguments o' = Some args \<Longrightarrow> map_of args (lit ''takeover'') = None"
  by (auto simp: strip_def arguments_strip split: json.splits)

lemma elements_strip: "elements (strip_message m) = map strip (elements m)"
proof (cases m)
  case (JObject o')
  then show ?thesis by (simp add: strip_message_def) (simp add: strip_def)
qed (simp_all add: strip_message_def strip_def)

definition local_answer :: "json \<Rightarrow> ustr \<Rightarrow> inbound_decision" where
  "local_answer m msg =
     (case m of
        JArray items \<Rightarrow>
          (let replies = List.map_filter (\<lambda>x. refused_reply x msg) items
           in if replies = [] then DropMessage else AnswerLocally m (JArray replies))
      | _ \<Rightarrow> (case refused_reply m msg of Some reply \<Rightarrow> AnswerLocally m reply | None \<Rightarrow> DropMessage))"

lemma inbound_refused:
  assumes "list_ex acting_call (elements m)"
    and "admit_cua (length (acting_ids m)) (list_ex asks_takeover (elements m)) t c = (Inl msg, c')"
  shows "inbound t m (g, c) = ((local_answer (strip_message m) msg, None), (snd (snd (inspect_message m g)), c'))"
proof -
  obtain g' where "inspect_message m g = (concat (map describe_call (elements m)), strip_message m, g')"
    using inspect_message_eq [of m g] by (cases "inspect_message m g") auto
  with assms show ?thesis
    by (simp add: inbound_def acting_elements takeover_elements answered_elements acting_ids_def Let_def
        local_answer_def split: json.split option.split)
qed

lemma map_filter_id_strip: "List.map_filter message_id (map strip ms) = List.map_filter message_id ms"
  by (induction ms) (simp_all add: List.map_filter_simps split: option.split)

lemma local_answer_replies:
  assumes "\<exists>o'. m = JObject o' \<or> (\<exists>items. m = JArray items)"
  shows "case local_answer m msg of
      AnswerLocally req r \<Rightarrow> req = m
        \<and> map (\<lambda>x. get_field x (lit ''id'')) (elements r) = map Some (List.map_filter message_id (elements m))
    | Forward m' \<Rightarrow> False
    | DropMessage \<Rightarrow> List.map_filter message_id (elements m) = []"
proof (cases m)
  case (JArray items)
  have "map (\<lambda>r. get_field r (lit ''id'')) (List.map_filter (\<lambda>x. refused_reply x msg) items)
      = map Some (List.map_filter message_id items)" by (rule refused_replies)
  with JArray show ?thesis by (auto simp: local_answer_def Let_def)
next
  case (JObject o')
  show ?thesis
  proof (cases "refused_reply m msg")
    case None
    with JObject refused_reply_None [of m msg] show ?thesis
      by (simp add: local_answer_def List.map_filter_simps)
  next
    case (Some r)
    then have "elements r = [r]" by (auto simp: refused_reply_def Let_def split: option.splits if_splits)
    with Some JObject refused_reply_id [OF Some] show ?thesis
      by (auto simp: local_answer_def List.map_filter_simps)
  qed
qed (use assms in auto)

lemma local_answer_not_forward [simp]: "local_answer m msg \<noteq> Forward m'" "Forward m' \<noteq> local_answer m msg"
  by (auto simp: local_answer_def Let_def split: json.splits option.splits if_splits)

lemma admit_cua_takeover: "cs_lease c = Some l \<Longrightarrow> \<exists>tr c1. admit_cua k True t c = (Inr tr, c1)"
  by (auto simp: admit_cua_def Let_def split: prod.split)

lemma acting_call_object: "acting_call x \<Longrightarrow> \<exists>o'. x = JObject o'"
  by (cases x) (auto simp: acting_call_def is_call_def method_of_def)

lemma strip_object: "\<exists>p. strip (JObject o') = JObject p"
  by (simp add: strip_def)

lemma acting_message_shape:
  assumes "list_ex acting_call (elements m)"
  shows "\<exists>o'. strip_message m = JObject o' \<or> (\<exists>items. strip_message m = JArray items)"
proof (cases m)
  case (JObject o')
  with strip_object [of o'] show ?thesis by (auto simp: strip_message_def)
qed (use assms in \<open>auto simp: strip_message_def acting_call_def is_call_def method_of_def\<close>)

subsection \<open>Properties\<close>

text \<open>One gate and the other tasks that share its control lease.\<close>

inductive gate_run :: "nat \<Rightarrow> gate \<times> control \<Rightarrow> bool" where
  fresh: "gate_run (cs_inflight c) (new_gate, c)"
| caller: "gate_run b s \<Longrightarrow> gate_run b (snd (inbound t m s))"
| cua: "gate_run b s \<Longrightarrow> gate_run b (snd (outbound m s))"
| others: "gate_run b (g, c) \<Longrightarrow> cs_inflight c' = b' + length (g_acting g) \<Longrightarrow> gate_run b' (g, c')"

definition gate_ok :: "nat \<Rightarrow> gate \<times> control \<Rightarrow> bool" where
  "gate_ok b s \<longleftrightarrow> ledger.owing b 0 s \<and> length (g_lists (fst s)) \<le> CUA_PENDING_CAP"

lemma gate_ok_inbound: "gate_ok b s \<Longrightarrow> gate_ok b (snd (inbound t m s))"
proof -
  assume ok: "gate_ok b s"
  obtain g c where s: "s = (g, c)" by fastforce
  let ?g = "snd (snd (inspect_message m g))"
  from ok inspect_message_gate [of m g] have g: "g_acting ?g = g_acting g" "length (g_lists ?g) \<le> CUA_PENDING_CAP"
    by (simp_all add: gate_ok_def s)
  show ?thesis
  proof (cases "list_ex acting_call (elements m)")
    case False
    from inbound_passes [OF this] ok g show ?thesis by (simp add: gate_ok_def ledger.owing_def s)
  next
    case True
    obtain r c' where a: "admit_cua (length (acting_ids m)) (list_ex asks_takeover (elements m)) t c = (r, c')"
      by fastforce
    show ?thesis
    proof (cases r)
      case (Inl msg)
      with a have "c' = c" by (simp add: admit_cua_refused)
      with inbound_refused [OF True a [unfolded Inl]] ok g show ?thesis
        by (simp add: gate_ok_def ledger.owing_def s)
    next
      case (Inr tr)
      from admit_cua_inflight [of "length (acting_ids m)" "list_ex asks_takeover (elements m)" t c] a Inr
      have "cs_inflight c' = cs_inflight c + length (acting_ids m)" by simp
      with ok g have "ledger.owing b (length (acting_ids m)) (?g, c')"
        by (simp add: gate_ok_def ledger.owing_def s)
      then have "ledger.owing b 0 (fold remember_acting (acting_ids m) (?g, c'))" by (rule ledger.owing_remembers)
      with inbound_admitted [OF True a [unfolded Inr], of g] g show ?thesis
        by (simp add: gate_ok_def s remember_acting_lists)
    qed
  qed
qed

lemma gate_ok_forget: "gate_ok b s \<Longrightarrow> gate_ok b (forget_acting i s)"
  by (simp add: gate_ok_def ledger.owing_settle)

lemma gate_ok_response: "gate_ok b s \<Longrightarrow> gate_ok b (snd (response m s))"
proof -
  assume ok: "gate_ok b s"
  have "gate_ok b (g1\<lparr>g_lists := remove1 i (g_lists g1)\<rparr>, c1)" if "forget_acting i s = (g1, c1)" for i g1 c1
    using gate_ok_forget [OF ok, of i] that
    by (auto simp: gate_ok_def ledger.owing_def length_remove1)
  moreover have "gate_ok b (g1, c1)" if "forget_acting i s = (g1, c1)" for i g1 c1
    using gate_ok_forget [OF ok, of i] that by simp
  ultimately show ?thesis
    using ok by (auto simp: response_def Let_def split: option.splits prod.splits)
qed

lemma gate_ok_outbound: "gate_ok b s \<Longrightarrow> gate_ok b (snd (outbound m s))"
proof -
  have all: "gate_ok b s \<Longrightarrow> gate_ok b (snd (response_all ms s))" for ms
  proof (induction ms arbitrary: s)
    case (Cons m ms)
    from gate_ok_response [OF Cons(2), of m] Cons(1) [of "snd (response m s)"] show ?case
      by (simp add: Let_def case_prod_beta)
  qed simp
  show "gate_ok b s \<Longrightarrow> ?thesis"
    using all gate_ok_response [of b s m] by (cases m) (simp_all add: outbound_def Let_def case_prod_beta)
qed

lemma gate_run_ok: "gate_run b s \<Longrightarrow> gate_ok b s"
proof (induction rule: gate_run.induct)
  case (fresh c)
  then show ?case by (simp add: gate_ok_def ledger.owing_def new_gate_def)
next
  case (others b g c c' b')
  then show ?case by (simp add: gate_ok_def ledger.owing_def)
qed (simp_all add: gate_ok_inbound gate_ok_outbound)

text \<open>
  C3. The in-flight count of the lease is exact: whatever messages pass the gate in either
  direction (ids used again, batches, answers nobody waits for, more than 64 open calls),
  the count is the share of the other tasks plus the calls this gate remembers, which are
  distinct and at most 64; when the gate is dropped exactly the others' share is left.
\<close>

theorem in_flight_exact:
  assumes "gate_run b (g, c)"
  shows "cs_inflight c = b + length (g_acting g) \<and> distinct (g_acting g)
    \<and> length (g_acting g) \<le> CUA_PENDING_CAP \<and> length (g_lists g) \<le> CUA_PENDING_CAP
    \<and> cs_inflight (drop_gate (g, c)) = b"
  using gate_run_ok [OF assms] by (simp add: gate_ok_def ledger.owing_def drop_gate_def)

definition sample_call :: "json \<Rightarrow> json \<Rightarrow> json" where
  "sample_call i args = JObject
     [(lit ''id'', i), (lit ''method'', JString (lit ''tools/call'')),
      (lit ''params'', JObject [(lit ''arguments'', args), (lit ''name'', JString (lit ''click''))])]"

theorem in_flight_exact_witness:
  "cs_inflight (snd (snd (inbound sample_tick (sample_call (JPosInt 1) (JObject []))
       (new_gate, new_control (lit ''work'') 1 sample_log True))))
     = 0 + length (g_acting (fst (snd (inbound sample_tick (sample_call (JPosInt 1) (JObject []))
       (new_gate, new_control (lit ''work'') 1 sample_log True)))))"
proof -
  let ?c = "new_control (lit ''work'') 1 sample_log True"
  have "gate_run 0 (new_gate, ?c)" using gate_run.fresh [of ?c] by (simp add: new_control_def)
  then have "gate_run 0 (snd (inbound sample_tick (sample_call (JPosInt 1) (JObject [])) (new_gate, ?c)))"
    by (rule gate_run.caller)
  with in_flight_exact [of 0 "fst (snd (inbound sample_tick (sample_call (JPosInt 1) (JObject [])) (new_gate, ?c)))"
      "snd (snd (inbound sample_tick (sample_call (JPosInt 1) (JObject [])) (new_gate, ?c)))"]
  show ?thesis by simp
qed

text \<open>
  C4. An acting call reaches Cua only under agent control: whenever the gate forwards a
  message with an acting call in it, no human lease is left in that very section, and if
  there was one its release obligation is returned, to be discharged before the message is
  sent.
\<close>

theorem acting_forwarded_only_by_agent:
  assumes "inbound t m (g, c) = ((Forward m', tr), (g', c'))"
    and "list_ex acting_call (elements m)"
  shows "(\<exists>c1. cs_lease c1 = None \<and> cs_inflight c1 = cs_inflight c + length (acting_ids m)
      \<and> (g', c') = fold remember_acting (acting_ids m) (snd (snd (inspect_message m g)), c1))
    \<and> (cs_lease c \<noteq> None \<longrightarrow> tr \<noteq> None \<and> list_ex asks_takeover (elements m))"
proof -
  obtain r c1 where a: "admit_cua (length (acting_ids m)) (list_ex asks_takeover (elements m)) t c = (r, c1)"
    by fastforce
  show ?thesis
  proof (cases r)
    case (Inl msg)
    with inbound_refused [OF assms(2) a [unfolded Inl], of g] assms(1) show ?thesis by simp
  next
    case (Inr tr')
    from a Inr have l: "cs_lease c1 = None" "cs_lease c \<noteq> None \<longrightarrow> tr' \<noteq> None \<and> list_ex asks_takeover (elements m)"
      by (auto simp: admit_cua_def agent_takeover_locked_def end_lease_def new_transition_eq advance_eq Let_def
          split: option.splits if_splits)
    from admit_cua_inflight [of "length (acting_ids m)" "list_ex asks_takeover (elements m)" t c] a Inr
    have "cs_inflight c1 = cs_inflight c + length (acting_ids m)" by simp
    with l inbound_admitted [OF assms(2) a [unfolded Inr], of g] assms(1) show ?thesis by auto
  qed
qed

lemma sample_call_acting: "list_ex acting_call (elements (sample_call i args))"
  by (simp add: sample_call_def acting_call_def is_call_def method_of_def tool_name_def is_acting_def
      READ_ONLY_CUA_TOOLS_def lit_def)

lemma sample_call_takeover: "asks_takeover (sample_call i (JObject [(lit ''takeover'', JBool True)]))"
  using sample_call_acting [of i "JObject [(lit ''takeover'', JBool True)]"]
  by (simp add: asks_takeover_def sample_call_def wants_takeover_def arguments_def lit_def)

lemma sample_call_elements: "elements (sample_call i args) = [sample_call i args]"
  by (simp add: sample_call_def)

theorem acting_forwarded_only_by_agent_witness:
  "\<exists>m' tr g' c'. inbound sample_tick (sample_call (JPosInt 1) (JObject [(lit ''takeover'', JBool True)]))
       (new_gate, sample_control) = ((Forward m', Some tr), (g', c'))"
proof -
  let ?m = "sample_call (JPosInt 1) (JObject [(lit ''takeover'', JBool True)])"
  obtain tr c1 where a: "admit_cua (length (acting_ids ?m)) (list_ex asks_takeover (elements ?m)) sample_tick sample_control
      = (Inr tr, c1)"
    using sample_call_takeover [of "JPosInt 1"] admit_cua_takeover [of sample_control sample_lease]
    by (simp add: sample_call_elements sample_control_def del: One_nat_def) blast
  from inbound_admitted [OF sample_call_acting a, of new_gate]
  obtain g' c' where i: "inbound sample_tick ?m (new_gate, sample_control) = ((Forward (strip_message ?m), tr), (g', c'))"
    by (metis prod.collapse)
  from acting_forwarded_only_by_agent [OF i sample_call_acting] have "tr \<noteq> None"
    by (simp add: sample_control_def)
  with i show ?thesis by auto
qed

text \<open>
  Under a human lease an acting message that does not ask for takeover stays here: the
  lease, the count and the epoch are untouched, nothing is forwarded, and the caller gets
  exactly one answer for each element that has an id, with that id and in the same order
  (no answer at all when none has one).
\<close>

theorem acting_refused_under_lease:
  assumes "cs_lease c = Some l" and "list_ex acting_call (elements m)"
    and "\<not> list_ex asks_takeover (elements m)"
  shows "\<exists>d g'. inbound t m (g, c) = ((d, None), (g', c)) \<and> g_acting g' = g_acting g
    \<and> (case d of
         Forward m' \<Rightarrow> False
       | AnswerLocally req r \<Rightarrow> req = strip_message m
           \<and> map (\<lambda>x. get_field x (lit ''id'')) (elements r) = map Some (List.map_filter message_id (elements m))
       | DropMessage \<Rightarrow> List.map_filter message_id (elements m) = [])"
proof -
  from assms(1,3) have a: "admit_cua (length (acting_ids m)) (list_ex asks_takeover (elements m)) t c
      = (Inl (mcp_refusal (cs_session c) l), c)"
    by (simp add: admit_cua_def)
  from inspect_message_gate [of m g] local_answer_replies [OF acting_message_shape [OF assms(2)], of "mcp_refusal (cs_session c) l"]
  show ?thesis
    unfolding inbound_refused [OF assms(2) a]
    by (auto simp: elements_strip map_filter_id_strip split: inbound_decision.splits)
qed

theorem acting_refused_under_lease_witness:
  "\<exists>d g'. inbound sample_tick (sample_call (JPosInt 1) (JObject [])) (new_gate, sample_control)
     = ((d, None), (g', sample_control)) \<and> (\<forall>m'. d \<noteq> Forward m')"
proof -
  have "\<not> list_ex asks_takeover (elements (sample_call (JPosInt 1) (JObject [])))"
    by (simp add: sample_call_elements, simp add: asks_takeover_def sample_call_def wants_takeover_def arguments_def lit_def)
  with acting_refused_under_lease [of sample_control sample_lease "sample_call (JPosInt 1) (JObject [])" sample_tick new_gate]
    sample_call_acting [of "JPosInt 1" "JObject []"]
  show ?thesis by (fastforce simp: sample_control_def split: inbound_decision.splits)
qed

text \<open>
  C34. \<open>takeover\<close> never reaches Cua and nothing else is changed: what the gate forwards is
  the message with \<open>takeover\<close> removed from the arguments of every \<open>tools/call\<close>, and a
  message without an acting call is always forwarded, whoever holds the lease, and leaves
  the lease alone.
\<close>

theorem takeover_never_forwarded:
  "(inbound t m (g, c) = ((Forward m', tr), s') \<longrightarrow>
      m' = strip_message m
      \<and> (\<forall>x \<in> set (elements m'). \<forall>p args. x = JObject p \<longrightarrow> is_call x \<longrightarrow> arguments p = Some args
           \<longrightarrow> map_of args (lit ''takeover'') = None))
   \<and> (\<not> list_ex acting_call (elements m) \<longrightarrow>
        fst (inbound t m (g, c)) = (Forward (strip_message m), None) \<and> snd (snd (inbound t m (g, c))) = c)"
proof (intro conjI impI)
  assume i: "inbound t m (g, c) = ((Forward m', tr), s')"
  have m': "m' = strip_message m"
  proof (cases "list_ex acting_call (elements m)")
    case False
    with i show ?thesis by (simp add: inbound_passes)
  next
    case True
    obtain r c1 where a: "admit_cua (length (acting_ids m)) (list_ex asks_takeover (elements m)) t c = (r, c1)"
      by fastforce
    show ?thesis
    proof (cases r)
      case (Inl msg)
      with inbound_refused [OF True a [unfolded Inl], of g] i show ?thesis by simp
    next
      case (Inr tr')
      with inbound_admitted [OF True a [unfolded Inr], of g] i show ?thesis by simp
    qed
  qed
  moreover have "map_of args (lit ''takeover'') = None"
    if "x \<in> set (elements m')" "x = JObject p" "is_call x" "arguments p = Some args" for x p args
  proof -
    from that(1) obtain y where y: "x = strip y" by (auto simp: m' elements_strip)
    with that(3) have "is_call y" by simp
    from strip_no_takeover [OF this] y that(2,4) show ?thesis by metis
  qed
  ultimately show "m' = strip_message m"
    "\<forall>x \<in> set (elements m'). \<forall>p args. x = JObject p \<longrightarrow> is_call x \<longrightarrow> arguments p = Some args
          \<longrightarrow> map_of args (lit ''takeover'') = None" by blast+
qed (simp_all add: inbound_passes)

theorem takeover_never_forwarded_witness:
  "fst (inbound sample_tick (JObject [(lit ''id'', JPosInt 1), (lit ''method'', JString (lit ''ping''))]) (new_gate, sample_control))
     = (Forward (strip_message (JObject [(lit ''id'', JPosInt 1), (lit ''method'', JString (lit ''ping''))])), None)"
  using takeover_never_forwarded [of sample_tick "JObject [(lit ''id'', JPosInt 1), (lit ''method'', JString (lit ''ping''))]"
      new_gate sample_control JNull None "(new_gate, sample_control)"]
  by (simp add: acting_call_def is_call_def method_of_def lit_def)

text \<open>
  The tool list tells the agent exactly where it can take over: in a patched tool an
  acting tool with an input schema has the boolean \<open>takeover\<close> property (unless its
  \<open>properties\<close> is not an object), its other properties and fields are kept, and a
  read-only tool is unchanged.
\<close>

theorem tool_list_patched:
  assumes "map_of tool (lit ''name'') = Some (JString name)"
    and "map_of tool (lit ''inputSchema'') = Some (JObject schema)"
    and "map_of schema (lit ''properties'') = None \<and> props = [] \<or> map_of schema (lit ''properties'') = Some (JObject props)"
  shows "if is_acting name
    then \<exists>tool' schema' props'. patch_tool (JObject tool) = JObject tool'
      \<and> map_of tool' = (map_of tool)(lit ''inputSchema'' \<mapsto> JObject schema')
      \<and> map_of schema' = (map_of schema)(lit ''properties'' \<mapsto> JObject props')
      \<and> map_of props' = (map_of props)(lit ''takeover'' \<mapsto> takeover_property)
    else patch_tool (JObject tool) = JObject tool"
proof -
  let ?s1 = "if map_of schema (lit ''properties'') = None then object_insert (lit ''properties'') (JObject []) schema else schema"
  have s1: "map_of ?s1 (lit ''properties'') = Some (JObject props)"
    "(map_of ?s1)(lit ''properties'' \<mapsto> x) = (map_of schema)(lit ''properties'' \<mapsto> x)" for x
    using assms(3) by auto
  define p where "p = object_insert (lit ''takeover'') takeover_property props"
  define s2 where "s2 = object_set (lit ''properties'') (JObject p) ?s1"
  have s2: "map_of s2 = (map_of schema)(lit ''properties'' \<mapsto> JObject p)"
    using s1 by (simp add: s2_def)
  have p: "map_of p = (map_of props)(lit ''takeover'' \<mapsto> takeover_property)" by (simp add: p_def)
  have "patch_tool (JObject tool) = (if is_acting name then JObject (object_set (lit ''inputSchema'') (JObject s2) tool) else JObject tool)"
    using assms(1,2) s1(1) by (simp add: patch_tool_def Let_def s2_def p_def)
  moreover have "map_of (object_set (lit ''inputSchema'') (JObject s2) tool) = (map_of tool)(lit ''inputSchema'' \<mapsto> JObject s2)"
    using assms(2) by simp
  ultimately show ?thesis using s2 p by auto
qed

theorem tool_list_patched_witness:
  "\<exists>tool'. patch_tool (JObject [(lit ''inputSchema'', JObject []), (lit ''name'', JString (lit ''click''))]) = JObject tool'
     \<and> map_of tool' (lit ''name'') = Some (JString (lit ''click''))"
proof -
  have "is_acting (lit ''click'')" by (simp add: is_acting_def READ_ONLY_CUA_TOOLS_def lit_def)
  with tool_list_patched [of "[(lit ''inputSchema'', JObject []), (lit ''name'', JString (lit ''click''))]" "lit ''click''" "[]" "[]"]
  show ?thesis by (auto simp: lit_def)
qed

end
