(* ===== verification/Cua_Calls.thy ===== *)
theory Cua_Calls
  imports Session_Events Json_Value "HOL-Library.Multiset"
begin

text \<open>
  The call tracker of a Cua attachment, \<open>CuaCallTracker\<close> in
  \<^verbatim>\<open>crates/rdpilot-daemon/src/events.rs\<close>: it pairs \<open>tools/call\<close> requests with their
  responses and records the start and the end of each in the session's event log.
\<close>

subsection \<open>Model\<close>

definition CUA_CALLS_CAP :: nat where "CUA_CALLS_CAP = 64"
definition INVALID_NAME :: ustr where "INVALID_NAME = lit ''(invalid name)''"

definition valid_tool_name :: "ustr \<Rightarrow> bool" where
  "valid_tool_name name \<longleftrightarrow>
     1 \<le> str_len name \<and> str_len name \<le> 64
     \<and> list_all (\<lambda>b. is_ascii_alphanumeric b \<or> b \<in> set (lit ''_.-'')) name"

record pending_call =
  pc_id :: json
  pc_call :: nat
  pc_name :: ustr
  pc_started :: nat

type_synonym tracker = "pending_call list"

text \<open>The clock and the frame number during one message.\<close>

record moment =
  mo_now :: nat
  mo_frame :: nat

definition finish_call ::
  "moment \<Rightarrow> call_outcome \<Rightarrow> pending_call \<Rightarrow> session_events \<Rightarrow> session_events" where
  "finish_call t outcome p s =
     call_finished (mo_now t) (mo_frame t) Cua (pc_call p) (pc_name p) outcome (pc_started p) s"

text \<open>The position of the first pending call with an id.\<close>

fun position :: "json \<Rightarrow> tracker \<Rightarrow> nat option" where
  "position i [] = None"
| "position i (p # ps) = (if pc_id p = i then Some 0 else map_option Suc (position i ps))"

definition remove_at :: "nat \<Rightarrow> 'a list \<Rightarrow> 'a list" where
  "remove_at k xs = take k xs @ drop (Suc k) xs"

text \<open>End the pending call with the id, if there is one.\<close>

definition end_by_id ::
  "moment \<Rightarrow> call_outcome \<Rightarrow> json \<Rightarrow> tracker \<times> session_events \<Rightarrow> tracker \<times> session_events" where
  "end_by_id t outcome i ts =
     (case position i (fst ts) of
        None \<Rightarrow> ts
      | Some k \<Rightarrow> (remove_at k (fst ts), finish_call t outcome (fst ts ! k) (snd ts)))"

definition recorded_name :: "json_object \<Rightarrow> ustr" where
  "recorded_name o' =
     (case Option.bind (map_of o' (lit ''params'')) (\<lambda>p. Option.bind (get_field p (lit ''name'')) as_str) of
        Some n \<Rightarrow> if valid_tool_name n then n else INVALID_NAME
      | None \<Rightarrow> INVALID_NAME)"

definition observe_request ::
  "moment \<Rightarrow> json \<Rightarrow> tracker \<times> session_events \<Rightarrow> tracker \<times> session_events" where
  "observe_request t message ts =
     (case as_object message of
        None \<Rightarrow> ts
      | Some o' \<Rightarrow>
          if Option.bind (map_of o' (lit ''method'')) as_str \<noteq> Some (lit ''tools/call'') then ts
          else
            (case map_of o' (lit ''id'') of
               None \<Rightarrow> ts
             | Some i \<Rightarrow>
                 if \<not> (is_string i \<or> is_number i) then ts
                 else
                   (let name = recorded_name o';
                        (q1, s1) = end_by_id t NoReply i ts;
                        (q2, s2) = (if CUA_CALLS_CAP \<le> length q1
                                    then (tl q1, finish_call t NoReply (hd q1) s1) else (q1, s1));
                        (call, s3) = call_started (mo_now t) (mo_frame t) Cua name s2
                    in (q2 @ [\<lparr>pc_id = i, pc_call = call, pc_name = name, pc_started = mo_now t\<rparr>], s3))))"

definition response_outcome :: "bool \<Rightarrow> json \<Rightarrow> call_outcome" where
  "response_outcome is_error result =
     (if is_error \<or> Option.bind (get_field result (lit ''isError'')) as_bool = Some True
      then CallError else CallOk)"

definition observe_response ::
  "moment \<Rightarrow> json \<Rightarrow> tracker \<times> session_events \<Rightarrow> tracker \<times> session_events" where
  "observe_response t message ts =
     (case as_object message of
        None \<Rightarrow> ts
      | Some o' \<Rightarrow>
          if map_of o' (lit ''method'') \<noteq> None then ts
          else
            (case map_of o' (lit ''id'') of
               None \<Rightarrow> ts
             | Some i \<Rightarrow>
                 (let is_error = map_of o' (lit ''error'') \<noteq> None in
                  case (case map_of o' (lit ''result'') of Some r \<Rightarrow> Some r | None \<Rightarrow> map_of o' (lit ''error'')) of
                    None \<Rightarrow> ts
                  | Some result \<Rightarrow> end_by_id t (response_outcome is_error result) i ts)))"

fun close_tracker :: "moment \<Rightarrow> tracker \<times> session_events \<Rightarrow> tracker \<times> session_events" where
  "close_tracker t ([], s) = ([], s)"
| "close_tracker t (p # ps, s) = close_tracker t (ps, finish_call t NoReply p s)"

subsection \<open>The calls of a log\<close>

text \<open>The Cua calls that a list of events says were started, and were finished.\<close>

definition started_calls :: "session_event list \<Rightarrow> nat list" where
  "started_calls es = concat (map (\<lambda>e.
     case ev_kind e of CallStarted c n \<Rightarrow> if ev_source e = Cua then [c] else [] | _ \<Rightarrow> []) es)"

definition finished_calls :: "session_event list \<Rightarrow> nat list" where
  "finished_calls es = concat (map (\<lambda>e.
     case ev_kind e of CallFinished c n r d \<Rightarrow> if ev_source e = Cua then [c] else [] | _ \<Rightarrow> []) es)"

text \<open>A log whose sink has had every event: \<open>es\<close>.\<close>

definition tracked :: "tracker \<Rightarrow> session_events \<Rightarrow> bool" where
  "tracked q s \<longleftrightarrow>
     (\<exists>es. sink s = Some es
        \<and> mset (started_calls es) = mset (finished_calls es) + mset (map pc_call q)
        \<and> distinct (started_calls es) \<and> (\<forall>c \<in> set (started_calls es). c < se_next_call s))
     \<and> length q \<le> CUA_CALLS_CAP \<and> distinct (map pc_id q)"

lemma started_append [simp]: "started_calls (xs @ ys) = started_calls xs @ started_calls ys"
  and finished_append [simp]: "finished_calls (xs @ ys) = finished_calls xs @ finished_calls ys"
  by (simp_all add: started_calls_def finished_calls_def)

lemma call_finished_sink:
  "sink (call_finished now f src call name r d s) = map_option (\<lambda>es. es @ [stamp s now (ring_latest s + 1) f src
     (CallFinished call name r (min ((now - d) div 1000000) u64_max))]) (sink s)"
  "se_next_call (call_finished now f src call name r d s) = se_next_call s"
  by (simp_all add: call_finished_def)

lemma call_started_fields:
  "fst (call_started now f src name s) = se_next_call s"
  "se_next_call (snd (call_started now f src name s)) = se_next_call s + 1"
  "sink (snd (call_started now f src name s)) = map_option (\<lambda>es. es @ [stamp (s\<lparr>se_next_call := se_next_call s + 1\<rparr>) now
     (ring_latest s + 1) f src (CallStarted (se_next_call s) name)]) (sink s)"
  by (simp_all add: call_started_def next_call_def)

lemma event_calls [simp]:
  "started_calls [stamp s now n f src (CallStarted c name)] = (if src = Cua then [c] else [])"
  "finished_calls [stamp s now n f src (CallStarted c name)] = []"
  "started_calls [stamp s now n f src (CallFinished c name r d)] = []"
  "finished_calls [stamp s now n f src (CallFinished c name r d)] = (if src = Cua then [c] else [])"
  by (simp_all add: started_calls_def finished_calls_def)

lemma position_Some:
  "position i q = Some k \<Longrightarrow> k < length q \<and> pc_id (q ! k) = i"
  by (induction q arbitrary: k) (auto split: if_splits)

lemma position_None: "position i q = None \<longleftrightarrow> i \<notin> set (map pc_id q)"
  by (induction q) auto

lemma remove_at_mset: "k < length q \<Longrightarrow> mset q = {#q ! k#} + mset (remove_at k q)"
  using arg_cong [OF id_take_nth_drop [of k q], of mset] by (simp add: remove_at_def)

lemma mset_map_remove_at: "k < length q \<Longrightarrow> mset (map f q) = {#f (q ! k)#} + mset (map f (remove_at k q))"
  using arg_cong [OF remove_at_mset [of k q], of "image_mset f"] by simp

lemma length_remove_at: "k < length q \<Longrightarrow> length (remove_at k q) = length q - 1"
  by (simp add: remove_at_def)

lemma distinct_remove_at: "distinct (map f q) \<Longrightarrow> distinct (map f (remove_at k q))"
proof -
  assume "distinct (map f q)"
  then have "distinct (map f (take k q) @ map f (drop k q))" by (simp flip: map_append)
  moreover have "drop (Suc k) q = tl (drop k q)" by (simp add: drop_Suc tl_drop)
  ultimately show ?thesis by (cases "drop k q") (simp_all add: remove_at_def)
qed

lemma tracked_finish_at:
  assumes "tracked q s" and "k < length q"
  shows "tracked (remove_at k q) (finish_call t r (q ! k) s)"
proof -
  from assms(1) obtain es where es: "sink s = Some es"
    "mset (started_calls es) = mset (finished_calls es) + mset (map pc_call q)"
    "distinct (started_calls es)" "\<forall>c \<in> set (started_calls es). c < se_next_call s"
    by (auto simp: tracked_def)
  have "mset (map pc_call q) = {#pc_call (q ! k)#} + mset (map pc_call (remove_at k q))"
    using assms(2) by (rule mset_map_remove_at)
  with es have "\<exists>es'. sink (finish_call t r (q ! k) s) = Some es'
      \<and> mset (started_calls es') = mset (finished_calls es') + mset (map pc_call (remove_at k q))
      \<and> distinct (started_calls es') \<and> (\<forall>c \<in> set (started_calls es'). c < se_next_call (finish_call t r (q ! k) s))"
    by (simp add: finish_call_def call_finished_sink)
  with assms show ?thesis
    by (auto simp: tracked_def length_remove_at distinct_remove_at)
qed

lemma tracked_end_by_id:
  assumes "tracked q s"
  shows "tracked (fst (end_by_id t r i (q, s))) (snd (end_by_id t r i (q, s)))"
  using assms position_Some [of i q] tracked_finish_at [OF assms]
  by (auto simp: end_by_id_def split: option.split)

lemma end_by_id_gone: "distinct (map pc_id q) \<Longrightarrow> i \<notin> set (map pc_id (fst (end_by_id t r i (q, s))))"
proof (cases "position i q")
  case None
  then have "i \<notin> set (map pc_id q)" by (simp add: position_None)
  with None show ?thesis by (simp add: end_by_id_def)
next
  case (Some k)
  assume d: "distinct (map pc_id q)"
  from position_Some [OF Some] have k: "k < length q" "pc_id (q ! k) = i" by auto
  then have "mset (map pc_id q) = {#i#} + mset (map pc_id (remove_at k q))"
    using mset_map_remove_at [of k q pc_id] by simp
  moreover from d have "count (mset (map pc_id q)) i \<le> 1" by (simp add: distinct_count_atmost_1)
  ultimately have "count (mset (map pc_id (remove_at k q))) i = 0" by simp
  then show ?thesis by (simp add: end_by_id_def Some count_eq_zero_iff)
qed

lemma tracked_start:
  assumes "tracked q s" and "length q < CUA_CALLS_CAP" and "i \<notin> set (map pc_id q)"
  shows "tracked (q @ [\<lparr>pc_id = i, pc_call = se_next_call s, pc_name = name, pc_started = now\<rparr>])
    (snd (call_started now f Cua name s))"
proof -
  from assms(1) obtain es where es: "sink s = Some es"
    "mset (started_calls es) = mset (finished_calls es) + mset (map pc_call q)"
    "distinct (started_calls es)" "\<forall>c \<in> set (started_calls es). c < se_next_call s"
    by (auto simp: tracked_def)
  then have "distinct (started_calls es @ [se_next_call s])"
    "\<forall>c \<in> set (started_calls es @ [se_next_call s]). c < se_next_call s + 1"
    by (auto simp: less_Suc_eq)
  with es show ?thesis
    using assms by (auto simp: tracked_def call_started_fields)
qed

lemma tracked_tl: "tracked q s \<Longrightarrow> q \<noteq> [] \<Longrightarrow> tracked (tl q) (finish_call t r (hd q) s)"
  using tracked_finish_at [of q s 0 t r] by (cases q) (simp_all add: remove_at_def)

lemma tracked_request:
  assumes "tracked q s"
  shows "tracked (fst (observe_request t m (q, s))) (snd (observe_request t m (q, s)))"
proof -
  have main: "tracked (q2 @ [\<lparr>pc_id = i, pc_call = call, pc_name = name, pc_started = mo_now t\<rparr>]) s3"
    if e: "end_by_id t NoReply i (q, s) = (q1, s1)"
      and o': "(if CUA_CALLS_CAP \<le> length q1 then (tl q1, finish_call t NoReply (hd q1) s1) else (q1, s1)) = (q2, s2)"
      and c: "call_started (mo_now t) (mo_frame t) Cua name s2 = (call, s3)"
    for i q1 s1 q2 s2 name call s3
  proof -
    from tracked_end_by_id [OF assms, of t NoReply i] e have q1: "tracked q1 s1" by simp
    have i1: "i \<notin> set (map pc_id q1)"
      using end_by_id_gone [of q i t NoReply s] assms e by (simp add: tracked_def)
    have q2: "tracked q2 s2" "length q2 < CUA_CALLS_CAP" "i \<notin> set (map pc_id q2)"
    proof -
      show "tracked q2 s2"
        using o' q1 tracked_tl [OF q1, of t NoReply] by (cases "q1 = []") (auto simp: CUA_CALLS_CAP_def split: if_splits)
      show "length q2 < CUA_CALLS_CAP"
        using o' q1 by (auto simp: tracked_def CUA_CALLS_CAP_def split: if_splits)
      show "i \<notin> set (map pc_id q2)"
        using o' i1 by (cases q1) (auto split: if_splits)
    qed
    have "call = se_next_call s2"
      using c call_started_fields(1) [of "mo_now t" "mo_frame t" Cua name s2] by simp
    with tracked_start [OF q2, of name "mo_now t" "mo_frame t"] c show ?thesis by simp
  qed
  show ?thesis
    using assms by (auto simp: observe_request_def Let_def split: option.split prod.split intro: main)
qed

lemma tracked_response:
  assumes "tracked q s"
  shows "tracked (fst (observe_response t m (q, s))) (snd (observe_response t m (q, s)))"
  using assms tracked_end_by_id [OF assms] by (auto simp: observe_response_def Let_def split: option.split)

lemma tracked_close: "tracked q s \<Longrightarrow> tracked [] (snd (close_tracker t (q, s))) \<and> fst (close_tracker t (q, s)) = []"
proof (induction q arbitrary: s)
  case (Cons p q)
  from tracked_tl [OF Cons(2), of t NoReply] Cons(1) show ?case by simp
qed simp

subsection \<open>Properties\<close>

text \<open>
  One attachment and the rest of the session: besides its own messages, any event that is
  not a Cua call is recorded, and other call numbers are drawn.
\<close>

fun call_event :: "event_kind \<Rightarrow> bool" where
  "call_event (CallStarted c name) = True"
| "call_event (CallFinished c name r d) = True"
| "call_event _ = False"

inductive tracker_run :: "tracker \<times> session_events \<Rightarrow> bool" where
  fresh: "sink s = Some [] \<Longrightarrow> tracker_run ([], s)"
| request: "tracker_run ts \<Longrightarrow> tracker_run (observe_request t m ts)"
| response: "tracker_run ts \<Longrightarrow> tracker_run (observe_response t m ts)"
| other_event: "tracker_run (q, s) \<Longrightarrow> src \<noteq> Cua \<or> \<not> call_event k \<Longrightarrow> tracker_run (q, snd (record_event now f src k s))"
| other_number: "tracker_run (q, s) \<Longrightarrow> tracker_run (q, snd (next_call s))"

lemma not_cua_calls [simp]:
  "src \<noteq> Cua \<or> \<not> call_event k \<Longrightarrow> started_calls [stamp s now n f src k] = []"
  "src \<noteq> Cua \<or> \<not> call_event k \<Longrightarrow> finished_calls [stamp s now n f src k] = []"
  by (cases k; auto simp: started_calls_def finished_calls_def stamp_def)+

lemma tracker_run_tracked: "tracker_run ts \<Longrightarrow> tracked (fst ts) (snd ts)"
proof (induction rule: tracker_run.induct)
  case (fresh s)
  then show ?case by (simp add: tracked_def started_calls_def finished_calls_def)
next
  case (request ts t m)
  then show ?case using tracked_request [of "fst ts" "snd ts" t m] by simp
next
  case (response ts t m)
  then show ?case using tracked_response [of "fst ts" "snd ts" t m] by simp
next
  case (other_event q s src now f k)
  then show ?case by (auto simp: tracked_def)
next
  case (other_number q s)
  then show ?case by (fastforce simp: tracked_def next_call_def)
qed

text \<open>
  C39. Every Cua call that was recorded as started is finished exactly once: at any time the
  starts in the log are the ends plus the calls still pending (at most 64, with distinct
  ids), no call number is started twice, and when the attachment closes each start has
  exactly one end, whatever the caller and Cua sent.
\<close>

theorem cua_calls_paired:
  assumes "tracker_run (q, s)" and "sink s = Some es"
  shows "mset (started_calls es) = mset (finished_calls es) + mset (map pc_call q)
    \<and> distinct (started_calls es) \<and> length q \<le> 64 \<and> distinct (map pc_id q)
    \<and> (\<exists>es'. sink (snd (close_tracker t (q, s))) = Some es'
         \<and> mset (started_calls es') = mset (finished_calls es') \<and> distinct (finished_calls es'))"
proof -
  from tracker_run_tracked [OF assms(1)] have q: "tracked q s" by simp
  from tracked_close [OF q, of t] obtain es' where es': "sink (snd (close_tracker t (q, s))) = Some es'"
    "mset (started_calls es') = mset (finished_calls es')" "distinct (started_calls es')"
    by (auto simp: tracked_def)
  from es'(2,3) have "distinct (finished_calls es')" by (metis mset_eq_imp_distinct_iff)
  with q es' assms(2) show ?thesis by (auto simp: tracked_def CUA_CALLS_CAP_def)
qed

definition tracked_log :: session_events where
  "tracked_log = sample_log\<lparr>sink := Some []\<rparr>"

definition sample_request :: json where
  "sample_request = JObject [(lit ''id'', JPosInt 7), (lit ''method'', JString (lit ''tools/call''))]"

theorem cua_calls_paired_witness:
  "\<exists>es. sink (snd (close_tracker \<lparr>mo_now = 9, mo_frame = 0\<rparr>
      (observe_request \<lparr>mo_now = 3, mo_frame = 0\<rparr> sample_request ([], tracked_log)))) = Some es
     \<and> mset (started_calls es) = mset (finished_calls es)"
proof -
  let ?t = "\<lparr>mo_now = 3, mo_frame = 0\<rparr>"
  let ?ts = "observe_request ?t sample_request ([], tracked_log)"
  have "tracker_run ?ts" by (intro tracker_run.request tracker_run.fresh) (simp add: tracked_log_def)
  moreover from tracker_run_tracked [OF this] obtain es where "sink (snd ?ts) = Some es" by (auto simp: tracked_def)
  ultimately show ?thesis
    using cua_calls_paired [of "fst ?ts" "snd ?ts" es "\<lparr>mo_now = 9, mo_frame = 0\<rparr>"] by auto
qed

end
