(* ===== verification/Host_Pattern.thy ===== *)
theory Host_Pattern
  imports Rd_Text "HOL-Library.While_Combinator"
begin

text \<open>
  The patterns of \<open>Host\<close> lines, \<^verbatim>\<open>crates/rdpilot-config/src/hosts/pattern.rs\<close>:
  \<open>glob_match\<close> is the loop of the source over two indices with one backtracking point,
  and is shown to return and to decide the usual meaning of \<open>*\<close> and \<open>?\<close>.
\<close>

subsection \<open>The matcher\<close>

definition STAR :: uchar where "STAR = ch CHR ''*''"
definition QUESTION :: uchar where "QUESTION = ch CHR ''?''"

lemma STAR_QUESTION [simp]: "STAR \<noteq> QUESTION" "QUESTION \<noteq> STAR"
  by (simp_all add: STAR_def QUESTION_def ch_def)

record glob_state =
  gs_pi :: nat
  gs_ti :: nat
  gs_star :: "nat option"
  gs_mark :: nat
  gs_failed :: bool

text \<open>One turn of the first loop; \<open>gs_failed\<close> is its \<open>return false\<close>.\<close>

definition glob_step :: "ustr \<Rightarrow> ustr \<Rightarrow> glob_state \<Rightarrow> glob_state" where
  "glob_step p t s =
     (if gs_pi s < length p \<and> (p ! gs_pi s = QUESTION \<or> (p ! gs_pi s \<noteq> STAR \<and> p ! gs_pi s = t ! gs_ti s))
      then s\<lparr>gs_pi := gs_pi s + 1, gs_ti := gs_ti s + 1\<rparr>
      else if gs_pi s < length p \<and> p ! gs_pi s = STAR
      then s\<lparr>gs_star := Some (gs_pi s), gs_mark := gs_ti s, gs_pi := gs_pi s + 1\<rparr>
      else (case gs_star s of
              Some k \<Rightarrow> s\<lparr>gs_pi := k + 1, gs_mark := gs_mark s + 1, gs_ti := gs_mark s + 1\<rparr>
            | None \<Rightarrow> s\<lparr>gs_failed := True\<rparr>))"

definition glob_more :: "ustr \<Rightarrow> glob_state \<Rightarrow> bool" where
  "glob_more t s \<longleftrightarrow> gs_ti s < length t \<and> \<not> gs_failed s"

definition glob_start :: glob_state where
  "glob_start = \<lparr>gs_pi = 0, gs_ti = 0, gs_star = None, gs_mark = 0, gs_failed = False\<rparr>"

text \<open>The second loop skips the stars at the end: what is left must be empty.\<close>

definition glob_match :: "ustr \<Rightarrow> ustr \<Rightarrow> bool option" where
  "glob_match p t =
     map_option (\<lambda>s. \<not> gs_failed s \<and> dropWhile (\<lambda>c. c = STAR) (drop (gs_pi s) p) = [])
       (while_option (glob_more t) (glob_step p t) glob_start)"

definition host_line_step :: "ustr \<Rightarrow> ustr \<Rightarrow> bool option \<Rightarrow> bool option" where
  "host_line_step host pat positive =
     (case positive of
        None \<Rightarrow> None
      | Some pos \<Rightarrow>
          (case strip_prefix (lit ''!'') pat of
             Some neg \<Rightarrow> if glob_match neg host = Some True then None else Some pos
           | None \<Rightarrow> if glob_match pat host = Some True then Some True else Some pos))"

text \<open>The fold stops (\<open>None\<close>) at a negated pattern that matches: \<open>return false\<close>.\<close>

definition host_line_matches :: "ustr list \<Rightarrow> ustr \<Rightarrow> bool" where
  "host_line_matches patterns host =
     (fold (host_line_step (to_ascii_lowercase host)) patterns (Some False) = Some True)"

subsection \<open>What a pattern means\<close>

fun glob :: "ustr \<Rightarrow> ustr \<Rightarrow> bool" where
  "glob [] t = (t = [])"
| "glob (a # p) t =
     (if a = STAR then (\<exists>k \<le> length t. glob p (drop k t))
      else (case t of [] \<Rightarrow> False | c # t' \<Rightarrow> (a = QUESTION \<or> a = c) \<and> glob p t'))"

text \<open>A pattern without stars against the start of a text.\<close>

definition lit_match :: "ustr \<Rightarrow> ustr \<Rightarrow> bool" where
  "lit_match q t \<longleftrightarrow> length q \<le> length t
     \<and> (\<forall>i < length q. q ! i \<noteq> STAR \<and> (q ! i = QUESTION \<or> q ! i = t ! i))"

lemma lit_match_Nil [simp]: "lit_match [] t"
  by (simp add: lit_match_def)

lemma lit_match_Cons:
  "lit_match (a # q) t \<longleftrightarrow> (\<exists>c t'. t = c # t' \<and> a \<noteq> STAR \<and> (a = QUESTION \<or> a = c) \<and> lit_match q t')"
  by (cases t) (auto simp: lit_match_def nth_Cons split: nat.splits)

lemma glob_prefix:
  "\<forall>a \<in> set q. a \<noteq> STAR \<Longrightarrow> glob (q @ p) t \<longleftrightarrow> lit_match q t \<and> glob p (drop (length q) t)"
proof (induction q arbitrary: t)
  case (Cons a q)
  then show ?case by (cases t) (auto simp: lit_match_Cons)
qed simp

lemma lit_match_length: "lit_match q t \<Longrightarrow> length q \<le> length t"
  by (simp add: lit_match_def)

lemma glob_star: "glob (STAR # p) t \<longleftrightarrow> (\<exists>k \<le> length t. glob p (drop k t))"
  by simp

lemma glob_empty: "glob p [] \<longleftrightarrow> dropWhile (\<lambda>c. c = STAR) p = []"
  by (induction p) auto

text \<open>
  What holds at the head of the first loop. Before any star, the rest of the pattern
  decides. With a star at \<open>k\<close>, the pattern matches exactly if what follows the star
  matches at some place from \<open>m\<close> on, and a star-free part of it has matched at \<open>m\<close>.
\<close>

definition seg :: "ustr \<Rightarrow> nat \<Rightarrow> nat \<Rightarrow> ustr" where
  "seg p k i = take (i - Suc k) (drop (Suc k) p)"

definition glob_from :: "ustr \<Rightarrow> ustr \<Rightarrow> nat \<Rightarrow> bool" where
  "glob_from p t m \<longleftrightarrow> (\<exists>j. m \<le> j \<and> j \<le> length t \<and> glob p (drop j t))"

definition star_inv :: "ustr \<Rightarrow> ustr \<Rightarrow> nat \<Rightarrow> nat \<Rightarrow> nat \<Rightarrow> nat \<Rightarrow> bool" where
  "star_inv p t k i m n \<longleftrightarrow>
     k < i \<and> i \<le> length p \<and> n \<le> length t \<and> m + (i - Suc k) = n
     \<and> lit_match (seg p k i) (drop m t) \<and> glob p t = glob_from (drop (Suc k) p) t m"

definition glob_inv :: "ustr \<Rightarrow> ustr \<Rightarrow> glob_state \<Rightarrow> bool" where
  "glob_inv p t s \<longleftrightarrow>
     (case gs_star s of
        None \<Rightarrow> gs_pi s \<le> length p \<and> gs_ti s \<le> length t
          \<and> (if gs_failed s then \<not> glob p t
             else glob p t = glob (drop (gs_pi s) p) (drop (gs_ti s) t))
      | Some k \<Rightarrow> \<not> gs_failed s \<and> star_inv p t k (gs_pi s) (gs_mark s) (gs_ti s))"

lemma seg_split:
  assumes "k < i" "i \<le> length p"
  shows "drop (Suc k) p = seg p k i @ drop i p" "length (seg p k i) = i - Suc k"
proof -
  have "drop (i - Suc k) (drop (Suc k) p) = drop i p"
    using assms by simp
  then show "drop (Suc k) p = seg p k i @ drop i p"
    unfolding seg_def by (metis append_take_drop_id)
  show "length (seg p k i) = i - Suc k"
    using assms by (simp add: seg_def)
qed

lemma seg_Suc: "k < i \<Longrightarrow> i < length p \<Longrightarrow> seg p k (Suc i) = seg p k i @ [p ! i]"
proof -
  assume "k < i" "i < length p"
  then have "Suc i - Suc k = Suc (i - Suc k)" "i - Suc k < length (drop (Suc k) p)" by auto
  with \<open>k < i\<close> \<open>i < length p\<close> show ?thesis
    unfolding seg_def by (simp add: take_Suc_conv_app_nth del: diff_Suc_Suc take_Suc)
qed

lemma lit_match_no_star: "lit_match q t \<Longrightarrow> \<forall>a \<in> set q. a \<noteq> STAR"
  by (auto simp: lit_match_def in_set_conv_nth)

lemma lit_match_snoc:
  "lit_match q t \<Longrightarrow> length q < length t \<Longrightarrow> a \<noteq> STAR \<Longrightarrow> a = QUESTION \<or> a = t ! length q
   \<Longrightarrow> lit_match (q @ [a]) t"
  by (auto simp: lit_match_def nth_append less_Suc_eq)

text \<open>Whether the pattern character at \<open>i\<close> takes the text character at \<open>n\<close>.\<close>

definition eats :: "ustr \<Rightarrow> ustr \<Rightarrow> nat \<Rightarrow> nat \<Rightarrow> bool" where
  "eats p t i n \<longleftrightarrow> i < length p \<and> (p ! i = QUESTION \<or> p ! i \<noteq> STAR \<and> p ! i = t ! n)"

lemma glob_eats:
  "eats p t i n \<Longrightarrow> n < length t \<Longrightarrow>
   glob (drop i p) (drop n t) = glob (drop (Suc i) p) (drop (Suc n) t)"
  by (auto simp: eats_def Cons_nth_drop_Suc [symmetric])

lemma glob_stuck:
  "n < length t \<Longrightarrow> \<not> eats p t i n \<Longrightarrow> \<not> (i < length p \<and> p ! i = STAR) \<Longrightarrow>
   \<not> glob (drop i p) (drop n t)"
  by (cases "i < length p") (auto simp: eats_def Cons_nth_drop_Suc [symmetric])

lemma glob_at_star:
  assumes "i < length p" "p ! i = STAR" "m \<le> length t"
  shows "glob (drop i p) (drop m t) = glob_from (drop (Suc i) p) t m"
proof -
  have "glob (drop i p) (drop m t)
      \<longleftrightarrow> (\<exists>j \<le> length t - m. glob (drop (Suc i) p) (drop (j + m) t))"
    using assms by (simp add: Cons_nth_drop_Suc [symmetric])
  also have "\<dots> \<longleftrightarrow> glob_from (drop (Suc i) p) t m"
    unfolding glob_from_def
  proof
    assume "\<exists>j \<le> length t - m. glob (drop (Suc i) p) (drop (j + m) t)"
    then obtain j where "j \<le> length t - m" "glob (drop (Suc i) p) (drop (j + m) t)" by blast
    then show "\<exists>j. m \<le> j \<and> j \<le> length t \<and> glob (drop (Suc i) p) (drop j t)"
      using assms(3) by (intro exI [of _ "j + m"]) simp
  next
    assume "\<exists>j. m \<le> j \<and> j \<le> length t \<and> glob (drop (Suc i) p) (drop j t)"
    then obtain j where "m \<le> j" "j \<le> length t" "glob (drop (Suc i) p) (drop j t)" by blast
    then show "\<exists>j \<le> length t - m. glob (drop (Suc i) p) (drop (j + m) t)"
      by (intro exI [of _ "j - m"]) simp
  qed
  finally show ?thesis .
qed

lemma star_inv_seg:
  assumes "star_inv p t k i m n"
  shows "glob (drop (Suc k) p) (drop j t)
         \<longleftrightarrow> lit_match (seg p k i) (drop j t) \<and> glob (drop i p) (drop (j + (i - Suc k)) t)"
proof -
  have sp: "drop (Suc k) p = seg p k i @ drop i p" "length (seg p k i) = i - Suc k"
    and lm: "lit_match (seg p k i) (drop m t)"
    using assms seg_split [of k i p] by (auto simp: star_inv_def)
  show ?thesis
    by (simp only: sp(1) glob_prefix [OF lit_match_no_star [OF lm]] sp(2) drop_drop add.commute)
qed

lemma star_inv_eats:
  assumes inv: "star_inv p t k i m n" and e: "eats p t i n" and n: "n < length t"
  shows "star_inv p t k (Suc i) m (Suc n)"
proof -
  have k: "k < i" "i < length p" "m + (i - Suc k) = n" and lm: "lit_match (seg p k i) (drop m t)"
    using inv e by (auto simp: star_inv_def eats_def)
  have "lit_match (seg p k i @ [p ! i]) (drop m t)"
  proof (rule lit_match_snoc [OF lm])
    have len: "m + length (seg p k i) = n" using k seg_split(2) [of k i p] by simp
    then show "length (seg p k i) < length (drop m t)" using n by simp
    show "p ! i \<noteq> STAR" using e by (auto simp: eats_def)
    show "p ! i = QUESTION \<or> p ! i = drop m t ! length (seg p k i)"
      using e len n by (auto simp: eats_def)
  qed
  then show ?thesis using inv k n by (auto simp: star_inv_def seg_Suc)
qed

lemma star_inv_head:
  assumes inv: "star_inv p t k i m n" and star: "i < length p" "p ! i = STAR"
  shows "glob p t = glob (drop i p) (drop n t)"
proof -
  have k: "k < i" "m + (i - Suc k) = n" "n \<le> length t" and lm: "lit_match (seg p k i) (drop m t)"
    and gl: "glob p t = glob_from (drop (Suc k) p) t m"
    using inv by (auto simp: star_inv_def)
  show ?thesis
  proof
    assume "glob p t"
    then obtain j where j: "m \<le> j" "j \<le> length t" "glob (drop (Suc k) p) (drop j t)"
      using gl by (auto simp: glob_from_def)
    then have l: "lit_match (seg p k i) (drop j t)" and g: "glob (drop i p) (drop (j + (i - Suc k)) t)"
      using star_inv_seg [OF inv] by blast+
    have "j + (i - Suc k) \<le> length t"
      using lit_match_length [OF l] seg_split(2) [OF k(1)] star(1) j(2) by simp
    then have "glob_from (drop (Suc i) p) t (j + (i - Suc k))"
      using g glob_at_star [OF star] by blast
    moreover have "n \<le> j + (i - Suc k)" using j(1) k(2) by simp
    ultimately have "glob_from (drop (Suc i) p) t n"
      unfolding glob_from_def by (meson le_trans)
    then show "glob (drop i p) (drop n t)" using glob_at_star [OF star k(3)] by simp
  next
    assume "glob (drop i p) (drop n t)"
    then have "glob (drop (Suc k) p) (drop m t)" using star_inv_seg [OF inv] lm k(2) by simp
    moreover have "m \<le> length t" using k by linarith
    ultimately show "glob p t" using gl by (auto simp: glob_from_def)
  qed
qed

lemma star_inv_new:
  "glob p t = glob (drop i p) (drop n t) \<Longrightarrow> i < length p \<Longrightarrow> p ! i = STAR \<Longrightarrow> n \<le> length t \<Longrightarrow>
   star_inv p t i (Suc i) n n"
  by (simp add: star_inv_def glob_at_star seg_def)

lemma star_inv_again:
  assumes inv: "star_inv p t k i m n" and no: "\<not> glob (drop i p) (drop n t)" and n: "n < length t"
  shows "star_inv p t k (Suc k) (Suc m) (Suc m)"
proof -
  have k: "k < i" "i \<le> length p" "m + (i - Suc k) = n"
    and gl: "glob p t = glob_from (drop (Suc k) p) t m"
    using inv by (auto simp: star_inv_def)
  have "\<not> glob (drop (Suc k) p) (drop m t)"
    using star_inv_seg [OF inv] no k(3) by simp
  then have "glob_from (drop (Suc k) p) t m = glob_from (drop (Suc k) p) t (Suc m)"
    unfolding glob_from_def by (metis Suc_leD Suc_leI le_neq_implies_less)
  moreover have "Suc m \<le> length t" using k(3) n by linarith
  ultimately show ?thesis using k gl by (simp add: star_inv_def seg_def)
qed

lemma star_inv_end:
  assumes inv: "star_inv p t k i m (length t)"
  shows "glob p t = glob (drop i p) []"
proof -
  have k: "k < i" "i \<le> length p" "m + (i - Suc k) = length t" and lm: "lit_match (seg p k i) (drop m t)"
    and gl: "glob p t = glob_from (drop (Suc k) p) t m"
    using inv by (auto simp: star_inv_def)
  have "j = m" if "m \<le> j" "j \<le> length t" "lit_match (seg p k i) (drop j t)" for j
    using lit_match_length [OF that(3)] that(1,2) seg_split(2) [OF k(1,2)] k(3) by simp
  moreover have "m \<le> length t" using k(3) by linarith
  ultimately have "glob p t = glob (drop (Suc k) p) (drop m t)"
    unfolding gl glob_from_def using star_inv_seg [OF inv] by blast
  also have "\<dots> = glob (drop i p) []"
    using star_inv_seg [OF inv] lm k(3) by simp
  finally show ?thesis .
qed

lemma glob_step_cases:
  "eats p t (gs_pi s) (gs_ti s) \<Longrightarrow>
     glob_step p t s = s\<lparr>gs_pi := Suc (gs_pi s), gs_ti := Suc (gs_ti s)\<rparr>"
  "\<not> eats p t (gs_pi s) (gs_ti s) \<Longrightarrow> gs_pi s < length p \<Longrightarrow> p ! gs_pi s = STAR \<Longrightarrow>
     glob_step p t s = s\<lparr>gs_star := Some (gs_pi s), gs_mark := gs_ti s, gs_pi := Suc (gs_pi s)\<rparr>"
  "\<not> eats p t (gs_pi s) (gs_ti s) \<Longrightarrow> \<not> (gs_pi s < length p \<and> p ! gs_pi s = STAR) \<Longrightarrow>
     glob_step p t s =
       (case gs_star s of
          Some k \<Rightarrow> s\<lparr>gs_pi := Suc k, gs_mark := Suc (gs_mark s), gs_ti := Suc (gs_mark s)\<rparr>
        | None \<Rightarrow> s\<lparr>gs_failed := True\<rparr>)"
  unfolding glob_step_def eats_def by (simp_all only: if_True if_False simp_thms Suc_eq_plus1)

lemma glob_inv_step:
  assumes inv: "glob_inv p t s" and go: "glob_more t s"
  shows "glob_inv p t (glob_step p t s)"
proof -
  let ?i = "gs_pi s" and ?n = "gs_ti s"
  have n: "?n < length t" and ok: "\<not> gs_failed s" using go by (auto simp: glob_more_def)
  consider (eat) "eats p t ?i ?n"
    | (star) "\<not> eats p t ?i ?n" "?i < length p" "p ! ?i = STAR"
    | (stuck) "\<not> eats p t ?i ?n" "\<not> (?i < length p \<and> p ! ?i = STAR)"
    by blast
  then show ?thesis
  proof cases
    case eat
    then have "?i < length p" by (simp add: eats_def)
    then show ?thesis
      using inv n ok eat
      by (cases "gs_star s")
        (simp_all add: glob_inv_def glob_step_cases(1) glob_eats star_inv_eats)
  next
    case star
    have "glob p t = glob (drop ?i p) (drop ?n t)"
      using inv ok star(2,3) by (cases "gs_star s") (auto simp: glob_inv_def star_inv_head)
    then show ?thesis
      using star ok n by (simp add: glob_inv_def glob_step_cases(2) star_inv_new)
  next
    case stuck
    note no = glob_stuck [OF n stuck]
    show ?thesis
      using inv ok no n
      by (cases "gs_star s")
        (simp_all add: glob_inv_def glob_step_cases(3) [OF stuck] star_inv_again)
  qed
qed

text \<open>The loop ends: a new star, or a later mark, or a character of the text.\<close>

definition glob_measures :: "ustr \<Rightarrow> ustr \<Rightarrow> (glob_state \<Rightarrow> nat) list" where
  "glob_measures p t =
     [\<lambda>s. Suc (length p) - (case gs_star s of None \<Rightarrow> 0 | Some k \<Rightarrow> Suc k),
      \<lambda>s. length t - gs_mark s,
      \<lambda>s. length t - gs_ti s,
      \<lambda>s. of_bool (\<not> gs_failed s)]"

lemma glob_step_decreases:
  assumes inv: "glob_inv p t s" and go: "glob_more t s"
  shows "(glob_step p t s, s) \<in> measures (glob_measures p t)"
proof -
  consider (eat) "eats p t (gs_pi s) (gs_ti s)"
    | (star) "\<not> eats p t (gs_pi s) (gs_ti s)" "gs_pi s < length p" "p ! gs_pi s = STAR"
    | (stuck) "\<not> eats p t (gs_pi s) (gs_ti s)" "\<not> (gs_pi s < length p \<and> p ! gs_pi s = STAR)"
    by blast
  then show ?thesis
  proof cases
    case eat
    then show ?thesis
      using go by (auto simp: glob_measures_def glob_step_cases(1) glob_more_def)
  next
    case star
    then show ?thesis
      using inv
      by (auto simp: glob_measures_def glob_step_cases(2) glob_inv_def star_inv_def split: option.splits)
  next
    case stuck
    then show ?thesis
      using inv go
      by (auto simp: glob_measures_def glob_step_cases(3) [OF stuck] glob_inv_def star_inv_def
          glob_more_def split: option.splits)
  qed
qed

lemma glob_inv_start: "glob_inv p t glob_start"
  by (simp add: glob_inv_def glob_start_def)

lemma glob_loop_ends: "\<exists>s. while_option (glob_more t) (glob_step p t) glob_start = Some s"
proof (rule wf_while_option_Some [where P = "glob_inv p t"])
  show "wf {(s', s). (glob_inv p t s \<and> glob_more t s) \<and> s' = glob_step p t s}"
    by (rule wf_subset [OF wf_measures [of "glob_measures p t"]]) (auto intro: glob_step_decreases)
qed (auto intro: glob_inv_step glob_inv_start)

lemma glob_inv_final:
  assumes inv: "glob_inv p t s" and stop: "\<not> glob_more t s"
  shows "(\<not> gs_failed s \<and> dropWhile (\<lambda>c. c = STAR) (drop (gs_pi s) p) = []) = glob p t"
proof (cases "gs_star s")
  case None
  then show ?thesis
    using inv stop by (auto simp: glob_inv_def glob_more_def glob_empty split: if_splits)
next
  case (Some k)
  with inv have ok: "\<not> gs_failed s" and si: "star_inv p t k (gs_pi s) (gs_mark s) (gs_ti s)"
    by (auto simp: glob_inv_def)
  then have "gs_ti s = length t" using stop by (auto simp: star_inv_def glob_more_def)
  then show ?thesis using ok si star_inv_end by (simp add: glob_empty)
qed

lemma glob_match_glob: "glob_match p t = Some (glob p t)"
proof -
  obtain s where s: "while_option (glob_more t) (glob_step p t) glob_start = Some s"
    using glob_loop_ends by blast
  have "glob_inv p t s"
    using while_option_rule [where P = "glob_inv p t", OF glob_inv_step s glob_inv_start] by blast
  then show ?thesis
    using glob_inv_final while_option_stop [OF s] by (simp add: glob_match_def s)
qed

text \<open>
  C37. The pattern matcher of \<open>Host\<close> lines returns, and decides the usual meaning: \<open>*\<close>
  stands for any text, \<open>?\<close> for one character, everything else for itself; keeping only
  the last star as a backtracking point loses no match.
\<close>

theorem glob_match_decides: "glob_match p t = Some (glob p t)"
  by (rule glob_match_glob)

subsection \<open>Host lines\<close>

lemma host_line_fold_None: "fold (host_line_step h) pats None = None"
  by (induction pats) (simp_all add: host_line_step_def)

lemma glob_match_True: "glob_match p t = Some True \<longleftrightarrow> glob p t"
  by (simp add: glob_match_glob)

lemma host_line_fold:
  "fold (host_line_step h) pats (Some b) = Some True \<longleftrightarrow>
     (\<forall>pat \<in> set pats. \<forall>neg. pat = ch CHR ''!'' # neg \<longrightarrow> \<not> glob neg h)
     \<and> (b \<or> (\<exists>pat \<in> set pats. (\<forall>neg. pat \<noteq> ch CHR ''!'' # neg) \<and> glob pat h))"
proof (induction pats arbitrary: b)
  case (Cons pat pats)
  show ?case
  proof (cases "strip_prefix (lit ''!'') pat")
    case None
    then have "\<forall>neg. pat \<noteq> ch CHR ''!'' # neg"
      by (simp add: strip_prefix_None_iff lit_def ch_def)
    moreover from None have "host_line_step h pat (Some b) = Some (glob pat h \<or> b)"
      by (simp add: host_line_step_def glob_match_True)
    ultimately show ?thesis
      using Cons.IH by (cases "glob pat h") auto
  next
    case (Some neg)
    then have "pat = ch CHR ''!'' # neg"
      by (simp add: strip_prefix_Some_iff lit_def ch_def)
    moreover from Some have "host_line_step h pat (Some b) = (if glob neg h then None else Some b)"
      by (simp add: host_line_step_def glob_match_True)
    ultimately show ?thesis
      using Cons.IH by (cases "glob neg h") (auto simp: host_line_fold_None)
  qed
qed simp

text \<open>A text that a pattern matches has the pattern's literal characters in it.\<close>

lemma glob_literal:
  "glob p t \<Longrightarrow> c \<in> set p \<Longrightarrow> c \<noteq> STAR \<Longrightarrow> c \<noteq> QUESTION \<Longrightarrow> c \<in> set t"
proof (induction p arbitrary: t)
  case (Cons a p)
  show ?case
  proof (cases "a = STAR")
    case True
    then obtain k where "glob p (drop k t)" using Cons.prems(1) by auto
    then show ?thesis using Cons True by (metis in_set_dropD set_ConsD)
  next
    case False
    then show ?thesis using Cons by (auto split: list.splits)
  qed
qed simp

lemma lowercase_no_upper: "c \<in> set (to_ascii_lowercase s) \<Longrightarrow> \<not> is_ascii_upper c"
  by (auto simp: to_ascii_lowercase_def to_ascii_lower_not_upper)

text \<open>
  A \<open>Host\<close> line applies to a host exactly if some of its patterns matches and none of
  its negated patterns does, wherever they stand in the line; the case of the host does
  not matter, and a pattern with a capital letter neither selects nor rejects a host.
\<close>

theorem host_line_meaning:
  "host_line_matches pats host \<longleftrightarrow>
     (\<exists>pat \<in> set pats. (\<forall>neg. pat \<noteq> ch CHR ''!'' # neg) \<and> list_all (\<lambda>c. \<not> is_ascii_upper c) pat
        \<and> glob pat (to_ascii_lowercase host))
     \<and> \<not> (\<exists>neg. ch CHR ''!'' # neg \<in> set pats \<and> list_all (\<lambda>c. \<not> is_ascii_upper c) neg
        \<and> glob neg (to_ascii_lowercase host))"
proof -
  have low: "list_all (\<lambda>c. \<not> is_ascii_upper c) p" if "glob p (to_ascii_lowercase host)" for p
  proof -
    have "\<not> is_ascii_upper STAR" "\<not> is_ascii_upper QUESTION"
      by (simp_all add: STAR_def QUESTION_def ch_def is_ascii_upper_def)
    then show ?thesis
      using glob_literal [OF that] lowercase_no_upper by (metis list_all_iff)
  qed
  show ?thesis
    unfolding host_line_matches_def host_line_fold using low by auto
qed

end
