(* ===== verification/Host_Parse.thy ===== *)
theory Host_Parse
  imports Rd_Text
begin

text \<open>
  The lexer of hosts files and \<open>-o\<close> options,
  \<^verbatim>\<open>crates/rdpilot-config/src/hosts/parse.rs\<close>: a line is split into keyword and
  rest, the rest into words with double quotes and a comment, or taken as one shell
  command. A \<open>Result\<close> is a sum with the error on the left.
\<close>

subsection \<open>Model\<close>

definition DQUOTE :: uchar where "DQUOTE = 34"
definition BSLASH :: uchar where "BSLASH = 92"
definition HASH :: uchar where "HASH = 35"
definition EQUALS :: uchar where "EQUALS = 61"

lemmas lexer_chars = DQUOTE_def BSLASH_def HASH_def EQUALS_def

lemma lexer_chars_distinct [simp]:
  "DQUOTE \<noteq> BSLASH" "BSLASH \<noteq> DQUOTE" "DQUOTE \<noteq> HASH" "HASH \<noteq> DQUOTE" "EQUALS \<noteq> DQUOTE" "DQUOTE \<noteq> EQUALS"
  "EQUALS \<noteq> HASH" "HASH \<noteq> EQUALS"
  "\<not> is_whitespace DQUOTE" "\<not> is_whitespace HASH" "\<not> is_whitespace EQUALS" "\<not> is_whitespace BSLASH"
  by (simp_all add: lexer_chars is_whitespace_def)

definition split_line :: "ustr \<Rightarrow> (ustr \<times> ustr) option" where
  "split_line line =
     (let line = trim_start line in
      if line = [] \<or> hd line = HASH then None
      else
        (let keyword = takeWhile (\<lambda>c. \<not> (is_whitespace c \<or> c = EQUALS)) line;
             rest = trim_start (dropWhile (\<lambda>c. \<not> (is_whitespace c \<or> c = EQUALS)) line);
             rest = (case strip_prefix [EQUALS] rest of
                       Some after' \<Rightarrow> trim_start after'
                     | None \<Rightarrow> rest)
         in Some (keyword, trim_end rest)))"

text \<open>After the loop of \<open>words\<close>.\<close>

definition words_end :: "ustr list \<Rightarrow> ustr \<Rightarrow> bool \<Rightarrow> bool \<Rightarrow> ustr + ustr list" where
  "words_end out cur in_word in_quote =
     (if in_quote then Inl (lit ''unterminated double quote'')
      else if in_word then Inr (out @ [cur]) else Inr out)"

fun words_loop :: "ustr \<Rightarrow> ustr list \<Rightarrow> ustr \<Rightarrow> bool \<Rightarrow> bool \<Rightarrow> ustr + ustr list" where
  "words_loop [] out cur in_word in_quote = words_end out cur in_word in_quote"
| "words_loop (c # cs) out cur in_word in_quote =
     (if in_quote then
        (if c = BSLASH \<and> cs \<noteq> [] \<and> hd cs \<in> {DQUOTE, BSLASH}
         then words_loop (tl cs) out (cur @ [hd cs]) in_word True
         else if c = DQUOTE then words_loop cs out cur in_word False
         else words_loop cs out (cur @ [c]) in_word True)
      else if c = DQUOTE then words_loop cs out cur True True
      else if is_whitespace c then
        (if in_word then words_loop cs (out @ [cur]) [] False False
         else words_loop cs out cur False False)
      else if c = HASH \<and> \<not> in_word then words_end out cur in_word in_quote
      else words_loop cs out (cur @ [c]) True False)"

definition words :: "ustr \<Rightarrow> ustr + ustr list" where
  "words rest = words_loop rest [] [] False False"

text \<open>The loop of \<open>command_value\<close>; \<open>None\<close> says that the whole rest is returned.\<close>

fun unquote :: "ustr \<Rightarrow> ustr \<Rightarrow> ustr option" where
  "unquote [] out = None"
| "unquote (c # cs) out =
     (if c = BSLASH \<and> cs \<noteq> [] \<and> hd cs \<in> {DQUOTE, BSLASH} then unquote (tl cs) (out @ [hd cs])
      else if c = DQUOTE then (if cs = [] then Some out else None)
      else unquote cs (out @ [c]))"

definition command_value :: "ustr \<Rightarrow> ustr" where
  "command_value rest =
     (case strip_prefix [DQUOTE] rest of
        None \<Rightarrow> rest
      | Some body \<Rightarrow> (case unquote body [] of Some out \<Rightarrow> out | None \<Rightarrow> rest))"

subsection \<open>Writing what the lexer reads\<close>

definition escape :: "ustr \<Rightarrow> ustr" where
  "escape w = concat (map (\<lambda>c. if c \<in> {DQUOTE, BSLASH} then [BSLASH, c] else [c]) w)"

definition quote :: "ustr \<Rightarrow> ustr" where
  "quote w = DQUOTE # escape w @ [DQUOTE]"

text \<open>A word that needs no quotes.\<close>

definition plain :: "ustr \<Rightarrow> bool" where
  "plain w \<longleftrightarrow> w \<noteq> [] \<and> hd w \<noteq> HASH \<and> list_all (\<lambda>c. c \<noteq> DQUOTE \<and> \<not> is_whitespace c) w"

definition writes :: "ustr \<Rightarrow> ustr \<Rightarrow> bool" where
  "writes w r \<longleftrightarrow> r = quote w \<or> (plain w \<and> r = w)"

lemma escape_simps [simp]:
  "escape [] = []"
  "escape (c # w) = (if c \<in> {DQUOTE, BSLASH} then [BSLASH, c] else [c]) @ escape w"
  by (simp_all add: escape_def)

lemma words_loop_escape:
  "words_loop (escape w @ DQUOTE # cs) out cur in_word True = words_loop cs out (cur @ w) in_word False"
proof (induction w arbitrary: cur)
  case (Cons c w)
  then show ?case by (cases "c = DQUOTE"; cases "c = BSLASH") auto
qed simp

lemma words_loop_quote:
  "words_loop (quote w @ cs) out cur in_word False = words_loop cs out (cur @ w) True False"
  by (simp add: quote_def words_loop_escape)

lemma words_loop_plain_rest:
  "list_all (\<lambda>c. c \<noteq> DQUOTE \<and> \<not> is_whitespace c) w \<Longrightarrow>
   words_loop (w @ cs) out cur True False = words_loop cs out (cur @ w) True False"
  by (induction w arbitrary: cur) auto

lemma words_loop_plain:
  "plain w \<Longrightarrow> words_loop (w @ cs) out cur in_word False = words_loop cs out (cur @ w) True False"
  by (cases w) (auto simp: plain_def words_loop_plain_rest)

lemma words_loop_writes:
  "writes w r \<Longrightarrow> words_loop (r @ cs) out [] False False = words_loop cs out w True False"
  by (auto simp: writes_def words_loop_quote words_loop_plain)

lemma words_loop_spaces:
  "list_all is_whitespace sep \<Longrightarrow> words_loop (sep @ cs) out cur False False = words_loop cs out cur False False"
  by (induction sep) auto

lemma words_loop_gap:
  "list_all is_whitespace sep \<Longrightarrow> sep \<noteq> [] \<Longrightarrow>
   words_loop (sep @ cs) out cur True False = words_loop cs (out @ [cur]) [] False False"
  by (cases sep) (auto simp: words_loop_spaces)

text \<open>The words of a line, each in one of its written forms and followed by its gap.\<close>

definition line_of :: "(ustr \<times> ustr) list \<Rightarrow> ustr" where
  "line_of rs = concat (map (\<lambda>(r, sep). r @ sep) rs)"

definition gap :: "ustr \<Rightarrow> bool" where
  "gap sep \<longleftrightarrow> sep \<noteq> [] \<and> list_all is_whitespace sep"

definition comment :: "ustr \<Rightarrow> bool" where
  "comment s \<longleftrightarrow> s = [] \<or> hd s = HASH"

lemma words_loop_line:
  "list_all2 (\<lambda>w (r, sep). writes w r \<and> gap sep) ws rs \<Longrightarrow> comment end' \<Longrightarrow>
   words_loop (line_of rs @ end') out [] False False = Inr (out @ ws)"
proof (induction ws rs arbitrary: out rule: list_all2_induct)
  case Nil
  then show ?case
    by (cases end') (auto simp: line_of_def comment_def words_end_def)
next
  case (Cons w r ws rs)
  then show ?case
    by (auto simp: line_of_def words_loop_writes words_loop_gap gap_def split: prod.splits)
qed

text \<open>
  Every list of words can be written in a hosts file and is read back: with each word
  in double quotes (with a backslash before quotes and backslashes) or bare where it may
  be, any white space between them, and a comment at the end, \<open>words\<close> returns the list.
\<close>

theorem words_roundtrip:
  assumes "list_all2 (\<lambda>w (r, sep). writes w r \<and> gap sep) ws rs" and "comment end'"
  shows "words (line_of rs @ end') = Inr ws"
  using words_loop_line [OF assms, of "[]"] by (simp add: words_def)

theorem words_roundtrip_witness:
  "words (line_of [(lit ''web1'', [32]), (quote (lit ''a \"b''), [9, 32])] @ lit ''# note'')
     = Inr [lit ''web1'', lit ''a \"b'']"
proof (rule words_roundtrip)
  show "list_all2 (\<lambda>w (r, sep). writes w r \<and> gap sep) [lit ''web1'', lit ''a \"b'']
      [(lit ''web1'', [32]), (quote (lit ''a \"b''), [9, 32])]"
    by (simp add: writes_def plain_def gap_def lit_def lexer_chars is_whitespace_def)
  show "comment (lit ''# note'')" by (simp add: comment_def lit_def lexer_chars)
qed

lemma unquote_escape: "unquote (escape w @ DQUOTE # cs) out = (if cs = [] then Some (out @ w) else None)"
proof (induction w arbitrary: out)
  case (Cons c w)
  then show ?case by (cases "c = DQUOTE"; cases "c = BSLASH") auto
qed simp

lemma command_value_quote [simp]: "command_value (quote c) = c"
  by (simp add: command_value_def quote_def unquote_escape)

lemma command_value_plain: "rest = [] \<or> hd rest \<noteq> DQUOTE \<Longrightarrow> command_value rest = rest"
  by (cases rest) (auto simp: command_value_def split: option.splits)

subsection \<open>Keyword and rest\<close>

definition keyword_text :: "ustr \<Rightarrow> bool" where
  "keyword_text k \<longleftrightarrow> k \<noteq> [] \<and> hd k \<noteq> HASH \<and> list_all (\<lambda>c. \<not> is_whitespace c \<and> c \<noteq> EQUALS) k"

definition trimmed :: "ustr \<Rightarrow> bool" where
  "trimmed r \<longleftrightarrow> r = [] \<or> (\<not> is_whitespace (hd r) \<and> \<not> is_whitespace (last r))"

text \<open>What may stand between keyword and rest: one equals sign, or white space.\<close>

definition separator :: "ustr \<Rightarrow> ustr \<Rightarrow> bool" where
  "separator r s \<longleftrightarrow>
     (\<exists>a b. s = a @ EQUALS # b \<and> list_all is_whitespace a \<and> list_all is_whitespace b)
     \<or> (gap s \<and> (r = [] \<or> hd r \<noteq> EQUALS))"

lemma trim_start_spaces: "list_all is_whitespace s \<Longrightarrow> trim_start (s @ t) = trim_start t"
  by (induction s) (auto simp: trim_start_def)

lemma trim_start_trimmed: "trimmed r \<Longrightarrow> list_all is_whitespace s \<Longrightarrow>
    trim_start (r @ s) = (if r = [] then [] else r @ s)"
  by (cases r) (auto simp: trimmed_def trim_start_def dropWhile_eq_Nil_conv list_all_iff)

lemma trim_end_trimmed:
  assumes "trimmed r" "list_all is_whitespace s"
  shows "trim_end (r @ s) = r"
proof -
  have "dropWhile is_whitespace (rev s @ rev r) = dropWhile is_whitespace (rev r)"
    using assms(2) by (subst dropWhile_append2) (auto simp: list_all_iff)
  also have "\<dots> = rev r"
    using assms(1) by (cases r rule: rev_cases) (auto simp: trimmed_def)
  finally show ?thesis by (simp add: trim_end_def)
qed

lemma trim_end_Nil [simp]: "trim_end [] = []"
  by (simp add: trim_end_def)

lemma split_line_keyword:
  assumes k: "keyword_text k" and a: "list_all is_whitespace a"
    and s: "s = [] \<or> is_whitespace (hd s) \<or> hd s = EQUALS"
  shows "split_line (a @ k @ s) =
    Some (k, trim_end (case strip_prefix [EQUALS] (trim_start s) of
                         Some after' \<Rightarrow> trim_start after' | None \<Rightarrow> trim_start s))"
proof -
  let ?P = "\<lambda>c. \<not> (is_whitespace c \<or> c = EQUALS)"
  have ks: "trim_start (a @ k @ s) = k @ s"
    unfolding trim_start_spaces [OF a] using k by (cases k) (auto simp: keyword_text_def trim_start_def)
  have P: "\<forall>c \<in> set k. ?P c" using k by (auto simp: keyword_text_def list_all_iff)
  have "takeWhile ?P (k @ s) = k" "dropWhile ?P (k @ s) = s"
    using P s by (simp_all add: takeWhile_append2 dropWhile_append2, (cases s; auto)+)
  moreover have "k @ s \<noteq> []" "hd (k @ s) \<noteq> HASH" using k by (auto simp: keyword_text_def)
  ultimately show ?thesis by (simp only: split_line_def ks Let_def if_False simp_thms)
qed

text \<open>
  \<open>Keyword value\<close> and \<open>Keyword=value\<close> are the same line: with any indentation, one
  equals sign or white space between, and white space at the end, the line splits into
  exactly the keyword and the value.
\<close>

theorem split_line_roundtrip:
  assumes k: "keyword_text k" and r: "trimmed r" and s: "separator r s"
    and a: "list_all is_whitespace a" and b: "list_all is_whitespace b"
  shows "split_line (a @ k @ s @ r @ b) = Some (k, r)"
proof -
  have stop: "s @ r @ b = [] \<or> is_whitespace (hd (s @ r @ b)) \<or> hd (s @ r @ b) = EQUALS"
    using s unfolding separator_def gap_def
    by (cases s) (auto simp: Cons_eq_append_conv)
  consider (eq) a' b' where "s = a' @ EQUALS # b'" "list_all is_whitespace a'" "list_all is_whitespace b'"
    | (blank) "gap s" "r = [] \<or> hd r \<noteq> EQUALS"
    using s unfolding separator_def by blast
  then show ?thesis
  proof cases
    case eq
    moreover have "trim_start (EQUALS # t) = EQUALS # t" for t by (simp add: trim_start_def)
    ultimately show ?thesis
      using split_line_keyword [OF k a stop] r b
      by (simp add: trim_start_spaces trim_start_trimmed trim_end_trimmed)
  next
    case blank
    then have "trim_start (s @ r @ b) = (if r = [] then [] else r @ b)"
      using trim_start_trimmed [OF r b] by (simp add: gap_def trim_start_spaces)
    then show ?thesis
      using split_line_keyword [OF k a stop] trim_end_trimmed [OF r b] blank(2) by (cases r) simp_all
  qed
qed

theorem split_line_roundtrip_witness:
  "split_line ([32, 32] @ lit ''Port'' @ lit '' = '' @ lit ''3390'' @ [32]) = Some (lit ''Port'', lit ''3390'')"
proof (rule split_line_roundtrip)
  show "separator (lit ''3390'') (lit '' = '')"
    unfolding separator_def
    by (rule disjI1, rule exI [of _ "[32]"], rule exI [of _ "[32]"])
      (simp add: lit_def lexer_chars is_whitespace_def)
qed (simp_all add: keyword_text_def trimmed_def lit_def lexer_chars is_whitespace_def)

end
