(* ===== verification/Host_Target.thy ===== *)
theory Host_Target
  imports Host_Parse
begin

text \<open>
  The keyword table of hosts files (\<^verbatim>\<open>crates/rdpilot-config/src/hosts/keywords.rs\<close>) and the
  connection targets (\<^verbatim>\<open>crates/rdpilot-config/src/hosts/target.rs\<close>). What the crates
  \<open>url\<close> and \<open>percent-encoding\<close> do is a parameter, the record \<open>url_library\<close>; the
  \<open>Debug\<close> form of a text, which depends on the tables of the Unicode version, is one too.
\<close>

subsection \<open>Results\<close>

fun and_then :: "'e + 'a \<Rightarrow> ('a \<Rightarrow> 'e + 'b) \<Rightarrow> 'e + 'b" where
  "and_then (Inl e) f = Inl e"
| "and_then (Inr x) f = f x"

lemma and_then_Inr_iff: "and_then r f = Inr y \<longleftrightarrow> (\<exists>x. r = Inr x \<and> f x = Inr y)"
  by (cases r) auto

fun map_err :: "('e \<Rightarrow> 'f) \<Rightarrow> 'e + 'a \<Rightarrow> 'f + 'a" where
  "map_err f (Inl e) = Inl (f e)"
| "map_err f (Inr x) = Inr x"

lemma map_err_Inr_iff [simp]: "map_err f r = Inr y \<longleftrightarrow> r = Inr y"
  by (cases r) auto

fun ok_or :: "'e \<Rightarrow> 'a option \<Rightarrow> 'e + 'a" where
  "ok_or e None = Inl e"
| "ok_or e (Some x) = Inr x"

lemma ok_or_Inr_iff [simp]: "ok_or e x = Inr y \<longleftrightarrow> x = Some y"
  by (cases x) auto

text \<open>The text before and after the first occurrence of a pattern.\<close>

fun split_once :: "ustr \<Rightarrow> ustr \<Rightarrow> (ustr \<times> ustr) option" where
  "split_once p [] = (if p = [] then Some ([], []) else None)"
| "split_once p (c # s) =
     (case strip_prefix p (c # s) of
        Some t \<Rightarrow> Some ([], t)
      | None \<Rightarrow> map_option (\<lambda>(a, b). (c # a, b)) (split_once p s))"

lemma split_once_Some: "split_once p s = Some (a, b) \<Longrightarrow> s = a @ p @ b"
proof (induction p s arbitrary: a rule: split_once.induct)
  case (2 p c s)
  then show ?case by (auto simp: strip_prefix_Some_iff split: option.splits)
qed (auto split: if_splits)

subsection \<open>The keyword table\<close>

datatype kind = TextKind | PortKind | YesNo | Command | IncludeKind | CuaVersionKind

datatype slot =
    HostNameSlot | PortSlot | UserSlot | DomainSlot | CredentialSlot | AcceptInvalidCertsSlot
  | CuaEnabledSlot | CuaVersionSlot | CuaAutoDownloadSlot | IncludeSlot

record keyword =
  kw_name :: ustr
  kw_kind :: kind
  kw_slot :: slot
  kw_secret :: bool

definition keyword_row :: "string \<Rightarrow> kind \<Rightarrow> slot \<Rightarrow> bool \<Rightarrow> keyword" where
  "keyword_row n k s sec = \<lparr>kw_name = lit n, kw_kind = k, kw_slot = s, kw_secret = sec\<rparr>"

definition KEYWORDS :: "keyword list" where
  "KEYWORDS =
     [keyword_row ''HostName'' TextKind HostNameSlot False,
      keyword_row ''Port'' PortKind PortSlot False,
      keyword_row ''User'' TextKind UserSlot False,
      keyword_row ''Domain'' TextKind DomainSlot False,
      keyword_row ''Password'' TextKind CredentialSlot True,
      keyword_row ''PasswordCommand'' Command CredentialSlot False,
      keyword_row ''AcceptInvalidCerts'' YesNo AcceptInvalidCertsSlot False,
      keyword_row ''CuaEnabled'' YesNo CuaEnabledSlot False,
      keyword_row ''CuaVersion'' CuaVersionKind CuaVersionSlot False,
      keyword_row ''CuaAutoDownload'' YesNo CuaAutoDownloadSlot False,
      keyword_row ''Include'' IncludeKind IncludeSlot False]"

definition PORT :: nat where "PORT = 1"
definition USER :: nat where "USER = 2"
definition DOMAIN :: nat where "DOMAIN = 3"
definition PASSWORD :: nat where "PASSWORD = 4"

definition lookup :: "ustr \<Rightarrow> keyword option" where
  "lookup name = find (\<lambda>k. eq_ignore_ascii_case (kw_name k) name) KEYWORDS"

text \<open>The position in the table; the names in it are distinct, so a row is its name.\<close>

fun index_in :: "keyword list \<Rightarrow> keyword \<Rightarrow> nat option" where
  "index_in [] kw = None"
| "index_in (k # ks) kw = (if k = kw then Some 0 else map_option Suc (index_in ks kw))"

definition index_of :: "keyword \<Rightarrow> nat" where
  "index_of kw = (case index_in KEYWORDS kw of Some i \<Rightarrow> i | None \<Rightarrow> u64_max)"

definition validate_cua_version :: "(ustr \<Rightarrow> ustr) \<Rightarrow> ustr \<Rightarrow> ustr + ustr" where
  "validate_cua_version debug v =
     (if v \<noteq> [] \<and> str_len v \<le> 128
         \<and> list_all (\<lambda>b. is_ascii_alphanumeric b \<or> b \<in> set (lit ''._-'')) v
      then Inr v
      else Inl (debug v @ lit '' is not latest-dev, latest or a release tag (letters, digits, ''
                @ [39, 46, 39] @ lit '', '' @ [39, 95, 39] @ lit '', '' @ [39, 45, 39] @ lit '')''))"

definition validate :: "(ustr \<Rightarrow> ustr) \<Rightarrow> keyword \<Rightarrow> ustr \<Rightarrow> ustr + ustr" where
  "validate debug kw v =
     (case kw_kind kw of
        PortKind \<Rightarrow>
          (case parse_unsigned 65535 v of
             Some p \<Rightarrow> if p \<noteq> 0 then Inr (dec p)
                       else Inl (kw_name kw @ lit '' must be a port number from 1 to 65535'')
           | None \<Rightarrow> Inl (kw_name kw @ lit '' must be a port number from 1 to 65535''))
      | YesNo \<Rightarrow>
          (if to_ascii_lowercase v = lit ''yes'' then Inr (lit ''yes'')
           else if to_ascii_lowercase v = lit ''no'' then Inr (lit ''no'')
           else Inl (kw_name kw @ lit '' must be yes or no''))
      | CuaVersionKind \<Rightarrow> map_err (\<lambda>e. kw_name kw @ lit '': '' @ e) (validate_cua_version debug v)
      | _ \<Rightarrow> if v = [] then Inl (kw_name kw @ lit '' needs a value'') else Inr v)"

text \<open>What a validated value is, per kind.\<close>

definition valid_value :: "kind \<Rightarrow> ustr \<Rightarrow> bool" where
  "valid_value k v =
     (case k of
        PortKind \<Rightarrow> (\<exists>p. 1 \<le> p \<and> p \<le> 65535 \<and> v = dec p)
      | YesNo \<Rightarrow> v = lit ''yes'' \<or> v = lit ''no''
      | CuaVersionKind \<Rightarrow> v \<noteq> [] \<and> length v \<le> 128
          \<and> list_all (\<lambda>b. is_ascii_alphanumeric b \<or> b \<in> set (lit ''._-'')) v
      | _ \<Rightarrow> v \<noteq> [])"

lemma validate_valid: "validate debug kw v = Inr w \<Longrightarrow> valid_value (kw_kind kw) w"
proof (cases "kw_kind kw")
  case PortKind
  moreover assume "validate debug kw v = Inr w"
  ultimately obtain p where "parse_unsigned 65535 v = Some p" "p \<noteq> 0" "w = dec p"
    by (auto simp: validate_def split: option.splits if_splits)
  moreover from this have "1 \<le> p" "p \<le> 65535" using parse_unsigned_le [of 65535 v p] by auto
  ultimately show ?thesis using PortKind by (auto simp: valid_value_def intro!: exI [of _ p])
next
  case CuaVersionKind
  moreover assume "validate debug kw v = Inr w"
  ultimately show ?thesis
    using length_le_str_len [of v]
    by (auto simp: validate_def validate_cua_version_def valid_value_def split: if_splits)
qed (auto simp: validate_def valid_value_def split: if_splits)

lemma lookup_in_table: "lookup name = Some kw \<Longrightarrow> kw \<in> set KEYWORDS"
  by (auto simp: lookup_def find_Some_iff)

lemma table_distinct: "distinct (map kw_name KEYWORDS)"
  by code_simp

lemma index_in_nth: "index_in ks kw = Some i \<Longrightarrow> i < length ks \<and> ks ! i = kw"
  by (induction ks arbitrary: i) (auto split: if_splits)

lemma index_in_None: "index_in ks kw = None \<longleftrightarrow> kw \<notin> set ks"
  by (induction ks) auto

lemma index_of_nth: "kw \<in> set KEYWORDS \<Longrightarrow> index_of kw < length KEYWORDS \<and> KEYWORDS ! index_of kw = kw"
  using index_in_None [of KEYWORDS kw] index_in_nth [of KEYWORDS kw]
  by (auto simp: index_of_def split: option.splits)

lemma index_of_inj: "inj_on index_of (set KEYWORDS)"
  by (metis index_of_nth inj_onI)

subsection \<open>Targets\<close>

datatype url_host = DomainHost ustr | Ipv4Host ustr | Ipv6Host ustr

record url =
  url_host_part :: "url_host option"
  url_username :: ustr
  url_password :: "ustr option"
  url_port :: "nat option"
  url_path :: ustr
  url_query :: "ustr option"
  url_fragment :: "ustr option"

text \<open>
  \<open>url_parse\<close> is \<open>Url::parse\<close>, with the error as it is displayed; an address of an IP host
  is its displayed form. \<open>percent_decode\<close> is \<open>percent_decode_str(s).decode_utf8()\<close>.
\<close>

record url_library =
  url_parse :: "ustr \<Rightarrow> ustr + url"
  percent_decode :: "ustr \<Rightarrow> ustr option"

record url_target =
  ut_scheme :: ustr
  ut_user :: "ustr option"
  ut_domain :: "ustr option"
  ut_password :: "ustr option"
  ut_host :: ustr
  ut_port :: "nat option"

datatype target = AliasTarget ustr | UrlTarget url_target

definition decode :: "url_library \<Rightarrow> ustr \<Rightarrow> ustr + ustr" where
  "decode lib s = ok_or (lit ''the RDP URL contains percent-encoding that is not UTF-8'') (percent_decode lib s)"

definition non_empty :: "ustr \<Rightarrow> ustr option" where
  "non_empty s = (if s = [] then None else Some s)"

definition show_url_target :: "url_target \<Rightarrow> ustr" where
  "show_url_target u =
     ut_scheme u @ lit ''://''
     @ (if ut_user u \<noteq> None \<or> ut_domain u \<noteq> None \<or> ut_password u \<noteq> None
        then (case ut_domain u of Some d \<Rightarrow> d @ [BSLASH] | None \<Rightarrow> [])
             @ (case ut_user u of Some n \<Rightarrow> n | None \<Rightarrow> [])
             @ (if ut_password u \<noteq> None then lit '':***'' else [])
             @ lit ''@''
        else [])
     @ (if ch CHR '':'' \<in> set (ut_host u) then lit ''['' @ ut_host u @ lit '']'' else ut_host u)
     @ (case ut_port u of Some p \<Rightarrow> lit '':'' @ dec p | None \<Rightarrow> [])"

fun show_target :: "target \<Rightarrow> ustr" where
  "show_target (AliasTarget a) = a"
| "show_target (UrlTarget u) = show_url_target u"

fun target_name :: "target \<Rightarrow> ustr" where
  "target_name (AliasTarget a) = a"
| "target_name (UrlTarget u) = ut_host u"

definition host_text :: "url_library \<Rightarrow> url_host option \<Rightarrow> ustr + ustr" where
  "host_text lib h =
     (case h of
        Some (Ipv6Host a) \<Rightarrow> Inr a
      | Some (Ipv4Host a) \<Rightarrow> Inr a
      | Some (DomainHost d) \<Rightarrow> if d \<noteq> [] then decode lib d else Inl (lit ''the RDP URL has no host'')
      | None \<Rightarrow> Inl (lit ''the RDP URL has no host''))"

definition split_user :: "ustr \<Rightarrow> ustr option \<times> ustr option" where
  "split_user raw =
     (case split_once [BSLASH] raw of
        Some (d, u) \<Rightarrow> (non_empty d, non_empty u)
      | None \<Rightarrow> (None, non_empty raw))"

definition decode_password :: "url_library \<Rightarrow> ustr option \<Rightarrow> ustr + ustr option" where
  "decode_password lib p =
     (case p of Some q \<Rightarrow> and_then (decode lib q) (\<lambda>d. Inr (non_empty d)) | None \<Rightarrow> Inr None)"

definition refuse_rest :: "url \<Rightarrow> url_target \<Rightarrow> ustr + target" where
  "refuse_rest u parsed =
     (if url_path u \<noteq> [] then
        Inl (show_url_target parsed @ lit '': the RDP URL must not have a path (not even a trailing /)'')
      else if url_query u \<noteq> None then
        Inl (show_url_target parsed @ lit '': the RDP URL must not have a query'')
      else if url_fragment u \<noteq> None then
        Inl (show_url_target parsed @ lit '': the RDP URL must not have a fragment'')
      else Inr (UrlTarget parsed))"

definition parse_target :: "url_library \<Rightarrow> ustr \<Rightarrow> ustr + target" where
  "parse_target lib inp =
     (if inp = [] then Inl (lit ''the target is empty'')
      else
        (case split_once (lit ''://'') inp of
           None \<Rightarrow> Inr (AliasTarget inp)
         | Some (s, _) \<Rightarrow>
             (let scheme = to_ascii_lowercase s in
              if scheme \<noteq> lit ''rdp'' \<and> scheme \<noteq> lit ''rdps'' then
                Inl (lit ''unsupported URL scheme \"'' @ scheme @ lit ''\" (expected rdp:// or rdps://)'')
              else
                and_then (map_err (\<lambda>e. lit ''invalid RDP URL: '' @ e) (url_parse lib inp)) (\<lambda>u.
                and_then (host_text lib (url_host_part u)) (\<lambda>host.
                and_then (decode lib (url_username u)) (\<lambda>raw_user.
                and_then (decode_password lib (url_password u)) (\<lambda>password.
                  refuse_rest u
                    \<lparr>ut_scheme = scheme, ut_user = snd (split_user raw_user),
                     ut_domain = fst (split_user raw_user), ut_password = password,
                     ut_host = host, ut_port = url_port u\<rparr>)))))))"

subsection \<open>What the user sees of a target\<close>

lemma show_hides_password:
  "show_url_target (u\<lparr>ut_password := Some a\<rparr>) = show_url_target (u\<lparr>ut_password := Some b\<rparr>)"
  by (simp add: show_url_target_def)

end
