(* ===== verification/Host_Resolve.thy ===== *)
theory Host_Resolve
  imports Host_Pattern Host_Target
begin

text \<open>
  Resolution of a target, \<^verbatim>\<open>crates/rdpilot-config/src/hosts/resolve.rs\<close>: URL components,
  then \<open>-o\<close> options, then the hosts file with its \<open>Include\<close>s, then the built-in default,
  the first value for each slot winning. The file system and the crates \<open>glob\<close> and \<open>url\<close>
  are the parameter \<open>platform\<close>, over a type \<open>'p\<close> of paths with their order.
\<close>

unbundle bit_operations_syntax

subsection \<open>The platform\<close>

datatype read_result = Contents ustr | FileNotFound ustr | Unreadable ustr

record 'p platform =
  pf_url :: url_library
  pf_debug :: "ustr \<Rightarrow> ustr"
  pf_read :: "'p \<Rightarrow> read_result"
  pf_canonicalize :: "'p \<Rightarrow> 'p option"
  pf_is_file :: "'p \<Rightarrow> bool"
  pf_mode :: "'p \<Rightarrow> ustr + u32"
  pf_glob :: "ustr \<Rightarrow> ustr + 'p option list"
  pf_path :: "ustr \<Rightarrow> 'p"
  pf_join :: "'p \<Rightarrow> 'p \<Rightarrow> 'p"
  pf_is_absolute :: "'p \<Rightarrow> bool"
  pf_lossy :: "'p \<Rightarrow> ustr"
  pf_display :: "'p \<Rightarrow> ustr"
  pf_unix :: bool

subsection \<open>Settings\<close>

datatype 'p source = SourceUrl | SourceOption nat | SourceFile 'p nat | SourceDefault

fun show_source :: "'p platform \<Rightarrow> 'p source \<Rightarrow> ustr" where
  "show_source pf SourceUrl = lit ''url''"
| "show_source pf (SourceOption n) = lit ''-o #'' @ dec n"
| "show_source pf (SourceFile path line) = pf_display pf path @ lit '':'' @ dec line"
| "show_source pf SourceDefault = lit ''built-in default''"

record 'p setting =
  st_kw :: keyword
  st_value :: ustr
  st_source :: "'p source"

definition display_value :: "'p setting \<Rightarrow> ustr" where
  "display_value s = (if kw_secret (st_kw s) then lit ''<redacted>'' else st_value s)"

record config_row =
  row_keyword :: ustr
  row_value :: ustr
  row_source :: ustr

record 'p hosts_input =
  hi_target :: ustr
  hi_options :: "ustr list"
  hi_file :: "'p option"
  hi_config_dir :: "'p option"
  hi_home :: "'p option"

record 'p resolved_host =
  rh_target :: target
  rh_host_name :: ustr
  rh_settings :: "'p setting list"

definition DEFAULT_PORT :: nat where "DEFAULT_PORT = 3389"
definition MAX_INCLUDE_DEPTH :: nat where "MAX_INCLUDE_DEPTH = 16"

definition find_setting :: "ustr \<Rightarrow> 'p resolved_host \<Rightarrow> 'p setting option" where
  "find_setting name h = find (\<lambda>s. kw_name (st_kw s) = name) (rh_settings h)"

definition host_port :: "'p resolved_host \<Rightarrow> nat option" where
  "host_port h = Option.bind (find_setting (lit ''Port'') h) (\<lambda>s. parse_unsigned 65535 (st_value s))"

definition host_user :: "'p resolved_host \<Rightarrow> ustr option" where
  "host_user h = map_option st_value (find_setting (lit ''User'') h)"

definition host_domain :: "'p resolved_host \<Rightarrow> ustr option" where
  "host_domain h = map_option st_value (find_setting (lit ''Domain'') h)"

definition host_password :: "'p resolved_host \<Rightarrow> ustr option" where
  "host_password h = map_option st_value (find_setting (lit ''Password'') h)"

definition password_command :: "'p resolved_host \<Rightarrow> ustr option" where
  "password_command h = map_option st_value (find_setting (lit ''PasswordCommand'') h)"

definition is_value :: "ustr \<Rightarrow> 'p setting option \<Rightarrow> bool" where
  "is_value v s = (case s of Some x \<Rightarrow> st_value x = v | None \<Rightarrow> False)"

definition accept_invalid_certs :: "'p resolved_host \<Rightarrow> bool" where
  "accept_invalid_certs h = is_value (lit ''yes'') (find_setting (lit ''AcceptInvalidCerts'') h)"

definition cua_enabled :: "'p resolved_host \<Rightarrow> bool" where
  "cua_enabled h = (\<not> is_value (lit ''no'') (find_setting (lit ''CuaEnabled'') h))"

definition cua_version :: "'p resolved_host \<Rightarrow> ustr" where
  "cua_version h = (case find_setting (lit ''CuaVersion'') h of Some s \<Rightarrow> st_value s | None \<Rightarrow> lit ''latest-dev'')"

definition cua_auto_download :: "'p resolved_host \<Rightarrow> bool" where
  "cua_auto_download h = (\<not> is_value (lit ''no'') (find_setting (lit ''CuaAutoDownload'') h))"

definition row_rank :: "config_row \<Rightarrow> nat" where
  "row_rank r = (case lookup (row_keyword r) of Some kw \<Rightarrow> index_of kw | None \<Rightarrow> u64_max)"

definition setting_row :: "'p platform \<Rightarrow> 'p setting \<Rightarrow> config_row" where
  "setting_row pf s =
     \<lparr>row_keyword = kw_name (st_kw s), row_value = display_value s, row_source = show_source pf (st_source s)\<rparr>"

definition rows :: "'p platform \<Rightarrow> 'p resolved_host \<Rightarrow> config_row list" where
  "rows pf h =
     sort_key row_rank
       ((if find_setting (lit ''HostName'') h = None
         then [\<lparr>row_keyword = lit ''HostName'', row_value = rh_host_name h, row_source = lit ''target name''\<rparr>]
         else [])
        @ (if find_setting (lit ''Port'') h = None
           then [\<lparr>row_keyword = lit ''Port'', row_value = dec DEFAULT_PORT,
                  row_source = lit ''not set; rdpilot default''\<rparr>]
           else [])
        @ map (setting_row pf) (rh_settings h))"

subsection \<open>Reading text\<close>

datatype 'p origin = OriginFile 'p | OriginDefault

fun origin_label :: "'p platform \<Rightarrow> 'p origin \<Rightarrow> ustr" where
  "origin_label pf (OriginFile p) = pf_display pf p"
| "origin_label pf OriginDefault = lit ''built-in default''"

fun line_source :: "'p origin \<Rightarrow> nat \<Rightarrow> 'p source" where
  "line_source (OriginFile p) n = SourceFile p n"
| "line_source OriginDefault n = SourceDefault"

text \<open>The fields of \<open>Collector\<close> that do not change; its settings are passed on their own.\<close>

record 'p collector =
  co_platform :: "'p platform"
  co_name :: ustr
  co_config_dir :: "'p option"
  co_home :: "'p option"

definition offer :: "'p setting \<Rightarrow> 'p setting list \<Rightarrow> 'p setting list" where
  "offer c ss = (if \<exists>s \<in> set ss. kw_slot (st_kw s) = kw_slot (st_kw c) then ss else ss @ [c])"

text \<open>\<open>str::lines\<close>: a line ends with LF or CR LF, and the last one needs no end.\<close>

definition strip_cr :: "ustr \<Rightarrow> ustr" where
  "strip_cr l = (if l \<noteq> [] \<and> last l = 13 then butlast l else l)"

function text_lines :: "ustr \<Rightarrow> ustr list" where
  "text_lines t =
     (if t = [] then []
      else if 10 \<in> set t
      then strip_cr (takeWhile (\<lambda>c. c \<noteq> 10) t) # text_lines (tl (dropWhile (\<lambda>c. c \<noteq> 10) t))
      else [t])"
  by auto
termination
proof (relation "measure length")
  fix t :: ustr
  assume "10 \<in> set t"
  then have "dropWhile (\<lambda>c. c \<noteq> 10) t \<noteq> []" by (simp add: dropWhile_eq_Nil_conv)
  then show "(tl (dropWhile (\<lambda>c. c \<noteq> 10) t), t) \<in> measure length"
    using length_dropWhile_le [of "\<lambda>c. c \<noteq> 10" t] by (cases "dropWhile (\<lambda>c. c \<noteq> 10) t") auto
qed simp

declare text_lines.simps [simp del]

text \<open>What one line says, or its error without the position.\<close>

datatype line_meaning =
    BlankLine
  | HostLine bool
  | IncludeLine "ustr list"
  | ValueLine keyword ustr

definition one_word :: "ustr \<Rightarrow> ustr list \<Rightarrow> ustr + ustr" where
  "one_word e w = (if length w = 1 then Inr (hd w) else Inl e)"

definition read_line :: "'p collector \<Rightarrow> ustr \<Rightarrow> ustr + line_meaning" where
  "read_line co line =
     (case split_line line of
        None \<Rightarrow> Inr BlankLine
      | Some (word, rest) \<Rightarrow>
          if eq_ignore_ascii_case word (lit ''Host'') then
            and_then (words rest) (\<lambda>pats.
              if pats = [] then Inl (lit ''Host needs at least one pattern'')
              else Inr (HostLine (host_line_matches pats (co_name co))))
          else if eq_ignore_ascii_case word (lit ''Match'') then Inl (lit ''Match is not supported'')
          else
            (case lookup word of
               None \<Rightarrow> Inl (lit ''unknown keyword \"'' @ word @ lit ''\"'')
             | Some kw \<Rightarrow>
                 (case kw_kind kw of
                    IncludeKind \<Rightarrow>
                      and_then (words rest) (\<lambda>pats.
                        if pats = [] then Inl (lit ''Include needs a path'') else Inr (IncludeLine pats))
                  | Command \<Rightarrow>
                      and_then (validate (pf_debug (co_platform co)) kw (command_value rest)) (\<lambda>v.
                        Inr (ValueLine kw v))
                  | _ \<Rightarrow>
                      and_then (words rest) (\<lambda>ws.
                      and_then (one_word (kw_name kw @ lit '' expects exactly one value (quote values that contain spaces)'') ws) (\<lambda>w.
                      and_then (validate (pf_debug (co_platform co)) kw w) (\<lambda>v.
                        Inr (ValueLine kw v)))))))"

text \<open>The files an \<open>Include\<close> pattern names, in the order they are read.\<close>

definition include_paths :: "'p::linorder collector \<Rightarrow> ustr \<Rightarrow> ustr + 'p list" where
  "include_paths co pat =
     (let pf = co_platform co;
          expanded = (case (strip_prefix (lit ''~/'') pat, co_home co) of
                        (Some tail', Some home) \<Rightarrow> pf_join pf home (pf_path pf tail')
                      | _ \<Rightarrow> pf_path pf pat);
          full = (case co_config_dir co of
                    Some dir \<Rightarrow> if pf_is_absolute pf expanded then expanded else pf_join pf dir expanded
                  | None \<Rightarrow> expanded)
      in and_then (map_err (\<lambda>e. lit ''invalid Include pattern: '' @ e) (pf_glob pf (pf_lossy pf full))) (\<lambda>found.
           Inr (sort (filter (pf_is_file pf) (List.map_filter id found)))))"

definition canonical :: "'p platform \<Rightarrow> 'p \<Rightarrow> 'p" where
  "canonical pf file = (case pf_canonicalize pf file of Some c \<Rightarrow> c | None \<Rightarrow> file)"

definition at_line :: "'p platform \<Rightarrow> 'p origin \<Rightarrow> nat \<Rightarrow> ustr \<Rightarrow> ustr" where
  "at_line pf org n msg = origin_label pf org @ lit '':'' @ dec n @ lit '': '' @ msg"

definition check_include :: "'p platform \<Rightarrow> 'p list \<Rightarrow> 'p \<Rightarrow> ustr + ustr" where
  "check_include pf stack file =
     (if canonical pf file \<in> set stack
      then Inl (lit ''Include cycle: '' @ pf_display pf file @ lit '' is already being read'')
      else if MAX_INCLUDE_DEPTH \<le> length stack
      then Inl (lit ''Include nested more than '' @ dec MAX_INCLUDE_DEPTH @ lit '' levels deep at '' @ pf_display pf file)
      else (case pf_read pf file of
              Contents t \<Rightarrow> Inr t
            | FileNotFound e \<Rightarrow> Inl (lit ''cannot read '' @ pf_display pf file @ lit '': '' @ e)
            | Unreadable e \<Rightarrow> Inl (lit ''cannot read '' @ pf_display pf file @ lit '': '' @ e)))"

lemma check_include_depth: "check_include pf stack file = Inr t \<Longrightarrow> length stack < MAX_INCLUDE_DEPTH"
  by (auto simp: check_include_def split: if_splits)

text \<open>
  The loops of \<open>load_text\<close>, of its \<open>Include\<close> branch and of \<open>include\<close>. They end because
  a file is read only while the stack is shorter than \<open>MAX_INCLUDE_DEPTH\<close>.
\<close>

function load_lines ::
    "'p::linorder collector \<Rightarrow> 'p origin \<Rightarrow> 'p list \<Rightarrow> nat \<Rightarrow> bool \<Rightarrow> ustr list \<Rightarrow> 'p setting list \<Rightarrow>
     ustr + 'p setting list"
  and include_all ::
    "'p::linorder collector \<Rightarrow> 'p list \<Rightarrow> ustr list \<Rightarrow> 'p setting list \<Rightarrow> ustr + 'p setting list"
  and include_files ::
    "'p::linorder collector \<Rightarrow> 'p list \<Rightarrow> 'p list \<Rightarrow> 'p setting list \<Rightarrow> ustr + 'p setting list"
where
  "load_lines co org stack n active [] ss = Inr ss"
| "load_lines co org stack n active (line # ls) ss =
     (case read_line co line of
        Inl e \<Rightarrow> Inl (at_line (co_platform co) org n e)
      | Inr BlankLine \<Rightarrow> load_lines co org stack (Suc n) active ls ss
      | Inr (HostLine m) \<Rightarrow> load_lines co org stack (Suc n) m ls ss
      | Inr (IncludeLine pats) \<Rightarrow>
          if active then
            (case include_all co stack pats ss of
               Inl e \<Rightarrow> Inl (at_line (co_platform co) org n e)
             | Inr ss' \<Rightarrow> load_lines co org stack (Suc n) active ls ss')
          else load_lines co org stack (Suc n) active ls ss
      | Inr (ValueLine kw v) \<Rightarrow>
          load_lines co org stack (Suc n) active ls
            (if active then offer \<lparr>st_kw = kw, st_value = v, st_source = line_source org n\<rparr> ss else ss))"
| "include_all co stack [] ss = Inr ss"
| "include_all co stack (pat # pats) ss =
     (case include_paths co pat of
        Inl e \<Rightarrow> Inl e
      | Inr files \<Rightarrow>
          (case include_files co stack files ss of
             Inl e \<Rightarrow> Inl e
           | Inr ss' \<Rightarrow> include_all co stack pats ss'))"
| "include_files co stack [] ss = Inr ss"
| "include_files co stack (file # files) ss =
     (case check_include (co_platform co) stack file of
        Inl e \<Rightarrow> Inl e
      | Inr t \<Rightarrow>
          (case load_lines co (OriginFile file) (stack @ [canonical (co_platform co) file]) 1 True (text_lines t) ss of
             Inl e \<Rightarrow> Inl e
           | Inr ss' \<Rightarrow> include_files co stack files ss'))"
  by pat_completeness auto
termination
proof (relation "measures
    [case_sum (\<lambda>(co, org, stack, _). MAX_INCLUDE_DEPTH - length stack)
       (case_sum (\<lambda>(co, stack, _). MAX_INCLUDE_DEPTH - length stack)
                 (\<lambda>(co, stack, _). MAX_INCLUDE_DEPTH - length stack)),
     case_sum (\<lambda>_. 2) (case_sum (\<lambda>_. 1) (\<lambda>_. 0)),
     case_sum (\<lambda>(co, org, stack, n, active, ls, ss). length ls)
       (case_sum (\<lambda>(co, stack, pats, ss). length pats) (\<lambda>(co, stack, files, ss). length files))]")
qed (auto dest: check_include_depth)

declare load_lines.simps(2) [simp del] include_all.simps(2) [simp del] include_files.simps(2) [simp del]

definition load_text ::
  "'p::linorder collector \<Rightarrow> ustr \<Rightarrow> 'p origin \<Rightarrow> 'p list \<Rightarrow> 'p setting list \<Rightarrow> ustr + 'p setting list" where
  "load_text co t org stack ss = load_lines co org stack 1 True (text_lines t) ss"

definition load_file ::
  "'p::linorder collector \<Rightarrow> 'p \<Rightarrow> bool \<Rightarrow> 'p setting list \<Rightarrow> ustr + 'p setting list" where
  "load_file co path must_exist ss =
     (let pf = co_platform co in
      case pf_read pf path of
        Contents t \<Rightarrow> load_text co t (OriginFile path) [canonical pf path] ss
      | FileNotFound e \<Rightarrow>
          if must_exist then Inl (lit ''cannot read '' @ pf_display pf path @ lit '': '' @ e) else Inr ss
      | Unreadable e \<Rightarrow> Inl (lit ''cannot read '' @ pf_display pf path @ lit '': '' @ e))"

subsection \<open>Resolution\<close>

definition BUILT_IN_DEFAULT :: ustr where
  "BUILT_IN_DEFAULT =
     lit ''Host *'' @ [10] @ lit ''  CuaEnabled yes'' @ [10] @ lit ''  CuaVersion latest-dev'' @ [10]
     @ lit ''  CuaAutoDownload yes'' @ [10]"

text \<open>The components of a URL, in the order in which they are offered; they are not validated.\<close>

definition offer_at :: "nat \<Rightarrow> ustr option \<Rightarrow> 'p setting list \<Rightarrow> 'p setting list" where
  "offer_at i v ss =
     (case v of
        Some x \<Rightarrow>
          if i < length KEYWORDS
          then offer \<lparr>st_kw = KEYWORDS ! i, st_value = x, st_source = SourceUrl\<rparr> ss else ss
      | None \<Rightarrow> ss)"

fun offer_url :: "target \<Rightarrow> 'p setting list \<Rightarrow> 'p setting list" where
  "offer_url (AliasTarget a) ss = ss"
| "offer_url (UrlTarget u) ss =
     offer_at PORT (map_option dec (ut_port u))
       (offer_at PASSWORD (ut_password u)
         (offer_at DOMAIN (ut_domain u) (offer_at USER (ut_user u) ss)))"

definition at_option :: "nat \<Rightarrow> ustr \<Rightarrow> ustr" where
  "at_option n msg = lit ''-o #'' @ dec n @ lit '': '' @ msg"

definition option_keyword :: "ustr \<Rightarrow> ustr + keyword" where
  "option_keyword word =
     (let refused = (if to_ascii_lowercase word \<in> {lit ''host'', lit ''match'', lit ''include''}
                     then word @ lit '' cannot be used with -o''
                     else lit ''unknown keyword \"'' @ word @ lit ''\"'') in
      case lookup word of
        Some kw \<Rightarrow> if kw_kind kw \<noteq> IncludeKind then Inr kw else Inl refused
      | None \<Rightarrow> Inl refused)"

definition read_option :: "(ustr \<Rightarrow> ustr) \<Rightarrow> ustr \<Rightarrow> ustr + keyword \<times> ustr" where
  "read_option debug opt =
     and_then (ok_or (lit ''expected Keyword=value'') (split_line opt)) (\<lambda>(word, rest).
     and_then (option_keyword word) (\<lambda>kw.
     and_then (if kw_kind kw = Command then Inr (command_value rest)
               else and_then (words rest) (one_word (kw_name kw @ lit '' expects exactly one value''))) (\<lambda>v.
     and_then (validate debug kw v) (\<lambda>w. Inr (kw, w)))))"

fun load_options :: "(ustr \<Rightarrow> ustr) \<Rightarrow> nat \<Rightarrow> ustr list \<Rightarrow> 'p setting list \<Rightarrow> ustr + 'p setting list" where
  "load_options debug n [] ss = Inr ss"
| "load_options debug n (opt # opts) ss =
     (case read_option debug opt of
        Inl e \<Rightarrow> Inl (at_option n e)
      | Inr (kw, v) \<Rightarrow>
          load_options debug (Suc n) opts
            (offer \<lparr>st_kw = kw, st_value = v, st_source = SourceOption n\<rparr> ss))"

definition load_hosts :: "'p::linorder collector \<Rightarrow> 'p hosts_input \<Rightarrow> 'p setting list \<Rightarrow> ustr + 'p setting list" where
  "load_hosts co inp ss =
     (case hi_file inp of
        Some file \<Rightarrow> load_file co file True ss
      | None \<Rightarrow>
          (case hi_config_dir inp of
             Some dir \<Rightarrow> load_file co (pf_join (co_platform co) dir (pf_path (co_platform co) (lit ''hosts''))) False ss
           | None \<Rightarrow> Inr ss))"

definition PERCENT :: uchar where "PERCENT = 37"

fun expand_host_name :: "ustr \<Rightarrow> ustr \<Rightarrow> ustr \<Rightarrow> ustr + ustr" where
  "expand_host_name name [] out = Inr out"
| "expand_host_name name (c # cs) out =
     (if c \<noteq> PERCENT then expand_host_name name cs (out @ [c])
      else
        (case cs of
           [] \<Rightarrow> Inl (lit ''HostName: trailing % (write %% for a literal %)'')
         | t # cs' \<Rightarrow>
             if t = ch CHR ''h'' then expand_host_name name cs' (out @ name)
             else if t = PERCENT then expand_host_name name cs' (out @ [PERCENT])
             else Inl (lit ''HostName: unknown token %'' @ [t] @ lit '' (only %h and %% are allowed)'')))"

definition READABLE_BY_OTHERS :: u32 where "READABLE_BY_OTHERS = 0x24"

definition check_permissions :: "'p platform \<Rightarrow> 'p resolved_host \<Rightarrow> ustr + unit" where
  "check_permissions pf h =
     (if \<not> pf_unix pf then Inr ()
      else
        (case find_setting (lit ''Password'') h of
           None \<Rightarrow> Inr ()
         | Some s \<Rightarrow>
             (case st_source s of
                SourceFile path _ \<Rightarrow>
                  and_then (map_err (\<lambda>e. lit ''cannot stat '' @ pf_display pf path @ lit '': '' @ e) (pf_mode pf path)) (\<lambda>m.
                    if m AND READABLE_BY_OTHERS \<noteq> 0
                    then Inl (pf_display pf path
                              @ lit '' contains a Password but is readable by other users; run: chmod 600 ''
                              @ pf_display pf path)
                    else Inr ())
              | _ \<Rightarrow> Inr ())))"

definition new_collector :: "'p platform \<Rightarrow> 'p hosts_input \<Rightarrow> target \<Rightarrow> 'p collector" where
  "new_collector pf inp t =
     \<lparr>co_platform = pf, co_name = target_name t, co_config_dir = hi_config_dir inp, co_home = hi_home inp\<rparr>"

definition resolved_name :: "target \<Rightarrow> 'p setting list \<Rightarrow> ustr + ustr" where
  "resolved_name t ss =
     (case find (\<lambda>s. kw_name (st_kw s) = lit ''HostName'') ss of
        Some s \<Rightarrow> expand_host_name (target_name t) (st_value s) []
      | None \<Rightarrow> Inr (target_name t))"

definition resolve_host :: "'p::linorder platform \<Rightarrow> 'p hosts_input \<Rightarrow> ustr + 'p resolved_host" where
  "resolve_host pf inp =
     and_then (parse_target (pf_url pf) (hi_target inp)) (\<lambda>t.
     let co = new_collector pf inp t in
     and_then (load_options (pf_debug pf) 1 (hi_options inp) (offer_url t [])) (\<lambda>ss.
     and_then (load_hosts co inp ss) (\<lambda>ss.
     and_then (load_text co BUILT_IN_DEFAULT OriginDefault [] ss) (\<lambda>ss.
     and_then (resolved_name t ss) (\<lambda>name.
     let h = \<lparr>rh_target = t, rh_host_name = name, rh_settings = sort_key (index_of \<circ> st_kw) ss\<rparr> in
     and_then (check_permissions pf h) (\<lambda>_. Inr h))))))"

end
