(* ===== verification/Host_Facts.thy ===== *)
theory Host_Facts
  imports Host_Resolve "HOL-Library.Multiset"
begin

text \<open>
  What a resolution is: reading never depends on the settings found so far, so a resolution
  is one list of candidates, of which the first of each slot is kept.
\<close>

subsection \<open>The first of each slot\<close>

abbreviation slot_of :: "'p setting \<Rightarrow> slot" where "slot_of s \<equiv> kw_slot (st_kw s)"

definition offers :: "'p setting list \<Rightarrow> 'p setting list \<Rightarrow> 'p setting list" where
  "offers cs ss = fold offer cs ss"

lemma offers_simps [simp]:
  "offers [] ss = ss" "offers (c # cs) ss = offers cs (offer c ss)"
  "offers (cs @ ds) ss = offers ds (offers cs ss)"
  by (simp_all add: offers_def)

definition first_of :: "slot \<Rightarrow> 'p setting list \<Rightarrow> 'p setting option" where
  "first_of k cs = find (\<lambda>s. slot_of s = k) cs"

lemma first_of_append: "first_of k (cs @ ds) = (case first_of k cs of Some s \<Rightarrow> Some s | None \<Rightarrow> first_of k ds)"
  by (induction cs) (auto simp: first_of_def)

lemma first_of_None: "first_of k cs = None \<longleftrightarrow> (\<forall>s \<in> set cs. slot_of s \<noteq> k)"
  by (auto simp: first_of_def find_None_iff)

lemma first_of_Some_set: "first_of k cs = Some s \<Longrightarrow> s \<in> set cs \<and> slot_of s = k"
  by (auto simp: first_of_def find_Some_iff)

lemma first_of_offer:
  "first_of k (offer c ss) = (case first_of k ss of Some s \<Rightarrow> Some s | None \<Rightarrow> first_of k [c])"
proof (cases "\<exists>s \<in> set ss. slot_of s = slot_of c")
  case True
  then have "slot_of c = k \<Longrightarrow> first_of k ss \<noteq> None" by (auto simp: first_of_None)
  with True show ?thesis by (auto simp: offer_def first_of_def split: option.splits)
next
  case False
  then have "offer c ss = ss @ [c]" by (simp add: offer_def)
  then show ?thesis by (simp add: first_of_append)
qed

lemma first_of_Nil [simp]: "first_of k [] = None"
  by (simp add: first_of_def)

lemma first_of_Cons [simp]: "first_of k (c # cs) = (if slot_of c = k then Some c else first_of k cs)"
  by (simp add: first_of_def)

interpretation slots: first_wins first_of offer slot_of
  by unfold_locales (simp add: first_of_offer split: option.splits)

lemma first_of_offers: "first_of k (offers cs ss) = first_of k (ss @ cs)"
  unfolding offers_def slots.get_puts first_of_append first_of_def [of k cs] ..

lemma offers_distinct: "distinct (map slot_of ss) \<Longrightarrow> distinct (map slot_of (offers cs ss))"
proof (induction cs arbitrary: ss)
  case (Cons c cs)
  have "distinct (map slot_of (offer c ss))" using Cons.prems by (auto simp: offer_def)
  with Cons.IH show ?case by simp
qed simp

lemma offers_subset: "set (offers cs ss) \<subseteq> set ss \<union> set cs"
proof (induction cs arbitrary: ss)
  case (Cons c cs)
  have "set (offer c ss) \<subseteq> insert c (set ss)" by (auto simp: offer_def)
  with Cons [of "offer c ss"] show ?case by auto
qed simp

lemma first_of_distinct:
  "distinct (map slot_of ss) \<Longrightarrow> s \<in> set ss \<Longrightarrow> first_of (slot_of s) ss = Some s"
  by (induction ss) (auto simp: first_of_def)

lemma first_of_perm:
  assumes "distinct (map slot_of ss)" "set ts = set ss" "distinct (map slot_of ts)"
  shows "first_of k ts = first_of k ss"
proof (cases "first_of k ss")
  case None
  then have "first_of k ts = None" using assms(2) by (simp add: first_of_None)
  with None show ?thesis by simp
next
  case (Some s)
  then have "s \<in> set ts" "slot_of s = k" using assms(2) first_of_Some_set by auto
  then show ?thesis using Some first_of_distinct [OF assms(3)] by auto
qed

subsection \<open>Reading is uniform\<close>

text \<open>
  An operation on settings that only offers candidates, the same whatever the settings are,
  or fails the same whatever they are. All its candidates satisfy \<open>Q\<close>.
\<close>

definition uniform :: "('p setting \<Rightarrow> bool) \<Rightarrow> ('p setting list \<Rightarrow> 'e + 'p setting list) \<Rightarrow> bool" where
  "uniform Q F \<longleftrightarrow>
     (\<exists>e. \<forall>ss. F ss = Inl e) \<or> (\<exists>cs. list_all Q cs \<and> (\<forall>ss. F ss = Inr (offers cs ss)))"

lemma uniform_fail: "uniform Q (\<lambda>ss. Inl e)"
  by (auto simp: uniform_def)

lemma uniform_skip: "uniform Q Inr"
  unfolding uniform_def by (rule disjI2, rule exI [of _ "[]"]) simp

lemma uniform_then:
  assumes F: "uniform Q F" and G: "\<And>ss'. F start = Inr ss' \<Longrightarrow> uniform Q G"
    and H: "\<And>ss. H ss = (case F ss of Inl e \<Rightarrow> Inl (f e) | Inr ss' \<Rightarrow> G ss')"
  shows "uniform Q H"
proof (cases "\<exists>e. \<forall>ss. F ss = Inl e")
  case True
  then show ?thesis by (auto simp: uniform_def H)
next
  case False
  then obtain cs where cs: "list_all Q cs" "\<And>ss. F ss = Inr (offers cs ss)"
    using F by (auto simp: uniform_def)
  from G [OF cs(2)] consider e where "\<And>ss. G ss = Inl e"
    | ds where "list_all Q ds" "\<And>ss. G ss = Inr (offers ds ss)"
    by (auto simp: uniform_def)
  then show ?thesis
  proof cases
    case 1
    then show ?thesis by (auto simp: uniform_def H cs)
  next
    case 2
    then have "list_all Q (cs @ ds) \<and> (\<forall>ss. H ss = Inr (offers (cs @ ds) ss))"
      by (simp add: H cs)
    then show ?thesis unfolding uniform_def by blast
  qed
qed

lemma uniform_offer:
  assumes "Q c" "uniform Q G" "\<And>ss. H ss = G (offer c ss)"
  shows "uniform Q H"
proof (rule uniform_then [where F = "\<lambda>ss. Inr (offer c ss)" and G = G])
  show "uniform Q (\<lambda>ss. Inr (offer c ss))"
    unfolding uniform_def using assms(1) by (intro disjI2 exI [of _ "[c]"]) simp
qed (simp_all add: assms)

lemma uniform_mono: "uniform Q F \<Longrightarrow> (\<And>s. Q s \<Longrightarrow> R s) \<Longrightarrow> uniform R F"
  unfolding uniform_def by (metis (no_types, lifting) list.pred_mono_strong)

text \<open>What is known of a candidate that a text or an option gives.\<close>

definition checked :: "'p setting \<Rightarrow> bool" where
  "checked s \<longleftrightarrow> st_kw s \<in> set KEYWORDS \<and> kw_kind (st_kw s) \<noteq> IncludeKind
     \<and> valid_value (kw_kind (st_kw s)) (st_value s)"

fun from_file :: "'p source \<Rightarrow> bool" where
  "from_file (SourceFile p n) = True"
| "from_file _ = False"

definition file_candidate :: "'p setting \<Rightarrow> bool" where
  "file_candidate s \<longleftrightarrow> checked s \<and> from_file (st_source s)"

lemma read_line_value:
  assumes "read_line co line = Inr (ValueLine kw v)"
  shows "kw \<in> set KEYWORDS \<and> kw_kind kw \<noteq> IncludeKind \<and> valid_value (kw_kind kw) v"
proof (cases "split_line line")
  case None
  with assms show ?thesis by (simp add: read_line_def)
next
  case (Some p)
  obtain word rest where p: "p = (word, rest)" by (cases p)
  have "lookup word = Some kw \<and> kw_kind kw \<noteq> IncludeKind
      \<and> (\<exists>w. validate (pf_debug (co_platform co)) kw w = Inr v)"
    using assms unfolding read_line_def Some p
    by (cases "lookup word"; cases "kw_kind (the (lookup word))")
      (auto simp: and_then_Inr_iff split: if_splits)
  then show ?thesis using lookup_in_table validate_valid by metis
qed

lemma load_lines_step:
  fixes co :: "'p::linorder collector"
  assumes org: "from_file (line_source org n)"
    and more': "\<And>m m'. m = BlankLine \<or> m = HostLine m' \<or> (\<exists>ps. m = IncludeLine ps \<and> \<not> active)
                  \<or> (\<exists>kw v. m = ValueLine kw v) \<Longrightarrow> read_line co line = Inr m \<Longrightarrow>
                  uniform file_candidate
                    (load_lines co org stack (Suc n) (case m of HostLine b \<Rightarrow> b | _ \<Rightarrow> active) ls)"
    and incl: "\<And>ps. read_line co line = Inr (IncludeLine ps) \<Longrightarrow> active \<Longrightarrow>
                  uniform file_candidate (include_all co stack ps)"
    and incl_more: "\<And>ps ss'. read_line co line = Inr (IncludeLine ps) \<Longrightarrow> active \<Longrightarrow>
                  include_all co stack ps ss = Inr ss' \<Longrightarrow>
                  uniform file_candidate (load_lines co org stack (Suc n) active ls)"
  shows "uniform file_candidate (load_lines co org stack n active (line # ls))"
proof (cases "read_line co line")
  case (Inl e)
  then have "load_lines co org stack n active (line # ls) = (\<lambda>ss. Inl (at_line (co_platform co) org n e))"
    by (simp add: load_lines.simps fun_eq_iff)
  then show ?thesis by (simp add: uniform_fail)
next
  case (Inr m)
  show ?thesis
  proof (cases m)
    case BlankLine
    then have "load_lines co org stack n active (line # ls) = load_lines co org stack (Suc n) active ls"
      using Inr by (simp add: load_lines.simps fun_eq_iff)
    then show ?thesis using more' [of m] Inr BlankLine by simp
  next
    case (HostLine b)
    then have "load_lines co org stack n active (line # ls) = load_lines co org stack (Suc n) b ls"
      using Inr by (simp add: load_lines.simps fun_eq_iff)
    then show ?thesis using more' [of m] Inr HostLine by simp
  next
    case (IncludeLine ps)
    show ?thesis
    proof (cases active)
      case True
      show ?thesis
        by (rule uniform_then [where start = ss and F = "include_all co stack ps"
              and G = "load_lines co org stack (Suc n) active ls"
              and f = "at_line (co_platform co) org n"])
          (use Inr IncludeLine True incl incl_more in \<open>auto simp: load_lines.simps split: sum.splits\<close>)
    next
      case False
      then have "load_lines co org stack n active (line # ls) = load_lines co org stack (Suc n) active ls"
        using Inr IncludeLine by (simp add: load_lines.simps fun_eq_iff)
      then show ?thesis using more' [of m] Inr IncludeLine False by simp
    qed
  next
    case (ValueLine kw v)
    have rest: "uniform file_candidate (load_lines co org stack (Suc n) active ls)"
      using more' [of m] Inr ValueLine by simp
    show ?thesis
    proof (cases active)
      case True
      let ?c = "\<lparr>st_kw = kw, st_value = v, st_source = line_source org n\<rparr>"
      have "file_candidate ?c"
        using read_line_value [of co line kw v] Inr ValueLine org
        by (simp add: file_candidate_def checked_def)
      then show ?thesis
        by (rule uniform_offer [OF _ rest]) (simp add: load_lines.simps Inr ValueLine True)
    next
      case False
      then have "load_lines co org stack n active (line # ls) = load_lines co org stack (Suc n) active ls"
        using Inr ValueLine by (simp add: load_lines.simps fun_eq_iff)
      then show ?thesis using rest by simp
    qed
  qed
qed

lemma from_file_origin: "from_file (line_source org n) \<longleftrightarrow> from_file (line_source org m)"
  by (cases org) simp_all

lemma load_uniform:
  fixes co :: "'p::linorder collector" and ss :: "'p setting list"
  shows "from_file (line_source org n) \<longrightarrow> uniform file_candidate (load_lines co org stack n active ls)"
    and "uniform file_candidate (include_all co stack pats)"
    and "uniform file_candidate (include_files co stack files)"
proof (induction co org stack n active ls ss and co stack pats ss and co stack files ss
    rule: load_lines_include_all_include_files.induct)
  case (2 co org stack n active line ls ss)
  show ?case
  proof
    assume org: "from_file (line_source org n)"
    then have org': "from_file (line_source org (Suc n))" using from_file_origin by blast
    show "uniform file_candidate (load_lines co org stack n active (line # ls))"
      by (rule load_lines_step [OF org]) (use 2 org' in auto)
  qed
next
  case (4 co stack pat pats ss)
  show ?case
  proof (cases "include_paths co pat")
    case (Inl e)
    then have "include_all co stack (pat # pats) = (\<lambda>ss. Inl e)"
      by (simp add: include_all.simps fun_eq_iff)
    then show ?thesis by (simp add: uniform_fail)
  next
    case (Inr files)
    show ?thesis
      by (rule uniform_then [where start = ss and F = "include_files co stack files"
            and G = "include_all co stack pats" and f = id])
        (use 4 Inr in \<open>auto simp: include_all.simps split: sum.splits\<close>)
  qed
next
  case (6 co stack path paths ss)
  show ?case
  proof (cases "check_include (co_platform co) stack path")
    case (Inl e)
    then have "include_files co stack (path # paths) = (\<lambda>ss. Inl e)"
      by (simp add: include_files.simps fun_eq_iff)
    then show ?thesis by (simp add: uniform_fail)
  next
    case (Inr t)
    show ?thesis
      by (rule uniform_then [where start = ss
            and F = "load_lines co (OriginFile path) (stack @ [canonical (co_platform co) path]) 1 True (text_lines t)"
            and G = "include_files co stack paths" and f = id])
        (use 6 Inr in \<open>auto simp: include_files.simps split: sum.splits\<close>)
  qed
qed (simp_all add: uniform_skip load_lines.simps(1) include_all.simps(1) include_files.simps(1))

lemma load_file_uniform: "uniform file_candidate (load_file co path must)"
proof -
  consider t where "pf_read (co_platform co) path = Contents t"
    | e where "pf_read (co_platform co) path = FileNotFound e"
    | e where "pf_read (co_platform co) path = Unreadable e"
    by (cases "pf_read (co_platform co) path")
  then show ?thesis
  proof cases
    case (1 t)
    have "uniform file_candidate
        (load_lines co (OriginFile path) [canonical (co_platform co) path] 1 True (text_lines t))"
      using load_uniform(1) [of "OriginFile path" 1] by simp
    moreover have "load_file co path must =
        load_lines co (OriginFile path) [canonical (co_platform co) path] 1 True (text_lines t)"
      by (simp add: fun_eq_iff load_file_def load_text_def 1 Let_def)
    ultimately show ?thesis by simp
  next
    case (2 e)
    then have "load_file co path must =
        (if must then (\<lambda>ss. Inl (lit ''cannot read '' @ pf_display (co_platform co) path @ lit '': '' @ e)) else Inr)"
      by (simp add: fun_eq_iff load_file_def Let_def)
    then show ?thesis by (simp add: uniform_fail uniform_skip)
  next
    case (3 e)
    then have "load_file co path must =
        (\<lambda>ss. Inl (lit ''cannot read '' @ pf_display (co_platform co) path @ lit '': '' @ e))"
      by (simp add: fun_eq_iff load_file_def Let_def)
    then show ?thesis by (simp add: uniform_fail)
  qed
qed

lemma load_hosts_uniform: "uniform file_candidate (load_hosts co inp)"
proof (cases "hi_file inp")
  case (Some path)
  then have "load_hosts co inp = load_file co path True" by (simp add: fun_eq_iff load_hosts_def)
  then show ?thesis by (simp add: load_file_uniform)
next
  case None
  show ?thesis
  proof (cases "hi_config_dir inp")
    case None
    with \<open>hi_file inp = None\<close> have "load_hosts co inp = Inr" by (simp add: fun_eq_iff load_hosts_def)
    then show ?thesis by (simp add: uniform_skip)
  next
    case (Some dir)
    with \<open>hi_file inp = None\<close> have "load_hosts co inp =
        load_file co (pf_join (co_platform co) dir (pf_path (co_platform co) (lit ''hosts''))) False"
      by (simp add: fun_eq_iff load_hosts_def)
    then show ?thesis by (simp add: load_file_uniform)
  qed
qed

subsection \<open>The candidates of a resolution\<close>

definition url_setting :: "nat \<Rightarrow> ustr option \<Rightarrow> 'p setting list" where
  "url_setting i v =
     (case v of Some x \<Rightarrow> [\<lparr>st_kw = KEYWORDS ! i, st_value = x, st_source = SourceUrl\<rparr>] | None \<Rightarrow> [])"

fun url_settings :: "target \<Rightarrow> 'p setting list" where
  "url_settings (AliasTarget a) = []"
| "url_settings (UrlTarget u) =
     url_setting USER (ut_user u) @ url_setting DOMAIN (ut_domain u)
     @ url_setting PASSWORD (ut_password u) @ url_setting PORT (map_option dec (ut_port u))"

fun option_settings :: "(ustr \<Rightarrow> ustr) \<Rightarrow> nat \<Rightarrow> ustr list \<Rightarrow> 'p setting list" where
  "option_settings debug n [] = []"
| "option_settings debug n (opt # opts) =
     (case read_option debug opt of
        Inr (kw, v) \<Rightarrow> [\<lparr>st_kw = kw, st_value = v, st_source = SourceOption n\<rparr>]
      | Inl e \<Rightarrow> [])
     @ option_settings debug (Suc n) opts"

definition default_setting :: "nat \<Rightarrow> string \<Rightarrow> 'p setting" where
  "default_setting i v = \<lparr>st_kw = KEYWORDS ! i, st_value = lit v, st_source = SourceDefault\<rparr>"

definition default_settings :: "'p setting list" where
  "default_settings = [default_setting 7 ''yes'', default_setting 8 ''latest-dev'', default_setting 9 ''yes'']"

lemma length_KEYWORDS: "length KEYWORDS = 11"
  by (simp add: KEYWORDS_def)

lemma offer_at_offers: "i < 11 \<Longrightarrow> offer_at i v ss = offers (url_setting i v) ss"
  by (cases v) (simp_all add: offer_at_def url_setting_def length_KEYWORDS)

lemma offer_url_offers: "offer_url t ss = offers (url_settings t) ss"
  by (cases t) (simp_all add: offer_at_offers USER_def DOMAIN_def PASSWORD_def PORT_def)

lemma load_options_offers: "load_options debug n opts ss = Inr ss' \<Longrightarrow> ss' = offers (option_settings debug n opts) ss"
proof (induction opts arbitrary: n ss)
  case (Cons opt opts)
  then show ?case by (cases "read_option debug opt") (auto split: prod.splits)
qed simp

lemma BUILT_IN_lines: "text_lines BUILT_IN_DEFAULT =
    [lit ''Host *'', lit ''  CuaEnabled yes'', lit ''  CuaVersion latest-dev'', lit ''  CuaAutoDownload yes'']"
  by code_simp

lemma host_line_star: "host_line_matches [lit ''*''] name"
proof -
  have "lit ''*'' = [STAR]" by (simp add: lit_def STAR_def ch_def)
  then have "glob (lit ''*'') (to_ascii_lowercase name)"
    by (auto intro: exI [of _ "length (to_ascii_lowercase name)"])
  moreover have "lit ''*'' \<noteq> ch CHR ''!'' # neg" for neg by (simp add: lit_def ch_def)
  ultimately show ?thesis
    using host_line_fold [of "to_ascii_lowercase name" "[lit ''*'']" False]
    by (simp add: host_line_matches_def)
qed

lemmas lex_simps =
  lit_def split_line_def words_def words_end_def lexer_chars is_whitespace_def trim_start_def trim_end_def

lemmas table_simps =
  lookup_def KEYWORDS_def keyword_row_def eq_ignore_ascii_case_def to_ascii_lowercase_def
  to_ascii_lower_def is_ascii_upper_def validate_def validate_cua_version_def
  is_ascii_alphanumeric_def is_ascii_digit_def is_ascii_lower_def str_len_def char_utf8_len_def

lemma read_host_star: "read_line co (lit ''Host *'') = Inr (HostLine True)"
proof -
  have "split_line (lit ''Host *'') = Some (lit ''Host'', lit ''*'')" by (simp add: lex_simps)
  moreover have "words (lit ''*'') = Inr [lit ''*'']" by (simp add: lex_simps)
  ultimately show ?thesis by (simp add: read_line_def host_line_star)
qed

lemma read_value_line:
  assumes "split_line line = Some (word, rest)"
    and "\<not> eq_ignore_ascii_case word (lit ''Host'')" "\<not> eq_ignore_ascii_case word (lit ''Match'')"
    and "lookup word = Some kw" "kw_kind kw \<noteq> IncludeKind" "kw_kind kw \<noteq> Command"
    and "words rest = Inr [w]" "validate (pf_debug (co_platform co)) kw w = Inr v"
  shows "read_line co line = Inr (ValueLine kw v)"
  using assms by (cases "kw_kind kw") (simp_all add: read_line_def one_word_def)

lemma read_cua_enabled: "read_line co (lit ''  CuaEnabled yes'') = Inr (ValueLine (KEYWORDS ! 7) (lit ''yes''))"
  by (rule read_value_line [where word = "lit ''CuaEnabled''" and rest = "lit ''yes''" and w = "lit ''yes''"])
    (simp_all add: lex_simps table_simps)

lemma read_cua_version: "read_line co (lit ''  CuaVersion latest-dev'') = Inr (ValueLine (KEYWORDS ! 8) (lit ''latest-dev''))"
  by (rule read_value_line [where word = "lit ''CuaVersion''" and rest = "lit ''latest-dev''" and w = "lit ''latest-dev''"])
    (simp_all add: lex_simps table_simps)

lemma read_cua_download: "read_line co (lit ''  CuaAutoDownload yes'') = Inr (ValueLine (KEYWORDS ! 9) (lit ''yes''))"
  by (rule read_value_line [where word = "lit ''CuaAutoDownload''" and rest = "lit ''yes''" and w = "lit ''yes''"])
    (simp_all add: lex_simps table_simps)

lemma load_default: "load_text co BUILT_IN_DEFAULT OriginDefault [] ss = Inr (offers default_settings ss)"
  by (simp add: load_text_def BUILT_IN_lines load_lines.simps read_host_star read_cua_enabled
      read_cua_version read_cua_download default_settings_def default_setting_def)

lemma resolve_parts:
  assumes "resolve_host pf inp = Inr h"
  obtains ss files where
    "load_hosts (new_collector pf inp (rh_target h)) inp [] = Inr (offers files [])"
    "list_all file_candidate files"
    "ss = offers (url_settings (rh_target h) @ option_settings (pf_debug pf) 1 (hi_options inp)
                  @ files @ default_settings) []"
    "rh_settings h = sort_key (index_of \<circ> st_kw) ss"
    "check_permissions pf h = Inr ()"
    "resolved_name (rh_target h) ss = Inr (rh_host_name h)"
proof -
  let ?co = "new_collector pf inp (rh_target h)"
  obtain s1 s2 s3 name where
    s1: "load_options (pf_debug pf) 1 (hi_options inp) (offer_url (rh_target h) []) = Inr s1"
    and s2: "load_hosts ?co inp s1 = Inr s2"
    and s3: "load_text ?co BUILT_IN_DEFAULT OriginDefault [] s2 = Inr s3"
    and name: "resolved_name (rh_target h) s3 = Inr name"
    and h: "h = \<lparr>rh_target = rh_target h, rh_host_name = name, rh_settings = sort_key (index_of \<circ> st_kw) s3\<rparr>"
    and ok: "check_permissions pf h = Inr ()"
    using assms by (auto simp: resolve_host_def Let_def and_then_Inr_iff)
  obtain files where files: "list_all file_candidate files" "\<And>ss. load_hosts ?co inp ss = Inr (offers files ss)"
    using load_hosts_uniform [of ?co inp] s2 unfolding uniform_def by (metis Inl_Inr_False)
  have "s3 = offers (url_settings (rh_target h) @ option_settings (pf_debug pf) 1 (hi_options inp)
      @ files @ default_settings) []"
    using load_options_offers [OF s1] s2 s3 by (simp add: offer_url_offers files(2) load_default)
  moreover have "rh_settings h = sort_key (index_of \<circ> st_kw) s3" "rh_host_name h = name"
    by (simp_all add: arg_cong [OF h, of rh_settings, simplified] arg_cong [OF h, of rh_host_name, simplified])
  ultimately show ?thesis using that files ok name by blast
qed

lemma set_url_settings: "s \<in> set (url_settings t) \<Longrightarrow> st_source s = SourceUrl \<and> st_kw s \<in> set KEYWORDS
    \<and> kw_kind (st_kw s) \<noteq> IncludeKind \<and> slot_of s \<in> {UserSlot, DomainSlot, CredentialSlot, PortSlot}"
  by (cases t) (auto simp: url_setting_def KEYWORDS_def keyword_row_def USER_def DOMAIN_def PASSWORD_def
      PORT_def split: option.splits)

lemma read_option_checked:
  assumes "read_option debug opt = Inr (kw, v)"
  shows "kw \<in> set KEYWORDS \<and> kw_kind kw \<noteq> IncludeKind \<and> valid_value (kw_kind kw) v"
proof -
  obtain word w where "option_keyword word = Inr kw" "validate debug kw w = Inr v"
    using assms by (auto simp: read_option_def and_then_Inr_iff)
  moreover from this have "lookup word = Some kw" "kw_kind kw \<noteq> IncludeKind"
    by (auto simp: option_keyword_def Let_def split: option.splits if_splits)
  ultimately show ?thesis using lookup_in_table validate_valid by metis
qed

lemma set_option_settings:
  "s \<in> set (option_settings debug n opts) \<Longrightarrow> checked s \<and> (\<exists>i. n \<le> i \<and> st_source s = SourceOption i)"
proof (induction opts arbitrary: n)
  case (Cons opt opts)
  show ?case
  proof (cases "s \<in> set (option_settings debug (Suc n) opts)")
    case True
    then show ?thesis using Cons.IH Suc_leD by blast
  next
    case False
    then obtain kw v where "read_option debug opt = Inr (kw, v)"
      "s = \<lparr>st_kw = kw, st_value = v, st_source = SourceOption n\<rparr>"
      using Cons.prems by (cases "read_option debug opt") auto
    then show ?thesis using read_option_checked by (fastforce simp: checked_def)
  qed
qed simp

lemma set_default_settings:
  "s \<in> set default_settings \<Longrightarrow> checked s \<and> st_source s = SourceDefault"
  by (auto simp: default_settings_def default_setting_def checked_def KEYWORDS_def keyword_row_def
      valid_value_def lit_def is_ascii_alphanumeric_def is_ascii_digit_def is_ascii_lower_def)

text \<open>
  What a resolved host has: one setting per slot at most, in the order of the table, from
  the table, and checked unless it comes from the URL.
\<close>

definition well_resolved :: "'p resolved_host \<Rightarrow> bool" where
  "well_resolved h \<longleftrightarrow>
     distinct (map slot_of (rh_settings h))
     \<and> sorted (map (index_of \<circ> st_kw) (rh_settings h))
     \<and> (\<forall>s \<in> set (rh_settings h). st_kw s \<in> set KEYWORDS \<and> kw_kind (st_kw s) \<noteq> IncludeKind
          \<and> (checked s \<or> st_source s = SourceUrl \<and> slot_of s \<in> {UserSlot, DomainSlot, CredentialSlot, PortSlot}))"

lemma distinct_sort_key: "distinct (map g (sort_key f ss)) = distinct (map g ss)"
  by (metis mset_eq_imp_distinct_iff mset_map mset_sort)

lemma first_of_sorted:
  "distinct (map slot_of ss) \<Longrightarrow> first_of k (sort_key f ss) = first_of k ss"
  by (rule first_of_perm) (simp_all add: distinct_sort_key)

lemma resolve_first_of:
  assumes "resolve_host pf inp = Inr h"
  obtains files where
    "load_hosts (new_collector pf inp (rh_target h)) inp [] = Inr files"
    "\<And>k. first_of k (rh_settings h) =
       first_of k (url_settings (rh_target h) @ option_settings (pf_debug pf) 1 (hi_options inp)
                   @ files @ default_settings)"
proof -
  from resolve_parts [OF assms] obtain ss files where p:
    "load_hosts (new_collector pf inp (rh_target h)) inp [] = Inr (offers files [])"
    "ss = offers (url_settings (rh_target h) @ option_settings (pf_debug pf) 1 (hi_options inp)
                  @ files @ default_settings) []"
    "rh_settings h = sort_key (index_of \<circ> st_kw) ss"
    by metis
  have "distinct (map slot_of ss)" unfolding p(2) by (rule offers_distinct) simp
  then have "first_of k (rh_settings h) = first_of k ss" for k
    using p(3) first_of_sorted by metis
  moreover have "first_of k (offers files []) = first_of k files" for k
    by (simp add: first_of_offers)
  ultimately show ?thesis
    using that [OF p(1)] by (simp only: p(2) first_of_offers first_of_append append_Nil)
qed

lemma resolve_well:
  assumes "resolve_host pf inp = Inr h"
  shows "well_resolved h"
proof -
  from resolve_parts [OF assms] obtain ss files where p:
    "list_all file_candidate files"
    "ss = offers (url_settings (rh_target h) @ option_settings (pf_debug pf) 1 (hi_options inp)
                  @ files @ default_settings) []"
    "rh_settings h = sort_key (index_of \<circ> st_kw) ss"
    by metis
  have d: "distinct (map slot_of ss)" unfolding p(2) by (rule offers_distinct) simp
  have "st_kw s \<in> set KEYWORDS \<and> kw_kind (st_kw s) \<noteq> IncludeKind
      \<and> (checked s \<or> st_source s = SourceUrl \<and> slot_of s \<in> {UserSlot, DomainSlot, CredentialSlot, PortSlot})"
    if "s \<in> set ss" for s
  proof -
    have "s \<in> set (url_settings (rh_target h)) \<or> s \<in> set (option_settings (pf_debug pf) 1 (hi_options inp))
        \<or> s \<in> set files \<or> s \<in> set default_settings"
      using that offers_subset unfolding p(2) by fastforce
    moreover have "checked s" if "s \<in> set files"
      using that p(1) by (simp add: file_candidate_def list_all_iff)
    ultimately have "checked s \<or> s \<in> set (url_settings (rh_target h))"
      using set_option_settings set_default_settings by blast
    then show ?thesis
      using set_url_settings [of s] by (auto simp: checked_def)
  qed
  moreover have "distinct (map slot_of (sort_key (index_of \<circ> st_kw) ss))"
    using d by (simp add: distinct_sort_key)
  ultimately show ?thesis by (simp add: well_resolved_def p(3))
qed

end
