(* ===== verification/Host_Properties.thy ===== *)
theory Host_Properties
  imports Host_Facts
begin

text \<open>
  What holds of every host that \<open>resolve_host\<close> returns
  (\<^verbatim>\<open>crates/rdpilot-config/src/hosts/resolve.rs\<close>), with an example that is evaluated.
\<close>

subsection \<open>Settings by name\<close>

lemma find_setting_Some:
  "find_setting n h = Some s \<Longrightarrow> s \<in> set (rh_settings h) \<and> kw_name (st_kw s) = n"
  by (auto simp: find_setting_def find_Some_iff)

lemma find_setting_None:
  "find_setting n h = None \<longleftrightarrow> (\<forall>s \<in> set (rh_settings h). kw_name (st_kw s) \<noteq> n)"
  by (auto simp: find_setting_def find_None_iff)

lemma names_unique: "kw \<in> set KEYWORDS \<Longrightarrow> kw' \<in> set KEYWORDS \<Longrightarrow> kw_name kw = kw_name kw' \<Longrightarrow> kw = kw'"
  using table_distinct by (auto simp: distinct_map inj_on_def)

lemma keyword_in_table: "i < 11 \<Longrightarrow> KEYWORDS ! i \<in> set KEYWORDS"
  by (simp add: length_KEYWORDS)

lemma well_resolved_keyword:
  assumes "well_resolved h" "s \<in> set (rh_settings h)" "i < 11" "kw_name (st_kw s) = kw_name (KEYWORDS ! i)"
  shows "st_kw s = KEYWORDS ! i"
  using assms names_unique keyword_in_table by (auto simp: well_resolved_def)

lemma slot_keyword:
  assumes "kw \<in> set KEYWORDS" "kw_slot kw = kw_slot (KEYWORDS ! i)" "i < 11" "i \<noteq> 4" "i \<noteq> 5"
  shows "kw = KEYWORDS ! i"
proof -
  have "\<forall>i < 11. i \<noteq> 4 \<and> i \<noteq> 5 \<longrightarrow> (\<forall>j < 11. kw_slot (KEYWORDS ! j) = kw_slot (KEYWORDS ! i) \<longrightarrow> j = i)"
    by code_simp
  moreover obtain j where "j < 11" "kw = KEYWORDS ! j"
    using assms(1) by (metis in_set_conv_nth length_KEYWORDS)
  ultimately show ?thesis using assms by auto
qed

text \<open>Outside the credential slot, the setting of a slot is the setting of its keyword.\<close>

lemma find_setting_first:
  assumes "well_resolved h" "i < 11" "i \<noteq> 4" "i \<noteq> 5"
  shows "find_setting (kw_name (KEYWORDS ! i)) h = first_of (kw_slot (KEYWORDS ! i)) (rh_settings h)"
proof -
  have "kw_name (st_kw s) = kw_name (KEYWORDS ! i) \<longleftrightarrow> slot_of s = kw_slot (KEYWORDS ! i)"
    if "s \<in> set (rh_settings h)" for s
    using assms that slot_keyword well_resolved_keyword by (metis well_resolved_def)
  then show ?thesis unfolding find_setting_def first_of_def by (rule find_cong [OF refl])
qed

subsection \<open>An example\<close>

definition sample_platform :: "ustr \<Rightarrow> nat option \<Rightarrow> u32 \<Rightarrow> nat platform" where
  "sample_platform t port m =
     \<lparr>pf_url = \<lparr>url_parse = (\<lambda>s. Inr \<lparr>url_host_part = Some (DomainHost (lit ''web1'')), url_username = [],
          url_password = None, url_port = port, url_path = [], url_query = None, url_fragment = None\<rparr>),
        percent_decode = Some\<rparr>,
      pf_debug = id, pf_read = (\<lambda>p. Contents t), pf_canonicalize = Some, pf_is_file = (\<lambda>p. True),
      pf_mode = (\<lambda>p. Inr m), pf_glob = (\<lambda>p. Inr []), pf_path = length, pf_join = (+),
      pf_is_absolute = (\<lambda>p. False), pf_lossy = dec, pf_display = dec, pf_unix = True\<rparr>"

definition sample_text :: ustr where
  "sample_text = lit ''Host web?'' @ [10] @ lit ''  Port 3390'' @ [10] @ lit ''  User alice'' @ [10]
     @ lit ''  Password pw'' @ [10] @ lit ''Host db'' @ [10] @ lit ''  Domain x''"

definition sample_input :: "string \<Rightarrow> nat hosts_input" where
  "sample_input t =
     \<lparr>hi_target = lit t, hi_options = [lit ''User=carol''], hi_file = None, hi_config_dir = Some 7, hi_home = None\<rparr>"

definition sample_setting :: "nat \<Rightarrow> string \<Rightarrow> nat source \<Rightarrow> nat setting" where
  "sample_setting i v src = \<lparr>st_kw = KEYWORDS ! i, st_value = lit v, st_source = src\<rparr>"

definition sample_host :: "nat resolved_host" where
  "sample_host =
     \<lparr>rh_target = AliasTarget (lit ''web1''), rh_host_name = lit ''web1'',
      rh_settings =
        [sample_setting 1 ''3390'' (SourceFile 12 2), sample_setting 2 ''carol'' (SourceOption 1),
         sample_setting 4 ''pw'' (SourceFile 12 4), sample_setting 7 ''yes'' SourceDefault,
         sample_setting 8 ''latest-dev'' SourceDefault, sample_setting 9 ''yes'' SourceDefault]\<rparr>"

lemma sample_target: "parse_target lib (lit ''web1'') = Inr (AliasTarget (lit ''web1''))"
  by (simp add: parse_target_def lit_def)

lemma sample_options: "load_options debug 1 [lit ''User=carol''] ss =
    Inr (offer (sample_setting 2 ''carol'' (SourceOption 1)) ss)"
  by (simp add: read_option_def option_keyword_def one_word_def sample_setting_def lex_simps table_simps)

lemma sample_lines: "text_lines sample_text =
    [lit ''Host web?'', lit ''  Port 3390'', lit ''  User alice'', lit ''  Password pw'', lit ''Host db'', lit ''  Domain x'']"
  by code_simp

lemma sample_matches: "host_line_matches [lit ''web?''] (lit ''web1'')" "\<not> host_line_matches [lit ''db''] (lit ''web1'')"
  by (simp_all add: host_line_matches_def host_line_step_def glob_match_glob lit_def STAR_def QUESTION_def ch_def
      to_ascii_lowercase_def to_ascii_lower_def is_ascii_upper_def)

lemma sample_value_lines:
  "read_line co (lit ''  Port 3390'') = Inr (ValueLine (KEYWORDS ! 1) (lit ''3390''))"
  "read_line co (lit ''  User alice'') = Inr (ValueLine (KEYWORDS ! 2) (lit ''alice''))"
  "read_line co (lit ''  Password pw'') = Inr (ValueLine (KEYWORDS ! 4) (lit ''pw''))"
  "read_line co (lit ''  Domain x'') = Inr (ValueLine (KEYWORDS ! 3) (lit ''x''))"
  by (simp_all add: read_line_def one_word_def lex_simps table_simps parse_unsigned_def dec_value_def ch_def dec.simps)

lemma sample_host_lines:
  "co_name co = lit ''web1'' \<Longrightarrow> read_line co (lit ''Host web?'') = Inr (HostLine True)"
  "co_name co = lit ''web1'' \<Longrightarrow> read_line co (lit ''Host db'') = Inr (HostLine False)"
  using sample_matches by (simp_all add: read_line_def lex_simps table_simps)

definition sample_file_settings :: "nat setting list" where
  "sample_file_settings =
     [sample_setting 1 ''3390'' (SourceFile 12 2), sample_setting 2 ''alice'' (SourceFile 12 3),
      sample_setting 4 ''pw'' (SourceFile 12 4)]"

definition sample_picked :: "nat setting list" where
  "sample_picked =
     [sample_setting 2 ''carol'' (SourceOption 1), sample_setting 1 ''3390'' (SourceFile 12 2),
      sample_setting 4 ''pw'' (SourceFile 12 4), sample_setting 7 ''yes'' SourceDefault,
      sample_setting 8 ''latest-dev'' SourceDefault, sample_setting 9 ''yes'' SourceDefault]"

lemma sample_load_lines:
  "co_name co = lit ''web1'' \<Longrightarrow>
   load_lines co (OriginFile 12) stack 1 True (text_lines sample_text) ss = Inr (offers sample_file_settings ss)"
  by (simp add: sample_lines load_lines.simps sample_host_lines sample_value_lines sample_setting_def
      sample_file_settings_def numeral_eq_Suc)

lemma sample_load:
  assumes "target_name goal = lit ''web1''"
  shows "load_hosts (new_collector (sample_platform sample_text port m) (sample_input t) goal)
     (sample_input t') ss = Inr (offers sample_file_settings ss)"
proof -
  let ?pf = "sample_platform sample_text port m"
  let ?co = "new_collector ?pf (sample_input t) goal"
  have "co_name ?co = lit ''web1''" "co_platform ?co = ?pf" by (simp_all add: new_collector_def assms)
  moreover have "hi_file (sample_input t') = None" "hi_config_dir (sample_input t') = Some 7"
    by (simp_all add: sample_input_def)
  moreover have "pf_join ?pf 7 (pf_path ?pf (lit ''hosts'')) = 12" "pf_read ?pf 12 = Contents sample_text"
    by (simp_all add: sample_platform_def lit_def)
  ultimately show ?thesis
    by (simp only: load_hosts_def load_file_def load_text_def option.case read_result.case Let_def
        sample_load_lines)
qed

lemma sample_offers:
  "offers default_settings (offers sample_file_settings [sample_setting 2 ''carol'' (SourceOption 1)]) = sample_picked"
  by (simp add: offer_def sample_setting_def default_settings_def default_setting_def KEYWORDS_def
      keyword_row_def sample_picked_def sample_file_settings_def)

lemma sample_sorted: "sort_key (index_of \<circ> st_kw) sample_picked = rh_settings sample_host"
  by (simp add: sample_picked_def sample_setting_def index_of_def KEYWORDS_def keyword_row_def lit_def sample_host_def)

lemma sample_permissions: "check_permissions (sample_platform sample_text None 0x180) sample_host = Inr ()"
  by (simp add: check_permissions_def sample_platform_def find_setting_def sample_host_def sample_setting_def
        KEYWORDS_def keyword_row_def lit_def READABLE_BY_OTHERS_def)

lemma sample_name: "resolved_name (AliasTarget (lit ''web1'')) sample_picked = Inr (lit ''web1'')"
  by (simp add: resolved_name_def sample_picked_def sample_setting_def KEYWORDS_def keyword_row_def lit_def)

lemma sample_options_loaded:
  "load_options debug 1 (hi_options (sample_input t)) (offer_url (AliasTarget a) [])
   = Inr [sample_setting 2 ''carol'' (SourceOption 1)]"
  using sample_options [of debug "[]"] by (simp add: sample_input_def offer_def)

lemma sample_host_eq:
  "\<lparr>rh_target = AliasTarget (lit ''web1''), rh_host_name = lit ''web1'',
    rh_settings = sort_key (index_of \<circ> st_kw) sample_picked\<rparr> = sample_host"
  by (simp add: sample_sorted) (simp add: sample_host_def)

lemma sample_resolves:
  "resolve_host (sample_platform sample_text None 0x180) (sample_input ''web1'') = Inr sample_host"
proof -
  have "hi_target (sample_input ''web1'') = lit ''web1''" by (simp add: sample_input_def)
  then show ?thesis
    by (simp only: resolve_host_def sample_target and_then.simps Let_def sample_options_loaded
        sample_load target_name.simps load_default sample_offers sample_name sample_host_eq sample_permissions)
qed

subsection \<open>What is resolved\<close>

text \<open>
  C31. The first value wins: the setting of a slot is the first one in the URL, then the
  \<open>-o\<close> options in their order, then what the hosts file alone would give (with all that it
  includes), then the built-in defaults; and there is at most one setting per slot, in the
  order of the keyword table.
\<close>

theorem first_value_wins:
  assumes "resolve_host pf inp = Inr h"
  shows "\<exists>files. load_hosts (new_collector pf inp (rh_target h)) inp [] = Inr files
    \<and> (\<forall>k. first_of k (rh_settings h) =
          first_of k (url_settings (rh_target h) @ option_settings (pf_debug pf) 1 (hi_options inp)
                      @ files @ default_settings))
    \<and> distinct (map slot_of (rh_settings h)) \<and> sorted (map (index_of \<circ> st_kw) (rh_settings h))"
  using resolve_first_of [OF assms] resolve_well [OF assms] unfolding well_resolved_def by metis

theorem first_value_wins_witness:
  "\<exists>files. load_hosts (new_collector (sample_platform sample_text None 0x180) (sample_input ''web1'') (rh_target sample_host))
      (sample_input ''web1'') [] = Inr files
    \<and> (\<forall>k. first_of k (rh_settings sample_host) =
          first_of k (url_settings (rh_target sample_host)
            @ option_settings (pf_debug (sample_platform sample_text None 0x180)) 1 (hi_options (sample_input ''web1''))
            @ files @ default_settings))
    \<and> distinct (map slot_of (rh_settings sample_host)) \<and> sorted (map (index_of \<circ> st_kw) (rh_settings sample_host))"
  by (rule first_value_wins [OF sample_resolves])

lemma default_slots:
  "k \<in> {CuaEnabledSlot, CuaVersionSlot, CuaAutoDownloadSlot} \<Longrightarrow> first_of k (default_settings :: 'p setting list) \<noteq> None"
  by (auto simp: first_of_def default_settings_def default_setting_def KEYWORDS_def keyword_row_def)

lemma resolved_has_defaults:
  assumes "resolve_host pf inp = Inr h" "k \<in> {CuaEnabledSlot, CuaVersionSlot, CuaAutoDownloadSlot}"
  shows "first_of k (rh_settings h) \<noteq> None"
proof -
  from resolve_first_of [OF assms(1)] obtain files where
    "first_of k (rh_settings h) = first_of k (url_settings (rh_target h)
       @ option_settings (pf_debug pf) 1 (hi_options inp) @ files @ default_settings)" by metis
  with default_slots [OF assms(2)] show ?thesis
    by (auto simp: first_of_append split: option.splits)
qed

text \<open>
  C40. The Cua settings of a resolved host are explicit and well formed: \<open>CuaEnabled\<close> and
  \<open>CuaAutoDownload\<close> are there with the value \<open>yes\<close> or \<open>no\<close>, and \<open>CuaVersion\<close> with a
  version of 1 to 128 letters, digits, dots, dashes and underscores, so that the defaults
  of the accessors are never used.
\<close>

theorem cua_settings_explicit:
  assumes "resolve_host pf inp = Inr h"
  shows "(\<exists>e d v. find_setting (lit ''CuaEnabled'') h = Some e \<and> find_setting (lit ''CuaAutoDownload'') h = Some d
      \<and> find_setting (lit ''CuaVersion'') h = Some v
      \<and> st_value e = (if cua_enabled h then lit ''yes'' else lit ''no'')
      \<and> st_value d = (if cua_auto_download h then lit ''yes'' else lit ''no'')
      \<and> cua_version h = st_value v)
    \<and> cua_version h \<noteq> [] \<and> length (cua_version h) \<le> 128
    \<and> list_all (\<lambda>c. is_ascii_alphanumeric c \<or> c \<in> set (lit ''._-'')) (cua_version h)"
proof -
  note well = resolve_well [OF assms]
  have get: "\<exists>s. find_setting (kw_name (KEYWORDS ! i)) h = Some s \<and> valid_value (kw_kind (KEYWORDS ! i)) (st_value s)"
    if i: "i < 11" "i \<noteq> 4" "i \<noteq> 5" and k: "kw_slot (KEYWORDS ! i) \<in> {CuaEnabledSlot, CuaVersionSlot, CuaAutoDownloadSlot}"
      for i
  proof -
    obtain s where s: "find_setting (kw_name (KEYWORDS ! i)) h = Some s"
      using resolved_has_defaults [OF assms k] find_setting_first [OF well i] by fastforce
    then have "s \<in> set (rh_settings h)" "st_kw s = KEYWORDS ! i"
      using find_setting_Some well_resolved_keyword [OF well _ i(1)] by blast+
    moreover from this have "checked s" using well k by (auto simp: well_resolved_def)
    ultimately show ?thesis using s by (auto simp: checked_def)
  qed
  have "kw_name (KEYWORDS ! 7) = lit ''CuaEnabled''" "kw_name (KEYWORDS ! 8) = lit ''CuaVersion''"
    "kw_name (KEYWORDS ! 9) = lit ''CuaAutoDownload''" "kw_kind (KEYWORDS ! 7) = YesNo"
    "kw_kind (KEYWORDS ! 8) = CuaVersionKind" "kw_kind (KEYWORDS ! 9) = YesNo"
    by (simp_all add: KEYWORDS_def keyword_row_def)
  then obtain e v d where
    "find_setting (lit ''CuaEnabled'') h = Some e" "valid_value YesNo (st_value e)"
    "find_setting (lit ''CuaVersion'') h = Some v" "valid_value CuaVersionKind (st_value v)"
    "find_setting (lit ''CuaAutoDownload'') h = Some d" "valid_value YesNo (st_value d)"
    using get [of 7] get [of 8] get [of 9] by (auto simp: KEYWORDS_def keyword_row_def)
  moreover have "lit ''yes'' \<noteq> lit ''no''" by (simp add: lit_def)
  ultimately show ?thesis
    by (auto simp: valid_value_def cua_enabled_def cua_auto_download_def cua_version_def is_value_def)
qed

theorem cua_settings_explicit_witness:
  "(\<exists>e d v. find_setting (lit ''CuaEnabled'') sample_host = Some e
      \<and> find_setting (lit ''CuaAutoDownload'') sample_host = Some d
      \<and> find_setting (lit ''CuaVersion'') sample_host = Some v
      \<and> st_value e = (if cua_enabled sample_host then lit ''yes'' else lit ''no'')
      \<and> st_value d = (if cua_auto_download sample_host then lit ''yes'' else lit ''no'')
      \<and> cua_version sample_host = st_value v)
    \<and> cua_version sample_host \<noteq> [] \<and> length (cua_version sample_host) \<le> 128
    \<and> list_all (\<lambda>c. is_ascii_alphanumeric c \<or> c \<in> set (lit ''._-'')) (cua_version sample_host)"
  by (rule cua_settings_explicit [OF sample_resolves])

text \<open>
  A literal password is taken only from a private file: when the password of a host
  that was resolved on Unix comes from a file, neither its group nor others may read it.
\<close>

theorem password_file_private:
  assumes "resolve_host pf inp = Inr h" and "pf_unix pf"
    and "find_setting (lit ''Password'') h = Some s" and "st_source s = SourceFile path line"
  shows "\<exists>m. pf_mode pf path = Inr m \<and> \<not> bit m 2 \<and> \<not> bit m 5"
proof -
  have "check_permissions pf h = Inr ()" using resolve_parts [OF assms(1)] by metis
  then obtain m where m: "pf_mode pf path = Inr m" "m AND READABLE_BY_OTHERS = 0"
    using assms(2-4) by (auto simp: check_permissions_def and_then_Inr_iff split: if_splits)
  have "bit (m AND READABLE_BY_OTHERS) n = (bit m n \<and> bit READABLE_BY_OTHERS n)" for n
    by (simp add: bit_simps)
  moreover have "bit READABLE_BY_OTHERS 2" "bit READABLE_BY_OTHERS 5"
    by (simp_all add: READABLE_BY_OTHERS_def)
  ultimately show ?thesis using m by (metis bit_0_eq bot_apply bot_bool_def)
qed

theorem password_file_private_witness:
  "\<exists>m. pf_mode (sample_platform sample_text None 0x180) 12 = Inr m \<and> \<not> bit m 2 \<and> \<not> bit m 5"
proof (rule password_file_private [OF sample_resolves])
  show "find_setting (lit ''Password'') sample_host = Some (sample_setting 4 ''pw'' (SourceFile 12 4))"
    by (simp add: find_setting_def sample_host_def sample_setting_def KEYWORDS_def keyword_row_def lit_def)
qed (simp_all add: sample_platform_def sample_setting_def)

text \<open>
  The port of a URL is the port of the connection, unchecked: whatever the options and
  files say, and also when it is 0, which every other way to set \<open>Port\<close> refuses.
\<close>

theorem url_port_kept:
  assumes "resolve_host pf inp = Inr h" and "rh_target h = UrlTarget u" and "ut_port u = Some p" and "p \<le> 65535"
  shows "host_port h = Some p"
proof -
  note well = resolve_well [OF assms(1)]
  have names: "kw_name (KEYWORDS ! PORT) = lit ''Port''" "kw_slot (KEYWORDS ! PORT) = PortSlot"
    by (simp_all add: KEYWORDS_def keyword_row_def PORT_def)
  have "first_of PortSlot (url_settings (UrlTarget u)) =
      Some \<lparr>st_kw = KEYWORDS ! PORT, st_value = dec p, st_source = SourceUrl\<rparr>"
    using assms(3) names(2)
    by (auto simp: first_of_append url_setting_def first_of_def KEYWORDS_def keyword_row_def USER_def
        DOMAIN_def PASSWORD_def split: option.splits)
  then have "first_of PortSlot (rh_settings h) =
      Some \<lparr>st_kw = KEYWORDS ! PORT, st_value = dec p, st_source = SourceUrl\<rparr>"
    using resolve_first_of [OF assms(1)] assms(2) by (metis (no_types, lifting) first_of_append option.case(2))
  moreover have "find_setting (lit ''Port'') h = first_of PortSlot (rh_settings h)"
    using find_setting_first [OF well, of PORT] names by (simp add: PORT_def)
  ultimately show ?thesis using assms(4) by (simp add: host_port_def)
qed

definition sample_url :: target where
  "sample_url = UrlTarget \<lparr>ut_scheme = lit ''rdp'', ut_user = None, ut_domain = None, ut_password = None,
     ut_host = lit ''web1'', ut_port = Some 0\<rparr>"

definition sample_url_host :: "nat resolved_host" where
  "sample_url_host =
     \<lparr>rh_target = sample_url, rh_host_name = lit ''web1'',
      rh_settings = sample_setting 1 ''0'' SourceUrl # tl (rh_settings sample_host)\<rparr>"

lemma sample_url_target:
  "parse_target (pf_url (sample_platform t (Some 0) m)) (lit ''rdp://web1'') = Inr sample_url"
  by (simp add: parse_target_def sample_platform_def lit_def to_ascii_lowercase_def to_ascii_lower_def
      is_ascii_upper_def host_text_def decode_def decode_password_def refuse_rest_def split_user_def
      non_empty_def sample_url_def)

lemma sample_url_offers:
  "offers default_settings (offers sample_file_settings
     [sample_setting 1 ''0'' SourceUrl, sample_setting 2 ''carol'' (SourceOption 1)])
   = sample_setting 1 ''0'' SourceUrl # sample_setting 2 ''carol'' (SourceOption 1) # drop 2 sample_picked"
  by (simp add: offer_def sample_setting_def default_settings_def default_setting_def KEYWORDS_def
      keyword_row_def sample_picked_def sample_file_settings_def)

lemma sample_url_options:
  "load_options debug 1 (hi_options (sample_input t)) (offer_url sample_url [])
   = Inr [sample_setting 1 ''0'' SourceUrl, sample_setting 2 ''carol'' (SourceOption 1)]"
proof -
  have "offer_url sample_url [] = [sample_setting 1 ''0'' SourceUrl]"
    by (simp add: sample_url_def offer_at_def PORT_def length_KEYWORDS offer_def sample_setting_def
        dec.simps lit_def)
  then show ?thesis
    using sample_options [of debug "[sample_setting 1 ''0'' SourceUrl]"]
    by (simp add: sample_input_def offer_def sample_setting_def KEYWORDS_def keyword_row_def)
qed

lemma sample_url_host_eq:
  "\<lparr>rh_target = sample_url, rh_host_name = lit ''web1'',
    rh_settings = sort_key (index_of \<circ> st_kw)
      (sample_setting 1 ''0'' SourceUrl # sample_setting 2 ''carol'' (SourceOption 1) # drop 2 sample_picked)\<rparr>
   = sample_url_host"
  by (simp add: sample_picked_def sample_setting_def index_of_def KEYWORDS_def keyword_row_def lit_def
      sample_url_host_def sample_host_def)

lemma sample_url_resolves:
  "resolve_host (sample_platform sample_text (Some 0) 0x180) (sample_input ''rdp://web1'') = Inr sample_url_host"
proof -
  have "hi_target (sample_input ''rdp://web1'') = lit ''rdp://web1''" by (simp add: sample_input_def)
  moreover have name: "target_name sample_url = lit ''web1''" by (simp add: sample_url_def)
  moreover have "resolved_name sample_url
      (sample_setting 1 ''0'' SourceUrl # sample_setting 2 ''carol'' (SourceOption 1) # drop 2 sample_picked)
      = Inr (lit ''web1'')"
    by (simp add: resolved_name_def name sample_picked_def sample_setting_def KEYWORDS_def keyword_row_def)
      (simp add: lit_def)
  moreover have "check_permissions (sample_platform sample_text (Some 0) 0x180) sample_url_host = Inr ()"
    by (simp add: check_permissions_def sample_platform_def find_setting_def sample_url_host_def sample_host_def
        sample_setting_def KEYWORDS_def keyword_row_def lit_def READABLE_BY_OTHERS_def)
  ultimately show ?thesis
    by (simp only: resolve_host_def sample_url_target and_then.simps Let_def sample_url_options
        sample_load [OF name] load_default sample_url_offers sample_url_host_eq)
qed

theorem url_port_kept_witness: "host_port sample_url_host = Some 0"
  by (rule url_port_kept [OF sample_url_resolves]) (auto simp: sample_url_host_def sample_url_def)

subsection \<open>What is shown\<close>

text \<open>The same host with other credentials.\<close>

definition conceal :: "ustr \<Rightarrow> 'p resolved_host \<Rightarrow> 'p resolved_host" where
  "conceal v h = h
     \<lparr>rh_target := (case rh_target h of
         UrlTarget u \<Rightarrow> UrlTarget (u\<lparr>ut_password := map_option (\<lambda>_. v) (ut_password u)\<rparr>)
       | AliasTarget a \<Rightarrow> AliasTarget a),
      rh_settings := map (\<lambda>s. if kw_secret (st_kw s) then s\<lparr>st_value := v\<rparr> else s) (rh_settings h)\<rparr>"

text \<open>
  A password is never shown: neither the rows of \<open>config resolve\<close> nor the printed
  target of a host depend on any credential in it, a literal one or one of the URL.
\<close>

theorem rows_hide_password:
  "rows pf (conceal v h) = rows pf h \<and> show_target (rh_target (conceal v h)) = show_target (rh_target h)"
proof
  have "find_setting n (conceal v h) = None \<longleftrightarrow> find_setting n h = None" for n
    by (simp add: find_setting_None conceal_def del: if_image_distrib)
  moreover have "map (setting_row pf) (rh_settings (conceal v h)) = map (setting_row pf) (rh_settings h)"
    by (simp add: conceal_def setting_row_def display_value_def)
  moreover have "rh_host_name (conceal v h) = rh_host_name h" by (simp add: conceal_def)
  ultimately show "rows pf (conceal v h) = rows pf h" by (simp only: rows_def)
  show "show_target (rh_target (conceal v h)) = show_target (rh_target h)"
    by (cases "rh_target h") (simp_all add: conceal_def show_url_target_def)
qed

end
