(* ===== verification/Host_Expand.thy ===== *)
theory Host_Expand
  imports Host_Properties
begin

text \<open>
  The expansion of a \<open>PasswordCommand\<close>, \<^verbatim>\<open>crates/rdpilot-config/src/hosts/expand.rs\<close>:
  tokens are replaced by checked values before the command goes to a shell. The
  environment is the parameter \<open>env\<close>.
\<close>

subsection \<open>Model\<close>

definition FORBIDDEN :: "uchar set" where
  "FORBIDDEN = {39, 34, 96, 92, 36, 59, 38, 124, 60, 62, 40, 41, 123, 125, 91, 93, 42, 63, 33, 35, 126, 37, 94, 61}"

definition check_token :: "uchar \<Rightarrow> ustr \<Rightarrow> ustr \<Rightarrow> ustr + unit" where
  "check_token token v label =
     (let refuse = (\<lambda>problem. Inl (lit ''PasswordCommand for '' @ label @ lit '': %'' @ [token] @ lit '' value '' @ problem)) in
      if v = [] then refuse (lit ''is empty'')
      else if hd v = ch CHR ''-'' then refuse (lit ''starts with '' @ [39, 45, 39])
      else if list_ex (\<lambda>c. is_whitespace c \<or> is_control c \<or> c \<in> FORBIDDEN) v
      then refuse (lit ''contains a character that is not allowed in a shell command'')
      else Inr ())"

definition expand_error :: "ustr \<Rightarrow> ustr \<Rightarrow> ustr" where
  "expand_error label msg = lit ''PasswordCommand for '' @ label @ lit '': '' @ msg"

definition token_value :: "'p resolved_host \<Rightarrow> uchar \<Rightarrow> ustr + ustr" where
  "token_value h t =
     (if t = PERCENT then Inr [PERCENT]
      else if t = ch CHR ''h'' then Inr (rh_host_name h)
      else if t = ch CHR ''n'' then Inr (target_name (rh_target h))
      else if t = ch CHR ''r'' then ok_or (lit ''%r used but no User is set'') (host_user h)
      else if t = ch CHR ''p'' then Inr (dec (case host_port h of Some p \<Rightarrow> p | None \<Rightarrow> DEFAULT_PORT))
      else Inl (lit ''unknown token %'' @ [t]))"

definition CLOSE_BRACE :: uchar where "CLOSE_BRACE = 125"

text \<open>The loop over the rest of the command.\<close>

function expand_loop :: "'p resolved_host \<Rightarrow> (ustr \<Rightarrow> ustr option) \<Rightarrow> ustr \<Rightarrow> ustr \<Rightarrow> ustr + ustr" where
  "expand_loop h env rest out =
     (let label = show_target (rh_target h) in
      case rest of
        [] \<Rightarrow> Inr out
      | c # cs \<Rightarrow>
          (case strip_prefix (lit ''${'') rest of
             Some after' \<Rightarrow>
               (if CLOSE_BRACE \<notin> set after' then Inl (expand_error label (lit ''unterminated ${''))
                else
                  (let name = takeWhile (\<lambda>x. x \<noteq> CLOSE_BRACE) after' in
                   case env name of
                     None \<Rightarrow> Inl (expand_error label (lit ''environment variable '' @ name @ lit '' is not set''))
                   | Some v \<Rightarrow> expand_loop h env (tl (dropWhile (\<lambda>x. x \<noteq> CLOSE_BRACE) after')) (out @ v)))
           | None \<Rightarrow>
               if c \<noteq> PERCENT then expand_loop h env cs (out @ [c])
               else
                 (case cs of
                    [] \<Rightarrow> Inl (expand_error label (lit ''trailing % (write %% for a literal %)''))
                  | t # cs' \<Rightarrow>
                      (case token_value h t of
                         Inl e \<Rightarrow> Inl (expand_error label e)
                       | Inr v \<Rightarrow>
                           (case (if t \<noteq> PERCENT then check_token t v label else Inr ()) of
                              Inl e \<Rightarrow> Inl e
                            | Inr _ \<Rightarrow> expand_loop h env cs' (out @ v))))))"
  by pat_completeness auto
termination
proof (relation "measure (\<lambda>(h, env, rest, out). length rest)")
  fix h :: "'p resolved_host" and env :: "ustr \<Rightarrow> ustr option" and rest out after' v :: ustr
  assume "strip_prefix (lit ''${'') rest = Some after'"
  then have "length after' < length rest" by (auto simp: strip_prefix_Some_iff lit_def)
  moreover have "length (dropWhile (\<lambda>x. x \<noteq> CLOSE_BRACE) after') \<le> length after'"
    by (rule length_dropWhile_le)
  ultimately show "((h, env, tl (dropWhile (\<lambda>x. x \<noteq> CLOSE_BRACE) after'), out @ v), h, env, rest, out)
      \<in> measure (\<lambda>(h, env, rest, out). length rest)"
    by simp
qed auto

declare expand_loop.simps [simp del]

definition expand_password_command ::
  "'p resolved_host \<Rightarrow> (ustr \<Rightarrow> ustr option) \<Rightarrow> ustr + ustr" where
  "expand_password_command h env =
     and_then (ok_or (expand_error (show_target (rh_target h)) (lit ''no PasswordCommand is configured''))
                (password_command h)) (\<lambda>command.
     expand_loop h env command [])"

subsection \<open>The pieces of a command\<close>

datatype piece = CharPiece uchar | EnvPiece ustr | PercentPiece | TokenPiece uchar

definition written :: "piece \<Rightarrow> ustr" where
  "written p =
     (case p of CharPiece c \<Rightarrow> [c] | EnvPiece n \<Rightarrow> lit ''${'' @ n @ [CLOSE_BRACE]
      | PercentPiece \<Rightarrow> [PERCENT, PERCENT] | TokenPiece t \<Rightarrow> [PERCENT, t])"

text \<open>Safe in a shell command: one word of ordinary characters that is no option.\<close>

definition shell_safe :: "ustr \<Rightarrow> bool" where
  "shell_safe v \<longleftrightarrow> v \<noteq> [] \<and> hd v \<noteq> ch CHR ''-''
     \<and> list_all (\<lambda>c. \<not> is_whitespace c \<and> \<not> is_control c \<and> c \<notin> FORBIDDEN) v"

definition replaced :: "'p resolved_host \<Rightarrow> (ustr \<Rightarrow> ustr option) \<Rightarrow> piece \<Rightarrow> ustr \<Rightarrow> bool" where
  "replaced h env p v \<longleftrightarrow>
     (case p of CharPiece c \<Rightarrow> c \<noteq> PERCENT \<and> v = [c] | EnvPiece n \<Rightarrow> env n = Some v
      | PercentPiece \<Rightarrow> v = [PERCENT] | TokenPiece t \<Rightarrow> token_value h t = Inr v \<and> shell_safe v)"

lemma check_token_safe: "check_token t v label = Inr u \<longleftrightarrow> shell_safe v"
  by (auto simp: check_token_def shell_safe_def Let_def list_ex_iff list_all_iff)

lemma expand_loop_Nil: "expand_loop h env [] out = Inr out"
  by (simp add: expand_loop.simps)

lemma expand_loop_env:
  assumes "strip_prefix (lit ''${'') rest = Some a" "expand_loop h env rest out = Inr res"
  obtains n v rest' where "a = n @ CLOSE_BRACE # rest'" "env n = Some v" "expand_loop h env rest' (out @ v) = Inr res"
proof -
  have "rest \<noteq> []" using assms(1) by (auto simp: lit_def)
  then obtain c cs where cs: "rest = c # cs" by (cases rest) auto
  have "expand_loop h env rest out =
      (if CLOSE_BRACE \<notin> set a
       then Inl (expand_error (show_target (rh_target h)) (lit ''unterminated ${''))
       else (case env (takeWhile (\<lambda>x. x \<noteq> CLOSE_BRACE) a) of
               None \<Rightarrow> Inl (expand_error (show_target (rh_target h))
                 (lit ''environment variable '' @ takeWhile (\<lambda>x. x \<noteq> CLOSE_BRACE) a @ lit '' is not set''))
             | Some v \<Rightarrow> expand_loop h env (tl (dropWhile (\<lambda>x. x \<noteq> CLOSE_BRACE) a)) (out @ v)))"
    using assms(1) unfolding cs by (subst expand_loop.simps) (simp add: Let_def)
  with assms(2) obtain v where v: "CLOSE_BRACE \<in> set a" "env (takeWhile (\<lambda>x. x \<noteq> CLOSE_BRACE) a) = Some v"
      "expand_loop h env (tl (dropWhile (\<lambda>x. x \<noteq> CLOSE_BRACE) a)) (out @ v) = Inr res"
    by (auto split: if_splits option.splits)
  have "dropWhile (\<lambda>x. x \<noteq> CLOSE_BRACE) a \<noteq> []" using v(1) by (auto simp: dropWhile_eq_Nil_conv)
  then have "a = takeWhile (\<lambda>x. x \<noteq> CLOSE_BRACE) a @ CLOSE_BRACE # tl (dropWhile (\<lambda>x. x \<noteq> CLOSE_BRACE) a)"
    using hd_dropWhile [of "\<lambda>x. x \<noteq> CLOSE_BRACE" a] takeWhile_dropWhile_id
    by (metis (full_types) list.collapse)
  with v that show ?thesis by blast
qed

lemma expand_loop_char:
  assumes "strip_prefix (lit ''${'') (c # cs) = None"
  shows "expand_loop h env (c # cs) out =
     (if c \<noteq> PERCENT then expand_loop h env cs (out @ [c])
      else
        (case cs of
           [] \<Rightarrow> Inl (expand_error (show_target (rh_target h)) (lit ''trailing % (write %% for a literal %)''))
         | t # cs' \<Rightarrow>
             (case token_value h t of
                Inl e \<Rightarrow> Inl (expand_error (show_target (rh_target h)) e)
              | Inr v \<Rightarrow>
                  (case (if t \<noteq> PERCENT then check_token t v (show_target (rh_target h)) else Inr ()) of
                     Inl e \<Rightarrow> Inl e
                   | Inr _ \<Rightarrow> expand_loop h env cs' (out @ v)))))"
  by (subst expand_loop.simps) (simp add: assms Let_def)

lemma expand_loop_token:
  assumes "expand_loop h env (PERCENT # cs) out = Inr res"
  obtains t cs' v where "cs = t # cs'" "token_value h t = Inr v" "t \<noteq> PERCENT \<longrightarrow> shell_safe v"
    "expand_loop h env cs' (out @ v) = Inr res"
proof -
  have no: "strip_prefix (lit ''${'') (PERCENT # cs) = None" by (simp add: lit_def PERCENT_def)
  have step: "(case cs of
           [] \<Rightarrow> Inl (expand_error (show_target (rh_target h)) (lit ''trailing % (write %% for a literal %)''))
         | t # cs' \<Rightarrow>
             (case token_value h t of
                Inl e \<Rightarrow> Inl (expand_error (show_target (rh_target h)) e)
              | Inr v \<Rightarrow>
                  (case (if t \<noteq> PERCENT then check_token t v (show_target (rh_target h)) else Inr ()) of
                     Inl e \<Rightarrow> Inl e
                   | Inr _ \<Rightarrow> expand_loop h env cs' (out @ v)))) = Inr res"
    using assms by (simp add: expand_loop_char [OF no])
  obtain t cs' where t: "cs = t # cs'" using step by (cases cs) auto
  obtain v where v: "token_value h t = Inr v" using step by (cases "token_value h t") (auto simp: t)
  show ?thesis
  proof (cases "t = PERCENT")
    case True
    then show ?thesis using that [OF t v] step v by (simp add: t)
  next
    case False
    then obtain u where u: "check_token t v (show_target (rh_target h)) = Inr u"
      using step by (cases "check_token t v (show_target (rh_target h))") (auto simp: t v)
    then have "shell_safe v" using check_token_safe by blast
    then show ?thesis using that [OF t v] step False u by (simp add: t v)
  qed
qed

lemma expand_loop_pieces:
  "expand_loop h env rest out = Inr res \<Longrightarrow>
   \<exists>ps vs. rest = concat (map written ps) \<and> res = out @ concat vs \<and> list_all2 (replaced h env) ps vs"
proof (induction rest arbitrary: out rule: length_induct)
  case (1 rest)
  let ?goal = "\<lambda>rest out. \<exists>ps vs. rest = concat (map written ps) \<and> res = out @ concat vs
      \<and> list_all2 (replaced h env) ps vs"
  have step: "?goal rest out"
    if rest': "expand_loop h env rest' (out @ v) = Inr res" "rest = written p @ rest'" "replaced h env p v"
    for p v rest'
  proof -
    have "length rest' < length rest" using rest'(2) by (cases p) (simp_all add: written_def)
    then obtain ps vs where "rest' = concat (map written ps)" "res = (out @ v) @ concat vs"
      "list_all2 (replaced h env) ps vs"
      using 1(1) rest'(1) by blast
    with rest'(2,3) show ?thesis
      by (intro exI [of _ "p # ps"] exI [of _ "v # vs"]) simp
  qed
  show ?case
  proof (cases "strip_prefix (lit ''${'') rest")
    case (Some a)
    obtain n v rest' where n: "a = n @ CLOSE_BRACE # rest'" "env n = Some v"
        "expand_loop h env rest' (out @ v) = Inr res"
      by (rule expand_loop_env [OF Some 1(2)])
    from Some n(1) have "rest = written (EnvPiece n) @ rest'"
      by (simp add: strip_prefix_Some_iff written_def)
    with n show ?thesis by (intro step [of rest' v "EnvPiece n"]) (simp_all add: replaced_def)
  next
    case None
    show ?thesis
    proof (cases rest)
      case Nil
      then show ?thesis
        using 1(2) by (intro exI [of _ "[]"]) (simp add: expand_loop_Nil)
    next
      case (Cons c cs)
      show ?thesis
      proof (cases "c = PERCENT")
        case False
        have "expand_loop h env cs (out @ [c]) = Inr res"
          using 1(2) None Cons False by (simp add: expand_loop_char)
        then show ?thesis
          using Cons False by (intro step [of cs "[c]" "CharPiece c"]) (simp_all add: written_def replaced_def)
      next
        case True
        then obtain t cs' v where t: "cs = t # cs'" "token_value h t = Inr v"
            "t \<noteq> PERCENT \<longrightarrow> shell_safe v" "expand_loop h env cs' (out @ v) = Inr res"
          using 1(2) Cons by (metis expand_loop_token)
        show ?thesis
          by (rule step [of cs' v "if t = PERCENT then PercentPiece else TokenPiece t"])
            (use t True Cons in \<open>auto simp: written_def replaced_def token_value_def
              split del: if_split split: if_split_asm\<close>)
      qed
    qed
  qed
qed

text \<open>
  C38. No token can inject into the shell: an expanded command is the configured command
  with each piece replaced, ordinary characters by themselves, \<open>${VAR}\<close> by the user's own
  environment, and each token by its value, which is one word without white space,
  control characters or shell metacharacters and does not start with a dash.
\<close>

theorem expansion_safe:
  assumes "expand_password_command h env = Inr out"
  shows "\<exists>command ps vs. password_command h = Some command \<and> command = concat (map written ps)
    \<and> out = concat vs \<and> list_all2 (replaced h env) ps vs"
proof -
  obtain command where "password_command h = Some command" "expand_loop h env command [] = Inr out"
    using assms by (auto simp: expand_password_command_def and_then_Inr_iff)
  then show ?thesis using expand_loop_pieces [of h env command "[]" out] by auto
qed

definition sample_command_host :: "nat resolved_host" where
  "sample_command_host = sample_host\<lparr>rh_settings := [sample_setting 5 ''get %h ${X}'' (SourceOption 1)]\<rparr>"

lemma sample_expanded:
  "expand_password_command sample_command_host (\<lambda>n. Some (lit ''y'')) = Inr (lit ''get web1 y'')"
  by (simp add: expand_password_command_def password_command_def find_setting_def sample_command_host_def
      sample_setting_def KEYWORDS_def keyword_row_def lit_def expand_loop.simps PERCENT_def token_value_def
      ch_def check_token_def sample_host_def is_whitespace_def is_control_def FORBIDDEN_def CLOSE_BRACE_def)

theorem expansion_safe_witness:
  "\<exists>command ps vs. password_command sample_command_host = Some command \<and> command = concat (map written ps)
    \<and> lit ''get web1 y'' = concat vs \<and> list_all2 (replaced sample_command_host (\<lambda>n. Some (lit ''y''))) ps vs"
  by (rule expansion_safe [OF sample_expanded])

end
