(* ===== verification/Daemon_Error.thy ===== *)
theory Daemon_Error
  imports Control_Lease
begin

text \<open>
  The errors of the program and what a caller sees of them: the error of the SDK
  (\<open>rdpilot/src/error.rs\<close>), the error of the daemon and its text
  (\<open>rdpilot-daemon/src/seams.rs\<close>), the wire error it becomes
  (\<open>rdpilot-daemon/src/error_map.rs\<close>, \<open>rdpilot-vocab/src/error.rs\<close>), and the exit
  code and the code string of the command line (\<open>rdpilot-cli/src/exit_codes.rs\<close>).
\<close>

subsection \<open>The SDK error\<close>

datatype sdk_error =
    SdkConnect ustr
  | SdkTls ustr
  | SdkDecode ustr
  | SdkEncode ustr
  | CropOutOfBounds "nat \<times> nat \<times> nat \<times> nat" "nat \<times> nat"
  | SdkConfig ustr
  | SdkSession ustr
  | CoordinateOutOfBounds "nat \<times> nat" "nat \<times> nat"
  | Dvc ustr
  | Bootstrap ustr
  | BridgeRejected ustr
  | PathTraversal ustr
  | ChecksumMismatch ustr ustr
  | SdkStaleInput epoch epoch

fun sdk_error_str :: "sdk_error \<Rightarrow> ustr" where
  "sdk_error_str (SdkConnect m) = lit ''connection or authentication failed: '' @ m"
| "sdk_error_str (SdkTls m) = lit ''TLS or certificate error: '' @ m"
| "sdk_error_str (SdkDecode m) = lit ''framebuffer decode error: '' @ m"
| "sdk_error_str (SdkEncode m) = lit ''image encode error: '' @ m"
| "sdk_error_str (CropOutOfBounds (x, y, w, h) (iw, ih)) =
     lit ''crop rectangle ('' @ dec x @ lit '','' @ dec y @ lit '' '' @ dec w @ lit ''x'' @ dec h
     @ lit '') is out of bounds for a '' @ dec iw @ lit ''x'' @ dec ih @ lit '' image''"
| "sdk_error_str (SdkConfig m) = lit ''invalid configuration: '' @ m"
| "sdk_error_str (SdkSession m) = lit ''session/transport error: '' @ m"
| "sdk_error_str (CoordinateOutOfBounds (x, y) (w, h)) =
     lit ''coordinate ('' @ dec x @ lit '','' @ dec y @ lit '') is out of bounds for a ''
     @ dec w @ lit ''x'' @ dec h @ lit '' desktop''"
| "sdk_error_str (Dvc m) = lit ''DVC transport error: '' @ m"
| "sdk_error_str (Bootstrap m) = lit ''bridge bootstrap failed: '' @ m"
| "sdk_error_str (BridgeRejected m) = lit ''bridge rejected the request: '' @ m"
| "sdk_error_str (PathTraversal m) = lit ''path rejected: '' @ m"
| "sdk_error_str (ChecksumMismatch e a) =
     lit ''checksum mismatch: expected '' @ e @ lit '', actual '' @ a"
| "sdk_error_str (SdkStaleInput s c) =
     lit ''input of epoch '' @ dec s @ lit '' was refused: the current input epoch is '' @ dec c"

fun sdk_category :: "sdk_error \<Rightarrow> ustr" where
  "sdk_category (SdkConnect _) = lit ''connect''"
| "sdk_category (SdkTls _) = lit ''tls''"
| "sdk_category (SdkDecode _) = lit ''decode''"
| "sdk_category (SdkEncode _) = lit ''encode''"
| "sdk_category (CropOutOfBounds _ _) = lit ''crop_out_of_bounds''"
| "sdk_category (SdkConfig _) = lit ''config''"
| "sdk_category (SdkSession _) = lit ''session''"
| "sdk_category (CoordinateOutOfBounds _ _) = lit ''coordinate_out_of_bounds''"
| "sdk_category (Dvc _) = lit ''dvc''"
| "sdk_category (Bootstrap _) = lit ''bootstrap''"
| "sdk_category (BridgeRejected _) = lit ''bridge_rejected''"
| "sdk_category (PathTraversal _) = lit ''path_traversal''"
| "sdk_category (ChecksumMismatch _ _) = lit ''checksum_mismatch''"
| "sdk_category (SdkStaleInput _ _) = lit ''stale_input''"

subsection \<open>The daemon error\<close>

datatype daemon_fault =
    DuplicateSession ustr
  | SessionNotFound ustr
  | StillConnecting ustr
  | SessionHasEnded ustr ustr \<comment> \<open>\<open>SessionEnded\<close>: the id and the text of the cause\<close>
  | FromSdk sdk_error
  | ConnectFailed ustr
  | IoFailed ustr
  | ConfigFailed ustr
  | RecordingRefused ustr
  | BundleRefused ustr
  | HumanInControl human_control
  | TransferCut \<comment> \<open>\<open>SessionClosed\<close>\<close>

fun daemon_fault_str :: "daemon_fault \<Rightarrow> ustr" where
  "daemon_fault_str (DuplicateSession i) = lit ''session '' @ [34] @ i @ [34] @ lit '' already exists''"
| "daemon_fault_str (SessionNotFound i) = lit ''no such session '' @ [34] @ i @ [34]"
| "daemon_fault_str (StillConnecting i) = lit ''session '' @ [34] @ i @ [34] @ lit '' is still connecting''"
| "daemon_fault_str (SessionHasEnded i c) = lit ''session '' @ [34] @ i @ [34] @ lit '' ended: '' @ c"
| "daemon_fault_str (FromSdk e) = sdk_error_str e"
| "daemon_fault_str (ConnectFailed m) = lit ''connect failed: '' @ m"
| "daemon_fault_str (IoFailed m) = lit ''io error: '' @ m"
| "daemon_fault_str (ConfigFailed m) = lit ''config resolution failed: '' @ m"
| "daemon_fault_str (RecordingRefused m) = m"
| "daemon_fault_str (BundleRefused m) = m"
| "daemon_fault_str (HumanInControl h) = cli_refusal (hc_session h) (hc_address h) (hc_since h)"
| "daemon_fault_str TransferCut = lit ''session closed''"

subsection \<open>The wire error\<close>

datatype wire_code =
    WSessionNotFound | WDaemonUnreachable | WTransferFailed | WPathTraversal
  | WChecksumMismatch | WInternal | WDuplicateSession | WRecording
  | WBundleUnavailable | WHumanControl

fun wire_code_str :: "wire_code \<Rightarrow> ustr" where
  "wire_code_str WSessionNotFound = lit ''session-not-found''"
| "wire_code_str WDaemonUnreachable = lit ''daemon-unreachable''"
| "wire_code_str WTransferFailed = lit ''transfer-failed''"
| "wire_code_str WPathTraversal = lit ''path-traversal''"
| "wire_code_str WChecksumMismatch = lit ''checksum-mismatch''"
| "wire_code_str WInternal = lit ''internal''"
| "wire_code_str WDuplicateSession = lit ''duplicate-session''"
| "wire_code_str WRecording = lit ''recording''"
| "wire_code_str WBundleUnavailable = lit ''bundle-unavailable''"
| "wire_code_str WHumanControl = lit ''human-control''"

definition wire_codes :: "wire_code list" where
  "wire_codes = [WSessionNotFound, WDaemonUnreachable, WTransferFailed, WPathTraversal,
     WChecksumMismatch, WInternal, WDuplicateSession, WRecording, WBundleUnavailable, WHumanControl]"

definition wire_code_from_str :: "ustr \<Rightarrow> wire_code option" where
  "wire_code_from_str s = find (\<lambda>c. wire_code_str c = s) wire_codes"

record wire_error =
  we_code :: wire_code
  we_message :: ustr
  we_controller :: "wire_controller option"

fun wire_code_for_sdk_error :: "sdk_error \<Rightarrow> wire_code" where
  "wire_code_for_sdk_error (PathTraversal _) = WPathTraversal"
| "wire_code_for_sdk_error (ChecksumMismatch _ _) = WChecksumMismatch"
| "wire_code_for_sdk_error _ = WInternal"

fun wire_code_of :: "daemon_fault \<Rightarrow> wire_code" where
  "wire_code_of (DuplicateSession _) = WDuplicateSession"
| "wire_code_of (SessionNotFound _) = WSessionNotFound"
| "wire_code_of (StillConnecting _) = WSessionNotFound"
| "wire_code_of (SessionHasEnded _ _) = WSessionNotFound"
| "wire_code_of (FromSdk e) = wire_code_for_sdk_error e"
| "wire_code_of (ConnectFailed _) = WInternal"
| "wire_code_of (IoFailed _) = WInternal"
| "wire_code_of (ConfigFailed _) = WInternal"
| "wire_code_of (RecordingRefused _) = WRecording"
| "wire_code_of (BundleRefused _) = WBundleUnavailable"
| "wire_code_of (HumanInControl _) = WHumanControl"
| "wire_code_of TransferCut = WTransferFailed"

definition wire_error_of :: "daemon_fault \<Rightarrow> wire_error" where
  "wire_error_of e =
     \<lparr>we_code = wire_code_of e, we_message = daemon_fault_str e,
      we_controller =
        (case e of
           HumanInControl h \<Rightarrow>
             Some \<lparr>wc_human = True, wc_address = Some (hc_address h), wc_since = Some (hc_since h)\<rparr>
         | _ \<Rightarrow> None)\<rparr>"

subsection \<open>The command line\<close>

datatype cli_error =
    CliWire wire_error
  | CliUnreachable ustr
  | CliIncompatible "nat option"
  | CliNoClobber ustr
  | CliMissingConfig ustr
  | CliConfig ustr
  | CliInternal ustr
  | CliTransport ustr

fun wire_exit :: "wire_code \<Rightarrow> nat" where
  "wire_exit WSessionNotFound = 2"
| "wire_exit WTransferFailed = 4"
| "wire_exit WPathTraversal = 5"
| "wire_exit WChecksumMismatch = 6"
| "wire_exit WDuplicateSession = 7"
| "wire_exit WBundleUnavailable = 9"
| "wire_exit WHumanControl = 10"
| "wire_exit _ = 1"

fun exit_code :: "cli_error \<Rightarrow> nat" where
  "exit_code (CliWire e) = wire_exit (we_code e)"
| "exit_code (CliUnreachable _) = 3"
| "exit_code (CliIncompatible _) = 12"
| "exit_code (CliNoClobber _) = 8"
| "exit_code (CliMissingConfig _) = 1"
| "exit_code (CliConfig _) = 1"
| "exit_code (CliInternal _) = 1"
| "exit_code (CliTransport _) = 1"

fun code_str_for :: "cli_error \<Rightarrow> ustr" where
  "code_str_for (CliWire e) = wire_code_str (we_code e)"
| "code_str_for (CliUnreachable _) = lit ''daemon-unreachable''"
| "code_str_for (CliIncompatible _) = lit ''daemon-incompatible''"
| "code_str_for (CliNoClobber _) = lit ''no-clobber''"
| "code_str_for (CliMissingConfig _) = lit ''missing-config''"
| "code_str_for (CliConfig _) = lit ''config''"
| "code_str_for (CliInternal _) = lit ''internal''"
| "code_str_for (CliTransport _) = lit ''transport''"

text \<open>What the command line makes of a request that the daemon answered with \<open>e\<close>.\<close>

definition cli_outcome :: "daemon_fault \<Rightarrow> nat \<times> ustr" where
  "cli_outcome e = (exit_code (CliWire (wire_error_of e)), code_str_for (CliWire (wire_error_of e)))"

subsection \<open>Facts\<close>

lemma wire_codes_all: "c \<in> set wire_codes"
  by (cases c) (simp_all add: wire_codes_def)

lemma wire_code_str_inj: "wire_code_str c = wire_code_str d \<longleftrightarrow> c = d"
  by (cases c; cases d) (simp_all add: lit_def)

lemma wire_code_roundtrip: "wire_code_from_str (wire_code_str c) = Some c"
proof -
  have "\<exists>d. wire_code_from_str (wire_code_str c) = Some d"
    using wire_codes_all [of c] by (auto simp: wire_code_from_str_def find_None_iff simp flip: not_None_eq)
  then show ?thesis
    by (auto simp: wire_code_from_str_def find_Some_iff wire_code_str_inj)
qed

lemma wire_code_from_strD: "wire_code_from_str s = Some c \<Longrightarrow> wire_code_str c = s"
  by (auto simp: wire_code_from_str_def find_Some_iff)

text \<open>
  A script can act on the exit code of a request that the daemon refused: it is never
  0; each code other than 1 stands for exactly one wire code; a session that is missing,
  still connecting or ended is always 2, and a human in control always 10, with the
  holder's address and time in the error and the takeover command in its text.
\<close>

theorem refusals_tell_apart:
  "fst (cli_outcome e) \<noteq> 0
   \<and> (fst (cli_outcome e) \<noteq> 1 \<and> fst (cli_outcome e) = fst (cli_outcome f) \<longrightarrow>
        snd (cli_outcome e) = snd (cli_outcome f))
   \<and> (fst (cli_outcome e) = 2 \<longleftrightarrow>
        (\<exists>i c. e \<in> {SessionNotFound i, StillConnecting i, SessionHasEnded i c}))
   \<and> (fst (cli_outcome e) = 10 \<longleftrightarrow> we_controller (wire_error_of e) \<noteq> None)"
proof -
  have range: "wire_exit c \<noteq> 0" for c by (cases c) simp_all
  have inj: "wire_exit c \<noteq> 1 \<Longrightarrow> wire_exit c = wire_exit d \<Longrightarrow> c = d" for c d
    by (cases c; cases d) simp_all
  have sdk: "wire_exit (wire_code_for_sdk_error x) \<noteq> 2" "wire_exit (wire_code_for_sdk_error x) \<noteq> 10" for x
    by (cases x; simp)+
  have two: "wire_exit (wire_code_of e) = 2 \<longleftrightarrow>
      (\<exists>i c. e \<in> {SessionNotFound i, StillConnecting i, SessionHasEnded i c})"
    by (cases e) (auto simp: sdk)
  have ten: "wire_exit (wire_code_of e) = 10 \<longleftrightarrow> (\<exists>h. e = HumanInControl h)"
    by (cases e) (auto simp: sdk)
  have held: "we_controller (wire_error_of e) \<noteq> None \<longleftrightarrow> (\<exists>h. e = HumanInControl h)"
    by (cases e) (simp_all add: wire_error_of_def)
  have outcome: "cli_outcome x = (wire_exit (wire_code_of x), wire_code_str (wire_code_of x))" for x
    by (simp add: cli_outcome_def wire_error_of_def)
  show ?thesis
    unfolding outcome fst_conv snd_conv held two ten
    using range [of "wire_code_of e"] inj [of "wire_code_of e" "wire_code_of f"] by auto
qed

lemma refusals_tell_apart_witness:
  "fst (cli_outcome (StillConnecting (lit ''a''))) = 2"
  using refusals_tell_apart [of "StillConnecting (lit ''a'')" TransferCut] by simp

end
