(* ===== verification/Record_Book.thy ===== *)
theory Record_Book
  imports Rd_Text
begin

text \<open>
  The reconciliation records of the daemon (\<open>rdpilot-daemon/src/reconcile.rs\<close>, and the
  session identifier of \<open>rdpilot-ipc/src/session_id.rs\<close>): the file with one record per
  open session, its atomic rewrite, the sink over it, and the book that serialises the
  writes and knows which generation of a session id owns the record.

  The disk is a map from paths to file contents. What \<open>serde_json\<close> does is kept to what
  the code relies on: a file that was written whole is read back as the records it was
  written from, and any other content does not parse. Every use of the disk takes an
  \<open>io\<close> value that says whether the read succeeds and at which system call the rewrite
  fails, so a theorem without a condition on it holds for a disk that fails at any time.
  The second half of the file states the abstract book and proves the refinement, the
  ownership rule, the crash safety of the rewrite and what one restart does.
\<close>

subsection \<open>Session identifiers\<close>

type_synonym session_id = ustr

definition session_id_from_str :: "ustr \<Rightarrow> ustr + session_id" where
  "session_id_from_str s =
    (if s = [] then Inl (lit ''session id must not be empty'') else Inr s)"

subsection \<open>The file\<close>

record reconciliation_record =
  rr_id :: ustr
  rr_host :: ustr
  rr_since :: ustr

datatype file_content = Records "reconciliation_record list" | Unparsable

type_synonym path = "ustr \<times> ustr" \<comment> \<open>directory and file name\<close>

record disk =
  dk_files :: "path \<Rightarrow> file_content option"
  dk_suffix :: nat \<comment> \<open>\<open>TMP_SUFFIX_COUNTER\<close>\<close>

definition write_file :: "path \<Rightarrow> file_content option \<Rightarrow> disk \<Rightarrow> disk" where
  "write_file p c d = d\<lparr>dk_files := (dk_files d)(p := c)\<rparr>"

definition load_records :: "bool \<Rightarrow> path \<Rightarrow> disk \<Rightarrow> reconciliation_record list" where
  "load_records readable p d =
    (if readable then
       (case dk_files d p of
          None \<Rightarrow> []
        | Some (Records rs) \<Rightarrow> rs
        | Some Unparsable \<Rightarrow> [])
     else [])"

definition scan_orphans :: "bool \<Rightarrow> path \<Rightarrow> disk \<Rightarrow> reconciliation_record list" where
  "scan_orphans readable p d = load_records readable p d"

definition tmp_sibling_path :: "nat \<Rightarrow> path \<Rightarrow> disk \<Rightarrow> path \<times> disk" where
  "tmp_sibling_path pid p d =
    ((fst p, snd p @ lit ''.tmp-'' @ dec pid @ lit ''-'' @ dec (dk_suffix d)),
     d\<lparr>dk_suffix := dk_suffix d + 1\<rparr>)"

datatype save_fault =
    DirFault \<comment> \<open>\<open>create_dir_all\<close>\<close>
  | EncodeFault
  | WriteFault bool \<comment> \<open>\<open>fs::write\<close>, and whether it left a part of the file\<close>
  | RenameFault

record io =
  io_read :: bool
  io_save :: "save_fault option"

definition reliable :: io where
  "reliable = \<lparr>io_read = True, io_save = None\<rparr>"

definition save_records ::
  "save_fault option \<Rightarrow> nat \<Rightarrow> path \<Rightarrow> reconciliation_record list \<Rightarrow> disk \<Rightarrow> disk \<times> bool" where
  "save_records fault pid p rs d =
    (case fault of
       Some DirFault \<Rightarrow> (d, False)
     | Some EncodeFault \<Rightarrow> (d, False)
     | Some (WriteFault partial) \<Rightarrow>
         (let (tmp, d) = tmp_sibling_path pid p d
          in (if partial then write_file tmp (Some Unparsable) d else d, False))
     | Some RenameFault \<Rightarrow>
         (let (tmp, d) = tmp_sibling_path pid p d
          in (write_file tmp (Some (Records rs)) d, False))
     | None \<Rightarrow>
         (let (tmp, d) = tmp_sibling_path pid p d;
              d = write_file tmp (Some (Records rs)) d
          in (write_file tmp None (write_file p (dk_files d tmp) d), True)))"

text \<open>
  The disks a process that is killed during the rewrite can leave: before each system call
  and after the last one.
\<close>

definition save_moments :: "nat \<Rightarrow> path \<Rightarrow> reconciliation_record list \<Rightarrow> disk \<Rightarrow> disk list" where
  "save_moments pid p rs d =
    (let (tmp, d1) = tmp_sibling_path pid p d;
         d2 = write_file tmp (Some Unparsable) d1;
         d3 = write_file tmp (Some (Records rs)) d1;
         d4 = write_file tmp None (write_file p (Some (Records rs)) d3)
     in [d, d1, d2, d3, d4])"

subsection \<open>The sink\<close>

record sink =
  sk_path :: path
  sk_pid :: nat
  sk_disk :: disk

definition sink_load :: "io \<Rightarrow> sink \<Rightarrow> reconciliation_record list" where
  "sink_load x k = load_records (io_read x) (sk_path k) (sk_disk k)"

definition sink_save :: "io \<Rightarrow> reconciliation_record list \<Rightarrow> sink \<Rightarrow> sink \<times> bool" where
  "sink_save x rs k =
    (let (d, ok) = save_records (io_save x) (sk_pid k) (sk_path k) rs (sk_disk k)
     in (k\<lparr>sk_disk := d\<rparr>, ok))"

fun put_record ::
  "session_id \<Rightarrow> ustr \<Rightarrow> ustr \<Rightarrow> reconciliation_record list \<Rightarrow> reconciliation_record list" where
  "put_record i h s [] = [\<lparr>rr_id = i, rr_host = h, rr_since = s\<rparr>]"
| "put_record i h s (r # rs) =
    (if rr_id r = i then r\<lparr>rr_host := h, rr_since := s\<rparr> # rs else r # put_record i h s rs)"

definition record_open :: "io \<Rightarrow> session_id \<Rightarrow> ustr \<Rightarrow> ustr \<Rightarrow> sink \<Rightarrow> sink" where
  "record_open x i h s k = fst (sink_save x (put_record i h s (sink_load x k)) k)"

definition record_closed :: "io \<Rightarrow> session_id \<Rightarrow> sink \<Rightarrow> sink" where
  "record_closed x i k = fst (sink_save x (filter (\<lambda>r. rr_id r \<noteq> i) (sink_load x k)) k)"

definition remove_records :: "io \<Rightarrow> session_id set \<Rightarrow> sink \<Rightarrow> sink \<times> bool" where
  "remove_records x ids k = sink_save x (filter (\<lambda>r. rr_id r \<notin> ids) (sink_load x k)) k"

subsection \<open>The book\<close>

record record_book =
  bk_sink :: sink
  bk_open :: "session_id \<Rightarrow> nat option"
  bk_pending :: "session_id set"

definition new_book :: "sink \<Rightarrow> record_book" where
  "new_book k = \<lparr>bk_sink = k, bk_open = (\<lambda>_. None), bk_pending = {}\<rparr>"

definition flush_pending :: "io \<Rightarrow> record_book \<Rightarrow> record_book" where
  "flush_pending x b =
    (if bk_pending b = {} then b
     else let (k, ok) = remove_records x (bk_pending b) (bk_sink b)
          in if ok then b\<lparr>bk_sink := k, bk_pending := {}\<rparr> else b\<lparr>bk_sink := k\<rparr>)"

definition book_opened ::
  "io \<Rightarrow> io \<Rightarrow> session_id \<Rightarrow> nat \<Rightarrow> ustr \<Rightarrow> ustr \<Rightarrow> record_book \<Rightarrow> record_book" where
  "book_opened x y i g h s b =
    (if (case bk_open b i of Some owner \<Rightarrow> g \<le> owner | None \<Rightarrow> False) then b
     else flush_pending y
       (b\<lparr>bk_pending := bk_pending b - {i},
          bk_open := (bk_open b)(i \<mapsto> g),
          bk_sink := record_open x i h s (bk_sink b)\<rparr>))"

definition book_closed :: "io \<Rightarrow> io \<Rightarrow> session_id \<Rightarrow> nat \<Rightarrow> record_book \<Rightarrow> record_book \<times> bool" where
  "book_closed x y i g b =
    (if bk_open b i \<noteq> Some g then (b, False)
     else (flush_pending y
       (b\<lparr>bk_open := (bk_open b)(i := None),
          bk_sink := record_closed x i (bk_sink b)\<rparr>), True))"

definition closed_orphan :: "io \<Rightarrow> session_id \<Rightarrow> record_book \<Rightarrow> record_book" where
  "closed_orphan y i b =
    (if bk_open b i \<noteq> None then b
     else flush_pending y (b\<lparr>bk_pending := insert i (bk_pending b)\<rparr>))"

definition purge_seeded :: "io \<Rightarrow> session_id list \<Rightarrow> record_book \<Rightarrow> record_book" where
  "purge_seeded y ids b =
    flush_pending y
      (b\<lparr>bk_pending := bk_pending b \<union> set (filter (\<lambda>i. bk_open b i = None) ids)\<rparr>)"

text \<open>
  \<open>seed_into\<close>: the registry gets one \<open>Orphaned\<close> entry per well-formed record (the
  list of the second component, in order), and the book deletes their records.
\<close>

fun seeds :: "reconciliation_record list \<Rightarrow> (session_id \<times> ustr \<times> ustr) list" where
  "seeds [] = []"
| "seeds (r # rs) =
    (case session_id_from_str (rr_id r) of
       Inr i \<Rightarrow> (i, rr_host r, rr_since r) # seeds rs
     | Inl _ \<Rightarrow> seeds rs)"

definition seed_into ::
  "io \<Rightarrow> reconciliation_record list \<Rightarrow> record_book
    \<Rightarrow> (session_id \<times> ustr \<times> ustr) list \<times> record_book" where
  "seed_into y rs b = (seeds rs, purge_seeded y (map fst (seeds rs)) b)"

subsection \<open>Any sequence of writes\<close>

datatype book_op =
    OpOpened session_id nat ustr ustr
  | OpClosed session_id nat
  | OpOrphan session_id
  | OpPurge "session_id list"

fun book_step :: "io \<times> io \<Rightarrow> book_op \<Rightarrow> record_book \<Rightarrow> record_book" where
  "book_step (x, y) (OpOpened i g h s) b = book_opened x y i g h s b"
| "book_step (x, y) (OpClosed i g) b = fst (book_closed x y i g b)"
| "book_step (x, y) (OpOrphan i) b = closed_orphan y i b"
| "book_step (x, y) (OpPurge ids) b = purge_seeded y ids b"

definition run_book :: "((io \<times> io) \<times> book_op) list \<Rightarrow> record_book \<Rightarrow> record_book" where
  "run_book ops b = fold (\<lambda>(xy, c). book_step xy c) ops b"

lemma run_book_simps [simp]:
  "run_book [] b = b"
  "run_book ((xy, c) # ops) b = run_book ops (book_step xy c b)"
  "run_book (ops @ ops') b = run_book ops' (run_book ops b)"
  by (simp_all add: run_book_def)

subsection \<open>The rewrite\<close>

lemma tmp_is_other [simp]:
  "(fst p, snd p @ lit ''.tmp-'' @ q) \<noteq> p"
  "p \<noteq> (fst p, snd p @ lit ''.tmp-'' @ q)"
  by (cases p; simp add: lit_def)+

lemmas save_defs = save_records_def save_moments_def tmp_sibling_path_def write_file_def

lemma save_ok [simp]:
  "dk_files (fst (save_records None pid p rs d)) p = Some (Records rs)"
  "snd (save_records f pid p rs d) \<longleftrightarrow> f = None"
  by (auto simp: save_defs split: option.splits save_fault.splits)

lemma save_failed [simp]:
  "dk_files (fst (save_records (Some f) pid p rs d)) p = dk_files d p"
  by (cases f) (simp_all add: save_defs)

lemma save_in_moments:
  "fst (save_records f pid p rs d) \<in> set (save_moments pid p rs d)"
  by (auto simp: save_defs split: option.splits save_fault.splits)

lemma moments_whole:
  "d' \<in> set (save_moments pid p rs d) \<Longrightarrow>
    dk_files d' p = dk_files d p \<or> dk_files d' p = Some (Records rs)"
  by (auto simp: save_defs)

text \<open>
  C35. A process killed at any point of the rewrite of the record file, or a rewrite that
  fails at any system call, leaves the file as it was or as it was to become: the next
  startup scan reads all of the old records or all of the new ones.
\<close>

theorem killed_rewrite_is_whole:
  assumes "d' \<in> insert (fst (save_records f pid p rs d)) (set (save_moments pid p rs d))"
  shows "scan_orphans True p d' \<in> {scan_orphans True p d, rs}"
proof -
  have "d' \<in> set (save_moments pid p rs d)"
    using assms save_in_moments [of f pid p rs d] by blast
  from moments_whole [OF this] show ?thesis
    by (auto simp: scan_orphans_def load_records_def)
qed

subsection \<open>The sink as a map\<close>

definition rmap :: "reconciliation_record list \<Rightarrow> session_id \<Rightarrow> (ustr \<times> ustr) option" where
  "rmap rs = map_of (map (\<lambda>r. (rr_id r, (rr_host r, rr_since r))) rs)"

definition stored :: "sink \<Rightarrow> reconciliation_record list" where
  "stored k = load_records True (sk_path k) (sk_disk k)"

lemma rmap_put [simp]: "rmap (put_record i h s rs) = (rmap rs)(i \<mapsto> (h, s))"
  by (induction rs) (auto simp: rmap_def fun_upd_twist)

lemma rmap_filter [simp]:
  "rmap (filter (\<lambda>r. rr_id r \<notin> A) rs) = (\<lambda>i. if i \<in> A then None else rmap rs i)"
  by (induction rs) (auto simp: rmap_def)

lemma rmap_filter_one [simp]: "rmap (filter (\<lambda>r. rr_id r \<noteq> i) rs) = (rmap rs)(i := None)"
  using rmap_filter [of "{i}" rs] by (auto simp: fun_eq_iff)

lemma rmap_None: "rmap rs i = None \<longleftrightarrow> i \<notin> rr_id ` set rs"
  by (induction rs) (auto simp: rmap_def)

lemma ids_put: "set (map rr_id (put_record i h s rs)) = insert i (set (map rr_id rs))"
  by (induction rs) auto

lemma distinct_put: "distinct (map rr_id rs) \<Longrightarrow> distinct (map rr_id (put_record i h s rs))"
  by (induction rs) (auto simp: ids_put simp del: set_map)

lemma sink_load_readable: "io_read x \<Longrightarrow> sink_load x k = stored k"
  by (simp add: sink_load_def stored_def)

lemma sink_load_unreadable: "\<not> io_read x \<Longrightarrow> sink_load x k = []"
  by (simp add: sink_load_def load_records_def)

lemma sink_save_disk:
  "sk_disk (fst (sink_save x rs k)) = fst (save_records (io_save x) (sk_pid k) (sk_path k) rs (sk_disk k))"
  "sk_path (fst (sink_save x rs k)) = sk_path k"
  by (simp_all add: sink_save_def split: prod.splits)

lemma sink_save_done [simp]: "snd (sink_save x rs k) \<longleftrightarrow> io_save x = None"
  by (simp add: sink_save_def split: prod.splits) (metis save_ok(2) snd_conv)

lemma stored_save [simp]:
  "stored (fst (sink_save x rs k)) = (if io_save x = None then rs else stored k)"
  by (cases "io_save x") (simp_all add: stored_def sink_save_disk load_records_def)


lemma stored_record_open [simp]:
  "io_read x \<Longrightarrow> rmap (stored (record_open x i h s k)) =
    (if io_save x = None then (rmap (stored k))(i \<mapsto> (h, s)) else rmap (stored k))"
  by (simp add: record_open_def sink_load_readable)

lemma stored_record_closed [simp]:
  "io_read x \<Longrightarrow> rmap (stored (record_closed x i k)) =
    (if io_save x = None then (rmap (stored k))(i := None) else rmap (stored k))"
  by (simp add: record_closed_def sink_load_readable)

lemma flush_eq:
  "flush_pending y b =
    (if bk_pending b = {} then b
     else b\<lparr>bk_sink := fst (remove_records y (bk_pending b) (bk_sink b)),
            bk_pending := if io_save y = None then {} else bk_pending b\<rparr>)"
proof -
  have "snd (remove_records y (bk_pending b) (bk_sink b)) \<longleftrightarrow> io_save y = None"
    by (simp add: remove_records_def)
  then show ?thesis
    by (cases "remove_records y (bk_pending b) (bk_sink b)") (simp add: flush_pending_def)
qed

lemma flush_open [simp]: "bk_open (flush_pending y b) = bk_open b"
  by (simp add: flush_eq)

lemma flush_pending_set [simp]:
  "bk_pending (flush_pending y b) = (if io_save y = None then {} else bk_pending b)"
  by (simp add: flush_eq)

lemma flush_stored:
  "io_read y \<Longrightarrow> rmap (stored (bk_sink (flush_pending y b))) =
    (if io_save y = None
     then (\<lambda>i. if i \<in> bk_pending b then None else rmap (stored (bk_sink b)) i)
     else rmap (stored (bk_sink b)))"
proof (cases "bk_pending b = {}")
  case False
  assume y: "io_read y"
  let ?rs = "filter (\<lambda>r. rr_id r \<notin> bk_pending b) (sink_load y (bk_sink b))"
  have "bk_sink (flush_pending y b) = fst (sink_save y ?rs (bk_sink b))"
    using False by (simp add: flush_eq remove_records_def)
  then show ?thesis by (simp add: sink_load_readable [OF y])
qed (simp add: flush_pending_def)

subsection \<open>The abstract book\<close>

text \<open>
  What the book promises: a map of records and a map of owners. A record that is pending
  for removal is removed here already.
\<close>

type_synonym book_spec = "(session_id \<Rightarrow> (ustr \<times> ustr) option) \<times> (session_id \<Rightarrow> nat option)"

fun spec_step :: "book_op \<Rightarrow> book_spec \<Rightarrow> book_spec" where
  "spec_step (OpOpened i g h s) (R, W) =
    (if (\<exists>w. W i = Some w \<and> g \<le> w) then (R, W) else (R(i \<mapsto> (h, s)), W(i \<mapsto> g)))"
| "spec_step (OpClosed i g) (R, W) =
    (if W i = Some g then (R(i := None), W(i := None)) else (R, W))"
| "spec_step (OpOrphan i) (R, W) = (if W i = None then (R(i := None), W) else (R, W))"
| "spec_step (OpPurge ids) (R, W) =
    ((\<lambda>i. if i \<in> set ids \<and> W i = None then None else R i), W)"

definition book_abs :: "record_book \<Rightarrow> book_spec" where
  "book_abs b =
    ((\<lambda>i. if i \<in> bk_pending b then None else rmap (stored (bk_sink b)) i), bk_open b)"

lemma book_abs_flush [simp]: "io_read y \<Longrightarrow> book_abs (flush_pending y b) = book_abs b"
  by (auto simp: book_abs_def flush_pending_set flush_stored)

lemma book_abs_step:
  assumes "x = reliable" and "io_read y"
  shows "book_abs (book_step (x, y) c b) = spec_step c (book_abs b)"
proof (cases c)
  case (OpOpened i g h s)
  then show ?thesis
    using assms by (cases "bk_open b i")
      (auto simp: book_opened_def, auto simp: book_abs_def reliable_def fun_eq_iff)
next
  case (OpClosed i g)
  then show ?thesis
    using assms by (auto simp: book_closed_def, auto simp: book_abs_def reliable_def fun_eq_iff)
next
  case (OpOrphan i)
  then show ?thesis
    using assms by (auto simp: closed_orphan_def, auto simp: book_abs_def fun_eq_iff)
next
  case (OpPurge ids)
  then show ?thesis
    using assms by (auto simp: purge_seeded_def, auto simp: book_abs_def fun_eq_iff)
qed

text \<open>
  C34. Whatever sequence of openings, closes, orphan removals and purges reaches the book,
  the records it keeps and the generation that owns each are those of the abstract book,
  where a removal is done at once. It holds also when removals of pending records fail
  (they count as removed until a later write catches up), as long as the write of each
  operation itself succeeds and the file can be read.
\<close>

theorem book_refines_spec:
  assumes "\<forall>((x, y), c) \<in> set ops. x = reliable \<and> io_read y"
  shows "book_abs (run_book ops b) = fold (\<lambda>(_, c). spec_step c) ops (book_abs b)"
  using assms
proof (induction ops arbitrary: b)
  case (Cons o' ops)
  then show ?case by (cases o') (auto simp: book_abs_step)
qed simp

subsection \<open>Ownership\<close>

definition book_ok :: "record_book \<Rightarrow> bool" where
  "book_ok b \<longleftrightarrow> (\<forall>i \<in> bk_pending b. bk_open b i = None)"

lemma new_book_ok [simp]: "book_ok (new_book k)"
  by (simp add: book_ok_def new_book_def)

lemma flush_ok: "book_ok b \<Longrightarrow> book_ok (flush_pending y b)"
  by (simp add: book_ok_def flush_pending_set)

lemma step_ok: "book_ok b \<Longrightarrow> book_ok (book_step xy c b)"
  by (cases xy; cases c)
    (auto simp: book_opened_def book_closed_def closed_orphan_def purge_seeded_def
      intro!: flush_ok, auto simp: book_ok_def split: if_splits)

lemma run_ok: "book_ok b \<Longrightarrow> book_ok (run_book ops b)"
  by (induction ops arbitrary: b) (auto simp: step_ok)

text \<open>What may remove or replace the record that generation \<open>g\<close> of \<open>i\<close> owns.\<close>

fun disowns :: "session_id \<Rightarrow> nat \<Rightarrow> book_op \<Rightarrow> bool" where
  "disowns i g (OpOpened j g' h s) \<longleftrightarrow> j = i \<and> g < g'"
| "disowns i g (OpClosed j g') \<longleftrightarrow> j = i \<and> g' = g"
| "disowns i g (OpOrphan j) \<longleftrightarrow> False"
| "disowns i g (OpPurge ids) \<longleftrightarrow> False"

lemma owned_flush:
  assumes "book_ok b" and "io_read y" and "bk_open b i = Some g"
  shows "rmap (stored (bk_sink (flush_pending y b))) i = rmap (stored (bk_sink b)) i"
proof -
  have "i \<notin> bk_pending b" using assms by (auto simp: book_ok_def)
  then show ?thesis by (simp add: flush_stored [OF assms(2)])
qed

lemma owned_step:
  assumes ok: "book_ok b" and rd: "io_read x" "io_read y"
    and own: "bk_open b i = Some g" and c: "\<not> disowns i g c"
  shows "bk_open (book_step (x, y) c b) i = Some g"
    and "rmap (stored (bk_sink (book_step (x, y) c b))) i = rmap (stored (bk_sink b)) i"
proof -
  have pend: "i \<notin> bk_pending b" using ok own by (auto simp: book_ok_def)
  show "bk_open (book_step (x, y) c b) i = Some g"
    using own c by (cases c)
      (auto simp: book_opened_def book_closed_def closed_orphan_def purge_seeded_def)
  show "rmap (stored (bk_sink (book_step (x, y) c b))) i = rmap (stored (bk_sink b)) i"
    using own c pend rd by (cases c)
      (auto simp: book_opened_def book_closed_def closed_orphan_def purge_seeded_def flush_stored)
qed

lemma owned_run:
  assumes "book_ok b" and "bk_open b i = Some g"
    and "\<forall>((x, y), c) \<in> set ops. io_read x \<and> io_read y \<and> \<not> disowns i g c"
  shows "bk_open (run_book ops b) i = Some g
    \<and> rmap (stored (bk_sink (run_book ops b))) i = rmap (stored (bk_sink b)) i"
  using assms
proof (induction ops arbitrary: b)
  case (Cons o' ops)
  obtain x y c where o': "o' = ((x, y), c)" by (metis prod.exhaust)
  then have rd: "io_read x" "io_read y" "\<not> disowns i g c" using Cons.prems(3) by auto
  show ?case
    using Cons.IH [of "book_step (x, y) c b"] step_ok [OF Cons.prems(1)]
      owned_step [OF Cons.prems(1) rd(1,2) Cons.prems(2) rd(3)] Cons.prems(3) o'
    by simp
qed simp

text \<open>
  The record of an open session belongs to the newest generation of its name: from its
  opening on, neither writes of other sessions nor a late opening or close of another
  generation of the same name nor the removal of orphans removes or changes it, even when
  any of the rewrites fail. (The file must be readable.)
\<close>

theorem record_kept_by_owner:
  assumes "book_ok b" and "case bk_open b i of None \<Rightarrow> True | Some w \<Rightarrow> w < g"
    and "io_read x" and "io_save x = None" and "io_read y"
    and "\<forall>((x, y), c) \<in> set ops. io_read x \<and> io_read y \<and> \<not> disowns i g c"
  shows "rmap (stored (bk_sink (run_book (((x, y), OpOpened i g h s) # ops) b))) i = Some (h, s)"
proof -
  let ?b = "book_step (x, y) (OpOpened i g h s) b"
  have "bk_open ?b i = Some g" "rmap (stored (bk_sink ?b)) i = Some (h, s)"
    using assms(2-5) by (auto simp: book_opened_def flush_stored split: option.splits)
  from owned_run [OF step_ok [OF assms(1)] this(1) assms(6)] this(2) show ?thesis
    unfolding run_book_simps by simp
qed

text \<open>A disk with one record left by an earlier process.\<close>

definition sample_record :: reconciliation_record where
  "sample_record = \<lparr>rr_id = lit ''a'', rr_host = lit ''h'', rr_since = lit ''t''\<rparr>"

definition sample_sink :: sink where
  "sample_sink = \<lparr>sk_path = (lit ''/c'', lit ''s''), sk_pid = 7,
    sk_disk = \<lparr>dk_files = (\<lambda>p. if p = (lit ''/c'', lit ''s'') then Some (Records [sample_record]) else None),
      dk_suffix = 0\<rparr>\<rparr>"

definition failing :: io where
  "failing = \<lparr>io_read = True, io_save = Some RenameFault\<rparr>"

lemma killed_rewrite_is_whole_witness:
  "scan_orphans True (lit ''/c'', lit ''s'')
     (fst (save_records (Some RenameFault) 7 (lit ''/c'', lit ''s'') [] (sk_disk sample_sink)))
   \<in> {scan_orphans True (lit ''/c'', lit ''s'') (sk_disk sample_sink), []}"
  by (rule killed_rewrite_is_whole [where f = "Some RenameFault" and pid = 7]) blast

lemma book_refines_spec_witness:
  "book_abs (run_book [((reliable, failing), OpOrphan (lit ''a''))] (new_book sample_sink))
   = fold (\<lambda>(_, c). spec_step c) [((reliable, failing), OpOrphan (lit ''a''))]
       (book_abs (new_book sample_sink))"
  by (rule book_refines_spec) (simp add: failing_def)

lemma record_kept_by_owner_witness:
  "rmap (stored (bk_sink (run_book
     [((reliable, failing), OpOpened (lit ''b'') 2 (lit ''h2'') (lit ''t2'')),
      ((failing, failing), OpClosed (lit ''b'') 1),
      ((failing, reliable), OpPurge [lit ''a'', lit ''b''])]
     (new_book sample_sink)))) (lit ''b'') = Some (lit ''h2'', lit ''t2'')"
  by (rule record_kept_by_owner)
    (simp_all add: new_book_def book_ok_def reliable_def failing_def)

subsection \<open>The file between two daemons\<close>

text \<open>Each rewrite, failed or not, keeps at most one record per identifier in the file.\<close>

definition ids_unique :: "sink \<Rightarrow> bool" where
  "ids_unique k \<longleftrightarrow> distinct (map rr_id (stored k))"

lemma distinct_load: "ids_unique k \<Longrightarrow> distinct (map rr_id (sink_load x k))"
  by (cases "io_read x") (simp_all add: ids_unique_def sink_load_readable sink_load_unreadable)

lemma unique_save:
  "ids_unique k \<Longrightarrow> distinct (map rr_id rs) \<Longrightarrow> ids_unique (fst (sink_save x rs k))"
  by (simp add: ids_unique_def)

lemma unique_flush: "ids_unique (bk_sink b) \<Longrightarrow> ids_unique (bk_sink (flush_pending y b))"
  by (simp add: flush_eq remove_records_def unique_save distinct_load distinct_map_filter)

lemma unique_ops:
  "ids_unique k \<Longrightarrow> ids_unique (record_open x i h s k)"
  "ids_unique k \<Longrightarrow> ids_unique (record_closed x i k)"
  by (simp_all add: record_open_def record_closed_def unique_save distinct_load distinct_put
      distinct_map_filter)

text \<open>
  Whatever reads and rewrites fail, no sequence of writes ever leaves two records of
  one session identifier in the file.
\<close>

theorem one_record_per_session:
  "ids_unique (bk_sink b) \<Longrightarrow> ids_unique (bk_sink (run_book ops b))"
proof (induction ops arbitrary: b)
  case (Cons o' ops)
  obtain x y c where o': "o' = ((x, y), c)" by (metis prod.exhaust)
  have "ids_unique (bk_sink (book_step (x, y) c b))"
    using Cons.prems
    by (cases c) (auto simp: book_opened_def book_closed_def closed_orphan_def purge_seeded_def
      intro!: unique_flush unique_ops)
  with Cons.IH o' show ?case by simp
qed simp

lemma one_record_per_session_witness:
  "ids_unique (bk_sink (run_book
     [((failing, reliable), OpOpened (lit ''a'') 2 (lit ''h2'') (lit ''t2''))]
     (new_book sample_sink)))"
  by (rule one_record_per_session)
    (simp add: ids_unique_def new_book_def sample_sink_def stored_def load_records_def)

lemma seeds_ids: "map fst (seeds rs) = map rr_id (filter (\<lambda>r. rr_id r \<noteq> []) rs)"
  by (induction rs) (auto simp: session_id_from_str_def)

text \<open>
  The records found at startup are shown once: every well-formed record becomes one
  Orphaned entry, and its record is deleted. When the deletion fails at startup, the first
  later opening whose rewrites succeed makes up for it, so after it the file holds only
  the record of the opened session and records whose identifier is malformed.
\<close>

theorem seeded_records_gone:
  assumes "rs = scan_orphans True (sk_path k) (sk_disk k)" and "io_read y"
    and "(shown, b) = seed_into y rs (new_book k)"
  shows "map fst shown = map rr_id (filter (\<lambda>r. rr_id r \<noteq> []) rs)
    \<and> (\<forall>j. j = i \<or> j = [] \<or>
          rmap (stored (bk_sink (book_opened reliable reliable i g h s b))) j = None)"
proof -
  let ?ids = "map fst (seeds rs)"
  have b: "b = book_step (reliable, y) (OpPurge ?ids) (new_book k)" and shown: "shown = seeds rs"
    using assms(3) by (simp_all add: seed_into_def)
  have none: "bk_open b = (\<lambda>_. None)"
    by (simp add: b purge_seeded_def new_book_def)
  let ?c = "book_opened reliable reliable i g h s b"
  have "bk_pending ?c = {}"
    using none by (simp add: book_opened_def reliable_def)
  then have "rmap (stored (bk_sink ?c)) = fst (book_abs ?c)"
    by (simp add: book_abs_def)
  also have "\<dots> = fst (spec_step (OpOpened i g h s) (spec_step (OpPurge ?ids) (book_abs (new_book k))))"
    using book_abs_step [of reliable reliable "OpOpened i g h s" b]
      book_abs_step [of reliable y "OpPurge ?ids" "new_book k"] assms(2)
    by (simp add: reliable_def b)
  also have "\<dots> = (\<lambda>j. if j \<in> set ?ids then None else rmap rs j)(i \<mapsto> (h, s))"
    using assms(1) by (simp add: book_abs_def new_book_def stored_def scan_orphans_def fun_eq_iff)
  finally have map: "rmap (stored (bk_sink ?c)) = (\<lambda>j. if j \<in> set ?ids then None else rmap rs j)(i \<mapsto> (h, s))" .
  show ?thesis
    unfolding map shown by (auto simp: seeds_ids rmap_None simp del: set_map) (auto simp: image_iff)
qed

lemma seeded_records_gone_witness:
  "map fst (fst (seed_into failing [sample_record] (new_book sample_sink))) = [lit ''a'']
   \<and> rmap (stored (bk_sink (book_opened reliable reliable (lit ''b'') 1 [] []
        (snd (seed_into failing [sample_record] (new_book sample_sink)))))) (lit ''a'') = None"
proof -
  have "[sample_record] = scan_orphans True (sk_path sample_sink) (sk_disk sample_sink)"
    by (simp add: sample_sink_def scan_orphans_def load_records_def)
  from seeded_records_gone [OF this, of failing
      "fst (seed_into failing [sample_record] (new_book sample_sink))"
      "snd (seed_into failing [sample_record] (new_book sample_sink))" "lit ''b''" 1 "[]" "[]"]
  show ?thesis
    by (auto simp: failing_def sample_record_def lit_def dest: spec [where x = "[97]"])
qed

subsection \<open>Two limits of the promise\<close>

text \<open>
  The comment of \<open>save\<close> names a missed orphan as the worst case of a failed write. When
  the write that fails is the removal at a close, the record stays, nothing is pending, and
  no later write of another session removes it: the next restart shows a session that was
  closed.
\<close>

theorem failed_removal_is_not_retried:
  "let b = book_opened reliable reliable (lit ''b'') 1 (lit ''h'') (lit ''t'') (new_book sample_sink);
       (c, removed) = book_closed failing failing (lit ''b'') 1 b;
       e = run_book [((reliable, reliable), OpOpened (lit ''c'') 2 [] []),
                     ((reliable, reliable), OpClosed (lit ''b'') 1),
                     ((reliable, reliable), OpClosed (lit ''c'') 2)] c
   in removed \<and> map rr_id (stored (bk_sink e)) = [lit ''a'', lit ''b'']"
  by (simp add: book_opened_def book_closed_def new_book_def flush_pending_def record_open_def
      record_closed_def sink_load_readable reliable_def failing_def)
    (simp add: sample_sink_def stored_def load_records_def sample_record_def lit_def)

text \<open>
  The book's documentation says that a write of one session never loses the write of
  another. A read that fails for a reason other than a missing file counts as an empty
  file, so the write that follows it erases the records of all other sessions.
\<close>

theorem unreadable_file_is_overwritten:
  "let b = run_book [((reliable, reliable), OpOpened (lit ''b'') 1 [] []),
                     ((reliable\<lparr>io_read := False\<rparr>, reliable), OpOpened (lit ''c'') 2 [] [])]
             (new_book sample_sink)
   in bk_open b (lit ''b'') = Some 1 \<and> map rr_id (stored (bk_sink b)) = [lit ''c'']"
  by (simp add: book_opened_def new_book_def flush_pending_def record_open_def
      sink_load_readable sink_load_unreadable reliable_def)
    (simp add: lit_def)

end
