(* ===== verification/Session_Registry.thy ===== *)
theory Session_Registry
  imports Daemon_Error Record_Book "HOL-Library.AList"
begin

text \<open>
  The session registry (\<open>rdpilot-daemon/src/registry.rs\<close>, with \<open>SessionEntry\<close> of
  \<open>seams.rs\<close>): the map of sessions under its one lock, and every section of code that
  runs under that lock as one function of the registry. The sections that wait are
  composed of these in \<open>Registry_Steps\<close>.

  An entry of a live session holds handles to objects that outlive the entry (its
  lifecycle, its control lease, the count of its Cua streams, the mark of a running
  bootstrap). They are kept per generation in \<open>rg_cells\<close>, so that the code that keeps a
  handle sees the same object as the registry. The map is a list of pairs; nothing here
  depends on the order in which the source's hash map lists its entries.
\<close>

subsection \<open>Entries\<close>

datatype cancel_cause = CancelDisconnect

record live_entry =
  le_generation :: nat
  le_connected_since_wall :: ustr
  le_name :: "ustr option"
  le_host :: ustr
  le_last_activity :: nat
  le_last_activity_wall :: ustr
  le_frame :: bool
  le_ended_seen :: "nat option"

datatype session_entry =
    ConnectingEntry (claimed_at: nat) (attempt: nat)
  | LiveEntry (live_part: live_entry)
  | OrphanedEntry (seeded_at: nat) (orphan_host: ustr) (orphan_since: ustr)

record session_cell =
  ce_lifecycle :: lifecycle
  ce_control :: control
  ce_cua_leases :: nat
  ce_bootstrapping :: bool

record registry =
  rg_sessions :: "(session_id \<times> session_entry) list"
  rg_next :: nat \<comment> \<open>\<open>next_generation\<close>\<close>
  rg_cells :: "nat \<Rightarrow> session_cell"

definition new_registry :: "(nat \<Rightarrow> session_cell) \<Rightarrow> registry" where
  "new_registry cells = \<lparr>rg_sessions = [], rg_next = 1, rg_cells = cells\<rparr>"

definition entry_of :: "registry \<Rightarrow> session_id \<Rightarrow> session_entry option" where
  "entry_of rg i = map_of (rg_sessions rg) i"

definition put_entry :: "session_id \<Rightarrow> session_entry \<Rightarrow> registry \<Rightarrow> registry" where
  "put_entry i e rg = rg\<lparr>rg_sessions := AList.update i e (rg_sessions rg)\<rparr>"

definition drop_entry :: "session_id \<Rightarrow> registry \<Rightarrow> registry" where
  "drop_entry i rg = rg\<lparr>rg_sessions := AList.delete i (rg_sessions rg)\<rparr>"

definition cell_of :: "registry \<Rightarrow> live_entry \<Rightarrow> session_cell" where
  "cell_of rg e = rg_cells rg (le_generation e)"

definition entry_end_cause :: "registry \<Rightarrow> session_entry \<Rightarrow> end_cause option" where
  "entry_end_cause rg e =
     (case e of
        LiveEntry l \<Rightarrow>
          (case ce_lifecycle (cell_of rg l) of Live \<Rightarrow> None | Ended c \<Rightarrow> Some c)
      | _ \<Rightarrow> None)"

subsection \<open>Refusals\<close>

definition refuse_ended :: "registry \<Rightarrow> session_id \<Rightarrow> session_entry option \<Rightarrow> daemon_fault + unit" where
  "refuse_ended rg i found =
     (case Option.bind found (entry_end_cause rg) of
        Some c \<Rightarrow> Inl (SessionHasEnded i (end_cause_str c))
      | None \<Rightarrow> Inr ())"

definition not_live :: "session_id \<Rightarrow> session_entry option \<Rightarrow> daemon_fault" where
  "not_live i found =
     (case found of Some (ConnectingEntry _ _) \<Rightarrow> StillConnecting i | _ \<Rightarrow> SessionNotFound i)"

subsection \<open>Names\<close>

definition ADJECTIVES :: "ustr list" where
  "ADJECTIVES = map lit [''brave'', ''quiet'', ''swift'', ''calm'', ''bold'', ''clever'', ''gentle'',
     ''lucky'', ''quick'', ''wise'', ''eager'', ''sunny'', ''amber'', ''civil'', ''dapper'', ''earnest'']"

definition NOUNS :: "ustr list" where
  "NOUNS = map lit [''otter'', ''falcon'', ''badger'', ''heron'', ''lynx'', ''raven'', ''wolf'', ''fox'',
     ''hawk'', ''owl'', ''otter2'', ''marten'', ''kestrel'', ''beetle'', ''sparrow'', ''cricket'']"

definition AUTO_ID_MAX_ATTEMPTS :: nat where "AUTO_ID_MAX_ATTEMPTS = 32"

text \<open>The hash of the time, the process and the counter is the argument \<open>seed\<close>.\<close>

definition generate_auto_id :: "nat \<Rightarrow> ustr" where
  "generate_auto_id seed =
     ADJECTIVES ! (seed mod length ADJECTIVES) @ lit ''-''
     @ NOUNS ! (seed div 2 ^ 32 mod length NOUNS)"

definition claim :: "nat \<Rightarrow> session_id \<Rightarrow> registry \<Rightarrow> (daemon_fault + nat) \<times> registry" where
  "claim now i rg =
     (case entry_of rg i of
        Some _ \<Rightarrow> (Inl (DuplicateSession i), rg)
      | None \<Rightarrow>
          (let g = rg_next rg
           in (Inr g, put_entry i (ConnectingEntry now g) (rg\<lparr>rg_next := g + 1\<rparr>))))"

fun claim_candidates ::
  "nat \<Rightarrow> nat list \<Rightarrow> registry \<Rightarrow> (daemon_fault + session_id \<times> nat) \<times> registry" where
  "claim_candidates now [] rg =
     (Inl (ConnectFailed
        (lit ''could not mint a unique auto-generated session id after repeated attempts'')), rg)"
| "claim_candidates now (seed # rest) rg =
     (case session_id_from_str (generate_auto_id seed) of
        Inl _ \<Rightarrow> claim_candidates now rest rg
      | Inr i \<Rightarrow>
          (case claim now i rg of
             (Inr g, rg') \<Rightarrow> (Inr (i, g), rg')
           | (Inl _, rg') \<Rightarrow> claim_candidates now rest rg'))"

definition claim_with_auto_id ::
  "nat \<Rightarrow> (nat \<Rightarrow> nat) \<Rightarrow> registry \<Rightarrow> (daemon_fault + session_id \<times> nat) \<times> registry" where
  "claim_with_auto_id now seed rg = claim_candidates now (map seed [0..<AUTO_ID_MAX_ATTEMPTS]) rg"

definition cancel_connecting :: "session_id \<Rightarrow> nat \<Rightarrow> registry \<Rightarrow> bool \<times> registry" where
  "cancel_connecting i g rg =
     (case entry_of rg i of
        Some (ConnectingEntry _ a) \<Rightarrow> if a = g then (True, drop_entry i rg) else (False, rg)
      | _ \<Rightarrow> (False, rg))"

text \<open>
  The section of \<open>open_tracked\<close> that registers the session: \<open>le\<close> is the entry it built,
  \<open>cell\<close> the objects of the new session.
\<close>

definition promote :: "session_id \<Rightarrow> live_entry \<Rightarrow> session_cell \<Rightarrow> registry \<Rightarrow> bool \<times> registry" where
  "promote i le cell rg =
     (case entry_of rg i of
        Some (ConnectingEntry _ a) \<Rightarrow>
          if a = le_generation le
          then (True, put_entry i (LiveEntry le)
                  (rg\<lparr>rg_cells := (rg_cells rg)(le_generation le := cell)\<rparr>))
          else (False, rg)
      | _ \<Rightarrow> (False, rg))"

definition seed_orphan :: "nat \<Rightarrow> session_id \<Rightarrow> ustr \<Rightarrow> ustr \<Rightarrow> registry \<Rightarrow> registry" where
  "seed_orphan now i host since rg = put_entry i (OrphanedEntry now host since) rg"

subsection \<open>Removals\<close>

datatype removed =
    CancelledConnect nat \<comment> \<open>the cause is sent to this attempt under the lock\<close>
  | RemovedLive live_entry
  | RemovedOrphan
  | NothingRemoved
  | Refused daemon_fault

definition close_section :: "session_id \<Rightarrow> close_reason \<Rightarrow> registry \<Rightarrow> removed \<times> registry" where
  "close_section i reason rg =
     (case entry_of rg i of
        Some (ConnectingEntry _ a) \<Rightarrow>
          if reason \<noteq> Disconnect then (Refused (StillConnecting i), rg)
          else (CancelledConnect a, drop_entry i rg)
      | Some (LiveEntry le) \<Rightarrow> (RemovedLive le, drop_entry i rg)
      | Some (OrphanedEntry _ _ _) \<Rightarrow> (RemovedOrphan, drop_entry i rg)
      | None \<Rightarrow> (Refused (SessionNotFound i), rg))"

definition release_section :: "session_id \<Rightarrow> registry \<Rightarrow> removed \<times> registry" where
  "release_section i rg =
     (case entry_of rg i of
        Some (OrphanedEntry _ _ _) \<Rightarrow> (RemovedOrphan, drop_entry i rg)
      | Some (LiveEntry le) \<Rightarrow>
          if entry_end_cause rg (LiveEntry le) \<noteq> None then (RemovedLive le, drop_entry i rg)
          else (NothingRemoved, rg)
      | _ \<Rightarrow> (NothingRemoved, rg))"

definition close_if_generation_section :: "session_id \<Rightarrow> nat \<Rightarrow> registry \<Rightarrow> removed \<times> registry" where
  "close_if_generation_section i g rg =
     (case entry_of rg i of
        Some (LiveEntry le) \<Rightarrow>
          if le_generation le = g then (RemovedLive le, drop_entry i rg) else (NothingRemoved, rg)
      | _ \<Rightarrow> (NothingRemoved, rg))"

text \<open>The sweep: it stamps the ended entries it sees for the first time, then selects.\<close>

definition stamp_ended :: "nat \<Rightarrow> registry \<Rightarrow> session_entry \<Rightarrow> session_entry" where
  "stamp_ended now rg e =
     (case e of
        LiveEntry le \<Rightarrow>
          if entry_end_cause rg e \<noteq> None \<and> le_ended_seen le = None
          then LiveEntry (le\<lparr>le_ended_seen := Some now\<rparr>) else e
      | _ \<Rightarrow> e)"

definition retained_since :: "registry \<Rightarrow> session_entry \<Rightarrow> nat option" where
  "retained_since rg e =
     (case e of
        OrphanedEntry seen _ _ \<Rightarrow> Some seen
      | LiveEntry le \<Rightarrow> if entry_end_cause rg e \<noteq> None then le_ended_seen le else None
      | ConnectingEntry _ _ \<Rightarrow> None)"

definition is_due :: "nat \<Rightarrow> nat \<Rightarrow> registry \<Rightarrow> session_entry \<Rightarrow> bool" where
  "is_due now retention rg e =
     (case retained_since rg e of None \<Rightarrow> False | Some since \<Rightarrow> retention \<le> now - since)"

definition expire_section ::
  "nat \<Rightarrow> nat \<Rightarrow> registry \<Rightarrow> (session_id \<times> session_entry) list \<times> registry" where
  "expire_section now retention rg =
     (let seen = map (\<lambda>(i, e). (i, stamp_ended now rg e)) (rg_sessions rg);
          due = map fst (filter (\<lambda>(i, e). is_due now retention rg e) seen)
      in (filter (\<lambda>(i, e). i \<in> set due) seen,
          rg\<lparr>rg_sessions := filter (\<lambda>(i, e). i \<notin> set due) seen\<rparr>))"

subsection \<open>Reads and small updates\<close>

definition holds_active :: "registry \<Rightarrow> bool" where
  "holds_active rg = list_ex
     (\<lambda>(i, e). case e of
        ConnectingEntry _ _ \<Rightarrow> True
      | LiveEntry _ \<Rightarrow> entry_end_cause rg e = None
      | OrphanedEntry _ _ _ \<Rightarrow> False) (rg_sessions rg)"

definition touch_generation :: "session_id \<Rightarrow> nat \<Rightarrow> tick \<Rightarrow> registry \<Rightarrow> bool \<times> registry" where
  "touch_generation i expected t rg =
     (case entry_of rg i of
        Some (LiveEntry le) \<Rightarrow>
          if le_generation le = expected
          then (True, put_entry i (LiveEntry (le\<lparr>le_last_activity := tk_now t,
                  le_last_activity_wall := iso8601_from_system_time (tk_wall t)\<rparr>)) rg)
          else (False, rg)
      | _ \<Rightarrow> (False, rg))"

text \<open>The lookups return the generation whose objects the caller gets.\<close>

definition live_session :: "session_id \<Rightarrow> registry \<Rightarrow> daemon_fault + nat" where
  "live_session i rg =
     (case refuse_ended rg i (entry_of rg i) of
        Inl e \<Rightarrow> Inl e
      | Inr _ \<Rightarrow>
          (case entry_of rg i of
             Some (LiveEntry le) \<Rightarrow> Inr (le_generation le)
           | other \<Rightarrow> Inl (not_live i other)))"

definition recording_target_of :: "session_id \<Rightarrow> bool \<Rightarrow> registry \<Rightarrow> daemon_fault + live_entry" where
  "recording_target_of i start rg =
     (case (if start then refuse_ended rg i (entry_of rg i) else Inr ()) of
        Inl e \<Rightarrow> Inl e
      | Inr _ \<Rightarrow>
          (case entry_of rg i of
             Some (LiveEntry le) \<Rightarrow> Inr le
           | Some (ConnectingEntry _ _) \<Rightarrow> Inl (StillConnecting i)
           | _ \<Rightarrow> Inl (SessionNotFound i)))"

definition control_of :: "session_id \<Rightarrow> registry \<Rightarrow> nat option" where
  "control_of i rg =
     (case entry_of rg i of
        Some (LiveEntry le) \<Rightarrow>
          if entry_end_cause rg (LiveEntry le) = None then Some (le_generation le) else None
      | _ \<Rightarrow> None)"

definition controls :: "registry \<Rightarrow> nat list" where
  "controls rg =
     List.map_filter (\<lambda>(i, e). case e of LiveEntry le \<Rightarrow> Some (le_generation le) | _ \<Rightarrow> None)
       (rg_sessions rg)"

datatype control_refusal = NoSession | RefusedNotHeld not_held | RefusedTake take_error | InputUnavailable

definition take_parts :: "session_id \<Rightarrow> registry \<Rightarrow> control_refusal + nat" where
  "take_parts i rg =
     (case entry_of rg i of
        Some (LiveEntry le) \<Rightarrow>
          if entry_end_cause rg (LiveEntry le) = None \<and> cs_has_input (ce_control (cell_of rg le)) then
            (if ce_bootstrapping (cell_of rg le) then Inl (RefusedTake Busy)
             else Inr (le_generation le))
          else Inl NoSession
      | _ \<Rightarrow> Inl NoSession)"

definition viewer_control :: "session_id \<Rightarrow> registry \<Rightarrow> control_refusal + nat" where
  "viewer_control i rg =
     (case control_of i rg of
        Some g \<Rightarrow> if cs_has_input (ce_control (rg_cells rg g)) then Inr g else Inl NoSession
      | None \<Rightarrow> Inl NoSession)"

text \<open>\<open>attach_cua\<close>: the lookup, and the count after the session has attached.\<close>

definition attach_lookup :: "session_id \<Rightarrow> registry \<Rightarrow> daemon_fault + nat" where
  "attach_lookup i rg =
     (case refuse_ended rg i (entry_of rg i) of
        Inl e \<Rightarrow> Inl e
      | Inr _ \<Rightarrow>
          (case entry_of rg i of
             Some (LiveEntry le) \<Rightarrow> Inr (le_generation le)
           | Some (ConnectingEntry _ _) \<Rightarrow> Inl (StillConnecting i)
           | _ \<Rightarrow> Inl (SessionNotFound i)))"

definition update_cell :: "nat \<Rightarrow> (session_cell \<Rightarrow> session_cell) \<Rightarrow> registry \<Rightarrow> registry" where
  "update_cell g f rg = rg\<lparr>rg_cells := (rg_cells rg)(g := f (rg_cells rg g))\<rparr>"

definition cua_attached :: "nat \<Rightarrow> registry \<Rightarrow> registry" where
  "cua_attached g = update_cell g (\<lambda>c. c\<lparr>ce_cua_leases := ce_cua_leases c + 1\<rparr>)"

definition cua_lease_dropped :: "nat \<Rightarrow> registry \<Rightarrow> registry" where
  "cua_lease_dropped g = update_cell g (\<lambda>c. c\<lparr>ce_cua_leases := ce_cua_leases c - 1\<rparr>)"

definition bootstrap_mark_dropped :: "nat \<Rightarrow> registry \<Rightarrow> registry" where
  "bootstrap_mark_dropped g = update_cell g (\<lambda>c. c\<lparr>ce_bootstrapping := False\<rparr>)"

text \<open>\<open>takeover\<close> up to the wait for the releases, which \<open>Control_Steps\<close> models.\<close>

definition takeover ::
  "session_id \<Rightarrow> event_source \<Rightarrow> tick \<Rightarrow> registry
    \<Rightarrow> (daemon_fault + (wire_controller \<times> transition option)) \<times> registry" where
  "takeover i src t rg =
     (case attach_lookup i rg of
        Inl e \<Rightarrow> (Inl e, rg)
      | Inr g \<Rightarrow>
          (let (r, c) = agent_takeover src t (ce_control (rg_cells rg g))
           in (Inr r, update_cell g (\<lambda>cell. cell\<lparr>ce_control := c\<rparr>) rg)))"

definition elapsed :: "nat \<Rightarrow> nat \<Rightarrow> nat" where
  "elapsed now since = now - since"

definition live_idle_durations :: "nat \<Rightarrow> registry \<Rightarrow> (session_id \<times> nat) list" where
  "live_idle_durations now rg =
     List.map_filter
       (\<lambda>(i, e). case e of
          LiveEntry le \<Rightarrow>
            if entry_end_cause rg e = None \<and> ce_cua_leases (cell_of rg le) = 0
               \<and> \<not> human_active (ce_control (cell_of rg le))
            then Some (i, elapsed now
                   (case cs_human_activity (ce_control (cell_of rg le)) of
                      None \<Rightarrow> le_last_activity le
                    | Some (seen, _) \<Rightarrow> max seen (le_last_activity le)))
            else None
        | _ \<Rightarrow> None) (rg_sessions rg)"

subsection \<open>The list\<close>

datatype session_lifecycle = StConnecting | StLive | StReconnecting | StDisconnected | StOrphaned

record session_status =
  ss_id :: ustr
  ss_name :: "ustr option"
  ss_host :: ustr
  ss_status :: session_lifecycle
  ss_connected_since :: "ustr option"
  ss_last_activity :: "ustr option"
  ss_recording :: "ustr option"
  ss_controller :: "wire_controller option"

definition lifecycle_status :: "lifecycle \<Rightarrow> session_lifecycle" where
  "lifecycle_status l = (case l of Live \<Rightarrow> StLive | Ended _ \<Rightarrow> StDisconnected)"

definition to_status :: "registry \<Rightarrow> session_id \<Rightarrow> session_entry \<Rightarrow> session_status" where
  "to_status rg i e =
     (case e of
        ConnectingEntry _ _ \<Rightarrow>
          \<lparr>ss_id = i, ss_name = None, ss_host = [], ss_status = StConnecting,
           ss_connected_since = None, ss_last_activity = None, ss_recording = None,
           ss_controller = None\<rparr>
      | LiveEntry le \<Rightarrow>
          (let c = ce_control (cell_of rg le)
           in \<lparr>ss_id = i, ss_name = le_name le, ss_host = le_host le,
               ss_status = lifecycle_status (ce_lifecycle (cell_of rg le)),
               ss_connected_since = Some (le_connected_since_wall le),
               ss_last_activity = Some
                 (case cs_human_activity c of
                    Some (seen, seen_wall) \<Rightarrow>
                      if le_last_activity le < seen then iso8601_from_system_time seen_wall
                      else le_last_activity_wall le
                  | None \<Rightarrow> le_last_activity_wall le),
               ss_recording = None, ss_controller = Some (controller c)\<rparr>)
      | OrphanedEntry _ host since \<Rightarrow>
          \<lparr>ss_id = i, ss_name = None, ss_host = host, ss_status = StOrphaned,
           ss_connected_since = Some since, ss_last_activity = None, ss_recording = None,
           ss_controller = None\<rparr>)"

text \<open>The recording service is the argument \<open>recording_of\<close>, by generation.\<close>

definition status_of ::
  "(nat \<Rightarrow> ustr option) \<Rightarrow> registry \<Rightarrow> session_id \<Rightarrow> session_entry \<Rightarrow> session_status" where
  "status_of recording_of rg i e =
     (case e of
        LiveEntry le \<Rightarrow> (to_status rg i e)\<lparr>ss_recording := recording_of (le_generation le)\<rparr>
      | _ \<Rightarrow> to_status rg i e)"

definition session_list :: "(nat \<Rightarrow> ustr option) \<Rightarrow> registry \<Rightarrow> session_status list" where
  "session_list recording_of rg = map (\<lambda>(i, e). status_of recording_of rg i e) (rg_sessions rg)"

record viewer_session =
  vs_status :: session_status
  vs_ended :: bool
  vs_frames :: bool
  vs_input :: bool

definition viewer_session_of ::
  "(nat \<Rightarrow> ustr option) \<Rightarrow> registry \<Rightarrow> session_id \<Rightarrow> session_entry \<Rightarrow> viewer_session" where
  "viewer_session_of recording_of rg i e =
     (let status = status_of recording_of rg i e
      in \<lparr>vs_status = status, vs_ended = (ss_status status = StDisconnected),
          vs_frames = (case e of LiveEntry le \<Rightarrow> le_frame le | _ \<Rightarrow> False),
          vs_input = (case e of LiveEntry le \<Rightarrow> cs_has_input (ce_control (cell_of rg le)) | _ \<Rightarrow> False)\<rparr>)"

definition viewer_sessions :: "(nat \<Rightarrow> ustr option) \<Rightarrow> registry \<Rightarrow> viewer_session list" where
  "viewer_sessions recording_of rg =
     map (\<lambda>(i, e). viewer_session_of recording_of rg i e)
       (filter (\<lambda>(i, e). case e of OrphanedEntry _ _ _ \<Rightarrow> False | _ \<Rightarrow> True) (rg_sessions rg))"

datatype 'a lookup = Found 'a | NotAvailable | SessionGone

definition frame_source :: "session_id \<Rightarrow> registry \<Rightarrow> nat lookup" where
  "frame_source i rg =
     (case entry_of rg i of
        Some (LiveEntry le) \<Rightarrow> if le_frame le then Found (le_generation le) else NotAvailable
      | Some _ \<Rightarrow> NotAvailable
      | None \<Rightarrow> SessionGone)"

definition events_lookup :: "session_id \<Rightarrow> registry \<Rightarrow> nat lookup" where
  "events_lookup i rg =
     (case entry_of rg i of
        Some (LiveEntry le) \<Rightarrow> Found (le_generation le)
      | Some _ \<Rightarrow> NotAvailable
      | None \<Rightarrow> SessionGone)"

end
