(* ===== verification/Registry_Facts.thy ===== *)
theory Registry_Facts
  imports Session_Registry
begin

text \<open>
  What the sections of the registry keep: the invariant of the map (one entry per name,
  generations below the next one and never shared), the interface of the sections that
  remove at most the entry of one name, the minting of automatic names, the retention
  sweep, and the agreement of the lookups on which session is operational.
\<close>

subsection \<open>Lookups\<close>

lemma entry_put [simp]: "entry_of (put_entry i e rg) j = (if j = i then Some e else entry_of rg j)"
  by (simp add: entry_of_def put_entry_def update_conv)

lemma entry_drop [simp]: "entry_of (drop_entry i rg) j = (if j = i then None else entry_of rg j)"
  by (simp add: entry_of_def drop_entry_def delete_conv)

lemma put_rest [simp]:
  "rg_next (put_entry i e rg) = rg_next rg" "rg_cells (put_entry i e rg) = rg_cells rg"
  by (simp_all add: put_entry_def)

lemma drop_rest [simp]:
  "rg_next (drop_entry i rg) = rg_next rg" "rg_cells (drop_entry i rg) = rg_cells rg"
  by (simp_all add: drop_entry_def)

lemma entry_cong [simp]:
  "entry_of (rg\<lparr>rg_next := n\<rparr>) i = entry_of rg i" "entry_of (rg\<lparr>rg_cells := c\<rparr>) i = entry_of rg i"
  by (simp_all add: entry_of_def)

lemma update_cell_rest [simp]:
  "entry_of (update_cell g f rg) i = entry_of rg i"
  "rg_next (update_cell g f rg) = rg_next rg"
  "rg_sessions (update_cell g f rg) = rg_sessions rg"
  "rg_cells (update_cell g f rg) h = (if h = g then f (rg_cells rg g) else rg_cells rg h)"
  by (simp_all add: update_cell_def entry_of_def)

subsection \<open>The invariant of the map\<close>

fun generation_of :: "session_entry \<Rightarrow> nat option" where
  "generation_of (ConnectingEntry _ a) = Some a"
| "generation_of (LiveEntry le) = Some (le_generation le)"
| "generation_of (OrphanedEntry _ _ _) = None"

definition names_unique :: "registry \<Rightarrow> bool" where
  "names_unique rg \<longleftrightarrow> distinct (map fst (rg_sessions rg))"

definition generation_at :: "registry \<Rightarrow> session_id \<Rightarrow> nat option" where
  "generation_at rg i = Option.bind (entry_of rg i) generation_of"

definition registry_ok :: "registry \<Rightarrow> bool" where
  "registry_ok rg \<longleftrightarrow> names_unique rg
     \<and> (\<forall>i g. generation_at rg i = Some g \<longrightarrow> g < rg_next rg)
     \<and> (\<forall>i j g. generation_at rg i = Some g \<and> generation_at rg j = Some g \<longrightarrow> i = j)"

lemma names_put [simp]: "names_unique rg \<Longrightarrow> names_unique (put_entry i e rg)"
  by (simp add: names_unique_def put_entry_def distinct_update)

lemma names_drop [simp]: "names_unique rg \<Longrightarrow> names_unique (drop_entry i rg)"
  by (simp add: names_unique_def drop_entry_def distinct_delete)

lemma names_rest [simp]:
  "names_unique (rg\<lparr>rg_next := n\<rparr>) = names_unique rg"
  "names_unique (rg\<lparr>rg_cells := c\<rparr>) = names_unique rg"
  "names_unique (update_cell g f rg) = names_unique rg"
  by (simp_all add: names_unique_def)

lemma generation_rest [simp]:
  "generation_at (rg\<lparr>rg_next := n\<rparr>) i = generation_at rg i"
  "generation_at (rg\<lparr>rg_cells := c\<rparr>) i = generation_at rg i"
  "generation_at (update_cell g f rg) i = generation_at rg i"
  "generation_at (put_entry k e rg) i = (if i = k then generation_of e else generation_at rg i)"
  "generation_at (drop_entry k rg) i = (if i = k then None else generation_at rg i)"
  by (simp_all add: generation_at_def)

lemma registry_ok_drop: "registry_ok rg \<Longrightarrow> registry_ok (drop_entry i rg)"
  by (auto simp: registry_ok_def)

lemma registry_ok_put:
  assumes "registry_ok rg"
    and "generation_of e = None \<or> generation_of e = generation_at rg i
      \<or> (\<exists>g. generation_of e = Some g \<and> g < rg_next rg \<and> (\<forall>j. generation_at rg j \<noteq> Some g))"
  shows "registry_ok (put_entry i e rg)"
  using assms unfolding registry_ok_def generation_rest put_rest
  by (intro conjI allI impI; (simp; fail)?; (simp split: if_splits; metis option.distinct(1))?)

lemma registry_ok_cells [simp]:
  "registry_ok (rg\<lparr>rg_cells := c\<rparr>) = registry_ok rg"
  "registry_ok (update_cell g f rg) = registry_ok rg"
  by (simp_all add: registry_ok_def)

lemma registry_ok_generation:
  "registry_ok rg \<Longrightarrow> generation_at rg i = Some g \<Longrightarrow> g < rg_next rg"
  by (simp add: registry_ok_def)

lemma registry_ok_unshared:
  "registry_ok rg \<Longrightarrow> generation_at rg i = Some g \<Longrightarrow> generation_at rg j = Some g \<Longrightarrow> i = j"
  by (auto simp: registry_ok_def)

lemma claim_ok: "registry_ok rg \<Longrightarrow> registry_ok (snd (claim now i rg))"
proof (cases "entry_of rg i")
  case None
  assume ok: "registry_ok rg"
  have next_ok: "registry_ok (rg\<lparr>rg_next := rg_next rg + 1\<rparr>)"
    using ok by (auto simp: registry_ok_def intro: less_SucI)
  have "registry_ok (put_entry i (ConnectingEntry now (rg_next rg)) (rg\<lparr>rg_next := rg_next rg + 1\<rparr>))"
    by (rule registry_ok_put [OF next_ok]) (auto dest: registry_ok_generation [OF ok])
  then show ?thesis using None by (simp add: claim_def Let_def)
qed (simp add: claim_def)

lemma claim_result:
  "fst (claim now i rg) = (if entry_of rg i = None then Inr (rg_next rg) else Inl (DuplicateSession i))"
  by (simp add: claim_def Let_def split: option.splits)

lemma promote_ok: "registry_ok rg \<Longrightarrow> registry_ok (snd (promote i le cell rg))"
  by (auto simp: promote_def generation_at_def split: option.splits session_entry.splits
      intro!: registry_ok_put)

lemma seed_orphan_ok: "registry_ok rg \<Longrightarrow> registry_ok (seed_orphan now i h s rg)"
  by (simp add: seed_orphan_def registry_ok_put)

lemma touch_ok: "registry_ok rg \<Longrightarrow> registry_ok (snd (touch_generation i g t rg))"
  by (auto simp: touch_generation_def generation_at_def split: option.splits session_entry.splits
      intro!: registry_ok_put)

subsection \<open>Sections that remove at most the entry of one name\<close>

text \<open>
  The removals differ in which entry they accept; what the rest of the registry relies on
  is that they touch no other name, keep the entry or remove it, and say so.
\<close>

locale removal_section =
  fixes section_of :: "session_id \<Rightarrow> registry \<Rightarrow> 'r \<times> registry"
  assumes drops: "snd (section_of i rg) = rg \<or> snd (section_of i rg) = drop_entry i rg"
begin

lemma keeps_ok: "registry_ok rg \<Longrightarrow> registry_ok (snd (section_of i rg))"
  using drops [of i rg] registry_ok_drop by metis

lemma keeps_others: "j \<noteq> i \<Longrightarrow> entry_of (snd (section_of i rg)) j = entry_of rg j"
  using drops [of i rg] by (metis entry_drop)

lemma adds_none: "entry_of (snd (section_of i rg)) j = Some e \<Longrightarrow> entry_of rg j = Some e"
  using drops [of i rg] by (metis entry_drop option.distinct(1))

lemma keeps_rest:
  "rg_next (snd (section_of i rg)) = rg_next rg" "rg_cells (snd (section_of i rg)) = rg_cells rg"
  using drops [of i rg] by (metis drop_rest)+

end

interpretation closing: removal_section "\<lambda>i rg. close_section i reason rg" for reason
  by unfold_locales (auto simp: close_section_def split: option.splits session_entry.splits)

interpretation releasing: removal_section release_section
  by unfold_locales (auto simp: release_section_def split: option.splits session_entry.splits)

interpretation reclaiming: removal_section "\<lambda>i rg. close_if_generation_section i g rg" for g
  by unfold_locales
    (auto simp: close_if_generation_section_def split: option.splits session_entry.splits)

interpretation cancelling: removal_section "\<lambda>i rg. cancel_connecting i g rg" for g
  by unfold_locales (auto simp: cancel_connecting_def split: option.splits session_entry.splits)

subsection \<open>Automatic names\<close>

lemma word_lists [simp]: "length ADJECTIVES = 16" "length NOUNS = 16"
  by (simp_all add: ADJECTIVES_def NOUNS_def)

lemma adjective_nonempty: "ADJECTIVES ! (n mod 16) \<noteq> []"
proof -
  have "n mod 16 < 16" by simp
  moreover have "\<forall>a \<in> set ADJECTIVES. a \<noteq> []" by (simp add: ADJECTIVES_def lit_def)
  ultimately show ?thesis by (metis nth_mem word_lists(1))
qed

lemma auto_id_valid: "session_id_from_str (generate_auto_id seed) = Inr (generate_auto_id seed)"
  using adjective_nonempty by (simp add: session_id_from_str_def generate_auto_id_def)

lemma claim_candidates_result:
  "claim_candidates now cands rg =
    (case find (\<lambda>seed. entry_of rg (generate_auto_id seed) = None) cands of
       None \<Rightarrow> (Inl (ConnectFailed
          (lit ''could not mint a unique auto-generated session id after repeated attempts'')), rg)
     | Some seed \<Rightarrow>
         (Inr (generate_auto_id seed, rg_next rg), snd (claim now (generate_auto_id seed) rg)))"
proof (induction cands)
  case (Cons seed cands)
  show ?case
  proof (cases "entry_of rg (generate_auto_id seed)")
    case None
    then show ?thesis by (simp add: auto_id_valid claim_def Let_def)
  next
    case (Some e)
    then show ?thesis using Cons.IH by (simp add: auto_id_valid claim_def)
  qed
qed simp

text \<open>
  A connect without a name claims a name that was free, never replaces an entry, and
  fails only when the 32 minted names were all taken.
\<close>

theorem auto_name_is_free:
  "case claim_with_auto_id now seed rg of
     (Inr (i, g), rg') \<Rightarrow>
       entry_of rg i = None \<and> i \<noteq> [] \<and> g = rg_next rg \<and> rg_next rg' = g + 1
       \<and> entry_of rg' = (entry_of rg)(i \<mapsto> ConnectingEntry now g)
   | (Inl _, rg') \<Rightarrow>
       rg' = rg \<and> (\<forall>n < AUTO_ID_MAX_ATTEMPTS. entry_of rg (generate_auto_id (seed n)) \<noteq> None)"
proof (cases "find (\<lambda>s. entry_of rg (generate_auto_id s) = None) (map seed [0..<AUTO_ID_MAX_ATTEMPTS])")
  case None
  then have "\<forall>n < AUTO_ID_MAX_ATTEMPTS. entry_of rg (generate_auto_id (seed n)) \<noteq> None"
    by (auto simp: find_None_iff)
  with None show ?thesis
    by (simp add: claim_with_auto_id_def claim_candidates_result)
next
  case (Some s)
  then have "entry_of rg (generate_auto_id s) = None"
    by (auto simp: find_Some_iff)
  then show ?thesis
    using Some auto_id_valid [of s]
    by (auto simp: claim_with_auto_id_def claim_candidates_result claim_def Let_def fun_eq_iff
        session_id_from_str_def split: if_splits)
qed

subsection \<open>The retention sweep\<close>

lemma map_of_map_value:
  "map_of (map (\<lambda>(i, e). (i, f e)) xs) j = map_option f (map_of xs j)"
  by (induction xs) auto

lemma map_of_filter_value:
  "distinct (map fst xs) \<Longrightarrow>
    map_of (filter (\<lambda>(i, e). P i e) xs) j =
    (case map_of xs j of None \<Rightarrow> None | Some e \<Rightarrow> if P j e then Some e else None)"
proof (induction xs)
  case (Cons x xs)
  then show ?case
    by (cases x) (auto split: option.splits simp: map_of_eq_None_iff dest: map_of_SomeD)
qed simp

lemma sweep_due:
  assumes "distinct (map fst xs)" and "(j, e) \<in> set xs"
  shows "j \<in> set (map fst (filter (\<lambda>(i, e). P e) xs)) \<longleftrightarrow> P e"
  using assms by (auto simp: image_iff) (metis eq_key_imp_eq_value)

lemma sweep_names [simp]:
  "map (fst \<circ> (\<lambda>(i, e). (i, f e))) xs = map fst xs"
  by (induction xs) auto

lemma sweep_kept:
  assumes "distinct (map fst xs)" and "D = set (map fst (filter (\<lambda>(i, e). P e) xs))"
  shows "map_of (filter (\<lambda>(i, e). i \<notin> D) xs) j =
    (case map_of xs j of None \<Rightarrow> None | Some e \<Rightarrow> if P e then None else Some e)"
  using sweep_due [OF assms(1), of j _ P] unfolding assms(2) map_of_filter_value [OF assms(1)]
  by (auto split: option.splits dest: map_of_SomeD simp del: set_map set_filter)

lemma sweep_taken:
  assumes "distinct (map fst xs)" and "D = set (map fst (filter (\<lambda>(i, e). P e) xs))"
  shows "(j, e) \<in> set (filter (\<lambda>(i, e). i \<in> D) xs) \<longleftrightarrow> map_of xs j = Some e \<and> P e"
proof -
  have "(j, e) \<in> set (filter (\<lambda>(i, e). i \<in> D) xs) \<longleftrightarrow> (j, e) \<in> set xs \<and> j \<in> D"
    by auto
  also have "\<dots> \<longleftrightarrow> (j, e) \<in> set xs \<and> P e"
    using sweep_due [OF assms(1), of j e P] unfolding assms(2) by blast
  also have "(j, e) \<in> set xs \<longleftrightarrow> map_of xs j = Some e"
    using assms(1) by (metis map_of_SomeD map_of_is_SomeI)
  finally show ?thesis .
qed

lemma expire_seen:
  "names_unique rg \<Longrightarrow> distinct (map fst (map (\<lambda>(i, e). (i, stamp_ended now rg e)) (rg_sessions rg)))"
  "map_of (map (\<lambda>(i, e). (i, stamp_ended now rg e)) (rg_sessions rg)) j =
    map_option (stamp_ended now rg) (entry_of rg j)"
  by (simp_all add: names_unique_def map_of_map_value entry_of_def)

lemma expire_entry:
  assumes "names_unique rg"
  shows "entry_of (snd (expire_section now retention rg)) j =
    (case map_option (stamp_ended now rg) (entry_of rg j) of
       None \<Rightarrow> None
     | Some e \<Rightarrow> if is_due now retention rg e then None else Some e)"
  using sweep_kept [OF expire_seen(1) [OF assms, of now] refl, of "is_due now retention rg" j]
  unfolding expire_seen(2) by (simp add: expire_section_def Let_def entry_of_def)

lemma expire_removed:
  assumes "names_unique rg"
  shows "(j, e) \<in> set (fst (expire_section now retention rg)) \<longleftrightarrow>
    map_option (stamp_ended now rg) (entry_of rg j) = Some e \<and> is_due now retention rg e"
  using sweep_taken [OF expire_seen(1) [OF assms, of now] refl, of j e "is_due now retention rg"]
  unfolding expire_seen(2) by (simp add: expire_section_def Let_def)

lemma expire_rest [simp]:
  "rg_next (snd (expire_section now retention rg)) = rg_next rg"
  "rg_cells (snd (expire_section now retention rg)) = rg_cells rg"
  by (simp_all add: expire_section_def Let_def)

lemma generation_stamp [simp]: "generation_of (stamp_ended now rg e) = generation_of e"
  by (cases e) (simp_all add: stamp_ended_def)

lemma expire_names:
  "names_unique rg \<Longrightarrow> names_unique (snd (expire_section now retention rg))"
  by (simp add: expire_section_def Let_def names_unique_def distinct_map_filter)

lemma expire_generation:
  assumes "names_unique rg"
  shows "generation_at (snd (expire_section now retention rg)) i = Some g \<Longrightarrow> generation_at rg i = Some g"
  using expire_entry [OF assms, of now retention i]
  by (auto simp: generation_at_def split: option.splits if_splits)

lemma expire_ok: "registry_ok rg \<Longrightarrow> registry_ok (snd (expire_section now retention rg))"
  using expire_generation [of rg now retention] expire_names [of rg now retention]
  unfolding registry_ok_def expire_rest by blast

text \<open>
  The retention sweep removes an Orphaned entry once it is as old as the retention
  period, and an ended session once one period has passed since a sweep first saw it
  ended, which the first sweep after the end notes; with a period of zero it removes every
  orphan and every ended session. A session that is connecting or live stays, unchanged.
\<close>

theorem sweep_removes_what_is_due:
  assumes "names_unique rg" and "entry_of rg i = Some e"
    and "entry_of (snd (expire_section now retention rg)) i = after"
  shows "case e of
      ConnectingEntry _ _ \<Rightarrow> after = Some e
    | OrphanedEntry seen _ _ \<Rightarrow> after = (if retention \<le> now - seen then None else Some e)
    | LiveEntry le \<Rightarrow>
        (case (entry_end_cause rg e, le_ended_seen le) of
           (None, _) \<Rightarrow> after = Some e
         | (Some _, Some seen) \<Rightarrow> after = (if retention \<le> now - seen then None else Some e)
         | (Some _, None) \<Rightarrow>
             after = (if retention = 0 then None
                      else Some (LiveEntry (le\<lparr>le_ended_seen := Some now\<rparr>))))"
proof (cases e)
  case (LiveEntry le)
  have end_same: "entry_end_cause rg (LiveEntry (le\<lparr>le_ended_seen := x\<rparr>)) = entry_end_cause rg (LiveEntry le)" for x
    by (simp add: entry_end_cause_def cell_of_def)
  show ?thesis
    using assms(2,3) LiveEntry expire_entry [OF assms(1), of now retention i] end_same
    by (auto simp: stamp_ended_def is_due_def retained_since_def split: option.splits)
qed (use assms(2,3) expire_entry [OF assms(1), of now retention i] in
      \<open>auto simp: stamp_ended_def is_due_def retained_since_def\<close>)

subsection \<open>Which session is operational\<close>

lemma refuse_live [simp]:
  "refuse_ended rg i (Some (ConnectingEntry c a)) = Inr ()"
  "refuse_ended rg i (Some (OrphanedEntry n h s)) = Inr ()"
  "refuse_ended rg i None = Inr ()"
  by (simp_all add: refuse_ended_def entry_end_cause_def)

text \<open>
  All lookups of the daemon agree: a request runs on generation g of a name exactly
  when the entry is live and its session has not ended; then calls, transfers, Cua
  attachments, takeovers, recording starts and the viewer's control all reach g. Otherwise
  each of them is refused with the same error, which names the end if the session ended;
  an ended session can still be listed and its recording stopped.
\<close>

theorem lookups_agree:
  "attach_lookup i rg = live_session i rg
   \<and> map_sum id le_generation (recording_target_of i True rg) = live_session i rg
   \<and> control_of i rg = (case live_session i rg of Inr g \<Rightarrow> Some g | Inl _ \<Rightarrow> None)
   \<and> fst (takeover i src t rg) =
       map_sum id (\<lambda>g. fst (agent_takeover src t (ce_control (rg_cells rg g)))) (live_session i rg)
   \<and> (case live_session i rg of
        Inr g \<Rightarrow> generation_at rg i = Some g \<and> ce_lifecycle (rg_cells rg g) = Live
      | Inl (SessionHasEnded j c) \<Rightarrow> j = i \<and>
          (\<exists>le cause. entry_of rg i = Some (LiveEntry le) \<and> recording_target_of i False rg = Inr le
             \<and> ce_lifecycle (cell_of rg le) = Ended cause \<and> c = end_cause_str cause)
      | Inl e \<Rightarrow> recording_target_of i False rg = Inl e)"
proof (cases "entry_of rg i")
  case (Some e)
  then show ?thesis
    by (cases e)
      (auto simp: attach_lookup_def live_session_def recording_target_of_def control_of_def
        takeover_def not_live_def refuse_ended_def entry_end_cause_def generation_at_def cell_of_def
        split: lifecycle.splits prod.splits)
qed (simp add: attach_lookup_def live_session_def recording_target_of_def control_of_def
    takeover_def not_live_def)

text \<open>
  A session in use is never listed as idle: not while a Cua stream is attached, a human
  holds the control lease, or it is connecting or ended; and its idle time counts from the
  last activity of the agent or of a human, whichever is later.
\<close>

lemma idle_sessions_are_unused:
  assumes "(i, idle) \<in> set (live_idle_durations now rg)" and "names_unique rg"
  shows "\<exists>le. entry_of rg i = Some (LiveEntry le)
    \<and> live_session i rg = Inr (le_generation le)
    \<and> ce_cua_leases (cell_of rg le) = 0 \<and> cs_lease (ce_control (cell_of rg le)) = None
    \<and> idle \<le> now - le_last_activity le
    \<and> (\<forall>seen w. cs_human_activity (ce_control (cell_of rg le)) = Some (seen, w) \<longrightarrow> idle \<le> now - seen)"
proof -
  obtain e where e: "(i, e) \<in> set (rg_sessions rg)"
    and some: "(case e of
          LiveEntry le \<Rightarrow>
            if entry_end_cause rg e = None \<and> ce_cua_leases (cell_of rg le) = 0
               \<and> \<not> human_active (ce_control (cell_of rg le))
            then Some (i, elapsed now
                   (case cs_human_activity (ce_control (cell_of rg le)) of
                      None \<Rightarrow> le_last_activity le
                    | Some (seen, _) \<Rightarrow> max seen (le_last_activity le)))
            else None
        | _ \<Rightarrow> None) = Some (i, idle)"
    using assms(1) by (auto simp: live_idle_durations_def map_filter_def split: session_entry.splits if_splits)
  then obtain le where le: "e = LiveEntry le" by (cases e) auto
  have entry: "entry_of rg i = Some (LiveEntry le)"
    using e le assms(2) by (simp add: entry_of_def names_unique_def)
  moreover have "entry_end_cause rg (LiveEntry le) = None"
    using some le by (simp split: if_splits)
  ultimately have "live_session i rg = Inr (le_generation le)"
    by (simp add: live_session_def refuse_ended_def)
  then show ?thesis
    using entry some le by (auto simp: elapsed_def human_active_def split: if_splits option.splits)
qed

subsection \<open>A registry with one entry of each kind\<close>

definition sample_live :: "nat \<Rightarrow> live_entry" where
  "sample_live g = \<lparr>le_generation = g, le_connected_since_wall = lit ''t'', le_name = None,
     le_host = lit ''h'', le_last_activity = 10, le_last_activity_wall = lit ''t'',
     le_frame = True, le_ended_seen = None\<rparr>"

definition sample_cells :: "nat \<Rightarrow> session_cell" where
  "sample_cells g = \<lparr>ce_lifecycle = (if g = 1 then Ended (ServerEnded (lit ''bye'')) else Live),
     ce_control = new_control (lit ''s'') g sample_log True, ce_cua_leases = 0, ce_bootstrapping = False\<rparr>"

definition sample_registry :: registry where
  "sample_registry = \<lparr>rg_sessions = [(lit ''a'', LiveEntry (sample_live 1)),
      (lit ''b'', OrphanedEntry 5 (lit ''h'') (lit ''t'')), (lit ''c'', ConnectingEntry 0 2),
      (lit ''d'', LiveEntry (sample_live 3))],
     rg_next = 4, rg_cells = sample_cells\<rparr>"

lemmas sample_registry_defs =
  sample_registry_def sample_cells_def sample_live_def entry_of_def names_unique_def lit_def

lemma auto_name_is_free_witness:
  "fst (claim_with_auto_id 7 (\<lambda>_. 0) sample_registry) = Inr (lit ''brave-otter'', 4)"
  using auto_name_is_free [where now = 7 and seed = "\<lambda>_. 0" and rg = sample_registry]
  by (simp add: claim_with_auto_id_def claim_candidates_result AUTO_ID_MAX_ATTEMPTS_def upt_rec
      generate_auto_id_def ADJECTIVES_def NOUNS_def sample_registry_defs)

lemma sweep_removes_what_is_due_witness:
  "entry_of (snd (expire_section 20 0 sample_registry)) (lit ''a'') = None
   \<and> entry_of (snd (expire_section 20 9 sample_registry)) (lit ''a'')
       = Some (LiveEntry ((sample_live 1)\<lparr>le_ended_seen := Some 20\<rparr>))"
proof -
  have e: "names_unique sample_registry"
    "entry_of sample_registry (lit ''a'') = Some (LiveEntry (sample_live 1))"
    "entry_end_cause sample_registry (LiveEntry (sample_live 1)) = Some (ServerEnded (lit ''bye''))"
    "le_ended_seen (sample_live 1) = None"
    by (simp_all add: sample_registry_defs entry_end_cause_def cell_of_def)
  show ?thesis
    using sweep_removes_what_is_due [OF e(1,2) refl, of 20 0]
      sweep_removes_what_is_due [OF e(1,2) refl, of 20 9]
    by (simp add: e del: One_nat_def)
qed

end
