(* ===== verification/Registry_Steps.thy ===== *)
theory Registry_Steps
  imports Registry_Facts
begin

text \<open>
  The tasks of the daemon around the registry, interleaved at every lock and every await:
  \<open>open_tracked\<close> with its connect task and its drop guard, the removals and
  \<open>close_removed\<close>, the end hook (\<open>watch_session_end\<close> in \<open>events.rs\<close>), and the removal
  of orphan records. Each attempt to connect is known by its generation; \<open>gen\<close> holds where
  each of its tasks is. An atomic piece of code is a function of the state; the step
  relation says when it may run.

  The connector and the session are outside: when a connect succeeds or fails, and when and
  why a session ends, is left to the steps. As in \<open>Session_Loop\<close>, a loop ends as
  \<open>ClientClosed\<close> only after its owner closed or dropped the session.
\<close>

subsection \<open>The state\<close>

datatype open_pc =
    NoOpen
  | OpenWaits \<comment> \<open>awaits the connect task, guard armed\<close>
  | OpenGot \<comment> \<open>has the session\<close>
  | OpenRecorded \<comment> \<open>the record is written\<close>
  | OpenCancels daemon_fault \<comment> \<open>removes its placeholder\<close>
  | OpenRefused \<comment> \<open>the placeholder was gone\<close>
  | OpenUnrecorded
  | OpenCloses \<comment> \<open>awaits the close of the refused session\<close>
  | OpenFailed daemon_fault
  | OpenDone
  | OpenDrops \<comment> \<open>dropped while it waited: \<open>ConnectGuard::drop\<close>\<close>
  | OpenDropsRx
  | OpenGone

datatype conn_pc =
    NoConn
  | ConnRuns
  | ConnReady \<comment> \<open>has a session to send\<close>
  | ConnSentOk
  | ConnSentErr daemon_fault
  | ConnSilent \<comment> \<open>ended without a result\<close>
  | ConnTaken \<comment> \<open>the session was received\<close>
  | ConnOwnClose \<comment> \<open>nobody received: it closes the session itself\<close>

datatype handle = HandleHeld | CauseSent | HandleDropped

datatype close_pc =
    NoClose
  | CloseTaken \<comment> \<open>removed from the map\<close>
  | CloseChecked bool \<comment> \<open>whether the session had ended\<close>
  | CloseUnhooked bool
  | CloseUnrecorded
  | ClosePolled bool
  | CloseAwaits bool
  | CloseJoined bool
  | CloseFinished
  | CloseAbandoned bool

datatype hook_pc = NoHook | HookWaits | HookAborted | HookFired | HookUnrecorded | HookDone

record gen =
  gn_id :: session_id
  gn_name :: "ustr option"
  gn_host :: ustr
  gn_open :: open_pc
  gn_conn :: conn_pc
  gn_cancel :: handle
  gn_close :: close_pc
  gn_reason :: "close_reason option"
  gn_by_connect :: bool \<comment> \<open>closed by \<open>release_name\<close>, whose caller can be dropped\<close>
  gn_hook :: hook_pc
  gn_closes :: nat \<comment> \<open>how often a close of the session was started\<close>
  gn_bare :: nat \<comment> \<open>how often the session was dropped without one\<close>
  gn_no_thread :: bool \<comment> \<open>\<open>close_detached\<close> could not start its thread or runtime\<close>

definition no_gen :: gen where
  "no_gen = \<lparr>gn_id = [], gn_name = None, gn_host = [], gn_open = NoOpen, gn_conn = NoConn,
     gn_cancel = HandleDropped, gn_close = NoClose, gn_reason = None, gn_by_connect = False,
     gn_hook = NoHook, gn_closes = 0, gn_bare = 0, gn_no_thread = False\<rparr>"

record daemon =
  dm_reg :: registry
  dm_book :: record_book
  dm_gen :: "nat \<Rightarrow> gen"
  dm_orphans :: "session_id list" \<comment> \<open>removed orphans whose record is still to be removed\<close>

definition set_gen :: "nat \<Rightarrow> (gen \<Rightarrow> gen) \<Rightarrow> daemon \<Rightarrow> daemon" where
  "set_gen g f s = s\<lparr>dm_gen := (dm_gen s)(g := f (dm_gen s g))\<rparr>"

definition set_cell :: "nat \<Rightarrow> (session_cell \<Rightarrow> session_cell) \<Rightarrow> daemon \<Rightarrow> daemon" where
  "set_cell g f s = s\<lparr>dm_reg := update_cell g f (dm_reg s)\<rparr>"

definition end_with :: "end_cause \<Rightarrow> session_cell \<Rightarrow> session_cell" where
  "end_with c cell = (if ce_lifecycle cell = Live then cell\<lparr>ce_lifecycle := Ended c\<rparr> else cell)"

definition connect_cancelled :: daemon_fault where
  "connect_cancelled = ConnectFailed (lit ''connect cancelled before the session was registered'')"

definition cancelled_by :: "cancel_cause \<Rightarrow> daemon_fault" where
  "cancelled_by c =
     (case c of CancelDisconnect \<Rightarrow> ConnectFailed (lit ''connect cancelled by disconnect''))"

subsection \<open>Opening\<close>

text \<open>The claim of a name, with the connect task and the guard that \<open>open_tracked\<close> makes next.\<close>

definition new_gen :: "session_id \<Rightarrow> ustr option \<Rightarrow> ustr \<Rightarrow> gen" where
  "new_gen i name host = no_gen\<lparr>gn_id := i, gn_name := name, gn_host := host,
     gn_open := OpenWaits, gn_conn := ConnRuns, gn_cancel := HandleHeld\<rparr>"

definition open_claim ::
  "nat \<Rightarrow> session_id \<Rightarrow> ustr option \<Rightarrow> ustr \<Rightarrow> daemon \<Rightarrow> (daemon_fault + nat) \<times> daemon" where
  "open_claim now i name host s =
     (let (r, rg) = claim now i (dm_reg s); s' = s\<lparr>dm_reg := rg\<rparr>
      in case r of
           Inl e \<Rightarrow> (Inl e, s')
         | Inr g \<Rightarrow> (Inr g, set_gen g (\<lambda>_. new_gen i name host) s'))"

definition open_claim_auto ::
  "nat \<Rightarrow> (nat \<Rightarrow> nat) \<Rightarrow> ustr \<Rightarrow> daemon \<Rightarrow> (daemon_fault + session_id \<times> nat) \<times> daemon" where
  "open_claim_auto now seed host s =
     (let (r, rg) = claim_with_auto_id now seed (dm_reg s); s' = s\<lparr>dm_reg := rg\<rparr>
      in case r of
           Inl e \<Rightarrow> (Inl e, s')
         | Inr (i, g) \<Rightarrow> (Inr (i, g), set_gen g (\<lambda>_. new_gen i None host) s'))"

text \<open>The receiver is open until the guard closes it or the value is taken.\<close>

definition rx_open :: "gen \<Rightarrow> bool" where
  "rx_open d \<longleftrightarrow> gn_open d \<in> {OpenWaits, OpenDrops, OpenDropsRx}"

definition connect_result :: "daemon_fault \<Rightarrow> gen \<Rightarrow> gen" where
  "connect_result e d = d\<lparr>gn_conn := if rx_open d then ConnSentErr e else ConnSilent\<rparr>"

text \<open>One poll of the task that finds the cancel handle sent or dropped.\<close>

definition connect_sees_cancel :: "gen \<Rightarrow> gen" where
  "connect_sees_cancel d =
     (if gn_cancel d = CauseSent then connect_result (cancelled_by CancelDisconnect) d
      else d\<lparr>gn_conn := ConnSilent\<rparr>)"

definition connect_ready :: "nat \<Rightarrow> daemon \<Rightarrow> daemon" where
  "connect_ready g s =
     set_cell g (\<lambda>c. c\<lparr>ce_lifecycle := Live\<rparr>) (set_gen g (\<lambda>d. d\<lparr>gn_conn := ConnReady\<rparr>) s)"

definition session_close_starts :: "nat \<Rightarrow> daemon \<Rightarrow> daemon" where
  "session_close_starts g s =
     set_cell g (end_with ClientClosed) (set_gen g (\<lambda>d. d\<lparr>gn_closes := gn_closes d + 1\<rparr>) s)"

definition session_drops :: "nat \<Rightarrow> daemon \<Rightarrow> daemon" where
  "session_drops g s =
     set_cell g (end_with ClientClosed) (set_gen g (\<lambda>d. d\<lparr>gn_bare := gn_bare d + 1\<rparr>) s)"

definition connect_sends :: "nat \<Rightarrow> daemon \<Rightarrow> daemon" where
  "connect_sends g s =
     (if rx_open (dm_gen s g) then set_gen g (\<lambda>d. d\<lparr>gn_conn := ConnSentOk\<rparr>) s
      else session_close_starts g (set_gen g (\<lambda>d. d\<lparr>gn_conn := ConnOwnClose\<rparr>) s))"

definition open_receives :: "gen \<Rightarrow> gen" where
  "open_receives d =
     (case gn_conn d of
        ConnSentOk \<Rightarrow> d\<lparr>gn_open := OpenGot, gn_conn := ConnTaken\<rparr>
      | ConnSentErr e \<Rightarrow> d\<lparr>gn_open := OpenCancels e\<rparr>
      | ConnSilent \<Rightarrow> d\<lparr>gn_open := OpenCancels connect_cancelled\<rparr>
      | _ \<Rightarrow> d)"

definition own_cancel :: "nat \<Rightarrow> open_pc \<Rightarrow> daemon \<Rightarrow> daemon" where
  "own_cancel g pc s =
     (let (removed, rg) = cancel_connecting (gn_id (dm_gen s g)) g (dm_reg s)
      in set_gen g (\<lambda>d. d\<lparr>gn_open := pc, gn_cancel := if removed then HandleDropped else gn_cancel d\<rparr>)
           (s\<lparr>dm_reg := rg\<rparr>))"

text \<open>
  The rest of the guard's drop: a session that was delivered meanwhile is closed on a thread
  of its own; \<open>spawned\<close> says whether that thread and its runtime could start.
\<close>

definition guard_drains :: "bool \<Rightarrow> nat \<Rightarrow> daemon \<Rightarrow> daemon" where
  "guard_drains spawned g s =
     (let s' = set_gen g (\<lambda>d. d\<lparr>gn_open := OpenGone,
                gn_conn := if gn_conn d = ConnSentOk then ConnTaken else gn_conn d,
                gn_no_thread := (gn_conn d = ConnSentOk \<and> \<not> spawned)\<rparr>) s
      in if gn_conn (dm_gen s g) = ConnSentOk
         then (if spawned then session_close_starts g s' else session_drops g s') else s')"

definition open_records :: "io \<Rightarrow> io \<Rightarrow> ustr \<Rightarrow> nat \<Rightarrow> daemon \<Rightarrow> daemon" where
  "open_records x y since g s =
     (let d = dm_gen s g
      in set_gen g (\<lambda>d. d\<lparr>gn_open := OpenRecorded\<rparr>)
           (s\<lparr>dm_book := book_opened x y (gn_id d) g (gn_host d) since (dm_book s)\<rparr>))"

definition new_live_entry :: "nat \<Rightarrow> bool \<Rightarrow> tick \<Rightarrow> gen \<Rightarrow> live_entry" where
  "new_live_entry g frames t d =
     (let wall_now = iso8601_from_system_time (tk_wall t)
      in \<lparr>le_generation = g, le_connected_since_wall = wall_now, le_name = gn_name d,
          le_host = gn_host d, le_last_activity = tk_now t, le_last_activity_wall = wall_now,
          le_frame = frames, le_ended_seen = None\<rparr>)"

definition open_promotes ::
  "session_events \<Rightarrow> bool \<Rightarrow> bool \<Rightarrow> bool \<Rightarrow> tick \<Rightarrow> nat \<Rightarrow> daemon \<Rightarrow> daemon" where
  "open_promotes events frames human_input bootstrap t g s =
     (let d = dm_gen s g;
          cell = \<lparr>ce_lifecycle = ce_lifecycle (rg_cells (dm_reg s) g),
                  ce_control = new_control (gn_id d) g events human_input,
                  ce_cua_leases = 0, ce_bootstrapping = bootstrap\<rparr>;
          (promoted, rg) = promote (gn_id d) (new_live_entry g frames t d) cell (dm_reg s);
          s' = s\<lparr>dm_reg := rg\<rparr>
      in if promoted
         then set_gen g (\<lambda>d. d\<lparr>gn_open := OpenDone, gn_hook := HookWaits, gn_cancel := HandleDropped\<rparr>) s'
         else set_gen g (\<lambda>d. d\<lparr>gn_open := OpenRefused\<rparr>) s')"

definition forget :: "io \<Rightarrow> io \<Rightarrow> nat \<Rightarrow> daemon \<Rightarrow> daemon" where
  "forget x y g s =
     s\<lparr>dm_book := fst (book_closed x y (gn_id (dm_gen s g)) g (dm_book s))\<rparr>"

definition open_unrecords :: "io \<Rightarrow> io \<Rightarrow> nat \<Rightarrow> daemon \<Rightarrow> daemon" where
  "open_unrecords x y g s = set_gen g (\<lambda>d. d\<lparr>gn_open := OpenUnrecorded\<rparr>) (forget x y g s)"

definition open_closes :: "nat \<Rightarrow> daemon \<Rightarrow> daemon" where
  "open_closes g s =
     session_close_starts g (set_gen g (\<lambda>d. d\<lparr>gn_open := OpenCloses\<rparr>) s)"

definition open_fails :: "gen \<Rightarrow> gen" where
  "open_fails d = d\<lparr>gn_open := OpenFailed
     (if gn_cancel d = CauseSent then cancelled_by CancelDisconnect else connect_cancelled)\<rparr>"

subsection \<open>Removing and closing\<close>

text \<open>What a removal section does besides the map, still under the lock or right after it.\<close>

fun removed_from :: "session_id \<Rightarrow> close_reason \<Rightarrow> bool \<Rightarrow> removed \<Rightarrow> daemon \<Rightarrow> daemon" where
  "removed_from i reason by_connect (CancelledConnect a) s =
     set_gen a (\<lambda>d. d\<lparr>gn_cancel := CauseSent\<rparr>) s"
| "removed_from i reason by_connect (RemovedLive le) s =
     set_gen (le_generation le)
       (\<lambda>d. d\<lparr>gn_close := CloseTaken, gn_reason := Some reason, gn_by_connect := by_connect\<rparr>) s"
| "removed_from i reason by_connect RemovedOrphan s = s\<lparr>dm_orphans := dm_orphans s @ [i]\<rparr>"
| "removed_from i reason by_connect NothingRemoved s = s"
| "removed_from i reason by_connect (Refused e) s = s"

definition close_named :: "close_reason \<Rightarrow> session_id \<Rightarrow> daemon \<Rightarrow> removed \<times> daemon" where
  "close_named reason i s =
     (let (r, rg) = close_section i reason (dm_reg s)
      in (r, removed_from i reason False r (s\<lparr>dm_reg := rg\<rparr>)))"

definition release_name :: "session_id \<Rightarrow> daemon \<Rightarrow> removed \<times> daemon" where
  "release_name i s =
     (let (r, rg) = release_section i (dm_reg s)
      in (r, removed_from i Disconnect True r (s\<lparr>dm_reg := rg\<rparr>)))"

definition close_if_generation :: "session_id \<Rightarrow> nat \<Rightarrow> daemon \<Rightarrow> removed \<times> daemon" where
  "close_if_generation i g s =
     (let (r, rg) = close_if_generation_section i g (dm_reg s)
      in (r, removed_from i ConnectAborted False r (s\<lparr>dm_reg := rg\<rparr>)))"

fun expired_one :: "session_id \<times> session_entry \<Rightarrow> daemon \<Rightarrow> daemon" where
  "expired_one (i, OrphanedEntry _ _ _) s = removed_from i IdleReap False RemovedOrphan s"
| "expired_one (i, LiveEntry le) s = removed_from i IdleReap False (RemovedLive le) s"
| "expired_one (i, ConnectingEntry _ _) s = s"

definition expire_retained :: "nat \<Rightarrow> nat \<Rightarrow> daemon \<Rightarrow> daemon" where
  "expire_retained now retention s =
     (let (gone, rg) = expire_section now retention (dm_reg s)
      in fold expired_one gone (s\<lparr>dm_reg := rg\<rparr>))"

definition close_checks :: "nat \<Rightarrow> daemon \<Rightarrow> daemon" where
  "close_checks g s =
     set_gen g (\<lambda>d. d\<lparr>gn_close := CloseChecked (ce_lifecycle (rg_cells (dm_reg s) g) \<noteq> Live)\<rparr>) s"

text \<open>
  The hook is aborted, which takes effect when it next waits: \<open>in_poll\<close> says that it is
  running at this moment.
\<close>

definition close_unhooks :: "bool \<Rightarrow> bool \<Rightarrow> gen \<Rightarrow> gen" where
  "close_unhooks ended in_poll d =
     d\<lparr>gn_close := CloseUnhooked ended,
       gn_hook := if gn_hook d = HookWaits \<and> \<not> in_poll then HookAborted else gn_hook d\<rparr>"

definition close_unrecords :: "io \<Rightarrow> io \<Rightarrow> nat \<Rightarrow> daemon \<Rightarrow> daemon" where
  "close_unrecords x y g s = set_gen g (\<lambda>d. d\<lparr>gn_close := CloseUnrecorded\<rparr>) (forget x y g s)"

definition close_polls :: "bool \<Rightarrow> nat \<Rightarrow> daemon \<Rightarrow> daemon" where
  "close_polls ended g s =
     session_close_starts g (set_gen g (\<lambda>d. d\<lparr>gn_close := ClosePolled ended\<rparr>) s)"

definition end_lease_on_close :: "tick \<Rightarrow> control \<Rightarrow> control" where
  "end_lease_on_close t c =
     (case end_human_ended t c of
        (None, c') \<Rightarrow> c'
      | (Some _, c') \<Rightarrow> transition_done c')"

definition close_ends_lease :: "bool \<Rightarrow> tick \<Rightarrow> nat \<Rightarrow> daemon \<Rightarrow> daemon" where
  "close_ends_lease ended t g s =
     set_cell g (\<lambda>c. c\<lparr>ce_control := end_lease_on_close t (ce_control c)\<rparr>)
       (set_gen g (\<lambda>d. d\<lparr>gn_close := CloseAwaits ended\<rparr>) s)"

definition close_finishes :: "io \<Rightarrow> io \<Rightarrow> nat \<Rightarrow> daemon \<Rightarrow> daemon" where
  "close_finishes x y g s = set_gen g (\<lambda>d. d\<lparr>gn_close := CloseFinished\<rparr>) (forget x y g s)"

subsection \<open>The end hook\<close>

definition hook_wakes :: "end_cause \<Rightarrow> gen \<Rightarrow> gen" where
  "hook_wakes c d = d\<lparr>gn_hook := if c = ClientClosed then HookDone else HookFired\<rparr>"

definition hook_unrecords :: "io \<Rightarrow> io \<Rightarrow> nat \<Rightarrow> daemon \<Rightarrow> daemon" where
  "hook_unrecords x y g s = set_gen g (\<lambda>d. d\<lparr>gn_hook := HookUnrecorded\<rparr>) (forget x y g s)"

text \<open>The event \<open>session_ended\<close>, and the locked part of \<open>end_lease_of_ended\<close>.\<close>

definition hook_finishes :: "tick \<Rightarrow> tick \<Rightarrow> nat \<Rightarrow> daemon \<Rightarrow> daemon" where
  "hook_finishes t u g s =
     set_cell g (\<lambda>c. c\<lparr>ce_control := snd (end_human_ended u (record_control Cli SessionEnded t (ce_control c)))\<rparr>)
       (set_gen g (\<lambda>d. d\<lparr>gn_hook := HookDone\<rparr>) s)"

subsection \<open>The steps\<close>

definition session_exists :: "gen \<Rightarrow> bool" where
  "session_exists d \<longleftrightarrow> gn_conn d \<in> {ConnReady, ConnSentOk, ConnTaken, ConnOwnClose}"

inductive daemon_step :: "daemon \<Rightarrow> daemon \<Rightarrow> bool" where
  claims: "i \<noteq> [] \<Longrightarrow> daemon_step s (snd (open_claim now i name host s))"
| claims_auto: "daemon_step s (snd (open_claim_auto now seed host s))"
| conn_cancelled: "gn_conn (dm_gen s g) = ConnRuns \<Longrightarrow> gn_cancel (dm_gen s g) \<noteq> HandleHeld
    \<Longrightarrow> daemon_step s (set_gen g connect_sees_cancel s)"
| conn_ready: "gn_conn (dm_gen s g) = ConnRuns \<Longrightarrow> gn_cancel (dm_gen s g) = HandleHeld
    \<Longrightarrow> daemon_step s (connect_ready g s)"
| conn_fails: "gn_conn (dm_gen s g) = ConnRuns \<Longrightarrow> gn_cancel (dm_gen s g) = HandleHeld
    \<Longrightarrow> daemon_step s (set_gen g (connect_result e) s)"
| conn_panics: "gn_conn (dm_gen s g) = ConnRuns
    \<Longrightarrow> daemon_step s (set_gen g (\<lambda>d. d\<lparr>gn_conn := ConnSilent\<rparr>) s)"
| conn_sends: "gn_conn (dm_gen s g) = ConnReady \<Longrightarrow> daemon_step s (connect_sends g s)"
| receives: "gn_open (dm_gen s g) = OpenWaits \<Longrightarrow> daemon_step s (set_gen g open_receives s)"
| cancels: "gn_open (dm_gen s g) = OpenCancels e \<Longrightarrow> daemon_step s (own_cancel g (OpenFailed e) s)"
| dropped: "gn_open (dm_gen s g) = OpenWaits
    \<Longrightarrow> daemon_step s (set_gen g (\<lambda>d. d\<lparr>gn_open := OpenDrops\<rparr>) s)"
| drop_cancels: "gn_open (dm_gen s g) = OpenDrops \<Longrightarrow> daemon_step s (own_cancel g OpenDropsRx s)"
| drop_drains: "gn_open (dm_gen s g) = OpenDropsRx \<Longrightarrow> daemon_step s (guard_drains spawned g s)"
| records: "gn_open (dm_gen s g) = OpenGot \<Longrightarrow> daemon_step s (open_records x y since g s)"
| promotes: "gn_open (dm_gen s g) = OpenRecorded
    \<Longrightarrow> daemon_step s (open_promotes events frames human_input bootstrap t g s)"
| unrecords: "gn_open (dm_gen s g) = OpenRefused \<Longrightarrow> daemon_step s (open_unrecords x y g s)"
| refused_closes: "gn_open (dm_gen s g) = OpenUnrecorded \<Longrightarrow> daemon_step s (open_closes g s)"
| refused_fails: "gn_open (dm_gen s g) = OpenCloses \<Longrightarrow> daemon_step s (set_gen g open_fails s)"
| refused_dropped: "gn_open (dm_gen s g) = OpenCloses
    \<Longrightarrow> daemon_step s (set_gen g (\<lambda>d. d\<lparr>gn_open := OpenGone\<rparr>) s)"
| disconnects: "daemon_step s (snd (close_named Disconnect i s))"
| closes_idle: "daemon_step s (snd (close_named IdleReap i s))"
| releases: "daemon_step s (snd (release_name i s))"
| reclaims: "daemon_step s (snd (close_if_generation i g s))"
| sweeps: "daemon_step s (expire_retained now retention s)"
| close_check: "gn_close (dm_gen s g) = CloseTaken \<Longrightarrow> daemon_step s (close_checks g s)"
| close_unhook: "gn_close (dm_gen s g) = CloseChecked ended
    \<Longrightarrow> daemon_step s (set_gen g (close_unhooks ended in_poll) s)"
| close_unrecord: "gn_close (dm_gen s g) = CloseUnhooked True
    \<Longrightarrow> daemon_step s (close_unrecords x y g s)"
| close_poll_live: "gn_close (dm_gen s g) = CloseUnhooked False
    \<Longrightarrow> daemon_step s (close_polls False g s)"
| close_poll_ended: "gn_close (dm_gen s g) = CloseUnrecorded
    \<Longrightarrow> daemon_step s (close_polls True g s)"
| close_lease: "gn_close (dm_gen s g) = ClosePolled ended
    \<Longrightarrow> daemon_step s (close_ends_lease ended t g s)"
| close_joins: "gn_close (dm_gen s g) = CloseAwaits ended
    \<Longrightarrow> daemon_step s (set_gen g (\<lambda>d. d\<lparr>gn_close := CloseJoined ended\<rparr>) s)"
| close_dropped: "gn_close (dm_gen s g) = CloseAwaits ended \<Longrightarrow> gn_by_connect (dm_gen s g)
    \<Longrightarrow> daemon_step s (set_gen g (\<lambda>d. d\<lparr>gn_close := CloseAbandoned ended\<rparr>) s)"
| close_finish: "gn_close (dm_gen s g) = CloseJoined ended \<Longrightarrow> daemon_step s (close_finishes x y g s)"
| hook_wake: "gn_hook (dm_gen s g) = HookWaits
    \<Longrightarrow> ce_lifecycle (rg_cells (dm_reg s) g) = Ended c \<Longrightarrow> daemon_step s (set_gen g (hook_wakes c) s)"
| hook_unrecord: "gn_hook (dm_gen s g) = HookFired \<Longrightarrow> daemon_step s (hook_unrecords x y g s)"
| hook_finish: "gn_hook (dm_gen s g) = HookUnrecorded \<Longrightarrow> daemon_step s (hook_finishes t u g s)"
| orphan_forgotten: "dm_orphans s = is @ i # js
    \<Longrightarrow> daemon_step s (s\<lparr>dm_orphans := is @ js, dm_book := closed_orphan y i (dm_book s)\<rparr>)"
| session_ends: "session_exists (dm_gen s g) \<Longrightarrow> c \<noteq> ClientClosed
    \<Longrightarrow> daemon_step s (set_cell g (end_with c) s)"
| cell_changes: "(\<And>cell. ce_lifecycle (f cell) = ce_lifecycle cell) \<Longrightarrow> daemon_step s (set_cell g f s)"
| touches: "daemon_step s (s\<lparr>dm_reg := snd (touch_generation i g t (dm_reg s))\<rparr>)"

text \<open>The daemon at startup: the seeded orphans only.\<close>

definition started :: "daemon \<Rightarrow> bool" where
  "started s \<longleftrightarrow> names_unique (dm_reg s) \<and> (\<forall>i. generation_at (dm_reg s) i = None)
     \<and> dm_gen s = (\<lambda>_. no_gen) \<and> bk_open (dm_book s) = (\<lambda>_. None)"

inductive daemon_reachable :: "daemon \<Rightarrow> bool" where
  starts: "started s \<Longrightarrow> daemon_reachable s"
| steps: "daemon_reachable s \<Longrightarrow> daemon_step s s' \<Longrightarrow> daemon_reachable s'"

end
