(* ===== verification/Registry_Safety.thy ===== *)
theory Registry_Safety
  imports Registry_Steps
begin

text \<open>
  The invariant of \<open>Registry_Steps\<close>: for each generation, which combinations of task
  states, map entry, lifecycle and record ownership can occur; and for the daemon, how
  generations and names relate. Each step changes the view of one generation, so one lemma
  reduces the preservation of the invariant to that generation.
\<close>

subsection \<open>The view of one generation\<close>

datatype place = Absent | Placeholder | Registered

definition place_in :: "registry \<Rightarrow> session_id \<Rightarrow> nat \<Rightarrow> place" where
  "place_in rg i g =
     (case entry_of rg i of
        Some (ConnectingEntry _ a) \<Rightarrow> if a = g then Placeholder else Absent
      | Some (LiveEntry le) \<Rightarrow> if le_generation le = g then Registered else Absent
      | _ \<Rightarrow> Absent)"

definition place_of :: "daemon \<Rightarrow> nat \<Rightarrow> place" where
  "place_of s g = place_in (dm_reg s) (gn_id (dm_gen s g)) g"

definition life_of :: "daemon \<Rightarrow> nat \<Rightarrow> lifecycle" where
  "life_of s g = ce_lifecycle (rg_cells (dm_reg s) g)"

definition owns :: "daemon \<Rightarrow> nat \<Rightarrow> bool" where
  "owns s g \<longleftrightarrow> bk_open (dm_book s) (gn_id (dm_gen s g)) = Some g"

fun conn_pending :: "conn_pc \<Rightarrow> bool" where
  "conn_pending ConnRuns = True"
| "conn_pending ConnReady = True"
| "conn_pending ConnSentOk = True"
| "conn_pending (ConnSentErr _) = True"
| "conn_pending ConnSilent = True"
| "conn_pending _ = False"

fun conn_failed :: "conn_pc \<Rightarrow> bool" where
  "conn_failed (ConnSentErr _) = True"
| "conn_failed ConnSilent = True"
| "conn_failed _ = False"

text \<open>The error of a failed connect: what its task sent, or why its placeholder was gone.\<close>

definition answer_of_task :: "gen \<Rightarrow> daemon_fault \<Rightarrow> bool" where
  "answer_of_task d e \<longleftrightarrow>
     gn_conn d = ConnSentErr e \<or> gn_conn d = ConnSilent \<and> e = connect_cancelled"

definition answer_of_cancel :: "gen \<Rightarrow> daemon_fault" where
  "answer_of_cancel d =
     (if gn_cancel d = CauseSent then cancelled_by CancelDisconnect else connect_cancelled)"

definition waiting_ok :: "gen \<Rightarrow> place \<Rightarrow> bool" where
  "waiting_ok d p \<longleftrightarrow> p \<noteq> Registered \<and> (p = Placeholder \<longleftrightarrow> gn_cancel d = HandleHeld)"

definition gone_ok :: "gen \<Rightarrow> place \<Rightarrow> bool" where
  "gone_ok d p \<longleftrightarrow> p = Absent \<and> gn_cancel d \<noteq> HandleHeld"

definition opening_ok :: "gen \<Rightarrow> place \<Rightarrow> bool" where
  "opening_ok d p \<longleftrightarrow>
     (case gn_open d of
        NoOpen \<Rightarrow> gn_conn d = NoConn \<and> gn_cancel d = HandleDropped \<and> p = Absent
      | OpenWaits \<Rightarrow> conn_pending (gn_conn d) \<and> waiting_ok d p
      | OpenDrops \<Rightarrow> conn_pending (gn_conn d) \<and> waiting_ok d p
      | OpenDropsRx \<Rightarrow> conn_pending (gn_conn d) \<and> gone_ok d p
      | OpenGone \<Rightarrow> gn_conn d \<noteq> NoConn \<and> gn_conn d \<noteq> ConnSentOk \<and> gone_ok d p
      | OpenGot \<Rightarrow> gn_conn d = ConnTaken \<and> waiting_ok d p
      | OpenRecorded \<Rightarrow> gn_conn d = ConnTaken \<and> waiting_ok d p
      | OpenCancels e \<Rightarrow> answer_of_task d e \<and> waiting_ok d p
      | OpenFailed e \<Rightarrow> (answer_of_task d e \<or> gn_conn d = ConnTaken \<and> e = answer_of_cancel d) \<and> gone_ok d p
      | OpenRefused \<Rightarrow> gn_conn d = ConnTaken \<and> gone_ok d p
      | OpenUnrecorded \<Rightarrow> gn_conn d = ConnTaken \<and> gone_ok d p
      | OpenCloses \<Rightarrow> gn_conn d = ConnTaken \<and> gone_ok d p
      | OpenDone \<Rightarrow> gn_conn d = ConnTaken \<and> gn_cancel d = HandleDropped
          \<and> p = (if gn_close d = NoClose then Registered else Absent))"

text \<open>The session is still live for its closer, or the close has not polled it yet.\<close>

fun close_before_poll :: "close_pc \<Rightarrow> bool" where
  "close_before_poll NoClose = True"
| "close_before_poll CloseTaken = True"
| "close_before_poll (CloseChecked _) = True"
| "close_before_poll (CloseUnhooked _) = True"
| "close_before_poll CloseUnrecorded = True"
| "close_before_poll _ = False"

text \<open>The close knows that the session had ended when it was taken.\<close>

fun close_of_ended :: "close_pc \<Rightarrow> bool" where
  "close_of_ended (CloseChecked e) = e"
| "close_of_ended (CloseUnhooked e) = e"
| "close_of_ended CloseUnrecorded = True"
| "close_of_ended (ClosePolled e) = e"
| "close_of_ended (CloseAwaits e) = e"
| "close_of_ended (CloseJoined e) = e"
| "close_of_ended (CloseAbandoned e) = e"
| "close_of_ended _ = False"

text \<open>The close still has the removal of the record before it.\<close>

fun close_will_forget :: "close_pc \<Rightarrow> bool" where
  "close_will_forget CloseTaken = True"
| "close_will_forget (CloseChecked _) = True"
| "close_will_forget (CloseUnhooked _) = True"
| "close_will_forget (ClosePolled e) = (\<not> e)"
| "close_will_forget (CloseAwaits e) = (\<not> e)"
| "close_will_forget (CloseJoined e) = (\<not> e)"
| "close_will_forget _ = False"

definition closing_ok :: "gen \<Rightarrow> lifecycle \<Rightarrow> bool" where
  "closing_ok d l \<longleftrightarrow>
     (if gn_open d \<noteq> OpenDone
      then gn_close d = NoClose \<and> gn_hook d = NoHook \<and> \<not> gn_by_connect d
      else gn_hook d \<noteq> NoHook
        \<and> (l = Live \<longrightarrow> \<not> close_of_ended (gn_close d) \<and> close_before_poll (gn_close d)
             \<and> gn_hook d \<in> {HookWaits, HookAborted})
        \<and> (gn_by_connect d \<longrightarrow> close_of_ended (gn_close d) \<or> gn_close d = CloseFinished
             \<or> gn_close d = CloseTaken \<and> l \<noteq> Live)
        \<and> (gn_hook d = HookAborted \<longrightarrow> gn_close d \<noteq> NoClose)
        \<and> gn_close d \<noteq> CloseAbandoned False)"

definition holders :: "gen \<Rightarrow> nat" where
  "holders d = of_bool (gn_conn d \<in> {ConnReady, ConnSentOk})
     + of_bool (gn_open d \<in> {OpenGot, OpenRecorded, OpenRefused, OpenUnrecorded})
     + of_bool (gn_open d = OpenDone \<and> close_before_poll (gn_close d))"

definition account_ok :: "gen \<Rightarrow> lifecycle \<Rightarrow> bool" where
  "account_ok d l \<longleftrightarrow>
     holders d + gn_closes d + gn_bare d = of_bool (session_exists d)
     \<and> (if gn_open d = OpenGone then gn_no_thread d = (gn_bare d \<noteq> 0) else gn_bare d = 0 \<and> \<not> gn_no_thread d)
     \<and> (session_exists d \<and> gn_closes d = 0 \<and> gn_bare d = 0 \<longrightarrow> l \<noteq> Ended ClientClosed)"

definition record_ok :: "gen \<Rightarrow> place \<Rightarrow> bool \<Rightarrow> bool" where
  "record_ok d p own \<longleftrightarrow>
     (own \<longrightarrow> (case gn_open d of
        OpenRecorded \<Rightarrow> True
      | OpenRefused \<Rightarrow> True
      | OpenDone \<Rightarrow> p = Registered \<and> gn_hook d \<in> {HookWaits, HookFired} \<or> close_will_forget (gn_close d)
      | _ \<Rightarrow> False))
     \<and> (gn_open d = OpenRecorded \<and> p = Placeholder \<longrightarrow> own)
     \<and> (gn_open d = OpenDone \<and> p = Registered \<and> gn_hook d \<in> {HookWaits, HookFired} \<longrightarrow> own)"

definition gen_ok :: "gen \<Rightarrow> place \<Rightarrow> lifecycle \<Rightarrow> bool \<Rightarrow> bool" where
  "gen_ok d p l own \<longleftrightarrow> opening_ok d p \<and> closing_ok d l \<and> account_ok d l \<and> record_ok d p own"

lemmas gen_ok_defs = opening_ok_def answer_of_task_def answer_of_cancel_def waiting_ok_def
  gone_ok_def closing_ok_def
  account_ok_def holders_def record_ok_def session_exists_def

lemma gen_okI:
  "opening_ok d p \<Longrightarrow> closing_ok d l \<Longrightarrow> account_ok d l \<Longrightarrow> record_ok d p own \<Longrightarrow> gen_ok d p l own"
  by (simp add: gen_ok_def)

lemma gen_okE:
  assumes "gen_ok d p l own"
  obtains "opening_ok d p" "closing_ok d l" "account_ok d l" "record_ok d p own"
  using assms by (simp add: gen_ok_def)

definition names_ok :: "daemon \<Rightarrow> bool" where
  "names_ok s \<longleftrightarrow> registry_ok (dm_reg s)
     \<and> (\<forall>g \<ge> rg_next (dm_reg s). gn_open (dm_gen s g) = NoOpen)
     \<and> (\<forall>i g. generation_at (dm_reg s) i = Some g \<longrightarrow> gn_id (dm_gen s g) = i
          \<and> (\<forall>h. gn_open (dm_gen s h) \<noteq> NoOpen \<and> gn_id (dm_gen s h) = i \<longrightarrow> h \<le> g))
     \<and> (\<forall>i g. bk_open (dm_book s) i = Some g \<longrightarrow> gn_id (dm_gen s g) = i)"

definition daemon_ok :: "daemon \<Rightarrow> bool" where
  "daemon_ok s \<longleftrightarrow> names_ok s
     \<and> (\<forall>g. gen_ok (dm_gen s g) (place_of s g) (life_of s g) (owns s g))"

lemma daemon_okD: "daemon_ok s \<Longrightarrow> gen_ok (dm_gen s g) (place_of s g) (life_of s g) (owns s g)"
  by (simp add: daemon_ok_def)

text \<open>The reduction to one generation; the views of the others may only lose the record.\<close>

lemma one_generation:
  assumes "daemon_ok s" and "names_ok s'"
    and "gen_ok (dm_gen s' g) (place_of s' g) (life_of s' g) (owns s' g)"
    and "\<And>h. h \<noteq> g \<Longrightarrow> dm_gen s' h = dm_gen s h \<and> place_of s' h = place_of s h
      \<and> life_of s' h = life_of s h \<and> owns s' h = owns s h"
  shows "daemon_ok s'"
  unfolding daemon_ok_def
proof (intro conjI allI)
  fix h
  show "gen_ok (dm_gen s' h) (place_of s' h) (life_of s' h) (owns s' h)"
    using assms(1,3,4) by (cases "h = g") (auto simp: daemon_ok_def)
qed (rule assms(2))

subsection \<open>Steps inside one generation\<close>

lemma set_gen_simps [simp]:
  "dm_gen (set_gen g f s) h = (if h = g then f (dm_gen s g) else dm_gen s h)"
  "dm_reg (set_gen g f s) = dm_reg s" "dm_book (set_gen g f s) = dm_book s"
  "dm_orphans (set_gen g f s) = dm_orphans s"
  by (simp_all add: set_gen_def)

lemma set_cell_simps [simp]:
  "dm_gen (set_cell g f s) = dm_gen s" "dm_book (set_cell g f s) = dm_book s"
  "dm_reg (set_cell g f s) = update_cell g f (dm_reg s)"
  "dm_orphans (set_cell g f s) = dm_orphans s"
  by (simp_all add: set_cell_def)

lemma place_in_rest [simp]:
  "place_in (update_cell g f rg) i h = place_in rg i h"
  "place_in (rg\<lparr>rg_next := n\<rparr>) i h = place_in rg i h"
  "place_in (rg\<lparr>rg_cells := c\<rparr>) i h = place_in rg i h"
  by (simp_all add: place_in_def)

lemma view_set_gen [simp]:
  "gn_id (f (dm_gen s g)) = gn_id (dm_gen s g) \<Longrightarrow> place_of (set_gen g f s) h = place_of s h"
  "gn_id (f (dm_gen s g)) = gn_id (dm_gen s g) \<Longrightarrow> owns (set_gen g f s) h = owns s h"
  "life_of (set_gen g f s) h = life_of s h"
  by (simp_all add: place_of_def owns_def life_of_def)

lemma view_set_cell [simp]:
  "place_of (set_cell g f s) h = place_of s h" "owns (set_cell g f s) h = owns s h"
  "life_of (set_cell g f s) h = (if h = g then ce_lifecycle (f (rg_cells (dm_reg s) g)) else life_of s h)"
  by (simp_all add: place_of_def owns_def life_of_def)

lemma names_ok_gen:
  assumes "names_ok s" and "gn_id (f (dm_gen s g)) = gn_id (dm_gen s g)"
    and "gn_open (dm_gen s g) = NoOpen \<longleftrightarrow> gn_open (f (dm_gen s g)) = NoOpen"
  shows "names_ok (set_gen g f s)"
  using assms by (auto simp: names_ok_def split: if_splits)

lemma names_ok_cell [simp]: "names_ok (set_cell g f s) = names_ok s"
  by (simp add: names_ok_def)

lemma step_in_gen:
  assumes "daemon_ok s"
    and "gn_id (f (dm_gen s g)) = gn_id (dm_gen s g)"
    and "gn_open (dm_gen s g) = NoOpen \<longleftrightarrow> gn_open (f (dm_gen s g)) = NoOpen"
    and "gen_ok (f (dm_gen s g)) (place_of s g) (life_of s g) (owns s g)"
  shows "daemon_ok (set_gen g f s)"
  by (rule one_generation [OF assms(1), where g = g])
    (use assms in \<open>auto simp: daemon_ok_def intro: names_ok_gen\<close>)

lemma step_in_cell:
  assumes "daemon_ok s"
    and "gen_ok (dm_gen s g) (place_of s g) (ce_lifecycle (f (rg_cells (dm_reg s) g))) (owns s g)"
  shows "daemon_ok (set_cell g f s)"
  by (rule one_generation [OF assms(1), where g = g])
    (use assms in \<open>auto simp: daemon_ok_def\<close>)

lemma step_in_both:
  assumes "daemon_ok s"
    and "gn_id (f (dm_gen s g)) = gn_id (dm_gen s g)"
    and "gn_open (dm_gen s g) = NoOpen \<longleftrightarrow> gn_open (f (dm_gen s g)) = NoOpen"
    and "gen_ok (f (dm_gen s g)) (place_of s g) (ce_lifecycle (h (rg_cells (dm_reg s) g))) (owns s g)"
  shows "daemon_ok (set_cell g h (set_gen g f s))"
  by (rule one_generation [OF assms(1), where g = g])
    (use assms in \<open>auto simp: daemon_ok_def intro: names_ok_gen\<close>)

lemma life_end_with [simp]:
  "ce_lifecycle (end_with c cell) = (if ce_lifecycle cell = Live then Ended c else ce_lifecycle cell)"
  by (simp add: end_with_def)

subsection \<open>The steps of the connect task\<close>

lemma conn_pending_open:
  assumes "gen_ok d p l own" and "gn_conn d \<in> {ConnRuns, ConnReady, ConnSentOk}"
  obtains "gn_open d = OpenWaits" | "gn_open d = OpenDrops" | "gn_open d = OpenDropsRx"
    | "gn_open d = OpenGone"
  using assms by (cases "gn_open d") (auto simp: gen_ok_def opening_ok_def answer_of_task_def)

lemmas account_defs = account_ok_def holders_def session_exists_def

lemma conn_result_ok:
  assumes "gen_ok d p l own" and "gn_conn d = ConnRuns" and "conn_failed c"
    and "c = ConnSilent \<or> rx_open d"
  shows "gen_ok (d\<lparr>gn_conn := c\<rparr>) p l own"
proof -
  have c: "conn_pending c" "c \<noteq> NoConn" "c \<noteq> ConnSentOk" "c \<noteq> ConnReady" "c \<noteq> ConnTaken" "c \<noteq> ConnOwnClose"
    using assms(3) by (cases c; simp)+
  have asks: "gn_conn d \<in> {ConnRuns, ConnReady, ConnSentOk}" using assms(2) by simp
  show ?thesis
    by (rule conn_pending_open [OF assms(1) asks]; rule gen_okE [OF assms(1)]; intro gen_okI; use c assms(2) in \<open>simp add: gen_ok_defs\<close>)
qed

lemma conn_cancelled_ok:
  assumes "daemon_ok s" and "gn_conn (dm_gen s g) = ConnRuns"
  shows "daemon_ok (set_gen g connect_sees_cancel s)"
    and "daemon_ok (set_gen g (connect_result e) s)"
    and "daemon_ok (set_gen g (\<lambda>d. d\<lparr>gn_conn := ConnSilent\<rparr>) s)"
  using conn_result_ok [OF daemon_okD [OF assms(1)] assms(2)]
  by (auto intro!: step_in_gen [OF assms(1)] simp: connect_sees_cancel_def connect_result_def split: if_splits)

lemma conn_ready_ok:
  assumes "daemon_ok s" and "gn_conn (dm_gen s g) = ConnRuns"
  shows "daemon_ok (connect_ready g s)"
  unfolding connect_ready_def
proof (rule step_in_both [OF assms(1)])
  note ok = daemon_okD [OF assms(1), of g]
  have asks: "gn_conn (dm_gen s g) \<in> {ConnRuns, ConnReady, ConnSentOk}" using assms(2) by simp
  show "gen_ok (dm_gen s g\<lparr>gn_conn := ConnReady\<rparr>) (place_of s g)
      (ce_lifecycle (rg_cells (dm_reg s) g\<lparr>ce_lifecycle := Live\<rparr>)) (owns s g)"
    by (rule conn_pending_open [OF ok asks]; rule gen_okE [OF ok]; intro gen_okI; use assms(2) in \<open>simp add: gen_ok_defs\<close>)
qed simp_all

lemma close_start_eq:
  "session_close_starts g (set_gen g f s)
    = set_cell g (end_with ClientClosed) (set_gen g (\<lambda>d. (f d)\<lparr>gn_closes := gn_closes (f d) + 1\<rparr>) s)"
  "session_drops g (set_gen g f s)
    = set_cell g (end_with ClientClosed) (set_gen g (\<lambda>d. (f d)\<lparr>gn_bare := gn_bare (f d) + 1\<rparr>) s)"
  by (simp_all add: session_close_starts_def session_drops_def set_gen_def fun_upd_def cong: if_cong)

lemma conn_sends_ok:
  assumes "daemon_ok s" and "gn_conn (dm_gen s g) = ConnReady"
  shows "daemon_ok (connect_sends g s)"
proof (cases "rx_open (dm_gen s g)")
  case True
  note ok = daemon_okD [OF assms(1), of g]
  have asks: "gn_conn (dm_gen s g) \<in> {ConnRuns, ConnReady, ConnSentOk}" using assms(2) by simp
  have "gen_ok (dm_gen s g\<lparr>gn_conn := ConnSentOk\<rparr>) (place_of s g) (life_of s g) (owns s g)"
    by (rule conn_pending_open [OF ok asks]; rule gen_okE [OF ok]; intro gen_okI; use True assms(2) in \<open>simp add: gen_ok_defs rx_open_def\<close>)
  then show ?thesis
    using True by (auto simp: connect_sends_def intro!: step_in_gen [OF assms(1)])
next
  case False
  note ok = daemon_okD [OF assms(1), of g]
  have asks: "gn_conn (dm_gen s g) \<in> {ConnRuns, ConnReady, ConnSentOk}" using assms(2) by simp
  show ?thesis
    unfolding connect_sends_def if_not_P [OF False] close_start_eq
  proof (rule step_in_both [OF assms(1)])
    show "gen_ok (dm_gen s g\<lparr>gn_conn := ConnOwnClose, gn_closes := gn_closes (dm_gen s g\<lparr>gn_conn := ConnOwnClose\<rparr>) + 1\<rparr>)
        (place_of s g) (ce_lifecycle (end_with ClientClosed (rg_cells (dm_reg s) g))) (owns s g)"
      by (rule conn_pending_open [OF ok asks]; rule gen_okE [OF ok]; intro gen_okI;
          use False assms(2) in \<open>simp add: gen_ok_defs rx_open_def\<close>)
  qed simp_all
qed

subsection \<open>The steps of \<open>open_tracked\<close>\<close>

lemma receives_ok:
  assumes "daemon_ok s" and "gn_open (dm_gen s g) = OpenWaits"
  shows "daemon_ok (set_gen g open_receives s)"
proof (rule step_in_gen [OF assms(1)])
  show "gen_ok (open_receives (dm_gen s g)) (place_of s g) (life_of s g) (owns s g)"
    by (rule gen_okE [OF daemon_okD [OF assms(1), of g]]; intro gen_okI;
        use assms(2) in \<open>cases "gn_conn (dm_gen s g)"; simp add: gen_ok_defs open_receives_def\<close>)
qed (use assms(2) in \<open>auto simp: open_receives_def split: conn_pc.splits\<close>)

lemma dropped_ok:
  assumes "daemon_ok s" and "gn_open (dm_gen s g) = OpenWaits"
  shows "daemon_ok (set_gen g (\<lambda>d. d\<lparr>gn_open := OpenDrops\<rparr>) s)"
proof (rule step_in_gen [OF assms(1)])
  show "gen_ok (dm_gen s g\<lparr>gn_open := OpenDrops\<rparr>) (place_of s g) (life_of s g) (owns s g)"
    by (rule gen_okE [OF daemon_okD [OF assms(1), of g]]; intro gen_okI;
        use assms(2) in \<open>simp add: gen_ok_defs\<close>)
qed (simp_all add: assms(2))

lemma drop_drains_ok:
  assumes "daemon_ok s" and "gn_open (dm_gen s g) = OpenDropsRx"
  shows "daemon_ok (guard_drains spawned g s)"
proof (cases "gn_conn (dm_gen s g) = ConnSentOk")
  case True
  show ?thesis
    unfolding guard_drains_def Let_def if_P [OF True] close_start_eq
    by (cases spawned; simp only: if_True if_False; rule step_in_both [OF assms(1)];
        (rule gen_okE [OF daemon_okD [OF assms(1), of g]]; intro gen_okI)?;
        use assms(2) True in \<open>simp add: gen_ok_defs\<close>)
next
  case False
  have "gen_ok (dm_gen s g\<lparr>gn_open := OpenGone, gn_no_thread := False\<rparr>) (place_of s g) (life_of s g) (owns s g)"
    by (rule gen_okE [OF daemon_okD [OF assms(1), of g]]; intro gen_okI;
        use assms(2) False in \<open>cases "gn_conn (dm_gen s g)"; simp add: gen_ok_defs\<close>)
  then show ?thesis
    using False assms(2) by (auto simp: guard_drains_def intro!: step_in_gen [OF assms(1)])
qed

lemma refused_ok:
  assumes "daemon_ok s"
  shows "gn_open (dm_gen s g) = OpenUnrecorded \<Longrightarrow> daemon_ok (open_closes g s)"
    and "gn_open (dm_gen s g) = OpenCloses \<Longrightarrow> daemon_ok (set_gen g open_fails s)"
    and "gn_open (dm_gen s g) = OpenCloses \<Longrightarrow> daemon_ok (set_gen g (\<lambda>d. d\<lparr>gn_open := OpenGone\<rparr>) s)"
  unfolding open_closes_def close_start_eq
  by (rule step_in_both [OF assms] step_in_gen [OF assms];
      (rule gen_okE [OF daemon_okD [OF assms, of g]]; intro gen_okI)?;
      simp add: gen_ok_defs open_fails_def)+

subsection \<open>The steps of \<open>close_removed\<close> and of the hook\<close>

lemma closing_done:
  "gen_ok d p l own \<Longrightarrow> gn_close d \<noteq> NoClose \<or> gn_hook d \<noteq> NoHook \<Longrightarrow> gn_open d = OpenDone"
  by (auto simp: gen_ok_def closing_ok_def split: if_splits)

text \<open>A step of the close or of the hook leaves the place, the session and the record alone.\<close>

lemma close_step:
  assumes ok: "gen_ok d p l own" and "gn_open d = OpenDone" and "gn_close d \<noteq> NoClose"
    and "c \<noteq> NoClose" and "close_before_poll c = close_before_poll (gn_close d)"
    and "own \<Longrightarrow> close_will_forget (gn_close d) \<Longrightarrow> close_will_forget c"
    and "closing_ok (d\<lparr>gn_close := c, gn_hook := h\<rparr>) l"
  shows "gen_ok (d\<lparr>gn_close := c, gn_hook := h\<rparr>) p l own"
  by (rule gen_okE [OF ok]; intro gen_okI; use assms(2-) in \<open>simp add: opening_ok_def account_defs record_ok_def\<close>)

lemma close_only:
  assumes "gen_ok d p l own" and "gn_open d = OpenDone" and "gn_close d \<noteq> NoClose"
    and "c \<noteq> NoClose" and "close_before_poll c = close_before_poll (gn_close d)"
    and "own \<Longrightarrow> close_will_forget (gn_close d) \<Longrightarrow> close_will_forget c"
    and "closing_ok (d\<lparr>gn_close := c\<rparr>) l"
  shows "gen_ok (d\<lparr>gn_close := c\<rparr>) p l own"
  using close_step [OF assms(1-6), of "gn_hook d"] assms(7) by simp

lemma close_check_ok:
  assumes "daemon_ok s" and "gn_close (dm_gen s g) = CloseTaken"
  shows "daemon_ok (close_checks g s)"
proof -
  note ok = daemon_okD [OF assms(1), of g]
  have opened: "gn_open (dm_gen s g) = OpenDone"
    using closing_done [OF ok] assms(2) by simp
  have "closing_ok (dm_gen s g\<lparr>gn_close := CloseChecked (life_of s g \<noteq> Live)\<rparr>) (life_of s g)"
  proof (rule gen_okE [OF ok])
    assume "closing_ok (dm_gen s g) (life_of s g)"
    then show ?thesis
      using opened assms(2) by (cases "life_of s g = Live") (simp_all add: closing_ok_def)
  qed
  then have "gen_ok (dm_gen s g\<lparr>gn_close := CloseChecked (life_of s g \<noteq> Live)\<rparr>)
      (place_of s g) (life_of s g) (owns s g)"
    by (intro close_only [OF ok]) (simp_all add: opened assms(2))
  then show ?thesis
    unfolding close_checks_def life_of_def [symmetric]
    by (intro step_in_gen [OF assms(1)]) simp_all
qed

lemma close_unhook_ok:
  assumes "daemon_ok s" and "gn_close (dm_gen s g) = CloseChecked ended"
  shows "daemon_ok (set_gen g (close_unhooks ended in_poll) s)"
proof -
  note ok = daemon_okD [OF assms(1), of g]
  have opened: "gn_open (dm_gen s g) = OpenDone"
    using closing_done [OF ok] assms(2) by simp
  have "closing_ok (close_unhooks ended in_poll (dm_gen s g)) (life_of s g)"
    by (rule gen_okE [OF ok]) (use opened assms(2) in \<open>auto simp: closing_ok_def close_unhooks_def\<close>)
  then show ?thesis
    unfolding close_unhooks_def
    by (intro step_in_gen [OF assms(1)] close_step [OF ok]; simp add: opened assms(2))
qed

lemma close_poll_ok:
  assumes "daemon_ok s"
    and "gn_close (dm_gen s g) = (if ended then CloseUnrecorded else CloseUnhooked False)"
  shows "daemon_ok (close_polls ended g s)"
proof -
  note ok = daemon_okD [OF assms(1), of g]
  have opened: "gn_open (dm_gen s g) = OpenDone"
    using closing_done [OF ok] assms(2) by simp
  show ?thesis
    unfolding close_polls_def close_start_eq
  proof (rule step_in_both [OF assms(1)])
    show "gen_ok (dm_gen s g\<lparr>gn_close := ClosePolled ended,
          gn_closes := gn_closes (dm_gen s g\<lparr>gn_close := ClosePolled ended\<rparr>) + 1\<rparr>)
        (place_of s g) (ce_lifecycle (end_with ClientClosed (rg_cells (dm_reg s) g))) (owns s g)"
      by (rule gen_okE [OF ok]; intro gen_okI; use opened assms(2) in
          \<open>cases ended; auto simp: opening_ok_def account_defs record_ok_def closing_ok_def life_of_def\<close>)
  qed simp_all
qed

lemma close_await_ok:
  assumes "daemon_ok s" and "gn_close (dm_gen s g) = ClosePolled ended"
  shows "daemon_ok (close_ends_lease ended t g s)"
proof -
  note ok = daemon_okD [OF assms(1), of g]
  have opened: "gn_open (dm_gen s g) = OpenDone"
    using closing_done [OF ok] assms(2) by simp
  have "closing_ok (dm_gen s g\<lparr>gn_close := CloseAwaits ended\<rparr>) (life_of s g)"
    by (rule gen_okE [OF ok]) (use opened assms(2) in \<open>auto simp: closing_ok_def\<close>)
  then have "gen_ok (dm_gen s g\<lparr>gn_close := CloseAwaits ended\<rparr>) (place_of s g) (life_of s g) (owns s g)"
    by (intro close_only [OF ok]) (simp_all add: opened assms(2))
  then show ?thesis
    unfolding close_ends_lease_def
    by (intro step_in_both [OF assms(1)]) (simp_all add: life_of_def)
qed

lemma close_joins_ok:
  assumes "daemon_ok s" and "gn_close (dm_gen s g) = CloseAwaits ended"
  shows "daemon_ok (set_gen g (\<lambda>d. d\<lparr>gn_close := CloseJoined ended\<rparr>) s)"
    and "gn_by_connect (dm_gen s g) \<Longrightarrow>
      daemon_ok (set_gen g (\<lambda>d. d\<lparr>gn_close := CloseAbandoned ended\<rparr>) s)"
proof -
  note ok = daemon_okD [OF assms(1), of g]
  have opened: "gn_open (dm_gen s g) = OpenDone"
    using closing_done [OF ok] assms(2) by simp
  have "closing_ok (dm_gen s g\<lparr>gn_close := CloseJoined ended\<rparr>) (life_of s g)"
    by (rule gen_okE [OF ok]) (use opened assms(2) in \<open>auto simp: closing_ok_def\<close>)
  then show "daemon_ok (set_gen g (\<lambda>d. d\<lparr>gn_close := CloseJoined ended\<rparr>) s)"
    by (intro step_in_gen [OF assms(1)] close_only [OF ok]; simp add: opened assms(2))
  assume by_connect: "gn_by_connect (dm_gen s g)"
  have "closing_ok (dm_gen s g\<lparr>gn_close := CloseAbandoned ended\<rparr>) (life_of s g)"
    by (rule gen_okE [OF ok]) (use opened assms(2) by_connect in \<open>auto simp: closing_ok_def\<close>)
  then show "daemon_ok (set_gen g (\<lambda>d. d\<lparr>gn_close := CloseAbandoned ended\<rparr>) s)"
    by (intro step_in_gen [OF assms(1)]; simp)
      (rule gen_okE [OF ok]; intro gen_okI; use opened assms(2) by_connect in
        \<open>auto simp: opening_ok_def account_defs record_ok_def closing_ok_def\<close>)
qed

lemma hook_wake_ok:
  assumes "daemon_ok s" and "gn_hook (dm_gen s g) = HookWaits"
    and "ce_lifecycle (rg_cells (dm_reg s) g) = Ended c"
  shows "daemon_ok (set_gen g (hook_wakes c) s)"
proof (rule step_in_gen [OF assms(1)])
  note ok = daemon_okD [OF assms(1), of g]
  have opened: "gn_open (dm_gen s g) = OpenDone"
    using closing_done [OF ok] assms(2) by simp
  show "gen_ok (hook_wakes c (dm_gen s g)) (place_of s g) (life_of s g) (owns s g)"
    by (rule gen_okE [OF ok]; intro gen_okI; use opened assms(2,3) in
        \<open>auto simp: opening_ok_def account_defs record_ok_def closing_ok_def hook_wakes_def life_of_def\<close>)
qed (simp_all add: hook_wakes_def)

lemma hook_finish_ok:
  assumes "daemon_ok s" and "gn_hook (dm_gen s g) = HookUnrecorded"
  shows "daemon_ok (hook_finishes t u g s)"
  unfolding hook_finishes_def
proof (rule step_in_both [OF assms(1)])
  note ok = daemon_okD [OF assms(1), of g]
  have opened: "gn_open (dm_gen s g) = OpenDone"
    using closing_done [OF ok] assms(2) by simp
  have "gen_ok (dm_gen s g\<lparr>gn_hook := HookDone\<rparr>) (place_of s g) (life_of s g) (owns s g)"
    by (rule gen_okE [OF ok]; intro gen_okI; use opened assms(2) in
        \<open>auto simp: opening_ok_def account_defs record_ok_def closing_ok_def\<close>)
  then show "gen_ok (dm_gen s g\<lparr>gn_hook := HookDone\<rparr>) (place_of s g)
      (ce_lifecycle (rg_cells (dm_reg s) g\<lparr>ce_control := snd (end_human_ended u
        (record_control Cli SessionEnded t (ce_control (rg_cells (dm_reg s) g))))\<rparr>)) (owns s g)"
    by (simp add: life_of_def)
qed simp_all

lemma session_ends_ok:
  assumes "daemon_ok s" and "session_exists (dm_gen s g)" and "c \<noteq> ClientClosed"
  shows "daemon_ok (set_cell g (end_with c) s)"
proof (rule step_in_cell [OF assms(1)])
  show "gen_ok (dm_gen s g) (place_of s g) (ce_lifecycle (end_with c (rg_cells (dm_reg s) g))) (owns s g)"
    by (rule gen_okE [OF daemon_okD [OF assms(1), of g]]; intro gen_okI; use assms(2,3) in
        \<open>auto simp: account_ok_def closing_ok_def life_of_def split: if_splits\<close>)
qed

lemma cell_changes_ok:
  "daemon_ok s \<Longrightarrow> (\<And>cell. ce_lifecycle (f cell) = ce_lifecycle cell) \<Longrightarrow> daemon_ok (set_cell g f s)"
  using daemon_okD [of s g] by (intro step_in_cell) (simp_all add: life_of_def)

subsection \<open>Steps that change the map or the records\<close>

lemma place_generation: "place_in rg i g \<noteq> Absent \<longleftrightarrow> generation_at rg i = Some g"
  by (auto simp: place_in_def generation_at_def split: option.splits session_entry.splits)

lemma place_of_at:
  assumes "names_ok s" and "generation_at (dm_reg s) i = Some g"
  shows "gn_id (dm_gen s g) = i" and "place_of s g \<noteq> Absent"
proof -
  show "gn_id (dm_gen s g) = i" using assms unfolding names_ok_def by blast
  with assms(2) show "place_of s g \<noteq> Absent" by (simp add: place_of_def place_generation)
qed

lemma place_drop:
  assumes "generation_at rg i = Some g \<or> generation_at rg i = None" and "h \<noteq> g"
  shows "place_in (drop_entry i rg) j h = place_in rg j h"
proof (cases "j = i")
  case True
  have "place_in rg i h = Absent" using assms place_generation [of rg i h] by auto
  moreover have "place_in (drop_entry i rg) i h = Absent" by (simp add: place_in_def)
  ultimately show ?thesis using True by simp
qed (simp add: place_in_def)

lemma place_drop_self [simp]: "place_in (drop_entry i rg) i h = Absent"
  by (simp add: place_in_def)

lemma names_drop_entry:
  "names_ok s \<Longrightarrow> names_ok (s\<lparr>dm_reg := drop_entry i (dm_reg s)\<rparr>)"
  by (simp add: names_ok_def registry_ok_drop)

text \<open>A removal of the entry of \<open>g\<close> together with a change of \<open>g\<close>.\<close>

lemma drop_generation:
  assumes ok: "daemon_ok s" and at: "generation_at (dm_reg s) i = Some g"
    and f: "gn_id (f (dm_gen s g)) = gn_id (dm_gen s g)"
      "gn_open (dm_gen s g) = NoOpen \<longleftrightarrow> gn_open (f (dm_gen s g)) = NoOpen"
    and gen: "gen_ok (f (dm_gen s g)) Absent (life_of s g) (owns s g)"
  shows "daemon_ok (set_gen g f (s\<lparr>dm_reg := drop_entry i (dm_reg s)\<rparr>))" (is "daemon_ok ?s")
proof (rule one_generation [OF ok, where g = g])
  have names: "names_ok s" using ok by (simp add: daemon_ok_def)
  have i: "gn_id (dm_gen s g) = i" by (rule place_of_at [OF names at])
  show "names_ok ?s"
    by (rule names_ok_gen) (simp_all add: f names_drop_entry names)
  show "gen_ok (dm_gen ?s g) (place_of ?s g) (life_of ?s g) (owns ?s g)"
    using gen f(1) i by (simp add: place_of_def life_of_def owns_def)
  fix h assume "h \<noteq> g"
  then show "dm_gen ?s h = dm_gen s h \<and> place_of ?s h = place_of s h \<and> life_of ?s h = life_of s h
      \<and> owns ?s h = owns s h"
    using at by (simp add: place_of_def life_of_def owns_def place_drop [where g = g])
qed

lemma drop_orphan:
  assumes ok: "daemon_ok s" and "generation_at (dm_reg s) i = None"
  shows "daemon_ok (s\<lparr>dm_reg := drop_entry i (dm_reg s), dm_orphans := js\<rparr>)"
proof -
  let ?s = "s\<lparr>dm_reg := drop_entry i (dm_reg s), dm_orphans := js\<rparr>"
  have "names_ok ?s"
    using ok by (auto simp: daemon_ok_def names_ok_def registry_ok_drop)
  moreover have "place_of ?s h = place_of s h" for h
    using place_drop [of "dm_reg s" i "h + 1" h] assms(2) by (simp add: place_of_def)
  ultimately show ?thesis
    using ok by (simp add: daemon_ok_def life_of_def owns_def)
qed

lemma own_cancel_ok:
  assumes ok: "daemon_ok s" and pc: "gn_open (dm_gen s g) = OpenCancels e \<and> pc = OpenFailed e
      \<or> gn_open (dm_gen s g) = OpenDrops \<and> pc = OpenDropsRx"
  shows "daemon_ok (own_cancel g pc s)"
proof -
  let ?i = "gn_id (dm_gen s g)"
  let ?cancel = "\<lambda>b. \<lambda>d. d\<lparr>gn_open := pc, gn_cancel := if b then HandleDropped else gn_cancel d\<rparr>"
  have gen: "gen_ok (?cancel b (dm_gen s g)) Absent (life_of s g) (owns s g)"
    if "b \<longleftrightarrow> place_of s g = Placeholder" for b
    using pc
  proof
    assume "gn_open (dm_gen s g) = OpenCancels e \<and> pc = OpenFailed e"
    then show ?thesis
      by (rule_tac gen_okE [OF daemon_okD [OF ok, of g]]; intro gen_okI; use that in
          \<open>cases "gn_conn (dm_gen s g)"; cases b; simp add: gen_ok_defs\<close>)
  next
    assume "gn_open (dm_gen s g) = OpenDrops \<and> pc = OpenDropsRx"
    then show ?thesis
      by (rule_tac gen_okE [OF daemon_okD [OF ok, of g]]; intro gen_okI; use that in
          \<open>cases "gn_conn (dm_gen s g)"; cases b; simp add: gen_ok_defs\<close>)
  qed
  show ?thesis
  proof (cases "fst (cancel_connecting ?i g (dm_reg s))")
    case True
    then have at: "place_of s g = Placeholder"
      and eq: "cancel_connecting ?i g (dm_reg s) = (True, drop_entry ?i (dm_reg s))"
      by (auto simp: cancel_connecting_def place_of_def place_in_def
          split: option.splits session_entry.splits if_splits)
    have "generation_at (dm_reg s) ?i = Some g"
      using at by (simp add: place_of_def flip: place_generation)
    from drop_generation [OF ok this, of "?cancel True"] gen [of True] at pc eq
    show ?thesis by (auto simp: own_cancel_def)
  next
    case False
    then have eq: "cancel_connecting ?i g (dm_reg s) = (False, dm_reg s)"
      and no: "place_of s g \<noteq> Placeholder"
      by (auto simp: cancel_connecting_def place_of_def place_in_def
          split: option.splits session_entry.splits if_splits)
    have "place_of s g = Absent"
      using no pc daemon_okD [OF ok, of g]
      by (cases "place_of s g") (auto simp: gen_ok_def opening_ok_def waiting_ok_def)
    then have "gen_ok (?cancel False (dm_gen s g)) (place_of s g) (life_of s g) (owns s g)"
      using gen [of False] no by simp
    from step_in_gen [OF ok, where f = "?cancel False", OF _ _ this] pc eq
    show ?thesis by (auto simp: own_cancel_def)
  qed
qed

lemma book_closed_open:
  "bk_open (fst (book_closed x y i g b)) =
    (if bk_open b i = Some g then (bk_open b)(i := None) else bk_open b)"
  by (simp add: book_closed_def)

lemma book_opened_open:
  "bk_open (book_opened x y i g h t b) =
    (if \<exists>w. bk_open b i = Some w \<and> g \<le> w then bk_open b else (bk_open b)(i \<mapsto> g))"
  by (simp add: book_opened_def split: option.splits)

lemma closed_orphan_open [simp]: "bk_open (closed_orphan y i b) = bk_open b"
  by (simp add: closed_orphan_def)

lemma forget_simps [simp]:
  "dm_gen (forget x y g s) = dm_gen s" "dm_reg (forget x y g s) = dm_reg s"
  "place_of (forget x y g s) h = place_of s h" "life_of (forget x y g s) h = life_of s h"
  "owns (forget x y g s) h \<longleftrightarrow> owns s h \<and> h \<noteq> g"
  by (auto simp: forget_def place_of_def life_of_def owns_def book_closed_open)

lemma forget_open:
  "bk_open (dm_book (forget x y g s)) i = Some h \<Longrightarrow> bk_open (dm_book s) i = Some h"
  by (simp add: forget_def book_closed_open split: if_splits)

lemma forget_names: "names_ok s \<Longrightarrow> names_ok (forget x y g s)"
  unfolding names_ok_def forget_simps by (blast dest: forget_open)

lemma forget_step:
  assumes ok: "daemon_ok s"
    and f: "gn_id (f (dm_gen s g)) = gn_id (dm_gen s g)"
      "gn_open (dm_gen s g) = NoOpen \<longleftrightarrow> gn_open (f (dm_gen s g)) = NoOpen"
    and gen: "gen_ok (f (dm_gen s g)) (place_of s g) (life_of s g) False"
  shows "daemon_ok (set_gen g f (forget x y g s))"
proof (rule one_generation [OF ok, where g = g])
  have "names_ok s" using ok by (simp add: daemon_ok_def)
  then show "names_ok (set_gen g f (forget x y g s))"
    by (rule names_ok_gen [OF forget_names]) (simp_all add: f)
  show "gen_ok (dm_gen (set_gen g f (forget x y g s)) g) (place_of (set_gen g f (forget x y g s)) g)
      (life_of (set_gen g f (forget x y g s)) g) (owns (set_gen g f (forget x y g s)) g)"
    using gen by (simp add: f(1))
qed (simp add: f(1))

lemma forget_steps_ok:
  assumes ok: "daemon_ok s"
  shows "gn_open (dm_gen s g) = OpenRefused \<Longrightarrow> daemon_ok (open_unrecords x y g s)"
    and "gn_close (dm_gen s g) = CloseUnhooked True \<Longrightarrow> daemon_ok (close_unrecords x y g s)"
    and "gn_close (dm_gen s g) = CloseJoined ended \<Longrightarrow> daemon_ok (close_finishes x y g s)"
    and "gn_hook (dm_gen s g) = HookFired \<Longrightarrow> daemon_ok (hook_unrecords x y g s)"
proof -
  note ok_g = daemon_okD [OF ok, of g]
  show "daemon_ok (open_unrecords x y g s)" if "gn_open (dm_gen s g) = OpenRefused"
    unfolding open_unrecords_def
    by (rule forget_step [OF ok]; (rule gen_okE [OF ok_g]; intro gen_okI)?;
        use that in \<open>simp add: gen_ok_defs\<close>)
  show "daemon_ok (close_unrecords x y g s)" if c: "gn_close (dm_gen s g) = CloseUnhooked True"
  proof -
    have opened: "gn_open (dm_gen s g) = OpenDone" using closing_done [OF ok_g] c by simp
    show ?thesis
      unfolding close_unrecords_def
      by (rule forget_step [OF ok]; (rule gen_okE [OF ok_g]; intro gen_okI)?)
        (use opened c in \<open>auto simp: opening_ok_def account_defs record_ok_def closing_ok_def\<close>)
  qed
  show "daemon_ok (close_finishes x y g s)" if c: "gn_close (dm_gen s g) = CloseJoined ended"
  proof -
    have opened: "gn_open (dm_gen s g) = OpenDone" using closing_done [OF ok_g] c by simp
    show ?thesis
      unfolding close_finishes_def
      by (rule forget_step [OF ok]; (rule gen_okE [OF ok_g]; intro gen_okI)?)
        (use opened c in \<open>auto simp: opening_ok_def account_defs record_ok_def closing_ok_def\<close>)
  qed
  show "daemon_ok (hook_unrecords x y g s)" if h: "gn_hook (dm_gen s g) = HookFired"
  proof -
    have opened: "gn_open (dm_gen s g) = OpenDone" using closing_done [OF ok_g] h by simp
    show ?thesis
      unfolding hook_unrecords_def
      by (rule forget_step [OF ok]; (rule gen_okE [OF ok_g]; intro gen_okI)?)
        (use opened h in \<open>auto simp: opening_ok_def account_defs record_ok_def closing_ok_def\<close>)
  qed
qed

subsection \<open>Claims, records and promotions\<close>

lemma names_unfold:
  assumes "names_ok s"
  shows "registry_ok (dm_reg s)"
    and "g \<ge> rg_next (dm_reg s) \<Longrightarrow> gn_open (dm_gen s g) = NoOpen"
    and "generation_at (dm_reg s) i = Some g \<Longrightarrow> gn_id (dm_gen s g) = i"
    and "generation_at (dm_reg s) i = Some g \<Longrightarrow> gn_open (dm_gen s h) \<noteq> NoOpen
      \<Longrightarrow> gn_id (dm_gen s h) = i \<Longrightarrow> h \<le> g"
    and "bk_open (dm_book s) i = Some g \<Longrightarrow> gn_id (dm_gen s g) = i"
  using assms unfolding names_ok_def by blast+

lemma owner_open:
  assumes "daemon_ok s" and "bk_open (dm_book s) i = Some g"
  shows "gn_open (dm_gen s g) \<in> {OpenRecorded, OpenRefused, OpenDone}"
proof -
  have "gn_id (dm_gen s g) = i"
    using assms names_unfold(5) by (simp add: daemon_ok_def)
  then have "record_ok (dm_gen s g) (place_of s g) True"
    using daemon_okD [OF assms(1), of g] assms(2) by (simp add: gen_ok_def owns_def)
  then show ?thesis
    by (cases "gn_open (dm_gen s g)") (simp_all add: record_ok_def)
qed

lemma claimed_ok:
  assumes ok: "daemon_ok s" and free: "entry_of (dm_reg s) i = None"
  shows "daemon_ok (set_gen (rg_next (dm_reg s)) (\<lambda>_. new_gen i name host)
    (s\<lparr>dm_reg := snd (claim now i (dm_reg s))\<rparr>))" (is "daemon_ok ?s")
proof (rule one_generation [OF ok])
  let ?g = "rg_next (dm_reg s)"
  have names: "names_ok s" using ok by (simp add: daemon_ok_def)
  have reg: "dm_reg ?s = put_entry i (ConnectingEntry now ?g) ((dm_reg s)\<lparr>rg_next := ?g + 1\<rparr>)"
    using free by (simp add: claim_def Let_def)
  have new: "gn_open (dm_gen s ?g) = NoOpen" by (rule names_unfold(2) [OF names]) simp
  have no_owner: "bk_open (dm_book s) j \<noteq> Some ?g" for j
    using owner_open [OF ok, of j ?g] new by auto
  have no_entry: "generation_at (dm_reg s) j \<noteq> Some ?g" for j
    using registry_ok_generation [OF names_unfold(1) [OF names], of j ?g] by auto
  have no_i: "generation_at (dm_reg s) i = None" using free by (simp add: generation_at_def)
  show "names_ok ?s"
    unfolding names_ok_def
  proof (intro conjI allI impI)
    show "registry_ok (dm_reg ?s)"
      using claim_ok [OF names_unfold(1) [OF names]] by simp
    show "gn_open (dm_gen ?s h) = NoOpen" if "rg_next (dm_reg ?s) \<le> h" for h
      using that reg names_unfold(2) [OF names, of h] by simp
    show "gn_id (dm_gen ?s h) = j" if "generation_at (dm_reg ?s) j = Some h" for j h
      using that reg no_entry names_unfold(3) [OF names, of j h]
      by (auto simp: new_gen_def split: if_splits)
    show "k \<le> h" if "generation_at (dm_reg ?s) j = Some h"
      and "gn_open (dm_gen ?s k) \<noteq> NoOpen \<and> gn_id (dm_gen ?s k) = j" for j h k
    proof (cases "j = i")
      case True
      then have "h = ?g" using that(1) reg by simp
      then show ?thesis using that(2) names_unfold(2) [OF names, of k] by (cases "k \<le> ?g") auto
    next
      case False
      then have at: "generation_at (dm_reg s) j = Some h" using that(1) reg by simp
      have "k \<noteq> ?g" using that(2) False by (auto simp: new_gen_def)
      then show ?thesis using that(2) names_unfold(4) [OF names at, of k] by simp
    qed
    show "gn_id (dm_gen ?s h) = j" if "bk_open (dm_book ?s) j = Some h" for j h
      using that no_owner names_unfold(5) [OF names, of j h] by auto
  qed
  show "gen_ok (dm_gen ?s ?g) (place_of ?s ?g) (life_of ?s ?g) (owns ?s ?g)"
    using no_owner reg
    by (intro gen_okI)
      (simp_all add: gen_ok_defs new_gen_def no_gen_def place_of_def place_in_def owns_def)
  show "dm_gen ?s h = dm_gen s h \<and> place_of ?s h = place_of s h \<and> life_of ?s h = life_of s h
      \<and> owns ?s h = owns s h" if "h \<noteq> ?g" for h
    using that reg free by (auto simp: place_of_def place_in_def life_of_def owns_def)
qed

lemma claims_ok: "daemon_ok s \<Longrightarrow> daemon_ok (snd (open_claim now i name host s))"
proof (cases "entry_of (dm_reg s) i")
  case None
  assume ok: "daemon_ok s"
  have "fst (claim now i (dm_reg s)) = Inr (rg_next (dm_reg s))"
    using None by (simp add: claim_result)
  then show ?thesis
    using claimed_ok [OF ok None, of name host now]
    by (cases "claim now i (dm_reg s)") (simp add: open_claim_def)
next
  case (Some e)
  assume "daemon_ok s"
  then show ?thesis using Some by (simp add: open_claim_def claim_def)
qed

lemma claims_auto_ok: "daemon_ok s \<Longrightarrow> daemon_ok (snd (open_claim_auto now seed host s))"
proof (cases "find (\<lambda>n. entry_of (dm_reg s) (generate_auto_id n) = None) (map seed [0..<AUTO_ID_MAX_ATTEMPTS])")
  case None
  assume "daemon_ok s"
  then show ?thesis
    using None by (simp add: open_claim_auto_def claim_with_auto_id_def claim_candidates_result)
next
  case (Some n)
  assume ok: "daemon_ok s"
  have "entry_of (dm_reg s) (generate_auto_id n) = None"
    using Some by (auto simp: find_Some_iff)
  from claimed_ok [OF ok this, of None host now] Some show ?thesis
    by (simp add: open_claim_auto_def claim_with_auto_id_def claim_candidates_result)
qed

lemma records_ok:
  assumes ok: "daemon_ok s" and pc: "gn_open (dm_gen s g) = OpenGot"
  shows "daemon_ok (open_records x y since g s)"
  unfolding daemon_ok_def
proof (intro conjI allI)
  let ?s = "open_records x y since g s"
  let ?i = "gn_id (dm_gen s g)"
  have names: "names_ok s" using ok by (simp add: daemon_ok_def)
  have gen: "dm_gen ?s h = (if h = g then (dm_gen s g)\<lparr>gn_open := OpenRecorded\<rparr> else dm_gen s h)" for h
    by (simp add: open_records_def Let_def)
  have same: "dm_reg ?s = dm_reg s" by (simp add: open_records_def Let_def)
  have owner: "bk_open (dm_book ?s) = (if \<exists>w. bk_open (dm_book s) ?i = Some w \<and> g \<le> w
      then bk_open (dm_book s) else (bk_open (dm_book s))(?i \<mapsto> g))"
    by (simp add: open_records_def Let_def book_opened_open)
  show "names_ok ?s"
    unfolding names_ok_def
  proof (intro conjI allI impI)
    show "gn_id (dm_gen ?s h) = j" if "bk_open (dm_book ?s) j = Some h" for j h
      using that owner names_unfold(5) [OF names, of j h] by (auto simp: gen split: if_splits)
    show "h \<le> k" if "generation_at (dm_reg ?s) j = Some k"
      and "gn_open (dm_gen ?s h) \<noteq> NoOpen \<and> gn_id (dm_gen ?s h) = j" for j h k
      using that names_unfold(4) [OF names, of j k h] pc by (auto simp: same gen split: if_splits)
  qed (use names_unfold(1-3) [OF names] pc in \<open>auto simp: same gen\<close>)
  fix h
  have view: "place_of ?s h = place_of s h" "life_of ?s h = life_of s h"
    by (simp_all add: place_of_def life_of_def same gen)
  show "gen_ok (dm_gen ?s h) (place_of ?s h) (life_of ?s h) (owns ?s h)"
  proof (cases "h = g")
    case True
    have own: "owns ?s g" if placed: "place_of s g = Placeholder"
    proof -
      have at: "generation_at (dm_reg s) ?i = Some g"
        using placed by (simp add: place_of_def flip: place_generation)
      have "w < g" if "bk_open (dm_book s) ?i = Some w" for w
        using that names_unfold(4) [OF names at, of w] names_unfold(5) [OF names that]
          owner_open [OF ok that] pc by (cases "w = g") auto
      then have "bk_open (dm_book ?s) ?i = Some g"
        using owner by (auto simp: not_le)
      then show ?thesis by (simp add: owns_def gen)
    qed
    show ?thesis
      unfolding True view
      by (rule gen_okE [OF daemon_okD [OF ok, of g]]; intro gen_okI;
          use pc own in \<open>simp add: gen gen_ok_defs view [unfolded True]\<close>)
  next
    case False
    have less: "owns ?s h \<Longrightarrow> owns s h"
      using owner False by (auto simp: owns_def gen split: if_splits)
    have kept: "owns ?s h" if "owns s h" and "place_of s h \<noteq> Absent"
    proof -
      have at: "generation_at (dm_reg s) (gn_id (dm_gen s h)) = Some h"
        using that(2) by (simp add: place_of_def place_generation)
      have "?i = gn_id (dm_gen s h) \<Longrightarrow> g \<le> h"
        using names_unfold(4) [OF names at, of g] pc by simp
      then show ?thesis
        using owner that(1) False by (auto simp: owns_def gen)
    qed
    show ?thesis
      unfolding view gen if_not_P [OF False]
      by (rule gen_okE [OF daemon_okD [OF ok, of h]]; intro gen_okI;
          use less kept in \<open>auto simp: record_ok_def\<close>)
  qed
qed

lemma promote_eq:
  "promote i le cell rg =
    (if place_in rg i (le_generation le) = Placeholder
     then (True, put_entry i (LiveEntry le) (rg\<lparr>rg_cells := (rg_cells rg)(le_generation le := cell)\<rparr>))
     else (False, rg))"
  by (simp add: promote_def place_in_def split: option.split session_entry.split)

lemma promotes_ok:
  assumes ok: "daemon_ok s" and pc: "gn_open (dm_gen s g) = OpenRecorded"
  shows "daemon_ok (open_promotes events frames human_input bootstrap t g s)"
proof -
  let ?d = "dm_gen s g"
  let ?le = "new_live_entry g frames t ?d"
  let ?cell = "\<lparr>ce_lifecycle = ce_lifecycle (rg_cells (dm_reg s) g),
      ce_control = new_control (gn_id ?d) g events human_input, ce_cua_leases = 0,
      ce_bootstrapping = bootstrap\<rparr>"
  have gen_le: "le_generation ?le = g" by (simp add: new_live_entry_def Let_def)
  have names: "names_ok s" using ok by (simp add: daemon_ok_def)
  show ?thesis
  proof (cases "place_in (dm_reg s) (gn_id ?d) (le_generation ?le) = Placeholder")
    case at: True
    then have eq: "promote (gn_id ?d) ?le ?cell (dm_reg s) = (True, put_entry (gn_id ?d) (LiveEntry ?le)
        ((dm_reg s)\<lparr>rg_cells := (rg_cells (dm_reg s))(le_generation ?le := ?cell)\<rparr>))"
      by (simp add: promote_eq)
    let ?f = "\<lambda>d. d\<lparr>gn_open := OpenDone, gn_hook := HookWaits, gn_cancel := HandleDropped\<rparr>"
    let ?rg = "put_entry (gn_id ?d) (LiveEntry ?le) ((dm_reg s)\<lparr>rg_cells := (rg_cells (dm_reg s))(g := ?cell)\<rparr>)"
    let ?s = "set_gen g ?f (s\<lparr>dm_reg := ?rg\<rparr>)"
    have s': "open_promotes events frames human_input bootstrap t g s = ?s"
      using eq gen_le by (simp add: open_promotes_def Let_def)
    have gen_at: "generation_at (dm_reg s) (gn_id ?d) = Some g"
      using at gen_le by (simp flip: place_generation)
    have same: "generation_at ?rg j = generation_at (dm_reg s) j" for j
      using gen_at gen_le by simp
    have reg: "registry_ok ?rg"
      using promote_ok [OF names_unfold(1) [OF names], of "gn_id ?d" ?le ?cell] eq gen_le by simp
    have placeholder: "place_of s g = Placeholder" using at gen_le by (simp add: place_of_def)
    show ?thesis
      unfolding s'
    proof (rule one_generation [OF ok, where g = g])
      have "names_ok (s\<lparr>dm_reg := ?rg\<rparr>)"
        using names reg by (simp add: names_ok_def same del: generation_rest)
      then show "names_ok ?s" by (rule names_ok_gen) (simp_all add: pc)
      have view: "place_of ?s g = Registered" "life_of ?s g = life_of s g" "owns ?s g = owns s g"
        using gen_le by (simp_all add: place_of_def place_in_def life_of_def owns_def)
      show "gen_ok (dm_gen ?s g) (place_of ?s g) (life_of ?s g) (owns ?s g)"
        unfolding view
        by (rule gen_okE [OF daemon_okD [OF ok, of g]]; intro gen_okI;
            use pc placeholder in \<open>simp add: gen_ok_defs\<close>)
      fix h assume "h \<noteq> g"
      then show "dm_gen ?s h = dm_gen s h \<and> place_of ?s h = place_of s h \<and> life_of ?s h = life_of s h
          \<and> owns ?s h = owns s h"
        using at gen_le
        by (auto simp: place_of_def place_in_def life_of_def owns_def split: option.splits session_entry.splits if_splits)
    qed
  next
    case no: False
    then have eq: "promote (gn_id ?d) ?le ?cell (dm_reg s) = (False, dm_reg s)"
      by (simp add: promote_eq)
    have "place_of s g \<noteq> Placeholder" using no gen_le by (simp add: place_of_def)
    then have "gen_ok (?d\<lparr>gn_open := OpenRefused\<rparr>) (place_of s g) (life_of s g) (owns s g)"
      by (rule_tac gen_okE [OF daemon_okD [OF ok, of g]]; intro gen_okI;
          use pc in \<open>cases "place_of s g"; simp add: gen_ok_defs\<close>)
    from step_in_gen [OF ok, where f = "\<lambda>d. d\<lparr>gn_open := OpenRefused\<rparr>", OF _ _ this] pc eq
    show ?thesis by (simp add: open_promotes_def Let_def)
  qed
qed

subsection \<open>Removals\<close>

lemma taken_ok:
  assumes ok: "daemon_ok s" and at: "entry_of (dm_reg s) i = Some (LiveEntry le)"
    and ended: "by_connect \<Longrightarrow> life_of s (le_generation le) \<noteq> Live"
  shows "daemon_ok (removed_from i reason by_connect (RemovedLive le)
    (s\<lparr>dm_reg := drop_entry i (dm_reg s)\<rparr>))"
proof -
  let ?g = "le_generation le"
  have names: "names_ok s" using ok by (simp add: daemon_ok_def)
  have gen: "generation_at (dm_reg s) i = Some ?g" using at by (simp add: generation_at_def)
  have "place_of s ?g = Registered"
    using names_unfold(3) [OF names gen] at by (simp add: place_of_def place_in_def)
  then have opened: "gn_open (dm_gen s ?g) = OpenDone" "gn_close (dm_gen s ?g) = NoClose"
    "place_of s ?g = Registered"
    using daemon_okD [OF ok, of ?g]
    by (auto simp: gen_ok_def opening_ok_def waiting_ok_def gone_ok_def split: open_pc.splits if_splits)
  have "gen_ok ((dm_gen s ?g)\<lparr>gn_close := CloseTaken, gn_reason := Some reason, gn_by_connect := by_connect\<rparr>)
      Absent (life_of s ?g) (owns s ?g)"
    by (rule gen_okE [OF daemon_okD [OF ok, of ?g]]; intro gen_okI;
        use opened ended in \<open>auto simp: opening_ok_def closing_ok_def account_defs record_ok_def\<close>)
  then show ?thesis
    using drop_generation [OF ok gen, where f = "\<lambda>d. d\<lparr>gn_close := CloseTaken,
        gn_reason := Some reason, gn_by_connect := by_connect\<rparr>"] opened
    by simp
qed

lemma placeholder_open:
  assumes "gen_ok d p l own" and "p = Placeholder"
  obtains "gn_open d = OpenWaits" | "gn_open d = OpenDrops" | "gn_open d = OpenGot"
    | "gn_open d = OpenRecorded" | e where "gn_open d = OpenCancels e"
  using assms by (cases "gn_open d") (auto simp: gen_ok_def opening_ok_def gone_ok_def split: if_splits)

lemma cancelled_ok:
  assumes ok: "daemon_ok s" and at: "entry_of (dm_reg s) i = Some (ConnectingEntry c a)"
  shows "daemon_ok (removed_from i reason by_connect (CancelledConnect a)
    (s\<lparr>dm_reg := drop_entry i (dm_reg s)\<rparr>))"
proof -
  have names: "names_ok s" using ok by (simp add: daemon_ok_def)
  have gen: "generation_at (dm_reg s) i = Some a" using at by (simp add: generation_at_def)
  have placed: "place_of s a = Placeholder"
    using names_unfold(3) [OF names gen] at by (simp add: place_of_def place_in_def)
  have "gen_ok ((dm_gen s a)\<lparr>gn_cancel := CauseSent\<rparr>) Absent (life_of s a) (owns s a)"
    by (rule placeholder_open [OF daemon_okD [OF ok, of a] placed];
        rule gen_okE [OF daemon_okD [OF ok, of a]]; intro gen_okI;
        use placed in \<open>simp add: gen_ok_defs\<close>)
  then show ?thesis
    using drop_generation [OF ok gen, where f = "\<lambda>d. d\<lparr>gn_cancel := CauseSent\<rparr>"] by simp
qed

lemma orphan_removed_ok:
  assumes "daemon_ok s" and "entry_of (dm_reg s) i = Some (OrphanedEntry n h t)"
  shows "daemon_ok (removed_from i reason by_connect RemovedOrphan
    (s\<lparr>dm_reg := drop_entry i (dm_reg s)\<rparr>))"
  using drop_orphan [OF assms(1), of i "dm_orphans s @ [i]"] assms(2)
  by (simp add: generation_at_def)

lemma removals_ok:
  assumes ok: "daemon_ok s"
  shows "daemon_ok (snd (close_named reason i s))"
    and "daemon_ok (snd (release_name i s))"
    and "daemon_ok (snd (close_if_generation i g s))"
proof -
  have life: "life_of s (le_generation le) \<noteq> Live"
    if "entry_end_cause (dm_reg s) (LiveEntry le) \<noteq> None" for le
    using that by (auto simp: entry_end_cause_def cell_of_def life_of_def)
  show "daemon_ok (snd (close_named reason i s))"
  proof (cases "entry_of (dm_reg s) i")
    case (Some e)
    then show ?thesis
      using ok taken_ok [OF ok, of i _ False] cancelled_ok [OF ok, of i] orphan_removed_ok [OF ok, of i]
      by (cases e) (simp_all add: close_named_def close_section_def)
  qed (simp add: close_named_def close_section_def ok)
  show "daemon_ok (snd (release_name i s))"
  proof (cases "entry_of (dm_reg s) i")
    case (Some e)
    then show ?thesis
      using ok taken_ok [OF ok, of i _ True] orphan_removed_ok [OF ok, of i] life
      by (cases e) (simp_all add: release_name_def release_section_def)
  qed (simp add: release_name_def release_section_def ok)
  show "daemon_ok (snd (close_if_generation i g s))"
  proof (cases "entry_of (dm_reg s) i")
    case (Some e)
    then show ?thesis
      using ok taken_ok [OF ok, of i _ False]
      by (cases e) (auto simp: close_if_generation_def close_if_generation_section_def)
  qed (simp add: close_if_generation_def close_if_generation_section_def ok)
qed

text \<open>The sweep takes several generations at once.\<close>

definition taken_by_sweep :: "(session_id \<times> session_entry) list \<Rightarrow> nat \<Rightarrow> bool" where
  "taken_by_sweep gone g \<longleftrightarrow> (\<exists>i le. (i, LiveEntry le) \<in> set gone \<and> le_generation le = g)"

lemma taken_by_sweep_simps [simp]:
  "taken_by_sweep [] g \<longleftrightarrow> False"
  "taken_by_sweep ((i, LiveEntry le) # gone) g \<longleftrightarrow> le_generation le = g \<or> taken_by_sweep gone g"
  "taken_by_sweep ((i, ConnectingEntry c a) # gone) g \<longleftrightarrow> taken_by_sweep gone g"
  "taken_by_sweep ((i, OrphanedEntry n h t) # gone) g \<longleftrightarrow> taken_by_sweep gone g"
  by (auto simp: taken_by_sweep_def)

lemma expired_fold:
  "dm_reg (fold expired_one gone s) = dm_reg s \<and> dm_book (fold expired_one gone s) = dm_book s
   \<and> dm_gen (fold expired_one gone s) g =
       (if taken_by_sweep gone g
        then (dm_gen s g)\<lparr>gn_close := CloseTaken, gn_reason := Some IdleReap, gn_by_connect := False\<rparr>
        else dm_gen s g)"
proof (induction gone arbitrary: s)
  case (Cons x gone)
  obtain i e where x: "x = (i, e)" by (cases x)
  show ?case
    using Cons.IH [of "expired_one x s"] by (cases e) (simp_all add: x)
qed simp

lemma place_expire:
  assumes "names_unique rg"
  shows "place_in (snd (expire_section now retention rg)) i g =
    (if \<exists>le. (i, LiveEntry le) \<in> set (fst (expire_section now retention rg)) \<and> le_generation le = g
     then Absent else place_in rg i g)"
proof (cases "entry_of rg i")
  case None
  then show ?thesis
    using expire_removed [OF assms, of i _ now retention]
    by (simp add: place_in_def expire_entry [OF assms])
next
  case (Some e)
  have gone: "(i, LiveEntry le) \<in> set (fst (expire_section now retention rg)) \<longleftrightarrow>
      stamp_ended now rg e = LiveEntry le \<and> is_due now retention rg (LiveEntry le)" for le
    using expire_removed [OF assms, of i "LiveEntry le" now retention] Some by auto
  show ?thesis
  proof (cases e)
    case (LiveEntry le)
    obtain le' where le': "stamp_ended now rg e = LiveEntry le'" "le_generation le' = le_generation le"
      by (cases "entry_end_cause rg e"; cases "le_ended_seen le")
        (simp_all add: stamp_ended_def LiveEntry)
    show ?thesis
      unfolding place_in_def expire_entry [OF assms] gone using Some le'
      by (auto simp: LiveEntry)
  qed (use Some gone in \<open>simp_all add: place_in_def expire_entry [OF assms] stamp_ended_def is_due_def
      retained_since_def\<close>)
qed

lemma names_fewer:
  assumes "names_ok s" and "registry_ok (dm_reg s')"
    and "\<And>i g. generation_at (dm_reg s') i = Some g \<Longrightarrow> generation_at (dm_reg s) i = Some g"
    and "rg_next (dm_reg s') = rg_next (dm_reg s)" and "dm_book s' = dm_book s"
    and "\<And>g. gn_id (dm_gen s' g) = gn_id (dm_gen s g)"
    and "\<And>g. gn_open (dm_gen s' g) = gn_open (dm_gen s g)"
  shows "names_ok s'"
  unfolding names_ok_def assms(4-7)
proof (intro conjI allI impI)
  fix i g h
  assume at: "generation_at (dm_reg s') i = Some g"
  show "gn_id (dm_gen s g) = i" by (rule names_unfold(3) [OF assms(1) assms(3) [OF at]])
  assume "gn_open (dm_gen s h) \<noteq> NoOpen \<and> gn_id (dm_gen s h) = i"
  then show "h \<le> g" using names_unfold(4) [OF assms(1) assms(3) [OF at], of h] by simp
qed (use assms(2) names_unfold(2,5) [OF assms(1)] in simp_all)

lemma sweeps_ok:
  assumes ok: "daemon_ok s"
  shows "daemon_ok (expire_retained now retention s)"
proof -
  let ?x = "expire_section now retention (dm_reg s)"
  let ?s = "expire_retained now retention s"
  have names: "names_ok s" using ok by (simp add: daemon_ok_def)
  have unique: "names_unique (dm_reg s)" using names_unfold(1) [OF names] by (simp add: registry_ok_def)
  have eqs: "dm_reg ?s = snd ?x" "dm_book ?s = dm_book s"
    "dm_gen ?s g = (if taken_by_sweep (fst ?x) g
        then (dm_gen s g)\<lparr>gn_close := CloseTaken, gn_reason := Some IdleReap, gn_by_connect := False\<rparr>
        else dm_gen s g)" for g
    using expired_fold [of "fst ?x" "s\<lparr>dm_reg := snd ?x\<rparr>"]
    by (cases ?x; simp add: expire_retained_def)+
  have id_open: "gn_id (dm_gen ?s g) = gn_id (dm_gen s g)" "gn_open (dm_gen ?s g) = gn_open (dm_gen s g)" for g
    by (simp_all add: eqs)
  have at: "generation_at (dm_reg ?s) i = Some g \<Longrightarrow> generation_at (dm_reg s) i = Some g" for i g
    unfolding eqs by (rule expire_generation [OF unique])
  have "names_ok ?s"
    by (rule names_fewer [OF names])
      (simp_all add: id_open at eqs(1,2) expire_ok [OF names_unfold(1) [OF names]])
  moreover have "gen_ok (dm_gen ?s g) (place_of ?s g) (life_of ?s g) (owns ?s g)" for g
  proof -
    have view: "life_of ?s g = life_of s g" "owns ?s g = owns s g"
      by (simp_all add: life_of_def owns_def eqs)
    let ?i = "gn_id (dm_gen s g)"
    have taken: "taken_by_sweep (fst ?x) g \<longleftrightarrow>
        (\<exists>le. (?i, LiveEntry le) \<in> set (fst ?x) \<and> le_generation le = g)"
    proof
      assume "taken_by_sweep (fst ?x) g"
      then obtain i le where le: "(i, LiveEntry le) \<in> set (fst ?x)" "le_generation le = g"
        by (auto simp: taken_by_sweep_def)
      then have "map_option (stamp_ended now (dm_reg s)) (entry_of (dm_reg s) i) = Some (LiveEntry le)"
        using expire_removed [OF unique] by blast
      then obtain e where e: "entry_of (dm_reg s) i = Some e" "stamp_ended now (dm_reg s) e = LiveEntry le"
        by auto
      have "generation_at (dm_reg s) i = Some g"
        using le(2) e generation_stamp [of now "dm_reg s" e] by (simp add: generation_at_def)
      then have "i = ?i" using names_unfold(3) [OF names] by simp
      with le show "\<exists>le. (?i, LiveEntry le) \<in> set (fst ?x) \<and> le_generation le = g" by blast
    qed (auto simp: taken_by_sweep_def)
    have place: "place_of ?s g = (if taken_by_sweep (fst ?x) g then Absent else place_of s g)"
      unfolding place_of_def id_open eqs(1) place_expire [OF unique] taken ..
    show ?thesis
    proof (cases "taken_by_sweep (fst ?x) g")
      case False
      then show ?thesis using daemon_okD [OF ok, of g] by (simp add: view place eqs)
    next
      case True
      then obtain le where le: "(?i, LiveEntry le) \<in> set (fst ?x)" "le_generation le = g"
        using taken by blast
      have "map_option (stamp_ended now (dm_reg s)) (entry_of (dm_reg s) ?i) = Some (LiveEntry le)"
        using le(1) expire_removed [OF unique] by blast
      then obtain e where e: "entry_of (dm_reg s) ?i = Some e" "stamp_ended now (dm_reg s) e = LiveEntry le"
        by auto
      have "place_of s g = Registered"
        using e le(2) generation_stamp [of now "dm_reg s" e]
        by (cases e) (simp_all add: place_of_def place_in_def stamp_ended_def)
      then have opened: "gn_open (dm_gen s g) = OpenDone" "gn_close (dm_gen s g) = NoClose"
        "place_of s g = Registered"
        using daemon_okD [OF ok, of g]
        by (auto simp: gen_ok_def opening_ok_def waiting_ok_def gone_ok_def split: open_pc.splits if_splits)
      show ?thesis
        unfolding view place eqs(3) if_P [OF True]
        by (rule gen_okE [OF daemon_okD [OF ok, of g]]; intro gen_okI;
            use opened in \<open>auto simp: opening_ok_def closing_ok_def account_defs record_ok_def\<close>)
    qed
  qed
  ultimately show ?thesis by (simp add: daemon_ok_def)
qed

subsection \<open>The invariant\<close>

lemma orphan_forgotten_ok:
  "daemon_ok s \<Longrightarrow> daemon_ok (s\<lparr>dm_orphans := js, dm_book := closed_orphan y i (dm_book s)\<rparr>)"
  by (simp add: daemon_ok_def names_ok_def place_of_def life_of_def owns_def)

lemma touches_ok:
  assumes ok: "daemon_ok s"
  shows "daemon_ok (s\<lparr>dm_reg := snd (touch_generation i g t (dm_reg s))\<rparr>)"
proof -
  let ?rg = "snd (touch_generation i g t (dm_reg s))"
  have "generation_at ?rg j = generation_at (dm_reg s) j" "place_in ?rg j h = place_in (dm_reg s) j h"
    "rg_cells ?rg = rg_cells (dm_reg s)" "rg_next ?rg = rg_next (dm_reg s)" for j h
    by (auto simp: touch_generation_def generation_at_def place_in_def
        split: option.splits session_entry.splits)
  then show ?thesis
    using ok touch_ok [of "dm_reg s" i g t]
    by (simp add: daemon_ok_def names_ok_def place_of_def life_of_def owns_def)
qed

lemma started_ok: "started s \<Longrightarrow> daemon_ok s"
  using place_generation [of "dm_reg s"]
  by (auto simp: started_def daemon_ok_def names_ok_def registry_ok_def no_gen_def gen_ok_def gen_ok_defs
      place_of_def owns_def)

lemma step_keeps_ok:
  assumes "daemon_step s s'" and "daemon_ok s"
  shows "daemon_ok s'"
  using assms
proof (cases rule: daemon_step.cases)
  case (cancels g e)
  then show ?thesis using own_cancel_ok [OF assms(2), of g e "OpenFailed e"] by simp
next
  case (drop_cancels g)
  then show ?thesis using own_cancel_ok [OF assms(2), of g _ OpenDropsRx] by simp
next
  case (close_poll_live g)
  then show ?thesis using close_poll_ok [OF assms(2), of g False] by simp
next
  case (close_poll_ended g)
  then show ?thesis using close_poll_ok [OF assms(2), of g True] by simp
qed (use assms(2) in \<open>simp_all add: claims_ok claims_auto_ok conn_cancelled_ok conn_ready_ok conn_sends_ok
      receives_ok dropped_ok drop_drains_ok records_ok promotes_ok forget_steps_ok refused_ok removals_ok
      sweeps_ok close_check_ok close_unhook_ok close_await_ok close_joins_ok hook_wake_ok hook_finish_ok
      orphan_forgotten_ok session_ends_ok cell_changes_ok touches_ok\<close>)

lemma reachable_ok: "daemon_reachable s \<Longrightarrow> daemon_ok s"
  by (induction rule: daemon_reachable.induct) (auto intro: started_ok step_keeps_ok)

end
