(* ===== verification/Registry_Promises.thy ===== *)
theory Registry_Promises
  imports Registry_Safety "HOL-Library.Transitive_Closure_Table"
begin

text \<open>
  What the daemon promises of its sessions, over every interleaving of \<open>Registry_Steps\<close>:
  no session is lost and none is closed twice, one session per name, a Disconnect of a
  connect in flight ends it and says so, and at rest the records are those of the live
  sessions.
\<close>

subsection \<open>One holder per session\<close>

text \<open>
  C5. A session that the connector produced is never lost and never closed twice: at any
  time it is either held by exactly one of its connect task, its pending Connect, the
  registry, or the task that removed it from the registry, or its close was started, once,
  or it was dropped without one. The last happens only when it had been delivered to a
  Connect that was dropped while it waited, and no thread for its close could be started.
\<close>

theorem session_has_one_holder:
  assumes "daemon_reachable s" and "session_exists (dm_gen s g)"
  shows "holders (dm_gen s g) + gn_closes (dm_gen s g) + gn_bare (dm_gen s g) = 1
    \<and> (gn_bare (dm_gen s g) > 0 \<longrightarrow> gn_open (dm_gen s g) = OpenGone \<and> gn_no_thread (dm_gen s g))
    \<and> (gn_no_thread (dm_gen s g) \<longrightarrow> gn_bare (dm_gen s g) = 1)"
proof -
  have "account_ok (dm_gen s g) (life_of s g)"
    using daemon_okD [OF reachable_ok [OF assms(1)], of g] by (simp add: gen_ok_def)
  then show ?thesis using assms(2) by (auto simp: account_ok_def split: if_splits)
qed

text \<open>What it means that no task is at work.\<close>

fun open_rests :: "open_pc \<Rightarrow> bool" where
  "open_rests NoOpen = True"
| "open_rests (OpenFailed _) = True"
| "open_rests OpenDone = True"
| "open_rests OpenGone = True"
| "open_rests _ = False"

fun close_rests :: "close_pc \<Rightarrow> bool" where
  "close_rests NoClose = True"
| "close_rests CloseFinished = True"
| "close_rests (CloseAbandoned _) = True"
| "close_rests _ = False"

definition settled_gen :: "gen \<Rightarrow> lifecycle \<Rightarrow> bool" where
  "settled_gen d l \<longleftrightarrow> open_rests (gn_open d) \<and> gn_conn d \<notin> {ConnRuns, ConnReady}
     \<and> close_rests (gn_close d) \<and> gn_hook d \<notin> {HookFired, HookUnrecorded}
     \<and> (gn_hook d = HookWaits \<longrightarrow> l = Live)"

definition settled :: "daemon \<Rightarrow> bool" where
  "settled s \<longleftrightarrow> (\<forall>g. settled_gen (dm_gen s g) (life_of s g))"

text \<open>
  C6. When no task of the daemon is at work any more, every session the connector ever
  produced is either registered and can be reached by its name, or its close was started
  once, except a session delivered to a dropped Connect whose closing thread could not be
  started.
\<close>

theorem settled_sessions_registered_or_closed:
  assumes "daemon_reachable s" and "settled s" and "session_exists (dm_gen s g)"
    and "\<not> gn_no_thread (dm_gen s g)"
  shows "(\<exists>le. entry_of (dm_reg s) (gn_id (dm_gen s g)) = Some (LiveEntry le) \<and> le_generation le = g)
    \<noteq> (gn_closes (dm_gen s g) = 1)"
proof -
  have ok: "gen_ok (dm_gen s g) (place_of s g) (life_of s g) (owns s g)"
    by (rule daemon_okD [OF reachable_ok [OF assms(1)]])
  have at: "place_of s g = Registered \<longleftrightarrow>
      (\<exists>le. entry_of (dm_reg s) (gn_id (dm_gen s g)) = Some (LiveEntry le) \<and> le_generation le = g)"
    by (auto simp: place_of_def place_in_def split: option.splits session_entry.splits)
  have rests: "open_rests (gn_open (dm_gen s g))" "gn_conn (dm_gen s g) \<notin> {ConnRuns, ConnReady}"
    "close_rests (gn_close (dm_gen s g))"
    using assms(2) by (simp_all add: settled_def settled_gen_def)
  have bare: "gn_bare (dm_gen s g) = 0"
    using ok assms(4) by (simp add: gen_ok_def account_ok_def split: if_splits)
  note parts = ok [unfolded gen_ok_def opening_ok_def gone_ok_def account_defs answer_of_task_def]
  have "(place_of s g = Registered) \<noteq> (gn_closes (dm_gen s g) = 1)"
  proof (cases "gn_open (dm_gen s g)")
    case OpenDone
    then show ?thesis
      using rests parts bare by (cases "gn_close (dm_gen s g)") auto
  next
    case (OpenFailed e)
    then show ?thesis
      using rests parts bare assms(3) by (auto simp: session_exists_def)
  next
    case OpenGone
    then show ?thesis
      using rests parts bare assms(3) by (auto simp: session_exists_def)
  qed (use rests parts assms(3) in \<open>simp_all add: session_exists_def\<close>)
  then show ?thesis unfolding at .
qed

subsection \<open>One session per name\<close>

text \<open>
  C33. However many connects race for one name, at most one of their sessions is registered
  at a time: two that both succeeded have been registered one after the other, and the
  earlier one was taken out of the registry, to be closed, before the later one got in.
\<close>

theorem one_session_per_name:
  assumes "daemon_reachable s" and "g \<noteq> h"
    and "gn_open (dm_gen s g) = OpenDone" and "gn_open (dm_gen s h) = OpenDone"
    and "gn_id (dm_gen s g) = gn_id (dm_gen s h)"
  shows "\<not> (gn_close (dm_gen s g) = NoClose \<and> gn_close (dm_gen s h) = NoClose)"
proof
  assume "gn_close (dm_gen s g) = NoClose \<and> gn_close (dm_gen s h) = NoClose"
  then have "place_of s g = Registered" "place_of s h = Registered"
    using assms(3,4) daemon_okD [OF reachable_ok [OF assms(1)], of g]
      daemon_okD [OF reachable_ok [OF assms(1)], of h]
    by (simp_all add: gen_ok_def opening_ok_def)
  then show False
    using assms(2,5) by (auto simp: place_of_def place_in_def split: option.splits session_entry.splits if_splits)
qed

subsection \<open>A Disconnect during a connect\<close>

lemma disconnect_of_connecting:
  assumes "entry_of (dm_reg s) i = Some (ConnectingEntry c g)"
  shows "fst (close_named Disconnect i s) = CancelledConnect g
    \<and> entry_of (dm_reg (snd (close_named Disconnect i s))) i = None
    \<and> gn_cancel (dm_gen (snd (close_named Disconnect i s)) g) = CauseSent"
  using assms by (simp add: close_named_def close_section_def)

lemma promote_cancel:
  assumes "place_of s g \<noteq> Placeholder" and "h = g \<longrightarrow> gn_open (dm_gen s g) = OpenRecorded"
  shows "gn_cancel (dm_gen (open_promotes events frames human_input bootstrap t h s) g) = gn_cancel (dm_gen s g)"
  using assms
  by (auto simp: open_promotes_def Let_def promote_eq place_of_def new_live_entry_def)

lemma own_cancel_cancel:
  "place_of s g \<noteq> Placeholder \<Longrightarrow> gn_cancel (dm_gen (own_cancel h pc s) g) = gn_cancel (dm_gen s g)"
  by (auto simp: own_cancel_def place_of_def place_in_def cancel_connecting_def
      split: option.split session_entry.split prod.split)

lemma claim_cancel:
  assumes "daemon_ok s" and "gn_cancel (dm_gen s g) = CauseSent"
  shows "g \<noteq> rg_next (dm_reg s)"
proof
  assume "g = rg_next (dm_reg s)"
  then have "gn_open (dm_gen s g) = NoOpen"
    using assms(1) names_unfold(2) by (simp add: daemon_ok_def)
  then show False
    using daemon_okD [OF assms(1), of g] assms(2) by (simp add: gen_ok_def opening_ok_def)
qed

lemma removed_cancel:
  "gn_cancel (dm_gen s g) = CauseSent \<Longrightarrow>
    gn_cancel (dm_gen (removed_from i reason by_connect r s) g) = CauseSent"
  by (cases r) auto

lemma cause_stays:
  assumes step: "daemon_step s s'" and ok: "daemon_ok s" and sent: "gn_cancel (dm_gen s g) = CauseSent"
  shows "gn_cancel (dm_gen s' g) = CauseSent"
proof -
  have away: "place_of s g \<noteq> Placeholder"
    using daemon_okD [OF ok, of g] sent
    by (auto simp: gen_ok_def opening_ok_def waiting_ok_def gone_ok_def split: open_pc.splits)
  note fresh = claim_cancel [OF ok sent]
  show ?thesis
    using step
  proof (cases rule: daemon_step.cases)
    case (claims i now name host)
    then show ?thesis using sent fresh
      by (cases "entry_of (dm_reg s) i") (auto simp: open_claim_def claim_def Let_def)
  next
    case (claims_auto now seed host)
    then show ?thesis using sent fresh
      by (auto simp: open_claim_auto_def claim_with_auto_id_def claim_candidates_result Let_def split: option.split)
  next
    case (cancels h e)
    then show ?thesis using sent own_cancel_cancel [OF away] by simp
  next
    case (drop_cancels h)
    then show ?thesis using sent own_cancel_cancel [OF away] by simp
  next
    case (promotes h events frames human_input bootstrap t)
    then have "gn_cancel (dm_gen s' g) = gn_cancel (dm_gen s g)"
      unfolding promotes(1) by (intro promote_cancel [OF away]) auto
    then show ?thesis using sent by simp
  next
    case (sweeps now retention)
    then show ?thesis
      using sent expired_fold [of "fst (expire_section now retention (dm_reg s))" _ g]
      by (auto simp: expire_retained_def split: prod.split)
  next
    case (disconnects i)
    then show ?thesis using sent removed_cancel by (simp add: close_named_def split: prod.split)
  next
    case (closes_idle i)
    then show ?thesis using sent removed_cancel by (simp add: close_named_def split: prod.split)
  next
    case (releases i)
    then show ?thesis using sent removed_cancel by (simp add: release_name_def split: prod.split)
  next
    case (reclaims i h)
    then show ?thesis using sent removed_cancel by (simp add: close_if_generation_def split: prod.split)
  qed (use sent in \<open>auto simp: connect_sees_cancel_def connect_result_def connect_ready_def
      connect_sends_def session_close_starts_def session_drops_def open_receives_def guard_drains_def
      open_records_def Let_def open_unrecords_def open_closes_def open_fails_def close_checks_def
      close_unhooks_def close_unrecords_def close_polls_def close_ends_lease_def close_finishes_def
      hook_wakes_def hook_unrecords_def hook_finishes_def split: conn_pc.split\<close>)
qed

lemma cause_stays_run:
  "daemon_step\<^sup>*\<^sup>* s t \<Longrightarrow> daemon_ok s \<Longrightarrow> gn_cancel (dm_gen s g) = CauseSent \<Longrightarrow>
    daemon_ok t \<and> gn_cancel (dm_gen t g) = CauseSent"
  by (induction rule: rtranclp_induct) (auto intro: step_keeps_ok cause_stays)

text \<open>
  A Disconnect that finds a connect in flight frees the name at once, and from then on
  the cancelled attempt never gets a session registered. If its Connect still waits, it
  fails: with the text that a Disconnect cancelled it, or with the error that its connect
  task had reached by itself.
\<close>

theorem disconnect_cancels_connect:
  assumes "daemon_reachable s" and "entry_of (dm_reg s) i = Some (ConnectingEntry c g)"
    and "daemon_step\<^sup>*\<^sup>* (snd (close_named Disconnect i s)) t"
  shows "entry_of (dm_reg (snd (close_named Disconnect i s))) i = None
    \<and> gn_open (dm_gen t g) \<noteq> OpenDone
    \<and> (\<forall>j le. entry_of (dm_reg t) j = Some (LiveEntry le) \<longrightarrow> le_generation le \<noteq> g)
    \<and> (\<forall>e. gn_open (dm_gen t g) = OpenFailed e \<longrightarrow>
          e = ConnectFailed (lit ''connect cancelled by disconnect'')
          \<or> gn_conn (dm_gen t g) = ConnSentErr e
          \<or> gn_conn (dm_gen t g) = ConnSilent \<and> e = connect_cancelled)"
proof -
  note first = disconnect_of_connecting [OF assms(2)]
  have ok: "daemon_ok t" and sent: "gn_cancel (dm_gen t g) = CauseSent"
    using cause_stays_run [OF assms(3), of g] first removals_ok(1) [OF reachable_ok [OF assms(1)]]
    by auto
  have open_t: "opening_ok (dm_gen t g) (place_of t g)"
    using daemon_okD [OF ok, of g] by (simp add: gen_ok_def)
  then have not_done: "gn_open (dm_gen t g) \<noteq> OpenDone"
    using sent by (auto simp: opening_ok_def)
  then have "place_of t g \<noteq> Registered"
    using open_t by (auto simp: opening_ok_def waiting_ok_def gone_ok_def split: open_pc.splits)
  moreover have "place_of t g = Registered"
    if "entry_of (dm_reg t) j = Some (LiveEntry le)" "le_generation le = g" for j le
    using that names_unfold(3) [of t j g] ok
    by (simp add: daemon_ok_def generation_at_def place_of_def place_in_def)
  ultimately show ?thesis
    using first not_done open_t sent
    by (auto simp: opening_ok_def answer_of_task_def answer_of_cancel_def cancelled_by_def)
qed

subsection \<open>Records at rest\<close>

lemma settled_record:
  assumes ok: "gen_ok d p l own" and rests: "open_rests (gn_open d)" "close_rests (gn_close d)"
    "gn_hook d \<notin> {HookFired, HookUnrecorded}" "gn_hook d = HookWaits \<longrightarrow> l = Live"
  shows "own \<longleftrightarrow> p = Registered \<and> l = Live"
proof (rule gen_okE [OF ok])
  assume parts: "opening_ok d p" "closing_ok d l" "record_ok d p own"
  show ?thesis
  proof (cases "gn_open d = OpenDone")
    case True
    have p: "p = (if gn_close d = NoClose then Registered else Absent)"
      using parts(1) True by (simp add: opening_ok_def)
    show ?thesis
    proof (cases "gn_close d = NoClose")
      case no_close: True
      have registered: "p = Registered" using p no_close by simp
      have "own \<longleftrightarrow> gn_hook d = HookWaits"
        using parts(3) rests(3) True registered no_close by (auto simp: record_ok_def)
      also have "\<dots> \<longleftrightarrow> l = Live"
        using parts(2) rests(4) True no_close by (auto simp: closing_ok_def)
      finally show ?thesis using registered by simp
    next
      case False
      then have "\<not> close_will_forget (gn_close d)"
        using parts(2) True rests(2) by (cases "gn_close d") (simp_all add: closing_ok_def)
      then show ?thesis
        using parts(3) True False p by (simp add: record_ok_def)
    qed
  next
    case False
    then have "p \<noteq> Registered" and "\<not> own"
      using parts rests(1) by (cases "gn_open d"; simp add: opening_ok_def gone_ok_def record_ok_def)+
    then show ?thesis by simp
  qed
qed

text \<open>
  The owner map of the book at rest, whatever reads and rewrites of the file failed.
\<close>

lemma owners_are_live_sessions:
  assumes "daemon_reachable s" and "settled s"
  shows "bk_open (dm_book s) i = Some g \<longleftrightarrow>
    (\<exists>le. entry_of (dm_reg s) i = Some (LiveEntry le) \<and> le_generation le = g
       \<and> ce_lifecycle (cell_of (dm_reg s) le) = Live)"
proof -
  have ok: "daemon_ok s" by (rule reachable_ok [OF assms(1)])
  then have names: "names_ok s" by (simp add: daemon_ok_def)
  have gen: "gen_ok (dm_gen s g) (place_of s g) (life_of s g) (owns s g)"
    by (rule daemon_okD [OF ok])
  have rests: "open_rests (gn_open (dm_gen s g))" "close_rests (gn_close (dm_gen s g))"
    "gn_hook (dm_gen s g) \<notin> {HookFired, HookUnrecorded}"
    "gn_hook (dm_gen s g) = HookWaits \<longrightarrow> life_of s g = Live"
    using assms(2) by (simp_all add: settled_def settled_gen_def)
  have key: "owns s g \<longleftrightarrow> place_of s g = Registered \<and> life_of s g = Live"
    by (rule settled_record [OF gen rests])
  show ?thesis
  proof
    assume own: "bk_open (dm_book s) i = Some g"
    then have "gn_id (dm_gen s g) = i" by (rule names_unfold(5) [OF names])
    with own key show "\<exists>le. entry_of (dm_reg s) i = Some (LiveEntry le) \<and> le_generation le = g
       \<and> ce_lifecycle (cell_of (dm_reg s) le) = Live"
      by (auto simp: owns_def place_of_def place_in_def life_of_def cell_of_def
          split: option.splits session_entry.splits if_splits)
  next
    assume "\<exists>le. entry_of (dm_reg s) i = Some (LiveEntry le) \<and> le_generation le = g
       \<and> ce_lifecycle (cell_of (dm_reg s) le) = Live"
    then obtain le where le: "entry_of (dm_reg s) i = Some (LiveEntry le)" "le_generation le = g"
      "ce_lifecycle (cell_of (dm_reg s) le) = Live" by blast
    have i: "gn_id (dm_gen s g) = i"
      by (rule names_unfold(3) [OF names]) (simp add: generation_at_def le)
    then have "owns s g"
      unfolding key using le by (simp add: place_of_def place_in_def life_of_def cell_of_def)
    then show "bk_open (dm_book s) i = Some g" by (simp add: owns_def i)
  qed
qed

text \<open>
  The file, as long as its reads and rewrites succeed. The daemon starts with a file whose
  seeded records were removed; a record without a name cannot be seeded and stays.
\<close>

definition book_without_faults :: "daemon \<Rightarrow> record_book \<Rightarrow> bool" where
  "book_without_faults s b \<longleftrightarrow> b = dm_book s
     \<or> (\<exists>g since. gn_open (dm_gen s g) = OpenGot
          \<and> b = book_opened reliable reliable (gn_id (dm_gen s g)) g (gn_host (dm_gen s g)) since (dm_book s))
     \<or> (\<exists>g. b = fst (book_closed reliable reliable (gn_id (dm_gen s g)) g (dm_book s)))
     \<or> (\<exists>i. b = closed_orphan reliable i (dm_book s))"

definition file_record :: "record_book \<Rightarrow> session_id \<Rightarrow> (ustr \<times> ustr) option" where
  "file_record b = rmap (stored (bk_sink b))"

definition quiet_step :: "daemon \<Rightarrow> daemon \<Rightarrow> bool" where
  "quiet_step s s' \<longleftrightarrow> daemon_step s s' \<and> book_without_faults s (dm_book s')"

inductive faultless :: "daemon \<Rightarrow> bool" where
  clean: "started s \<Longrightarrow> bk_pending (dm_book s) = {} \<Longrightarrow> (\<forall>i. i \<noteq> [] \<longrightarrow> file_record (dm_book s) i = None)
    \<Longrightarrow> faultless s"
| written: "faultless s \<Longrightarrow> quiet_step s s' \<Longrightarrow> faultless s'"

lemma quiet_stepD: "quiet_step s s' \<Longrightarrow> daemon_step s s'" "quiet_step s s' \<Longrightarrow> book_without_faults s (dm_book s')"
  by (simp_all add: quiet_step_def)

lemma faultless_reachable: "faultless s \<Longrightarrow> daemon_reachable s"
  by (induction rule: faultless.induct) (auto intro: daemon_reachable.intros dest: quiet_stepD)

lemma faultless_run: "quiet_step\<^sup>*\<^sup>* s t \<Longrightarrow> faultless s \<Longrightarrow> faultless t"
  by (induction rule: rtranclp_induct) (auto intro: faultless.written)

text \<open>The file has exactly the records that are owned, with the hosts of their owners.\<close>

definition file_fits :: "(nat \<Rightarrow> ustr) \<Rightarrow> record_book \<Rightarrow> bool" where
  "file_fits host b \<longleftrightarrow> bk_pending b = {}
     \<and> (\<forall>i. i \<noteq> [] \<longrightarrow> map_option fst (file_record b i) = map_option host (bk_open b i))"

lemma file_fits_book:
  assumes "file_fits (\<lambda>g. gn_host (dm_gen s g)) (dm_book s)" and "book_without_faults s b"
  shows "file_fits (\<lambda>g. gn_host (dm_gen s g)) b"
  using assms(2) unfolding book_without_faults_def
proof (elim disjE exE conjE)
  fix g since
  assume "b = book_opened reliable reliable (gn_id (dm_gen s g)) g (gn_host (dm_gen s g)) since (dm_book s)"
  then show ?thesis
    using assms(1) by (auto simp: file_fits_def file_record_def book_opened_def reliable_def flush_stored)
next
  fix g
  assume "b = fst (book_closed reliable reliable (gn_id (dm_gen s g)) g (dm_book s))"
  then show ?thesis
    using assms(1) by (auto simp: file_fits_def file_record_def book_closed_def reliable_def flush_stored)
next
  fix i
  assume "b = closed_orphan reliable i (dm_book s)"
  then show ?thesis
    using assms(1) by (auto simp: file_fits_def file_record_def closed_orphan_def reliable_def flush_stored)
qed (use assms(1) in simp)

lemma owners_after:
  "book_without_faults s b \<Longrightarrow> bk_open b i = Some g \<Longrightarrow>
    bk_open (dm_book s) i = Some g \<or> gn_open (dm_gen s g) = OpenGot"
  unfolding book_without_faults_def
  by (auto simp: book_opened_open book_closed_open split: if_splits)

lemma removed_host [simp]:
  "gn_host (dm_gen (removed_from i reason by_connect r s) g) = gn_host (dm_gen s g)"
  by (cases r) simp_all

lemma host_stays:
  assumes step: "daemon_step s s'" and ok: "daemon_ok s" and known: "gn_open (dm_gen s g) \<noteq> NoOpen"
  shows "gn_host (dm_gen s' g) = gn_host (dm_gen s g)"
proof -
  have fresh: "g \<noteq> rg_next (dm_reg s)"
    using ok known names_unfold(2) by (auto simp: daemon_ok_def)
  have opened: "gn_host (dm_gen (open_promotes events frames human_input bootstrap t h s) g) = gn_host (dm_gen s g)"
    for events frames human_input bootstrap t h
    by (simp add: open_promotes_def Let_def split: prod.split)
  have cancelled: "gn_host (dm_gen (own_cancel h pc s) g) = gn_host (dm_gen s g)" for h pc
    by (simp add: own_cancel_def split: prod.split)
  have expired: "gn_host (dm_gen (fold expired_one gone t) g) = gn_host (dm_gen t g)" for gone t
  proof (induction gone arbitrary: t)
    case (Cons e gone)
    then show ?case by (cases "(e, t)" rule: expired_one.cases) simp_all
  qed simp
  show ?thesis
    using step
  proof (cases rule: daemon_step.cases)
    case (claims i now name host)
    then show ?thesis using fresh
      by (cases "entry_of (dm_reg s) i") (auto simp: open_claim_def claim_def Let_def)
  next
    case (claims_auto now seed host)
    then show ?thesis using fresh
      by (auto simp: open_claim_auto_def claim_with_auto_id_def claim_candidates_result Let_def split: option.split)
  next
    case (sweeps now retention)
    then show ?thesis by (simp add: expired expire_retained_def split: prod.split)
  qed (simp_all add: opened cancelled connect_sees_cancel_def connect_result_def connect_ready_def
      connect_sends_def session_close_starts_def session_drops_def open_receives_def guard_drains_def
      open_records_def Let_def open_unrecords_def open_closes_def open_fails_def close_checks_def
      close_unhooks_def close_unrecords_def close_polls_def close_ends_lease_def close_finishes_def
      hook_wakes_def hook_unrecords_def hook_finishes_def close_named_def release_name_def
      close_if_generation_def split: conn_pc.split prod.split)
qed

lemma faultless_fits: "faultless s \<Longrightarrow> file_fits (\<lambda>g. gn_host (dm_gen s g)) (dm_book s)"
proof (induction rule: faultless.induct)
  case (clean s)
  then show ?case by (simp add: file_fits_def started_def)
next
  case (written s s')
  have ok: "daemon_ok s" by (rule reachable_ok [OF faultless_reachable [OF written.hyps(1)]])
  have "gn_host (dm_gen s' g) = gn_host (dm_gen s g)" if "bk_open (dm_book s') i = Some g" for i g
  proof (rule host_stays [OF quiet_stepD(1) [OF written.hyps(2)] ok])
    show "gn_open (dm_gen s g) \<noteq> NoOpen"
      using owners_after [OF quiet_stepD(2) [OF written.hyps(2)] that] owner_open [OF ok] by force
  qed
  then have "map_option (\<lambda>g. gn_host (dm_gen s' g)) (bk_open (dm_book s') i)
      = map_option (\<lambda>g. gn_host (dm_gen s g)) (bk_open (dm_book s') i)" for i
    by (cases "bk_open (dm_book s') i") auto
  with file_fits_book [OF written.IH quiet_stepD(2) [OF written.hyps(2)]] show ?case by (simp add: file_fits_def)
qed

text \<open>
  C7. As long as the reads and rewrites of the record file succeed, the records in the file are,
  whenever no task of the daemon is at work, exactly those of its live sessions: each
  registered session that has not ended has a record with its name and host, so a restart
  after a crash shows it; and no record of a session that ended, was closed, was reaped or
  was never registered is left in the file, whichever of a close and the end of the session
  came first.
\<close>

theorem records_are_live_sessions:
  assumes "faultless s" and "settled s" and "i \<noteq> []"
  shows "(\<exists>since. file_record (dm_book s) i = Some (host, since)) \<longleftrightarrow>
    (\<exists>le. entry_of (dm_reg s) i = Some (LiveEntry le) \<and> ce_lifecycle (cell_of (dm_reg s) le) = Live
       \<and> gn_host (dm_gen s (le_generation le)) = host)"
proof -
  have fits: "map_option fst (file_record (dm_book s) i) = map_option (\<lambda>g. gn_host (dm_gen s g)) (bk_open (dm_book s) i)"
    using faultless_fits [OF assms(1)] assms(3) by (simp add: file_fits_def)
  have "(\<exists>since. file_record (dm_book s) i = Some (host, since))
      \<longleftrightarrow> map_option fst (file_record (dm_book s) i) = Some host"
    by (auto simp: map_option_eq_Some)
  also have "\<dots> \<longleftrightarrow> (\<exists>g. bk_open (dm_book s) i = Some g \<and> gn_host (dm_gen s g) = host)"
    unfolding fits by (simp add: map_option_eq_Some)
  finally show ?thesis
    using owners_are_live_sessions [OF faultless_reachable [OF assms(1)] assms(2), of i] by auto
qed

subsection \<open>A run\<close>

definition empty_daemon :: daemon where
  "empty_daemon = \<lparr>dm_reg = new_registry sample_cells, dm_book = snd (seed_into reliable [sample_record] (new_book sample_sink)),
     dm_gen = (\<lambda>_. no_gen), dm_orphans = []\<rparr>"

lemma empty_book:
  "bk_open (dm_book empty_daemon) = (\<lambda>_. None)" "bk_pending (dm_book empty_daemon) = {}"
  "file_record (dm_book empty_daemon) = (\<lambda>_. None)"
proof -
  have seeds: "map fst (seeds [sample_record]) = [lit ''a'']"
    by (simp add: session_id_from_str_def sample_record_def lit_def)
  show "bk_open (dm_book empty_daemon) = (\<lambda>_. None)" "bk_pending (dm_book empty_daemon) = {}"
    by (simp_all add: empty_daemon_def seed_into_def purge_seeded_def new_book_def reliable_def)
  have old: "rmap (stored sample_sink) = [lit ''a'' \<mapsto> (lit ''h'', lit ''t'')]"
    by (simp add: rmap_def stored_def load_records_def sample_sink_def sample_record_def)
  show "file_record (dm_book empty_daemon) = (\<lambda>_. None)"
    by (simp add: file_record_def empty_daemon_def seed_into_def purge_seeded_def new_book_def reliable_def
        flush_stored seeds del: seeds.simps) (simp add: fun_eq_iff old)
qed

text \<open>The steps of one connect from its claim to its registration.\<close>

definition connect_run :: "nat \<Rightarrow> daemon \<Rightarrow> daemon" where
  "connect_run g s =
     open_promotes sample_log True True False \<lparr>tk_now = 0, tk_wall = 0, tk_frame = 0\<rparr> g
       (open_records reliable reliable [] g
         (set_gen g open_receives (connect_sends g (connect_ready g s))))"

lemma connect_run_quiet:
  assumes "gn_open (dm_gen s g) = OpenWaits"
    and "gn_conn (dm_gen s g) = ConnRuns" and "gn_cancel (dm_gen s g) = HandleHeld"
  shows "quiet_step\<^sup>*\<^sup>* s (connect_run g s)"
proof -
  let ?s1 = "connect_ready g s"
  let ?s2 = "connect_sends g ?s1"
  let ?s3 = "set_gen g open_receives ?s2"
  let ?s4 = "open_records reliable reliable [] g ?s3"
  have got: "gn_open (dm_gen ?s3 g) = OpenGot"
    using assms by (simp add: connect_sends_def connect_ready_def rx_open_def open_receives_def)
  have "daemon_step s ?s1"
    by (rule conn_ready) (use assms in simp_all)
  then have "quiet_step s ?s1"
    by (simp add: quiet_step_def book_without_faults_def connect_ready_def)
  moreover have "daemon_step ?s1 ?s2"
    by (rule conn_sends) (simp add: connect_ready_def)
  then have "quiet_step ?s1 ?s2"
    by (simp add: quiet_step_def book_without_faults_def connect_sends_def session_close_starts_def)
  moreover have "daemon_step ?s2 ?s3"
    by (rule receives) (use assms in \<open>simp add: connect_sends_def connect_ready_def rx_open_def\<close>)
  then have "quiet_step ?s2 ?s3"
    by (simp add: quiet_step_def book_without_faults_def)
  moreover have "quiet_step ?s3 ?s4"
    unfolding quiet_step_def
  proof
    show "daemon_step ?s3 ?s4" by (rule records) (rule got)
    have "dm_book ?s4 = book_opened reliable reliable (gn_id (dm_gen ?s3 g)) g (gn_host (dm_gen ?s3 g)) [] (dm_book ?s3)"
      by (simp add: open_records_def Let_def)
    with got show "book_without_faults ?s3 (dm_book ?s4)"
      unfolding book_without_faults_def by blast
  qed
  moreover have "daemon_step ?s4 (connect_run g s)"
    unfolding connect_run_def by (rule promotes) (simp add: open_records_def Let_def)
  then have "quiet_step ?s4 (connect_run g s)"
    by (simp add: quiet_step_def book_without_faults_def connect_run_def open_promotes_def Let_def split: prod.split)
  ultimately show ?thesis by (meson converse_rtranclp_into_rtranclp rtranclp.rtrancl_refl)
qed

lemma quiet_run: "quiet_step\<^sup>*\<^sup>* s t \<Longrightarrow> daemon_step\<^sup>*\<^sup>* s t"
  by (induction rule: rtranclp_induct) (auto intro: rtranclp.rtrancl_into_rtrancl dest: quiet_stepD)

lemmas connect_run_steps = quiet_run [OF connect_run_quiet]

lemma reachable_run: "daemon_step\<^sup>*\<^sup>* s t \<Longrightarrow> daemon_reachable s \<Longrightarrow> daemon_reachable t"
  by (induction rule: rtranclp_induct) (auto intro: daemon_reachable.steps)

lemma connect_run_gen:
  assumes "gn_open (dm_gen s g) = OpenWaits" and "gn_conn (dm_gen s g) = ConnRuns"
    and "place_of s g = Placeholder"
  shows "dm_gen (connect_run g s) h = (if h = g
      then (dm_gen s g)\<lparr>gn_open := OpenDone, gn_conn := ConnTaken, gn_hook := HookWaits,
             gn_cancel := HandleDropped\<rparr>
      else dm_gen s h)"
    and "life_of (connect_run g s) h = (if h = g then Live else life_of s h)"
    and "rg_sessions (dm_reg (connect_run g s)) =
      AList.update (gn_id (dm_gen s g)) (LiveEntry (new_live_entry g True
        \<lparr>tk_now = 0, tk_wall = 0, tk_frame = 0\<rparr> (dm_gen s g))) (rg_sessions (dm_reg s))"
    and "rg_cells (dm_reg (connect_run g s)) g =
      \<lparr>ce_lifecycle = Live, ce_control = new_control (gn_id (dm_gen s g)) g sample_log True,
       ce_cua_leases = 0, ce_bootstrapping = False\<rparr>"
  using assms
  by (simp_all add: put_entry_def connect_run_def open_promotes_def promote_eq new_live_entry_def Let_def
      open_records_def connect_sends_def connect_ready_def rx_open_def open_receives_def place_of_def
      life_of_def)

definition one_session :: daemon where
  "one_session = connect_run 1 (snd (open_claim 0 (lit ''a'') None (lit ''h'') empty_daemon))"

lemma empty_reachable: "daemon_reachable empty_daemon"
  by (rule daemon_reachable.starts)
    (simp add: started_def empty_book, simp add: empty_daemon_def new_registry_def names_unique_def
      generation_at_def entry_of_def)

lemma claimed:
  assumes "daemon_reachable s" and "entry_of (dm_reg s) i = None" and "i \<noteq> []"
    and "g = rg_next (dm_reg s)" and "s' = snd (open_claim now i name host s)"
  shows "daemon_reachable s'" and "dm_gen s' h = (if h = g then new_gen i name host else dm_gen s h)"
    and "place_of s' g = Placeholder" and "life_of s' h = life_of s h" and "rg_next (dm_reg s') = g + 1"
proof -
  show "daemon_reachable s'"
    unfolding assms(5) by (rule daemon_reachable.steps [OF assms(1) claims]) (rule assms(3))
qed (use assms(2,4,5) in \<open>simp_all add: open_claim_def claim_def Let_def place_of_def place_in_def
      new_gen_def life_of_def\<close>)

lemma one_session_facts:
  shows "daemon_reachable one_session"
    and "dm_gen one_session h = (if h = 1
      then (new_gen (lit ''a'') None (lit ''h''))\<lparr>gn_open := OpenDone, gn_conn := ConnTaken,
             gn_hook := HookWaits, gn_cancel := HandleDropped\<rparr>
      else no_gen)"
    and "life_of one_session h = (if h = 1 then Live else life_of empty_daemon h)"
    and "rg_sessions (dm_reg one_session) = [(lit ''a'', LiveEntry (new_live_entry 1 True
      \<lparr>tk_now = 0, tk_wall = 0, tk_frame = 0\<rparr> (new_gen (lit ''a'') None (lit ''h''))))]"
    and "rg_cells (dm_reg one_session) 1 =
      \<lparr>ce_lifecycle = Live, ce_control = new_control (lit ''a'') 1 sample_log True,
       ce_cua_leases = 0, ce_bootstrapping = False\<rparr>"
proof -
  have free: "entry_of (dm_reg empty_daemon) (lit ''a'') = None" "lit ''a'' \<noteq> []"
    "1 = rg_next (dm_reg empty_daemon)" "dm_gen empty_daemon = (\<lambda>_. no_gen)"
    by (simp_all add: empty_daemon_def new_registry_def entry_of_def lit_def)
  note c = claimed [OF empty_reachable free(1,2,3) refl, of 0 None "lit ''h''"]
  have g: "dm_gen (snd (open_claim 0 (lit ''a'') None (lit ''h'') empty_daemon)) 1 = new_gen (lit ''a'') None (lit ''h'')"
    by (simp add: c(2))
  have new: "gn_open (new_gen i n h) = OpenWaits" "gn_conn (new_gen i n h) = ConnRuns"
    "gn_cancel (new_gen i n h) = HandleHeld" "gn_id (new_gen i n h) = i" for i n h
    by (simp_all add: new_gen_def)
  show "daemon_reachable one_session"
    unfolding one_session_def by (rule reachable_run [OF connect_run_steps c(1)]) (simp_all add: g new del: One_nat_def)
  show "dm_gen one_session h = (if h = 1
      then (new_gen (lit ''a'') None (lit ''h''))\<lparr>gn_open := OpenDone, gn_conn := ConnTaken,
             gn_hook := HookWaits, gn_cancel := HandleDropped\<rparr>
      else no_gen)"
    unfolding one_session_def
    by (subst connect_run_gen(1)) (simp_all add: g new c(3) c(2) free(4) del: One_nat_def)
  show "life_of one_session h = (if h = 1 then Live else life_of empty_daemon h)"
    unfolding one_session_def by (subst connect_run_gen(2)) (simp_all add: g new c(3,4) del: One_nat_def)
  have claimed_list: "rg_sessions (dm_reg (snd (open_claim 0 (lit ''a'') None (lit ''h'') empty_daemon)))
      = [(lit ''a'', ConnectingEntry 0 1)]"
    by (simp add: open_claim_def claim_def Let_def free(1) put_entry_def)
      (simp add: empty_daemon_def new_registry_def)
  show "rg_sessions (dm_reg one_session) = [(lit ''a'', LiveEntry (new_live_entry 1 True
      \<lparr>tk_now = 0, tk_wall = 0, tk_frame = 0\<rparr> (new_gen (lit ''a'') None (lit ''h''))))]"
    unfolding one_session_def
    by (subst connect_run_gen(3)) (simp_all add: g new c(3) claimed_list del: One_nat_def)
  show "rg_cells (dm_reg one_session) 1 =
      \<lparr>ce_lifecycle = Live, ce_control = new_control (lit ''a'') 1 sample_log True,
       ce_cua_leases = 0, ce_bootstrapping = False\<rparr>"
    unfolding one_session_def
    by (subst connect_run_gen(4)) (simp_all add: g new c(3) del: One_nat_def)
qed

lemma done_registered:
  assumes "daemon_reachable s" and "gn_open (dm_gen s g) = OpenDone" and "gn_close (dm_gen s g) = NoClose"
  obtains le where "entry_of (dm_reg s) (gn_id (dm_gen s g)) = Some (LiveEntry le)" and "le_generation le = g"
proof -
  have "place_of s g = Registered"
    using daemon_okD [OF reachable_ok [OF assms(1)], of g] assms(2,3)
    by (simp add: gen_ok_def opening_ok_def)
  then show ?thesis
    using that by (auto simp: place_of_def place_in_def split: option.splits session_entry.splits if_splits)
qed

lemma one_session_settled: "settled one_session"
  by (simp add: settled_def settled_gen_def one_session_facts(2,3) new_gen_def no_gen_def)

lemma one_session_entry:
  obtains le where "entry_of (dm_reg one_session) (lit ''a'') = Some (LiveEntry le)" "le_generation le = 1"
  by (rule done_registered [OF one_session_facts(1), of 1])
    (simp_all add: one_session_facts(2) new_gen_def no_gen_def)

lemma session_has_one_holder_witness:
  "holders (dm_gen one_session 1) + gn_closes (dm_gen one_session 1) + gn_bare (dm_gen one_session 1) = 1"
  by (rule session_has_one_holder [OF one_session_facts(1), THEN conjunct1])
    (simp add: one_session_facts(2) session_exists_def)

lemma settled_sessions_registered_or_closed_witness:
  "\<exists>le. entry_of (dm_reg one_session) (lit ''a'') = Some (LiveEntry le) \<and> le_generation le = 1"
  using settled_sessions_registered_or_closed [OF one_session_facts(1) one_session_settled, of 1]
  by (simp add: one_session_facts(2) session_exists_def new_gen_def no_gen_def)

lemma one_session_faultless: "faultless one_session"
proof -
  let ?c = "snd (open_claim 0 (lit ''a'') None (lit ''h'') empty_daemon)"
  have ne: "lit ''a'' \<noteq> []" by (simp add: lit_def)
  have free: "entry_of (dm_reg empty_daemon) (lit ''a'') = None" "1 = rg_next (dm_reg empty_daemon)"
    by (simp_all add: empty_daemon_def new_registry_def entry_of_def)
  note c = claimed [OF empty_reachable free(1) ne free(2) refl, of 0 None "lit ''h''"]
  have "started empty_daemon"
    by (simp add: started_def empty_book, simp add: empty_daemon_def new_registry_def names_unique_def
        generation_at_def entry_of_def)
  then have "faultless empty_daemon" by (rule clean) (simp_all add: empty_book)
  moreover have "dm_book ?c = dm_book empty_daemon"
    using free by (simp add: open_claim_def claim_def Let_def)
  then have "quiet_step empty_daemon ?c"
    using claims [OF ne] by (simp add: quiet_step_def book_without_faults_def)
  moreover have "quiet_step\<^sup>*\<^sup>* ?c one_session"
    unfolding one_session_def by (rule connect_run_quiet) (simp_all add: c(2) new_gen_def del: One_nat_def)
  ultimately show ?thesis by (meson faultless.written faultless_run)
qed

lemma records_are_live_sessions_witness:
  "\<exists>since. file_record (dm_book one_session) (lit ''a'') = Some (lit ''h'', since)"
proof -
  obtain le where le: "entry_of (dm_reg one_session) (lit ''a'') = Some (LiveEntry le)" "le_generation le = 1"
    by (rule one_session_entry)
  have "ce_lifecycle (cell_of (dm_reg one_session) le) = Live"
    using one_session_facts(3) [of 1] le(2) by (simp add: life_of_def cell_of_def)
  moreover have "gn_host (dm_gen one_session (le_generation le)) = lit ''h''"
    by (simp add: le(2) one_session_facts(2) new_gen_def del: One_nat_def)
  moreover have "lit ''a'' \<noteq> []" by (simp add: lit_def)
  ultimately show ?thesis
    using records_are_live_sessions [OF one_session_faultless one_session_settled, of "lit ''a''" "lit ''h''"] le(1)
    by blast
qed

definition emptied :: daemon where
  "emptied = snd (close_named Disconnect (lit ''a'') one_session)"

lemma emptied_facts:
  shows "daemon_reachable emptied" and "entry_of (dm_reg emptied) (lit ''a'') = None"
    and "gn_open (dm_gen emptied 1) = OpenDone" and "gn_close (dm_gen emptied 1) = CloseTaken"
    and "gn_id (dm_gen emptied 1) = lit ''a''" and "1 < rg_next (dm_reg emptied)"
proof -
  obtain le where le: "entry_of (dm_reg one_session) (lit ''a'') = Some (LiveEntry le)" "le_generation le = 1"
    by (rule one_session_entry)
  show reach: "daemon_reachable emptied"
    unfolding emptied_def by (rule daemon_reachable.steps [OF one_session_facts(1) disconnects])
  show "entry_of (dm_reg emptied) (lit ''a'') = None" "gn_open (dm_gen emptied 1) = OpenDone"
    "gn_close (dm_gen emptied 1) = CloseTaken" "gn_id (dm_gen emptied 1) = lit ''a''"
    using le by (simp_all add: emptied_def close_named_def close_section_def one_session_facts(2)
        new_gen_def)
  then show "1 < rg_next (dm_reg emptied)"
    using names_unfold(2) [of emptied 1] reachable_ok [OF reach] by (force simp: daemon_ok_def not_less)
qed

definition two_attempts :: daemon where
  "two_attempts = connect_run (rg_next (dm_reg emptied))
     (snd (open_claim 1 (lit ''a'') None (lit ''h'') emptied))"

lemma two_attempts_facts:
  defines "h \<equiv> rg_next (dm_reg emptied)"
  shows "daemon_step\<^sup>*\<^sup>* one_session two_attempts" and "gn_open (dm_gen two_attempts h) = OpenDone"
    and "gn_id (dm_gen two_attempts h) = lit ''a''" and "dm_gen two_attempts 1 = dm_gen emptied 1"
    and "gn_close (dm_gen two_attempts h) = NoClose"
proof -
  have ne: "lit ''a'' \<noteq> []" by (simp add: lit_def)
  note c = claimed [OF emptied_facts(1,2) ne refl refl, of 1 None "lit ''h''"]
  have g: "dm_gen (snd (open_claim 1 (lit ''a'') None (lit ''h'') emptied)) h = new_gen (lit ''a'') None (lit ''h'')"
    by (simp add: c(2) h_def del: One_nat_def)
  have new: "gn_open (new_gen i n k) = OpenWaits" "gn_conn (new_gen i n k) = ConnRuns"
    "gn_cancel (new_gen i n k) = HandleHeld" "gn_id (new_gen i n k) = i" for i n k
    by (simp_all add: new_gen_def)
  have "daemon_step one_session emptied"
    unfolding emptied_def by (rule disconnects)
  moreover have "daemon_step emptied (snd (open_claim 1 (lit ''a'') None (lit ''h'') emptied))"
    by (rule daemon_step.claims [OF ne])
  moreover have "daemon_step\<^sup>*\<^sup>* (snd (open_claim 1 (lit ''a'') None (lit ''h'') emptied)) two_attempts"
    unfolding two_attempts_def h_def [symmetric]
    by (rule connect_run_steps) (simp_all add: g new del: One_nat_def)
  ultimately show "daemon_step\<^sup>*\<^sup>* one_session two_attempts"
    by (meson converse_rtranclp_into_rtranclp)
  have run: "dm_gen two_attempts k = (if k = h
      then (new_gen (lit ''a'') None (lit ''h''))\<lparr>gn_open := OpenDone, gn_conn := ConnTaken,
             gn_hook := HookWaits, gn_cancel := HandleDropped\<rparr>
      else dm_gen (snd (open_claim 1 (lit ''a'') None (lit ''h'') emptied)) k)" for k
    unfolding two_attempts_def h_def [symmetric]
    by (subst connect_run_gen(1)) (use g new c(3) in \<open>simp_all add: h_def del: One_nat_def\<close>)
  show "gn_open (dm_gen two_attempts h) = OpenDone" "gn_id (dm_gen two_attempts h) = lit ''a''"
    "gn_close (dm_gen two_attempts h) = NoClose"
    by (simp_all add: run new) (simp add: new_gen_def no_gen_def)
  show "dm_gen two_attempts 1 = dm_gen emptied 1"
    using emptied_facts(6) by (simp add: run c(2) h_def del: One_nat_def)
qed

lemma one_session_per_name_witness:
  "\<not> (gn_close (dm_gen two_attempts 1) = NoClose
   \<and> gn_close (dm_gen two_attempts (rg_next (dm_reg emptied))) = NoClose)"
  by (rule one_session_per_name [OF reachable_run [OF two_attempts_facts(1) one_session_facts(1)]])
    (use emptied_facts two_attempts_facts in \<open>simp_all del: One_nat_def\<close>)

lemma disconnect_cancels_connect_witness:
  "gn_open (dm_gen (snd (close_named Disconnect (lit ''a'')
     (snd (open_claim 0 (lit ''a'') None (lit ''h'') empty_daemon)))) 1) \<noteq> OpenDone"
proof -
  let ?s = "snd (open_claim 0 (lit ''a'') None (lit ''h'') empty_daemon)"
  have free: "entry_of (dm_reg empty_daemon) (lit ''a'') = None" "lit ''a'' \<noteq> []"
    "1 = rg_next (dm_reg empty_daemon)"
    by (simp_all add: empty_daemon_def new_registry_def entry_of_def lit_def)
  note c = claimed [OF empty_reachable free refl, of 0 None "lit ''h''"]
  have "entry_of (dm_reg ?s) (lit ''a'') = Some (ConnectingEntry 0 1)"
    using free by (simp add: open_claim_def claim_def Let_def)
  from disconnect_cancels_connect [OF c(1) this rtranclp.rtrancl_refl] show ?thesis by blast
qed

end
