(* ===== verification/Idle_Reaper.thy ===== *)
theory Idle_Reaper
  imports Registry_Promises
begin

text \<open>
  The two watchers of the daemon (\<open>rdpilot-daemon/src/lifecycle.rs\<close>) and its exit
  (\<open>server.rs\<close>: the end of \<open>run\<close>). Times are nanoseconds. The watcher of an empty
  registry is a function of what \<open>holds_active\<close> answers at each moment and of when a
  task that waits for a moment resumes; the number of its ticks is the fuel.
\<close>

subsection \<open>Configuration\<close>

record lifecycle_config =
  cf_idle_timeout :: nat
  cf_empty_grace :: nat
  cf_reap_interval :: nat
  cf_retention :: nat

definition from_secs :: "nat \<Rightarrow> nat" where "from_secs n = n * 1000000000"
definition from_millis :: "nat \<Rightarrow> nat" where "from_millis n = n * 1000000"

definition default_config :: lifecycle_config where
  "default_config = \<lparr>cf_idle_timeout = from_secs (30 * 60), cf_empty_grace = from_secs 30,
     cf_reap_interval = from_secs 15, cf_retention = from_secs (60 * 60)\<rparr>"

definition env_millis :: "(ustr \<Rightarrow> ustr option) \<Rightarrow> ustr \<Rightarrow> nat option" where
  "env_millis env var = Option.bind (env var) (parse_unsigned u64_max)"

definition override :: "nat option \<Rightarrow> (nat \<Rightarrow> lifecycle_config \<Rightarrow> lifecycle_config) \<Rightarrow> lifecycle_config \<Rightarrow> lifecycle_config" where
  "override ms f cfg = (case ms of Some n \<Rightarrow> f (from_millis n) cfg | None \<Rightarrow> cfg)"

definition config_from_env :: "(ustr \<Rightarrow> ustr option) \<Rightarrow> lifecycle_config" where
  "config_from_env env =
     override (env_millis env (lit ''RDPILOT_DAEMON_RETENTION_MS'')) (\<lambda>d c. c\<lparr>cf_retention := d\<rparr>)
     (override (env_millis env (lit ''RDPILOT_DAEMON_REAP_INTERVAL_MS'')) (\<lambda>d c. c\<lparr>cf_reap_interval := d\<rparr>)
     (override (env_millis env (lit ''RDPILOT_DAEMON_EMPTY_GRACE_MS'')) (\<lambda>d c. c\<lparr>cf_empty_grace := d\<rparr>)
     (override (env_millis env (lit ''RDPILOT_DAEMON_IDLE_TIMEOUT_MS'')) (\<lambda>d c. c\<lparr>cf_idle_timeout := d\<rparr>)
       default_config)))"

subsection \<open>The reaper\<close>

text \<open>
  One tick: the sweep, then the snapshot of the names to close. The closes follow one after
  the other, each awaited, so other tasks run in between (\<open>close_named IdleReap\<close>).
\<close>

definition stale_names :: "lifecycle_config \<Rightarrow> nat \<Rightarrow> registry \<Rightarrow> session_id list" where
  "stale_names cfg now rg =
     map fst (filter (\<lambda>(_, idle). cf_idle_timeout cfg \<le> idle) (live_idle_durations now rg))"

definition reaper_tick :: "lifecycle_config \<Rightarrow> nat \<Rightarrow> daemon \<Rightarrow> session_id list \<times> daemon" where
  "reaper_tick cfg now s =
     (let s' = expire_retained now (cf_retention cfg) s in (stale_names cfg now (dm_reg s'), s'))"

subsection \<open>The watcher of an empty registry\<close>

datatype watch_result =
    Fires nat \<comment> \<open>fired the shutdown signal, at that time\<close>
  | Watching nat nat \<comment> \<open>the time, and the deadline of the next tick\<close>

text \<open>
  The interval ticks at its deadline, or at once if the deadline has passed, and the next
  deadline is one period later (the library's default). \<open>wake x\<close> is when a task that
  waits for \<open>x\<close> runs again.
\<close>

definition watch_tick ::
  "(nat \<Rightarrow> nat) \<Rightarrow> (nat \<Rightarrow> bool) \<Rightarrow> lifecycle_config \<Rightarrow> nat \<Rightarrow> nat \<Rightarrow> watch_result" where
  "watch_tick wake active cfg now deadline =
     (let t = wake (max now deadline); u = wake (t + cf_empty_grace cfg)
      in if active t then Watching t (deadline + cf_reap_interval cfg)
         else if active u then Watching u (deadline + cf_reap_interval cfg)
         else Fires u)"

fun empty_watcher ::
  "nat \<Rightarrow> (nat \<Rightarrow> nat) \<Rightarrow> (nat \<Rightarrow> bool) \<Rightarrow> lifecycle_config \<Rightarrow> nat \<Rightarrow> nat \<Rightarrow> watch_result" where
  "empty_watcher 0 wake active cfg now deadline = Watching now deadline"
| "empty_watcher (Suc n) wake active cfg now deadline =
     (case watch_tick wake active cfg now deadline of
        Fires u \<Rightarrow> Fires u
      | Watching now' deadline' \<Rightarrow> empty_watcher n wake active cfg now' deadline')"

subsection \<open>The exit\<close>

definition end_lease_for :: "end_reason \<Rightarrow> tick \<Rightarrow> nat \<Rightarrow> daemon \<Rightarrow> daemon" where
  "end_lease_for reason t g =
     set_cell g (\<lambda>c. c\<lparr>ce_control := snd (end_human reason t (ce_control c))\<rparr>)"

definition end_all_leases :: "end_reason \<Rightarrow> tick \<Rightarrow> daemon \<Rightarrow> daemon" where
  "end_all_leases reason t s = fold (end_lease_for reason t) (controls (dm_reg s)) s"

text \<open>The end of \<open>run\<close>, up to the recordings: the sweep with no retention, then the leases.\<close>

definition daemon_exit :: "nat \<Rightarrow> tick \<Rightarrow> daemon \<Rightarrow> daemon" where
  "daemon_exit now t s = end_all_leases EndDaemonStopped t (expire_retained now 0 s)"

subsection \<open>The watcher fires, and only on an empty registry\<close>

lemma tick_time:
  assumes "\<And>x. x \<le> wake x"
  shows "watch_tick wake active cfg now deadline = Watching now' deadline' \<Longrightarrow>
    deadline' = deadline + cf_reap_interval cfg \<and> max now deadline \<le> now' \<and> active now'"
    and "watch_tick wake active cfg now deadline = Fires u \<Longrightarrow>
      \<exists>t. max now deadline \<le> t \<and> t + cf_empty_grace cfg \<le> u \<and> \<not> active t \<and> \<not> active u"
proof -
  let ?t = "wake (max now deadline)"
  let ?u = "wake (?t + cf_empty_grace cfg)"
  have t: "max now deadline \<le> ?t" and u: "?t + cf_empty_grace cfg \<le> ?u"
    by (rule assms)+
  {
    assume "watch_tick wake active cfg now deadline = Watching now' deadline'"
    then show "deadline' = deadline + cf_reap_interval cfg \<and> max now deadline \<le> now' \<and> active now'"
      using t u by (auto simp: watch_tick_def Let_def split: if_splits)
  }
  assume "watch_tick wake active cfg now deadline = Fires u"
  then show "\<exists>t. max now deadline \<le> t \<and> t + cf_empty_grace cfg \<le> u \<and> \<not> active t \<and> \<not> active u"
    using t u by (intro exI [of _ ?t]) (auto simp: watch_tick_def Let_def split: if_splits)
qed

text \<open>
  The daemon shuts itself down only after it was seen without an active session twice,
  at least the grace period apart: a session that opens within the grace keeps it running.
\<close>

theorem watcher_waits_for_grace:
  assumes "\<And>x. x \<le> wake x" and "empty_watcher n wake active cfg now deadline = Fires u"
  shows "\<exists>t. t + cf_empty_grace cfg \<le> u \<and> \<not> active t \<and> \<not> active u"
  using assms(2)
proof (induction n arbitrary: now deadline)
  case (Suc n)
  show ?case
  proof (cases "watch_tick wake active cfg now deadline")
    case (Fires v)
    then show ?thesis using Suc.prems tick_time(2) [OF assms(1) Fires] by auto
  next
    case (Watching now' deadline')
    then show ?thesis using Suc by simp
  qed
qed simp

text \<open>Once nothing is active any more, the next tick fires.\<close>

lemma watcher_fires_from:
  assumes wake: "\<And>x. x \<le> wake x" "\<And>x. wake x \<le> x + lag"
    and quiet: "\<And>t. T \<le> t \<Longrightarrow> \<not> active t"
  shows "deadline \<le> now + cf_reap_interval cfg \<Longrightarrow> now \<le> T \<Longrightarrow>
    T \<le> deadline + n * cf_reap_interval cfg \<Longrightarrow>
    \<exists>u \<le> T + cf_reap_interval cfg + cf_empty_grace cfg + 2 * lag.
      empty_watcher (Suc n) wake active cfg now deadline = Fires u"
proof (induction n arbitrary: now deadline)
  case 0
  let ?t = "wake (max now deadline)"
  let ?u = "wake (?t + cf_empty_grace cfg)"
  have t: "max now deadline \<le> ?t" "?t \<le> max now deadline + lag" by (rule wake)+
  have u: "?t + cf_empty_grace cfg \<le> ?u" "?u \<le> ?t + cf_empty_grace cfg + lag" by (rule wake)+
  have "\<not> active ?t" "\<not> active ?u" using quiet t(1) u(1) 0 by simp_all
  then have "empty_watcher (Suc 0) wake active cfg now deadline = Fires ?u"
    by (simp add: watch_tick_def Let_def)
  moreover have "?u \<le> T + cf_reap_interval cfg + cf_empty_grace cfg + 2 * lag"
    using t(2) u(2) 0 by simp
  ultimately show ?case by blast
next
  case (Suc n)
  show ?case
  proof (cases "watch_tick wake active cfg now deadline")
    case (Watching now' deadline')
    have step: "deadline' = deadline + cf_reap_interval cfg" "max now deadline \<le> now'" "active now'"
      using tick_time(1) [OF wake(1) Watching] by simp_all
    have "now' < T" using step(3) quiet not_le by blast
    then show ?thesis
      using Suc.IH [of deadline' now'] Suc.prems step Watching by simp
  next
    case (Fires u)
    let ?t = "wake (max now deadline)"
    have "?t \<le> max now deadline + lag" "u \<le> ?t + cf_empty_grace cfg + lag"
      using wake(2) Fires by (auto simp: watch_tick_def Let_def split: if_splits)
    then have "u \<le> T + cf_reap_interval cfg + cf_empty_grace cfg + 2 * lag"
      using Suc.prems by simp
    then show ?thesis using Fires by auto
  qed
qed

text \<open>
  A daemon without work ends: once no session is active from some moment on, the watcher
  fires within one poll interval and one grace period (and the delay of two wake-ups),
  after a number of ticks that the moment and the interval bound.
\<close>

theorem watcher_fires:
  assumes "\<And>x. x \<le> wake x" and "\<And>x. wake x \<le> x + lag"
    and "\<And>t. T \<le> t \<Longrightarrow> \<not> active t" and "0 < cf_reap_interval cfg"
  shows "\<exists>u \<le> T + cf_reap_interval cfg + cf_empty_grace cfg + 2 * lag.
    empty_watcher (T div cf_reap_interval cfg + 2) wake active cfg 0 0 = Fires u"
proof -
  have "T \<le> 0 + (T div cf_reap_interval cfg + 1) * cf_reap_interval cfg"
    using dividend_less_div_times [OF assms(4), of T] by simp
  from watcher_fires_from [where now = 0, OF assms(1-3) _ _ this] show ?thesis
    by (simp only: add_2_eq_Suc' add_Suc_right One_nat_def add_0_right le0 add_0)
qed

subsection \<open>The reaper\<close>

text \<open>
  Every session the reaper puts on its list is live at that moment, idle for the
  timeout, without a Cua stream and without a human in control, and nothing that is ended
  or orphaned and due is left in the registry.
\<close>

theorem reaper_lists_idle_only:
  assumes "daemon_reachable s" and "(stale, s') = reaper_tick cfg now s" and "i \<in> set stale"
  shows "\<exists>le. entry_of (dm_reg s') i = Some (LiveEntry le)
    \<and> ce_lifecycle (cell_of (dm_reg s') le) = Live
    \<and> ce_cua_leases (cell_of (dm_reg s') le) = 0
    \<and> cs_lease (ce_control (cell_of (dm_reg s') le)) = None
    \<and> cf_idle_timeout cfg \<le> now - le_last_activity le"
proof -
  have s': "s' = expire_retained now (cf_retention cfg) s"
    and stale: "stale = stale_names cfg now (dm_reg s')"
    using assms(2) by (simp_all add: reaper_tick_def Let_def)
  have "daemon_ok s'" unfolding s' by (rule sweeps_ok [OF reachable_ok [OF assms(1)]])
  then have unique: "names_unique (dm_reg s')"
    by (simp add: daemon_ok_def names_ok_def registry_ok_def)
  obtain idle where idle: "(i, idle) \<in> set (live_idle_durations now (dm_reg s'))" "cf_idle_timeout cfg \<le> idle"
    using assms(3) by (auto simp: stale stale_names_def)
  from idle_sessions_are_unused [OF idle(1) unique] idle(2) show ?thesis
    by (auto simp: live_session_def refuse_ended_def entry_end_cause_def split: lifecycle.splits)
qed

lemma watcher_waits_for_grace_witness:
  "\<exists>t. t + from_secs 30 \<le> from_secs 30 \<and> \<not> (\<lambda>_. False) t \<and> \<not> (\<lambda>_. False) (from_secs 30)"
proof -
  have "empty_watcher 1 (\<lambda>x. x) (\<lambda>_. False) default_config 0 0 = Fires (from_secs 30)"
    by (simp add: watch_tick_def default_config_def)
  from watcher_waits_for_grace [OF order_refl this] show ?thesis
    by (simp add: default_config_def)
qed

lemma watcher_fires_witness:
  "\<exists>u \<le> 5 + from_secs 15 + from_secs 30 + 2 * 1.
     empty_watcher (5 div from_secs 15 + 2) Suc (\<lambda>t. t < 5) default_config 0 0 = Fires u"
  using watcher_fires [of Suc 1 5 "\<lambda>t. t < 5" default_config]
  by (simp add: default_config_def from_secs_def)

lemma one_session_idle:
  "live_idle_durations (from_secs 1800) (dm_reg one_session) = [(lit ''a'', from_secs 1800)]"
  using one_session_facts(5)
  by (simp add: live_idle_durations_def one_session_facts(4) map_filter_def entry_end_cause_def
      cell_of_def human_active_def new_control_def new_live_entry_def Let_def elapsed_def)

lemma sweep_nothing:
  assumes "\<forall>(i, e) \<in> set (rg_sessions rg). stamp_ended now rg e = e \<and> \<not> is_due now retention rg e"
  shows "expire_section now retention rg = ([], rg)"
proof -
  have seen: "map (\<lambda>(i, e). (i, stamp_ended now rg e)) (rg_sessions rg) = rg_sessions rg"
    by (rule map_idI) (use assms in auto)
  have due: "filter (\<lambda>(i, e). is_due now retention rg e) (rg_sessions rg) = []"
    using assms by (auto simp: filter_empty_conv)
  show ?thesis unfolding expire_section_def Let_def seen due by simp
qed

lemma one_session_tick: "expire_retained now retention one_session = one_session"
proof -
  have "entry_end_cause (dm_reg one_session) (LiveEntry (new_live_entry 1 True t d)) = None" for t d
    using one_session_facts(5) by (simp add: entry_end_cause_def cell_of_def new_live_entry_def Let_def)
  then have "expire_section now retention (dm_reg one_session) = ([], dm_reg one_session)"
    by (intro sweep_nothing) (simp add: one_session_facts(4) stamp_ended_def is_due_def retained_since_def
        del: One_nat_def)
  then show ?thesis by (simp add: expire_retained_def)
qed

lemma reaper_lists_idle_only_witness:
  "\<exists>le. entry_of (dm_reg one_session) (lit ''a'') = Some (LiveEntry le)
     \<and> cf_idle_timeout default_config \<le> from_secs 1800 - le_last_activity le"
proof -
  have tick: "([lit ''a''], one_session) = reaper_tick default_config (from_secs 1800) one_session"
    by (simp add: reaper_tick_def one_session_tick stale_names_def one_session_idle default_config_def)
  show ?thesis
    using reaper_lists_idle_only [OF one_session_facts(1) tick, of "lit ''a''"] by auto
qed

subsection \<open>The exit\<close>

lemma end_lease_cells:
  "rg_cells (dm_reg (end_lease_for reason t g s)) h =
    (if h = g then (rg_cells (dm_reg s) g)\<lparr>ce_control := snd (end_human reason t (ce_control (rg_cells (dm_reg s) g)))\<rparr>
     else rg_cells (dm_reg s) h)"
  "rg_sessions (dm_reg (end_lease_for reason t g s)) = rg_sessions (dm_reg s)"
  by (simp_all add: end_lease_for_def)

lemma end_human_free: "cs_lease (snd (end_human reason t c)) = None"
  by (cases "cs_lease c")
    (simp_all add: end_human_def take_human_def end_lease_def advance_def new_transition_def
      remember_def touch_human_def record_control_def Let_def split: prod.split)

lemma end_leases_free:
  "g \<in> set gs \<or> cs_lease (ce_control (rg_cells (dm_reg s) g)) = None \<Longrightarrow>
    cs_lease (ce_control (rg_cells (dm_reg (fold (end_lease_for reason t) gs s)) g)) = None"
proof (induction gs arbitrary: s)
  case (Cons h gs)
  then show ?case
    by (cases "h = g") (auto simp: end_lease_cells end_human_free intro!: Cons.IH)
qed simp

lemma end_leases_sessions:
  "rg_sessions (dm_reg (fold (end_lease_for reason t) gs s)) = rg_sessions (dm_reg s)"
  by (induction gs arbitrary: s) (simp_all add: end_lease_cells)

lemma end_leases_life:
  "life_of (fold (end_lease_for reason t) gs s) h = life_of s h"
  by (induction gs arbitrary: s) (simp_all add: life_of_def end_lease_cells)

lemma live_in_controls:
  "entry_of rg i = Some (LiveEntry le) \<Longrightarrow> le_generation le \<in> set (controls rg)"
  by (force simp: controls_def entry_of_def map_filter_def dest: map_of_SomeD)

text \<open>
  When the daemon exits, every session that is still in its registry is connecting or
  live (orphans and ended sessions are removed, the latter to be closed), and no human
  holds a lease on any of them.
\<close>

theorem exit_leaves_no_lease:
  assumes "daemon_reachable s" and "s' = daemon_exit now t s" and "entry_of (dm_reg s') i = Some e"
  shows "case e of
      ConnectingEntry _ _ \<Rightarrow> True
    | OrphanedEntry _ _ _ \<Rightarrow> False
    | LiveEntry le \<Rightarrow> ce_lifecycle (cell_of (dm_reg s') le) = Live
        \<and> cs_lease (ce_control (cell_of (dm_reg s') le)) = None"
proof -
  let ?x = "expire_retained now 0 s"
  have unique: "names_unique (dm_reg s)"
    using reachable_ok [OF assms(1)] by (simp add: daemon_ok_def names_ok_def registry_ok_def)
  have reg: "dm_reg ?x = snd (expire_section now 0 (dm_reg s))"
    by (cases "expire_section now 0 (dm_reg s)") (simp add: expire_retained_def expired_fold)
  have s': "s' = fold (end_lease_for EndDaemonStopped t) (controls (dm_reg ?x)) ?x"
    by (simp add: assms(2) daemon_exit_def end_all_leases_def)
  have entry: "entry_of (dm_reg s') i = entry_of (dm_reg ?x) i"
    by (simp add: s' entry_of_def end_leases_sessions)
  then have at: "entry_of (dm_reg ?x) i = Some e" using assms(3) by simp
  then obtain e0 where e0: "entry_of (dm_reg s) i = Some e0" "e = stamp_ended now (dm_reg s) e0"
    "\<not> is_due now 0 (dm_reg s) e"
    using expire_entry [OF unique, of now 0 i] reg by (auto split: option.splits if_splits)
  show ?thesis
  proof (cases e)
    case (LiveEntry le)
    have "entry_end_cause (dm_reg s) e = None"
    proof (rule ccontr)
      assume ended: "entry_end_cause (dm_reg s) e \<noteq> None"
      then have "le_ended_seen le \<noteq> None"
        using e0(2) LiveEntry
        by (cases e0) (auto simp: stamp_ended_def entry_end_cause_def cell_of_def split: if_splits)
      then show False using e0(3) ended LiveEntry by (auto simp: is_due_def retained_since_def)
    qed
    then have "life_of s (le_generation le) = Live"
      by (simp add: LiveEntry entry_end_cause_def cell_of_def life_of_def split: lifecycle.splits)
    then have "life_of s' (le_generation le) = Live"
      unfolding s' end_leases_life by (simp add: life_of_def reg)
    moreover have "cs_lease (ce_control (rg_cells (dm_reg s') (le_generation le))) = None"
      unfolding s' using live_in_controls [of "dm_reg ?x" i le] at LiveEntry
      by (intro end_leases_free) simp
    ultimately show ?thesis by (simp add: LiveEntry cell_of_def life_of_def)
  qed (use e0(3) in \<open>simp_all add: is_due_def retained_since_def\<close>)
qed

subsection \<open>Two limits\<close>

text \<open>
  The reaper closes by name what its snapshot listed. Between the snapshot and the close the
  name can be closed and connected again; a connect that is still in flight is left alone,
  but a session that is registered by then is closed although it was never idle: here the
  snapshot lists generation 1, and the close removes generation 2.
\<close>

theorem reaper_can_close_a_fresh_session:
  "lit ''a'' \<in> set (stale_names default_config (from_secs 1800) (dm_reg one_session))
   \<and> daemon_step\<^sup>*\<^sup>* one_session two_attempts
   \<and> (\<exists>le. fst (close_named IdleReap (lit ''a'') two_attempts) = RemovedLive le
        \<and> le_generation le = rg_next (dm_reg emptied) \<and> le_generation le \<noteq> 1)"
proof -
  let ?h = "rg_next (dm_reg emptied)"
  have reach: "daemon_reachable two_attempts"
    by (rule reachable_run [OF two_attempts_facts(1) one_session_facts(1)])
  obtain le where le: "entry_of (dm_reg two_attempts) (lit ''a'') = Some (LiveEntry le)"
    "le_generation le = ?h"
    using done_registered [OF reach two_attempts_facts(2,5)] two_attempts_facts(3) by metis
  then have "fst (close_named IdleReap (lit ''a'') two_attempts) = RemovedLive le"
    by (simp add: close_named_def close_section_def)
  moreover have "lit ''a'' \<in> set (stale_names default_config (from_secs 1800) (dm_reg one_session))"
    by (simp add: stale_names_def one_session_idle default_config_def)
  ultimately show ?thesis
    using le(2) emptied_facts(6) two_attempts_facts(1) by auto
qed

lemma exit_leaves_no_lease_witness:
  "cs_lease (ce_control (rg_cells (dm_reg (daemon_exit 0 \<lparr>tk_now = 0, tk_wall = 0, tk_frame = 0\<rparr> one_session)) 1)) = None"
proof -
  let ?s = "daemon_exit 0 \<lparr>tk_now = 0, tk_wall = 0, tk_frame = 0\<rparr> one_session"
  obtain le where le: "entry_of (dm_reg one_session) (lit ''a'') = Some (LiveEntry le)" "le_generation le = 1"
    by (rule one_session_entry)
  then have "entry_of (dm_reg ?s) (lit ''a'') = Some (LiveEntry le)"
    by (simp add: daemon_exit_def one_session_tick end_all_leases_def entry_of_def end_leases_sessions)
  from exit_leaves_no_lease [OF one_session_facts(1) refl this] le(2) show ?thesis
    by (simp add: cell_of_def)
qed

text \<open>
  A malformed override falls back to the default; a poll interval of zero does not. The
  timer library panics on a period of zero, which ends both watchers.
\<close>

theorem zero_interval_is_accepted:
  "cf_reap_interval (config_from_env (\<lambda>v.
      if v = lit ''RDPILOT_DAEMON_REAP_INTERVAL_MS'' then Some (dec 0) else None)) = 0
   \<and> cf_reap_interval (config_from_env (\<lambda>v.
      if v = lit ''RDPILOT_DAEMON_REAP_INTERVAL_MS'' then Some (lit ''x'') else None)) = from_secs 15"
  by (simp add: config_from_env_def override_def env_millis_def from_millis_def default_config_def u64_max_def)
    (simp add: lit_def parse_unsigned_def ch_def is_ascii_digit_def)

end
