(* ===== verification/Unix_Path.thy ===== *)
theory Unix_Path
  imports Rd_Text "HOL-Library.Sublist"
begin

text \<open>
  Paths as Rust's \<open>std::path\<close> has them on Unix: \<open>Path\<close> compares, splits and joins by its
  components, so a path is the list of them. \<open>components\<close> reads a text; \<open>path_join\<close>,
  \<open>path_parent\<close>, \<open>file_name\<close> and \<open>starts_with_path\<close> are the methods of the same names. A
  name that comes from the file system need not be UTF-8.
\<close>

datatype os_name = Utf8 ustr | NotUtf8 "nat list"

datatype path_component = RootDir | CurDir | ParentDir | Normal os_name

type_synonym fs_path = "path_component list"

fun split_on :: "uchar \<Rightarrow> ustr \<Rightarrow> ustr list" where
  "split_on c [] = [[]]"
| "split_on c (x # s) =
     (if x = c then [] # split_on c s
      else case split_on c s of [] \<Rightarrow> [[x]] | p # ps \<Rightarrow> (x # p) # ps)"

text \<open>Empty parts and \<open>.\<close> are skipped, except a \<open>.\<close> at the start of a relative path.\<close>

definition component_of :: "ustr \<Rightarrow> path_component option" where
  "component_of s =
     (if s = [] \<or> s = lit ''.'' then None
      else Some (if s = lit ''..'' then ParentDir else Normal (Utf8 s)))"

definition components :: "ustr \<Rightarrow> fs_path" where
  "components s =
     (let parts = split_on (ch CHR ''/'') s
      in if s \<noteq> [] \<and> hd s = ch CHR ''/'' then RootDir # List.map_filter component_of parts
         else if hd parts = lit ''.'' then CurDir # List.map_filter component_of (tl parts)
         else List.map_filter component_of parts)"

fun path_join :: "fs_path \<Rightarrow> fs_path \<Rightarrow> fs_path" where
  "path_join p (RootDir # q) = RootDir # q"
| "path_join p (CurDir # q) = (if p = [] then CurDir # q else p @ q)"
| "path_join p q = p @ q"

definition path_parent :: "fs_path \<Rightarrow> fs_path option" where
  "path_parent p = (if p = [] \<or> last p = RootDir then None else Some (butlast p))"

definition file_name :: "fs_path \<Rightarrow> os_name option" where
  "file_name p = (if p = [] then None else case last p of Normal n \<Rightarrow> Some n | _ \<Rightarrow> None)"

definition starts_with_path :: "fs_path \<Rightarrow> fs_path \<Rightarrow> bool" where
  "starts_with_path p base \<longleftrightarrow> prefix base p"

text \<open>What \<open>canonicalize\<close> returns: absolute, and without \<open>.\<close> and \<open>..\<close>.\<close>

definition is_name :: "path_component \<Rightarrow> bool" where
  "is_name c \<longleftrightarrow> (case c of Normal _ \<Rightarrow> True | _ \<Rightarrow> False)"

definition canonical_path :: "fs_path \<Rightarrow> bool" where
  "canonical_path p \<longleftrightarrow> p \<noteq> [] \<and> hd p = RootDir \<and> list_all is_name (tl p)"

lemma is_name_simps [simp]:
  "is_name (Normal n)" "\<not> is_name RootDir" "\<not> is_name CurDir" "\<not> is_name ParentDir"
  by (simp_all add: is_name_def)

lemma file_name_Some: "file_name p = Some n \<longleftrightarrow> (\<exists>q. p = q @ [Normal n])"
  by (cases p rule: rev_exhaust) (auto simp: file_name_def split: path_component.splits)

lemma parent_snoc [simp]: "c \<noteq> RootDir \<Longrightarrow> path_parent (q @ [c]) = Some q"
  by (simp add: path_parent_def)

lemma join_Normal [simp]: "path_join p [Normal n] = p @ [Normal n]"
  by simp

lemma canonical_snoc [simp]: "canonical_path p \<Longrightarrow> canonical_path (p @ [Normal n])"
  by (auto simp: canonical_path_def)

lemma split_on_nonempty [simp]: "split_on c s \<noteq> []"
  by (induction s) (auto split: list.splits)

lemma split_on_parts: "p \<in> set (split_on c s) \<Longrightarrow> c \<notin> set p"
  by (induction s arbitrary: p) (fastforce split: list.splits if_splits)+

lemma split_on_free: "c \<notin> set s \<Longrightarrow> split_on c s = [s]"
  by (induction s) auto

lemma components_plain:
  "ch CHR ''/'' \<notin> set s \<Longrightarrow> s \<notin> {[], lit ''.'', lit ''..''} \<Longrightarrow> components s = [Normal (Utf8 s)]"
  by (cases s) (auto simp: components_def split_on_free component_of_def List.map_filter_def Let_def)

end
