(* ===== verification/Drive_Backend.thy ===== *)
theory Drive_Backend
  imports Unix_Path "HOL-Library.List_Lexorder"
begin

text \<open>
  The drive that a session redirects into the guest
  (\<open>rdpilot/src/rdpdr_backend.rs\<close>, with the stages of \<open>bootstrap.rs\<close>): the state of
  \<open>RdpilotDriveBackend\<close> and one definition per handler, composed by
  \<open>handle_drive_io_request\<close>.

  The operating system is the record \<open>os\<close> over a type \<open>'w\<close> of worlds: each field is the
  call of \<open>std::fs\<close> with its result, and the world after it where it writes. The PDU types
  are those of the library, with the fields that the handlers read or fill; every handler
  answers with exactly one message, and never with an error of its own.
\<close>

subsection \<open>The operating system\<close>

type_synonym bytes = "u8 list"

record 'w os =
  os_canonicalize :: "fs_path \<Rightarrow> 'w \<Rightarrow> fs_path option"
  os_is_dir :: "fs_path \<Rightarrow> 'w \<Rightarrow> bool"
  os_is_file :: "fs_path \<Rightarrow> 'w \<Rightarrow> bool"
  os_len :: "fs_path \<Rightarrow> 'w \<Rightarrow> nat option" \<comment> \<open>\<open>metadata\<close> and its length\<close>
  os_contents :: "fs_path \<Rightarrow> 'w \<Rightarrow> bytes option" \<comment> \<open>what a read of the open file sees\<close>
  os_seeks :: "nat \<Rightarrow> bool" \<comment> \<open>whether a seek to this offset is accepted\<close>
  os_read_dir :: "fs_path \<Rightarrow> 'w \<Rightarrow> (fs_path \<times> os_name) list option" \<comment> \<open>without failed entries\<close>
  os_create :: "fs_path \<Rightarrow> 'w \<Rightarrow> bool \<times> 'w"
  os_write :: "fs_path \<Rightarrow> nat \<Rightarrow> bytes \<Rightarrow> 'w \<Rightarrow> bool \<times> 'w" \<comment> \<open>open, seek, \<open>write_all\<close>\<close>
  os_rename :: "fs_path \<Rightarrow> fs_path \<Rightarrow> 'w \<Rightarrow> bool \<times> 'w"

subsection \<open>The messages\<close>

record io_request =
  io_device :: u32
  io_file :: u32
  io_completion :: u32

datatype nt_status = StatusSuccess | StatusUnsuccessful | StatusNoMoreFiles | StatusAccessDenied
  | StatusNoSuchFile | StatusNotSupported

datatype create_disposition = FileSupersede | FileOpen | FileCreate | FileOpenIf | FileOverwrite
  | FileOverwriteIf | DispositionBits u32

datatype create_information = InfoSuperseded | InfoOpened

datatype file_attributes = AttributeDirectory | AttributeNormal

datatype info_level = BasicLevel | StandardLevel | AttributeTagLevel | BothDirectoryLevel
  | FullDirectoryLevel | DirectoryLevel | NamesLevel | OtherLevel u32

datatype file_information =
    BasicInfo file_attributes \<comment> \<open>all times zero\<close>
  | StandardInfo int int nat bool bool \<comment> \<open>allocation, end of file, links, delete pending, directory\<close>
  | AttributeTagInfo file_attributes nat

datatype directory_information =
    BothDirectoryInfo int file_attributes ustr
  | FullDirectoryInfo int file_attributes ustr
  | DirectoryInfo int file_attributes ustr
  | NamesInfo ustr

datatype volume_level = VolumeLevel | SizeLevel | AttributeLevel | FullSizeLevel | DeviceLevel
  | OtherVolumeLevel u32

datatype volume_information =
    VolumeInfo nat u32 bool ustr
  | SizeInfo int int u32 u32
  | AttributeInfo u32 ustr \<comment> \<open>\<open>FILE_CASE_SENSITIVE_SEARCH\<close>, longest name, its name\<close>
  | FullSizeInfo int int int u32 u32
  | DeviceInfo u32 \<comment> \<open>a remote device\<close>

datatype set_information = SetBasic | SetEndOfFile int | SetDisposition | SetRename | SetAllocation

datatype drive_request =
    CreateRequest io_request create_disposition ustr
  | CloseRequest io_request
  | ReadRequest io_request u32 u64 \<comment> \<open>length, offset\<close>
  | WriteRequest io_request u64 bytes
  | QueryDirectoryRequest io_request info_level bool ustr \<comment> \<open>whether \<open>initial_query\<close> is set\<close>
  | QueryInformationRequest io_request info_level
  | QueryVolumeRequest io_request volume_level
  | SetInformationRequest io_request set_information
  | NotifyChangeRequest io_request
  | ControlRequest io_request
  | LockControlRequest io_request

datatype drive_reply =
    CreateReply io_request nt_status u32 create_information
  | CloseReply io_request nt_status
  | ReadReply io_request nt_status bytes
  | WriteReply io_request nt_status u32
  | DirectoryReply io_request nt_status "directory_information option"
  | InformationReply io_request nt_status "file_information option"
  | VolumeReply io_request nt_status "volume_information option"
  | SetInformationReply io_request nt_status

subsection \<open>The state\<close>

datatype bootstrap_stage = RdpdrFileAccess | RdpdrFileRead | LaunchInputAttempted
  | LaunchInputSent | DvcChannelCreated | DvcChannelOpen | VersionReceived | PingSent | PongReceived

fun bootstrap_stage_str :: "bootstrap_stage \<Rightarrow> ustr" where
  "bootstrap_stage_str RdpdrFileAccess = lit ''rdpdr_file_access''"
| "bootstrap_stage_str RdpdrFileRead = lit ''rdpdr_file_read''"
| "bootstrap_stage_str LaunchInputAttempted = lit ''launch_input_attempted''"
| "bootstrap_stage_str LaunchInputSent = lit ''launch_input_sent''"
| "bootstrap_stage_str DvcChannelCreated = lit ''dvc_channel_created''"
| "bootstrap_stage_str DvcChannelOpen = lit ''dvc_channel_open''"
| "bootstrap_stage_str VersionReceived = lit ''version_received''"
| "bootstrap_stage_str PingSent = lit ''ping_sent''"
| "bootstrap_stage_str PongReceived = lit ''pong_received''"

definition record_stage :: "bootstrap_stage \<Rightarrow> bootstrap_stage list \<Rightarrow> bootstrap_stage list" where
  "record_stage st stages = (if st \<in> set stages then stages else stages @ [st])"

datatype open_entry =
    RootEntry
  | BundleRoot
  | FileEntry fs_path
  | WriteFile (staging_of: fs_path) (dest_of: fs_path) (expected_len: "nat option")

type_synonym listed = "fs_path \<times> ustr \<times> bool"

record drive =
  dr_bridge_path :: fs_path
  dr_bridge_name :: ustr
  dr_share_root :: "fs_path option"
  dr_open :: "u32 \<Rightarrow> open_entry option"
  dr_listings :: "u32 \<Rightarrow> listed list option"
  dr_next_file :: u32
  dr_next_staging :: u64
  dr_stages :: "bootstrap_stage list"

definition new_with_bridge ::
  "fs_path \<Rightarrow> ustr \<Rightarrow> fs_path option \<Rightarrow> bootstrap_stage list \<Rightarrow> drive" where
  "new_with_bridge bridge_path bridge_name share_root stages =
     \<lparr>dr_bridge_path = bridge_path, dr_bridge_name = bridge_name, dr_share_root = share_root,
      dr_open = (\<lambda>_. None), dr_listings = (\<lambda>_. None), dr_next_file = 1, dr_next_staging = 1,
      dr_stages = stages\<rparr>"

subsection \<open>Names and paths\<close>

definition backslash :: uchar where "backslash = 92"

definition normalize_path :: "ustr \<Rightarrow> ustr" where
  "normalize_path s = dropWhile (\<lambda>c. c = backslash) s"

definition trim_end_backslash :: "ustr \<Rightarrow> ustr" where
  "trim_end_backslash s = rev (dropWhile (\<lambda>c. c = backslash) (rev s))"

definition to_slashes :: "ustr \<Rightarrow> ustr" where
  "to_slashes s = map (\<lambda>c. if c = backslash then ch CHR ''/'' else c) s"

definition looks_rooted :: "ustr \<Rightarrow> bool" where
  "looks_rooted s \<longleftrightarrow>
     (case s of
        [] \<Rightarrow> False
      | c # t \<Rightarrow> c = ch CHR ''/''
          \<or> ((is_ascii_upper c \<or> is_ascii_lower c) \<and> t \<noteq> [] \<and> hd t = ch CHR '':''))"

definition resolve_under_root :: "'w os \<Rightarrow> ustr \<Rightarrow> 'w \<Rightarrow> drive \<Rightarrow> fs_path option" where
  "resolve_under_root os untrusted w d =
     Option.bind (dr_share_root d) (\<lambda>root.
     Option.bind (os_canonicalize os root w) (\<lambda>root_canonical.
       let normalized = to_slashes untrusted
       in if looks_rooted normalized then None
          else
            let candidate = path_join root_canonical (components normalized)
            in Option.bind (path_parent candidate) (\<lambda>parent.
               Option.bind (os_canonicalize os parent w) (\<lambda>parent_canonical.
                 if \<not> starts_with_path parent_canonical root_canonical then None
                 else Option.bind (file_name candidate) (\<lambda>leaf.
                        Some (path_join parent_canonical [Normal leaf]))))))"

definition allocate_file_id :: "drive \<Rightarrow> u32 \<times> drive" where
  "allocate_file_id d = (dr_next_file d, d\<lparr>dr_next_file := dr_next_file d + 1\<rparr>)"

fun is_write_disposition :: "create_disposition \<Rightarrow> bool" where
  "is_write_disposition FileCreate = True"
| "is_write_disposition FileOpenIf = True"
| "is_write_disposition FileOverwriteIf = True"
| "is_write_disposition FileSupersede = True"
| "is_write_disposition _ = False"

text \<open>The clock and the process id are the argument \<open>stamp\<close>.\<close>

definition staging_name :: "nat \<times> nat \<Rightarrow> u64 \<Rightarrow> ustr" where
  "staging_name stamp n =
     dec (fst stamp) @ lit ''-'' @ dec (snd stamp) @ lit ''-'' @ dec (unat n) @ lit ''.part''"

definition staging_path :: "fs_path \<Rightarrow> nat \<times> nat \<Rightarrow> u64 \<Rightarrow> fs_path" where
  "staging_path base stamp n =
     path_join (path_join base (components (lit ''.rdpilot-staging''))) (components (staging_name stamp n))"

definition allocate_staging_path ::
  "'w os \<Rightarrow> nat \<times> nat \<Rightarrow> 'w \<Rightarrow> drive \<Rightarrow> fs_path option \<times> 'w \<times> drive" where
  "allocate_staging_path os stamp w d =
     (case Option.bind (dr_share_root d) (\<lambda>r. os_canonicalize os r w) of
        None \<Rightarrow> (None, w, d)
      | Some base \<Rightarrow>
          (let staging = staging_path base stamp (dr_next_staging d);
               d' = d\<lparr>dr_next_staging := dr_next_staging d + 1\<rparr>;
               (ok, w') = os_create os staging w
           in (if ok then Some staging else None, w', d')))"

subsection \<open>Create\<close>

text \<open>A file of the bundle directory: only a plain name below it.\<close>

definition bundle_file :: "'w os \<Rightarrow> ustr \<Rightarrow> 'w \<Rightarrow> drive \<Rightarrow> open_entry option" where
  "bundle_file os normalized w d =
     Option.bind (strip_prefix (lit ''bundle/'') (to_slashes normalized)) (\<lambda>name.
       if name = [] \<or> ch CHR ''/'' \<in> set name \<or> name = lit ''..'' \<or> ch CHR '':'' \<in> set name then None
       else Option.bind (os_canonicalize os (dr_bridge_path d) w) (\<lambda>root.
            Option.bind (os_canonicalize os (path_join root (components name)) w) (\<lambda>path.
              if \<not> starts_with_path path root \<or> \<not> os_is_file os path w then None
              else Some (FileEntry path))))"

definition write_entry ::
  "'w os \<Rightarrow> nat \<times> nat \<Rightarrow> ustr \<Rightarrow> 'w \<Rightarrow> drive \<Rightarrow> open_entry option \<times> 'w \<times> drive" where
  "write_entry os stamp normalized w d =
     (case resolve_under_root os normalized w d of
        None \<Rightarrow> (None, w, d)
      | Some dest \<Rightarrow>
          (let (staging, w', d') = allocate_staging_path os stamp w d
           in (map_option (\<lambda>st. WriteFile st dest None) staging, w', d')))"

definition create_entry ::
  "'w os \<Rightarrow> nat \<times> nat \<Rightarrow> create_disposition \<Rightarrow> ustr \<Rightarrow> 'w \<Rightarrow> drive \<Rightarrow> open_entry option \<times> 'w \<times> drive" where
  "create_entry os stamp disposition normalized w d =
     (if normalized = [] then (Some RootEntry, w, d)
      else if eq_ignore_ascii_case (trim_end_backslash normalized) (lit ''bundle'')
              \<and> os_is_dir os (dr_bridge_path d) w
      then (Some BundleRoot, w, d)
      else if prefix (lit ''bundle/'') (to_slashes normalized)
      then (bundle_file os normalized w d, w, d)
      else if eq_ignore_ascii_case normalized (dr_bridge_name d) \<and> os_is_file os (dr_bridge_path d) w
      then (Some (FileEntry (dr_bridge_path d)), w, d)
      else if is_write_disposition disposition then write_entry os stamp normalized w d
      else (map_option FileEntry (resolve_under_root os normalized w d), w, d))"

definition handle_create ::
  "'w os \<Rightarrow> nat \<times> nat \<Rightarrow> io_request \<Rightarrow> create_disposition \<Rightarrow> ustr \<Rightarrow> 'w \<Rightarrow> drive
    \<Rightarrow> drive_reply \<times> 'w \<times> drive" where
  "handle_create os stamp io disposition path w d =
     (let normalized = normalize_path path;
          (found, w1, d1) = create_entry os stamp disposition normalized w d
      in case found of
           None \<Rightarrow> (CreateReply io StatusNoSuchFile 0 InfoSuperseded, w1, d1)
         | Some e \<Rightarrow>
             (let (i, d2) = allocate_file_id d1;
                  d3 = d2\<lparr>dr_open := (dr_open d2)(i \<mapsto> e)\<rparr>;
                  d4 = d3\<lparr>dr_stages :=
                         if prefix (lit ''bundle'') normalized
                            \<or> eq_ignore_ascii_case normalized (dr_bridge_name d3)
                         then record_stage RdpdrFileAccess (dr_stages d3) else dr_stages d3\<rparr>
              in (CreateReply io StatusSuccess i InfoOpened, w1, d4)))"

subsection \<open>Close, read and write\<close>

definition finalize_write ::
  "'w os \<Rightarrow> fs_path \<Rightarrow> fs_path \<Rightarrow> nat option \<Rightarrow> 'w \<Rightarrow> 'w" where
  "finalize_write os staging dest expected w =
     (case os_len os staging w of
        None \<Rightarrow> w
      | Some n \<Rightarrow>
          if expected \<noteq> None \<and> expected \<noteq> Some n then w
          else snd (os_rename os staging dest w))"

definition handle_close :: "'w os \<Rightarrow> io_request \<Rightarrow> 'w \<Rightarrow> drive \<Rightarrow> drive_reply \<times> 'w \<times> drive" where
  "handle_close os io w d =
     (let d' = d\<lparr>dr_listings := (dr_listings d)(io_file io := None),
                 dr_open := (dr_open d)(io_file io := None)\<rparr>;
          w' = (case dr_open d (io_file io) of
                  Some (WriteFile staging dest expected) \<Rightarrow> finalize_write os staging dest expected w
                | _ \<Rightarrow> w)
      in (CloseReply io StatusSuccess, w', d'))"

definition read_bytes_at :: "'w os \<Rightarrow> fs_path \<Rightarrow> u64 \<Rightarrow> u32 \<Rightarrow> 'w \<Rightarrow> bytes option" where
  "read_bytes_at os path offset len w =
     Option.bind (os_contents os path w) (\<lambda>c.
       if os_seeks os (unat offset) then Some (take (unat len) (drop (unat offset) c)) else None)"

definition handle_read ::
  "'w os \<Rightarrow> io_request \<Rightarrow> u32 \<Rightarrow> u64 \<Rightarrow> 'w \<Rightarrow> drive \<Rightarrow> drive_reply \<times> 'w \<times> drive" where
  "handle_read os io len offset w d =
     (case dr_open d (io_file io) of
        Some (FileEntry path) \<Rightarrow>
          (case read_bytes_at os path offset len w of
             None \<Rightarrow> (ReadReply io StatusUnsuccessful [], w, d)
           | Some data \<Rightarrow>
               (ReadReply io StatusSuccess data, w,
                d\<lparr>dr_stages :=
                    if path = dr_bridge_path d \<or> starts_with_path path (dr_bridge_path d)
                    then record_stage RdpdrFileRead (dr_stages d) else dr_stages d\<rparr>))
      | _ \<Rightarrow> (ReadReply io StatusAccessDenied [], w, d))"

definition write_bytes_at ::
  "'w os \<Rightarrow> fs_path \<Rightarrow> u64 \<Rightarrow> bytes \<Rightarrow> 'w \<Rightarrow> u32 option \<times> 'w" where
  "write_bytes_at os path offset data w =
     (let (ok, w') = os_write os path (unat offset) data w
      in (if ok then Some (if length data < 2 ^ 32 then of_nat (length data) else - 1) else None, w'))"

definition handle_write ::
  "'w os \<Rightarrow> io_request \<Rightarrow> u64 \<Rightarrow> bytes \<Rightarrow> 'w \<Rightarrow> drive \<Rightarrow> drive_reply \<times> 'w \<times> drive" where
  "handle_write os io offset data w d =
     (case dr_open d (io_file io) of
        Some (WriteFile staging _ _) \<Rightarrow>
          (let (n, w') = write_bytes_at os staging offset data w
           in case n of
                Some len \<Rightarrow> (WriteReply io StatusSuccess len, w', d)
              | None \<Rightarrow> (WriteReply io StatusUnsuccessful 0, w', d))
      | _ \<Rightarrow> (WriteReply io StatusAccessDenied 0, w, d))"

text \<open>\<open>encodes\<close> says whether the library can encode the reply to this request.\<close>

definition handle_set_information ::
  "(set_information \<Rightarrow> bool) \<Rightarrow> io_request \<Rightarrow> set_information \<Rightarrow> 'w \<Rightarrow> drive
    \<Rightarrow> drive_reply \<times> 'w \<times> drive" where
  "handle_set_information encodes io setting_of w d =
     (let (status, d') =
        (case dr_open d (io_file io) of
           Some (WriteFile staging dest expected) \<Rightarrow>
             (StatusSuccess,
              case setting_of of
                SetEndOfFile n \<Rightarrow>
                  if 0 \<le> n then d\<lparr>dr_open := (dr_open d)(io_file io \<mapsto> WriteFile staging dest (Some (nat n)))\<rparr>
                  else d
              | _ \<Rightarrow> d)
         | _ \<Rightarrow> (StatusAccessDenied, d))
      in (if encodes setting_of then SetInformationReply io status
          else CloseReply io StatusUnsuccessful, w, d'))"

subsection \<open>Queries\<close>

definition i64_max :: nat where "i64_max = 9223372036854775807"

definition size_of :: "nat option \<Rightarrow> int" where
  "size_of n = (case n of None \<Rightarrow> 0 | Some k \<Rightarrow> int (min k i64_max))"

definition display_name :: "fs_path \<Rightarrow> ustr \<Rightarrow> ustr" where
  "display_name path fallback = (case file_name path of Some (Utf8 s) \<Rightarrow> s | _ \<Rightarrow> fallback)"

definition directory_entry :: "info_level \<Rightarrow> int \<Rightarrow> ustr \<Rightarrow> bool \<Rightarrow> directory_information" where
  "directory_entry level file_size name directory =
     (let attrs = (if directory then AttributeDirectory else AttributeNormal)
      in case level of
           BothDirectoryLevel \<Rightarrow> BothDirectoryInfo file_size attrs name
         | FullDirectoryLevel \<Rightarrow> FullDirectoryInfo file_size attrs name
         | DirectoryLevel \<Rightarrow> DirectoryInfo file_size attrs name
         | _ \<Rightarrow> NamesInfo name)"

text \<open>The files of the bundle directory, sorted by name; names that are not text are left out.\<close>

definition bundle_listing :: "'w os \<Rightarrow> fs_path \<Rightarrow> 'w \<Rightarrow> listed list" where
  "bundle_listing os dir w =
     (case os_read_dir os dir w of
        None \<Rightarrow> []
      | Some entries \<Rightarrow>
          sort_key (\<lambda>(_, name, _). name)
            (List.map_filter
              (\<lambda>(path, name). case name of Utf8 s \<Rightarrow> Some (path, s, False) | NotUtf8 _ \<Rightarrow> None)
              (filter (\<lambda>(path, _). os_is_file os path w) entries)))"

definition listing_of :: "'w os \<Rightarrow> open_entry option \<Rightarrow> 'w \<Rightarrow> drive \<Rightarrow> listed list" where
  "listing_of os e w d =
     (case e of
        Some BundleRoot \<Rightarrow> bundle_listing os (dr_bridge_path d) w
      | Some RootEntry \<Rightarrow>
          if os_is_dir os (dr_bridge_path d) w then [(dr_bridge_path d, lit ''bundle'', True)]
          else [(dr_bridge_path d, dr_bridge_name d, False)]
      | Some (FileEntry path) \<Rightarrow> [(path, display_name path (dr_bridge_name d), False)]
      | _ \<Rightarrow> [])"

definition last_part :: "ustr \<Rightarrow> ustr" where
  "last_part s = rev (takeWhile (\<lambda>c. c \<noteq> backslash \<and> c \<noteq> ch CHR ''/'') (rev s))"

definition pattern_matches :: "ustr \<Rightarrow> ustr \<Rightarrow> bool" where
  "pattern_matches pat name \<longleftrightarrow>
     pat = [] \<or> pat = lit ''*'' \<or> pat = lit ''*.*'' \<or> eq_ignore_ascii_case name pat"

definition start_listing :: "'w os \<Rightarrow> u32 \<Rightarrow> ustr \<Rightarrow> 'w \<Rightarrow> drive \<Rightarrow> drive" where
  "start_listing os i path w d =
     d\<lparr>dr_listings := (dr_listings d)(i \<mapsto>
        filter (\<lambda>(_, name, _). pattern_matches (last_part path) name) (listing_of os (dr_open d i) w d))\<rparr>"

definition handle_query_directory ::
  "'w os \<Rightarrow> io_request \<Rightarrow> info_level \<Rightarrow> bool \<Rightarrow> ustr \<Rightarrow> 'w \<Rightarrow> drive \<Rightarrow> drive_reply \<times> 'w \<times> drive" where
  "handle_query_directory os io level initial path w d =
     (let i = io_file io; d1 = (if initial then start_listing os i path w d else d)
      in case dr_listings d1 i of
           Some ((p, name, dir) # rest) \<Rightarrow>
             (DirectoryReply io StatusSuccess (Some (directory_entry level (size_of (os_len os p w)) name dir)),
              w, d1\<lparr>dr_listings := (dr_listings d1)(i \<mapsto> rest)\<rparr>)
         | _ \<Rightarrow> (DirectoryReply io StatusNoMoreFiles None, w, d1))"

definition handle_query_information ::
  "'w os \<Rightarrow> io_request \<Rightarrow> info_level \<Rightarrow> 'w \<Rightarrow> drive \<Rightarrow> drive_reply \<times> 'w \<times> drive" where
  "handle_query_information os io level w d =
     (case dr_open d (io_file io) of
        None \<Rightarrow> (InformationReply io StatusAccessDenied None, w, d)
      | Some e \<Rightarrow>
          (let is_dir = (e = RootEntry \<or> e = BundleRoot);
               file_size = (case e of
                  FileEntry path \<Rightarrow> size_of (os_len os path w)
                | WriteFile staging _ _ \<Rightarrow> size_of (os_len os staging w)
                | _ \<Rightarrow> 0);
               attrs = (if is_dir then AttributeDirectory else AttributeNormal)
           in (InformationReply io StatusSuccess
                (case level of
                   BasicLevel \<Rightarrow> Some (BasicInfo attrs)
                 | StandardLevel \<Rightarrow> Some (StandardInfo file_size file_size 1 False is_dir)
                 | AttributeTagLevel \<Rightarrow> Some (AttributeTagInfo attrs 0)
                 | _ \<Rightarrow> None), w, d)))"

definition handle_query_volume_information ::
  "io_request \<Rightarrow> volume_level \<Rightarrow> 'w \<Rightarrow> drive \<Rightarrow> drive_reply \<times> 'w \<times> drive" where
  "handle_query_volume_information io level w d =
     (case dr_open d (io_file io) of
        None \<Rightarrow> (VolumeReply io StatusAccessDenied None, w, d)
      | Some _ \<Rightarrow>
          (VolumeReply io StatusSuccess
             (case level of
                VolumeLevel \<Rightarrow> Some (VolumeInfo 0 0x12345678 False (lit ''RDPILOT''))
              | SizeLevel \<Rightarrow> Some (SizeInfo 1 0 1 512)
              | AttributeLevel \<Rightarrow> Some (AttributeInfo 255 (lit ''RDPILOTFS''))
              | FullSizeLevel \<Rightarrow> Some (FullSizeInfo 1 0 0 1 512)
              | DeviceLevel \<Rightarrow> Some (DeviceInfo 7)
              | _ \<Rightarrow> None), w, d))"

definition reject_unsupported :: "io_request \<Rightarrow> 'w \<Rightarrow> drive \<Rightarrow> drive_reply \<times> 'w \<times> drive" where
  "reject_unsupported io w d = (CloseReply io StatusNotSupported, w, d)"

subsection \<open>Dispatch\<close>

fun handle_drive_io_request ::
  "'w os \<Rightarrow> (set_information \<Rightarrow> bool) \<Rightarrow> nat \<times> nat \<Rightarrow> drive_request \<Rightarrow> 'w \<Rightarrow> drive
    \<Rightarrow> drive_reply \<times> 'w \<times> drive" where
  "handle_drive_io_request os encodes stamp (CreateRequest io disp path) w d =
     handle_create os stamp io disp path w d"
| "handle_drive_io_request os encodes stamp (CloseRequest io) w d = handle_close os io w d"
| "handle_drive_io_request os encodes stamp (ReadRequest io len offset) w d = handle_read os io len offset w d"
| "handle_drive_io_request os encodes stamp (QueryDirectoryRequest io level initial path) w d =
     handle_query_directory os io level initial path w d"
| "handle_drive_io_request os encodes stamp (QueryInformationRequest io level) w d =
     handle_query_information os io level w d"
| "handle_drive_io_request os encodes stamp (NotifyChangeRequest io) w d = reject_unsupported io w d"
| "handle_drive_io_request os encodes stamp (QueryVolumeRequest io level) w d =
     handle_query_volume_information io level w d"
| "handle_drive_io_request os encodes stamp (ControlRequest io) w d = reject_unsupported io w d"
| "handle_drive_io_request os encodes stamp (WriteRequest io offset data) w d =
     handle_write os io offset data w d"
| "handle_drive_io_request os encodes stamp (SetInformationRequest io info) w d =
     handle_set_information encodes io info w d"
| "handle_drive_io_request os encodes stamp (LockControlRequest io) w d = reject_unsupported io w d"

end
