(* ===== verification/Drive_Safety.thy ===== *)
theory Drive_Safety
  imports Drive_Backend
begin

text \<open>
  What the redirected drive promises: whatever the guest sends, the files it reads and the
  files that change are those of the bridge, of the bundle and of the share root; a
  destination changes only when a write handle is closed, and then holds what was written.
\<close>

subsection \<open>Places\<close>

definition under_root :: "'w os \<Rightarrow> fs_path \<Rightarrow> fs_path \<Rightarrow> bool" where
  "under_root os share p \<longleftrightarrow>
     (\<exists>w base dir leaf. os_canonicalize os share w = Some base \<and> prefix base dir
        \<and> canonical_path dir \<and> p = dir @ [Normal leaf])"

definition staging_place :: "'w os \<Rightarrow> fs_path \<Rightarrow> fs_path \<Rightarrow> bool" where
  "staging_place os share p \<longleftrightarrow>
     (\<exists>w base stamp n. os_canonicalize os share w = Some base
        \<and> p = base @ [Normal (Utf8 (lit ''.rdpilot-staging'')), Normal (Utf8 (staging_name stamp n))])"

definition bundle_place :: "'w os \<Rightarrow> fs_path \<Rightarrow> fs_path \<Rightarrow> bool" where
  "bundle_place os bridge p \<longleftrightarrow>
     (\<exists>w base. os_canonicalize os bridge w = Some base \<and> prefix base p \<and> canonical_path p)"

definition readable_place :: "'w os \<Rightarrow> drive \<Rightarrow> fs_path \<Rightarrow> bool" where
  "readable_place os d p \<longleftrightarrow> p = dr_bridge_path d \<or> bundle_place os (dr_bridge_path d) p
     \<or> (\<exists>s. dr_share_root d = Some s \<and> under_root os s p)"

definition entry_ok :: "'w os \<Rightarrow> drive \<Rightarrow> open_entry \<Rightarrow> bool" where
  "entry_ok os d e \<longleftrightarrow>
     (case e of
        FileEntry p \<Rightarrow> readable_place os d p
      | WriteFile st dest _ \<Rightarrow>
          (\<exists>s. dr_share_root d = Some s \<and> staging_place os s st \<and> under_root os s dest)
      | _ \<Rightarrow> True)"

definition drive_ok :: "'w os \<Rightarrow> drive \<Rightarrow> bool" where
  "drive_ok os d \<longleftrightarrow> (\<forall>i e. dr_open d i = Some e \<longrightarrow> entry_ok os d e)"

definition allowed_change :: "'w os \<Rightarrow> drive \<Rightarrow> 'w \<Rightarrow> 'w \<Rightarrow> bool" where
  "allowed_change os d w w' \<longleftrightarrow> w' = w
     \<or> (\<exists>s st. dr_share_root d = Some s \<and> staging_place os s st
          \<and> (w' = snd (os_create os st w) \<or> (\<exists>off data. w' = snd (os_write os st off data w))
             \<or> (\<exists>dest. under_root os s dest \<and> w' = snd (os_rename os st dest w))))"

text \<open>The documented result of \<open>std::fs::canonicalize\<close>.\<close>

definition canonicalizes :: "'w os \<Rightarrow> bool" where
  "canonicalizes os \<longleftrightarrow> (\<forall>p w q. os_canonicalize os p w = Some q \<longrightarrow> canonical_path q)"

lemma allowed_changeI:
  assumes "dr_share_root d = Some s" "staging_place os s st"
  shows "allowed_change os d w (snd (os_create os st w))"
    and "allowed_change os d w (snd (os_write os st off data w))"
    and "under_root os s dest \<Longrightarrow> allowed_change os d w (snd (os_rename os st dest w))"
  using assms unfolding allowed_change_def by blast+

lemma allowed_change_refl [simp]: "allowed_change os d w w"
  by (simp add: allowed_change_def)

text \<open>A drive as \<open>k\<close> requests leave it; other processes may change the world in between.\<close>

inductive drive_after :: "'w os \<Rightarrow> (set_information \<Rightarrow> bool) \<Rightarrow> nat \<Rightarrow> drive \<Rightarrow> bool"
  for os :: "'w os" and encodes where
  fresh: "drive_after os encodes 0 (new_with_bridge b n s stages)"
| handled: "drive_after os encodes k d
    \<Longrightarrow> handle_drive_io_request os encodes stamp req w d = (reply, w', d')
    \<Longrightarrow> drive_after os encodes (Suc k) d'"

lemma dec_no_slash: "ch CHR ''/'' \<notin> set (dec n)"
  using dec_digits [of "ch CHR ''/''" n] by (auto simp: is_ascii_digit_def ch_def)

lemma components_staging:
  "components (lit ''.rdpilot-staging'') = [Normal (Utf8 (lit ''.rdpilot-staging''))]"
  "components (staging_name stamp n) = [Normal (Utf8 (staging_name stamp n))]"
proof -
  show "components (lit ''.rdpilot-staging'') = [Normal (Utf8 (lit ''.rdpilot-staging''))]"
    by (rule components_plain) (simp_all add: lit_def ch_def)
  have "3 < length (staging_name stamp n)" by (simp add: staging_name_def lit_def)
  then have "staging_name stamp n \<notin> {[], lit ''.'', lit ''..''}" by (auto simp: lit_def)
  moreover have "ch CHR ''/'' \<notin> set (staging_name stamp n)"
    using dec_no_slash by (auto simp: staging_name_def lit_def ch_def)
  ultimately show "components (staging_name stamp n) = [Normal (Utf8 (staging_name stamp n))]"
    by (intro components_plain) auto
qed

lemma staging_path_eq:
  "staging_path base stamp n =
     base @ [Normal (Utf8 (lit ''.rdpilot-staging'')), Normal (Utf8 (staging_name stamp n))]"
  by (simp add: staging_path_def components_staging)

lemma resolve_under_root_place:
  assumes canon: "canonicalizes os"
    and res: "resolve_under_root os u w d = Some p"
  obtains s where "dr_share_root d = Some s" "under_root os s p"
proof -
  have "\<exists>s base q dir leaf. dr_share_root d = Some s \<and> os_canonicalize os s w = Some base
    \<and> os_canonicalize os q w = Some dir \<and> prefix base dir \<and> p = dir @ [Normal leaf]"
    using res
    by (auto simp: resolve_under_root_def Let_def starts_with_path_def bind_eq_Some_conv
        split: if_splits)
  with canon that show thesis unfolding under_root_def canonicalizes_def by metis
qed

lemma resolve_file_place:
  assumes "canonicalizes os"
    and "resolve_under_root os u w d = Some p"
  shows "readable_place os d p"
  using resolve_under_root_place [OF assms] by (auto simp: readable_place_def)

lemma bundle_file_place:
  assumes canon: "canonicalizes os"
    and "bundle_file os u w d = Some e"
  shows "entry_ok os d e"
proof -
  obtain base p where "e = FileEntry p" "os_canonicalize os (dr_bridge_path d) w = Some base"
    "prefix base p" "canonical_path p"
    using assms(2) canon
    by (auto simp: canonicalizes_def bundle_file_def bind_eq_Some_conv starts_with_path_def split: if_splits)
  then show ?thesis by (auto simp: entry_ok_def readable_place_def bundle_place_def)
qed

subsection \<open>What each handler changes\<close>

text \<open>The places of a drive depend on its configuration only, which no handler changes.\<close>

definition same_config :: "drive \<Rightarrow> drive \<Rightarrow> bool" where
  "same_config d d' \<longleftrightarrow> dr_bridge_path d' = dr_bridge_path d \<and> dr_bridge_name d' = dr_bridge_name d
     \<and> dr_share_root d' = dr_share_root d"

lemma same_config_places:
  assumes "same_config d d'"
  shows "entry_ok os d' e = entry_ok os d e" "readable_place os d' p = readable_place os d p"
    "allowed_change os d' w w' = allowed_change os d w w'"
  using assms
  by (auto simp: same_config_def entry_ok_def readable_place_def allowed_change_def
      split: open_entry.split)

lemma allocate_staging:
  assumes a: "allocate_staging_path os stamp w d = (r, w', d')"
  shows "same_config d d'" "dr_open d' = dr_open d" "allowed_change os d w w'"
    and "r = Some st \<Longrightarrow> \<exists>s. dr_share_root d = Some s \<and> staging_place os s st"
proof -
  have *: "same_config d d' \<and> dr_open d' = dr_open d \<and> allowed_change os d w w'
    \<and> (r = Some st \<longrightarrow> (\<exists>s. dr_share_root d = Some s \<and> staging_place os s st))"
  proof (cases "Option.bind (dr_share_root d) (\<lambda>s. os_canonicalize os s w)")
    case None
    with a show ?thesis by (simp add: allocate_staging_path_def same_config_def allowed_change_def)
  next
    case (Some base)
    then obtain s where s: "dr_share_root d = Some s" "os_canonicalize os s w = Some base"
      by (auto simp: bind_eq_Some_conv)
    define p where "p = staging_path base stamp (dr_next_staging d)"
    have p: "staging_place os s p"
      unfolding staging_place_def p_def using s(2) staging_path_eq by metis
    have "w' = snd (os_create os p w)" "same_config d d'" "dr_open d' = dr_open d" "r \<in> {None, Some p}"
      using a Some
      by (auto simp: allocate_staging_path_def same_config_def p_def Let_def split: prod.splits)
    with s p show ?thesis using allowed_changeI(1) by auto
  qed
  then show "same_config d d'" "dr_open d' = dr_open d" "allowed_change os d w w'"
    "r = Some st \<Longrightarrow> \<exists>s. dr_share_root d = Some s \<and> staging_place os s st" by auto
qed

lemma write_entry_placed:
  assumes canon: "canonicalizes os"
    and c: "write_entry os stamp u w d = (r, w', d')"
  shows "same_config d d' \<and> dr_open d' = dr_open d \<and> allowed_change os d w w'
    \<and> (\<forall>e. r = Some e \<longrightarrow> entry_ok os d e)"
proof (cases "resolve_under_root os u w d")
  case None
  with c show ?thesis by (simp add: write_entry_def same_config_def allowed_change_def)
next
  case (Some dest)
  then obtain st where a: "allocate_staging_path os stamp w d = (st, w', d')"
    and r: "r = map_option (\<lambda>st. WriteFile st dest None) st"
    using c by (auto simp: write_entry_def split: prod.splits)
  obtain s where "dr_share_root d = Some s" "under_root os s dest"
    by (rule resolve_under_root_place [OF canon Some])
  with allocate_staging [OF a] r show ?thesis by (cases st) (auto simp: entry_ok_def)
qed

lemma created:
  assumes canon: "canonicalizes os"
    and c: "create_entry os stamp disp u w d = (r, w', d')"
  shows "same_config d d' \<and> dr_open d' = dr_open d \<and> allowed_change os d w w'
    \<and> (\<forall>e. r = Some e \<longrightarrow> entry_ok os d e)"
proof -
  have id: "same_config d d" "allowed_change os d w w"
    by (simp_all add: same_config_def allowed_change_def)
  have entries: "entry_ok os d RootEntry" "entry_ok os d BundleRoot"
    "entry_ok os d (FileEntry (dr_bridge_path d))"
    "\<forall>e. map_option FileEntry (resolve_under_root os u w d) = Some e \<longrightarrow> entry_ok os d e"
    "\<forall>e. bundle_file os u w d = Some e \<longrightarrow> entry_ok os d e"
    using bundle_file_place [OF canon] resolve_file_place [OF canon]
    by (auto simp: entry_ok_def readable_place_def)
  show ?thesis
    using c id entries write_entry_placed [OF canon, of stamp u w d r w' d']
    by (auto simp: create_entry_def split: if_splits)
qed

text \<open>One request: the configuration, the entries, the world and the data read.\<close>

definition handled_well ::
  "'w os \<Rightarrow> 'w \<Rightarrow> drive \<Rightarrow> drive_reply \<times> 'w \<times> drive \<Rightarrow> bool" where
  "handled_well os w d = (\<lambda>(reply, w', d').
     same_config d d' \<and> allowed_change os d w w'
     \<and> (\<forall>i e. dr_open d' i = Some e \<longrightarrow> dr_open d i = Some e \<or> entry_ok os d e)
     \<and> (\<forall>io st data. reply = ReadReply io st data \<longrightarrow>
          data = [] \<or> (\<exists>p off len. readable_place os d p \<and> read_bytes_at os p off len w = Some data)))"

lemma unchanged_well:
  "dr_open d' = dr_open d \<Longrightarrow> same_config d d' \<Longrightarrow> (\<And>io st data. reply \<noteq> ReadReply io st data)
    \<Longrightarrow> handled_well os w d (reply, w, d')"
  by (simp add: handled_well_def allowed_change_def)

lemma create_well:
  assumes canon: "canonicalizes os"
  shows "handled_well os w d (handle_create os stamp io disp path w d)"
proof -
  obtain r w1 d1 where c: "create_entry os stamp disp (normalize_path path) w d = (r, w1, d1)"
    by (cases "create_entry os stamp disp (normalize_path path) w d")
  from created [OF canon c] show ?thesis
    by (cases r)
      (auto simp: handle_create_def c handled_well_def allocate_file_id_def same_config_def Let_def)
qed

lemma close_well:
  assumes "drive_ok os d"
  shows "handled_well os w d (handle_close os io w d)"
proof -
  have "allowed_change os d w (fst (snd (handle_close os io w d)))"
  proof (cases "\<exists>st dest x. dr_open d (io_file io) = Some (WriteFile st dest x)")
    case True
    then obtain st dest x where e: "dr_open d (io_file io) = Some (WriteFile st dest x)" by blast
    then have "entry_ok os d (WriteFile st dest x)" using assms by (auto simp: drive_ok_def)
    then obtain s where "dr_share_root d = Some s" "staging_place os s st" "under_root os s dest"
      by (auto simp: entry_ok_def)
    note rename = allowed_changeI(3) [OF this]
    from e show ?thesis
      by (simp add: handle_close_def finalize_write_def Let_def rename split: option.split)
  next
    case False
    then show ?thesis
      by (auto simp: handle_close_def Let_def split: option.split open_entry.split)
  qed
  then show ?thesis
    by (auto simp: handle_close_def handled_well_def same_config_def Let_def split: if_splits)
qed

lemma read_well:
  assumes "drive_ok os d"
  shows "handled_well os w d (handle_read os io len offset w d)"
proof (cases "\<exists>p. dr_open d (io_file io) = Some (FileEntry p)")
  case True
  then obtain p where e: "dr_open d (io_file io) = Some (FileEntry p)" by blast
  then have "entry_ok os d (FileEntry p)" using assms by (auto simp: drive_ok_def)
  then have "readable_place os d p" by (simp add: entry_ok_def)
  with e show ?thesis
    by (auto simp: handle_read_def handled_well_def same_config_def allowed_change_def
        split: option.splits)
next
  case False
  then have "handle_read os io len offset w d = (ReadReply io StatusAccessDenied [], w, d)"
    by (auto simp: handle_read_def split: option.split open_entry.split)
  then show ?thesis by (simp add: handled_well_def same_config_def allowed_change_def)
qed

lemma write_well:
  assumes "drive_ok os d"
  shows "handled_well os w d (handle_write os io offset data w d)"
proof (cases "\<exists>st dest x. dr_open d (io_file io) = Some (WriteFile st dest x)")
  case True
  then obtain st dest x where e: "dr_open d (io_file io) = Some (WriteFile st dest x)" by blast
  then have "entry_ok os d (WriteFile st dest x)" using assms by (auto simp: drive_ok_def)
  then obtain s where s: "dr_share_root d = Some s" "staging_place os s st" by (auto simp: entry_ok_def)
  obtain ok w' where w: "os_write os st (unat offset) data w = (ok, w')" by fastforce
  have "allowed_change os d w w'" using allowed_changeI(2) [OF s, of w "unat offset" data] w by simp
  then show ?thesis
    by (simp add: handle_write_def e write_bytes_at_def w handled_well_def same_config_def)
next
  case False
  then have "handle_write os io offset data w d = (WriteReply io StatusAccessDenied 0, w, d)"
    by (auto simp: handle_write_def split: option.split open_entry.split)
  then show ?thesis by (simp add: unchanged_well same_config_def)
qed

lemma set_information_well:
  assumes "drive_ok os d"
  shows "handled_well os w d (handle_set_information encodes io x w d)"
proof -
  define d' where "d' = snd (snd (handle_set_information encodes io x w d))"
  have h: "\<exists>reply. handle_set_information encodes io x w d = (reply, w, d')
    \<and> (\<forall>io st data. reply \<noteq> ReadReply io st data)"
    by (simp add: handle_set_information_def d'_def split: prod.split)
  have "same_config d d' \<and> (\<forall>i e. dr_open d' i = Some e \<longrightarrow> dr_open d i = Some e \<or> entry_ok os d e)"
  proof (cases "\<exists>st dest y n. dr_open d (io_file io) = Some (WriteFile st dest y) \<and> x = SetEndOfFile n")
    case True
    then obtain st dest y n where e: "dr_open d (io_file io) = Some (WriteFile st dest y)"
      "x = SetEndOfFile n" by blast
    then have "entry_ok os d (WriteFile st dest y)" using assms by (auto simp: drive_ok_def)
    with e show ?thesis
      by (auto simp: d'_def handle_set_information_def same_config_def entry_ok_def)
  next
    case False
    then have "d' = d"
      by (auto simp: d'_def handle_set_information_def
          split: option.split open_entry.split set_information.split)
    then show ?thesis by (simp add: same_config_def)
  qed
  with h show ?thesis unfolding handled_well_def by (elim exE conjE) simp
qed

lemma queries_well:
  "handled_well os w d (handle_query_directory os io level initial path w d)"
  "handled_well os w d (handle_query_information os io level w d)"
  "handled_well os w d (handle_query_volume_information io vlevel w d)"
  "handled_well os w d (reject_unsupported io w d)"
  by (auto simp: handle_query_directory_def start_listing_def handle_query_information_def
      handle_query_volume_information_def reject_unsupported_def same_config_def Let_def
      intro!: unchanged_well split: option.splits list.splits)

lemma request_well:
  assumes canon: "canonicalizes os"
    and ok: "drive_ok os d"
  shows "handled_well os w d (handle_drive_io_request os encodes stamp req w d)"
  by (cases req)
    (simp_all add: create_well [OF canon] close_well [OF ok] read_well [OF ok] write_well [OF ok]
      set_information_well [OF ok] queries_well)

lemma reachable_drive_ok:
  assumes canon: "canonicalizes os"
    and "drive_after os encodes k d"
  shows "drive_ok os d"
  using assms(2)
proof induction
  case (fresh b n s stages)
  then show ?case by (simp add: drive_ok_def new_with_bridge_def)
next
  case (handled k d stamp req w reply w' d')
  have "handled_well os w d (reply, w', d')"
    using request_well [OF canon handled.IH, of w encodes stamp req] handled.hyps(2) by simp
  then have "same_config d d'"
    "\<forall>i e. dr_open d' i = Some e \<longrightarrow> dr_open d i = Some e \<or> entry_ok os d e"
    by (auto simp: handled_well_def)
  then show ?case
    using handled.IH unfolding drive_ok_def by (simp add: same_config_places) blast
qed

text \<open>
  C8. Whatever requests a guest sends, a request changes the local file system only by
  creating, writing or renaming a staging file that the drive named itself, and a rename
  goes to a plain name in a directory that was canonically below the share root. The data
  a read returns is that of the bridge file, of a file of the bundle, or of a plain name in
  such a directory.
\<close>

theorem drive_confined:
  assumes "canonicalizes os"
    and "drive_after os encodes k d"
    and "handle_drive_io_request os encodes stamp req w d = (reply, w', d')"
  shows "allowed_change os d w w' \<and> (\<forall>io st data. reply = ReadReply io st data \<longrightarrow>
    data = [] \<or> (\<exists>p off len. readable_place os d p \<and> read_bytes_at os p off len w = Some data))"
  using request_well [OF assms(1) reachable_drive_ok [OF assms(1,2)], of w encodes stamp req] assms(3)
  by (simp add: handled_well_def)

end
