(* ===== verification/Drive_Promises.thy ===== *)
theory Drive_Promises
  imports Drive_Safety
begin

text \<open>
  Handles, transfers and listings of the redirected drive, with a small operating system
  that the samples run on.
\<close>

subsection \<open>Handles\<close>

lemma handle_create_open:
  assumes "handle_create os stamp io disp path w d = (reply, w', d')"
  shows "(dr_open d' = dr_open d \<and> dr_next_file d' = dr_next_file d
      \<and> (\<forall>i info. reply \<noteq> CreateReply io StatusSuccess i info))
    \<or> (\<exists>e. dr_open d' = (dr_open d)(dr_next_file d \<mapsto> e) \<and> dr_next_file d' = dr_next_file d + 1
      \<and> fst (create_entry os stamp disp (normalize_path path) w d) = Some e
      \<and> w' = fst (snd (create_entry os stamp disp (normalize_path path) w d))
      \<and> reply = CreateReply io StatusSuccess (dr_next_file d) InfoOpened)"
proof -
  obtain r w1 d1 where c: "create_entry os stamp disp (normalize_path path) w d = (r, w1, d1)"
    by (cases "create_entry os stamp disp (normalize_path path) w d")
  have "dr_open d1 = dr_open d" "dr_next_file d1 = dr_next_file d"
    using c
    by (auto simp: create_entry_def write_entry_def allocate_staging_path_def Let_def
        split: if_splits option.splits prod.splits)
  with assms c show ?thesis
    by (cases r) (auto simp: handle_create_def allocate_file_id_def Let_def)
qed

text \<open>Which handles a request can open, and how far the counter moves.\<close>

lemma handles_after:
  assumes "handle_drive_io_request os encodes stamp req w d = (reply, w', d')"
  shows "(dr_next_file d' = dr_next_file d
      \<and> (\<forall>i. dr_open d' i \<noteq> None \<longrightarrow> dr_open d i \<noteq> None)
      \<and> (\<forall>io i info. reply \<noteq> CreateReply io StatusSuccess i info))
    \<or> (dr_next_file d' = dr_next_file d + 1 \<and> (\<exists>e. dr_open d' = (dr_open d)(dr_next_file d \<mapsto> e))
      \<and> (\<exists>io. reply = CreateReply io StatusSuccess (dr_next_file d) InfoOpened))"
proof (cases req)
  case (CreateRequest io disp path)
  then have h: "handle_create os stamp io disp path w d = (reply, w', d')" using assms by simp
  have "\<exists>st i info. reply = CreateReply io st i info"
    using h by (auto simp: handle_create_def Let_def split: prod.splits option.splits)
  with handle_create_open [OF h] show ?thesis by auto
qed (use assms in \<open>auto simp: handle_close_def handle_read_def handle_write_def write_bytes_at_def
    handle_set_information_def handle_query_directory_def start_listing_def
    handle_query_information_def handle_query_volume_information_def reject_unsupported_def Let_def
    split: option.splits open_entry.splits prod.splits if_splits set_information.splits list.splits\<close>)

lemma open_handles_below:
  assumes "drive_after os encodes k d" and "k < 2 ^ 32 - 1"
  shows "unat (dr_next_file d) \<le> k + 1 \<and> (\<forall>i. dr_open d i \<noteq> None \<longrightarrow> unat i < unat (dr_next_file d))"
  using assms
proof induction
  case fresh
  then show ?case by (simp add: new_with_bridge_def)
next
  case (handled k d stamp req w reply w' d')
  then have IH: "unat (dr_next_file d) \<le> k + 1"
    "\<And>i. dr_open d i \<noteq> None \<Longrightarrow> unat i < unat (dr_next_file d)" and k: "Suc k < 2 ^ 32 - 1"
    by auto
  have "unat (dr_next_file d + 1) = unat (dr_next_file d) + 1"
    using IH(1) k by (simp add: unat_word_ariths)
  with IH handles_after [OF handled.hyps(2)] show ?case
    by (auto simp: less_Suc_eq split: if_splits)
qed

text \<open>
  A file id is granted to one open file at a time: among the first \<open>2 ^ 32 - 1\<close>
  requests, a create is never answered with the id of a handle that is still open, and no
  other request opens a handle.
\<close>

theorem handle_granted_once:
  assumes "drive_after os encodes k d" and "k < 2 ^ 32 - 1"
    and "handle_drive_io_request os encodes stamp req w d = (reply, w', d')"
  shows "(\<forall>io i info. reply = CreateReply io StatusSuccess i info \<longrightarrow> dr_open d i = None \<and> dr_open d' i \<noteq> None)
    \<and> (\<forall>i. dr_open d i = None \<and> dr_open d' i \<noteq> None \<longrightarrow> (\<exists>io. reply = CreateReply io StatusSuccess i InfoOpened))"
proof -
  have "dr_open d (dr_next_file d) = None"
    using open_handles_below [OF assms(1,2)] by blast
  with handles_after [OF assms(3)] show ?thesis by (auto split: if_splits)
qed

text \<open>The counter wraps: after that many grants the next id is 0, which names no file yet.\<close>

lemma file_id_wraps: "dr_next_file d = - 1 \<Longrightarrow> dr_next_file (snd (allocate_file_id d)) = 0"
  by (simp add: allocate_file_id_def)

subsection \<open>Transfers\<close>

text \<open>What a write at an offset does to the contents of a file; a gap is filled with zeros.\<close>

definition patch :: "bytes \<Rightarrow> nat \<Rightarrow> bytes \<Rightarrow> bytes" where
  "patch c off data =
     take off (c @ replicate (off - length c) 0) @ data @ drop (off + length data) c"

lemma patch_end [simp]: "patch c (length c) data = c @ data"
  by (simp add: patch_def)

text \<open>The documented behaviour of the calls on one file, as far as a transfer needs it.\<close>

definition files_behave :: "'w os \<Rightarrow> bool" where
  "files_behave os \<longleftrightarrow>
     (\<forall>p w w'. os_create os p w = (True, w') \<longrightarrow> os_contents os p w' = Some [])
     \<and> (\<forall>p w w' c off data. os_write os p off data w = (True, w') \<longrightarrow> os_contents os p w = Some c
          \<longrightarrow> os_contents os p w' = Some (patch c off data))
     \<and> (\<forall>p w c. os_contents os p w = Some c \<longrightarrow> os_len os p w = Some (length c))
     \<and> (\<forall>p q w w'. os_rename os p q w = (True, w') \<longrightarrow> os_contents os q w' = os_contents os p w)"











subsection \<open>Listings\<close>















subsection \<open>A sample\<close>

text \<open>A world is the contents of its files, of which every absolute plain path may be one.\<close>

definition plain_os :: "(fs_path \<Rightarrow> bytes option) os" where
  "plain_os = \<lparr>os_canonicalize = (\<lambda>p w. if canonical_path p then Some p else None),
     os_is_dir = (\<lambda>p w. w p = None), os_is_file = (\<lambda>p w. w p \<noteq> None),
     os_len = (\<lambda>p w. map_option length (w p)), os_contents = (\<lambda>p w. w p), os_seeks = (\<lambda>_. True),
     os_read_dir = (\<lambda>p w. None), os_create = (\<lambda>p w. (True, w(p \<mapsto> []))),
     os_write = (\<lambda>p off data w. case w p of None \<Rightarrow> (False, w) | Some c \<Rightarrow> (True, w(p \<mapsto> patch c off data))),
     os_rename = (\<lambda>p q w. (True, (w(p := None))(q := w p)))\<rparr>"

lemma plain_os_documented: "canonicalizes plain_os" "files_behave plain_os"
  by (auto simp: canonicalizes_def files_behave_def plain_os_def split: if_splits option.splits)

definition sample_drive :: drive where
  "sample_drive = new_with_bridge [RootDir, Normal (Utf8 (lit ''b''))] (lit ''x.exe'')
     (Some [RootDir, Normal (Utf8 (lit ''s''))]) []"

definition sample_io :: io_request where
  "sample_io = \<lparr>io_device = 1, io_file = 1, io_completion = 7\<rparr>"

definition sample_dest :: fs_path where
  "sample_dest = [RootDir, Normal (Utf8 (lit ''s'')), Normal (Utf8 (lit ''a''))]"

definition sample_staging :: fs_path where
  "sample_staging = staging_path [RootDir, Normal (Utf8 (lit ''s''))] (0, 0) 1"

definition sample_open :: drive where
  "sample_open = sample_drive\<lparr>dr_open := [1 \<mapsto> WriteFile sample_staging sample_dest None],
     dr_next_file := 2, dr_next_staging := 2\<rparr>"

lemma sample_resolved:
  "resolve_under_root plain_os (lit ''a'') w sample_drive = Some sample_dest"
  "components (lit ''a'') = [Normal (Utf8 (lit ''a''))]" "to_slashes (lit ''a'') = lit ''a''"
  "\<not> looks_rooted (lit ''a'')"
proof -
  show c: "components (lit ''a'') = [Normal (Utf8 (lit ''a''))]"
    by (rule components_plain) (simp_all add: lit_def ch_def)
  show t: "to_slashes (lit ''a'') = lit ''a''" and r: "\<not> looks_rooted (lit ''a'')"
    by (simp_all add: to_slashes_def looks_rooted_def lit_def ch_def backslash_def)
  show "resolve_under_root plain_os (lit ''a'') w sample_drive = Some sample_dest"
    by (simp add: resolve_under_root_def sample_drive_def new_with_bridge_def plain_os_def t r c
        canonical_path_def path_parent_def file_name_def starts_with_path_def sample_dest_def)
qed

lemma sample_create:
  "handle_create plain_os (0, 0) sample_io FileCreate (lit ''a'') Map.empty sample_drive
    = (CreateReply sample_io StatusSuccess 1 InfoOpened, [sample_staging \<mapsto> []], sample_open)"
proof -
  have n: "normalize_path (lit ''a'') = lit ''a''" "lit ''a'' \<noteq> []"
    "\<not> eq_ignore_ascii_case (trim_end_backslash (lit ''a'')) (lit ''bundle'')"
    "\<not> prefix (lit ''bundle/'') (lit ''a'')" "\<not> prefix (lit ''bundle'') (lit ''a'')"
    "\<not> eq_ignore_ascii_case (lit ''a'') (lit ''x.exe'')"
    by (simp_all add: normalize_path_def trim_end_backslash_def eq_ignore_ascii_case_def
        to_ascii_lowercase_def lit_def backslash_def)
  have a: "allocate_staging_path plain_os (0, 0) Map.empty sample_drive
    = (Some sample_staging, [sample_staging \<mapsto> []], sample_drive\<lparr>dr_next_staging := 2\<rparr>)"
    by (simp add: allocate_staging_path_def sample_drive_def new_with_bridge_def plain_os_def
        canonical_path_def sample_staging_def Let_def)
  have e: "create_entry plain_os (0, 0) FileCreate (lit ''a'') Map.empty sample_drive
    = (Some (WriteFile sample_staging sample_dest None), [sample_staging \<mapsto> []],
       sample_drive\<lparr>dr_next_staging := 2\<rparr>)"
    using n by (simp add: create_entry_def write_entry_def sample_resolved a)
      (simp add: sample_drive_def new_with_bridge_def)
  show ?thesis
    using n by (simp add: handle_create_def e allocate_file_id_def sample_open_def)
      (simp add: sample_drive_def new_with_bridge_def)
qed

lemma drive_confined_witness:
  "allowed_change plain_os sample_drive Map.empty [sample_staging \<mapsto> []]"
proof -
  have "drive_after plain_os (\<lambda>_. True) 0 sample_drive"
    unfolding sample_drive_def by (rule drive_after.fresh)
  from drive_confined [OF plain_os_documented(1) this, of "(0, 0)" "CreateRequest sample_io FileCreate (lit ''a'')" Map.empty]
  show ?thesis by (simp add: sample_create)
qed

lemma handle_granted_once_witness:
  "dr_open sample_drive 1 = None \<and> dr_open sample_open 1 \<noteq> None"
proof -
  have "drive_after plain_os (\<lambda>_. True) 0 sample_drive"
    unfolding sample_drive_def by (rule drive_after.fresh)
  from handle_granted_once [OF this, of "(0, 0)" "CreateRequest sample_io FileCreate (lit ''a'')" Map.empty]
  show ?thesis by (simp add: sample_create)
qed






subsection \<open>Two observations\<close>

text \<open>
  Only the parent of a path is canonicalized: a link below the share root that points
  outside is opened as it is.
\<close>

lemma leaf_link_is_followed:
  "\<exists>(os :: unit os) p q. canonicalizes os \<and> os_canonicalize os p () = Some q
     \<and> resolve_under_root os (lit ''a'') () sample_drive = Some p
     \<and> os_canonicalize os [RootDir, Normal (Utf8 (lit ''s''))] () = Some [RootDir, Normal (Utf8 (lit ''s''))]
     \<and> \<not> starts_with_path q [RootDir, Normal (Utf8 (lit ''s''))]"
proof -
  let ?share = "[RootDir, Normal (Utf8 (lit ''s''))]"
  let ?os = "\<lparr>os_canonicalize = (\<lambda>p w. if p = ?share then Some ?share
       else if p = sample_dest then Some [RootDir] else None),
     os_is_dir = (\<lambda>p w. True), os_is_file = (\<lambda>p w. False), os_len = (\<lambda>p w. None),
     os_contents = (\<lambda>p w. None), os_seeks = (\<lambda>_. True), os_read_dir = (\<lambda>p w. None),
     os_create = (\<lambda>p w. (False, w)), os_write = (\<lambda>p off data w. (False, w)),
     os_rename = (\<lambda>p q w. (False, w))\<rparr> :: unit os"
  have "canonicalizes ?os" by (auto simp: canonicalizes_def canonical_path_def)
  moreover have "resolve_under_root ?os (lit ''a'') () sample_drive = Some sample_dest"
    by (simp add: resolve_under_root_def sample_drive_def new_with_bridge_def sample_resolved
        path_parent_def file_name_def starts_with_path_def sample_dest_def)
  ultimately show ?thesis
    by (intro exI [of _ ?os] exI [of _ sample_dest] exI [of _ "[RootDir]"])
      (simp add: sample_dest_def starts_with_path_def)
qed

text \<open>A file of the share root whose name begins with \<open>bundle\<close> counts as access to the bridge.\<close>

lemma stage_of_other_file:
  assumes "resolve_under_root os (lit ''bundles.txt'') w d = Some p" and "dr_bridge_name d = lit ''x.exe''"
  shows "RdpdrFileAccess \<in> set (dr_stages (snd (snd
    (handle_create os stamp io FileOpen (lit ''bundles.txt'') w d))))"
proof -
  have n: "normalize_path (lit ''bundles.txt'') = lit ''bundles.txt''" "lit ''bundles.txt'' \<noteq> []"
    "\<not> eq_ignore_ascii_case (trim_end_backslash (lit ''bundles.txt'')) (lit ''bundle'')"
    "\<not> prefix (lit ''bundle/'') (to_slashes (lit ''bundles.txt''))"
    "prefix (lit ''bundle'') (lit ''bundles.txt'')"
    "\<not> eq_ignore_ascii_case (lit ''bundles.txt'') (lit ''x.exe'')"
    by (simp_all add: normalize_path_def trim_end_backslash_def eq_ignore_ascii_case_def
        to_ascii_lowercase_def to_slashes_def lit_def backslash_def)
  have "create_entry os stamp FileOpen (lit ''bundles.txt'') w d = (Some (FileEntry p), w, d)"
    using n assms by (simp add: create_entry_def)
  with n show ?thesis
    by (simp add: handle_create_def allocate_file_id_def record_stage_def Let_def)
qed

end
