(* ===== verification/Webm_Writer.thy ===== *)
theory Webm_Writer
  imports Rd_Text
begin

text \<open>
  The WebM writer of a recording segment (\<open>rdpilot-daemon/src/recording/webm.rs\<close>): EBML
  elements, blocks and clusters, and \<open>SegmentWriter\<close> from its header to \<open>finish\<close>. Numbers
  are naturals that the callers keep below \<open>2 ^ 64\<close>; a write to the file may fail, which
  the oracle \<open>ok\<close> says by file position. The AV1 sequence header of the first packet and
  the encoding of the duration (an IEEE double) are arguments.
\<close>

type_synonym bytes = "u8 list"

subsection \<open>Big-endian bytes\<close>

fun be_bytes :: "nat \<Rightarrow> nat \<Rightarrow> bytes" where
  "be_bytes 0 n = []"
| "be_bytes (Suc k) n = be_bytes k (n div 256) @ [of_nat (n mod 256)]"

definition from_be :: "bytes \<Rightarrow> nat" where
  "from_be bs = foldl (\<lambda>a b. 256 * a + unat b) 0 bs"

lemma length_be_bytes [simp]: "length (be_bytes k n) = k"
  by (induction k arbitrary: n) auto

lemma from_be_snoc: "from_be (bs @ [b]) = 256 * from_be bs + unat b"
  by (simp add: from_be_def)

lemma unat_byte: "n < 256 \<Longrightarrow> unat (of_nat n :: u8) = n"
  by (simp add: unat_of_nat)

lemma from_be_bytes: "from_be (be_bytes k n) = n mod 256 ^ k"
proof (induction k arbitrary: n)
  case 0
  show ?case by (simp add: from_be_def)
next
  case (Suc k)
  have "n mod 256 ^ Suc k = 256 * (n div 256 mod 256 ^ k) + n mod 256"
    by (simp add: mod_mult2_eq mult.commute)
  with Suc show ?case by (simp add: from_be_snoc unat_byte)
qed

lemma be_bytes_append:
  "be_bytes (j + k) n = be_bytes j (n div 256 ^ k) @ be_bytes k n"
  by (induction k arbitrary: n) (simp_all add: div_mult2_eq)

lemma be_bytes_drop: "j + k = m \<Longrightarrow> drop j (be_bytes m n) = be_bytes k n"
  using be_bytes_append [of j k n] by auto

lemma be_bytes_hd:
  "be_bytes (Suc k) n = of_nat (n div 256 ^ k mod 256) # be_bytes k n"
  using be_bytes_append [of 1 k n] by simp

subsection \<open>EBML elements\<close>

definition EBML :: nat where "EBML = 0x1A45DFA3"
definition SEGMENT :: nat where "SEGMENT = 0x18538067"
definition SEEK_HEAD :: nat where "SEEK_HEAD = 0x114D9B74"
definition SEEK :: nat where "SEEK = 0x4DBB"
definition SEEK_ID :: nat where "SEEK_ID = 0x53AB"
definition SEEK_POSITION :: nat where "SEEK_POSITION = 0x53AC"
definition INFO :: nat where "INFO = 0x1549A966"
definition TRACKS :: nat where "TRACKS = 0x1654AE6B"
definition CLUSTER :: nat where "CLUSTER = 0x1F43B675"
definition CUES :: nat where "CUES = 0x1C53BB6B"
definition MAX_RELATIVE :: nat where "MAX_RELATIVE = 32767"

lemmas id_defs = EBML_def SEGMENT_def SEEK_HEAD_def SEEK_def SEEK_ID_def SEEK_POSITION_def
  INFO_def TRACKS_def CLUSTER_def CUES_def

definition id_bytes :: "nat \<Rightarrow> bytes" where
  "id_bytes i = dropWhile (\<lambda>b. b = 0) (be_bytes 4 i)"

definition fixed_size :: "nat \<Rightarrow> bytes" where
  "fixed_size n = 1 # tl (be_bytes 8 n)"

definition size_bytes :: "nat \<Rightarrow> bytes" where
  "size_bytes n =
     (case find (\<lambda>len. n < 2 ^ (7 * len) - 1) [1..<9] of
        Some len \<Rightarrow> drop (8 - len) (be_bytes 8 (n + 2 ^ (7 * len)))
      | None \<Rightarrow> fixed_size n)"

definition element :: "nat \<Rightarrow> bytes \<Rightarrow> bytes" where
  "element i payload = id_bytes i @ size_bytes (length payload) @ payload"

definition uint :: "nat \<Rightarrow> nat \<Rightarrow> bytes" where
  "uint i value =
     (let bytes = be_bytes 8 value;
          skip = min 7 (length (takeWhile (\<lambda>b. b = 0) bytes))
      in element i (drop skip bytes))"

definition ascii :: "string \<Rightarrow> bytes" where
  "ascii s = map of_char s"

definition text_element :: "nat \<Rightarrow> string \<Rightarrow> bytes" where
  "text_element i s = element i (ascii s)"

definition ebml_header :: bytes where
  "ebml_header = element EBML
     (uint 0x4286 1 @ uint 0x42F7 1 @ uint 0x42F2 4 @ uint 0x42F3 8 @ text_element 0x4282 ''webm''
      @ uint 0x4287 4 @ uint 0x4285 2)"

definition tracks :: "nat \<Rightarrow> nat \<Rightarrow> bytes \<Rightarrow> bytes" where
  "tracks width height codec_private =
     (let colour = uint 0x55B1 1 @ uint 0x55B9 1 @ uint 0x55BA 1 @ uint 0x55BB 1;
          video = uint 0xB0 width @ uint 0xBA height @ element 0x55B0 colour;
          entry = uint 0xD7 1 @ uint 0x73C5 1 @ uint 0x83 1 @ uint 0x9C 0 @ text_element 0x86 ''V_AV1''
            @ element 0x63A2 codec_private @ element 0xE0 video
      in element TRACKS (element 0xAE entry))"

subsection \<open>Blocks\<close>

definition block_payload :: "nat \<Rightarrow> bool \<Rightarrow> bytes \<Rightarrow> bytes" where
  "block_payload relative key data =
     0x81 # be_bytes 2 (min relative 32767) @ [if key then 0x80 else 0] @ data"

record block =
  bl_key :: bool
  bl_data :: bytes
  bl_duration :: "nat option"
  bl_reference :: "int option"

definition encode_block :: "block \<Rightarrow> nat \<Rightarrow> bytes" where
  "encode_block b relative =
     (case bl_duration b of
        None \<Rightarrow> element 0xA3 (block_payload relative (bl_key b) (bl_data b))
      | Some duration \<Rightarrow>
          element 0xA0 (element 0xA1 (block_payload relative False (bl_data b))
            @ uint 0x9B duration
            @ (case bl_reference b of
                 None \<Rightarrow> []
               | Some r \<Rightarrow> element 0xFB (be_bytes 8 (nat (r mod 2 ^ 64))))))"

subsection \<open>The writer\<close>

record held_frame =
  hd_timestamp :: nat
  hd_key :: bool
  hd_data :: bytes
  hd_previous :: "nat option"

record cluster =
  cl_timestamp :: nat
  cl_body :: bytes

record segment_writer =
  sw_file :: bytes
  sw_width :: nat
  sw_height :: nat
  sw_codec_config :: bytes
  sw_data_start :: nat
  sw_size_at :: nat
  sw_duration_at :: nat
  sw_cues_position_at :: nat
  sw_written :: nat
  sw_cluster :: "cluster option"
  sw_held :: "held_frame option"
  sw_cues :: "(nat \<times> nat) list"
  sw_frames :: nat
  sw_last :: nat

definition create_writer :: "nat \<Rightarrow> nat \<Rightarrow> bytes \<Rightarrow> segment_writer" where
  "create_writer width height codec_config =
     \<lparr>sw_file = [], sw_width = width, sw_height = height, sw_codec_config = codec_config,
      sw_data_start = 0, sw_size_at = 0, sw_duration_at = 0, sw_cues_position_at = 0,
      sw_written = 0, sw_cluster = None, sw_held = None, sw_cues = [], sw_frames = 0, sw_last = 0\<rparr>"

definition put :: "(nat \<Rightarrow> bool) \<Rightarrow> bytes \<Rightarrow> segment_writer \<Rightarrow> segment_writer option" where
  "put ok bs w =
     (if ok (sw_written w)
      then Some (w\<lparr>sw_file := sw_file w @ bs, sw_written := sw_written w + length bs\<rparr>) else None)"

definition overwrite :: "nat \<Rightarrow> bytes \<Rightarrow> bytes \<Rightarrow> bytes" where
  "overwrite start bs c = take start c @ bs @ drop (start + length bs) c"

definition seek_entry :: "nat \<Rightarrow> bytes" where
  "seek_entry i = element SEEK
     (element SEEK_ID (id_bytes i) @ id_bytes SEEK_POSITION @ size_bytes 8 @ replicate 8 0)"

text \<open>The offsets of the three \<open>SeekPosition\<close> payloads, from the offset \<open>start\<close> on.\<close>

fun position_at :: "nat \<Rightarrow> bytes list \<Rightarrow> nat list" where
  "position_at start [] = []"
| "position_at start (e # es) = (start + length e - 8) # position_at (start + length e) es"

definition seek_entries :: "bytes list" where
  "seek_entries = [seek_entry INFO, seek_entry TRACKS, seek_entry CUES]"

definition blank_seek_head :: bytes where
  "blank_seek_head = element SEEK_HEAD (concat seek_entries)"

definition seek_positions :: "nat list" where
  "seek_positions = position_at (length blank_seek_head - length (concat seek_entries)) seek_entries"

definition info_start :: bytes where
  "info_start = uint 0x2AD7B1 1000000 @ text_element 0x4D80 ''rdpilot'' @ text_element 0x5741 ''rdpilot''"

definition info_body :: "bytes \<Rightarrow> bytes" where
  "info_body duration = info_start @ id_bytes 0x4489 @ size_bytes 8 @ duration"

text \<open>\<open>duration_zero\<close> is the double 0.0; \<open>sequence_header\<close> finds the OBU in the packet.\<close>

definition write_header ::
  "(nat \<Rightarrow> bool) \<Rightarrow> (bytes \<Rightarrow> bytes option) \<Rightarrow> bytes \<Rightarrow> bytes \<Rightarrow> segment_writer \<Rightarrow> segment_writer option" where
  "write_header ok sequence_header duration_zero first_packet w =
     (let codec_private = sw_codec_config w
            @ (case sequence_header first_packet of Some obu \<Rightarrow> obu | None \<Rightarrow> [])
      in Option.bind (put ok ebml_header w) (\<lambda>w.
         Option.bind (put ok (id_bytes SEGMENT @ fixed_size 0)
             (w\<lparr>sw_size_at := sw_written w + length (id_bytes SEGMENT)\<rparr>)) (\<lambda>w.
           let w = w\<lparr>sw_data_start := sw_written w\<rparr>;
               info = element INFO (info_body duration_zero);
               info_pos = sw_written w + length blank_seek_head - sw_data_start w;
               tracks_pos = info_pos + length info;
               seek_head = overwrite (seek_positions ! 1) (be_bytes 8 tracks_pos)
                 (overwrite (seek_positions ! 0) (be_bytes 8 info_pos) blank_seek_head)
           in Option.bind (put ok seek_head
                  (w\<lparr>sw_cues_position_at := sw_written w + seek_positions ! 2\<rparr>)) (\<lambda>w.
              Option.bind (put ok info (w\<lparr>sw_duration_at := sw_written w
                  + (length info - length (info_body duration_zero) + length info_start) + 3\<rparr>)) (\<lambda>w.
                put ok (tracks (sw_width w) (sw_height w) codec_private) w)))))"

definition flush_cluster :: "(nat \<Rightarrow> bool) \<Rightarrow> segment_writer \<Rightarrow> segment_writer option" where
  "flush_cluster ok w =
     (case sw_cluster w of
        None \<Rightarrow> Some w
      | Some c \<Rightarrow>
          let w = w\<lparr>sw_cluster := None\<rparr>;
              position = sw_written w - sw_data_start w;
              w = (if sw_cues w = [] then w\<lparr>sw_cues := [(cl_timestamp c, position)]\<rparr> else w)
          in put ok (element CLUSTER (uint 0xE7 (cl_timestamp c) @ cl_body c)) w)"

definition emit :: "(nat \<Rightarrow> bool) \<Rightarrow> nat \<Rightarrow> block \<Rightarrow> segment_writer \<Rightarrow> segment_writer option" where
  "emit ok timestamp b w =
     (let fits = (case sw_cluster w of None \<Rightarrow> False | Some c \<Rightarrow> timestamp - cl_timestamp c \<le> MAX_RELATIVE)
      in Option.bind
           (if fits then Some w
            else map_option (\<lambda>w. w\<lparr>sw_cluster := Some \<lparr>cl_timestamp = timestamp, cl_body = []\<rparr>\<rparr>)
                   (flush_cluster ok w))
           (\<lambda>w. Some (case sw_cluster w of
              None \<Rightarrow> w
            | Some c \<Rightarrow> w\<lparr>sw_cluster := Some (c\<lparr>cl_body := cl_body c
                  @ encode_block b (timestamp - cl_timestamp c)\<rparr>)\<rparr>)))"

definition emit_held :: "(nat \<Rightarrow> bool) \<Rightarrow> nat option \<Rightarrow> segment_writer \<Rightarrow> segment_writer option" where
  "emit_held ok end_at w =
     (case sw_held w of
        None \<Rightarrow> Some w
      | Some h \<Rightarrow>
          emit ok (hd_timestamp h)
            \<lparr>bl_key = hd_key h, bl_data = hd_data h,
             bl_duration = map_option (\<lambda>e. max (e - hd_timestamp h) 1) end_at,
             bl_reference =
               if end_at = None \<or> hd_key h then None
               else Some (- max (int (hd_timestamp h - (case hd_previous h of Some p \<Rightarrow> p | None \<Rightarrow> hd_timestamp h))) 1)\<rparr>
            (w\<lparr>sw_held := None\<rparr>))"

definition write_frame ::
  "(nat \<Rightarrow> bool) \<Rightarrow> (bytes \<Rightarrow> bytes option) \<Rightarrow> bytes \<Rightarrow> nat \<Rightarrow> bytes \<Rightarrow> bool \<Rightarrow> segment_writer
    \<Rightarrow> segment_writer option" where
  "write_frame ok sequence_header duration_zero timestamp data key w =
     Option.bind (if sw_data_start w = 0 then write_header ok sequence_header duration_zero data w else Some w)
       (\<lambda>w. let timestamp = max timestamp (sw_last w)
            in map_option
                 (\<lambda>w. w\<lparr>sw_held := Some \<lparr>hd_timestamp = timestamp, hd_key = key, hd_data = data,
                          hd_previous = if 0 < sw_frames w then Some (sw_last w) else None\<rparr>,
                        sw_last := timestamp, sw_frames := sw_frames w + 1\<rparr>)
                 (emit_held ok None w))"

definition writer_bytes :: "segment_writer \<Rightarrow> nat" where
  "writer_bytes w =
     sw_written w + (case sw_cluster w of None \<Rightarrow> 0 | Some c \<Rightarrow> length (cl_body c))
     + (case sw_held w of None \<Rightarrow> 0 | Some h \<Rightarrow> length (hd_data h))"

definition cue_point :: "nat \<times> nat \<Rightarrow> bytes" where
  "cue_point = (\<lambda>(time, position).
     element 0xBB (uint 0xB3 time @ element 0xB7 (uint 0xF7 1 @ uint 0xF1 position)))"

text \<open>
  The result: its size, and the file renamed into place, or no file at all. \<open>commits\<close> says
  whether the patches, the flush to disk and the rename (or the removal) succeed.
\<close>

definition finish_segment ::
  "(nat \<Rightarrow> bool) \<Rightarrow> bool \<Rightarrow> (nat \<Rightarrow> bytes) \<Rightarrow> nat \<Rightarrow> segment_writer \<Rightarrow> (nat \<times> bytes option) option" where
  "finish_segment ok commits f64 end_at w =
     Option.bind (emit_held ok (Some end_at) w) (\<lambda>w.
     Option.bind (flush_cluster ok w) (\<lambda>w.
       if sw_data_start w = 0 then (if commits then Some (0, None) else None)
       else
         let cues_pos = sw_written w - sw_data_start w
         in Option.bind (put ok (element CUES (concat (map cue_point (sw_cues w)))) w)
              (\<lambda>w. if \<not> commits then None else Some (sw_written w, Some
                 (overwrite (sw_cues_position_at w) (be_bytes 8 cues_pos)
                 (overwrite (sw_duration_at w) (f64 (max end_at (sw_last w + 1)))
                 (overwrite (sw_size_at w) (fixed_size (sw_written w - sw_data_start w))
                   (sw_file w))))))))"

end
