(* ===== verification/Webm_Demux.thy ===== *)
theory Webm_Demux
  imports Webm_Writer
begin

text \<open>
  A reader of EBML elements, and what a demuxer finds in a finished segment: the frames
  that were written, each with its time, key flag and bytes.
\<close>

subsection \<open>Reading elements\<close>

definition id_len :: "nat \<Rightarrow> nat" where
  "id_len b = (if 128 \<le> b then 1 else if 64 \<le> b then 2 else if 32 \<le> b then 3 else if 16 \<le> b then 4 else 0)"

definition size_len :: "nat \<Rightarrow> nat" where
  "size_len b = (if 128 \<le> b then 1 else if 64 \<le> b then 2 else if 32 \<le> b then 3 else if 16 \<le> b then 4
     else if 8 \<le> b then 5 else if 4 \<le> b then 6 else if 2 \<le> b then 7 else if 1 \<le> b then 8 else 0)"

definition read_number :: "(nat \<Rightarrow> nat) \<Rightarrow> bytes \<Rightarrow> (nat \<times> nat \<times> bytes) option" where
  "read_number len bs =
     (case bs of
        [] \<Rightarrow> None
      | b # _ \<Rightarrow>
          let k = len (unat b)
          in if k = 0 \<or> length bs < k then None else Some (k, from_be (take k bs), drop k bs))"

definition read_element :: "bytes \<Rightarrow> (nat \<times> bytes \<times> bytes) option" where
  "read_element bs =
     Option.bind (read_number id_len bs) (\<lambda>(_, i, bs).
     Option.bind (read_number size_len bs) (\<lambda>(k, m, bs).
       let n = m - 2 ^ (7 * k)
       in if length bs < n then None else Some (i, take n bs, drop n bs)))"

lemma read_number_shorter: "read_number len bs = Some (k, n, rest) \<Longrightarrow> length rest < length bs"
  by (auto simp: read_number_def Let_def split: list.splits if_splits)

lemma read_element_shorter: "read_element bs = Some (i, p, rest) \<Longrightarrow> length rest < length bs"
  by (auto simp: read_element_def bind_eq_Some_conv Let_def split: if_splits dest!: read_number_shorter)

function read_elements :: "bytes \<Rightarrow> (nat \<times> bytes) list option" where
  "read_elements bs =
     (if bs = [] then Some []
      else case read_element bs of
             None \<Rightarrow> None
           | Some (i, p, rest) \<Rightarrow> map_option (Cons (i, p)) (read_elements rest))"
  by pat_completeness auto
termination by (relation "measure length") (auto dest: read_element_shorter)

declare read_elements.simps [simp del]

lemma read_elements_Nil [simp]: "read_elements [] = Some []"
  by (subst read_elements.simps) simp

lemma read_number_whole:
  assumes "bs \<noteq> []" "len (unat (hd bs)) = length bs"
  shows "read_number len (bs @ rest) = Some (length bs, from_be bs, rest)"
proof -
  obtain b cs where bs: "bs = b # cs" using assms(1) by (cases bs) auto
  then have "len (unat b) = length bs" using assms(2) by simp
  then show ?thesis by (simp add: read_number_def bs Let_def)
qed

lemma read_number_append:
  assumes "read_number len bs = Some (k, n, [])"
  shows "read_number len (bs @ rest) = Some (k, n, rest)"
proof -
  obtain b cs where bs: "bs = b # cs" using assms by (cases bs) (simp_all add: read_number_def)
  with assms have "len (unat b) = k" "k \<noteq> 0" "k = length bs" "n = from_be bs"
    by (auto simp: read_number_def Let_def split: if_splits)
  then show ?thesis using read_number_whole [of bs len rest] bs by simp
qed

text \<open>Which ids the reader gives back.\<close>

definition valid_id :: "nat \<Rightarrow> bool" where
  "valid_id i \<longleftrightarrow> (\<exists>k. read_number id_len (id_bytes i) = Some (k, i, []))"

lemma size_first_byte:
  assumes "1 \<le> len" "len \<le> 8" "n < 2 ^ (7 * len)"
  shows "size_len ((n + 2 ^ (7 * len)) div 256 ^ (len - 1) mod 256) = len"
proof -
  let ?m = "n + 2 ^ (7 * len)"
  have "len \<in> {1, 2, 3, 4, 5, 6, 7, 8}" using assms by auto
  then have "2 ^ (8 - len) \<le> ?m div 256 ^ (len - 1) \<and> ?m div 256 ^ (len - 1) < 2 ^ (9 - len)"
    using assms(3)
    by (elim insertE emptyE; simp add: div_le_mono less_mult_imp_div_less div_less_iff_less_mult
        less_eq_div_iff_mult_less_eq)
  with \<open>len \<in> _\<close> show ?thesis
    by (elim insertE emptyE) (simp_all add: size_len_def)
qed

lemma read_marked:
  assumes "1 \<le> len" "len \<le> 8" "n < 2 ^ (7 * len)"
  shows "read_number size_len (drop (8 - len) (be_bytes 8 (n + 2 ^ (7 * len))) @ rest)
    = Some (len, n + 2 ^ (7 * len), rest)"
proof -
  obtain k where k: "len = Suc k" using assms(1) by (cases len) auto
  have d: "drop (8 - len) (be_bytes 8 (n + 2 ^ (7 * len))) = be_bytes len (n + 2 ^ (7 * len))"
    by (rule be_bytes_drop) (use assms in simp)
  have "(2::nat) ^ (7 * len) + 2 ^ (7 * len) \<le> 2 ^ (8 * len)"
    using assms(1) power_increasing [of "7 * len + 1" "8 * len" "2::nat"] by simp
  then have m: "n + 2 ^ (7 * len) < 256 ^ len"
    using assms(3) power_mult [of "2::nat" 8 len] by simp
  have "size_len (unat (hd (be_bytes len (n + 2 ^ (7 * len))))) = len"
    using size_first_byte [OF assms] by (simp add: k be_bytes_hd unat_byte del: be_bytes.simps)
  moreover have "be_bytes len (n + 2 ^ (7 * len)) \<noteq> []" using k by (simp add: be_bytes_hd del: be_bytes.simps)
  ultimately have "read_number size_len (be_bytes len (n + 2 ^ (7 * len)) @ rest)
    = Some (len, from_be (be_bytes len (n + 2 ^ (7 * len))), rest)"
    using read_number_whole [of "be_bytes len (n + 2 ^ (7 * len))" size_len rest] by simp
  then show ?thesis using m unfolding d by (simp add: from_be_bytes)
qed

lemma read_size:
  assumes "n < 2 ^ 56 - 1"
  shows "\<exists>k. read_number size_len (size_bytes n @ rest) = Some (k, n + 2 ^ (7 * k), rest)"
proof -
  obtain len where f: "find (\<lambda>len. n < 2 ^ (7 * len) - 1) [1..<9] = Some len"
  proof (cases "find (\<lambda>len. n < 2 ^ (7 * len) - 1) [1..<9]")
    case None
    then have "\<forall>x \<in> set [1..<9]. \<not> n < 2 ^ (7 * x) - 1" by (simp add: find_None_iff)
    moreover have "8 \<in> set [1..<(9::nat)]" by simp
    ultimately have "\<not> n < 2 ^ (7 * 8) - 1" by blast
    with assms show ?thesis by simp
  qed
  then have "1 \<le> len" "len \<le> 8" "n < 2 ^ (7 * len) - 1" by (auto simp: find_Some_iff)
  then have "1 \<le> len" "len \<le> 8" "n < 2 ^ (7 * len)" by simp_all
  from read_marked [OF this] show ?thesis unfolding size_bytes_def f option.case by blast
qed

lemma from_be_Cons: "from_be (b # bs) = unat b * 256 ^ length bs + from_be bs"
  by (induction bs rule: rev_induct)
    (simp add: from_be_def, simp add: from_be_snoc algebra_simps flip: append_Cons)

lemma read_fixed_size:
  assumes "n < 2 ^ 56"
  shows "read_number size_len (fixed_size n @ rest) = Some (8, n + 2 ^ 56, rest)"
proof -
  have t: "tl (be_bytes 8 n) = be_bytes 7 n" using be_bytes_hd [of 7 n] by simp
  have "from_be (fixed_size n) = n + 2 ^ 56"
    using assms by (simp add: fixed_size_def t from_be_Cons from_be_bytes del: be_bytes.simps)
  then show ?thesis
    using read_number_whole [of "fixed_size n" size_len rest]
    by (simp add: fixed_size_def size_len_def)
qed

lemma read_element_element:
  assumes "valid_id i" "length p < 2 ^ 56 - 1"
  shows "read_element (element i p @ rest) = Some (i, p, rest)"
proof -
  obtain k where "read_number id_len (id_bytes i) = Some (k, i, [])"
    using assms(1) by (auto simp: valid_id_def)
  from read_number_append [OF this]
  have i: "read_number id_len (id_bytes i @ r) = Some (k, i, r)" for r .
  obtain k' where "read_number size_len (size_bytes (length p) @ (p @ rest))
    = Some (k', length p + 2 ^ (7 * k'), p @ rest)"
    using read_size [OF assms(2)] by blast
  then show ?thesis by (simp add: read_element_def element_def i)
qed

lemma read_elements_element:
  assumes "valid_id i" "length p < 2 ^ 56 - 1"
  shows "read_elements (element i p @ rest) = map_option (Cons (i, p)) (read_elements rest)"
proof -
  have "element i p @ rest \<noteq> []"
    using read_element_element [OF assms, of rest]
    by (auto simp: read_element_def read_number_def)
  then show ?thesis
    by (subst read_elements.simps) (simp add: read_element_element [OF assms])
qed

lemma be_bytes_2: "be_bytes 2 n = [of_nat (n div 256 mod 256), of_nat (n mod 256)]"
  by (simp add: numeral_2_eq_2)

lemma be_bytes_4:
  "be_bytes 4 n = [of_nat (n div 16777216 mod 256), of_nat (n div 65536 mod 256),
     of_nat (n div 256 mod 256), of_nat (n mod 256)]"
  using be_bytes_hd [of 3 n] be_bytes_hd [of 2 n] by (simp add: be_bytes_2)

lemma valid_ids:
  "valid_id EBML" "valid_id SEGMENT" "valid_id SEEK_HEAD" "valid_id INFO" "valid_id TRACKS"
  "valid_id CLUSTER" "valid_id CUES" "valid_id 0xE7" "valid_id 0xA0" "valid_id 0xA1" "valid_id 0xA3"
  "valid_id 0x9B" "valid_id 0xFB"
  unfolding valid_id_def id_defs id_bytes_def be_bytes_4
  by (simp_all add: read_number_def id_len_def from_be_def)

lemma length_id_bytes: "length (id_bytes i) \<le> 4"
  unfolding id_bytes_def using length_dropWhile_le [of "\<lambda>b. b = 0" "be_bytes 4 i"] by simp

lemma length_size_bytes: "length (size_bytes n) \<le> 8"
  by (auto simp: size_bytes_def fixed_size_def split: option.split)

lemma length_element: "length p \<le> length (element i p)" "length (element i p) \<le> length p + 12"
  using length_id_bytes [of i] length_size_bytes [of "length p"] by (simp_all add: element_def)

text \<open>An integer element holds its value, without leading zeros.\<close>

definition uint_bytes :: "nat \<Rightarrow> bytes" where
  "uint_bytes value = drop (min 7 (length (takeWhile (\<lambda>b. b = 0) (be_bytes 8 value)))) (be_bytes 8 value)"

lemma uint_element: "uint i value = element i (uint_bytes value)"
  by (simp add: uint_def uint_bytes_def Let_def)

lemma length_uint_bytes: "length (uint_bytes value) \<le> 8"
  by (simp add: uint_bytes_def)

lemma from_be_zeros: "\<forall>b \<in> set zs. b = 0 \<Longrightarrow> from_be (zs @ bs) = from_be bs"
  by (induction zs) (simp_all add: from_be_Cons)

lemma from_uint_bytes: "value < 2 ^ 64 \<Longrightarrow> from_be (uint_bytes value) = value"
proof -
  assume v: "value < 2 ^ 64"
  let ?bs = "be_bytes 8 value"
  let ?k = "min 7 (length (takeWhile (\<lambda>b. b = 0) ?bs))"
  have "\<forall>b \<in> set (take ?k ?bs). b = 0"
  proof
    fix b assume "b \<in> set (take ?k ?bs)"
    then have "b \<in> set (take (length (takeWhile (\<lambda>b. b = 0) ?bs)) ?bs)"
      using set_take_subset_set_take [of ?k "length (takeWhile (\<lambda>b. b = 0) ?bs)" ?bs] by auto
    then show "b = 0" by (auto simp: takeWhile_eq_take [symmetric] dest: set_takeWhileD)
  qed
  then have "from_be (take ?k ?bs @ drop ?k ?bs) = from_be (uint_bytes value)"
    unfolding uint_bytes_def by (rule from_be_zeros)
  then show ?thesis using v by (simp add: from_be_bytes del: be_bytes.simps)
qed

lemma read_elements_concat:
  "\<forall>(i, p) \<in> set xs. valid_id i \<and> length p < 2 ^ 56 - 1 \<Longrightarrow>
    read_elements (concat (map (\<lambda>(i, p). element i p) xs) @ rest) = map_option (append xs) (read_elements rest)"
proof (induction xs)
  case Nil
  show ?case by (cases "read_elements rest") simp_all
next
  case (Cons x xs)
  then show ?case
    by (cases x) (simp add: read_elements_element option.map_comp comp_def)
qed

subsection \<open>Blocks and clusters\<close>

definition decode_payload :: "bytes \<Rightarrow> (nat \<times> bool \<times> bytes) option" where
  "decode_payload p =
     (case p of _ # a # b # f # data \<Rightarrow> Some (from_be [a, b], 128 \<le> unat f, data) | _ \<Rightarrow> None)"

definition decode_block :: "nat \<times> bytes \<Rightarrow> (nat \<times> bool \<times> bytes) option" where
  "decode_block = (\<lambda>(i, p).
     if i = 0xA3 then decode_payload p
     else if i = 0xA0 then Option.bind (read_elements p) (\<lambda>es.
       case es of
         (j, q) # others \<Rightarrow>
           if j = 0xA1 then map_option (\<lambda>(r, _, data). (r, list_all (\<lambda>(j, _). j \<noteq> 0xFB) others, data))
             (decode_payload q)
           else None
       | [] \<Rightarrow> None)
     else None)"

definition decode_cluster :: "bytes \<Rightarrow> (nat \<times> bool \<times> bytes) list option" where
  "decode_cluster p = Option.bind (read_elements p) (\<lambda>es.
     case es of
       (j, t) # blocks \<Rightarrow>
         if j = 0xE7 then map_option (map (\<lambda>(r, key, data). (from_be t + r, key, data)))
           (those (map decode_block blocks))
         else None
     | [] \<Rightarrow> None)"

definition segment_frames :: "(nat \<times> bytes) list \<Rightarrow> (nat \<times> bool \<times> bytes) list option" where
  "segment_frames es =
     map_option concat (those (map (\<lambda>(_, p). decode_cluster p) (filter (\<lambda>(i, _). i = CLUSTER) es)))"

definition demux :: "bytes \<Rightarrow> (nat \<times> bool \<times> bytes) list option" where
  "demux bs = Option.bind (read_elements bs) (\<lambda>es.
     case es of
       [(a, _), (b, s)] \<Rightarrow>
         if a = EBML \<and> b = SEGMENT then Option.bind (read_elements s) segment_frames else None
     | _ \<Rightarrow> None)"

text \<open>A block as an element, and what a player takes for its key flag.\<close>

definition block_element :: "block \<Rightarrow> nat \<Rightarrow> nat \<times> bytes" where
  "block_element b relative =
     (case bl_duration b of
        None \<Rightarrow> (0xA3, block_payload relative (bl_key b) (bl_data b))
      | Some duration \<Rightarrow>
          (0xA0, concat (map (\<lambda>(i, p). element i p)
            ([(0xA1, block_payload relative False (bl_data b)), (0x9B, uint_bytes duration)]
             @ (case bl_reference b of
                  None \<Rightarrow> [] | Some r \<Rightarrow> [(0xFB, be_bytes 8 (nat (r mod 2 ^ 64)))])))))"

definition shown_key :: "block \<Rightarrow> bool" where
  "shown_key b = (if bl_duration b = None then bl_key b else bl_reference b = None)"

lemma encode_block_element: "encode_block b r = (case block_element b r of (i, p) \<Rightarrow> element i p)"
  by (simp add: encode_block_def block_element_def uint_element split: option.split)

lemma decode_block_payload:
  "r \<le> 32767 \<Longrightarrow> decode_payload (block_payload r key data) = Some (r, key, data)"
  by (simp add: decode_payload_def block_payload_def be_bytes_2 from_be_Cons unat_byte)
    (simp add: from_be_def)

lemma length_block_payload: "length (block_payload r key data) = length data + 4"
  by (simp add: block_payload_def)

lemma decode_block_element:
  assumes "r \<le> 32767" and small: "length (encode_block b r) < 2 ^ 56 - 1"
  shows "decode_block (block_element b r) = Some (r, shown_key b, bl_data b)"
proof (cases "bl_duration b")
  case None
  then show ?thesis
    using assms(1) by (simp add: block_element_def decode_block_def shown_key_def decode_block_payload)
next
  case (Some d)
  let ?xs = "[(0xA1, block_payload r False (bl_data b)), (0x9B, uint_bytes d)]
    @ (case bl_reference b of None \<Rightarrow> [] | Some r \<Rightarrow> [(0xFB, be_bytes 8 (nat (r mod 2 ^ 64)))])"
  let ?p = "concat (map (\<lambda>(i, p). element i p) ?xs)"
  have "length ?p < 2 ^ 56 - 1"
    using small length_element(1) [of ?p "0xA0"] Some
    by (simp add: encode_block_element block_element_def)
  then have "length (block_payload r False (bl_data b)) < 2 ^ 56 - 1"
    using length_element(1) [of "block_payload r False (bl_data b)" "0xA1"] by simp
  then have "\<forall>(i, p) \<in> set ?xs. valid_id i \<and> length p < 2 ^ 56 - 1"
    using length_uint_bytes [of d] valid_ids by (auto simp del: be_bytes.simps split: option.splits)
  from read_elements_concat [OF this, of "[]"] have "read_elements ?p = Some ?xs" by simp
  then show ?thesis
    using assms(1) Some
    by (simp add: block_element_def decode_block_def shown_key_def decode_block_payload split: option.split)
qed

lemma block_element_valid: "valid_id (fst (block_element b r))"
  by (simp add: block_element_def valid_ids split: option.split)

end
