(* ===== verification/Webm_Roundtrip.thy ===== *)
theory Webm_Roundtrip
  imports Webm_Demux
begin

text \<open>
  The bytes of a segment while it is written, and the round trip: a demuxer finds in a
  finished segment the frames that were written, with their times made monotone.
\<close>

subsection \<open>Clusters\<close>

type_synonym cluster_plan = "nat \<times> (nat \<times> block) list"

definition plan_body :: "(nat \<times> block) list \<Rightarrow> bytes" where
  "plan_body bs = concat (map (\<lambda>(r, b). encode_block b r) bs)"

definition plan_bytes :: "cluster_plan \<Rightarrow> bytes" where
  "plan_bytes = (\<lambda>(t, bs). element CLUSTER (uint 0xE7 t @ plan_body bs))"

definition plan_blocks :: "cluster_plan \<Rightarrow> (nat \<times> block) list" where
  "plan_blocks = (\<lambda>(t, bs). map (\<lambda>(r, b). (t + r, b)) bs)"

definition plan_ok :: "cluster_plan \<Rightarrow> bool" where
  "plan_ok = (\<lambda>(t, bs). t < 2 ^ 64 \<and> (\<forall>(r, b) \<in> set bs. r \<le> 32767))"

definition block_frame :: "nat \<times> block \<Rightarrow> nat \<times> bool \<times> bytes" where
  "block_frame = (\<lambda>(t, b). (t, shown_key b, bl_data b))"

lemma those_map_Some: "(\<And>x. x \<in> set xs \<Longrightarrow> f x = Some (g x)) \<Longrightarrow> those (map f xs) = Some (map g xs)"
  by (induction xs) auto

lemma length_concat_member: "x \<in> set xs \<Longrightarrow> length x \<le> length (concat xs)"
  by (induction xs) auto

lemma plan_body_elements:
  "plan_body bs = concat (map (\<lambda>(i, p). element i p) (map (\<lambda>(r, b). block_element b r) bs))"
  by (simp add: plan_body_def encode_block_element comp_def case_prod_unfold)

lemma decode_plan:
  assumes ok: "plan_ok (t, bs)" and small: "length (uint 0xE7 t @ plan_body bs) < 2 ^ 56 - 1"
  shows "decode_cluster (uint 0xE7 t @ plan_body bs) = Some (map block_frame (plan_blocks (t, bs)))"
proof -
  let ?xs = "(0xE7, uint_bytes t) # map (\<lambda>(r, b). block_element b r) bs"
  have body: "uint 0xE7 t @ plan_body bs = concat (map (\<lambda>(i, p). element i p) ?xs)"
    by (simp add: uint_element plan_body_elements)
  have le: "length (encode_block b r) \<le> length (plan_body bs)" if "(r, b) \<in> set bs" for r b
    unfolding plan_body_def using that by (intro length_concat_member) force
  have "length (uint_bytes t) < 2 ^ 56 - 1" using length_uint_bytes [of t] by simp
  moreover have "length (snd (block_element b r)) < 2 ^ 56 - 1" if "(r, b) \<in> set bs" for r b
    using le [OF that] small length_element(1) [of "snd (block_element b r)" "fst (block_element b r)"]
    by (simp add: encode_block_element case_prod_unfold)
  ultimately have "\<forall>(i, p) \<in> set ?xs. valid_id i \<and> length p < 2 ^ 56 - 1"
    using valid_ids block_element_valid by (auto simp: split_beta)
  from read_elements_concat [OF this, of "[]"]
  have r: "read_elements (uint 0xE7 t @ plan_body bs) = Some ?xs" by (simp add: body)
  have "decode_block (block_element b r) = Some (r, shown_key b, bl_data b)" if "(r, b) \<in> set bs" for r b
    using le [OF that] small ok that by (intro decode_block_element) (auto simp: plan_ok_def)
  then have "those (map decode_block (map (\<lambda>(r, b). block_element b r) bs))
      = Some (map (\<lambda>(r, b). (r, shown_key b, bl_data b)) bs)"
    by (simp add: comp_def) (rule those_map_Some, auto)
  moreover have "from_be (uint_bytes t) = t" using ok by (intro from_uint_bytes) (simp add: plan_ok_def)
  ultimately show ?thesis
    by (simp add: decode_cluster_def r plan_blocks_def block_frame_def comp_def case_prod_unfold)
qed

subsection \<open>The writer between two frames\<close>

text \<open>
  After the header \<open>pre\<close> the file holds the closed clusters \<open>cls\<close>; the open one is \<open>cur\<close>.
  \<open>bnd\<close> is a bound of the times written.
\<close>

definition layout :: "segment_writer \<Rightarrow> bytes \<Rightarrow> cluster_plan list \<Rightarrow> cluster_plan option \<Rightarrow> nat \<Rightarrow> bool" where
  "layout w pre cls cur bnd \<longleftrightarrow>
     sw_file w = pre @ concat (map plan_bytes cls)
     \<and> sw_written w = length (sw_file w)
     \<and> sw_cluster w = map_option (\<lambda>(t, bs). \<lparr>cl_timestamp = t, cl_body = plan_body bs\<rparr>) cur
     \<and> list_all plan_ok cls \<and> pred_option plan_ok cur
     \<and> pred_option (\<lambda>(t, _). t \<le> bnd) cur"

definition planned :: "cluster_plan list \<Rightarrow> cluster_plan option \<Rightarrow> (nat \<times> block) list" where
  "planned cls cur = concat (map plan_blocks (cls @ (case cur of None \<Rightarrow> [] | Some c \<Rightarrow> [c])))"

text \<open>What the steps between two frames do not touch.\<close>

definition same_frame :: "segment_writer \<Rightarrow> segment_writer \<Rightarrow> bool" where
  "same_frame w w' \<longleftrightarrow> sw_data_start w' = sw_data_start w \<and> sw_size_at w' = sw_size_at w
     \<and> sw_duration_at w' = sw_duration_at w \<and> sw_cues_position_at w' = sw_cues_position_at w
     \<and> sw_held w' = sw_held w \<and> sw_last w' = sw_last w \<and> sw_frames w' = sw_frames w"

lemma flush_layout:
  assumes "layout w pre cls cur bnd" and "flush_cluster ok w = Some w'"
  shows "\<exists>cls'. layout w' pre cls' None bnd2 \<and> planned cls' None = planned cls cur \<and> same_frame w w'"
proof (cases cur)
  case None
  with assms show ?thesis
    by (intro exI [of _ cls]) (auto simp: flush_cluster_def layout_def same_frame_def)
next
  case (Some c)
  obtain t bs where c: "c = (t, bs)" by (cases c)
  from assms Some c have "layout w' pre (cls @ [(t, bs)]) None bnd2 \<and> same_frame w w'"
    by (auto simp: flush_cluster_def layout_def same_frame_def put_def plan_bytes_def Let_def
        split: if_splits)
  then show ?thesis using Some c by (intro exI [of _ "cls @ [(t, bs)]"]) (simp add: planned_def)
qed

lemma emit_layout:
  assumes l: "layout w pre cls cur bnd" and t: "bnd \<le> t" "t < 2 ^ 64"
    and e: "emit ok t b w = Some w'"
  shows "\<exists>cls' cur'. layout w' pre cls' cur' t \<and> planned cls' cur' = planned cls cur @ [(t, b)]
    \<and> same_frame w w'"
proof (cases "\<exists>u bs. cur = Some (u, bs) \<and> t - u \<le> MAX_RELATIVE")
  case True
  then obtain u bs where cur: "cur = Some (u, bs)" "t - u \<le> MAX_RELATIVE" by blast
  have "layout w' pre cls (Some (u, bs @ [(t - u, b)])) t \<and> same_frame w w'"
    using l t e cur
    by (auto simp: emit_def layout_def same_frame_def plan_ok_def plan_body_def MAX_RELATIVE_def)
  moreover have "u \<le> t" using l cur t by (auto simp: layout_def)
  ultimately show ?thesis
    using cur by (intro exI [of _ cls] exI [of _ "Some (u, bs @ [(t - u, b)])"])
      (simp add: planned_def plan_blocks_def)
next
  case False
  have "\<not> (case sw_cluster w of None \<Rightarrow> False | Some c \<Rightarrow> t - cl_timestamp c \<le> MAX_RELATIVE)"
    using l False by (auto simp: layout_def split: option.splits)
  then obtain w1 where w1: "flush_cluster ok w = Some w1"
    and w': "w' = w1\<lparr>sw_cluster := Some \<lparr>cl_timestamp = t, cl_body = encode_block b 0\<rparr>\<rparr>"
    using e by (auto simp: emit_def bind_eq_Some_conv)
  obtain cls' where "layout w1 pre cls' None t" "planned cls' None = planned cls cur" "same_frame w w1"
    using flush_layout [OF l w1, of t] by blast
  then show ?thesis
    using t w' by (intro exI [of _ cls'] exI [of _ "Some (t, [(0, b)])"])
      (auto simp: layout_def planned_def plan_blocks_def plan_ok_def plan_body_def same_frame_def)
qed

subsection \<open>The header\<close>

lemma overwrite_at: "length a = k \<Longrightarrow> length bs = length b \<Longrightarrow> overwrite k bs (a @ b @ c) = a @ bs @ c"
  by (simp add: overwrite_def)

definition zeros8 :: bytes where "zeros8 = replicate 8 0"

lemma length_zeros8 [simp]: "length zeros8 = 8"
  by (simp add: zeros8_def)

text \<open>The parts of the header around the eight bytes that are patched.\<close>

definition seek_pre :: "nat \<Rightarrow> bytes" where
  "seek_pre i =
     (let body = element SEEK_ID (id_bytes i) @ id_bytes SEEK_POSITION @ size_bytes 8
      in id_bytes SEEK @ size_bytes (length body + 8) @ body)"

definition seek_body :: "bytes \<Rightarrow> bytes \<Rightarrow> bytes \<Rightarrow> bytes" where
  "seek_body p q r = seek_pre INFO @ p @ seek_pre TRACKS @ q @ seek_pre CUES @ r"

lemma seek_entry_pre: "seek_entry i = seek_pre i @ zeros8"
  by (simp add: seek_entry_def element_def seek_pre_def zeros8_def Let_def add.assoc)

definition seek_len :: nat where
  "seek_len = length (seek_pre INFO) + length (seek_pre TRACKS) + length (seek_pre CUES) + 24"

lemma length_seek_body [simp]:
  "length p = 8 \<Longrightarrow> length q = 8 \<Longrightarrow> length r = 8 \<Longrightarrow> length (seek_body p q r) = seek_len"
  by (simp add: seek_body_def seek_len_def)

text \<open>An element whose payload changes in place keeps its head.\<close>

definition element_head :: "nat \<Rightarrow> nat \<Rightarrow> bytes" where
  "element_head i n = id_bytes i @ size_bytes n"

lemma element_head: "element i p = element_head i (length p) @ p"
  by (simp add: element_def element_head_def)

lemma duration_head: "length (id_bytes 0x4489) = 2" "length (size_bytes 8) = 1"
  by (simp add: id_bytes_def be_bytes_4)
    (simp add: size_bytes_def upt_rec del: be_bytes.simps)

definition header_bytes :: "bytes \<Rightarrow> bytes \<Rightarrow> bytes \<Rightarrow> bytes \<Rightarrow> bytes \<Rightarrow> bytes \<Rightarrow> bytes" where
  "header_bytes sz p q r f tr =
     (ebml_header @ id_bytes SEGMENT) @ sz @ element SEEK_HEAD (seek_body p q r)
     @ element INFO (info_body f) @ element TRACKS tr"

lemma seek_head_eq:
  "length p = 8 \<Longrightarrow> length q = 8 \<Longrightarrow> length r = 8 \<Longrightarrow>
    element SEEK_HEAD (seek_body p q r)
      = element_head SEEK_HEAD seek_len @ seek_pre INFO @ p @ seek_pre TRACKS @ q @ seek_pre CUES @ r"
  by (simp only: element_head length_seek_body) (simp only: seek_body_def append_assoc)

definition info_pre :: bytes where
  "info_pre = element_head INFO (length info_start + length (id_bytes 0x4489) + length (size_bytes 8) + 8)
     @ info_start @ id_bytes 0x4489 @ size_bytes 8"

lemma info_eq: "length f = 8 \<Longrightarrow> element INFO (info_body f) = info_pre @ f"
  by (simp add: element_head [of INFO] info_body_def info_pre_def add.assoc)

definition seek_head_pre :: "bytes \<Rightarrow> bytes \<Rightarrow> bytes" where
  "seek_head_pre p q = element_head SEEK_HEAD seek_len @ seek_pre INFO @ p @ seek_pre TRACKS @ q @ seek_pre CUES"

definition segment_start :: bytes where
  "segment_start = ebml_header @ id_bytes SEGMENT"

lemma header_eq:
  assumes "length p = 8" "length q = 8" "length r = 8" "length f = 8"
  shows "header_bytes sz p q r f tr
    = segment_start @ sz @ seek_head_pre p q @ r @ info_pre @ f @ element TRACKS tr"
  by (simp only: header_bytes_def seek_head_eq [OF assms(1-3)] info_eq [OF assms(4)] seek_head_pre_def
      segment_start_def append_assoc)

lemma patched_header:
  assumes "length p = 8" "length q = 8" "length r = 8" "length f = 8"
  shows "overwrite (length segment_start) (fixed_size n) (header_bytes (fixed_size 0) p q r f tr @ rest)
      = header_bytes (fixed_size n) p q r f tr @ rest"
    and "length sz = 8 \<Longrightarrow> length r' = 8 \<Longrightarrow>
      overwrite (length segment_start + 8 + length (seek_head_pre p q)) r' (header_bytes sz p q r f tr @ rest)
      = header_bytes sz p q r' f tr @ rest"
    and "length sz = 8 \<Longrightarrow> length f' = 8 \<Longrightarrow>
      overwrite (length segment_start + 8 + length (seek_head_pre p q) + 8 + length info_pre) f'
        (header_bytes sz p q r f tr @ rest) = header_bytes sz p q r f' tr @ rest"
proof -
  have fixed: "length (fixed_size m) = 8" for m by (simp add: fixed_size_def)
  note h = header_eq [OF assms(1,2)]
  show "overwrite (length segment_start) (fixed_size n) (header_bytes (fixed_size 0) p q r f tr @ rest)
      = header_bytes (fixed_size n) p q r f tr @ rest"
    unfolding h [OF assms(3,4)] append_assoc by (rule overwrite_at) (simp_all add: fixed)
  show "overwrite (length segment_start + 8 + length (seek_head_pre p q)) r' (header_bytes sz p q r f tr @ rest)
      = header_bytes sz p q r' f tr @ rest" if "length sz = 8" "length r' = 8"
    using overwrite_at [of "segment_start @ sz @ seek_head_pre p q" _ r' r
        "info_pre @ f @ element TRACKS tr @ rest"] that assms(3)
    unfolding h [OF assms(3,4)] h [OF that(2) assms(4)] append_assoc by (simp add: add.assoc)
  show "overwrite (length segment_start + 8 + length (seek_head_pre p q) + 8 + length info_pre) f'
        (header_bytes sz p q r f tr @ rest) = header_bytes sz p q r f' tr @ rest"
    if "length sz = 8" "length f' = 8"
    using overwrite_at [of "segment_start @ sz @ seek_head_pre p q @ r @ info_pre" _ f' f
        "element TRACKS tr @ rest"] that assms(3,4)
    unfolding h [OF assms(3,4)] h [OF assms(3) that(2)] append_assoc by (simp add: add.assoc)
qed

text \<open>The header as it is written: the cue position and the duration are still open.\<close>

lemma header_written:
  assumes h: "write_header ok sh z d w = Some w'" and z: "length z = 8"
    and w: "sw_file w = []" "sw_written w = 0"
  shows "\<exists>p q tr. length p = 8 \<and> length q = 8
    \<and> element TRACKS tr = tracks (sw_width w) (sw_height w) (sw_codec_config w
        @ (case sh d of Some obu \<Rightarrow> obu | None \<Rightarrow> [])) \<and> w' = w\<lparr>
      sw_file := header_bytes (fixed_size 0) p q zeros8 z tr,
      sw_written := length (header_bytes (fixed_size 0) p q zeros8 z tr),
      sw_size_at := length segment_start,
      sw_data_start := length segment_start + 8,
      sw_cues_position_at := length segment_start + 8 + length (seek_head_pre p q),
      sw_duration_at := length segment_start + 8 + length (seek_head_pre p q) + 8 + length info_pre\<rparr>"
proof -
  have fixed: "length (fixed_size m) = 8" for m by (simp add: fixed_size_def)
  let ?H = "element_head SEEK_HEAD seek_len"
  have body: "concat seek_entries = seek_body zeros8 zeros8 zeros8"
    by (simp add: seek_entries_def seek_entry_pre seek_body_def)
  have s: "blank_seek_head
      = (?H @ seek_pre INFO) @ zeros8 @ (seek_pre TRACKS @ zeros8 @ seek_pre CUES @ zeros8)"
    unfolding blank_seek_head_def body by (simp add: seek_head_eq)
  have "length blank_seek_head - length (concat seek_entries) = length ?H"
    unfolding blank_seek_head_def body by (simp add: element_head)
  then have pos: "seek_positions ! 0 = length (?H @ seek_pre INFO)"
    "seek_positions ! Suc 0 = length (?H @ seek_pre INFO @ zeros8 @ seek_pre TRACKS)"
    "seek_positions ! 2 = length (seek_head_pre zeros8 zeros8)"
    unfolding seek_positions_def seek_entries_def by (simp_all add: seek_entry_pre seek_head_pre_def)
  have patched: "overwrite (seek_positions ! Suc 0) q (overwrite (seek_positions ! 0) p blank_seek_head)
      = seek_head_pre p q @ zeros8"
    if pq: "length p = 8" "length q = 8" for p q
  proof -
    have "overwrite (seek_positions ! 0) p blank_seek_head
      = (?H @ seek_pre INFO @ p @ seek_pre TRACKS) @ zeros8 @ (seek_pre CUES @ zeros8)"
      unfolding s pos using overwrite_at [of "?H @ seek_pre INFO" _ p zeros8] pq by simp
    moreover have "seek_positions ! Suc 0 = length (?H @ seek_pre INFO @ p @ seek_pre TRACKS)"
      unfolding pos using pq by simp
    ultimately show ?thesis
      using overwrite_at [of "?H @ seek_pre INFO @ p @ seek_pre TRACKS" _ q zeros8 "seek_pre CUES @ zeros8"] pq
      by (simp add: seek_head_pre_def)
  qed
  have len2: "length (seek_head_pre p q) = seek_positions ! 2" if "length p = 8" "length q = 8" for p q
    unfolding pos using that by (simp add: seek_head_pre_def)
  obtain tr where tr: "tracks (sw_width w) (sw_height w) (sw_codec_config w
      @ (case sh d of Some obu \<Rightarrow> obu | None \<Rightarrow> [])) = element TRACKS tr"
    by (auto simp: tracks_def Let_def)
  have info: "element INFO (info_body z) = info_pre @ z" "length (info_body z) = length info_start + 11"
    using z by (simp_all add: info_eq) (simp add: info_body_def duration_head)
  obtain k where pre: "length info_pre = k + length info_start + 3"
    by (simp add: info_pre_def duration_head)
  define p where "p = be_bytes 8 (seek_positions ! 2 + 8)"
  define q where "q = be_bytes 8 (seek_positions ! 2 + (k + (length info_start + 19)))"
  have pq: "length p = 8" "length q = 8" by (simp_all add: p_def q_def del: be_bytes.simps)
  have b: "length blank_seek_head = seek_positions ! 2 + 8"
    unfolding pos by (simp add: s seek_head_pre_def)
  have "w' = w\<lparr>sw_file := header_bytes (fixed_size 0) p q zeros8 z tr,
      sw_written := length (header_bytes (fixed_size 0) p q zeros8 z tr),
      sw_size_at := length segment_start,
      sw_data_start := length segment_start + 8,
      sw_cues_position_at := length segment_start + 8 + length (seek_head_pre p q),
      sw_duration_at := length segment_start + 8 + length (seek_head_pre p q) + 8 + length info_pre\<rparr>"
    unfolding len2 [OF pq] header_eq [OF pq length_zeros8 z] unfolding p_def q_def
    using h z
    by (simp add: write_header_def Let_def bind_eq_Some_conv put_def w fixed tr patched
        len2 info pre b segment_start_def add.assoc add.commute add.left_commute
        del: be_bytes.simps split: if_splits)
      (drule sym, cases w, simp)
  with pq tr show ?thesis by metis
qed

subsection \<open>All frames\<close>

fun write_frames ::
  "(nat \<Rightarrow> bool) \<Rightarrow> (bytes \<Rightarrow> bytes option) \<Rightarrow> bytes \<Rightarrow> (nat \<times> bytes \<times> bool) list \<Rightarrow> segment_writer
    \<Rightarrow> segment_writer option" where
  "write_frames ok sh z [] w = Some w"
| "write_frames ok sh z ((t, data, key) # fs) w =
     Option.bind (write_frame ok sh z t data key w) (write_frames ok sh z fs)"

text \<open>The times a player sees: never before the frame before.\<close>

fun clamp_times :: "nat \<Rightarrow> (nat \<times> bytes \<times> bool) list \<Rightarrow> (nat \<times> bool \<times> bytes) list" where
  "clamp_times m [] = []"
| "clamp_times m ((t, data, key) # fs) = (max t m, key, data) # clamp_times (max t m) fs"

text \<open>
  The writer after at least one frame: \<open>fr\<close> are the frames so far, the last of them held
  back, and the fields that point into the header are as it was written.
\<close>

definition writing :: "segment_writer \<Rightarrow> bytes \<Rightarrow> bytes \<Rightarrow> bytes \<Rightarrow> bytes \<Rightarrow> (nat \<times> bool \<times> bytes) list \<Rightarrow> bool" where
  "writing w p q z tr fr \<longleftrightarrow>
     length p = 8 \<and> length q = 8 \<and> length z = 8
     \<and> sw_size_at w = length segment_start \<and> sw_data_start w = length segment_start + 8
     \<and> sw_cues_position_at w = length segment_start + 8 + length (seek_head_pre p q)
     \<and> sw_duration_at w = length segment_start + 8 + length (seek_head_pre p q) + 8 + length info_pre
     \<and> sw_last w < 2 ^ 64
     \<and> (\<exists>cls cur h m. layout w (header_bytes (fixed_size 0) p q zeros8 z tr) cls cur m
          \<and> m \<le> hd_timestamp h \<and> sw_held w = Some h \<and> hd_timestamp h = sw_last w
          \<and> fr = map block_frame (planned cls cur) @ [(hd_timestamp h, hd_key h, hd_data h)])"

lemma first_frame:
  assumes "write_frame ok sh z t data key (create_writer width height config) = Some w"
    and "length z = 8" "t < 2 ^ 64"
  shows "\<exists>p q tr. writing w p q z tr [(t, key, data)]"
proof -
  obtain w1 where w1: "write_header ok sh z data (create_writer width height config) = Some w1"
    using assms(1) by (auto simp: write_frame_def create_writer_def bind_eq_Some_conv)
  obtain p q tr where h: "length p = 8" "length q = 8" "w1 = (create_writer width height config)\<lparr>
      sw_file := header_bytes (fixed_size 0) p q zeros8 z tr,
      sw_written := length (header_bytes (fixed_size 0) p q zeros8 z tr),
      sw_size_at := length segment_start,
      sw_data_start := length segment_start + 8,
      sw_cues_position_at := length segment_start + 8 + length (seek_head_pre p q),
      sw_duration_at := length segment_start + 8 + length (seek_head_pre p q) + 8 + length info_pre\<rparr>"
    using header_written [OF w1 assms(2)] by (auto simp: create_writer_def)
  have w: "w = w1\<lparr>sw_held := Some \<lparr>hd_timestamp = t, hd_key = key, hd_data = data, hd_previous = None\<rparr>,
      sw_last := t, sw_frames := 1\<rparr>"
    using assms(1) w1 h(3)
    by (simp add: write_frame_def emit_held_def) (simp add: create_writer_def emit_held_def)
  from h have "writing w p q z tr [(t, key, data)]"
    unfolding writing_def w using assms(2,3)
    by (simp add: create_writer_def)
      (intro exI [of _ "[]"] exI [of _ None] exI [of _ 0], simp add: layout_def planned_def)
  then show ?thesis by blast
qed

lemma emit_writing:
  assumes wr: "writing w p q z tr fr" and e: "emit_held ok e w = Some w'"
  shows "\<exists>cls cur. layout w' (header_bytes (fixed_size 0) p q zeros8 z tr) cls cur (sw_last w)
    \<and> map block_frame (planned cls cur) = fr \<and> same_frame (w\<lparr>sw_held := None\<rparr>) w'"
proof -
  obtain cls cur h m where l: "layout w (header_bytes (fixed_size 0) p q zeros8 z tr) cls cur m"
    and h: "m \<le> hd_timestamp h" "sw_held w = Some h" "hd_timestamp h = sw_last w"
    and fr: "fr = map block_frame (planned cls cur) @ [(hd_timestamp h, hd_key h, hd_data h)]"
    using wr unfolding writing_def by blast
  let ?b = "\<lparr>bl_key = hd_key h, bl_data = hd_data h,
    bl_duration = map_option (\<lambda>e. max (e - hd_timestamp h) 1) e,
    bl_reference = if e = None \<or> hd_key h then None
      else Some (- max (int (hd_timestamp h - (case hd_previous h of Some p \<Rightarrow> p | None \<Rightarrow> hd_timestamp h))) 1)\<rparr>"
  have "bl_data ?b = hd_data h" "shown_key ?b = hd_key h" by (simp_all add: shown_key_def)
  moreover have "emit ok (hd_timestamp h) ?b (w\<lparr>sw_held := None\<rparr>) = Some w'"
    using e by (simp only: emit_held_def h(2) option.case)
  ultimately obtain b where b: "bl_data b = hd_data h" "shown_key b = hd_key h"
    and e: "emit ok (hd_timestamp h) b (w\<lparr>sw_held := None\<rparr>) = Some w'" by blast
  have l': "layout (w\<lparr>sw_held := None\<rparr>) (header_bytes (fixed_size 0) p q zeros8 z tr) cls cur m"
    using l by (simp add: layout_def)
  have "hd_timestamp h < 2 ^ 64" using wr h(3) by (simp add: writing_def)
  then obtain cls' cur' where n: "layout w' (header_bytes (fixed_size 0) p q zeros8 z tr) cls' cur' (sw_last w)"
    "planned cls' cur' = planned cls cur @ [(hd_timestamp h, b)]" "same_frame (w\<lparr>sw_held := None\<rparr>) w'"
    using emit_layout [OF l' h(1) _ e] unfolding h(3) by blast
  then have "map block_frame (planned cls' cur') = fr"
    using fr b by (simp add: block_frame_def)
  with n show ?thesis by blast
qed

lemma next_frame:
  assumes wr: "writing w p q z tr fr" and f: "write_frame ok sh z t data key w = Some w'" and t: "t < 2 ^ 64"
  shows "writing w' p q z tr (fr @ [(max t (sw_last w), key, data)]) \<and> sw_last w' = max t (sw_last w)"
proof -
  have "sw_data_start w \<noteq> 0" using wr by (simp add: writing_def)
  then obtain w1 where w1: "emit_held ok None w = Some w1"
    and w': "w' = w1\<lparr>sw_held := Some \<lparr>hd_timestamp = max t (sw_last w), hd_key = key, hd_data = data,
      hd_previous = if 0 < sw_frames w1 then Some (sw_last w1) else None\<rparr>,
      sw_last := max t (sw_last w), sw_frames := sw_frames w1 + 1\<rparr>"
    using f by (auto simp: write_frame_def Let_def)
  obtain cls cur where n: "layout w1 (header_bytes (fixed_size 0) p q zeros8 z tr) cls cur (sw_last w)"
    "map block_frame (planned cls cur) = fr" "same_frame (w\<lparr>sw_held := None\<rparr>) w1"
    using emit_writing [OF wr w1] by blast
  have l: "layout w' (header_bytes (fixed_size 0) p q zeros8 z tr) cls cur (sw_last w)"
    using n(1) by (simp add: layout_def w')
  obtain h where h: "sw_held w' = Some h" "hd_timestamp h = max t (sw_last w)" "hd_key h = key" "hd_data h = data"
    and last: "sw_last w' = max t (sw_last w)"
    by (simp add: w')
  have ex: "\<exists>cls cur h m. layout w' (header_bytes (fixed_size 0) p q zeros8 z tr) cls cur m
      \<and> m \<le> hd_timestamp h \<and> sw_held w' = Some h \<and> hd_timestamp h = sw_last w'
      \<and> fr @ [(max t (sw_last w), key, data)]
          = map block_frame (planned cls cur) @ [(hd_timestamp h, hd_key h, hd_data h)]"
    by (intro exI [of _ cls] exI [of _ cur] exI [of _ h] exI [of _ "sw_last w"])
      (simp add: l n(2) h last)
  have "sw_size_at w' = sw_size_at w" "sw_data_start w' = sw_data_start w"
    "sw_cues_position_at w' = sw_cues_position_at w" "sw_duration_at w' = sw_duration_at w"
    using n(3) by (simp_all add: same_frame_def w')
  with wr ex t last show ?thesis unfolding writing_def by simp
qed

lemma frames_written:
  assumes "writing w p q z tr fr" and "write_frames ok sh z fs w = Some w'"
    and "\<forall>(t, _) \<in> set fs. t < 2 ^ 64"
  shows "writing w' p q z tr (fr @ clamp_times (sw_last w) fs)"
  using assms
proof (induction fs arbitrary: w fr)
  case (Cons f fs)
  obtain t data key where f: "f = (t, data, key)" by (cases f)
  then obtain w1 where w1: "write_frame ok sh z t data key w = Some w1" "write_frames ok sh z fs w1 = Some w'"
    using Cons.prems(2) by (auto simp: bind_eq_Some_conv)
  have n: "writing w1 p q z tr (fr @ [(max t (sw_last w), key, data)])" "sw_last w1 = max t (sw_last w)"
    using next_frame [OF Cons.prems(1) w1(1)] Cons.prems(3) f by auto
  from Cons.IH [OF n(1) w1(2)] Cons.prems(3) show ?case by (simp add: f n(2))
qed simp

subsection \<open>The finished segment\<close>

lemma finished_file:
  assumes wr: "writing w p q z tr fr" and f: "finish_segment ok commits f64 e w = Some (n, r)"
    and f64: "\<And>x. length (f64 x) = 8"
  shows "\<exists>cls pos d cues fl. r = Some fl \<and> n = length fl \<and> length pos = 8 \<and> length d = 8
    \<and> fl = header_bytes (fixed_size (n - (length segment_start + 8))) p q pos d tr
        @ concat (map plan_bytes cls) @ element CUES cues
    \<and> list_all plan_ok cls \<and> map block_frame (planned cls None) = fr"
proof -
  obtain w1 w2 where w1: "emit_held ok (Some e) w = Some w1" and w2: "flush_cluster ok w1 = Some w2"
    using f by (auto simp: finish_segment_def bind_eq_Some_conv)
  obtain cls cur where n1: "layout w1 (header_bytes (fixed_size 0) p q zeros8 z tr) cls cur (sw_last w)"
    "map block_frame (planned cls cur) = fr" "same_frame (w\<lparr>sw_held := None\<rparr>) w1"
    using emit_writing [OF wr w1] by blast
  obtain cls' where n2: "layout w2 (header_bytes (fixed_size 0) p q zeros8 z tr) cls' None 0"
    "planned cls' None = planned cls cur" "same_frame w1 w2"
    using flush_layout [OF n1(1) w2, of 0] by blast
  have lens: "length p = 8" "length q = 8" "length z = 8" using wr by (simp_all add: writing_def)
  have fields: "sw_size_at w2 = length segment_start" "sw_data_start w2 = length segment_start + 8"
    "sw_cues_position_at w2 = length segment_start + 8 + length (seek_head_pre p q)"
    "sw_duration_at w2 = length segment_start + 8 + length (seek_head_pre p q) + 8 + length info_pre"
    using wr n1(3) n2(3) by (simp_all add: writing_def same_frame_def)
  define cues where "cues = concat (map cue_point (sw_cues w2))"
  define rest where "rest = concat (map plan_bytes cls') @ element CUES cues"
  define total where "total = length (header_bytes (fixed_size 0) p q zeros8 z tr @ rest)"
  define pos where "pos = be_bytes 8 (sw_written w2 - (length segment_start + 8))"
  define d where "d = f64 (max e (Suc (sw_last w2)))"
  have pd: "length pos = 8" "length d = 8" by (simp_all add: pos_def d_def f64 del: be_bytes.simps)
  have l2: "sw_file w2 = header_bytes (fixed_size 0) p q zeros8 z tr @ concat (map plan_bytes cls')"
    "sw_written w2 = length (sw_file w2)" "list_all plan_ok cls'"
    using n2(1) by (simp_all add: layout_def)
  have fl: "sw_file w2 @ element CUES cues = header_bytes (fixed_size 0) p q zeros8 z tr @ rest"
    and written: "sw_written w2 + length (element CUES cues) = total"
    by (simp_all add: l2 rest_def total_def)
  have fixed: "length (fixed_size m) = 8" for m by (simp add: fixed_size_def)
  let ?N = "total - (length segment_start + 8)"
  have raw: "finish_segment ok commits f64 e w
    = (if ok (sw_written w2) \<and> commits then Some (total, Some
        (overwrite (length segment_start + 8 + length (seek_head_pre p q)) pos
        (overwrite (length segment_start + 8 + length (seek_head_pre p q) + 8 + length info_pre) d
        (overwrite (length segment_start) (fixed_size ?N)
          (header_bytes (fixed_size 0) p q zeros8 z tr @ rest))))) else None)"
    by (simp add: finish_segment_def w1 w2 fields put_def Let_def fl written
        cues_def [symmetric] pos_def [symmetric] d_def [symmetric] del: be_bytes.simps)
  moreover have "overwrite (length segment_start + 8 + length (seek_head_pre p q)) pos
      (overwrite (length segment_start + 8 + length (seek_head_pre p q) + 8 + length info_pre) d
      (overwrite (length segment_start) (fixed_size ?N)
        (header_bytes (fixed_size 0) p q zeros8 z tr @ rest)))
    = header_bytes (fixed_size ?N) p q pos d tr @ rest"
    by (simp only: patched_header(1) [OF lens(1,2) length_zeros8 lens(3)]
        patched_header(3) [OF lens(1,2) length_zeros8 lens(3) fixed pd(2)]
        patched_header(2) [OF lens(1,2) length_zeros8 pd(2) fixed pd(1)])
  ultimately have r: "n = total" "r = Some (header_bytes (fixed_size ?N) p q pos d tr @ rest)"
    using f by (simp_all only: if_split option.inject prod.inject) (simp_all split: if_splits)
  have "length (header_bytes (fixed_size ?N) p q pos d tr @ rest) = total"
    unfolding total_def header_eq [OF lens(1,2) pd] header_eq [OF lens(1,2) length_zeros8 lens(3)]
    by (simp add: pd fixed lens)
  then have n: "n = length (header_bytes (fixed_size ?N) p q pos d tr @ rest)" using r(1) by simp
  show ?thesis
  proof (intro exI conjI)
    show "r = Some (header_bytes (fixed_size ?N) p q pos d tr @ rest)" by (rule r(2))
    show "n = length (header_bytes (fixed_size ?N) p q pos d tr @ rest)" by (rule n)
    show "header_bytes (fixed_size ?N) p q pos d tr @ rest
      = header_bytes (fixed_size (n - (length segment_start + 8))) p q pos d tr
        @ concat (map plan_bytes cls') @ element CUES cues"
      by (simp add: r(1) rest_def)
    show "map block_frame (planned cls' None) = fr" using n1(2) n2(2) by simp
  qed (rule pd l2(3))+
qed

lemma read_sized_element:
  assumes "valid_id i" "length p < 2 ^ 56"
  shows "read_elements (id_bytes i @ fixed_size (length p) @ p) = Some [(i, p)]"
proof -
  obtain k where "read_number id_len (id_bytes i) = Some (k, i, [])"
    using assms(1) by (auto simp: valid_id_def)
  from read_number_append [OF this]
  have "read_element (id_bytes i @ fixed_size (length p) @ p) = Some (i, p, [])"
    by (simp add: read_element_def read_fixed_size [OF assms(2)])
  then show ?thesis
    by (subst read_elements.simps) (simp add: fixed_size_def)
qed

lemma frames_writing:
  assumes "write_frames ok sh z fs (create_writer width height config) = Some w" and "fs \<noteq> []"
    and "length z = 8" and times: "\<forall>(t, _) \<in> set fs. t < 2 ^ 64"
  shows "\<exists>p q tr. writing w p q z tr (clamp_times 0 fs)"
proof -
  obtain t data key fs' where fs: "fs = (t, data, key) # fs'" using assms(2) by (cases fs) auto
  then obtain w1 where w1: "write_frame ok sh z t data key (create_writer width height config) = Some w1"
    "write_frames ok sh z fs' w1 = Some w" using assms(1) by (auto simp: bind_eq_Some_conv)
  obtain p q tr where wr: "writing w1 p q z tr [(t, key, data)]"
    using first_frame [OF w1(1) assms(3)] times fs by auto
  have "sw_last w1 = t" using wr by (auto simp: writing_def)
  with frames_written [OF wr w1(2)] times fs have "writing w p q z tr (clamp_times 0 fs)" by simp
  then show ?thesis by blast
qed

lemma finished_segment_demuxes:
  assumes "write_frames ok sh z fs (create_writer width height config) = Some w" and "fs \<noteq> []"
    and "finish_segment ok commits f64 e w = Some (n, r)"
    and "length z = 8" and "\<And>x. length (f64 x) = 8"
    and times: "\<forall>(t, _) \<in> set fs. t < 2 ^ 64" and small: "n < 2 ^ 56 - 1"
  shows "\<exists>fl. r = Some fl \<and> length fl = n \<and> demux fl = Some (clamp_times 0 fs)"
proof -
  obtain p q tr where "writing w p q z tr (clamp_times 0 fs)"
    using frames_writing [OF assms(1,2,4) times] by blast
  from finished_file [OF this assms(3,5)] obtain cls pos d cues fl where
    r: "r = Some fl" "n = length fl" and pd: "length pos = 8" "length d = 8" and
    fl: "fl = header_bytes (fixed_size (n - (length segment_start + 8))) p q pos d tr
        @ concat (map plan_bytes cls) @ element CUES cues" and
    cls: "list_all plan_ok cls" "map block_frame (planned cls None) = clamp_times 0 fs"
    by blast
  define xs where "xs = [(SEEK_HEAD, seek_body p q pos), (INFO, info_body d), (TRACKS, tr)]
    @ map (\<lambda>(t, bs). (CLUSTER, uint 0xE7 t @ plan_body bs)) cls @ [(CUES, cues)]"
  define S where "S = concat (map (\<lambda>(i, p). element i p) xs)"
  have S: "fl = segment_start @ fixed_size (n - (length segment_start + 8)) @ S"
    unfolding fl S_def xs_def header_bytes_def segment_start_def
    by (simp add: plan_bytes_def comp_def case_prod_unfold)
  have fixed: "length (fixed_size m) = 8" for m by (simp add: fixed_size_def)
  have "length fl = length segment_start + 8 + length S" unfolding S by (simp add: fixed)
  then have lenS: "n - (length segment_start + 8) = length S" "length S \<le> n" "length segment_start \<le> n"
    using r(2) by simp_all
  obtain hb where hb: "ebml_header = element EBML hb" by (auto simp: ebml_header_def)
  have "length hb \<le> length segment_start"
    using length_element(1) [of hb EBML] unfolding segment_start_def hb by simp
  then have "length hb < 2 ^ 56 - 1" using lenS(3) small by linarith
  note head = read_elements_element [OF valid_ids(1) this]
  have "read_elements (id_bytes SEGMENT @ fixed_size (length S) @ S) = Some [(SEGMENT, S)]"
    by (rule read_sized_element [OF valid_ids(2)]) (use lenS(2) small in linarith)
  then have top: "read_elements fl = Some [(EBML, hb), (SEGMENT, S)]"
    unfolding S lenS(1) unfolding segment_start_def hb append_assoc head by simp
  have le: "length p \<le> length S" if "(i, p) \<in> set xs" for i p
  proof -
    have "element i p \<in> set (map (\<lambda>(i, p). element i p) xs)" using that by force
    from length_concat_member [OF this] length_element(1) [of p i] show ?thesis
      unfolding S_def by (rule order_trans [rotated])
  qed
  have valid: "valid_id i" if "(i, p) \<in> set xs" for i p
    using that valid_ids unfolding xs_def by auto
  have "\<forall>(i, p) \<in> set xs. valid_id i \<and> length p < 2 ^ 56 - 1"
  proof clarify
    fix i p assume x: "(i, p) \<in> set xs"
    from le [OF x] lenS(2) small have "length p < 2 ^ 56 - 1" by linarith
    with valid [OF x] show "valid_id i \<and> length p < 2 ^ 56 - 1" ..
  qed
  from read_elements_concat [OF this, of "[]"] have elems: "read_elements S = Some xs"
    unfolding S_def by simp
  have ids: "SEEK_HEAD \<noteq> CLUSTER" "INFO \<noteq> CLUSTER" "TRACKS \<noteq> CLUSTER" "CUES \<noteq> CLUSTER"
    by (simp_all add: id_defs)
  have "decode_cluster (uint 0xE7 t @ plan_body bs) = Some (map block_frame (plan_blocks (t, bs)))"
    if "(t, bs) \<in> set cls" for t bs
  proof (rule decode_plan)
    show "plan_ok (t, bs)" using cls(1) that by (auto simp: list_all_iff)
    have "(CLUSTER, uint 0xE7 t @ plan_body bs) \<in> set xs" using that unfolding xs_def by force
    from le [OF this] lenS(2) small show "length (uint 0xE7 t @ plan_body bs) < 2 ^ 56 - 1" by linarith
  qed
  then have "those (map (\<lambda>(t, bs). decode_cluster (uint 0xE7 t @ plan_body bs)) cls)
      = Some (map (\<lambda>c. map block_frame (plan_blocks c)) cls)"
    by (intro those_map_Some) auto
  then have "segment_frames xs = Some (clamp_times 0 fs)"
    using cls(2) unfolding xs_def by (simp add: segment_frames_def ids filter_map comp_def case_prod_unfold
        planned_def map_concat)
  then show ?thesis
    using r top elems by (simp add: demux_def)
qed

text \<open>
  C9. A demuxer finds in a finished segment exactly the frames that were written, in order,
  with their bytes and key flags; a time that went back is replaced by the time before. The
  sizes of the file are right: the result of \<open>finish\<close> is its length, and every element
  ends where its size says.
\<close>

theorem segment_roundtrip:
  assumes "write_frames ok sh z fs (create_writer width height config) = Some w" and "fs \<noteq> []"
    and "finish_segment ok commits f64 e w = Some (n, r)"
    and "length z = 8" and "\<And>x. length (f64 x) = 8"
    and times: "\<forall>(t, _) \<in> set fs. t < 2 ^ 64" and small: "n < 2 ^ 56 - 1"
  shows "\<exists>fl. r = Some fl \<and> length fl = n \<and> demux fl = Some (clamp_times 0 fs)"
  by (rule finished_segment_demuxes [OF assms])

subsection \<open>A sample\<close>

lemma put_True [simp]:
  "put (\<lambda>_. True) bs w = Some (w\<lparr>sw_file := sw_file w @ bs, sw_written := sw_written w + length bs\<rparr>)"
  by (simp add: put_def)

lemma length_uint: "length (uint i v) \<le> 20"
  using length_element(2) [of i "uint_bytes v"] length_uint_bytes [of v] by (simp add: uint_element)

definition sample_frames :: "(nat \<times> bytes \<times> bool) list" where
  "sample_frames = [(250, [1, 2], True), (0, [3], False)]"

lemma header_size:
  assumes "write_header ok sh zeros8 d w = Some w'" and "sw_file w = []" "sw_written w = 0"
  shows "sw_data_start w' \<noteq> 0" "sw_cluster w' = sw_cluster w" "sw_held w' = sw_held w"
    "sw_cues w' = sw_cues w" "sw_last w' = sw_last w" "sw_frames w' = sw_frames w"
  using header_written [OF assms(1) length_zeros8 assms(2,3)] by auto

text \<open>Generous bounds of lengths, for the sample.\<close>

lemma length_le_intros:
  "length p \<le> k \<Longrightarrow> length (element i p) \<le> k + 12"
  "length a \<le> j \<Longrightarrow> length b \<le> k \<Longrightarrow> length (a @ b) \<le> j + k"
  "length (uint i v) \<le> 20" "length (id_bytes i) \<le> 4" "length (size_bytes v) \<le> 8"
  "length (text_element i t) \<le> length t + 12"
  using length_element(2) [of i p] length_element(2) [of i "ascii t"]
  by (simp_all add: length_uint length_id_bytes length_size_bytes text_element_def ascii_def)

lemma length_encode_block: "length (encode_block b r) \<le> length (bl_data b) + 100"
proof (cases "bl_duration b")
  case None
  then show ?thesis
    using length_element(2) [of "0xA3" "block_payload r (bl_key b) (bl_data b)"]
    by (simp add: encode_block_def length_block_payload)
next
  case (Some d)
  let ?x = "case bl_reference b of None \<Rightarrow> [] | Some r \<Rightarrow> element 0xFB (be_bytes 8 (nat (r mod 2 ^ 64)))"
  let ?y = "element 0xA1 (block_payload r False (bl_data b)) @ uint 0x9B d @ ?x"
  have "length ?x \<le> 20"
  proof (cases "bl_reference b")
    case (Some r)
    then show ?thesis
      using length_element(2) [of "0xFB" "be_bytes 8 (nat (r mod 2 ^ 64))"] by (simp del: be_bytes.simps)
  qed simp
  then have "length ?y \<le> length (bl_data b) + 60"
    using length_element(2) [of "0xA1" "block_payload r False (bl_data b)"] length_uint [of "0x9B" d]
    by (simp add: length_block_payload)
  then show ?thesis
    using length_element(2) [of "0xA0" ?y] Some by (simp add: encode_block_def)
qed

lemma sample_header:
  "\<exists>w. write_header (\<lambda>_. True) (\<lambda>_. None) zeros8 d (create_writer 320 180 [129, 0, 12, 0]) = Some w
     \<and> sw_written w < 2000"
proof -
  obtain w where w: "write_header (\<lambda>_. True) (\<lambda>_. None) zeros8 d (create_writer 320 180 [129, 0, 12, 0]) = Some w"
    by (simp add: write_header_def Let_def)
  obtain p q tr where pq: "length p = 8" "length q = 8"
    and tr: "element TRACKS tr = tracks 320 180 [129, 0, 12, 0]"
    and len: "sw_written w = length (header_bytes (fixed_size 0) p q zeros8 zeros8 tr)"
    using header_written [OF w length_zeros8] by (auto simp: create_writer_def)
  have "length (tracks 320 180 [129, 0, 12, 0]) \<le> 500"
    unfolding tracks_def Let_def
    by (rule order_trans, (rule length_le_intros order_refl)+) simp
  moreover have "length segment_start \<le> 300"
    unfolding segment_start_def ebml_header_def
    by (rule order_trans, (rule length_le_intros order_refl)+) simp
  moreover have "length (seek_pre i) \<le> 100" for i
    unfolding seek_pre_def Let_def
    by (rule order_trans, (rule length_le_intros order_refl)+) simp
  from this [of INFO] this [of TRACKS] this [of CUES] have "seek_len \<le> 324"
    unfolding seek_len_def by linarith
  moreover have "length info_pre \<le> 200"
    unfolding info_pre_def element_head_def info_start_def
    by (rule order_trans, (rule length_le_intros order_refl)+) simp
  moreover have "length (element SEEK_HEAD (seek_body p q zeros8)) = length (seek_head_pre p q) + 8"
    using pq by (simp add: seek_head_eq seek_head_pre_def)
  moreover have "length (element SEEK_HEAD (seek_body p q zeros8)) \<le> seek_len + 12"
    using length_element(2) [of SEEK_HEAD "seek_body p q zeros8"] pq by simp
  ultimately have "sw_written w < 2000"
    unfolding len header_eq [OF pq length_zeros8 length_zeros8] tr by (simp add: fixed_size_def)
  with w show ?thesis by blast
qed

lemma sample_finished:
  "\<exists>w n r. write_frames (\<lambda>_. True) (\<lambda>_. None) zeros8 sample_frames (create_writer 320 180 [129, 0, 12, 0]) = Some w
     \<and> finish_segment (\<lambda>_. True) True (\<lambda>_. zeros8) 1000 w = Some (n, r) \<and> n < 2 ^ 56 - 1"
proof -
  obtain w1 where h: "write_header (\<lambda>_. True) (\<lambda>_. None) zeros8 [1, 2] (create_writer 320 180 [129, 0, 12, 0]) = Some w1"
    and b: "sw_written w1 < 2000" using sample_header by blast
  note f = header_size [OF h, simplified create_writer_def segment_writer.simps, OF refl refl]
  let ?b = "\<lparr>bl_key = True, bl_data = [1, 2], bl_duration = None, bl_reference = None\<rparr>"
  let ?c = "\<lparr>bl_key = False, bl_data = [3], bl_duration = Some 750, bl_reference = Some (- 1)\<rparr>"
  have "length (element CLUSTER (uint 231 250 @ encode_block ?b 0 @ encode_block ?c 0)) \<le> 300"
    using length_element(2) [of CLUSTER "uint 231 250 @ encode_block ?b 0 @ encode_block ?c 0"]
      length_encode_block [of ?b 0] length_encode_block [of ?c 0] length_uint [of 231 250] by simp
  moreover have "length (element CUES (cue_point (250, x))) \<le> 200" for x
    unfolding cue_point_def prod.case
    by (rule order_trans, (rule length_le_intros order_refl)+) simp
  note this [of "sw_written w1 - sw_data_start w1"]
  ultimately have size: "sw_written w1 + length (element CLUSTER (uint 231 250 @ encode_block ?b 0 @ encode_block ?c 0))
      + length (element CUES (cue_point (250, sw_written w1 - sw_data_start w1))) < 72057594037927935"
    using b by linarith
  show ?thesis
    using f by (simp add: sample_frames_def write_frame_def h emit_held_def emit_def flush_cluster_def
        finish_segment_def bind_eq_Some_conv Let_def)
      (simp add: create_writer_def emit_held_def emit_def flush_cluster_def finish_segment_def Let_def
        MAX_RELATIVE_def size)
qed

lemma segment_roundtrip_witness:
  "\<exists>w n r fl. finish_segment (\<lambda>_. True) True (\<lambda>_. zeros8) 1000 w = Some (n, r)
     \<and> r = Some fl \<and> length fl = n \<and> demux fl = Some [(250, True, [1, 2]), (250, False, [3])]"
proof -
  obtain w n r where s: "write_frames (\<lambda>_. True) (\<lambda>_. None) zeros8 sample_frames (create_writer 320 180 [129, 0, 12, 0]) = Some w"
    "finish_segment (\<lambda>_. True) True (\<lambda>_. zeros8) 1000 w = Some (n, r)" "n < 2 ^ 56 - 1"
    using sample_finished by blast
  have "sample_frames \<noteq> []" "\<forall>(t, _) \<in> set sample_frames. t < 2 ^ 64"
    by (simp_all add: sample_frames_def)
  from segment_roundtrip [OF s(1) this(1) s(2) length_zeros8 length_zeros8 this(2) s(3)] s(2)
  show ?thesis by (auto simp: sample_frames_def)
qed

end
