(* ===== verification/I420_Frames.thy ===== *)
theory I420_Frames
  imports Rd_Text
begin

text \<open>
  The colour conversion of the recorder (\<open>rdpilot-daemon/src/recording/i420.rs\<close>): RGBA
  to planar 4:2:0 in integer arithmetic. The source computes in \<open>i32\<close>, where nothing
  overflows; a shift to the right of a negative number rounds down, as \<open>div\<close> does.
\<close>

record i420 =
  iw :: nat
  ih :: nat
  iy :: "u8 list"
  iu :: "u8 list"
  iv :: "u8 list"

definition div_ceil2 :: "nat \<Rightarrow> nat" where "div_ceil2 n = (n + 1) div 2"

definition chroma_width :: "i420 \<Rightarrow> nat" where "chroma_width f = div_ceil2 (iw f)"

definition clamp :: "int \<Rightarrow> u8" where "clamp v = of_int (max 0 (min v 255))"

definition pixel_row :: "u8 list \<Rightarrow> nat \<Rightarrow> nat \<Rightarrow> u8 list" where
  "pixel_row rgba row_bytes j =
     (let start = min (j * row_bytes) (length rgba)
      in take (min (start + row_bytes) (length rgba) - start) (drop start rgba))"

fun chunks4 :: "'a list \<Rightarrow> ('a \<times> 'a \<times> 'a) list" where
  "chunks4 (r # g # b # a # rest) = (r, g, b) # chunks4 rest"
| "chunks4 _ = []"

definition luma :: "u8 \<times> u8 \<times> u8 \<Rightarrow> u8" where
  "luma = (\<lambda>(r, g, b). clamp ((47 * uint r + 157 * uint g + 16 * uint b + 128) div 256 + 16))"

definition luma_row :: "nat \<Rightarrow> u8 list \<Rightarrow> u8 list" where
  "luma_row width line =
     (let ys = map luma (take width (chunks4 line)) in ys @ replicate (width - length ys) 16)"

text \<open>The sums over the four places of a block: \<open>(r, g, b, n)\<close>.\<close>

definition add_place ::
  "nat \<Rightarrow> bool \<Rightarrow> u8 list \<times> nat \<Rightarrow> int \<times> int \<times> int \<times> int \<Rightarrow> int \<times> int \<times> int \<times> int" where
  "add_place width below = (\<lambda>(line, x) (r, g, b, n).
     if x < width then
       (if 4 * x + 3 \<le> length line
        then (r + uint (line ! (4 * x)), g + uint (line ! (4 * x + 1)), b + uint (line ! (4 * x + 2)), n + 1)
        else if line \<noteq> [] \<or> below then (r, g, b, n + 1)
        else (r, g, b, n))
     else (r, g, b, n))"

definition block_sum :: "nat \<Rightarrow> bool \<Rightarrow> u8 list \<Rightarrow> u8 list \<Rightarrow> nat \<Rightarrow> int \<times> int \<times> int \<times> int" where
  "block_sum width below upper lower i =
     fold (add_place width below)
       [(upper, 2 * i), (upper, 2 * i + 1), (lower, 2 * i), (lower, 2 * i + 1)] (0, 0, 0, 0)"

definition chroma_u :: "int \<times> int \<times> int \<Rightarrow> u8" where
  "chroma_u = (\<lambda>(r, g, b). clamp ((- 26 * r - 87 * g + 112 * b + 128) div 256 + 128))"

definition chroma_v :: "int \<times> int \<times> int \<Rightarrow> u8" where
  "chroma_v = (\<lambda>(r, g, b). clamp ((112 * r - 102 * g - 10 * b + 128) div 256 + 128))"

definition block_average :: "int \<times> int \<times> int \<times> int \<Rightarrow> int \<times> int \<times> int" where
  "block_average = (\<lambda>(r, g, b, n). let m = max n 1 in (r div m, g div m, b div m))"

definition from_rgba :: "u8 list \<Rightarrow> nat \<Rightarrow> nat \<Rightarrow> i420" where
  "from_rgba rgba width height =
     (let cw = div_ceil2 width; ch = div_ceil2 height; row = pixel_row rgba (width * 4);
          average = (\<lambda>j i.
            let lower = (if 2 * j + 1 < height then row (2 * j + 1) else [])
            in block_average (block_sum width (2 * j + 1 < height) (row (2 * j)) lower i))
      in \<lparr>iw = width, ih = height,
          iy = concat (map (\<lambda>j. luma_row width (row j)) [0..<height]),
          iu = concat (map (\<lambda>j. map (\<lambda>i. chroma_u (average j i)) [0..<cw]) [0..<ch]),
          iv = concat (map (\<lambda>j. map (\<lambda>i. chroma_v (average j i)) [0..<cw]) [0..<ch])\<rparr>)"

subsection \<open>Ranges\<close>

lemma uint_u8: "0 \<le> uint (x :: u8)" "uint (x :: u8) \<le> 255"
  using uint_bounded [of x] by simp_all

lemma uint_clamp: "0 \<le> v \<Longrightarrow> v \<le> 255 \<Longrightarrow> uint (clamp v) = v"
  by (simp add: clamp_def uint_word_of_int_eq take_bit_int_eq_self)

lemma luma_range: "16 \<le> uint (luma p) \<and> uint (luma p) \<le> 235"
proof -
  obtain r g b where p: "p = (r, g, b)" by (cases p)
  let ?s = "47 * uint r + 157 * uint g + 16 * uint b + 128"
  have "0 \<le> ?s" "?s < 220 * 256"
    using uint_u8 [of r] uint_u8 [of g] uint_u8 [of b] by linarith+
  then have "0 \<le> ?s div 256" "?s div 256 \<le> 219" by linarith+
  then show ?thesis by (simp add: p luma_def uint_clamp)
qed

definition in_range :: "int \<times> int \<times> int \<Rightarrow> bool" where
  "in_range = (\<lambda>(r, g, b). 0 \<le> r \<and> r \<le> 255 \<and> 0 \<le> g \<and> g \<le> 255 \<and> 0 \<le> b \<and> b \<le> 255)"

lemma chroma_range:
  assumes "in_range p"
  shows "15 \<le> uint (chroma_u p) \<and> uint (chroma_u p) \<le> 240"
    and "16 \<le> uint (chroma_v p) \<and> uint (chroma_v p) \<le> 240"
proof -
  obtain r g b where p: "p = (r, g, b)" by (cases p)
  let ?u = "- 26 * r - 87 * g + 112 * b + 128" and ?v = "112 * r - 102 * g - 10 * b + 128"
  have "- 113 * 256 \<le> ?u" "?u < 113 * 256" "- 112 * 256 \<le> ?v" "?v < 113 * 256"
    using assms p by (auto simp: in_range_def)
  then have "- 113 \<le> ?u div 256" "?u div 256 \<le> 112" "- 112 \<le> ?v div 256" "?v div 256 \<le> 112"
    by linarith+
  then show "15 \<le> uint (chroma_u p) \<and> uint (chroma_u p) \<le> 240"
    and "16 \<le> uint (chroma_v p) \<and> uint (chroma_v p) \<le> 240"
    by (simp_all add: p chroma_u_def chroma_v_def uint_clamp)
qed

definition sums_ok :: "int \<times> int \<times> int \<times> int \<Rightarrow> bool" where
  "sums_ok = (\<lambda>(r, g, b, n). 0 \<le> n \<and> 0 \<le> r \<and> r \<le> 255 * n \<and> 0 \<le> g \<and> g \<le> 255 * n \<and> 0 \<le> b \<and> b \<le> 255 * n)"

lemma add_place_ok: "sums_ok s \<Longrightarrow> sums_ok (add_place width below p s)"
proof -
  obtain r g b n line x where s: "s = (r, g, b, n)" and p: "p = (line, x)" by (cases s, cases p)
  assume "sums_ok s"
  then have ok: "0 \<le> n" "0 \<le> r" "r \<le> 255 * n" "0 \<le> g" "g \<le> 255 * n" "0 \<le> b" "b \<le> 255 * n"
    by (simp_all add: s sums_ok_def)
  have "0 \<le> y + uint (w :: u8) \<and> y + uint w \<le> 255 * (n + 1)" if "0 \<le> y" "y \<le> 255 * n" for y w
    using that uint_u8 [of w] by (simp add: distrib_left)
  with ok show ?thesis by (simp add: s p sums_ok_def add_place_def)
qed

lemma block_sum_ok: "sums_ok (block_sum width below upper lower i)"
  by (simp add: block_sum_def) (intro add_place_ok; simp add: sums_ok_def)

lemma average_in_range:
  assumes "sums_ok s"
  shows "in_range (block_average s)"
proof -
  obtain r g b n where s: "s = (r, g, b, n)" by (cases s)
  have "0 \<le> x div max n 1 \<and> x div max n 1 \<le> 255" if "0 \<le> x" "x \<le> 255 * n" for x
  proof -
    have "x \<le> 255 * max n 1" using that by linarith
    then have "x div max n 1 \<le> 255"
      using zdiv_mono1 [of x "255 * max n 1" "max n 1"] by simp
    then show ?thesis using that by (simp add: pos_imp_zdiv_nonneg_iff)
  qed
  then show ?thesis
    using assms by (simp add: s sums_ok_def in_range_def block_average_def Let_def)
qed

lemma length_luma_row [simp]: "length (luma_row width line) = width"
  by (simp add: luma_row_def Let_def)

text \<open>
  Whatever bytes a capture delivers, the planes have exactly the sizes of the frame and
  the values stay in the video range, except that the blue difference may be one below it:
  the conversion never wraps and its clamp never cuts.
\<close>

theorem planes_in_range:
  "length (iy (from_rgba rgba width height)) = width * height
   \<and> length (iu (from_rgba rgba width height)) = div_ceil2 width * div_ceil2 height
   \<and> length (iv (from_rgba rgba width height)) = div_ceil2 width * div_ceil2 height
   \<and> list_all (\<lambda>y. 16 \<le> uint y \<and> uint y \<le> 235) (iy (from_rgba rgba width height))
   \<and> list_all (\<lambda>u. 15 \<le> uint u \<and> uint u \<le> 240) (iu (from_rgba rgba width height))
   \<and> list_all (\<lambda>v. 16 \<le> uint v \<and> uint v \<le> 240) (iv (from_rgba rgba width height))"
proof -
  have "list_all (\<lambda>y. 16 \<le> uint y \<and> uint y \<le> 235) (luma_row width line)" for line
    using luma_range by (auto simp: luma_row_def Let_def list_all_iff)
  then show ?thesis
    using chroma_range [OF average_in_range [OF block_sum_ok]]
    by (auto simp: from_rgba_def Let_def length_concat comp_def sum_list_triv list_all_iff)
qed

text \<open>
  The factors of the blue difference add up to -1, not 0: white is not neutral, and yellow
  falls below the range.
\<close>

lemma white_is_not_neutral:
  "uint (chroma_u (255, 255, 255)) = 127" "uint (chroma_v (255, 255, 255)) = 128"
  "uint (chroma_u (255, 255, 0)) = 15"
  by (simp_all add: chroma_u_def chroma_v_def uint_clamp)

end
