(* ===== verification/Transfer_Queue.thy ===== *)
theory Transfer_Queue
  imports Daemon_Error
begin

text \<open>
  The transfer worker of a live session (\<open>rdpilot-daemon/src/transfer.rs\<close>): callers that
  send a job into a bounded channel and await its reply, the worker task that takes one job
  after the other, and the blocking thread of a job. Each step is one poll of a task or
  thread; a \<open>biased\<close> select is the order of the branches of its step. A job is named by its
  caller. The three lists at the end of the state are its history.
\<close>

subsection \<open>State\<close>

definition TRANSFER_QUEUE_BOUND :: nat where "TRANSFER_QUEUE_BOUND = 8"

datatype 'r caller_pc =
    CallerAbsent
  | CallerSends \<comment> \<open>at the first select of \<open>run\<close>\<close>
  | CallerAwaits \<comment> \<open>at the second select\<close>
  | CallerAnswered "daemon_fault + 'r"
  | CallerGone

datatype 'r reply = ReplyOpen | ReplySent "daemon_fault + 'r" | ReplyDropped

datatype job_pc = JobNew | JobQueued | JobTaken | JobInside | JobOver

record 'r transfer_job =
  tj_blocking :: bool
  tj_caller :: "'r caller_pc"
  tj_reply :: "'r reply"
  tj_run :: job_pc

datatype worker_pc = WorkerReceives | WorkerRuns nat | WorkerEnded

record 'r transfer_queue =
  tq_cancelled :: bool
  tq_owned :: bool \<comment> \<open>the \<open>TransferQueue\<close> has not been dropped\<close>
  tq_open :: bool \<comment> \<open>the worker has not closed the channel\<close>
  tq_waiting :: "nat list" \<comment> \<open>callers that wait for capacity\<close>
  tq_queue :: "nat list"
  tq_worker :: worker_pc
  tq_job :: "nat \<Rightarrow> 'r transfer_job"
  tq_sent :: "nat list" \<comment> \<open>the jobs enqueued so far\<close>
  tq_started :: "nat list" \<comment> \<open>the jobs whose work began\<close>
  tq_returned :: "(nat \<times> (daemon_fault + 'r)) list" \<comment> \<open>what their work returned\<close>

definition no_job :: "'r transfer_job" where
  "no_job = \<lparr>tj_blocking = False, tj_caller = CallerAbsent, tj_reply = ReplyOpen, tj_run = JobNew\<rparr>"

definition start_queue :: "'r transfer_queue" where
  "start_queue = \<lparr>tq_cancelled = False, tq_owned = True, tq_open = True, tq_waiting = [], tq_queue = [],
     tq_worker = WorkerReceives, tq_job = (\<lambda>_. no_job), tq_sent = [], tq_started = [], tq_returned = []\<rparr>"

definition set_job :: "nat \<Rightarrow> ('r transfer_job \<Rightarrow> 'r transfer_job) \<Rightarrow> 'r transfer_queue \<Rightarrow> 'r transfer_queue" where
  "set_job j f q = q\<lparr>tq_job := (tq_job q)(j := f (tq_job q j))\<rparr>"

text \<open>\<open>stopped\<close>: cancelled, or the sender of the cancel is gone.\<close>

definition queue_stopped :: "'r transfer_queue \<Rightarrow> bool" where
  "queue_stopped q \<longleftrightarrow> tq_cancelled q \<or> \<not> tq_owned q"

text \<open>The receiver \<open>abandoned\<close> ends when the future of the caller is gone or has returned.\<close>

fun caller_present :: "'r caller_pc \<Rightarrow> bool" where
  "caller_present CallerSends = True"
| "caller_present CallerAwaits = True"
| "caller_present _ = False"

definition abandoned :: "nat \<Rightarrow> 'r transfer_queue \<Rightarrow> bool" where
  "abandoned j q \<longleftrightarrow> \<not> caller_present (tj_caller (tq_job q j))"

text \<open>A job that is dropped drops the sender of its reply.\<close>

definition job_dropped :: "'r transfer_job \<Rightarrow> 'r transfer_job" where
  "job_dropped t = t\<lparr>tj_run := JobOver, tj_reply := ReplyDropped\<rparr>"

subsection \<open>The caller\<close>

definition caller_answers :: "nat \<Rightarrow> daemon_fault + 'r \<Rightarrow> 'r transfer_queue \<Rightarrow> 'r transfer_queue" where
  "caller_answers j x = set_job j (\<lambda>t. t\<lparr>tj_caller := CallerAnswered x\<rparr>)"

definition caller_arrives :: "nat \<Rightarrow> bool \<Rightarrow> 'r transfer_queue \<Rightarrow> 'r transfer_queue" where
  "caller_arrives j blocking =
     set_job j (\<lambda>_. \<lparr>tj_blocking = blocking, tj_caller = CallerSends, tj_reply = ReplyOpen, tj_run = JobNew\<rparr>)"

text \<open>
  A slot of the channel that becomes free belongs to the caller that waited longest; the
  callers behind it have the slots after that.
\<close>

definition ahead :: "nat \<Rightarrow> nat list \<Rightarrow> nat" where
  "ahead j ws = length (takeWhile (\<lambda>k. k \<noteq> j) ws)"

definition no_longer_waits :: "nat \<Rightarrow> 'r transfer_queue \<Rightarrow> 'r transfer_queue" where
  "no_longer_waits j q = q\<lparr>tq_waiting := filter (\<lambda>k. k \<noteq> j) (tq_waiting q)\<rparr>"

definition caller_refused :: "nat \<Rightarrow> 'r transfer_queue \<Rightarrow> 'r transfer_queue" where
  "caller_refused j q =
     caller_answers j (Inl TransferCut) (set_job j job_dropped (no_longer_waits j q))"

definition caller_sends :: "nat \<Rightarrow> 'r transfer_queue \<Rightarrow> 'r transfer_queue" where
  "caller_sends j q =
     (if tq_cancelled q then caller_refused j q
      else if \<not> tq_open q then caller_refused j q
      else if length (tq_queue q) + ahead j (tq_waiting q) < TRANSFER_QUEUE_BOUND
      then set_job j (\<lambda>t. t\<lparr>tj_caller := CallerAwaits, tj_run := JobQueued\<rparr>)
             (no_longer_waits j q)\<lparr>tq_queue := tq_queue q @ [j], tq_sent := tq_sent q @ [j]\<rparr>
      else if j \<in> set (tq_waiting q) then q
      else q\<lparr>tq_waiting := tq_waiting q @ [j]\<rparr>)"

definition caller_polls :: "ustr \<Rightarrow> nat \<Rightarrow> 'r transfer_queue \<Rightarrow> 'r transfer_queue" where
  "caller_polls session j q =
     (if tq_cancelled q then caller_answers j (Inl TransferCut) q
      else case tj_reply (tq_job q j) of
        ReplySent x \<Rightarrow> caller_answers j x q
      | ReplyDropped \<Rightarrow> caller_answers j (Inl (SessionNotFound session)) q
      | ReplyOpen \<Rightarrow> q)"

definition caller_leaves :: "nat \<Rightarrow> 'r transfer_queue \<Rightarrow> 'r transfer_queue" where
  "caller_leaves j q =
     (let q' = no_longer_waits j q
      in set_job j (\<lambda>t. t\<lparr>tj_caller := CallerGone\<rparr>)
           (if tj_run (tq_job q j) = JobNew then set_job j job_dropped q' else q'))"

subsection \<open>The worker\<close>

definition drain_queue :: "'r transfer_queue \<Rightarrow> 'r transfer_queue" where
  "drain_queue q =
     q\<lparr>tq_open := False, tq_queue := [], tq_worker := WorkerEnded,
       tq_job := (\<lambda>j. if j \<in> set (tq_queue q) then job_dropped (tq_job q j) else tq_job q j)\<rparr>"

definition worker_receives :: "'r transfer_queue \<Rightarrow> 'r transfer_queue" where
  "worker_receives q =
     (if queue_stopped q then drain_queue q
      else case tq_queue q of
        [] \<Rightarrow> q
      | j # rest \<Rightarrow>
          if abandoned j q then set_job j job_dropped (q\<lparr>tq_queue := rest\<rparr>)
          else set_job j (\<lambda>t. t\<lparr>tj_run := JobTaken\<rparr>) (q\<lparr>tq_queue := rest, tq_worker := WorkerRuns j\<rparr>))"

text \<open>
  A job that does not block lives in the worker's task and is dropped when the select ends;
  a blocking one lives in its thread.
\<close>

definition lives_in_worker :: "'r transfer_job \<Rightarrow> bool" where
  "lives_in_worker t \<longleftrightarrow> \<not> tj_blocking t \<and> tj_run t \<noteq> JobOver"

definition select_ends :: "nat \<Rightarrow> 'r transfer_queue \<Rightarrow> 'r transfer_queue" where
  "select_ends j = set_job j (\<lambda>t. if lives_in_worker t then job_dropped t else t)"

definition worker_waits :: "nat \<Rightarrow> 'r transfer_queue \<Rightarrow> 'r transfer_queue" where
  "worker_waits j q =
     (if queue_stopped q then drain_queue (select_ends j q)
      else if tj_run (tq_job q j) = JobOver \<or> lives_in_worker (tq_job q j) \<and> abandoned j q
      then (select_ends j q)\<lparr>tq_worker := WorkerReceives\<rparr>
      else q)"

subsection \<open>The job\<close>

text \<open>What ends the select around a job before its work is polled.\<close>

definition job_must_stop :: "nat \<Rightarrow> 'r transfer_queue \<Rightarrow> bool" where
  "job_must_stop j q \<longleftrightarrow> queue_stopped q \<or> tq_worker q \<noteq> WorkerRuns j \<or> abandoned j q"

definition job_starts :: "nat \<Rightarrow> 'r transfer_queue \<Rightarrow> 'r transfer_queue" where
  "job_starts j q =
     (if job_must_stop j q then set_job j job_dropped q
      else set_job j (\<lambda>t. t\<lparr>tj_run := JobInside\<rparr>) (q\<lparr>tq_started := tq_started q @ [j]\<rparr>))"

definition job_stops :: "nat \<Rightarrow> 'r transfer_queue \<Rightarrow> 'r transfer_queue" where
  "job_stops j q = (if job_must_stop j q then set_job j job_dropped q else q)"

definition job_returns :: "nat \<Rightarrow> daemon_fault + 'r \<Rightarrow> 'r transfer_queue \<Rightarrow> 'r transfer_queue" where
  "job_returns j x q =
     set_job j (\<lambda>t. t\<lparr>tj_run := JobOver, tj_reply := ReplySent x\<rparr>) (q\<lparr>tq_returned := tq_returned q @ [(j, x)]\<rparr>)"

subsection \<open>Steps\<close>

definition cancel_queue :: "'r transfer_queue \<Rightarrow> 'r transfer_queue" where
  "cancel_queue q = q\<lparr>tq_cancelled := True\<rparr>"

definition drop_queue :: "'r transfer_queue \<Rightarrow> 'r transfer_queue" where
  "drop_queue q = q\<lparr>tq_owned := False\<rparr>"

text \<open>
  A blocking job for which no runtime can be built is dropped (\<open>NoRuntime\<close>). A synchronous
  part of a blocking job ends also after a cancel, so its work may return then (\<open>Returns\<close>).
\<close>

inductive transfer_step :: "ustr \<Rightarrow> 'r transfer_queue \<Rightarrow> 'r transfer_queue \<Rightarrow> bool" for session where
  Arrives: "tj_caller (tq_job q j) = CallerAbsent \<Longrightarrow> transfer_step session q (caller_arrives j b q)"
| Sends: "tj_caller (tq_job q j) = CallerSends \<Longrightarrow> transfer_step session q (caller_sends j q)"
| Polls: "tj_caller (tq_job q j) = CallerAwaits \<Longrightarrow> transfer_step session q (caller_polls session j q)"
| Leaves: "caller_present (tj_caller (tq_job q j)) \<Longrightarrow> transfer_step session q (caller_leaves j q)"
| Receives: "tq_worker q = WorkerReceives \<Longrightarrow> transfer_step session q (worker_receives q)"
| Waits: "tq_worker q = WorkerRuns j \<Longrightarrow> transfer_step session q (worker_waits j q)"
| Starts: "tj_run (tq_job q j) = JobTaken \<Longrightarrow> transfer_step session q (job_starts j q)"
| NoRuntime: "tj_run (tq_job q j) = JobTaken \<Longrightarrow> tj_blocking (tq_job q j)
    \<Longrightarrow> transfer_step session q (set_job j job_dropped q)"
| Stops: "tj_run (tq_job q j) = JobInside \<Longrightarrow> transfer_step session q (job_stops j q)"
| Returns: "tj_run (tq_job q j) = JobInside \<Longrightarrow> transfer_step session q (job_returns j x q)"
| Cancels: "transfer_step session q (cancel_queue q)"
| Drops: "transfer_step session q (drop_queue q)"

inductive transfer_reachable :: "ustr \<Rightarrow> 'r transfer_queue \<Rightarrow> bool" for session where
  Start: "transfer_reachable session start_queue"
| Step: "transfer_reachable session q \<Longrightarrow> transfer_step session q q' \<Longrightarrow> transfer_reachable session q'"

end
