(* ===== verification/Transfer_Promises.thy ===== *)
theory Transfer_Promises
  imports Transfer_Queue "HOL-Library.Sublist"
begin

text \<open>
  What the transfer worker promises: one job at a time, in the order of the queue, each at
  most once; an answer that rests on what the job returned or on the end of the queue; and
  that a waiting caller is not forgotten.
\<close>

lemma distinct_subseq: "subseq xs ys \<Longrightarrow> distinct ys \<Longrightarrow> distinct xs"
  by (induction rule: list_emb.induct) (auto dest: list_emb_set)

subsection \<open>The channel and the worker\<close>

lemma job_simps [simp]:
  "tq_job (set_job j f q) = (tq_job q)(j := f (tq_job q j))"
  "tq_cancelled (set_job j f q) = tq_cancelled q" "tq_owned (set_job j f q) = tq_owned q"
  "tq_open (set_job j f q) = tq_open q" "tq_waiting (set_job j f q) = tq_waiting q"
  "tq_queue (set_job j f q) = tq_queue q" "tq_worker (set_job j f q) = tq_worker q"
  "tq_sent (set_job j f q) = tq_sent q" "tq_started (set_job j f q) = tq_started q"
  "tq_returned (set_job j f q) = tq_returned q"
  by (simp_all add: set_job_def)

lemma job_dropped_simps [simp]:
  "tj_run (job_dropped t) = JobOver" "tj_reply (job_dropped t) = ReplyDropped"
  "tj_caller (job_dropped t) = tj_caller t" "tj_blocking (job_dropped t) = tj_blocking t"
  by (simp_all add: job_dropped_def)

lemmas transfer_ops = caller_arrives_def caller_sends_def caller_polls_def caller_leaves_def
  caller_answers_def caller_refused_def no_longer_waits_def worker_receives_def worker_waits_def
  drain_queue_def job_starts_def job_stops_def job_returns_def cancel_queue_def drop_queue_def

text \<open>
  A job as the channel sees it: it is in the queue or not, and the caller that has not sent
  it has it as it was made.
\<close>

definition job_fits :: "bool \<Rightarrow> 'r transfer_job \<Rightarrow> bool" where
  "job_fits queued t \<longleftrightarrow> (tj_run t = JobQueued \<longleftrightarrow> queued)
     \<and> (tj_caller t = CallerAbsent \<or> tj_caller t = CallerSends \<longrightarrow> tj_run t = JobNew \<and> tj_reply t = ReplyOpen)"

definition channel_ok :: "'r transfer_queue \<Rightarrow> bool" where
  "channel_ok q \<longleftrightarrow> length (tq_queue q) \<le> TRANSFER_QUEUE_BOUND \<and> distinct (tq_queue q)
     \<and> (\<forall>j. job_fits (j \<in> set (tq_queue q)) (tq_job q j))"

lemma channel_fits: "channel_ok q \<Longrightarrow> job_fits (j \<in> set (tq_queue q)) (tq_job q j)"
  by (simp add: channel_ok_def)

lemma channel_okI:
  assumes "length (tq_queue q) \<le> TRANSFER_QUEUE_BOUND" and "distinct (tq_queue q)"
    and "\<And>j. job_fits (j \<in> set (tq_queue q)) (tq_job q j)"
  shows "channel_ok q"
  using assms by (simp add: channel_ok_def)

lemma channel_bounds:
  "channel_ok q \<Longrightarrow> length (tq_queue q) \<le> TRANSFER_QUEUE_BOUND"
  "channel_ok q \<Longrightarrow> distinct (tq_queue q)"
  by (simp_all add: channel_ok_def)

lemma channel_drain:
  assumes "channel_ok q"
  shows "channel_ok (drain_queue q)"
proof (rule channel_okI)
  fix j
  show "job_fits (j \<in> set (tq_queue (drain_queue q))) (tq_job (drain_queue q) j)"
    using channel_fits [OF assms, of j] by (auto simp: job_fits_def drain_queue_def)
qed (simp_all add: drain_queue_def)

lemma channel_frame [simp]:
  "channel_ok (q\<lparr>tq_cancelled := c\<rparr>) = channel_ok q" "channel_ok (q\<lparr>tq_owned := d\<rparr>) = channel_ok q"
  "channel_ok (q\<lparr>tq_waiting := ws\<rparr>) = channel_ok q" "channel_ok (q\<lparr>tq_worker := w\<rparr>) = channel_ok q"
  "channel_ok (q\<lparr>tq_started := js\<rparr>) = channel_ok q" "channel_ok (q\<lparr>tq_returned := xs\<rparr>) = channel_ok q"
  by (simp_all add: channel_ok_def)

lemma channel_set_job:
  "channel_ok q \<Longrightarrow> job_fits (j \<in> set (tq_queue q)) (f (tq_job q j)) \<Longrightarrow> channel_ok (set_job j f q)"
  by (simp add: channel_ok_def)

text \<open>The worker: a job that is taken or at work is the only one.\<close>

definition at_work :: "nat \<Rightarrow> 'r transfer_queue \<Rightarrow> bool" where
  "at_work j q \<longleftrightarrow> tj_run (tq_job q j) = JobTaken \<or> tj_run (tq_job q j) = JobInside"

definition worker_ok :: "'r transfer_queue \<Rightarrow> bool" where
  "worker_ok q \<longleftrightarrow>
     (\<forall>j. at_work j q \<longrightarrow> tq_worker q = WorkerRuns j \<or> tq_worker q = WorkerEnded)
     \<and> (\<forall>j k. at_work j q \<and> at_work k q \<longrightarrow> j = k)
     \<and> (\<forall>j. tq_worker q = WorkerRuns j \<longrightarrow> at_work j q \<or> tj_run (tq_job q j) = JobOver)
     \<and> (tq_open q \<longleftrightarrow> tq_worker q \<noteq> WorkerEnded)
     \<and> (tq_worker q = WorkerEnded \<longrightarrow> tq_queue q = [] \<and> queue_stopped q)"

lemma worker_okD:
  assumes "worker_ok q"
  shows "tq_worker q = WorkerRuns j \<Longrightarrow> tj_run (tq_job q j) \<in> {JobTaken, JobInside, JobOver}"
    and "at_work j q \<Longrightarrow> tq_worker q = WorkerRuns j \<or> tq_worker q = WorkerEnded"
    and "at_work j q \<Longrightarrow> at_work k q \<Longrightarrow> j = k"
  using assms by (auto simp: worker_ok_def at_work_def)

lemma channel_distinct: "channel_ok q \<Longrightarrow> distinct (tq_queue q)"
  by (simp add: channel_ok_def)

lemma channel_step:
  assumes "transfer_step s q q'" and ok: "channel_ok q" and work: "worker_ok q"
  shows "channel_ok q'"
proof -
  note fits = channel_fits [OF ok] and bounds = channel_bounds [OF ok]
  have over: "channel_ok (set_job j job_dropped q)" if "tj_run (tq_job q j) \<in> {JobTaken, JobInside}" for j
    by (rule channel_set_job) (use ok fits [of j] that in \<open>auto simp: job_fits_def\<close>)
  from assms(1) show ?thesis
  proof (cases rule: transfer_step.cases)
    case (Sends j)
    have new: "j \<notin> set (tq_queue q)" using fits [of j] Sends(2) by (auto simp: job_fits_def)
    show ?thesis
    proof (rule channel_okI)
      show "job_fits (k \<in> set (tq_queue q')) (tq_job q' k)" for k
        using fits [of j] fits [of k] Sends by (auto simp: job_fits_def transfer_ops)
    qed (use bounds new in \<open>simp_all add: Sends(1) transfer_ops\<close>)
  next
    case Receives
    show ?thesis
    proof (cases "queue_stopped q \<or> tq_queue q = []")
      case True
      then show ?thesis using channel_drain [OF ok] ok Receives by (auto simp: worker_receives_def)
    next
      case False
      then obtain j rest where c: "tq_queue q = j # rest" by (cases "tq_queue q") auto
      show ?thesis
      proof (rule channel_okI)
        show "job_fits (k \<in> set (tq_queue q')) (tq_job q' k)" for k
          using fits [of j] fits [of k] Receives c False bounds by (auto simp: job_fits_def worker_receives_def)
      qed (use bounds c False in \<open>simp_all add: Receives(1) worker_receives_def\<close>)
    qed
  next
    case (Waits j)
    have "channel_ok (select_ends j q)" unfolding select_ends_def
      by (rule channel_set_job [OF ok]) (use fits [of j] worker_okD(1) [OF work Waits(2)] in \<open>auto simp: job_fits_def\<close>)
    from this channel_drain [OF this] ok show ?thesis by (simp add: Waits(1) worker_waits_def)
  next
    case (Leaves j)
    show ?thesis
    proof (rule channel_okI)
      show "job_fits (k \<in> set (tq_queue q')) (tq_job q' k)" for k
        using fits [of j] fits [of k] Leaves by (auto simp: job_fits_def transfer_ops Let_def)
    qed (use bounds in \<open>simp_all add: Leaves(1) transfer_ops Let_def\<close>)
  next
    case (Polls j)
    have "channel_ok (caller_answers j x q)" for x unfolding caller_answers_def
      by (rule channel_set_job [OF ok]) (use fits [of j] Polls(2) in \<open>simp add: job_fits_def\<close>)
    with ok show ?thesis by (simp add: Polls(1) caller_polls_def split: reply.splits)
  next
    case (Arrives j b)
    show ?thesis unfolding Arrives(1) caller_arrives_def
      by (rule channel_set_job [OF ok]) (use fits [of j] Arrives(2) in \<open>auto simp: job_fits_def\<close>)
  next
    case (Starts j)
    have "channel_ok (set_job j (tj_run_update (\<lambda>_. JobInside)) (q\<lparr>tq_started := tq_started q @ [j]\<rparr>))"
      by (rule channel_set_job) (use ok fits [of j] Starts(2) in \<open>auto simp: job_fits_def\<close>)
    with over [of j] Starts show ?thesis by (simp add: job_starts_def)
  next
    case (Returns j x)
    show ?thesis unfolding Returns(1) job_returns_def
      by (rule channel_set_job) (use ok fits [of j] Returns(2) in \<open>auto simp: job_fits_def\<close>)
  qed (use ok over in \<open>auto simp: job_stops_def cancel_queue_def drop_queue_def\<close>)
qed

lemma worker_frame [simp]:
  "worker_ok (q\<lparr>tq_waiting := ws\<rparr>) = worker_ok q" "worker_ok (q\<lparr>tq_started := js\<rparr>) = worker_ok q"
  "worker_ok (q\<lparr>tq_returned := xs\<rparr>) = worker_ok q"
  by (simp_all add: worker_ok_def at_work_def queue_stopped_def)

lemma stopped_set_job [simp]: "queue_stopped (set_job j f q) = queue_stopped q"
  by (simp add: queue_stopped_def)

text \<open>A job that does not begin to be at work and does not leave the worker keeps the invariant.\<close>

lemma worker_set_job:
  assumes "worker_ok q"
    and "tj_run (f (tq_job q j)) \<in> {JobTaken, JobInside} \<longrightarrow> at_work j q"
    and "tq_worker q = WorkerRuns j \<longrightarrow> tj_run (f (tq_job q j)) \<in> {JobTaken, JobInside, JobOver}"
  shows "worker_ok (set_job j f q)"
proof -
  have "at_work k (set_job j f q) \<Longrightarrow> at_work k q" for k
    using assms(2) by (cases "k = j") (auto simp: at_work_def)
  moreover have "tq_worker q = WorkerRuns k \<Longrightarrow> at_work k (set_job j f q) \<or> tj_run (tq_job (set_job j f q) k) = JobOver" for k
    using assms(1,3) by (cases "k = j") (auto simp: at_work_def worker_ok_def)
  ultimately show ?thesis using assms(1) unfolding worker_ok_def job_simps stopped_set_job by blast
qed

lemma worker_drain:
  assumes "worker_ok q" and "queue_stopped q" and "channel_ok q"
  shows "worker_ok (drain_queue q)"
proof -
  have "at_work k (drain_queue q) \<Longrightarrow> at_work k q" for k
    by (simp add: at_work_def drain_queue_def split: if_splits)
  then show ?thesis
    using assms(1,2) unfolding worker_ok_def by (simp add: drain_queue_def queue_stopped_def)
qed

lemma worker_enqueue:
  "worker_ok q \<Longrightarrow> tq_open q \<Longrightarrow> worker_ok (q\<lparr>tq_queue := xs, tq_sent := ys\<rparr>)"
  "worker_ok q \<Longrightarrow> tq_open q \<Longrightarrow> worker_ok (q\<lparr>tq_queue := xs\<rparr>)"
  by (auto simp: worker_ok_def at_work_def queue_stopped_def)

lemma worker_take:
  assumes work: "worker_ok q" and "tq_worker q = WorkerReceives"
  shows "worker_ok (set_job j (tj_run_update (\<lambda>_. JobTaken)) (q\<lparr>tq_queue := xs, tq_worker := WorkerRuns j\<rparr>))"
proof -
  have "\<not> at_work k q" for k using worker_okD(2) [OF work, of k] assms(2) by auto
  then show ?thesis using work assms(2) unfolding worker_ok_def by (auto simp: at_work_def)
qed

lemma worker_back:
  assumes work: "worker_ok q" and "tq_worker q = WorkerRuns j" and "\<not> at_work j q"
  shows "worker_ok (q\<lparr>tq_worker := WorkerReceives\<rparr>)"
proof -
  have "\<not> at_work k q" for k using worker_okD(2) [OF work, of k] assms(2,3) by auto
  then show ?thesis using work assms(2) unfolding worker_ok_def by (auto simp: at_work_def)
qed

lemma worker_stop:
  "worker_ok q \<Longrightarrow> worker_ok (q\<lparr>tq_cancelled := True\<rparr>)" "worker_ok q \<Longrightarrow> worker_ok (q\<lparr>tq_owned := False\<rparr>)"
  unfolding worker_ok_def at_work_def queue_stopped_def by simp_all

lemma worker_step:
  assumes "transfer_step s q q'" and ok: "channel_ok q" and work: "worker_ok q"
  shows "worker_ok q'"
  using assms(1)
proof (cases rule: transfer_step.cases)
  case (Sends j)
  have new: "tj_run (tq_job q j) = JobNew" using channel_fits [OF ok, of j] Sends(2) by (simp add: job_fits_def)
  then have idle: "tq_worker q \<noteq> WorkerRuns j" using worker_okD(1) [OF work, of j] by auto
  have waits: "worker_ok (no_longer_waits j q)" using work by (simp add: no_longer_waits_def)
  have "worker_ok (caller_refused j q)" unfolding caller_refused_def caller_answers_def
    by (intro worker_set_job) (use waits new idle in \<open>simp_all add: at_work_def no_longer_waits_def\<close>)
  moreover have "worker_ok (set_job j (\<lambda>t. t\<lparr>tj_caller := CallerAwaits, tj_run := JobQueued\<rparr>) (no_longer_waits j q))"
    by (rule worker_set_job [OF waits]) (use new idle in \<open>simp_all add: no_longer_waits_def\<close>)
  from worker_enqueue(1) [OF this] have "tq_open q \<Longrightarrow> worker_ok
      (set_job j (\<lambda>t. t\<lparr>tj_caller := CallerAwaits, tj_run := JobQueued\<rparr>) (no_longer_waits j q)
        \<lparr>tq_queue := tq_queue q @ [j], tq_sent := tq_sent q @ [j]\<rparr>)"
    by (simp add: no_longer_waits_def)
  ultimately show ?thesis using work by (simp add: Sends(1) caller_sends_def)
next
  case Receives
  have "worker_ok (drain_queue q)" if "queue_stopped q" by (rule worker_drain [OF work that ok])
  moreover have "worker_ok (set_job j job_dropped (q\<lparr>tq_queue := rest\<rparr>))" for j rest
    by (rule worker_set_job) (use worker_enqueue(2) [OF work] work Receives(2) in \<open>simp_all add: worker_ok_def [of q]\<close>)
  ultimately show ?thesis
    using work worker_take [OF work Receives(2)]
    by (simp add: Receives(1) worker_receives_def split: list.split)
next
  case (Waits j)
  have run: "tj_run (tq_job q j) \<in> {JobTaken, JobInside, JobOver}" by (rule worker_okD(1) [OF work Waits(2)])
  have ends: "worker_ok (select_ends j q)" unfolding select_ends_def
    by (rule worker_set_job [OF work]) (use run in \<open>auto simp: at_work_def\<close>)
  have ends_ok: "channel_ok (select_ends j q)" unfolding select_ends_def
    by (rule channel_set_job [OF ok]) (use channel_fits [OF ok, of j] run in \<open>auto simp: job_fits_def\<close>)
  have "queue_stopped q \<Longrightarrow> worker_ok (drain_queue (select_ends j q))"
    by (rule worker_drain [OF ends _ ends_ok]) (simp add: select_ends_def)
  moreover have "worker_ok ((select_ends j q)\<lparr>tq_worker := WorkerReceives\<rparr>)"
    if "tj_run (tq_job q j) = JobOver \<or> lives_in_worker (tq_job q j)"
    by (rule worker_back [OF ends, of j]) (use that Waits(2) in \<open>auto simp: select_ends_def at_work_def\<close>)
  ultimately show ?thesis using work by (simp add: Waits(1) worker_waits_def)
next
  case (Arrives j b)
  have new: "tj_run (tq_job q j) = JobNew" using channel_fits [OF ok, of j] Arrives(2) by (simp add: job_fits_def)
  show ?thesis unfolding Arrives(1) caller_arrives_def
    by (rule worker_set_job [OF work]) (use worker_okD(1) [OF work, of j] new in auto)
next
  case (Polls j)
  have "worker_ok (caller_answers j x q)" for x unfolding caller_answers_def
    by (rule worker_set_job [OF work]) (use worker_okD(1) [OF work, of j] in \<open>auto simp: at_work_def\<close>)
  with work show ?thesis by (simp add: Polls(1) caller_polls_def split: reply.split)
next
  case (Leaves j)
  have waits: "worker_ok (no_longer_waits j q)" using work by (simp add: no_longer_waits_def)
  have "worker_ok (set_job j (tj_caller_update (\<lambda>_. CallerGone)) r)" if "worker_ok r" for r :: "'a transfer_queue"
    by (rule worker_set_job [OF that]) (use worker_okD(1) [OF that, of j] in \<open>auto simp: at_work_def\<close>)
  moreover have "worker_ok (set_job j job_dropped (no_longer_waits j q))"
    by (rule worker_set_job [OF waits]) (simp_all add: at_work_def)
  ultimately show ?thesis using waits by (simp add: Leaves(1) caller_leaves_def Let_def)
next
  case (Starts j)
  have "worker_ok (set_job j job_dropped q)" by (rule worker_set_job [OF work]) simp_all
  moreover have "worker_ok (set_job j (tj_run_update (\<lambda>_. JobInside)) (q\<lparr>tq_started := tq_started q @ [j]\<rparr>))"
    by (rule worker_set_job) (use work Starts(2) in \<open>simp_all add: at_work_def\<close>)
  ultimately show ?thesis by (simp add: Starts(1) job_starts_def)
next
  case (Returns j x)
  show ?thesis unfolding Returns(1) job_returns_def by (rule worker_set_job) (use work in simp_all)
next
  case (Stops j)
  have "worker_ok (set_job j job_dropped q)" by (rule worker_set_job [OF work]) simp_all
  with work show ?thesis by (simp add: Stops(1) job_stops_def)
next
  case (NoRuntime j)
  show ?thesis unfolding NoRuntime(1) by (rule worker_set_job [OF work]) simp_all
qed (use worker_stop [OF work] in \<open>simp_all add: cancel_queue_def drop_queue_def\<close>)

subsection \<open>Order\<close>

text \<open>The jobs that may still begin: the one that the worker took, then the queue.\<close>

definition pending :: "'r transfer_queue \<Rightarrow> nat list" where
  "pending q =
     (case tq_worker q of WorkerRuns j \<Rightarrow> if tj_run (tq_job q j) = JobTaken then [j] else [] | _ \<Rightarrow> [])
     @ tq_queue q"

definition order_ok :: "'r transfer_queue \<Rightarrow> bool" where
  "order_ok q \<longleftrightarrow> (\<exists>p. tq_sent q = p @ pending q \<and> subseq (tq_started q) p)
     \<and> distinct (tq_sent q) \<and> (\<forall>j \<in> set (tq_sent q). tj_run (tq_job q j) \<noteq> JobNew)"

lemma order_suffix:
  assumes "order_ok q" and "suffix (pending q') (pending q)"
    and "tq_sent q' = tq_sent q" "tq_started q' = tq_started q"
    and "\<And>k. tj_run (tq_job q' k) = JobNew \<Longrightarrow> tj_run (tq_job q k) = JobNew"
  shows "order_ok q'"
proof -
  obtain p where p: "tq_sent q = p @ pending q" "subseq (tq_started q) p"
    using assms(1) by (auto simp: order_ok_def)
  obtain d where "pending q = d @ pending q'" using assms(2) by (auto simp: suffix_def)
  with p assms(3,4) have "tq_sent q' = (p @ d) @ pending q'" "subseq (tq_started q') (p @ d)"
    by (simp_all add: list_emb_prefix)
  with assms(1,3,5) show ?thesis unfolding order_ok_def by metis
qed

lemma pending_enqueue:
  "tq_worker q \<noteq> WorkerRuns j \<Longrightarrow> pending (set_job j f (no_longer_waits j q)\<lparr>tq_queue := tq_queue q @ [j], tq_sent := ys\<rparr>)
     = pending q @ [j]"
  by (auto simp: pending_def no_longer_waits_def split: worker_pc.splits)

lemma order_step:
  assumes "transfer_step s q q'" and ok: "channel_ok q" and work: "worker_ok q" and order: "order_ok q"
  shows "order_ok q'"
  using assms(1)
proof (cases rule: transfer_step.cases)
  case (Sends j)
  have new: "tj_run (tq_job q j) = JobNew" using channel_fits [OF ok, of j] Sends(2) by (simp add: job_fits_def)
  then have idle: "tq_worker q \<noteq> WorkerRuns j" using worker_okD(1) [OF work, of j] by auto
  have fresh: "j \<notin> set (tq_sent q)" using order new by (auto simp: order_ok_def)
  have "order_ok (caller_refused j q)"
    by (rule order_suffix [OF order]) (use idle in \<open>auto simp: pending_def transfer_ops split: worker_pc.splits if_splits\<close>)
  moreover have "order_ok (q\<lparr>tq_waiting := ws\<rparr>)" for ws
    by (rule order_suffix [OF order]) (simp_all add: pending_def split: worker_pc.split)
  moreover have "order_ok (set_job j (\<lambda>t. t\<lparr>tj_caller := CallerAwaits, tj_run := JobQueued\<rparr>)
      (no_longer_waits j q)\<lparr>tq_queue := tq_queue q @ [j], tq_sent := tq_sent q @ [j]\<rparr>)"
    using order fresh unfolding order_ok_def pending_enqueue [OF idle]
    by (auto simp: no_longer_waits_def)
  ultimately show ?thesis using order by (simp add: Sends(1) caller_sends_def)
next
  case Receives
  have "order_ok (drain_queue q)"
    by (rule order_suffix [OF order]) (auto simp: pending_def drain_queue_def split: if_splits)
  moreover have "order_ok (set_job j job_dropped (q\<lparr>tq_queue := rest\<rparr>))" if "tq_queue q = j # rest" for j rest
    by (rule order_suffix [OF order]) (use that Receives(2) in \<open>auto simp: pending_def suffix_def split: if_splits\<close>)
  moreover have "order_ok (set_job j (tj_run_update (\<lambda>_. JobTaken)) (q\<lparr>tq_queue := rest, tq_worker := WorkerRuns j\<rparr>))"
    if "tq_queue q = j # rest" for j rest
    by (rule order_suffix [OF order]) (use that Receives(2) in \<open>auto simp: pending_def split: if_splits\<close>)
  ultimately show ?thesis
    using order by (simp add: Receives(1) worker_receives_def split: list.split)
next
  case (Waits j)
  have "order_ok (drain_queue (select_ends j q))"
    by (rule order_suffix [OF order])
      (auto simp: pending_def drain_queue_def select_ends_def split: if_splits)
  moreover have "order_ok ((select_ends j q)\<lparr>tq_worker := WorkerReceives\<rparr>)"
    by (rule order_suffix [OF order])
      (auto simp: pending_def select_ends_def Waits(2) suffix_def split: if_splits)
  ultimately show ?thesis using order by (simp add: Waits(1) worker_waits_def)
next
  case (Starts j)
  show ?thesis
  proof (cases "job_must_stop j q")
    case True
    have "order_ok (set_job j job_dropped q)"
      by (rule order_suffix [OF order]) (auto simp: pending_def suffix_def split: worker_pc.splits if_splits)
    with True Starts show ?thesis by (simp add: job_starts_def)
  next
    case False
    then have w: "tq_worker q = WorkerRuns j" by (simp add: job_must_stop_def)
    with Starts(2) order obtain p where p: "tq_sent q = p @ j # tq_queue q" "subseq (tq_started q) p"
      by (auto simp: order_ok_def pending_def)
    have "subseq (tq_started q @ [j]) (p @ [j])" using p(2) by (intro list_emb_append_mono) auto
    with p False w order show ?thesis
      by (auto simp: Starts(1) job_starts_def order_ok_def pending_def intro!: exI [of _ "p @ [j]"] split: if_splits)
  qed
next
  case (Arrives j b)
  have "tj_run (tq_job q j) = JobNew" using channel_fits [OF ok, of j] Arrives(2) by (simp add: job_fits_def)
  then show ?thesis unfolding Arrives(1)
    by (intro order_suffix [OF order])
      (auto simp: pending_def caller_arrives_def split: worker_pc.splits if_splits)
next
  case (Polls j)
  have "order_ok (caller_answers j x q)" for x
    by (rule order_suffix [OF order]) (auto simp: pending_def caller_answers_def split: worker_pc.splits if_splits)
  with order show ?thesis by (simp add: Polls(1) caller_polls_def split: reply.split)
next
  case (Leaves j)
  show ?thesis unfolding Leaves(1)
    by (rule order_suffix [OF order])
      (auto simp: pending_def caller_leaves_def no_longer_waits_def Let_def split: worker_pc.splits if_splits)
next
  case (NoRuntime j)
  show ?thesis unfolding NoRuntime(1)
    by (rule order_suffix [OF order]) (auto simp: pending_def suffix_def split: worker_pc.splits if_splits)
next
  case (Stops j)
  show ?thesis unfolding Stops(1)
    by (rule order_suffix [OF order])
      (use Stops(2) in \<open>auto simp: pending_def job_stops_def suffix_def split: worker_pc.splits if_splits\<close>)
next
  case (Returns j x)
  show ?thesis unfolding Returns(1)
    by (rule order_suffix [OF order])
      (use Returns(2) in \<open>auto simp: pending_def job_returns_def suffix_def split: worker_pc.splits if_splits\<close>)
qed (rule order_suffix [OF order]; simp add: pending_def cancel_queue_def drop_queue_def split: worker_pc.split)+

subsection \<open>Answers\<close>

text \<open>
  What a job's reply and its caller's answer rest on: \<open>stop\<close> says that the queue was
  stopped, \<open>began\<close> that the work of the job began, \<open>gave\<close> what it returned.
\<close>

definition told :: "ustr \<Rightarrow> bool \<Rightarrow> bool \<Rightarrow> (daemon_fault + 'r) set \<Rightarrow> 'r transfer_job \<Rightarrow> bool" where
  "told session stop began gave t \<longleftrightarrow>
     (\<forall>x. tj_reply t = ReplySent x \<longrightarrow> x \<in> gave)
     \<and> (tj_caller t = CallerAwaits \<and> tj_reply t = ReplyOpen \<longrightarrow> tj_run t \<in> {JobQueued, JobTaken, JobInside})
     \<and> (tj_caller t = CallerAwaits \<and> tj_reply t = ReplyDropped \<longrightarrow> stop \<or> tj_blocking t)
     \<and> (\<forall>x. tj_caller t = CallerAnswered x \<longrightarrow>
          x \<in> gave \<or> x = Inl TransferCut \<and> stop \<or> x = Inl (SessionNotFound session) \<and> (stop \<or> tj_blocking t))
     \<and> (tj_run t = JobInside \<longrightarrow> began) \<and> (gave \<noteq> {} \<longrightarrow> began)"

definition told_ok :: "ustr \<Rightarrow> 'r transfer_queue \<Rightarrow> bool" where
  "told_ok session q \<longleftrightarrow> (\<forall>j. told session (queue_stopped q) (j \<in> set (tq_started q))
     {x. (j, x) \<in> set (tq_returned q)} (tq_job q j))"

lemma told_okD:
  "told_ok session q \<Longrightarrow> told session (queue_stopped q) (j \<in> set (tq_started q))
     {x. (j, x) \<in> set (tq_returned q)} (tq_job q j)"
  by (simp add: told_ok_def)

lemma told_frame [simp]:
  "told_ok z (q\<lparr>tq_waiting := ws\<rparr>) = told_ok z q" "told_ok z (q\<lparr>tq_worker := w\<rparr>) = told_ok z q"
  "told_ok z (q\<lparr>tq_queue := js\<rparr>) = told_ok z q" "told_ok z (q\<lparr>tq_sent := js\<rparr>) = told_ok z q"
  "told_ok z (q\<lparr>tq_open := b\<rparr>) = told_ok z q"
  by (simp_all add: told_ok_def queue_stopped_def)

lemma told_set_job:
  assumes "told_ok z q"
    and "told z (queue_stopped q) (j \<in> set (tq_started q)) {x. (j, x) \<in> set (tq_returned q)} (f (tq_job q j))"
  shows "told_ok z (set_job j f q)"
  using assms by (simp add: told_ok_def)

text \<open>A job may be dropped when the queue is stopped, the job blocks, or nobody awaits it.\<close>

lemma told_dropped:
  assumes "told_ok z q"
    and "queue_stopped q \<or> tj_blocking (tq_job q j) \<or> tj_caller (tq_job q j) \<noteq> CallerAwaits"
  shows "told_ok z (set_job j job_dropped q)"
  by (rule told_set_job [OF assms(1)]) (use told_okD [OF assms(1), of j] assms(2) in \<open>auto simp: told_def\<close>)

lemma told_drain:
  assumes "told_ok z q" and "queue_stopped q"
  shows "told_ok z (drain_queue q)"
proof -
  have "told z True (j \<in> set (tq_started q)) {x. (j, x) \<in> set (tq_returned q)} (job_dropped (tq_job q j))" for j
    using told_okD [OF assms(1), of j] assms(2) by (auto simp: told_def)
  with assms show ?thesis by (simp add: told_ok_def drain_queue_def queue_stopped_def)
qed

lemma told_stop_mono: "told z b c g t \<Longrightarrow> told z True c g t"
  by (auto simp: told_def)

lemma told_began_mono: "told z b c g t \<Longrightarrow> told z b True g t"
  by (auto simp: told_def)

lemma told_step:
  assumes "transfer_step z q q'" and ok: "channel_ok q" and work: "worker_ok q" and told: "told_ok z q"
  shows "told_ok z q'"
  using assms(1)
proof (cases rule: transfer_step.cases)
  case (Sends j)
  have new: "tj_run (tq_job q j) = JobNew" "tj_reply (tq_job q j) = ReplyOpen"
    using channel_fits [OF ok, of j] Sends(2) by (simp_all add: job_fits_def)
  have refused: "told_ok z (caller_refused j q)" if "queue_stopped q"
  proof -
    have "told_ok z (set_job j job_dropped (no_longer_waits j q))"
      by (rule told_dropped) (use told that in \<open>simp_all add: no_longer_waits_def queue_stopped_def\<close>)
    then show ?thesis unfolding caller_refused_def caller_answers_def
      by (rule told_set_job) (use told_okD [OF told, of j] that in \<open>auto simp: told_def no_longer_waits_def queue_stopped_def\<close>)
  qed
  have "told_ok z (set_job j (\<lambda>t. t\<lparr>tj_caller := CallerAwaits, tj_run := JobQueued\<rparr>) (no_longer_waits j q))"
    by (rule told_set_job)
      (use told told_okD [OF told, of j] new in \<open>auto simp: told_def no_longer_waits_def queue_stopped_def\<close>)
  moreover have "tq_cancelled q \<Longrightarrow> queue_stopped q" "\<not> tq_open q \<Longrightarrow> queue_stopped q"
    using work by (auto simp: worker_ok_def queue_stopped_def)
  ultimately show ?thesis using refused told by (simp add: Sends(1) caller_sends_def)
next
  case Receives
  have "told_ok z (set_job j job_dropped (q\<lparr>tq_queue := rest\<rparr>))" if "abandoned j q" for j rest
    by (rule told_dropped) (use told that in \<open>auto simp: abandoned_def\<close>)
  moreover have "told_ok z (set_job j (tj_run_update (\<lambda>_. JobTaken)) (q\<lparr>tq_queue := rest, tq_worker := WorkerRuns j\<rparr>))"
    for j rest
    by (rule told_set_job) (use told told_okD [OF told, of j] in \<open>auto simp: told_def queue_stopped_def\<close>)
  ultimately show ?thesis
    using told told_drain [OF told] by (simp add: Receives(1) worker_receives_def split: list.split)
next
  case (Waits j)
  have ends: "told_ok z (select_ends j q)"
    if "tj_run (tq_job q j) = JobOver \<or> queue_stopped q \<or> abandoned j q"
    unfolding select_ends_def
    by (rule told_set_job [OF told])
      (use told_okD [OF told, of j] that in \<open>auto simp: told_def abandoned_def lives_in_worker_def\<close>)
  have "told_ok z (drain_queue (select_ends j q))" if "queue_stopped q"
    by (rule told_drain) (use ends that in \<open>simp_all add: select_ends_def\<close>)
  with ends told show ?thesis by (auto simp: Waits(1) worker_waits_def)
next
  case (Polls j)
  have "told_ok z (caller_answers j (Inl TransferCut) q)" if "tq_cancelled q" unfolding caller_answers_def
    by (rule told_set_job [OF told]) (use told_okD [OF told, of j] that in \<open>auto simp: told_def queue_stopped_def\<close>)
  moreover have "told_ok z (caller_answers j x q)" if "tj_reply (tq_job q j) = ReplySent x" for x
    unfolding caller_answers_def
    by (rule told_set_job [OF told]) (use told_okD [OF told, of j] that in \<open>auto simp: told_def\<close>)
  moreover have "told_ok z (caller_answers j (Inl (SessionNotFound z)) q)" if "tj_reply (tq_job q j) = ReplyDropped"
    unfolding caller_answers_def
    by (rule told_set_job [OF told]) (use told_okD [OF told, of j] that Polls(2) in \<open>auto simp: told_def\<close>)
  ultimately show ?thesis using told by (simp add: Polls(1) caller_polls_def split: reply.split)
next
  case (Leaves j)
  let ?leave = "\<lambda>t. (if tj_run t = JobNew then job_dropped t else t)\<lparr>tj_caller := CallerGone\<rparr>"
  have "told_ok z (set_job j ?leave (no_longer_waits j q))"
    by (rule told_set_job)
      (use told told_okD [OF told, of j] in \<open>auto simp: told_def no_longer_waits_def queue_stopped_def\<close>)
  moreover have "q' = set_job j ?leave (no_longer_waits j q)"
    by (simp add: Leaves(1) caller_leaves_def set_job_def no_longer_waits_def)
  ultimately show ?thesis by simp
next
  case (Arrives j b)
  show ?thesis unfolding Arrives(1) caller_arrives_def
    by (rule told_set_job [OF told])
      (use told_okD [OF told, of j] channel_fits [OF ok, of j] Arrives(2) in \<open>auto simp: told_def job_fits_def\<close>)
next
  case (Starts j)
  have run: "tq_worker q = WorkerRuns j \<or> tq_worker q = WorkerEnded"
    using worker_okD(2) [OF work, of j] Starts(2) by (simp add: at_work_def)
  have "queue_stopped q \<or> \<not> caller_present (tj_caller (tq_job q j))" if "job_must_stop j q"
    using that run work by (auto simp: job_must_stop_def abandoned_def worker_ok_def)
  then have "told_ok z (set_job j job_dropped q)" if "job_must_stop j q"
    by (intro told_dropped [OF told]) (use that in auto)
  moreover have "told_ok z (q\<lparr>tq_started := tq_started q @ [j]\<rparr>)"
    unfolding told_ok_def
  proof
    fix k
    show "told z (queue_stopped (q\<lparr>tq_started := tq_started q @ [j]\<rparr>)) (k \<in> set (tq_started (q\<lparr>tq_started := tq_started q @ [j]\<rparr>)))
        {x. (k, x) \<in> set (tq_returned (q\<lparr>tq_started := tq_started q @ [j]\<rparr>))} (tq_job (q\<lparr>tq_started := tq_started q @ [j]\<rparr>) k)"
      using told_okD [OF told, of k] told_began_mono [OF told_okD [OF told, of k]]
      by (cases "k = j") (simp_all add: queue_stopped_def)
  qed
  then have "told_ok z (set_job j (tj_run_update (\<lambda>_. JobInside)) (q\<lparr>tq_started := tq_started q @ [j]\<rparr>))"
    by (rule told_set_job) (use told_okD [OF told, of j] in \<open>auto simp: told_def queue_stopped_def\<close>)
  ultimately show ?thesis by (simp add: Starts(1) job_starts_def)
next
  case (NoRuntime j)
  show ?thesis unfolding NoRuntime(1) by (rule told_dropped [OF told]) (use NoRuntime in simp)
next
  case (Stops j)
  have run: "tq_worker q = WorkerRuns j \<or> tq_worker q = WorkerEnded"
    using worker_okD(2) [OF work, of j] Stops(2) by (simp add: at_work_def)
  have "queue_stopped q \<or> \<not> caller_present (tj_caller (tq_job q j))" if "job_must_stop j q"
    using that run work by (auto simp: job_must_stop_def abandoned_def worker_ok_def)
  then have "told_ok z (set_job j job_dropped q)" if "job_must_stop j q"
    by (intro told_dropped [OF told]) (use that in auto)
  with told show ?thesis by (simp add: Stops(1) job_stops_def)
next
  case (Returns j x)
  have began: "j \<in> set (tq_started q)" using told_okD [OF told, of j] Returns(2) by (simp add: told_def)
  have "told z (queue_stopped q) (k \<in> set (tq_started q)) {y. (k, y) \<in> set (tq_returned q @ [(j, x)])} (tq_job q k)" for k
    using told_okD [OF told, of k] began by (auto simp: told_def)
  then have "told_ok z (q\<lparr>tq_returned := tq_returned q @ [(j, x)]\<rparr>)"
    by (simp add: told_ok_def queue_stopped_def)
  then show ?thesis unfolding Returns(1) job_returns_def
    by (rule told_set_job) (use told_okD [OF told, of j] began in \<open>auto simp: told_def queue_stopped_def\<close>)
qed (use told_okD [OF told] told_stop_mono [OF told_okD [OF told]] in
  \<open>auto simp: told_ok_def queue_stopped_def cancel_queue_def drop_queue_def\<close>)

subsection \<open>Reachable states\<close>

lemma transfer_invariants:
  "transfer_reachable z q \<Longrightarrow> channel_ok q \<and> worker_ok q \<and> order_ok q \<and> told_ok z q"
proof (induction rule: transfer_reachable.induct)
  case Start
  show ?case
    by (simp add: channel_ok_def worker_ok_def order_ok_def told_ok_def told_def job_fits_def at_work_def
        pending_def start_queue_def no_job_def)
next
  case (Step q q')
  then show ?case by (meson channel_step worker_step order_step told_step)
qed

text \<open>
  C18. The transfers of a session run one at a time, in the order in which their jobs were
  enqueued, each at most once; at most eight jobs wait. This holds also while a cancelled
  queue still has a job in a synchronous part.
\<close>

theorem transfers_one_at_a_time:
  assumes "transfer_reachable z q"
  shows "(at_work j q \<and> at_work k q \<longrightarrow> j = k) \<and> length (tq_queue q) \<le> TRANSFER_QUEUE_BOUND
    \<and> subseq (tq_started q) (tq_sent q) \<and> distinct (tq_started q)"
proof -
  note inv = transfer_invariants [OF assms]
  then obtain p where p: "tq_sent q = p @ pending q" "subseq (tq_started q) p" "distinct (tq_sent q)"
    by (auto simp: order_ok_def)
  then have "subseq (tq_started q) (tq_sent q)" by (simp add: list_emb_prefix)
  with p(3) inv show ?thesis
    using distinct_subseq worker_okD(3) channel_bounds(1) by blast
qed

text \<open>
  C19. What a caller is told is what its own work returned, or that the session was closed and
  the queue was stopped, or that there is no such session, and then the queue was dropped or
  no runtime could be built for the job's thread.
\<close>

theorem transfer_answer_is_result:
  assumes "transfer_reachable z q" and "tj_caller (tq_job q j) = CallerAnswered x"
  shows "(j, x) \<in> set (tq_returned q) \<and> j \<in> set (tq_started q)
    \<or> x = Inl TransferCut \<and> queue_stopped q
    \<or> x = Inl (SessionNotFound z) \<and> (queue_stopped q \<or> tj_blocking (tq_job q j))"
  using told_okD [of z q j] transfer_invariants [OF assms(1)] assms(2) unfolding told_def by blast

lemma cancelled_step:
  assumes "transfer_step z q q'" and "tq_cancelled q"
  shows "tq_cancelled q' \<and> tq_started q' = tq_started q
    \<and> (\<forall>j x. tj_caller (tq_job q' j) = CallerAnswered x \<longrightarrow>
         x = Inl TransferCut \<or> tj_caller (tq_job q j) = CallerAnswered x)"
  using assms(1)
  by (cases rule: transfer_step.cases)
    (use assms(2) in \<open>auto simp: transfer_ops select_ends_def Let_def
      job_must_stop_def queue_stopped_def split: list.split if_splits\<close>)

text \<open>
  After the cancel of a close no job begins any more, and whoever is answered is told that
  the session was closed. Every caller is answered by its next poll, whatever it waits for.
\<close>

theorem cancel_answers_all:
  assumes "tq_cancelled q"
  shows "(\<forall>q'. transfer_step z q q' \<longrightarrow> tq_cancelled q' \<and> tq_started q' = tq_started q
      \<and> (\<forall>j x. tj_caller (tq_job q' j) = CallerAnswered x \<longrightarrow>
           x = Inl TransferCut \<or> tj_caller (tq_job q j) = CallerAnswered x))
    \<and> tj_caller (tq_job (caller_sends i q) i) = CallerAnswered (Inl TransferCut)
    \<and> tj_caller (tq_job (caller_polls z i q) i) = CallerAnswered (Inl TransferCut)"
  using cancelled_step [OF _ assms] assms by (simp add: transfer_ops)

subsection \<open>A sample\<close>

text \<open>A blocking job at work and a second one behind it.\<close>

definition sample_transfers :: "nat transfer_queue" where
  "sample_transfers = caller_sends 1 (caller_arrives 1 False (job_starts 0
     (worker_receives (caller_sends 0 (caller_arrives 0 True start_queue)))))"

lemma transfers_reachable: "transfer_reachable z sample_transfers"
  unfolding sample_transfers_def
  by (intro transfer_reachable.Step [OF _ transfer_step.Sends] transfer_reachable.Step [OF _ transfer_step.Arrives]
      transfer_reachable.Step [OF _ transfer_step.Starts] transfer_reachable.Step [OF _ transfer_step.Receives]
      transfer_reachable.Start)
    (simp_all add: transfer_ops start_queue_def no_job_def queue_stopped_def TRANSFER_QUEUE_BOUND_def
      ahead_def abandoned_def job_must_stop_def)

lemma sample_values:
  "tq_started sample_transfers = [0]" "tq_queue sample_transfers = [1]"
  "tj_run (tq_job sample_transfers 0) = JobInside" "tj_caller (tq_job sample_transfers 0) = CallerAwaits"
  "tj_caller (tq_job sample_transfers 1) = CallerAwaits"
  by (simp_all add: sample_transfers_def transfer_ops start_queue_def no_job_def queue_stopped_def
      TRANSFER_QUEUE_BOUND_def ahead_def abandoned_def job_must_stop_def)

lemma transfers_one_at_a_time_witness:
  "tq_started sample_transfers = [0] \<and> subseq (tq_started sample_transfers) (tq_sent sample_transfers)
   \<and> length (tq_queue sample_transfers) \<le> TRANSFER_QUEUE_BOUND \<and> at_work 0 sample_transfers
   \<and> \<not> at_work 1 sample_transfers"
  using transfers_one_at_a_time [OF transfers_reachable, of 0 1] sample_values by (auto simp: at_work_def)

lemma transfer_answer_is_result_witness:
  "tj_caller (tq_job (caller_polls [] 0 (job_returns 0 (Inr 7) sample_transfers)) 0) = CallerAnswered (Inr 7)
   \<and> (0, Inr 7) \<in> set (tq_returned (caller_polls [] 0 (job_returns 0 (Inr 7) sample_transfers)))"
proof -
  let ?q = "job_returns 0 (Inr 7) sample_transfers"
  have "tq_cancelled sample_transfers = False"
    by (simp add: sample_transfers_def transfer_ops start_queue_def queue_stopped_def)
  then have a: "tj_caller (tq_job (caller_polls [] 0 ?q) 0) = CallerAnswered (Inr 7)"
    by (simp add: caller_polls_def caller_answers_def job_returns_def)
  have "tj_caller (tq_job ?q 0) = CallerAwaits" by (simp add: job_returns_def sample_values)
  then have "transfer_reachable [] (caller_polls [] 0 ?q)"
    by (rule transfer_reachable.Step [OF transfer_reachable.Step [OF transfers_reachable
      transfer_step.Returns [OF sample_values(3)]] transfer_step.Polls])
  from transfer_answer_is_result [OF this a] a show ?thesis by simp
qed

lemma cancel_answers_all_witness:
  "tj_caller (tq_job (caller_polls [] 1 (cancel_queue sample_transfers)) 1) = CallerAnswered (Inl TransferCut)
   \<and> tq_started (worker_waits 0 (cancel_queue sample_transfers)) = [0]"
proof -
  have c: "tq_cancelled (cancel_queue sample_transfers)" by (simp add: cancel_queue_def)
  have w: "tq_worker (cancel_queue sample_transfers) = WorkerRuns 0"
    by (simp add: sample_transfers_def transfer_ops start_queue_def no_job_def queue_stopped_def
      TRANSFER_QUEUE_BOUND_def ahead_def abandoned_def job_must_stop_def)
  have "tq_started (cancel_queue sample_transfers) = [0]" by (simp add: cancel_queue_def sample_values)
  then show ?thesis
    using cancel_answers_all [OF c, of "[]" 1] transfer_step.Waits [OF w, of "[]"] by simp
qed

end
