(* ===== verification/Transfer_Progress.thy ===== *)
theory Transfer_Progress
  imports Transfer_Promises
begin

text \<open>
  No caller of the transfer worker is forgotten. A run is an infinite sequence of states; it
  is fair when every task and thread is polled again and again and the work of every job
  ends. A rank of the state says how far a caller is from its answer: no step raises it, and
  one task, the helper, lowers it when it is polled.
\<close>

subsection \<open>Fair runs\<close>

definition worker_poll :: "'r transfer_queue \<Rightarrow> 'r transfer_queue" where
  "worker_poll q =
     (case tq_worker q of
        WorkerReceives \<Rightarrow> worker_receives q
      | WorkerRuns j \<Rightarrow> worker_waits j q
      | WorkerEnded \<Rightarrow> q)"

definition caller_poll :: "ustr \<Rightarrow> nat \<Rightarrow> 'r transfer_queue \<Rightarrow> 'r transfer_queue" where
  "caller_poll session j q =
     (case tj_caller (tq_job q j) of
        CallerSends \<Rightarrow> caller_sends j q
      | CallerAwaits \<Rightarrow> caller_polls session j q
      | _ \<Rightarrow> q)"

definition job_poll :: "nat \<Rightarrow> 'r transfer_queue \<Rightarrow> 'r transfer_queue" where
  "job_poll j q = (if tj_run (tq_job q j) = JobTaken then job_starts j q else q)"

definition again :: "(nat \<Rightarrow> bool) \<Rightarrow> bool" where
  "again P \<longleftrightarrow> (\<forall>n. \<exists>m \<ge> n. P m)"

definition fair_run :: "ustr \<Rightarrow> (nat \<Rightarrow> 'r transfer_queue) \<Rightarrow> bool" where
  "fair_run session r \<longleftrightarrow> transfer_reachable session (r 0)
     \<and> (\<forall>n. r (Suc n) = r n \<or> transfer_step session (r n) (r (Suc n)))
     \<and> again (\<lambda>n. r (Suc n) = worker_poll (r n))
     \<and> (\<forall>j. again (\<lambda>n. r (Suc n) = caller_poll session j (r n)))
     \<and> (\<forall>j. again (\<lambda>n. r (Suc n) = job_poll j (r n)))
     \<and> (\<forall>j. again (\<lambda>n. tj_run (tq_job (r n) j) \<noteq> JobInside))"

lemma fair_reachable: "fair_run session r \<Longrightarrow> transfer_reachable session (r n)"
proof (induction n)
  case (Suc n)
  then have "transfer_reachable session (r n)" "r (Suc n) = r n \<or> transfer_step session (r n) (r (Suc n))"
    by (simp_all add: fair_run_def)
  then show ?case by (metis transfer_reachable.Step)
qed (simp add: fair_run_def)

lemma fair_polls:
  assumes "fair_run session r"
  shows "\<exists>m \<ge> n. r (Suc m) = worker_poll (r m)"
    and "\<exists>m \<ge> n. r (Suc m) = caller_poll session j (r m)"
    and "\<exists>m \<ge> n. r (Suc m) = job_poll j (r m)"
    and "\<exists>m \<ge> n. tj_run (tq_job (r m) j) \<noteq> JobInside"
  using assms unfolding fair_run_def again_def by blast+

text \<open>What falls again and again reaches its end.\<close>

lemma rank_ends:
  fixes rank :: "'a \<Rightarrow> nat" and r :: "nat \<Rightarrow> 'a"
  assumes "\<And>n. stage (r n) \<Longrightarrow> \<exists>m \<ge> n. goal (r m) \<or> stage (r m) \<and> rank (r m) < rank (r n)"
  shows "stage (r n) \<Longrightarrow> \<exists>m \<ge> n. goal (r m)"
proof (induction "rank (r n)" arbitrary: n rule: less_induct)
  case less
  from assms [OF less.prems] obtain m where m: "m \<ge> n" "goal (r m) \<or> stage (r m) \<and> rank (r m) < rank (r n)" by blast
  show ?case
  proof (cases "goal (r m)")
    case False
    with m less.hyps [of m] obtain k where k: "k \<ge> m" "goal (r k)" by blast
    show ?thesis by (rule exI [of _ k]) (use k m(1) in simp)
  qed (use m in blast)
qed

subsection \<open>Who waits for capacity\<close>

definition waiting_ok :: "'r transfer_queue \<Rightarrow> bool" where
  "waiting_ok q \<longleftrightarrow> distinct (tq_waiting q)
     \<and> (\<forall>k \<in> set (tq_waiting q). tj_caller (tq_job q k) = CallerSends)"

lemma waiting_keep:
  assumes "waiting_ok q" and "tq_waiting q' = tq_waiting q"
    and "\<And>k. tj_caller (tq_job q k) = CallerSends \<Longrightarrow> tj_caller (tq_job q' k) = CallerSends"
  shows "waiting_ok q'"
  using assms by (auto simp: waiting_ok_def)

lemma waiting_step:
  assumes "transfer_step z q q'" and ok: "waiting_ok q"
  shows "waiting_ok q'"
  using assms(1)
proof (cases rule: transfer_step.cases)
  case (Sends j)
  then show ?thesis using ok by (auto simp: waiting_ok_def transfer_ops)
next
  case (Leaves j)
  then show ?thesis using ok by (auto simp: waiting_ok_def transfer_ops Let_def)
next
  case (Receives)
  then show ?thesis
    by (intro waiting_keep [OF ok]) (auto simp: transfer_ops split: list.split)
next
  case (Waits j)
  then show ?thesis
    by (intro waiting_keep [OF ok]) (auto simp: transfer_ops select_ends_def)
next
  case (Polls j)
  then show ?thesis
    by (intro waiting_keep [OF ok]) (auto simp: transfer_ops split: reply.split)
qed (intro waiting_keep [OF ok]; auto simp: transfer_ops)+

lemma reachable_waiting: "transfer_reachable z q \<Longrightarrow> waiting_ok q"
proof (induction rule: transfer_reachable.induct)
  case (Step q q')
  then show ?case using waiting_step by blast
qed (simp add: waiting_ok_def start_queue_def)

lemma ahead_simps [simp]:
  "ahead j [] = 0"
  "ahead j (k # ks) = (if k = j then 0 else Suc (ahead j ks))"
  by (simp_all add: ahead_def)

lemma ahead_append: "ahead j (xs @ ys) = (if j \<in> set xs then ahead j xs else length xs + ahead j ys)"
  by (induction xs) auto

lemma ahead_less: "j \<in> set xs \<Longrightarrow> ahead j xs < length xs"
  by (induction xs) auto

lemma ahead_out: "j \<notin> set xs \<Longrightarrow> ahead j xs = length xs"
  by (induction xs) auto

lemma ahead_inj: "j \<in> set xs \<Longrightarrow> ahead j xs = ahead k xs \<Longrightarrow> j = k"
  by (induction xs) (auto split: if_splits)

text \<open>The one that leaves was ahead of \<open>j\<close>, or was not.\<close>

lemma ahead_filter:
  assumes "distinct xs" and "k \<noteq> j"
  shows "ahead j (filter (\<lambda>x. x \<noteq> k) xs) = (if k \<in> set xs \<and> ahead k xs < ahead j xs then ahead j xs - 1 else ahead j xs)"
  using assms by (induction xs) (auto simp: ahead_out filter_id_conv)

subsection \<open>The rank\<close>

text \<open>What the worker is at.\<close>

fun job_left :: "job_pc \<Rightarrow> nat" where
  "job_left JobTaken = 3"
| "job_left JobInside = 2"
| "job_left _ = 1"

datatype helper = ByCaller nat | ByWorker | ByThread nat | ByWork nat

fun job_helper :: "nat \<Rightarrow> job_pc \<Rightarrow> helper" where
  "job_helper k JobTaken = ByThread k"
| "job_helper k JobInside = ByWork k"
| "job_helper k _ = ByWorker"

definition worker_left :: "'r transfer_queue \<Rightarrow> nat \<times> helper" where
  "worker_left q =
     (case tq_worker q of
        WorkerRuns k \<Rightarrow> (job_left (tj_run (tq_job q k)), job_helper k (tj_run (tq_job q k)))
      | _ \<Rightarrow> (0, ByWorker))"

definition slots_before :: "nat \<Rightarrow> 'r transfer_queue \<Rightarrow> nat" where
  "slots_before j q = length (tq_queue q) + ahead j (tq_waiting q)"

definition may_send :: "nat \<Rightarrow> 'r transfer_queue \<Rightarrow> bool" where
  "may_send j q \<longleftrightarrow> tq_cancelled q \<or> \<not> tq_open q \<or> slots_before j q < TRANSFER_QUEUE_BOUND"

definition may_answer :: "nat \<Rightarrow> 'r transfer_queue \<Rightarrow> bool" where
  "may_answer j q \<longleftrightarrow> tq_cancelled q \<or> tj_reply (tq_job q j) \<noteq> ReplyOpen"

text \<open>The rank of a caller that awaits its reply, and of one that waits for capacity.\<close>

definition await_rank :: "nat \<Rightarrow> 'r transfer_queue \<Rightarrow> nat \<times> helper" where
  "await_rank j q =
     (if may_answer j q then (1, ByCaller j)
      else case tj_run (tq_job q j) of
        JobInside \<Rightarrow> (2, ByWork j)
      | JobTaken \<Rightarrow> (3, ByThread j)
      | _ \<Rightarrow> (4 + 4 * ahead j (tq_queue q) + fst (worker_left q), snd (worker_left q)))"

definition send_rank :: "nat \<Rightarrow> 'r transfer_queue \<Rightarrow> nat \<times> helper" where
  "send_rank j q =
     (if may_send j q then (40, ByCaller j)
      else if tq_queue q = [] then (45 + 8 * slots_before j q + fst (worker_left q), ByCaller (hd (tq_waiting q)))
      else (41 + 8 * slots_before j q + fst (worker_left q), snd (worker_left q)))"

definition caller_rank :: "nat \<Rightarrow> 'r transfer_queue \<Rightarrow> nat \<times> helper" where
  "caller_rank j q =
     (case tj_caller (tq_job q j) of
        CallerAwaits \<Rightarrow> await_rank j q
      | CallerSends \<Rightarrow> send_rank j q
      | _ \<Rightarrow> (0, ByCaller j))"

definition staged :: "nat \<Rightarrow> 'r transfer_queue \<Rightarrow> bool" where
  "staged j q \<longleftrightarrow> tj_caller (tq_job q j) = CallerAwaits
     \<or> tj_caller (tq_job q j) = CallerSends \<and> j \<in> set (tq_waiting q)"

definition caller_ended :: "nat \<Rightarrow> 'r transfer_queue \<Rightarrow> bool" where
  "caller_ended j q \<longleftrightarrow> tj_caller (tq_job q j) = CallerGone
     \<or> (\<exists>x. tj_caller (tq_job q j) = CallerAnswered x)"

text \<open>No step raises the rank; one that leaves it leaves the helper.\<close>

definition not_worse :: "nat \<times> helper \<Rightarrow> nat \<times> helper \<Rightarrow> bool" where
  "not_worse x y \<longleftrightarrow> fst x < fst y \<or> x = y"

definition moves_on :: "nat \<Rightarrow> 'r transfer_queue \<Rightarrow> 'r transfer_queue \<Rightarrow> bool" where
  "moves_on j q q' \<longleftrightarrow> caller_ended j q' \<or> staged j q' \<and> not_worse (caller_rank j q') (caller_rank j q)"

text \<open>A change that the rank of \<open>j\<close> does not see but for the worker.\<close>

lemma moves_same:
  assumes "staged j q" and "tq_job q' j = tq_job q j" and "tq_cancelled q' = tq_cancelled q"
    and "tq_open q' = tq_open q" and "tq_queue q' = tq_queue q" and "tq_waiting q' = tq_waiting q"
    and "not_worse (worker_left q') (worker_left q)"
  shows "moves_on j q q'"
proof -
  have "fst (worker_left q') < fst (worker_left q) \<or> worker_left q' = worker_left q"
    using assms(7) by (simp add: not_worse_def)
  then have "not_worse (await_rank j q') (await_rank j q)" "not_worse (send_rank j q') (send_rank j q)"
    using assms(2-6)
    by (auto simp: not_worse_def await_rank_def send_rank_def may_answer_def may_send_def slots_before_def split: job_pc.split)
  then have "not_worse (caller_rank j q') (caller_rank j q)"
    using assms(1,2) by (auto simp: caller_rank_def staged_def)
  then show ?thesis using assms(1,2,6) by (auto simp: moves_on_def staged_def)
qed

lemma worker_left_job:
  "(tq_worker q = WorkerRuns k \<Longrightarrow> job_left (tj_run (f (tq_job q k))) < job_left (tj_run (tq_job q k))
      \<or> tj_run (f (tq_job q k)) = tj_run (tq_job q k))
    \<Longrightarrow> not_worse (worker_left (set_job k f q)) (worker_left q)"
  by (cases "tq_worker q") (auto simp: worker_left_def not_worse_def)

lemma worker_left_cong:
  "tq_job q' = tq_job q \<Longrightarrow> tq_worker q' = tq_worker q \<Longrightarrow> worker_left q' = worker_left q"
  by (simp add: worker_left_def split: worker_pc.split)

text \<open>A change of the channel that leaves the worker and the job of \<open>j\<close>.\<close>

lemma moves_waiting:
  assumes "tj_caller (tq_job q j) = CallerSends" and "j \<in> set (tq_waiting q')" and "tq_job q' j = tq_job q j"
    and "not_worse (send_rank j q') (send_rank j q)"
  shows "moves_on j q q'"
  using assms by (simp add: moves_on_def staged_def caller_rank_def)

lemma moves_awaiting:
  assumes "tj_caller (tq_job q j) = CallerAwaits" and "tj_caller (tq_job q' j) = CallerAwaits"
    and "not_worse (await_rank j q') (await_rank j q)"
  shows "moves_on j q q'"
  using assms by (simp add: moves_on_def staged_def caller_rank_def)

lemma moves_refl: "staged j q \<Longrightarrow> moves_on j q q"
  by (simp add: moves_on_def not_worse_def)

lemma awaits_run:
  assumes "told_ok z q" and "tj_caller (tq_job q j) = CallerAwaits" and "\<not> may_answer j q"
  shows "tj_run (tq_job q j) \<in> {JobQueued, JobTaken, JobInside}"
  using told_okD [OF assms(1), of j] assms(2,3) by (auto simp: told_def may_answer_def)

lemma worker_left_bound: "fst (worker_left q) \<le> 3"
proof (cases "tq_worker q")
  case (WorkerRuns k)
  then show ?thesis by (cases "tj_run (tq_job q k)") (simp_all add: worker_left_def)
qed (simp_all add: worker_left_def)

lemma send_rank_low: "may_send j q' \<Longrightarrow> not_worse (send_rank j q') (send_rank j q)"
  by (auto simp: send_rank_def not_worse_def)

lemma await_rank_low: "may_answer j q' \<Longrightarrow> not_worse (await_rank j q') (await_rank j q)"
  by (auto simp: await_rank_def not_worse_def split: job_pc.split)

text \<open>The channel gets shorter for \<open>j\<close>, whatever the worker does.\<close>

lemma send_rank_shorter:
  assumes "slots_before j q' < slots_before j q" and "tq_cancelled q' = tq_cancelled q" and "tq_open q' = tq_open q"
  shows "not_worse (send_rank j q') (send_rank j q)"
proof (cases "may_send j q'")
  case False
  then have "\<not> may_send j q" using assms by (auto simp: may_send_def)
  with False show ?thesis
    using assms(1) worker_left_bound [of q'] by (auto simp: send_rank_def not_worse_def)
qed (rule send_rank_low)

lemma moves_receives:
  assumes st: "staged j q" and w: "tq_worker q = WorkerReceives" and ok: "channel_ok q" and told: "told_ok z q"
  shows "moves_on j q (worker_receives q)"
proof -
  have fits: "job_fits (j \<in> set (tq_queue q)) (tq_job q j)" by (rule channel_fits [OF ok])
  have left: "worker_left q = (0, ByWorker)" by (simp add: worker_left_def w)
  show ?thesis
  proof (cases "queue_stopped q")
    case True
    then have d: "worker_receives q = drain_queue q" by (simp add: worker_receives_def)
    from st show ?thesis unfolding staged_def
    proof
      assume a: "tj_caller (tq_job q j) = CallerAwaits"
      have "not_worse (await_rank j (drain_queue q)) (await_rank j q)"
      proof (cases "j \<in> set (tq_queue q)")
        case False
        with a awaits_run [OF told a] fits show ?thesis
          by (auto simp: await_rank_def may_answer_def drain_queue_def not_worse_def job_fits_def)
      qed (rule await_rank_low, simp add: may_answer_def drain_queue_def)
      then show ?thesis unfolding d by (intro moves_awaiting) (simp_all add: a drain_queue_def)
    next
      assume a: "tj_caller (tq_job q j) = CallerSends \<and> j \<in> set (tq_waiting q)"
      then have "j \<notin> set (tq_queue q)" using fits by (auto simp: job_fits_def)
      with a show ?thesis unfolding d
        by (intro moves_waiting send_rank_low) (simp_all add: drain_queue_def may_send_def)
    qed
  next
    case False
    show ?thesis
    proof (cases "tq_queue q")
      case Nil
      then show ?thesis using moves_refl [OF st] False by (simp add: worker_receives_def)
    next
      case (Cons k rest)
      define q' where "q' = worker_receives q"
      have q': "tq_queue q' = rest" "tq_waiting q' = tq_waiting q" "tq_cancelled q' = tq_cancelled q"
        "tq_open q' = tq_open q" "i \<noteq> k \<Longrightarrow> tq_job q' i = tq_job q i" for i
        using False Cons by (simp_all add: q'_def worker_receives_def)
      have kq: "tj_run (tq_job q k) = JobQueued" "k \<notin> set rest"
        using channel_fits [OF ok, of k] channel_bounds(2) [OF ok] Cons by (auto simp: job_fits_def)
      from st have "moves_on j q q'" unfolding staged_def
      proof
        assume a: "tj_caller (tq_job q j) = CallerAwaits"
        show ?thesis
        proof (cases "j = k")
          case True
          have "\<not> abandoned j q" using a by (simp add: abandoned_def)
          then have job: "tq_job q' j = (tq_job q j)\<lparr>tj_run := JobTaken\<rparr>"
            using False Cons True by (simp add: q'_def worker_receives_def)
          show ?thesis
            by (rule moves_awaiting [OF a])
              (use job a q'(3) kq True in \<open>auto simp: await_rank_def may_answer_def not_worse_def\<close>)
        next
          case other: False
          have "await_rank j q' = await_rank j q" if "tj_run (tq_job q j) \<in> {JobTaken, JobInside} \<or> may_answer j q"
            using that q'(3) q'(5) [OF other] by (auto simp: await_rank_def may_answer_def)
          moreover have "fst (await_rank j q') < fst (await_rank j q)"
            if "tj_run (tq_job q j) = JobQueued" "\<not> may_answer j q"
            using that q'(3) q'(5) [OF other] worker_left_bound [of q'] other
            by (auto simp: await_rank_def may_answer_def q'(1) Cons)
          ultimately have "not_worse (await_rank j q') (await_rank j q)"
            using awaits_run [OF told a] by (auto simp: not_worse_def)
          then show ?thesis by (intro moves_awaiting [OF a]) (simp_all add: q'(5) [OF other] a)
        qed
      next
        assume a: "tj_caller (tq_job q j) = CallerSends \<and> j \<in> set (tq_waiting q)"
        then have "j \<noteq> k" using fits kq(1) by (auto simp: job_fits_def)
        with a show ?thesis
          by (intro moves_waiting send_rank_shorter) (simp_all add: q' slots_before_def Cons)
      qed
      then show ?thesis by (simp add: q'_def)
    qed
  qed
qed

lemma moves_waits:
  assumes st: "staged j q" and w: "tq_worker q = WorkerRuns k" and ok: "channel_ok q" and told: "told_ok z q"
  shows "moves_on j q (worker_waits k q)"
proof -
  have fits: "job_fits (j \<in> set (tq_queue q)) (tq_job q j)" by (rule channel_fits [OF ok])
  have present: "\<not> abandoned j q" using st by (auto simp: staged_def abandoned_def)
  show ?thesis
  proof (cases "queue_stopped q")
    case True
    define q' where "q' = drain_queue (select_ends k q)"
    have d: "worker_waits k q = q'" using True by (simp add: worker_waits_def q'_def)
    have dropped: "tj_reply (tq_job q' j) = ReplyDropped \<or> tq_job q' j = tq_job q j \<and> j \<notin> set (tq_queue q)"
      by (simp add: q'_def drain_queue_def select_ends_def)
    have fields: "tj_caller (tq_job q' j) = tj_caller (tq_job q j)" "tq_waiting q' = tq_waiting q"
      "tq_cancelled q' = tq_cancelled q" "tq_open q' = False"
      by (simp_all add: q'_def drain_queue_def select_ends_def)
    from st show ?thesis unfolding staged_def d
    proof
      assume a: "tj_caller (tq_job q j) = CallerAwaits"
      from dropped have "not_worse (await_rank j q') (await_rank j q)"
      proof
        assume "tq_job q' j = tq_job q j \<and> j \<notin> set (tq_queue q)"
        with awaits_run [OF told a] fits fields(3) show ?thesis
          by (auto simp: await_rank_def may_answer_def not_worse_def job_fits_def)
      qed (rule await_rank_low, simp add: may_answer_def)
      then show "moves_on j q q'" by (intro moves_awaiting) (simp_all add: a fields)
    next
      assume a: "tj_caller (tq_job q j) = CallerSends \<and> j \<in> set (tq_waiting q)"
      have "not_worse (send_rank j q') (send_rank j q)"
        by (rule send_rank_low) (simp add: may_send_def fields)
      then show "moves_on j q q'"
        using a fields by (simp add: moves_on_def staged_def caller_rank_def)
    qed
  next
    case False
    show ?thesis
    proof (cases "tj_run (tq_job q k) = JobOver \<or> lives_in_worker (tq_job q k) \<and> abandoned k q")
      case True
      define q' where "q' = (select_ends k q)\<lparr>tq_worker := WorkerReceives\<rparr>"
      have d: "worker_waits k q = q'" using False True by (simp add: worker_waits_def q'_def)
      have left: "fst (worker_left q') < fst (worker_left q)"
        by (cases "tj_run (tq_job q k)") (simp_all add: worker_left_def w q'_def)
      have "tq_job q' j = tq_job q j"
        using True present by (auto simp: q'_def select_ends_def lives_in_worker_def)
      then show ?thesis unfolding d
        by (rule moves_same [OF st])
          (use left in \<open>simp_all add: not_worse_def q'_def select_ends_def\<close>)
    next
      case nothing: False
      then have "worker_waits k q = q" using False by (auto simp: worker_waits_def)
      then show ?thesis using moves_refl [OF st] by simp
    qed
  qed
qed

lemma moves_sends_self:
  assumes st: "staged j q" and sends: "tj_caller (tq_job q j) = CallerSends" and ok: "channel_ok q" and work: "worker_ok q"
  shows "moves_on j q (caller_sends j q)"
proof -
  have waits: "j \<in> set (tq_waiting q)" using st sends by (simp add: staged_def)
  have new: "tj_run (tq_job q j) = JobNew" "tj_reply (tq_job q j) = ReplyOpen" "j \<notin> set (tq_queue q)"
    using channel_fits [OF ok, of j] sends by (auto simp: job_fits_def)
  show ?thesis
  proof (cases "tq_cancelled q \<or> \<not> tq_open q")
    case True
    then have "caller_sends j q = caller_refused j q" by (auto simp: caller_sends_def)
    then show ?thesis by (simp add: caller_refused_def caller_answers_def moves_on_def caller_ended_def)
  next
    case live: False
    show ?thesis
    proof (cases "may_send j q")
      case True
      define q' where "q' = caller_sends j q"
      have free: "length (tq_queue q) < 8"
        using True live by (simp add: may_send_def slots_before_def TRANSFER_QUEUE_BOUND_def)
      have q': "tj_caller (tq_job q' j) = CallerAwaits" "tj_run (tq_job q' j) = JobQueued"
        "tq_queue q' = tq_queue q @ [j]" "tj_reply (tq_job q' j) = ReplyOpen" "\<not> tq_cancelled q'"
        using True live new by (simp_all add: q'_def caller_sends_def may_send_def slots_before_def no_longer_waits_def)
      have "fst (await_rank j q') < fst (send_rank j q)"
        using q' True free new(3) worker_left_bound [of q']
        by (simp add: await_rank_def may_answer_def send_rank_def ahead_append)
      then have "moves_on j q q'" using q'(1) sends by (simp add: moves_on_def staged_def caller_rank_def not_worse_def)
      then show ?thesis by (simp add: q'_def)
    next
      case False
      then show ?thesis using live waits moves_refl [OF st]
        by (simp add: caller_sends_def may_send_def slots_before_def)
    qed
  qed
qed

text \<open>Another caller leaves the line, or joins it.\<close>

lemma line_left:
  assumes ok: "waiting_ok q" and "k \<noteq> j" and "j \<in> set (tq_waiting q)"
    and "tq_waiting q' = filter (\<lambda>x. x \<noteq> k) (tq_waiting q)" and "tq_queue q' = tq_queue q"
    and "tq_cancelled q' = tq_cancelled q" and "tq_open q' = tq_open q" and "worker_left q' = worker_left q"
  shows "not_worse (send_rank j q') (send_rank j q)"
proof (cases "k \<in> set (tq_waiting q) \<and> ahead k (tq_waiting q) < ahead j (tq_waiting q)")
  case True
  have "slots_before j q' < slots_before j q"
    using True assms by (auto simp: slots_before_def ahead_filter waiting_ok_def)
  then show ?thesis by (rule send_rank_shorter) (use assms in simp_all)
next
  case False
  have slots: "slots_before j q' = slots_before j q"
    using False assms by (auto simp: slots_before_def ahead_filter waiting_ok_def)
  have "hd (tq_waiting q') = hd (tq_waiting q)" if "\<not> may_send j q" "tq_queue q = []"
  proof (cases "tq_waiting q")
    case (Cons i ws)
    have "0 < ahead j (tq_waiting q)"
      using that by (auto simp: may_send_def slots_before_def TRANSFER_QUEUE_BOUND_def)
    with False Cons have "i \<noteq> k" by auto
    then show ?thesis using Cons assms(4) by simp
  qed (use assms in simp)
  then show ?thesis using slots assms by (auto simp: send_rank_def may_send_def not_worse_def)
qed

lemma worker_left_other:
  assumes "worker_ok q" and "tj_run (tq_job q k) = JobNew" and "tq_worker q' = tq_worker q"
    and "\<And>i. i \<noteq> k \<Longrightarrow> tj_run (tq_job q' i) = tj_run (tq_job q i)"
  shows "worker_left q' = worker_left q"
proof (cases "tq_worker q")
  case (WorkerRuns i)
  then have "i \<noteq> k" using worker_okD(1) [OF assms(1) WorkerRuns] assms(2) by auto
  then show ?thesis using assms(3,4) WorkerRuns by (simp add: worker_left_def)
qed (use assms(3) in \<open>simp_all add: worker_left_def\<close>)

lemma moves_sends_other:
  assumes st: "staged j q" and kj: "k \<noteq> j" and sends: "tj_caller (tq_job q k) = CallerSends"
    and ok: "channel_ok q" and work: "worker_ok q" and line: "waiting_ok q" and told: "told_ok z q"
  shows "moves_on j q (caller_sends k q)"
proof -
  have new: "tj_run (tq_job q k) = JobNew" using channel_fits [OF ok, of k] sends by (auto simp: job_fits_def)
  define q' where "q' = caller_sends k q"
  have same: "tq_cancelled q' = tq_cancelled q" "tq_open q' = tq_open q" "tq_job q' j = tq_job q j"
    "worker_left q' = worker_left q"
    using kj worker_left_other [OF work new, of q']
    by (auto simp: q'_def caller_sends_def caller_refused_def caller_answers_def no_longer_waits_def)
  have how: "tq_queue q' = tq_queue q @ [k] \<and> tq_waiting q' = filter (\<lambda>i. i \<noteq> k) (tq_waiting q)
        \<and> slots_before k q < TRANSFER_QUEUE_BOUND
    \<or> tq_queue q' = tq_queue q \<and> tq_waiting q' = filter (\<lambda>i. i \<noteq> k) (tq_waiting q)
    \<or> tq_queue q' = tq_queue q \<and> tq_waiting q' = tq_waiting q @ [k]
    \<or> q' = q"
  proof (cases "tq_cancelled q \<or> \<not> tq_open q")
    case True
    then have "q' = caller_refused k q" by (auto simp: q'_def caller_sends_def)
    then show ?thesis by (simp add: caller_refused_def caller_answers_def no_longer_waits_def)
  next
    case False
    then show ?thesis
      by (cases "slots_before k q < TRANSFER_QUEUE_BOUND"; cases "k \<in> set (tq_waiting q)")
        (simp_all add: q'_def caller_sends_def no_longer_waits_def slots_before_def)
  qed
  from st have "moves_on j q q'" unfolding staged_def
  proof
    assume a: "tj_caller (tq_job q j) = CallerAwaits"
    have "ahead j (tq_queue q') = ahead j (tq_queue q)" if "tj_run (tq_job q j) = JobQueued"
    proof -
      have "j \<in> set (tq_queue q)" using channel_fits [OF ok, of j] that by (simp add: job_fits_def)
      with how show ?thesis by (auto simp: ahead_append)
    qed
    then have "await_rank j q' = await_rank j q"
      using awaits_run [OF told a] same by (auto simp: await_rank_def may_answer_def)
    then show ?thesis by (intro moves_awaiting [OF a]) (simp_all add: same a not_worse_def)
  next
    assume a: "tj_caller (tq_job q j) = CallerSends \<and> j \<in> set (tq_waiting q)"
    have "not_worse (send_rank j q') (send_rank j q)"
      using how
    proof (elim disjE conjE)
      assume q': "tq_queue q' = tq_queue q @ [k]" "tq_waiting q' = filter (\<lambda>i. i \<noteq> k) (tq_waiting q)"
        and room: "slots_before k q < TRANSFER_QUEUE_BOUND"
      have apart: "ahead j (tq_waiting q) \<noteq> ahead k (tq_waiting q)" using a kj ahead_inj by metis
      have dist: "distinct (tq_waiting q)" using line by (simp add: waiting_ok_def)
      have outside: "k \<notin> set (tq_waiting q) \<Longrightarrow> ahead j (tq_waiting q) < ahead k (tq_waiting q)"
        using a ahead_less [of j "tq_waiting q"] by (simp add: ahead_out)
      show ?thesis
      proof (cases "ahead k (tq_waiting q) < ahead j (tq_waiting q)")
        case True
        then have "slots_before j q' = slots_before j q"
          using outside kj by (auto simp: slots_before_def q' ahead_filter [OF dist])
        then show ?thesis using same by (auto simp: send_rank_def may_send_def not_worse_def q')
      next
        case False
        then have "may_send j q'"
          using room apart kj by (auto simp: may_send_def slots_before_def q' ahead_filter [OF dist])
        then show ?thesis by (rule send_rank_low)
      qed
    next
      assume "tq_queue q' = tq_queue q" "tq_waiting q' = filter (\<lambda>i. i \<noteq> k) (tq_waiting q)"
      then show ?thesis using line_left [OF line kj] a same by blast
    next
      assume q': "tq_queue q' = tq_queue q" "tq_waiting q' = tq_waiting q @ [k]"
      have "slots_before j q' = slots_before j q" using a by (simp add: slots_before_def q' ahead_append)
      moreover have "hd (tq_waiting q') = hd (tq_waiting q)" using a q' by (cases "tq_waiting q") auto
      ultimately show ?thesis using same by (simp add: send_rank_def may_send_def not_worse_def q')
    qed (simp add: not_worse_def)
    then show ?thesis
    proof (intro moves_waiting)
      show "j \<in> set (tq_waiting q')" using how a kj by auto
    qed (use a same in simp_all)
  qed
  then show ?thesis by (simp add: q'_def)
qed

lemma moves_leaves:
  assumes st: "staged j q" and kj: "k \<noteq> j" and ok: "channel_ok q" and work: "worker_ok q"
    and line: "waiting_ok q" and told: "told_ok z q"
  shows "moves_on j q (caller_leaves k q)"
proof -
  define q' where "q' = caller_leaves k q"
  have q': "tq_waiting q' = filter (\<lambda>i. i \<noteq> k) (tq_waiting q)" "tq_queue q' = tq_queue q"
    "tq_cancelled q' = tq_cancelled q" "tq_open q' = tq_open q" "tq_job q' j = tq_job q j"
    "tq_worker q' = tq_worker q" "i \<noteq> k \<Longrightarrow> tq_job q' i = tq_job q i"
    "tj_run (tq_job q k) \<noteq> JobNew \<Longrightarrow> tj_run (tq_job q' k) = tj_run (tq_job q k)" for i
    using kj by (simp_all add: q'_def caller_leaves_def no_longer_waits_def Let_def)
  have left: "worker_left q' = worker_left q"
  proof (cases "tj_run (tq_job q k) = JobNew")
    case False
    then have "tj_run (tq_job q' i) = tj_run (tq_job q i)" for i by (cases "i = k") (simp_all add: q')
    then show ?thesis by (simp add: worker_left_def q'(6) split: worker_pc.split)
  next
    case True
    show ?thesis by (rule worker_left_other [OF work True q'(6)]) (simp add: q'(7))
  qed
  from st have "moves_on j q q'" unfolding staged_def
  proof
    assume a: "tj_caller (tq_job q j) = CallerAwaits"
    have "await_rank j q' = await_rank j q"
      using awaits_run [OF told a] q' left by (auto simp: await_rank_def may_answer_def)
    then show ?thesis by (intro moves_awaiting [OF a]) (simp_all add: q' a not_worse_def)
  next
    assume a: "tj_caller (tq_job q j) = CallerSends \<and> j \<in> set (tq_waiting q)"
    with line_left [OF line kj _ q'(1,2,3,4) left] show ?thesis
      by (intro moves_waiting) (use kj q' in auto)
  qed
  then show ?thesis by (simp add: q'_def)
qed

lemma moves_job:
  assumes st: "staged j q" and kj: "k \<noteq> j"
    and "tq_worker q = WorkerRuns k \<Longrightarrow> job_left (tj_run (f (tq_job q k))) < job_left (tj_run (tq_job q k))
      \<or> tj_run (f (tq_job q k)) = tj_run (tq_job q k)"
  shows "moves_on j q (set_job k f q)"
  by (rule moves_same [OF st]) (use kj worker_left_job [of q k f] assms(3) in simp_all)

lemma moves_own_job:
  assumes a: "tj_caller (tq_job q j) = CallerAwaits" and run: "tj_run (tq_job q j) \<in> {JobTaken, JobInside}"
    and kept: "tj_caller (f (tq_job q j)) = CallerAwaits"
    and f: "tj_reply (f (tq_job q j)) \<noteq> ReplyOpen \<or> f (tq_job q j) = tq_job q j
      \<or> tj_run (f (tq_job q j)) = JobInside \<and> tj_run (tq_job q j) = JobTaken \<and> tj_reply (f (tq_job q j)) = tj_reply (tq_job q j)"
  shows "moves_on j q (set_job j f q)"
proof (rule moves_awaiting [OF a])
  show "not_worse (await_rank j (set_job j f q)) (await_rank j q)"
  proof (cases "may_answer j (set_job j f q)")
    case False
    then show ?thesis using f run by (auto simp: await_rank_def may_answer_def not_worse_def)
  qed (rule await_rank_low)
qed (simp add: kept)

lemma moves_run:
  assumes st: "staged j q" and ok: "channel_ok q" and run: "tj_run (tq_job q k) \<in> {JobTaken, JobInside}"
    and kept: "tj_caller (f (tq_job q k)) = tj_caller (tq_job q k)"
    and f: "tj_run (f (tq_job q k)) = JobOver \<and> tj_reply (f (tq_job q k)) \<noteq> ReplyOpen
      \<or> tj_run (f (tq_job q k)) = JobInside \<and> tj_run (tq_job q k) = JobTaken \<and> tj_reply (f (tq_job q k)) = tj_reply (tq_job q k)"
  shows "moves_on j q (set_job k f q)"
proof (cases "k = j")
  case True
  have a: "tj_caller (tq_job q j) = CallerAwaits"
    using st run channel_fits [OF ok, of j] True by (auto simp: staged_def job_fits_def)
  show ?thesis unfolding True
    by (rule moves_own_job [OF a]) (use run kept f a True in auto)
next
  case False
  then show ?thesis by (rule moves_job [OF st]) (use run f in auto)
qed

lemma moves_cong:
  assumes "tq_job p' = tq_job p" "tq_cancelled p' = tq_cancelled p" "tq_open p' = tq_open p" "tq_queue p' = tq_queue p"
    "tq_waiting p' = tq_waiting p" "tq_worker p' = tq_worker p"
  shows "moves_on j q p' = moves_on j q p"
proof -
  have "worker_left p' = worker_left p" using assms by (intro worker_left_cong)
  then have "await_rank j p' = await_rank j p" "send_rank j p' = send_rank j p"
    unfolding await_rank_def send_rank_def may_answer_def may_send_def slots_before_def by (simp_all only: assms)
  then have "caller_rank j p' = caller_rank j p"
    unfolding caller_rank_def by (simp only: assms)
  then show ?thesis unfolding moves_on_def caller_ended_def staged_def by (simp only: assms)
qed

lemma step_moves:
  assumes step: "transfer_step z q q'" and st: "staged j q"
    and inv: "channel_ok q" "worker_ok q" "told_ok z q" "waiting_ok q"
  shows "moves_on j q q'"
  using step
proof (cases rule: transfer_step.cases)
  case (Arrives k b)
  have "tj_run (tq_job q k) = JobNew" using channel_fits [OF inv(1), of k] Arrives(2) by (simp add: job_fits_def)
  moreover have "k \<noteq> j" using st Arrives(2) by (auto simp: staged_def)
  ultimately show ?thesis unfolding Arrives(1) caller_arrives_def by (intro moves_job [OF st]) simp_all
next
  case (Sends k)
  show ?thesis
  proof (cases "k = j")
    case True
    have sends: "tj_caller (tq_job q j) = CallerSends" using Sends(2) True by simp
    show ?thesis unfolding Sends(1) True by (rule moves_sends_self [OF st sends inv(1,2)])
  next
    case False
    show ?thesis unfolding Sends(1) by (rule moves_sends_other [OF st False Sends(2) inv(1,2,4,3)])
  qed
next
  case (Polls k)
  show ?thesis
  proof (cases "k = j")
    case True
    have "caller_ended j (caller_answers j x q)" for x by (simp add: caller_answers_def caller_ended_def)
    then have "moves_on j q (caller_answers j x q)" for x by (simp add: moves_on_def)
    then show ?thesis using moves_refl [OF st] unfolding Polls(1) True caller_polls_def by (simp split: reply.split)
  next
    case False
    then have "moves_on j q (caller_answers k x q)" for x
      unfolding caller_answers_def by (intro moves_job [OF st]) simp_all
    then show ?thesis using moves_refl [OF st] unfolding Polls(1) caller_polls_def by (simp split: reply.split)
  qed
next
  case (Leaves k)
  show ?thesis
  proof (cases "k = j")
    case True
    have "tj_caller (tq_job q' j) = CallerGone"
      by (simp add: Leaves(1) True caller_leaves_def Let_def)
    then show ?thesis by (simp add: moves_on_def caller_ended_def)
  next
    case False
    show ?thesis unfolding Leaves(1) by (rule moves_leaves [OF st False inv(1,2,4,3)])
  qed
next
  case Receives
  show ?thesis unfolding Receives(1) by (rule moves_receives [OF st Receives(2) inv(1,3)])
next
  case (Waits k)
  show ?thesis unfolding Waits(1) by (rule moves_waits [OF st Waits(2) inv(1,3)])
next
  case (Cancels)
  have "not_worse (await_rank j (cancel_queue q)) (await_rank j q)" "not_worse (send_rank j (cancel_queue q)) (send_rank j q)"
    by (simp_all add: await_rank_low send_rank_low may_answer_def may_send_def cancel_queue_def)
  moreover have "tq_job (cancel_queue q) = tq_job q" "tq_waiting (cancel_queue q) = tq_waiting q"
    by (simp_all add: cancel_queue_def)
  ultimately show ?thesis unfolding Cancels(1)
    using st moves_awaiting [of q j "cancel_queue q"] moves_waiting [of q j "cancel_queue q"]
    by (auto simp: staged_def)
next
  case (Drops)
  have "worker_left (drop_queue q) = worker_left q" by (rule worker_left_cong) (simp_all add: drop_queue_def)
  then show ?thesis unfolding Drops(1)
    by (intro moves_same [OF st]) (simp_all add: drop_queue_def not_worse_def)
next
  case (Starts k)
  have "moves_on j q (set_job k job_dropped q)"
    by (rule moves_run [OF st inv(1)]) (simp_all add: Starts(2))
  moreover have "moves_on j q (set_job k (\<lambda>t. t\<lparr>tj_run := JobInside\<rparr>) q)"
    by (rule moves_run [OF st inv(1)]) (simp_all add: Starts(2))
  moreover have "moves_on j q (set_job k (\<lambda>t. t\<lparr>tj_run := JobInside\<rparr>) (q\<lparr>tq_started := tq_started q @ [k]\<rparr>))
      = moves_on j q (set_job k (\<lambda>t. t\<lparr>tj_run := JobInside\<rparr>) q)"
    by (rule moves_cong) simp_all
  ultimately show ?thesis by (simp add: Starts(1) job_starts_def)
next
  case (NoRuntime k)
  show ?thesis unfolding NoRuntime(1)
    by (rule moves_run [OF st inv(1)]) (simp_all add: NoRuntime(2))
next
  case (Stops k)
  have "moves_on j q (set_job k job_dropped q)"
    by (rule moves_run [OF st inv(1)]) (simp_all add: Stops(2))
  then show ?thesis using moves_refl [OF st] by (simp add: Stops(1) job_stops_def)
next
  case (Returns k x)
  have "moves_on j q (job_returns k x q) = moves_on j q (set_job k (\<lambda>t. t\<lparr>tj_run := JobOver, tj_reply := ReplySent x\<rparr>) q)"
    by (rule moves_cong) (simp_all add: job_returns_def)
  also have "\<dots>" by (rule moves_run [OF st inv(1)]) (simp_all add: Returns(2))
  finally show ?thesis unfolding Returns(1) by simp
qed

subsection \<open>The helper lowers the rank\<close>

definition queue_ok :: "ustr \<Rightarrow> 'r transfer_queue \<Rightarrow> bool" where
  "queue_ok z q \<longleftrightarrow> channel_ok q \<and> worker_ok q \<and> told_ok z q \<and> waiting_ok q"

lemma reachable_queue_ok: "transfer_reachable z q \<Longrightarrow> queue_ok z q"
  using transfer_invariants reachable_waiting unfolding queue_ok_def by blast

lemma queue_okD:
  "queue_ok z q \<Longrightarrow> channel_ok q" "queue_ok z q \<Longrightarrow> worker_ok q" "queue_ok z q \<Longrightarrow> told_ok z q"
  "queue_ok z q \<Longrightarrow> waiting_ok q"
  by (simp_all add: queue_ok_def)

lemma worker_left_helper:
  "snd (worker_left q) \<noteq> ByCaller k"
  "snd (worker_left q) = ByThread k \<Longrightarrow> tq_worker q = WorkerRuns k \<and> tj_run (tq_job q k) = JobTaken"
  "snd (worker_left q) = ByWork k \<Longrightarrow> tq_worker q = WorkerRuns k \<and> tj_run (tq_job q k) = JobInside"
  by (cases "tq_worker q"; simp add: worker_left_def; cases "tj_run (tq_job q (case tq_worker q of WorkerRuns i \<Rightarrow> i))"; simp)+

lemma rank_cases [consumes 2, case_names answer own queued send empty full]:
  assumes "staged j q" and ok: "queue_ok z q"
  obtains "tj_caller (tq_job q j) = CallerAwaits" "may_answer j q" "caller_rank j q = (1, ByCaller j)"
    | "tj_caller (tq_job q j) = CallerAwaits" "\<not> may_answer j q" "tj_run (tq_job q j) \<in> {JobTaken, JobInside}"
      "caller_rank j q = (job_left (tj_run (tq_job q j)), job_helper j (tj_run (tq_job q j)))"
    | "tj_caller (tq_job q j) = CallerAwaits" "\<not> may_answer j q" "tj_run (tq_job q j) = JobQueued" "j \<in> set (tq_queue q)"
      "caller_rank j q = (4 + 4 * ahead j (tq_queue q) + fst (worker_left q), snd (worker_left q))"
    | "tj_caller (tq_job q j) = CallerSends" "j \<in> set (tq_waiting q)" "may_send j q" "caller_rank j q = (40, ByCaller j)"
    | "tj_caller (tq_job q j) = CallerSends" "j \<in> set (tq_waiting q)" "\<not> may_send j q" "tq_queue q = []"
      "caller_rank j q = (45 + 8 * slots_before j q + fst (worker_left q), ByCaller (hd (tq_waiting q)))"
    | "tj_caller (tq_job q j) = CallerSends" "j \<in> set (tq_waiting q)" "\<not> may_send j q" "tq_queue q \<noteq> []"
      "caller_rank j q = (41 + 8 * slots_before j q + fst (worker_left q), snd (worker_left q))"
proof (cases "tj_caller (tq_job q j) = CallerAwaits")
  case True
  show ?thesis
  proof (cases "may_answer j q")
    case no: False
    have fits: "tj_run (tq_job q j) = JobQueued \<Longrightarrow> j \<in> set (tq_queue q)"
      using channel_fits [OF queue_okD(1) [OF ok], of j] by (simp add: job_fits_def)
    from awaits_run [OF queue_okD(3) [OF ok] True no]
    have "tj_run (tq_job q j) = JobQueued \<or> tj_run (tq_job q j) \<in> {JobTaken, JobInside}" by auto
    then show ?thesis
    proof
      assume run: "tj_run (tq_job q j) = JobQueued"
      show ?thesis by (rule that(3) [OF True no run fits [OF run]]) (simp add: caller_rank_def await_rank_def True no run)
    next
      assume run: "tj_run (tq_job q j) \<in> {JobTaken, JobInside}"
      show ?thesis by (rule that(2) [OF True no run]) (use run in \<open>auto simp: caller_rank_def await_rank_def True no\<close>)
    qed
  qed (rule that(1) [OF True], simp_all add: caller_rank_def await_rank_def True)
next
  case False
  then have a: "tj_caller (tq_job q j) = CallerSends" "j \<in> set (tq_waiting q)"
    using assms(1) by (auto simp: staged_def)
  show ?thesis
  proof (cases "may_send j q")
    case no: False
    show ?thesis
      by (cases "tq_queue q = []"; rule that(5) [OF a no] that(6) [OF a no])
        (simp_all add: caller_rank_def send_rank_def a no)
  qed (rule that(4) [OF a], simp_all add: caller_rank_def send_rank_def a)
qed

definition falls :: "nat \<Rightarrow> 'r transfer_queue \<Rightarrow> 'r transfer_queue \<Rightarrow> bool" where
  "falls j q q' \<longleftrightarrow> caller_ended j q' \<or> staged j q' \<and> fst (caller_rank j q') < fst (caller_rank j q)"

lemma fallsI:
  assumes "moves_on j q q'" and "\<not> caller_ended j q' \<Longrightarrow> caller_rank j q' \<noteq> caller_rank j q"
  shows "falls j q q'"
  using assms by (auto simp: falls_def moves_on_def not_worse_def)

text \<open>A dropped job of a waiting caller, and a channel that was closed, can be answered.\<close>

lemma rank_drained:
  assumes "staged j q" and "queue_ok z q" and "snd (caller_rank j q) \<noteq> ByCaller j"
    and "tj_run (tq_job q j) \<notin> {JobTaken, JobInside}"
    and "tj_caller (tq_job q' j) = tj_caller (tq_job q j)" and "\<not> tq_open q'"
    and "j \<in> set (tq_queue q) \<Longrightarrow> tj_reply (tq_job q' j) \<noteq> ReplyOpen"
  shows "caller_rank j q' \<noteq> caller_rank j q"
  using assms(1,2)
proof (cases rule: rank_cases)
  case queued
  then have "may_answer j q'" using assms(7) by (simp add: may_answer_def)
  then have "snd (caller_rank j q') = ByCaller j" using queued(1) assms(5) by (simp add: caller_rank_def await_rank_def)
  then show ?thesis using assms(3) by metis
qed (use assms in \<open>auto simp: caller_rank_def send_rank_def may_send_def\<close>)

lemma caller_helps:
  assumes st: "staged j q" and ok: "queue_ok z q" and h: "snd (caller_rank j q) = ByCaller k"
  shows "falls j q (caller_poll z k q)"
  using st ok
proof (cases rule: rank_cases)
  case answer
  then have "k = j" using h by simp
  moreover have "caller_ended j (caller_polls z j q)"
    using answer(2) by (cases "tj_reply (tq_job q j)")
      (auto simp: caller_polls_def caller_answers_def caller_ended_def may_answer_def)
  ultimately show ?thesis using answer(1) by (simp add: caller_poll_def falls_def)
next
  case own
  then show ?thesis using h by auto
next
  case queued
  then show ?thesis using h worker_left_helper(1) [of q k] by simp
next
  case send
  have "k = j" using send h by simp
  have p: "caller_poll z j q = caller_sends j q" using send(1) by (simp add: caller_poll_def)
  have "tj_caller (tq_job (caller_sends j q) j) = CallerAwaits" if "\<not> caller_ended j (caller_sends j q)"
  proof -
    have live: "\<not> tq_cancelled q \<and> tq_open q"
    proof (rule ccontr)
      assume "\<not> (\<not> tq_cancelled q \<and> tq_open q)"
      then have "caller_sends j q = caller_refused j q" by (auto simp: caller_sends_def)
      with that show False by (simp add: caller_refused_def caller_answers_def caller_ended_def)
    qed
    then show ?thesis using send(3) by (simp add: caller_sends_def may_send_def slots_before_def)
  qed
  then have "caller_rank j (caller_sends j q) \<noteq> (40, ByCaller j)" if "\<not> caller_ended j (caller_sends j q)"
    using that worker_left_helper(1) [of "caller_sends j q" j]
    by (auto simp: caller_rank_def await_rank_def split: job_pc.split)
  then show ?thesis unfolding \<open>k = j\<close> p
    using moves_sends_self [OF st send(1) queue_okD(1,2) [OF ok]] send(4) by (intro fallsI) simp_all
next
  case empty
  then have k: "k = hd (tq_waiting q)" using h by simp
  have far: "0 < ahead j (tq_waiting q)" and live: "\<not> tq_cancelled q" "tq_open q"
    using empty(3,4) by (auto simp: may_send_def slots_before_def TRANSFER_QUEUE_BOUND_def)
  obtain ws where ws: "tq_waiting q = k # ws" using k empty(2) by (cases "tq_waiting q") auto
  with far have kj: "k \<noteq> j" by auto
  have sends: "tj_caller (tq_job q k) = CallerSends" using queue_okD(4) [OF ok] ws by (simp add: waiting_ok_def)
  define q' where "q' = caller_sends k q"
  have q': "tj_caller (tq_job q' j) = CallerSends" "tq_queue q' = [k]"
    using live ws kj empty(1,4)
    by (simp_all add: q'_def caller_sends_def no_longer_waits_def TRANSFER_QUEUE_BOUND_def)
  have "fst (caller_rank j q') \<noteq> 45 + 8 * slots_before j q + fst (worker_left q)"
    using worker_left_bound [of q'] worker_left_bound [of q] q'
    by (cases "may_send j q'") (simp_all add: caller_rank_def send_rank_def, presburger)
  then have "caller_rank j q' \<noteq> caller_rank j q" using empty(5) by auto
  moreover have "caller_poll z k q = q'" using sends by (simp add: caller_poll_def q'_def)
  moreover have "moves_on j q q'" unfolding q'_def by (rule moves_sends_other [OF st kj sends queue_okD(1,2,4,3) [OF ok]])
  ultimately show ?thesis by (simp add: fallsI)
next
  case full
  then show ?thesis using h worker_left_helper(1) [of q k] by simp
qed

lemma thread_helps:
  assumes st: "staged j q" and ok: "queue_ok z q" and h: "snd (caller_rank j q) = ByThread k"
  shows "falls j q (job_poll k q)"
proof -
  have run: "tj_run (tq_job q k) = JobTaken"
    using st ok
  proof (cases rule: rank_cases)
    case own
    then show ?thesis using h by auto
  qed (use h worker_left_helper(2) [of q k] in auto)
  then have p: "job_poll k q = job_starts k q" by (simp add: job_poll_def)
  have moves: "moves_on j q (job_starts k q)"
    by (rule step_moves [OF transfer_step.Starts [OF run] st queue_okD(1,2,3,4) [OF ok]])
  have after: "tj_run (tq_job (job_starts k q) k) \<noteq> JobTaken" by (simp add: job_starts_def)
  have "snd (caller_rank j (job_starts k q)) \<noteq> ByThread k"
  proof
    assume snd: "snd (caller_rank j (job_starts k q)) = ByThread k"
    have "tj_run (tq_job (job_starts k q) k) = JobTaken"
      using snd worker_left_helper(2) [of "job_starts k q" k]
      by (cases "tj_caller (tq_job (job_starts k q) j)")
        (auto simp: caller_rank_def await_rank_def send_rank_def split: if_splits job_pc.splits)
    with after show False by simp
  qed
  then show ?thesis unfolding p using h by (intro fallsI moves) auto
qed

lemma worker_helps:
  assumes st: "staged j q" and ok: "queue_ok z q" and h: "snd (caller_rank j q) = ByWorker"
  shows "falls j q (worker_poll q)"
proof -
  note inv = queue_okD [OF ok]
  have seen: "snd (worker_left q) = ByWorker" and idle: "tj_run (tq_job q j) \<notin> {JobTaken, JobInside}"
    and channel: "tj_caller (tq_job q j) = CallerAwaits \<and> \<not> may_answer j q \<and> j \<in> set (tq_queue q)
      \<and> caller_rank j q = (4 + 4 * ahead j (tq_queue q) + fst (worker_left q), ByWorker)
    \<or> tj_caller (tq_job q j) = CallerSends \<and> \<not> may_send j q \<and> tq_queue q \<noteq> []
      \<and> caller_rank j q = (41 + 8 * slots_before j q + fst (worker_left q), ByWorker)"
    using st ok h channel_fits [OF inv(1), of j] by (auto elim!: rank_cases simp: job_fits_def)
  have queue: "tq_queue q \<noteq> []" using channel by auto
  have drained: "caller_rank j q' \<noteq> caller_rank j q"
    if "tj_caller (tq_job q' j) = tj_caller (tq_job q j)" "\<not> tq_open q'"
      "j \<in> set (tq_queue q) \<Longrightarrow> tj_reply (tq_job q' j) \<noteq> ReplyOpen" for q'
    by (rule rank_drained [OF st ok _ idle that]) (simp_all add: h)
  show ?thesis
  proof (cases "tq_worker q")
    case WorkerEnded
    then show ?thesis using queue inv(2) by (simp add: worker_ok_def)
  next
    case WorkerReceives
    then have p: "worker_poll q = worker_receives q" by (simp add: worker_poll_def)
    have left: "fst (worker_left q) = 0" by (simp add: worker_left_def WorkerReceives)
    have "caller_rank j (worker_receives q) \<noteq> caller_rank j q"
    proof (cases "queue_stopped q")
      case True
      then show ?thesis by (intro drained) (simp_all add: worker_receives_def drain_queue_def)
    next
      case False
      obtain k rest where c: "tq_queue q = k # rest" using queue by (cases "tq_queue q") auto
      define q' where "q' = worker_receives q"
      have q': "tq_queue q' = rest" "tq_waiting q' = tq_waiting q" "tq_cancelled q' = tq_cancelled q"
        "tq_open q' = tq_open q" "i \<noteq> k \<Longrightarrow> tq_job q' i = tq_job q i"
        "tj_caller (tq_job q' i) = tj_caller (tq_job q i)" for i
        using False c by (simp_all add: q'_def worker_receives_def)
      have left': "fst (worker_left q') \<le> 3" by (rule worker_left_bound)
      from channel have "caller_rank j q' \<noteq> caller_rank j q"
      proof (elim disjE conjE)
        assume a: "tj_caller (tq_job q j) = CallerAwaits" "\<not> may_answer j q" "j \<in> set (tq_queue q)"
          "caller_rank j q = (4 + 4 * ahead j (tq_queue q) + fst (worker_left q), ByWorker)"
        show ?thesis
        proof (cases "j = k")
          case True
          have "tj_run (tq_job q' j) = JobTaken"
            using False c True a(1) by (simp add: q'_def worker_receives_def abandoned_def)
          then have "snd (caller_rank j q') \<noteq> ByWorker"
            using a(1) q'(6) [of j] by (simp add: caller_rank_def await_rank_def)
          then show ?thesis using h by metis
        next
          case other: False
          have run: "tj_run (tq_job q j) = JobQueued"
            using channel_fits [OF inv(1), of j] a(3) by (simp add: job_fits_def)
          have "fst (caller_rank j q') = 4 + 4 * ahead j rest + fst (worker_left q')"
            using a q'(3) q'(5) [OF other] run by (simp add: caller_rank_def await_rank_def may_answer_def q'(1))
          then have "fst (caller_rank j q') \<noteq> fst (caller_rank j q)"
            using a(4) left left' other c by simp
          then show ?thesis by metis
        qed
      next
        assume a: "tj_caller (tq_job q j) = CallerSends" "\<not> may_send j q"
          "caller_rank j q = (41 + 8 * slots_before j q + fst (worker_left q), ByWorker)"
        have "slots_before j q = Suc (slots_before j q')" by (simp add: slots_before_def q' c)
        then have "fst (caller_rank j q') \<noteq> fst (caller_rank j q)"
          using a left left' by (simp add: caller_rank_def send_rank_def q'(6))
        then show ?thesis by metis
      qed
      then show ?thesis by (simp add: q'_def)
    qed
    with moves_receives [OF st WorkerReceives inv(1,3)] show ?thesis unfolding p by (rule fallsI)
  next
    case (WorkerRuns k)
    then have p: "worker_poll q = worker_waits k q" by (simp add: worker_poll_def)
    have over: "tj_run (tq_job q k) = JobOver"
      using worker_okD(1) [OF inv(2) WorkerRuns] seen WorkerRuns by (auto simp: worker_left_def)
    have "caller_rank j (worker_waits k q) \<noteq> caller_rank j q"
    proof (cases "queue_stopped q")
      case True
      then show ?thesis by (intro drained) (simp_all add: worker_waits_def drain_queue_def select_ends_def)
    next
      case False
      have job: "tq_job (worker_waits k q) j = tq_job q j"
        using False over by (simp add: worker_waits_def select_ends_def lives_in_worker_def)
      have "worker_left (worker_waits k q) = (0, ByWorker)" "fst (worker_left q) = 1"
        using False over WorkerRuns by (simp_all add: worker_waits_def worker_left_def)
      moreover have "tq_queue (worker_waits k q) = tq_queue q" "tq_waiting (worker_waits k q) = tq_waiting q"
        "tq_cancelled (worker_waits k q) = tq_cancelled q" "tq_open (worker_waits k q) = tq_open q"
        using False by (simp_all add: worker_waits_def select_ends_def)
      moreover have "tj_caller (tq_job q j) = CallerAwaits \<Longrightarrow> \<not> may_answer j q \<Longrightarrow> tj_run (tq_job q j) = JobQueued"
        using awaits_run [OF inv(3)] idle by blast
      ultimately have "fst (caller_rank j (worker_waits k q)) \<noteq> fst (caller_rank j q)"
        using channel job
        by (auto simp: caller_rank_def await_rank_def send_rank_def may_answer_def may_send_def slots_before_def)
      then show ?thesis by metis
    qed
    with moves_waits [OF st WorkerRuns inv(1,3)] show ?thesis unfolding p by (rule fallsI)
  qed
qed

subsection \<open>Every caller is answered\<close>

lemma run_moves:
  assumes fair: "fair_run z r" and st: "staged j (r n)"
  shows "moves_on j (r n) (r (Suc n))"
proof -
  have "queue_ok z (r n)" by (rule reachable_queue_ok [OF fair_reachable [OF fair]])
  moreover have "r (Suc n) = r n \<or> transfer_step z (r n) (r (Suc n))" using fair by (simp add: fair_run_def)
  ultimately show ?thesis using moves_refl [OF st] step_moves [OF _ st] queue_okD by metis
qed

lemma rank_kept:
  assumes fair: "fair_run z r" and st: "staged j (r n)" and "n \<le> m"
  shows "(\<exists>k \<ge> n. caller_ended j (r k) \<or> staged j (r k) \<and> fst (caller_rank j (r k)) < fst (caller_rank j (r n)))
    \<or> staged j (r m) \<and> caller_rank j (r m) = caller_rank j (r n)"
  using \<open>n \<le> m\<close>
proof (induction m rule: dec_induct)
  case (step m)
  from step.IH show ?case
  proof
    assume at: "staged j (r m) \<and> caller_rank j (r m) = caller_rank j (r n)"
    then have "moves_on j (r m) (r (Suc m))" using run_moves [OF fair] by blast
    then have "caller_ended j (r (Suc m)) \<or> staged j (r (Suc m)) \<and> (fst (caller_rank j (r (Suc m))) < fst (caller_rank j (r n))
        \<or> caller_rank j (r (Suc m)) = caller_rank j (r n))"
      using at by (simp add: moves_on_def not_worse_def)
    moreover have "n \<le> Suc m" using step.hyps by simp
    ultimately show ?thesis by blast
  qed blast
qed (use st in simp)

lemma rank_falls:
  assumes fair: "fair_run z r" and st: "staged j (r n)"
  shows "\<exists>m \<ge> n. caller_ended j (r m) \<or> staged j (r m) \<and> fst (caller_rank j (r m)) < fst (caller_rank j (r n))"
proof (rule ccontr)
  assume no: "\<not> ?thesis"
  then have kept: "staged j (r m)" "caller_rank j (r m) = caller_rank j (r n)" if "n \<le> m" for m
    using rank_kept [OF fair st that] by blast+
  have ok: "queue_ok z (r m)" for m by (rule reachable_queue_ok [OF fair_reachable [OF fair]])
  have never: "\<not> falls j (r m) (r (Suc m))" if "n \<le> m" for m
    using no kept(2) [OF that] that unfolding falls_def by (metis le_SucI)
  have polled: "P m \<Longrightarrow> n \<le> m \<Longrightarrow> False" if "\<And>q. staged j q \<Longrightarrow> queue_ok z q \<Longrightarrow> snd (caller_rank j q) = snd (caller_rank j (r n)) \<Longrightarrow> falls j q (f q)"
    "P = (\<lambda>m. r (Suc m) = f (r m))" for P f m
    using that(1) [of "r m"] that(2) kept [of m] ok [of m] never [of m] by auto
  show False
  proof (cases "snd (caller_rank j (r n))")
    case (ByCaller k)
    obtain m where "n \<le> m" "r (Suc m) = caller_poll z k (r m)" using fair_polls(2) [OF fair] by blast
    then show False using polled [of "caller_poll z k" _ m] caller_helps [of j _ z k] ByCaller by auto
  next
    case ByWorker
    obtain m where "n \<le> m" "r (Suc m) = worker_poll (r m)" using fair_polls(1) [OF fair] by blast
    then show False using polled [of worker_poll _ m] worker_helps [of j _ z] ByWorker by auto
  next
    case (ByThread k)
    obtain m where "n \<le> m" "r (Suc m) = job_poll k (r m)" using fair_polls(3) [OF fair] by blast
    then show False using polled [of "job_poll k" _ m] thread_helps [of j _ z k] ByThread by auto
  next
    case (ByWork k)
    obtain m where m: "n \<le> m" "tj_run (tq_job (r m) k) \<noteq> JobInside" using fair_polls(4) [OF fair] by blast
    have h: "snd (caller_rank j (r m)) = ByWork k" using kept(2) [OF m(1)] ByWork by simp
    from kept(1) [OF m(1)] ok [of m] show False
    proof (cases rule: rank_cases)
      case own
      then show False using h m(2) by auto
    qed (use h m(2) worker_left_helper(3) [of "r m" k] in auto)
  qed
qed

text \<open>The first poll of a caller brings it into the line.\<close>

lemma first_poll:
  assumes "tj_caller (tq_job q j) = CallerSends"
  shows "caller_ended j (caller_poll z j q) \<or> staged j (caller_poll z j q)"
proof (cases "tq_cancelled q \<or> \<not> tq_open q")
  case True
  then have "caller_poll z j q = caller_refused j q" using assms by (auto simp: caller_poll_def caller_sends_def)
  then show ?thesis by (simp add: caller_refused_def caller_answers_def caller_ended_def)
qed (use assms in \<open>simp add: caller_poll_def caller_sends_def staged_def\<close>)

text \<open>A caller that has come stays, is answered or leaves.\<close>

lemma present_stays:
  assumes "transfer_step z q q'" and "caller_present (tj_caller (tq_job q j))"
  shows "caller_present (tj_caller (tq_job q' j)) \<or> caller_ended j q'"
  using assms(1)
proof (cases rule: transfer_step.cases)
  case (Arrives k b)
  then show ?thesis using assms(2) by (cases "k = j") (auto simp: caller_arrives_def)
next
  case (Waits k)
  have "tj_caller (tq_job (worker_waits k q) j) = tj_caller (tq_job q j)"
    by (simp add: worker_waits_def select_ends_def drain_queue_def)
  then show ?thesis using assms(2) unfolding Waits(1) by simp
next
  case Receives
  then show ?thesis using assms(2) by (simp add: worker_receives_def drain_queue_def split: list.split)
next
  case (Sends k)
  then show ?thesis using assms(2)
    by (cases "k = j") (auto simp: caller_sends_def caller_refused_def caller_answers_def no_longer_waits_def caller_ended_def)
next
  case (Polls k)
  then show ?thesis using assms(2)
    by (cases "k = j") (auto simp: caller_polls_def caller_answers_def caller_ended_def split: reply.split)
next
  case (Leaves k)
  then show ?thesis using assms(2)
    by (cases "k = j") (auto simp: caller_leaves_def no_longer_waits_def caller_ended_def Let_def)
qed (use assms(2) in \<open>auto simp: job_starts_def job_stops_def job_returns_def cancel_queue_def drop_queue_def\<close>)

lemma present_until:
  assumes fair: "fair_run z r" and "caller_present (tj_caller (tq_job (r n) j))" and "n \<le> m"
  shows "caller_present (tj_caller (tq_job (r m) j)) \<or> (\<exists>k \<ge> n. caller_ended j (r k))"
  using \<open>n \<le> m\<close>
proof (induction m rule: dec_induct)
  case (step m)
  have "r (Suc m) = r m \<or> transfer_step z (r m) (r (Suc m))" using fair by (simp add: fair_run_def)
  then show ?case using step present_stays by (metis le_SucI)
qed (use assms(2) in simp)

text \<open>
  C20. No caller is forgotten: in every fair run, a caller that has come, whether it waits for
  capacity or for its reply, is answered, unless it leaves.
\<close>

theorem transfer_caller_answered:
  assumes fair: "fair_run z r" and come: "caller_present (tj_caller (tq_job (r n) j))"
  shows "\<exists>m \<ge> n. tj_caller (tq_job (r m) j) = CallerGone \<or> (\<exists>x. tj_caller (tq_job (r m) j) = CallerAnswered x)"
proof -
  obtain m where m: "n \<le> m" "r (Suc m) = caller_poll z j (r m)" using fair_polls(2) [OF fair] by blast
  from present_until [OF fair come m(1)] have "\<exists>k \<ge> n. caller_ended j (r k) \<or> staged j (r k)"
  proof
    assume "caller_present (tj_caller (tq_job (r m) j))"
    then consider "tj_caller (tq_job (r m) j) = CallerSends" | "tj_caller (tq_job (r m) j) = CallerAwaits"
      by (cases "tj_caller (tq_job (r m) j)") auto
    then show ?thesis
    proof cases
      case 1
      from first_poll [OF this, of z] m show ?thesis by (metis le_SucI)
    next
      case 2
      then show ?thesis using m(1) by (auto simp: staged_def)
    qed
  qed blast
  then obtain k where k: "n \<le> k" "caller_ended j (r k) \<or> staged j (r k)" by blast
  have "\<exists>i \<ge> k. caller_ended j (r i)"
  proof (cases "caller_ended j (r k)")
    case False
    then have "staged j (r k)" using k(2) by blast
    from rank_ends [where stage = "staged j" and goal = "caller_ended j" and rank = "\<lambda>q. fst (caller_rank j q)",
        OF rank_falls [OF fair] this] show ?thesis .
  qed blast
  then show ?thesis using k(1) unfolding caller_ended_def by (meson le_trans)
qed

subsection \<open>A run\<close>

definition job_state :: "worker_pc \<Rightarrow> nat list \<Rightarrow> nat caller_pc \<Rightarrow> nat reply \<Rightarrow> job_pc
    \<Rightarrow> nat list \<Rightarrow> nat list \<Rightarrow> (nat \<times> (daemon_fault + nat)) list \<Rightarrow> nat transfer_queue" where
  "job_state w js c x p sent began gave = \<lparr>tq_cancelled = False, tq_owned = True, tq_open = True, tq_waiting = [],
     tq_queue = js, tq_worker = w,
     tq_job = (\<lambda>_. no_job)(0 := \<lparr>tj_blocking = False, tj_caller = c, tj_reply = x, tj_run = p\<rparr>),
     tq_sent = sent, tq_started = began, tq_returned = gave\<rparr>"

definition sample_run :: "nat \<Rightarrow> nat transfer_queue" where
  "sample_run n = [start_queue,
     job_state WorkerReceives [] CallerSends ReplyOpen JobNew [] [] [],
     job_state WorkerReceives [0] CallerAwaits ReplyOpen JobQueued [0] [] [],
     job_state (WorkerRuns 0) [] CallerAwaits ReplyOpen JobTaken [0] [] [],
     job_state (WorkerRuns 0) [] CallerAwaits ReplyOpen JobInside [0] [0] [],
     job_state (WorkerRuns 0) [] CallerAwaits (ReplySent (Inr 7)) JobOver [0] [0] [(0, Inr 7)],
     job_state (WorkerRuns 0) [] (CallerAnswered (Inr 7)) (ReplySent (Inr 7)) JobOver [0] [0] [(0, Inr 7)],
     job_state WorkerReceives [] (CallerAnswered (Inr 7)) (ReplySent (Inr 7)) JobOver [0] [0] [(0, Inr 7)]] ! min n 7"

lemmas run_ops = job_state_def transfer_ops start_queue_def no_job_def queue_stopped_def
  TRANSFER_QUEUE_BOUND_def ahead_def abandoned_def job_must_stop_def select_ends_def lives_in_worker_def set_job_def

lemma sample_steps:
  "transfer_step [] start_queue (job_state WorkerReceives [] CallerSends ReplyOpen JobNew [] [] [])"
  "transfer_step [] (job_state WorkerReceives [] CallerSends ReplyOpen JobNew [] [] [])
     (job_state WorkerReceives [0] CallerAwaits ReplyOpen JobQueued [0] [] [])"
  "transfer_step [] (job_state WorkerReceives [0] CallerAwaits ReplyOpen JobQueued [0] [] [])
     (job_state (WorkerRuns 0) [] CallerAwaits ReplyOpen JobTaken [0] [] [])"
  "transfer_step [] (job_state (WorkerRuns 0) [] CallerAwaits ReplyOpen JobTaken [0] [] [])
     (job_state (WorkerRuns 0) [] CallerAwaits ReplyOpen JobInside [0] [0] [])"
  "transfer_step [] (job_state (WorkerRuns 0) [] CallerAwaits ReplyOpen JobInside [0] [0] [])
     (job_state (WorkerRuns 0) [] CallerAwaits (ReplySent (Inr 7)) JobOver [0] [0] [(0, Inr 7)])"
  "transfer_step [] (job_state (WorkerRuns 0) [] CallerAwaits (ReplySent (Inr 7)) JobOver [0] [0] [(0, Inr 7)])
     (job_state (WorkerRuns 0) [] (CallerAnswered (Inr 7)) (ReplySent (Inr 7)) JobOver [0] [0] [(0, Inr 7)])"
  "transfer_step [] (job_state (WorkerRuns 0) [] (CallerAnswered (Inr 7)) (ReplySent (Inr 7)) JobOver [0] [0] [(0, Inr 7)])
     (job_state WorkerReceives [] (CallerAnswered (Inr 7)) (ReplySent (Inr 7)) JobOver [0] [0] [(0, Inr 7)])"
  using transfer_step.Arrives [of start_queue 0 "[]" False]
    transfer_step.Sends [of "job_state WorkerReceives [] CallerSends ReplyOpen JobNew [] [] []" 0 "[]"]
    transfer_step.Receives [of "job_state WorkerReceives [0] CallerAwaits ReplyOpen JobQueued [0] [] []" "[]"]
    transfer_step.Starts [of "job_state (WorkerRuns 0) [] CallerAwaits ReplyOpen JobTaken [0] [] []" 0 "[]"]
    transfer_step.Returns [of "job_state (WorkerRuns 0) [] CallerAwaits ReplyOpen JobInside [0] [0] []" 0 "[]" "Inr 7"]
    transfer_step.Polls [of "job_state (WorkerRuns 0) [] CallerAwaits (ReplySent (Inr 7)) JobOver [0] [0] [(0, Inr 7)]" 0 "[]"]
    transfer_step.Waits [of "job_state (WorkerRuns 0) [] (CallerAnswered (Inr 7)) (ReplySent (Inr 7)) JobOver [0] [0] [(0, Inr 7)]" 0 "[]"]
  by (simp_all add: run_ops)

lemma sample_step: "n < 7 \<Longrightarrow> transfer_step [] (sample_run n) (sample_run (Suc n))"
proof -
  assume "n < 7"
  then consider "n = 0" | "n = 1" | "n = 2" | "n = 3" | "n = 4" | "n = 5" | "n = 6" by linarith
  then show ?thesis using sample_steps by cases (simp_all add: sample_run_def)
qed

lemma sample_rest: "7 \<le> n \<Longrightarrow> sample_run n
    = job_state WorkerReceives [] (CallerAnswered (Inr 7)) (ReplySent (Inr 7)) JobOver [0] [0] [(0, Inr 7)]"
  by (simp add: sample_run_def min_def)

lemma sample_fair: "fair_run [] sample_run"
proof -
  let ?q = "job_state WorkerReceives [] (CallerAnswered (Inr 7)) (ReplySent (Inr 7)) JobOver [0] [0] [(0, Inr 7)]"
  have "worker_poll ?q = ?q" by (simp add: worker_poll_def run_ops)
  moreover have "caller_poll [] k ?q = ?q" "job_poll k ?q = ?q" "tj_run (tq_job ?q k) \<noteq> JobInside" for k
    by (simp_all add: caller_poll_def job_poll_def job_state_def no_job_def)
  moreover have "again P" if "\<And>n. 7 \<le> n \<Longrightarrow> P n" for P
    unfolding again_def
  proof
    fix n
    show "\<exists>m \<ge> n. P m" by (rule exI [of _ "n + 7"]) (simp add: that)
  qed
  moreover have "sample_run (Suc n) = sample_run n \<or> transfer_step [] (sample_run n) (sample_run (Suc n))" for n
    using sample_step [of n] sample_rest [of n] sample_rest [of "Suc n"] by (cases "n < 7") simp_all
  moreover have "transfer_reachable [] (sample_run 0)"
    by (simp add: sample_run_def transfer_reachable.Start)
  ultimately show ?thesis unfolding fair_run_def by (simp add: sample_rest)
qed

lemma transfer_caller_answered_witness:
  "\<exists>m \<ge> 1. tj_caller (tq_job (sample_run m) 0) = CallerGone \<or> (\<exists>x. tj_caller (tq_job (sample_run m) 0) = CallerAnswered x)"
  by (rule transfer_caller_answered [OF sample_fair]) (simp add: sample_run_def job_state_def)

end
