(* ===== verification/Agent_Input.thy ===== *)
theory Agent_Input
  imports Raw_Input
begin

text \<open>
  The input of an agent: its vocabulary (\<open>rdpilot-vocab/src/input.rs\<close>: buttons, keys with
  their scancodes and names, mouse and key actions) and its translation into operations of
  the input library (\<open>rdpilot/src/input.rs\<close>). An operation is the library's type with the
  constructors that the source builds; a scancode is the pair that it is made from.
\<close>

subsection \<open>Vocabulary\<close>

datatype button = BLeft | BRight | BMiddle

definition button_cli_values :: "(button \<times> ustr \<times> ustr) list" where
  "button_cli_values =
     [(BLeft, lit ''left'', lit ''The left (primary) mouse button''),
      (BRight, lit ''right'', lit ''The right (secondary/context-menu) mouse button''),
      (BMiddle, lit ''middle'', lit ''The middle (wheel) mouse button'')]"

definition button_from_cli_name :: "ustr \<Rightarrow> button option" where
  "button_from_cli_name name = map_option fst (find (\<lambda>(_, n, _). n = name) button_cli_values)"

datatype (plugins only: code size) key =
    KCtrl | KAlt | KShift | KA | KB | KC | KD | KE | KF | KG | KH | KI | KJ | KK | KL | KM | KN
    | KO | KP | KQ | KR | KS | KT | KU | KV | KW | KX | KY | KZ | KDigit0 | KDigit1 | KDigit2
    | KDigit3 | KDigit4 | KDigit5 | KDigit6 | KDigit7 | KDigit8 | KDigit9 | KF1 | KF2 | KF3
    | KF4 | KF5 | KF6 | KF7 | KF8 | KF9 | KF10 | KF11 | KF12 | KEnter | KEsc | KTab | KSpace
    | KBackspace | KDelete | KUp | KDown | KLeft | KRight | KHome | KEnd | KPageUp | KPageDown
    | KInsert | KWin

fun set1_scancode :: "key \<Rightarrow> bool \<times> u8" where
  "set1_scancode KCtrl = (False, 0x1D)"
| "set1_scancode KAlt = (False, 0x38)"
| "set1_scancode KShift = (False, 0x2A)"
| "set1_scancode KA = (False, 0x1E)"
| "set1_scancode KB = (False, 0x30)"
| "set1_scancode KC = (False, 0x2E)"
| "set1_scancode KD = (False, 0x20)"
| "set1_scancode KE = (False, 0x12)"
| "set1_scancode KF = (False, 0x21)"
| "set1_scancode KG = (False, 0x22)"
| "set1_scancode KH = (False, 0x23)"
| "set1_scancode KI = (False, 0x17)"
| "set1_scancode KJ = (False, 0x24)"
| "set1_scancode KK = (False, 0x25)"
| "set1_scancode KL = (False, 0x26)"
| "set1_scancode KM = (False, 0x32)"
| "set1_scancode KN = (False, 0x31)"
| "set1_scancode KO = (False, 0x18)"
| "set1_scancode KP = (False, 0x19)"
| "set1_scancode KQ = (False, 0x10)"
| "set1_scancode KR = (False, 0x13)"
| "set1_scancode KS = (False, 0x1F)"
| "set1_scancode KT = (False, 0x14)"
| "set1_scancode KU = (False, 0x16)"
| "set1_scancode KV = (False, 0x2F)"
| "set1_scancode KW = (False, 0x11)"
| "set1_scancode KX = (False, 0x2D)"
| "set1_scancode KY = (False, 0x15)"
| "set1_scancode KZ = (False, 0x2C)"
| "set1_scancode KDigit0 = (False, 0x0B)"
| "set1_scancode KDigit1 = (False, 0x02)"
| "set1_scancode KDigit2 = (False, 0x03)"
| "set1_scancode KDigit3 = (False, 0x04)"
| "set1_scancode KDigit4 = (False, 0x05)"
| "set1_scancode KDigit5 = (False, 0x06)"
| "set1_scancode KDigit6 = (False, 0x07)"
| "set1_scancode KDigit7 = (False, 0x08)"
| "set1_scancode KDigit8 = (False, 0x09)"
| "set1_scancode KDigit9 = (False, 0x0A)"
| "set1_scancode KF1 = (False, 0x3B)"
| "set1_scancode KF2 = (False, 0x3C)"
| "set1_scancode KF3 = (False, 0x3D)"
| "set1_scancode KF4 = (False, 0x3E)"
| "set1_scancode KF5 = (False, 0x3F)"
| "set1_scancode KF6 = (False, 0x40)"
| "set1_scancode KF7 = (False, 0x41)"
| "set1_scancode KF8 = (False, 0x42)"
| "set1_scancode KF9 = (False, 0x43)"
| "set1_scancode KF10 = (False, 0x44)"
| "set1_scancode KF11 = (False, 0x57)"
| "set1_scancode KF12 = (False, 0x58)"
| "set1_scancode KEnter = (False, 0x1C)"
| "set1_scancode KEsc = (False, 0x01)"
| "set1_scancode KTab = (False, 0x0F)"
| "set1_scancode KSpace = (False, 0x39)"
| "set1_scancode KBackspace = (False, 0x0E)"
| "set1_scancode KDelete = (True, 0x53)"
| "set1_scancode KUp = (True, 0x48)"
| "set1_scancode KDown = (True, 0x50)"
| "set1_scancode KLeft = (True, 0x4B)"
| "set1_scancode KRight = (True, 0x4D)"
| "set1_scancode KHome = (True, 0x47)"
| "set1_scancode KEnd = (True, 0x4F)"
| "set1_scancode KPageUp = (True, 0x49)"
| "set1_scancode KPageDown = (True, 0x51)"
| "set1_scancode KInsert = (True, 0x52)"
| "set1_scancode KWin = (True, 0x5B)"

datatype mouse_action =
    Move u16 u16
  | Click u16 u16 button
  | DoubleClick u16 u16 button
  | Scroll u16 u16 "16 word" \<comment> \<open>signed\<close>
  | Drag u16 u16 u16 u16 button

fun coordinates :: "mouse_action \<Rightarrow> (u16 \<times> u16) list" where
  "coordinates (Move x y) = [(x, y)]"
| "coordinates (Click x y _) = [(x, y)]"
| "coordinates (DoubleClick x y _) = [(x, y)]"
| "coordinates (Scroll x y _) = [(x, y)]"
| "coordinates (Drag fx fy tx ty _) = [(fx, fy), (tx, ty)]"

datatype key_action = TypeText ustr | Combo "key list"

text \<open>
  The names of keys. \<open>lower\<close> is \<open>str::to_lowercase\<close>, which follows Unicode.
\<close>

definition key_table :: "(string \<times> key) list" where
  "key_table = [(''ctrl'', KCtrl), (''alt'', KAlt), (''shift'', KShift), 
     (''a'', KA), (''b'', KB), (''c'', KC), (''d'', KD), (''e'', KE), 
     (''f'', KF), (''g'', KG), (''h'', KH), (''i'', KI), (''j'', KJ), 
     (''k'', KK), (''l'', KL), (''m'', KM), (''n'', KN), (''o'', KO), 
     (''p'', KP), (''q'', KQ), (''r'', KR), (''s'', KS), (''t'', KT), 
     (''u'', KU), (''v'', KV), (''w'', KW), (''x'', KX), (''y'', KY), 
     (''z'', KZ), (''digit0'', KDigit0), (''0'', KDigit0), (''digit1'', KDigit1), 
     (''1'', KDigit1), (''digit2'', KDigit2), (''2'', KDigit2), 
     (''digit3'', KDigit3), (''3'', KDigit3), (''digit4'', KDigit4), 
     (''4'', KDigit4), (''digit5'', KDigit5), (''5'', KDigit5), 
     (''digit6'', KDigit6), (''6'', KDigit6), (''digit7'', KDigit7), 
     (''7'', KDigit7), (''digit8'', KDigit8), (''8'', KDigit8), 
     (''digit9'', KDigit9), (''9'', KDigit9), (''f1'', KF1), (''f2'', KF2), 
     (''f3'', KF3), (''f4'', KF4), (''f5'', KF5), (''f6'', KF6), 
     (''f7'', KF7), (''f8'', KF8), (''f9'', KF9), (''f10'', KF10), 
     (''f11'', KF11), (''f12'', KF12), (''enter'', KEnter), (''esc'', KEsc), 
     (''escape'', KEsc), (''tab'', KTab), (''space'', KSpace), 
     (''backspace'', KBackspace), (''delete'', KDelete), (''del'', KDelete), 
     (''up'', KUp), (''down'', KDown), (''left'', KLeft), (''right'', KRight), 
     (''home'', KHome), (''end'', KEnd), (''pageup'', KPageUp), 
     (''page-up'', KPageUp), (''pagedown'', KPageDown), (''page-down'', KPageDown), 
     (''insert'', KInsert), (''ins'', KInsert), (''win'', KWin), 
     (''windows'', KWin), (''super'', KWin)]"

definition key_names :: "(ustr \<times> key) list" where
  "key_names = map (apfst lit) key_table"

definition parse_key_name :: "(ustr \<Rightarrow> ustr) \<Rightarrow> ustr \<Rightarrow> ustr + key" where
  "parse_key_name lower name =
     (let trimmed = trim_start (trim_end name); low = lower trimmed
      in case map_of key_names low of
           Some k \<Rightarrow> Inr k
         | None \<Rightarrow> Inl (lit ''unknown key name '' @ [39] @ low @ [39] @ lit '' (original token: ''
             @ [39] @ trimmed @ [39] @ lit '')''))"

subsection \<open>Operations\<close>

datatype lib_button = MLeft | MMiddle | MRight | MX1 | MX2

datatype operation =
    MouseMove u16 u16
  | MouseButtonPressed lib_button
  | MouseButtonReleased lib_button
  | WheelRotations bool int
  | KeyPressed bool u8
  | KeyReleased bool u8
  | UnicodeKeyPressed uchar
  | UnicodeKeyReleased uchar

fun is_modifier :: "key \<Rightarrow> bool" where
  "is_modifier KCtrl = True"
| "is_modifier KAlt = True"
| "is_modifier KShift = True"
| "is_modifier _ = False"

fun mouse_button :: "button \<Rightarrow> lib_button" where
  "mouse_button BLeft = MLeft"
| "mouse_button BRight = MRight"
| "mouse_button BMiddle = MMiddle"

definition MAX_WHEEL_MAGNITUDE_PER_OPERATION :: nat where "MAX_WHEEL_MAGNITUDE_PER_OPERATION = 240"

function wheel_loop :: "int \<Rightarrow> nat \<Rightarrow> int list" where
  "wheel_loop sign remaining =
     (if remaining = 0 then []
      else let chunk = min remaining MAX_WHEEL_MAGNITUDE_PER_OPERATION
           in sign * int chunk # wheel_loop sign (remaining - chunk))"
  by auto
termination
  by (relation "measure snd") (simp_all add: MAX_WHEEL_MAGNITUDE_PER_OPERATION_def)

declare wheel_loop.simps [simp del]

text \<open>The rotations of \<open>wheel_rotation_operations\<close>; \<open>unsigned_abs\<close> of the least \<open>i16\<close> is 32768.\<close>

definition wheel_rotations :: "16 word \<Rightarrow> int list" where
  "wheel_rotations dy =
     (let sign = (if sint dy < 0 then - 1 else 1); ops = wheel_loop sign (nat \<bar>sint dy\<bar>)
      in if ops = [] then [0] else ops)"

definition wheel_rotation_operations :: "16 word \<Rightarrow> operation list" where
  "wheel_rotation_operations dy = map (WheelRotations True) (wheel_rotations dy)"

definition click_batch :: "u16 \<Rightarrow> u16 \<Rightarrow> button \<Rightarrow> operation list" where
  "click_batch x y b =
     [MouseMove x y, MouseButtonPressed (mouse_button b), MouseButtonReleased (mouse_button b)]"

definition DRAG_INTERPOLATION_STEPS :: nat where "DRAG_INTERPOLATION_STEPS = 5"

text \<open>Division of \<open>i32\<close> rounds towards zero. The products stay far below \<open>2 ^ 31\<close>.\<close>

definition quot :: "int \<Rightarrow> int \<Rightarrow> int" where
  "quot a b = sgn a * (\<bar>a\<bar> div b)"

definition lerp :: "nat \<Rightarrow> nat \<Rightarrow> u16 \<Rightarrow> u16 \<Rightarrow> u16" where
  "lerp step parts src to =
     (let value = uint src + quot ((uint to - uint src) * int step) (int parts)
      in if 0 \<le> value \<and> value < 65536 then of_int value else if value < 0 then 0 else - 1)"

definition interpolate :: "u16 \<Rightarrow> u16 \<Rightarrow> u16 \<Rightarrow> u16 \<Rightarrow> nat \<Rightarrow> nat \<Rightarrow> u16 \<times> u16" where
  "interpolate fx fy tx ty step parts = (lerp step parts fx tx, lerp step parts fy ty)"

definition drag_batches :: "u16 \<Rightarrow> u16 \<Rightarrow> u16 \<Rightarrow> u16 \<Rightarrow> button \<Rightarrow> operation list list" where
  "drag_batches fx fy tx ty b =
     [[MouseMove fx fy, MouseButtonPressed (mouse_button b)]]
     @ map (\<lambda>step. case interpolate fx fy tx ty step DRAG_INTERPOLATION_STEPS of (x, y) \<Rightarrow> [MouseMove x y])
         [1..<DRAG_INTERPOLATION_STEPS + 1]
     @ [[MouseButtonReleased (mouse_button b)]]"

fun mouse_operations :: "mouse_action \<Rightarrow> operation list list" where
  "mouse_operations (Move x y) = [[MouseMove x y]]"
| "mouse_operations (Click x y b) = [click_batch x y b]"
| "mouse_operations (DoubleClick x y b) = [click_batch x y b, click_batch x y b]"
| "mouse_operations (Scroll x y dy) = [MouseMove x y # wheel_rotation_operations dy]"
| "mouse_operations (Drag fx fy tx ty b) = drag_batches fx fy tx ty b"

definition key_pressed :: "key \<Rightarrow> operation" where
  "key_pressed k = (case set1_scancode k of (e, c) \<Rightarrow> KeyPressed e c)"

definition key_released :: "key \<Rightarrow> operation" where
  "key_released k = (case set1_scancode k of (e, c) \<Rightarrow> KeyReleased e c)"

definition combo_operations :: "key list \<Rightarrow> operation list" where
  "combo_operations keys =
     (let modifiers = filter is_modifier keys; others = filter (\<lambda>k. \<not> is_modifier k) keys
      in map key_pressed modifiers @ map key_pressed others
         @ map key_released (rev others) @ map key_released (rev modifiers))"

fun key_operations :: "key_action \<Rightarrow> operation list" where
  "key_operations (TypeText t) = concat (map (\<lambda>c. [UnicodeKeyPressed c, UnicodeKeyReleased c]) t)"
| "key_operations (Combo keys) = combo_operations keys"

fun pointer_mouse_button :: "pointer_button \<Rightarrow> lib_button" where
  "pointer_mouse_button Left = MLeft"
| "pointer_mouse_button Middle = MMiddle"
| "pointer_mouse_button Right = MRight"
| "pointer_mouse_button X1 = MX1"
| "pointer_mouse_button X2 = MX2"

fun raw_event_operations :: "raw_input \<Rightarrow> operation list" where
  "raw_event_operations (PointerMove x y) = [MouseMove x y]"
| "raw_event_operations (ButtonEvent b down) =
     [if down then MouseButtonPressed (pointer_mouse_button b) else MouseButtonReleased (pointer_mouse_button b)]"
| "raw_event_operations (WheelEvent vertical units) = map (WheelRotations vertical) (wheel_rotations units)"
| "raw_event_operations (KeyEvent c e down) = [if down then KeyPressed e c else KeyReleased e c]"

definition raw_operations :: "raw_input list \<Rightarrow> operation list" where
  "raw_operations events = concat (map raw_event_operations events)"

subsection \<open>Keys\<close>

definition all_keys :: "key list" where
  "all_keys = [KCtrl, KAlt, KShift, KA, KB, KC, KD, KE, KF, KG, KH, KI, KJ, KK, KL, KM, KN, KO, 
     KP, KQ, KR, KS, KT, KU, KV, KW, KX, KY, KZ, KDigit0, KDigit1, KDigit2, KDigit3, KDigit4, 
     KDigit5, KDigit6, KDigit7, KDigit8, KDigit9, KF1, KF2, KF3, KF4, KF5, KF6, KF7, KF8, KF9, 
     KF10, KF11, KF12, KEnter, KEsc, KTab, KSpace, KBackspace, KDelete, KUp, KDown, KLeft, 
     KRight, KHome, KEnd, KPageUp, KPageDown, KInsert, KWin]"

lemma all_keys: "k \<in> set all_keys"
  by (cases k) (simp_all add: all_keys_def)

lemma distinct_scancodes: "distinct (map set1_scancode all_keys)"
  by (simp add: all_keys_def)

lemma scancode_inj: "set1_scancode a = set1_scancode b \<longleftrightarrow> a = b"
  using distinct_scancodes all_keys by (auto simp: distinct_map dest: inj_onD)

lemma distinct_key_table: "distinct (map fst key_table)"
  by (simp add: key_table_def)

lemma distinct_key_names: "distinct (map fst key_names)"
proof -
  have "inj lit" unfolding lit_def by (rule inj_mapI) (simp add: inj_def)
  with distinct_key_table have "distinct (map lit (map fst key_table))"
    by (simp only: distinct_map inj_on_subset [OF _ subset_UNIV])
  then show ?thesis by (simp add: key_names_def comp_def)
qed

lemma every_key_named: "k \<in> snd ` set key_names"
proof -
  have "remdups_adj (map snd key_table) = all_keys" by (simp add: key_table_def all_keys_def)
  then have "k \<in> set (map snd key_table)" using all_keys [of k] by (metis remdups_adj_set)
  then have "k \<in> snd ` set key_table" by simp
  then show ?thesis by (auto simp: key_names_def image_image)
qed

text \<open>
The key names are unambiguous and complete: every key has a name, each name is read as
  its key whatever its case and the blanks around it, and anything else is refused.
\<close>

theorem key_names_complete:
  "(\<exists>n. (n, k) \<in> set key_names)
   \<and> (parse_key_name lower s = Inr k \<longleftrightarrow> (lower (trim_start (trim_end s)), k) \<in> set key_names)
   \<and> ((\<exists>m. parse_key_name lower s = Inl m) \<longleftrightarrow> lower (trim_start (trim_end s)) \<notin> fst ` set key_names)"
proof -
  let ?n = "lower (trim_start (trim_end s))"
  have "map_of key_names ?n = Some k \<longleftrightarrow> (?n, k) \<in> set key_names"
    using distinct_key_names by simp
  moreover have "map_of key_names ?n = None \<longleftrightarrow> ?n \<notin> fst ` set key_names"
    by (rule map_of_eq_None_iff)
  moreover have "parse_key_name lower s = Inr k \<longleftrightarrow> map_of key_names ?n = Some k"
    "(\<exists>m. parse_key_name lower s = Inl m) \<longleftrightarrow> map_of key_names ?n = None"
    by (simp_all add: parse_key_name_def Let_def split: option.split)
  ultimately show ?thesis using every_key_named [of k] by auto
qed

subsection \<open>What the guest holds\<close>

datatype pressed = PressedButton lib_button | PressedKey bool u8 | PressedChar uchar

fun op_track :: "operation \<Rightarrow> pressed set \<Rightarrow> pressed set" where
  "op_track (MouseButtonPressed b) H = insert (PressedButton b) H"
| "op_track (MouseButtonReleased b) H = H - {PressedButton b}"
| "op_track (KeyPressed e c) H = insert (PressedKey e c) H"
| "op_track (KeyReleased e c) H = H - {PressedKey e c}"
| "op_track (UnicodeKeyPressed u) H = insert (PressedChar u) H"
| "op_track (UnicodeKeyReleased u) H = H - {PressedChar u}"
| "op_track _ H = H"

definition pressed_key :: "key \<Rightarrow> pressed" where
  "pressed_key k = (case set1_scancode k of (e, c) \<Rightarrow> PressedKey e c)"

lemma pressed_key_inj [simp]: "pressed_key a = pressed_key b \<longleftrightarrow> a = b"
  using scancode_inj [of a b] by (auto simp: pressed_key_def split: prod.splits)

lemma track_key [simp]:
  "op_track (key_pressed k) H = insert (pressed_key k) H"
  "op_track (key_released k) H = H - {pressed_key k}"
  by (simp_all add: key_pressed_def key_released_def pressed_key_def split: prod.splits)

lemma track_presses: "fold op_track (map key_pressed ks) H = pressed_key ` set ks \<union> H"
  by (induction ks arbitrary: H) auto

lemma track_releases: "fold op_track (map key_released ks) H = H - pressed_key ` set ks"
  by (induction ks arbitrary: H) auto

lemma combo_track: "fold op_track (combo_operations keys) H = H - pressed_key ` set keys"
  by (auto simp: combo_operations_def Let_def track_presses track_releases)

lemma typed_track: "fold op_track (key_operations (TypeText t)) H = H - PressedChar ` set t"
  by (induction t arbitrary: H) auto

text \<open>
  An action of the agent that is carried out leaves nothing pressed: each press of a button,
  a key or a character has its release in the same action, whatever keys a combination names
  and however often.
\<close>

theorem agent_input_balanced:
  "fold op_track (concat (mouse_operations a)) H \<subseteq> H \<and> fold op_track (key_operations k) H \<subseteq> H"
proof
  have moves: "fold op_track (map (\<lambda>step. MouseMove (f step) (g step)) steps) H' = H'" for f g and steps :: "nat list" and H'
    by (induction steps) auto
  have "fold op_track (map (WheelRotations True) rs) H' = H'" for rs H'
    by (induction rs) auto
  then show "fold op_track (concat (mouse_operations a)) H \<subseteq> H"
    using moves by (cases a) (auto simp: click_batch_def drag_batches_def interpolate_def wheel_rotation_operations_def)
  show "fold op_track (key_operations k) H \<subseteq> H"
  proof (cases k)
    case (TypeText t)
    then show ?thesis using typed_track [of t H] by auto
  next
    case (Combo keys)
    then show ?thesis using combo_track [of keys H] by auto
  qed
qed

text \<open>
In a combination the modifiers are held when a terminal key goes down and still when it
  goes up.
\<close>

theorem modifiers_stay_held:
  assumes "combo_operations keys = before @ op # after" and "op = key_pressed k \<or> op = key_released k"
    and "\<not> is_modifier k" and "m \<in> set keys" "is_modifier m"
  shows "pressed_key m \<in> fold op_track before {}"
proof -
  let ?mods = "map key_pressed (filter is_modifier keys)" and ?others = "filter (\<lambda>k. \<not> is_modifier k) keys"
  let ?mid = "map key_pressed ?others @ map key_released (rev ?others)"
    and ?releases = "map key_released (rev (filter is_modifier keys))"
  have ops: "combo_operations keys = ?mods @ ?mid @ ?releases" by (simp add: combo_operations_def Let_def)
  have kinds: "key_pressed a \<noteq> key_released b" "key_pressed a = key_pressed b \<longleftrightarrow> a = b"
    "key_released a = key_released b \<longleftrightarrow> a = b" for a b
    using scancode_inj [of a b] by (auto simp: key_pressed_def key_released_def split: prod.splits)
  have not_in: "op \<notin> set ?mods" "op \<notin> set ?releases" using assms(2,3) kinds by (auto simp: kinds(1) [symmetric])
  from assms(1) ops have split: "?mods @ ?mid @ ?releases = before @ op # after" by simp
  have "length ?mods \<le> length before"
  proof (rule ccontr)
    assume "\<not> ?thesis"
    then have "op = ?mods ! length before" using split by (metis not_le nth_append nth_append_length)
    with not_in(1) \<open>\<not> length ?mods \<le> length before\<close> show False by (metis not_le nth_mem)
  qed
  then obtain mid where before: "before = ?mods @ mid"
    using split by (metis append_eq_append_conv_if append_take_drop_id)
  with split have rest: "?mid @ ?releases = mid @ op # after" by simp
  have "length mid < length ?mid"
  proof (rule ccontr)
    assume "\<not> ?thesis"
    then have "op = ?releases ! (length mid - length ?mid)" using rest by (metis nth_append nth_append_length)
    moreover have "length mid - length ?mid < length ?releases"
      using arg_cong [OF rest, of length] \<open>\<not> length mid < length ?mid\<close> by simp
    ultimately have "op \<in> set ?releases" using nth_mem by metis
    with not_in(2) show False ..
  qed
  then have "set mid \<subseteq> set ?mid"
    using rest by (metis append_eq_append_conv_if less_imp_le_nat set_take_subset take_all_iff append_take_drop_id append_eq_conv_conj)
  moreover have "op_track x H - {pressed_key j |j. \<not> is_modifier j} = H - {pressed_key j |j. \<not> is_modifier j}"
    if "x \<in> set ?mid" for x H using that by auto
  ultimately have "fold op_track mid H - {pressed_key j |j. \<not> is_modifier j} = H - {pressed_key j |j. \<not> is_modifier j}" for H
    by (induction mid arbitrary: H) auto
  moreover have "pressed_key m \<in> fold op_track ?mods {} - {pressed_key j |j. \<not> is_modifier j}"
    using assms(4,5) by (auto simp: track_presses)
  ultimately have "pressed_key m \<in> fold op_track mid (fold op_track ?mods {})" by blast
  with before show ?thesis by simp
qed

lemma modifiers_stay_held_witness:
  "pressed_key KCtrl \<in> fold op_track [key_pressed KCtrl, key_pressed KAlt] {}"
  by (rule modifiers_stay_held [of "[KDelete, KCtrl, KAlt]" _ "key_pressed KDelete" _ KDelete])
    (simp_all add: combo_operations_def Let_def)

subsection \<open>The wheel\<close>

lemma wheel_loop_sum: "sum_list (wheel_loop s n) = s * int n"
proof (induction s n rule: wheel_loop.induct)
  case (1 s n)
  then show ?case
    by (subst wheel_loop.simps) (simp add: Let_def MAX_WHEEL_MAGNITUDE_PER_OPERATION_def min_def
        of_nat_diff right_diff_distrib)
qed

lemma wheel_loop_bound:
  "s = 1 \<or> s = - 1 \<Longrightarrow> list_all (\<lambda>r. 0 < \<bar>r\<bar> \<and> \<bar>r\<bar> \<le> 240) (wheel_loop s n)"
proof (induction s n rule: wheel_loop.induct)
  case (1 s n)
  then show ?case
    by (subst wheel_loop.simps) (auto simp: Let_def MAX_WHEEL_MAGNITUDE_PER_OPERATION_def)
qed

text \<open>
A scroll reaches the guest as rotations that add up to it exactly, each within what one
  wheel message can carry, and there is at least one.
\<close>

theorem wheel_split_exact:
  "sum_list (wheel_rotations dy) = sint dy \<and> list_all (\<lambda>r. \<bar>r\<bar> \<le> 240) (wheel_rotations dy)
   \<and> wheel_rotations dy \<noteq> []"
proof -
  let ?s = "if sint dy < 0 then - 1 else 1 :: int"
  have "sum_list (wheel_loop ?s (nat \<bar>sint dy\<bar>)) = sint dy" by (simp add: wheel_loop_sum)
  moreover have "list_all (\<lambda>r. 0 < \<bar>r\<bar> \<and> \<bar>r\<bar> \<le> 240) (wheel_loop ?s (nat \<bar>sint dy\<bar>))"
    by (rule wheel_loop_bound) simp
  ultimately show ?thesis by (auto simp: wheel_rotations_def Let_def list_all_iff)
qed

subsection \<open>Drags\<close>

lemma quot_between:
  assumes "0 \<le> s" "s \<le> t" "0 < t"
  shows "min 0 d \<le> quot (d * s) t \<and> quot (d * s) t \<le> max 0 d"
proof -
  have "\<bar>d * s\<bar> div t \<le> \<bar>d\<bar>"
  proof -
    have "\<bar>d * s\<bar> \<le> \<bar>d\<bar> * t" using assms by (simp add: abs_mult mult_left_mono)
    then show ?thesis using assms(3) by (metis nonzero_mult_div_cancel_right less_irrefl zdiv_mono1)
  qed
  moreover have "0 \<le> \<bar>d * s\<bar> div t" using assms(3) by (simp add: pos_imp_zdiv_nonneg_iff)
  moreover have "sgn (d * s) = (if s = 0 then 0 else sgn d)"
    using assms(1) by (simp add: sgn_mult)
  ultimately show ?thesis
    by (cases "d = 0"; cases "d < 0") (auto simp: quot_def)
qed

lemma uint_lerp:
  assumes "step \<le> parts" "0 < parts"
  shows "min (uint a) (uint b) \<le> uint (lerp step parts a b) \<and> uint (lerp step parts a b) \<le> max (uint a) (uint b)"
proof -
  let ?v = "uint a + quot ((uint b - uint a) * int step) (int parts)"
  have v: "min (uint a) (uint b) \<le> ?v" "?v \<le> max (uint a) (uint b)"
    using quot_between [of "int step" "int parts" "uint b - uint a"] assms by (auto simp: min_def max_def split: if_splits)
  have "0 \<le> uint a" "uint a < 65536" "0 \<le> uint b" "uint b < 65536"
    using uint_bounded [of a] uint_bounded [of b] by simp_all
  then have "0 \<le> ?v" "?v < 65536" using v by linarith+
  then have "uint (lerp step parts a b) = ?v"
    by (simp add: lerp_def Let_def uint_word_of_int_eq take_bit_int_eq_self del: of_int_add)
  with v show ?thesis by simp
qed

lemma lerp_end: "0 < parts \<Longrightarrow> lerp parts parts a b = b"
proof -
  assume "0 < parts"
  then have "quot ((uint b - uint a) * int parts) (int parts) = uint b - uint a"
    by (simp add: quot_def abs_mult sgn_mult_abs sgn_mult)
  then show ?thesis
    using uint_bounded [of b] uint_ge_0 [of b] by (simp add: lerp_def Let_def)
qed

text \<open>
A drag presses at its start, moves only within the rectangle of its two ends, arrives
  exactly at its target and releases there.
\<close>

theorem drag_stays_and_arrives:
  "hd (drag_batches fx fy tx ty b) = [MouseMove fx fy, MouseButtonPressed (mouse_button b)]
   \<and> drop 5 (drag_batches fx fy tx ty b) = [[MouseMove tx ty], [MouseButtonReleased (mouse_button b)]]
   \<and> list_all (list_all (\<lambda>op. case op of
         MouseMove x y \<Rightarrow> min (uint fx) (uint tx) \<le> uint x \<and> uint x \<le> max (uint fx) (uint tx)
           \<and> min (uint fy) (uint ty) \<le> uint y \<and> uint y \<le> max (uint fy) (uint ty)
       | _ \<Rightarrow> True)) (drag_batches fx fy tx ty b)"
proof -
  have "[1..<DRAG_INTERPOLATION_STEPS + 1] = [1, 2, 3, 4, 5]"
    by (simp add: DRAG_INTERPOLATION_STEPS_def upt_rec)
  then show ?thesis
    using uint_lerp [of _ DRAG_INTERPOLATION_STEPS] lerp_end [of DRAG_INTERPOLATION_STEPS]
    by (simp add: drag_batches_def interpolate_def DRAG_INTERPOLATION_STEPS_def)
qed

end
