(* ===== verification/Rdp_Session.thy ===== *)
theory Rdp_Session
  imports Agent_Input Daemon_Error Drive_Backend Bridge_Protocol
begin

text \<open>
  The operations of an RDP session (\<open>rdpilot/src/session.rs\<close>): agent and viewer input with
  its bounds checks, the launch of the bridge in the guest, file transfer, and the close.
  What the session loop and the guest answer is an argument, a function of what was done
  before: the history of a session is the list of its events.
\<close>

subsection \<open>Constants and texts\<close>

definition DOUBLE_CLICK_GAP :: nat where "DOUBLE_CLICK_GAP = 100"
definition DRAG_STEP_GAP :: nat where "DRAG_STEP_GAP = 15"
definition RUN_DIALOG_SETTLE :: nat where "RUN_DIALOG_SETTLE = 2000"
definition SESSION_SETTLE :: nat where "SESSION_SETTLE = 10000"
definition TYPE_CHUNK_LEN :: nat where "TYPE_CHUNK_LEN = 1"
definition TYPE_CHUNK_GAP :: nat where "TYPE_CHUNK_GAP = 150"

definition NATIVE_ONLY_PING :: ustr where
  "NATIVE_ONLY_PING = lit ''native-only session (CuaEnabled no): there is no rdpilot-bridge to ping''"

definition chunk_str :: "ustr \<Rightarrow> nat \<Rightarrow> ustr list" where
  "chunk_str s max_len = chunks (max max_len 1) s"

subsection \<open>The environment\<close>

text \<open>
  An input channel refuses the command, drops its reply, or answers. \<open>se_request\<close> is
  \<open>BridgeShared::request\<close>.
\<close>

datatype 'a channel_answer = ChannelGone | ReplyGone | Answers 'a

datatype session_event =
    SentInput epoch "operation list"
  | SentEpoch epoch
  | Requested "unit message"
  | Slept nat
  | Staged bootstrap_stage

type_synonym history = "session_event list"

record session_env =
  se_input :: "history \<Rightarrow> (stale_input + unit) channel_answer"
  se_epoch :: "history \<Rightarrow> unit channel_answer"
  se_request :: "history \<Rightarrow> sdk_error + unit message"
  se_failure :: "history \<Rightarrow> ustr option"
  se_ready :: "history \<Rightarrow> bool"
  se_stages :: "history \<Rightarrow> bootstrap_stage list"
  se_size :: "history \<Rightarrow> nat \<times> nat"
  se_cua :: bool
  se_generation :: nat

definition input_closed :: "session_env \<Rightarrow> history \<Rightarrow> sdk_error" where
  "input_closed env h =
     SdkSession (case se_failure env h of Some r \<Rightarrow> r | None \<Rightarrow> lit ''input channel closed'')"

definition send_input :: "session_env \<Rightarrow> epoch \<Rightarrow> operation list \<Rightarrow> history \<Rightarrow> (sdk_error + unit) \<times> history" where
  "send_input env e ops h =
     (case se_input env h of
        ChannelGone \<Rightarrow> (Inl (input_closed env h), h)
      | ReplyGone \<Rightarrow> (Inl (input_closed env h), h @ [SentInput e ops])
      | Answers (Inl (StaleInput s c)) \<Rightarrow> (Inl (SdkStaleInput s c), h @ [SentInput e ops])
      | Answers (Inr _) \<Rightarrow> (Inr (), h @ [SentInput e ops]))"

definition set_input_epoch :: "session_env \<Rightarrow> epoch \<Rightarrow> history \<Rightarrow> (sdk_error + unit) \<times> history" where
  "set_input_epoch env e h =
     (case se_epoch env h of
        ChannelGone \<Rightarrow> (Inl (input_closed env h), h)
      | ReplyGone \<Rightarrow> (Inl (input_closed env h), h @ [SentEpoch e])
      | Answers _ \<Rightarrow> (Inr (), h @ [SentEpoch e]))"

text \<open>The operator \<open>?\<close>: an error ends the function.\<close>

definition then_do :: "('e + 'a) \<times> 'h \<Rightarrow> ('a \<Rightarrow> 'h \<Rightarrow> ('e + 'b) \<times> 'h) \<Rightarrow> ('e + 'b) \<times> 'h" where
  "then_do m f = (case m of (Inl e, h) \<Rightarrow> (Inl e, h) | (Inr x, h) \<Rightarrow> f x h)"

subsection \<open>Input\<close>

definition out_of_bounds :: "nat \<times> nat \<Rightarrow> u16 \<times> u16 \<Rightarrow> bool" where
  "out_of_bounds dims p \<longleftrightarrow> fst dims \<le> unat (fst p) \<or> snd dims \<le> unat (snd p)"

fun first_out_of_bounds :: "nat \<times> nat \<Rightarrow> (u16 \<times> u16) list \<Rightarrow> sdk_error + unit" where
  "first_out_of_bounds dims [] = Inr ()"
| "first_out_of_bounds dims (p # ps) =
     (if out_of_bounds dims p then Inl (CoordinateOutOfBounds (unat (fst p), unat (snd p)) dims)
      else first_out_of_bounds dims ps)"

definition check_bounds :: "nat \<times> nat \<Rightarrow> mouse_action \<Rightarrow> sdk_error + unit" where
  "check_bounds dims a = first_out_of_bounds dims (coordinates a)"

fun input_gap :: "mouse_action \<Rightarrow> nat option" where
  "input_gap (DoubleClick _ _ _) = Some DOUBLE_CLICK_GAP"
| "input_gap (Drag _ _ _ _ _) = Some DRAG_STEP_GAP"
| "input_gap _ = None"

fun send_batches ::
  "session_env \<Rightarrow> nat option \<Rightarrow> epoch \<Rightarrow> operation list list \<Rightarrow> history \<Rightarrow> (sdk_error + unit) \<times> history" where
  "send_batches env gap e [] h = (Inr (), h)"
| "send_batches env gap e (b # bs) h =
     then_do (send_input env e b h) (\<lambda>_ h.
       send_batches env gap e bs
         (case gap of Some g \<Rightarrow> if bs \<noteq> [] then h @ [Slept g] else h | None \<Rightarrow> h))"

definition send_mouse :: "session_env \<Rightarrow> mouse_action \<Rightarrow> epoch \<Rightarrow> history \<Rightarrow> (sdk_error + unit) \<times> history" where
  "send_mouse env a e h =
     (case check_bounds (se_size env h) a of
        Inl err \<Rightarrow> (Inl err, h)
      | Inr _ \<Rightarrow> send_batches env (input_gap a) e (mouse_operations a) h)"

definition send_key :: "session_env \<Rightarrow> key_action \<Rightarrow> epoch \<Rightarrow> history \<Rightarrow> (sdk_error + unit) \<times> history" where
  "send_key env a e h = send_input env e (key_operations a) h"

definition moves_of :: "raw_input list \<Rightarrow> (u16 \<times> u16) list" where
  "moves_of events = concat (map (\<lambda>ev. case ev of PointerMove x y \<Rightarrow> [(x, y)] | _ \<Rightarrow> []) events)"

text \<open>\<open>InputHandle::send\<close>; \<open>frame\<close> is the size of the current frame.\<close>

definition viewer_send ::
  "session_env \<Rightarrow> nat \<times> nat \<Rightarrow> raw_input list \<Rightarrow> epoch \<Rightarrow> history \<Rightarrow> (sdk_error + unit) \<times> history" where
  "viewer_send env frame events e h =
     (case first_out_of_bounds frame (moves_of events) of
        Inl err \<Rightarrow> (Inl err, h)
      | Inr _ \<Rightarrow> (let ops = raw_operations events in if ops = [] then (Inr (), h) else send_input env e ops h))"

subsection \<open>The launch of the bridge\<close>

definition SERVED_BUNDLE_DIR :: ustr where
  "SERVED_BUNDLE_DIR = [92, 92] @ lit ''tsclient'' @ [92] @ lit ''RDPILOT'' @ [92] @ lit ''bundle''"

definition RUN_LINE_LIMIT :: nat where "RUN_LINE_LIMIT = 240"

definition digit36 :: "nat \<Rightarrow> uchar" where
  "digit36 d = (if d < 10 then 48 + d else 87 + d)"

fun digits36 :: "nat \<Rightarrow> nat \<Rightarrow> ustr" where
  "digits36 0 n = []"
| "digits36 (Suc k) n = digits36 k (n div 36) @ [digit36 (n mod 36)]"

definition launcher_name :: "nat \<Rightarrow> ustr" where
  "launcher_name generation = lit ''l'' @ digits36 13 generation @ lit ''.exe''"

definition bridge_launch_command :: "nat \<Rightarrow> ustr" where
  "bridge_launch_command generation =
     (let launcher = launcher_name generation
      in lit ''cmd /d /c cd /d '' @ [34] @ lit ''%LOCALAPPDATA%'' @ [34]
         @ lit '' && (md rdpilot 2>nul & cd rdpilot) && copy /y '' @ SERVED_BUNDLE_DIR @ [92] @ BRIDGE_EXE_NAME
         @ lit '' '' @ launcher @ lit '' && (.'' @ [92] @ launcher @ lit '' install --generation ''
         @ dec generation @ lit '' & del '' @ launcher @ lit '')'')"

definition ping :: "session_env \<Rightarrow> history \<Rightarrow> (sdk_error + unit) \<times> history" where
  "ping env h =
     (if \<not> se_cua env then (Inl (SdkSession NATIVE_ONLY_PING), h)
      else case se_request env h of
        Inl err \<Rightarrow> (Inl err, h @ [Requested Ping])
      | Inr Pong \<Rightarrow> (Inr (), h @ [Requested Ping])
      | Inr _ \<Rightarrow> (Inl (Dvc (lit ''unexpected ping response'')), h @ [Requested Ping]))"

fun type_chunks :: "session_env \<Rightarrow> epoch \<Rightarrow> ustr list \<Rightarrow> history \<Rightarrow> (sdk_error + unit) \<times> history" where
  "type_chunks env e [] h = (Inr (), h)"
| "type_chunks env e (c # cs) h =
     then_do (send_key env (TypeText c) e h) (\<lambda>_ h. type_chunks env e cs (h @ [Slept TYPE_CHUNK_GAP]))"

definition inject_bootstrap :: "session_env \<Rightarrow> epoch \<Rightarrow> history \<Rightarrow> (sdk_error + unit) \<times> history" where
  "inject_bootstrap env e h =
     then_do (send_key env (Combo [KWin, KR]) e (h @ [Staged LaunchInputAttempted])) (\<lambda>_ h.
     then_do (send_key env (Combo [KCtrl, KA]) e (h @ [Slept RUN_DIALOG_SETTLE])) (\<lambda>_ h.
     then_do (type_chunks env e (chunk_str (bridge_launch_command (se_generation env)) TYPE_CHUNK_LEN) h) (\<lambda>_ h.
     then_do (send_key env (Combo [KEnter]) e h) (\<lambda>_ h.
       (Inr (), h @ [Staged LaunchInputSent])))))"

text \<open>The inner loop: a failure or a pong ends it, or all rounds are used up (\<open>Inr False\<close>).\<close>

fun await_pong :: "session_env \<Rightarrow> nat \<Rightarrow> history \<Rightarrow> (sdk_error + bool) \<times> history" where
  "await_pong env 0 h = (Inr False, h)"
| "await_pong env (Suc n) h =
     (case se_failure env h of
        Some reason \<Rightarrow> (Inl (Bootstrap reason), h)
      | None \<Rightarrow>
          (case ping env h of
             (Inr _, h) \<Rightarrow> (Inr True, h)
           | (Inl _, h) \<Rightarrow> await_pong env n (h @ [Slept 100])))"

definition bootstrap_summary :: "session_env \<Rightarrow> history \<Rightarrow> ustr" where
  "bootstrap_summary env h =
     (let stages = se_stages env h
      in if stages = [] then lit ''none''
         else bootstrap_stage_str (hd stages)
              @ concat (map (\<lambda>st. lit '','' @ bootstrap_stage_str st) (tl stages)))"

fun launch_attempts :: "session_env \<Rightarrow> epoch \<Rightarrow> nat \<Rightarrow> history \<Rightarrow> (sdk_error + unit) \<times> history" where
  "launch_attempts env e 0 h =
     (Inl (Bootstrap (lit ''rdpilot-bridge did not start (possible security prompt in the guest, or a bridge that does not speak bridge protocol ''
        @ dec PROTOCOL_VERSION @ lit ''); stages='' @ bootstrap_summary env h)), h)"
| "launch_attempts env e (Suc k) h =
     then_do (inject_bootstrap env e h) (\<lambda>_ h.
     then_do (await_pong env 60 h) (\<lambda>alive h. if alive then (Inr (), h) else launch_attempts env e k h))"

text \<open>\<open>started\<close> is \<open>bootstrap_started\<close>, which is swapped atomically.\<close>

definition deploy_and_launch ::
  "session_env \<Rightarrow> epoch \<Rightarrow> bool \<Rightarrow> history \<Rightarrow> (sdk_error + unit) \<times> bool \<times> history" where
  "deploy_and_launch env e started h =
     (if se_ready env h then (let (r, h) = ping env h in (r, started, h))
      else if started then
        (Inl (Bootstrap (lit ''launch already attempted for this generation; reconnect explicitly'')), True, h)
      else (let (r, h) = launch_attempts env e 3 (h @ [Slept SESSION_SETTLE]) in (r, True, h)))"

subsection \<open>Close\<close>

text \<open>
  The one join of the session thread: whether it has been started and its result.
  \<open>join_started\<close> is \<open>CloseState::start\<close> in a first call; the result is sent once.
\<close>

datatype join_outcome = JoinInTime | JoinLate | JoinTaskFailed ustr | ThreadPanicked

record close_state =
  cs_thread :: bool
  cs_result :: "(ustr + unit) option option" \<comment> \<open>\<open>None\<close>: not started\<close>
  cs_joins :: nat

definition new_close_state :: "bool \<Rightarrow> close_state" where
  "new_close_state thread = \<lparr>cs_thread = thread, cs_result = None, cs_joins = 0\<rparr>"

definition start_close :: "close_state \<Rightarrow> close_state" where
  "start_close c =
     (if cs_result c \<noteq> None then c
      else if cs_thread c then c\<lparr>cs_thread := False, cs_result := Some None, cs_joins := cs_joins c + 1\<rparr>
      else c\<lparr>cs_result := Some (Some (Inr ()))\<rparr>)"

fun join_result :: "join_outcome \<Rightarrow> ustr + unit" where
  "join_result JoinLate = Inl (lit ''session shutdown deadline exceeded'')"
| "join_result (JoinTaskFailed e) = Inl (lit ''join task failed: '' @ e)"
| "join_result ThreadPanicked = Inl (lit ''session thread panicked'')"
| "join_result JoinInTime = Inr ()"

definition join_ends :: "join_outcome \<Rightarrow> close_state \<Rightarrow> close_state" where
  "join_ends j c = (if cs_result c = Some None then c\<lparr>cs_result := Some (Some (join_result j))\<rparr> else c)"

text \<open>What a caller of \<open>close\<close> gets once the result is there; \<open>None\<close> while it waits.\<close>

definition close_answer :: "close_state \<Rightarrow> (sdk_error + unit) option" where
  "close_answer c =
     (case cs_result c of
        Some (Some (Inr _)) \<Rightarrow> Some (Inr ())
      | Some (Some (Inl e)) \<Rightarrow> Some (Inl (SdkSession e))
      | _ \<Rightarrow> None)"


subsection \<open>What is sent\<close>

fun inputs :: "history \<Rightarrow> (epoch \<times> operation list) list" where
  "inputs [] = []"
| "inputs (SentInput e ops # h) = (e, ops) # inputs h"
| "inputs (_ # h) = inputs h"

lemma inputs_append [simp]: "inputs (h @ h') = inputs h @ inputs h'"
  by (induction h rule: inputs.induct) simp_all

text \<open>
  \<open>sends e bs I m\<close>: after inputs \<open>I\<close>, the operation \<open>m\<close> sent a prefix of the batches \<open>bs\<close>
  as input of \<open>e\<close>, and all of them when it succeeded.
\<close>

definition sends ::
  "epoch \<Rightarrow> operation list list \<Rightarrow> (epoch \<times> operation list) list \<Rightarrow> (sdk_error + unit) \<times> history \<Rightarrow> bool" where
  "sends e bs sent m \<longleftrightarrow>
     (\<exists>n. inputs (snd m) = sent @ map (Pair e) (take n bs) \<and> (fst m = Inr () \<longrightarrow> length bs \<le> n))"

lemma sends_input: "sends e [b] (inputs h) (send_input env e b h)"
  by (auto simp: sends_def send_input_def intro: exI [of _ 0] exI [of _ 1]
      split: channel_answer.splits sum.splits stale_input.splits)

lemma sends_nothing: "inputs h = sent \<Longrightarrow> sends e [] sent (r, h)"
  by (simp add: sends_def)

lemma sends_then:
  assumes "sends e bs sent m" and "\<And>h. inputs h = sent @ map (Pair e) bs \<Longrightarrow> sends e cs (inputs h) (f () h)"
  shows "sends e (bs @ cs) sent (then_do m f)"
proof -
  obtain r h where m: "m = (r, h)" by fastforce
  from assms(1) obtain n where
    n: "inputs h = sent @ map (Pair e) (take n bs)" "r = Inr () \<longrightarrow> length bs \<le> n" by (auto simp: sends_def m)
  show ?thesis
  proof (cases r)
    case (Inl err)
    have "inputs h = sent @ map (Pair e) (take (min n (length bs)) (bs @ cs))"
      using n(1) by (simp add: min_def)
    moreover have "then_do (Inl err, h) f = (Inl err, h)" by (simp add: then_do_def)
    ultimately show ?thesis unfolding sends_def m Inl by (intro exI [of _ "min n (length bs)"]) (simp del: take_append)
  next
    case (Inr u)
    then have h: "inputs h = sent @ map (Pair e) bs" using n by simp
    from assms(2) [OF h] obtain n' where
      "inputs (snd (f () h)) = inputs h @ map (Pair e) (take n' cs)"
      "fst (f () h) = Inr () \<longrightarrow> length cs \<le> n'" by (auto simp: sends_def)
    then have "inputs (snd (f () h)) = sent @ map (Pair e) (take (length bs + n') (bs @ cs))"
      "fst (f () h) = Inr () \<longrightarrow> length (bs @ cs) \<le> length bs + n'" using h by simp_all
    moreover have "then_do (Inr u, h) f = f () h" by (simp add: then_do_def)
    ultimately show ?thesis unfolding sends_def m Inr
      by (intro exI [of _ "length bs + n'"]) (simp del: take_append map_append)
  qed
qed

lemma sends_batches: "sends e bs (inputs h) (send_batches env gap e bs h)"
proof (induction bs arbitrary: h)
  case (Cons b bs)
  have "sends e ([b] @ bs) (inputs h)
    (then_do (send_input env e b h) (\<lambda>_ h. send_batches env gap e bs
         (case gap of Some g \<Rightarrow> if bs \<noteq> [] then h @ [Slept g] else h | None \<Rightarrow> h)))"
  proof (rule sends_then [OF sends_input])
    fix h1
    let ?h = "case gap of Some g \<Rightarrow> if bs \<noteq> [] then h1 @ [Slept g] else h1 | None \<Rightarrow> h1"
    have "inputs ?h = inputs h1" by (simp split: option.split)
    then show "sends e bs (inputs h1) (send_batches env gap e bs ?h)" using Cons.IH [of ?h] by simp
  qed
  then show ?case by simp
qed (simp add: sends_nothing)

lemma first_out_of_bounds_ok:
  "first_out_of_bounds dims ps = Inr u \<longleftrightarrow> list_all (\<lambda>p. \<not> out_of_bounds dims p) ps"
  by (induction ps) auto

lemma drag_moves:
  assumes "b \<in> set (drag_batches fx fy tx ty btn)" and "MouseMove x y \<in> set b"
  shows "unat x \<le> max (unat fx) (unat tx) \<and> unat y \<le> max (unat fy) (unat ty)"
proof -
  have lerp: "unat (lerp i DRAG_INTERPOLATION_STEPS u v) \<le> max (unat u) (unat v)"
    if "i \<le> DRAG_INTERPOLATION_STEPS" for i u v
  proof -
    have "uint (lerp i DRAG_INTERPOLATION_STEPS u v) \<le> max (uint u) (uint v)"
      using uint_lerp [OF that, of u v] by (simp add: DRAG_INTERPOLATION_STEPS_def)
    then have "int (unat (lerp i DRAG_INTERPOLATION_STEPS u v)) \<le> int (max (unat u) (unat v))"
      by (simp add: of_nat_max)
    then show ?thesis by (simp only: of_nat_le_iff)
  qed
  let ?step = "\<lambda>i. case interpolate fx fy tx ty i DRAG_INTERPOLATION_STEPS of (x, y) \<Rightarrow> [MouseMove x y]"
  have "b = [MouseMove fx fy, MouseButtonPressed (mouse_button btn)]
      \<or> b = [MouseButtonReleased (mouse_button btn)] \<or> b \<in> ?step ` set [1..<DRAG_INTERPOLATION_STEPS + 1]"
    using assms(1) unfolding drag_batches_def by (simp del: set_upt)
  then show ?thesis
  proof (elim disjE imageE)
    fix i
    assume "b = ?step i" "i \<in> set [1..<DRAG_INTERPOLATION_STEPS + 1]"
    then have "i \<le> DRAG_INTERPOLATION_STEPS" "x = lerp i DRAG_INTERPOLATION_STEPS fx tx"
      "y = lerp i DRAG_INTERPOLATION_STEPS fy ty"
      using assms(2) by (auto simp: interpolate_def)
    then show ?thesis using lerp by simp
  qed (use assms(2) in auto)
qed

lemma wheel_no_moves: "MouseMove x y \<notin> set (wheel_rotation_operations dy)"
  by (auto simp: wheel_rotation_operations_def)

lemma moves_in_dims:
  assumes "check_bounds dims a = Inr u" and b: "b \<in> set (mouse_operations a)" "MouseMove x y \<in> set b"
  shows "unat x < fst dims \<and> unat y < snd dims"
proof -
  have ok: "list_all (\<lambda>p. \<not> out_of_bounds dims p) (coordinates a)"
    using assms(1) by (simp add: check_bounds_def first_out_of_bounds_ok)
  show ?thesis
  proof (cases a)
    case (Drag fx fy tx ty btn)
    then have "unat x \<le> max (unat fx) (unat tx)" "unat y \<le> max (unat fy) (unat ty)"
      using drag_moves [of b fx fy tx ty btn x y] b by simp_all
    with ok Drag show ?thesis by (auto simp: out_of_bounds_def max_def split: if_splits)
  qed (use ok b wheel_no_moves in \<open>auto simp: out_of_bounds_def click_batch_def\<close>)
qed

text \<open>
  C22. Of a mouse action the session loop is sent a prefix of its batches, all of them when the
  action succeeds, each as input of the caller's epoch; no move of any batch leaves the
  desktop, and an action with an end outside of it sends nothing. The desktop is that at the
  call: its size is read once, so a resize while the action runs is not noticed.
\<close>

theorem mouse_stays_in_desktop:
  assumes "send_mouse env a e h = (r, h')"
  shows "(\<exists>n. inputs h' = inputs h @ map (Pair e) (take n (mouse_operations a))
      \<and> (r = Inr () \<longrightarrow> length (mouse_operations a) \<le> n))
    \<and> (h' \<noteq> h \<longrightarrow> (\<forall>b \<in> set (mouse_operations a). \<forall>x y. MouseMove x y \<in> set b \<longrightarrow>
         unat x < fst (se_size env h) \<and> unat y < snd (se_size env h)))
    \<and> (list_ex (out_of_bounds (se_size env h)) (coordinates a) \<longrightarrow> h' = h \<and> r \<noteq> Inr ())"
proof (cases "check_bounds (se_size env h) a")
  case (Inl err)
  then have "h' = h" "r = Inl err" using assms by (simp_all add: send_mouse_def)
  then show ?thesis by (auto intro: exI [of _ 0])
next
  case (Inr u)
  then have "send_batches env (input_gap a) e (mouse_operations a) h = (r, h')"
    using assms by (simp add: send_mouse_def)
  then have s: "sends e (mouse_operations a) (inputs h) (r, h')" by (metis sends_batches)
  have "\<not> list_ex (out_of_bounds (se_size env h)) (coordinates a)"
    using Inr by (simp add: check_bounds_def first_out_of_bounds_ok list_ex_iff list_all_iff)
  then show ?thesis using s moves_in_dims [OF Inr] unfolding sends_def by auto
qed

text \<open>A loop that accepts everything on a desktop of 100 by 100, and never hears of a bridge.\<close>

definition idle_env :: session_env where
  "idle_env = \<lparr>se_input = \<lambda>_. Answers (Inr ()), se_epoch = \<lambda>_. Answers (),
     se_request = \<lambda>_. Inl (Dvc []), se_failure = \<lambda>_. None, se_ready = \<lambda>_. False, se_stages = \<lambda>_. [],
     se_size = (\<lambda>_. (100, 100)), se_cua = True, se_generation = 1\<rparr>"

lemma mouse_stays_in_desktop_witness:
  "send_mouse idle_env (Drag 10 20 30 100 BLeft) 1 []
     = (Inl (CoordinateOutOfBounds (30, 100) (100, 100)), [])
   \<and> list_ex (out_of_bounds (100, 100)) (coordinates (Drag 10 20 30 100 BLeft))
   \<and> (\<exists>n. inputs (snd (send_mouse idle_env (Drag 10 20 30 40 BLeft) 1 []))
        = inputs [] @ map (Pair 1) (take n (mouse_operations (Drag 10 20 30 40 BLeft))))"
proof (intro conjI)
  show "send_mouse idle_env (Drag 10 20 30 100 BLeft) 1 []
     = (Inl (CoordinateOutOfBounds (30, 100) (100, 100)), [])"
    by (simp add: send_mouse_def check_bounds_def idle_env_def out_of_bounds_def)
  show "list_ex (out_of_bounds (100, 100)) (coordinates (Drag 10 20 30 100 BLeft))"
    by (simp add: out_of_bounds_def)
  show "\<exists>n. inputs (snd (send_mouse idle_env (Drag 10 20 30 40 BLeft) 1 []))
        = inputs [] @ map (Pair 1) (take n (mouse_operations (Drag 10 20 30 40 BLeft)))"
    using mouse_stays_in_desktop [OF surjective_pairing] by blast
qed

subsection \<open>The launch line\<close>

lemma length_dec: "n < 10 ^ Suc k \<Longrightarrow> length (dec n) \<le> Suc k"
proof (induction k arbitrary: n)
  case 0
  then show ?case by (simp add: dec.simps [of n])
next
  case (Suc k)
  have "n div 10 < 10 ^ Suc k" using Suc.prems by (simp add: less_mult_imp_div_less mult.commute)
  from Suc.IH [OF this] show ?case by (simp add: dec.simps [of n])
qed

lemma digit36_inj: "a < 36 \<Longrightarrow> b < 36 \<Longrightarrow> digit36 a = digit36 b \<longleftrightarrow> a = b"
  by (auto simp: digit36_def split: if_splits)

lemma digits36_inj: "m < 36 ^ k \<Longrightarrow> n < 36 ^ k \<Longrightarrow> digits36 k m = digits36 k n \<longleftrightarrow> m = n"
proof (induction k arbitrary: m n)
  case (Suc k)
  have "m div 36 < 36 ^ k" "n div 36 < 36 ^ k" using Suc.prems by (auto simp: less_mult_imp_div_less mult.commute)
  from Suc.IH [OF this] have "digits36 (Suc k) m = digits36 (Suc k) n \<longleftrightarrow> m div 36 = n div 36 \<and> m mod 36 = n mod 36"
    by (simp add: digit36_inj)
  also have "\<dots> \<longleftrightarrow> m = n" by (metis div_mult_mod_eq)
  finally show ?case .
qed simp

lemma length_digits36 [simp]: "length (digits36 k n) = k"
  by (induction k arbitrary: n) simp_all

lemma digit36_char: "d < 36 \<Longrightarrow> is_ascii_digit (digit36 d) \<or> is_ascii_lower (digit36 d)"
  by (simp add: digit36_def is_ascii_digit_def is_ascii_lower_def)

lemma digits36_chars: "c \<in> set (digits36 k n) \<Longrightarrow> is_ascii_digit c \<or> is_ascii_lower c"
proof (induction k arbitrary: n)
  case (Suc k)
  then show ?case using digit36_char [of "n mod 36"] by auto
qed simp

text \<open>
  The line that is typed into the Run dialog fits it for every generation, so that it is
  never cut, and no two generations share the name of the local copy.
\<close>

theorem launch_line_fits:
  assumes "g < 2 ^ 64" and "g' < 2 ^ 64"
  shows "length (bridge_launch_command g) \<le> RUN_LINE_LIMIT
    \<and> (launcher_name g = launcher_name g' \<longleftrightarrow> g = g')
    \<and> list_all (\<lambda>c. is_ascii_digit c \<or> is_ascii_lower c \<or> c = ch CHR ''.'') (launcher_name g)"
proof -
  have "length (dec g) \<le> Suc 19" by (rule length_dec) (use assms(1) in simp)
  then have "length (bridge_launch_command g) \<le> RUN_LINE_LIMIT"
    by (simp add: bridge_launch_command_def launcher_name_def lit_def SERVED_BUNDLE_DIR_def BRIDGE_EXE_NAME_def
        RUN_LINE_LIMIT_def Let_def del: digits36.simps)
  moreover have "g < 36 ^ 13" "g' < 36 ^ 13" using assms by simp_all
  from digits36_inj [OF this] have "launcher_name g = launcher_name g' \<longleftrightarrow> g = g'"
    by (simp add: launcher_name_def del: digits36.simps)
  moreover have "list_all (\<lambda>c. is_ascii_digit c \<or> is_ascii_lower c \<or> c = ch CHR ''.'') (launcher_name g)"
    using digits36_chars
    by (auto simp: launcher_name_def list_all_iff lit_def ch_def is_ascii_lower_def is_ascii_digit_def simp del: digits36.simps)
  ultimately show ?thesis by blast
qed

lemma launch_line_fits_witness: "length (bridge_launch_command 18446744073709551615) \<le> RUN_LINE_LIMIT
    \<and> launcher_name 18446744073709551615 \<noteq> launcher_name 1"
  using launch_line_fits [of 18446744073709551615 1] by simp

lemma chunk_str_concat: "concat (chunk_str s n) = s"
  by (simp add: chunk_str_def concat_chunks)

subsection \<open>One launch\<close>

definition launch_keys :: "nat \<Rightarrow> key_action list" where
  "launch_keys generation =
     [Combo [KWin, KR], Combo [KCtrl, KA]]
     @ map TypeText (chunk_str (bridge_launch_command generation) TYPE_CHUNK_LEN)
     @ [Combo [KEnter]]"

lemma sends_key:
  assumes "sent = inputs h"
  shows "sends e [key_operations a] sent (send_key env a e h)"
  unfolding send_key_def assms by (rule sends_input)

lemma sends_type_chunks: "sends e (map (\<lambda>c. key_operations (TypeText c)) cs) (inputs h) (type_chunks env e cs h)"
proof (induction cs arbitrary: h)
  case (Cons c cs)
  have "sends e ([key_operations (TypeText c)] @ map (\<lambda>c. key_operations (TypeText c)) cs) (inputs h)
    (then_do (send_key env (TypeText c) e h) (\<lambda>_ h. type_chunks env e cs (h @ [Slept TYPE_CHUNK_GAP])))"
  proof (rule sends_then)
    show "sends e [key_operations (TypeText c)] (inputs h) (send_key env (TypeText c) e h)"
      unfolding send_key_def by (rule sends_input)
    show "sends e (map (\<lambda>c. key_operations (TypeText c)) cs) (inputs h1) (type_chunks env e cs (h1 @ [Slept TYPE_CHUNK_GAP]))"
      for h1 using Cons.IH [of "h1 @ [Slept TYPE_CHUNK_GAP]"] by (simp del: key_operations.simps)
  qed
  then show ?case by simp
qed (simp add: sends_nothing)

lemma sends_bootstrap: "sends e (map key_operations (launch_keys (se_generation env))) (inputs h) (inject_bootstrap env e h)"
proof -
  let ?cs = "chunk_str (bridge_launch_command (se_generation env)) TYPE_CHUNK_LEN"
  have "sends e ([key_operations (Combo [KWin, KR])] @ [key_operations (Combo [KCtrl, KA])]
      @ map (\<lambda>c. key_operations (TypeText c)) ?cs @ [key_operations (Combo [KEnter])] @ []) (inputs h) (inject_bootstrap env e h)"
    unfolding inject_bootstrap_def
    by (intro sends_then sends_type_chunks sends_nothing; (rule sends_key)?; simp)
  then show ?thesis by (simp add: launch_keys_def comp_def del: key_operations.simps)
qed

subsection \<open>All launches\<close>

fun attempts :: "history \<Rightarrow> nat" where
  "attempts [] = 0"
| "attempts (Staged LaunchInputAttempted # h) = Suc (attempts h)"
| "attempts (_ # h) = attempts h"

fun requested :: "history \<Rightarrow> unit message list" where
  "requested [] = []"
| "requested (Requested m # h) = m # requested h"
| "requested (_ # h) = requested h"

lemma attempts_append [simp]: "attempts (h @ h') = attempts h + attempts h'"
  by (induction h rule: attempts.induct) simp_all

lemma requested_append [simp]: "requested (h @ h') = requested h @ requested h'"
  by (induction h rule: requested.induct) simp_all

definition extends :: "epoch \<Rightarrow> nat \<Rightarrow> nat \<Rightarrow> history \<Rightarrow> history \<Rightarrow> bool" where
  "extends e a p h h' \<longleftrightarrow>
     attempts h' \<le> attempts h + a
     \<and> (\<exists>n \<le> p. requested h' = requested h @ replicate n Ping)
     \<and> (\<exists>bs. inputs h' = inputs h @ map (Pair e) bs)"

lemma extends_refl [simp]: "extends e a p h h"
  by (auto simp: extends_def intro: exI [of _ 0])

lemma extends_trans:
  assumes "extends e a p h1 h2" and "extends e b q h2 h3"
  shows "extends e (a + b) (p + q) h1 h3"
proof -
  obtain n m bs cs where
    "attempts h2 \<le> attempts h1 + a" "attempts h3 \<le> attempts h2 + b" "n \<le> p" "m \<le> q"
    "requested h2 = requested h1 @ replicate n Ping" "requested h3 = requested h2 @ replicate m Ping"
    "inputs h2 = inputs h1 @ map (Pair e) bs" "inputs h3 = inputs h2 @ map (Pair e) cs"
    using assms unfolding extends_def by blast
  then have "attempts h3 \<le> attempts h1 + (a + b)" "n + m \<le> p + q"
    "requested h3 = requested h1 @ replicate (n + m) Ping" "inputs h3 = inputs h1 @ map (Pair e) (bs @ cs)"
    by (simp_all add: replicate_add)
  then show ?thesis unfolding extends_def by blast
qed

lemma extends_mono: "extends e a p h h' \<Longrightarrow> a \<le> b \<Longrightarrow> p \<le> q \<Longrightarrow> extends e b q h h'"
  unfolding extends_def by (meson add_le_mono le_trans order_refl)

lemma extends_then:
  assumes "extends e a p h (snd m)" and "\<And>x h1. extends e b q h1 (snd (f x h1))"
  shows "extends e (a + b) (p + q) h (snd (then_do m f))"
proof -
  obtain r h1 where m: "m = (r, h1)" by fastforce
  show ?thesis
  proof (cases r)
    case (Inl err)
    then show ?thesis using assms(1) by (auto simp: then_do_def m intro: extends_mono)
  next
    case (Inr x)
    then have "extends e b q h1 (snd (then_do m f))" using assms(2) by (simp add: then_do_def m)
    moreover have "extends e a p h h1" using assms(1) m by simp
    ultimately show ?thesis using extends_trans by blast
  qed
qed

lemma attempts_send [simp]: "attempts (snd (send_input env e ops h)) = attempts h"
  and requested_send [simp]: "requested (snd (send_input env e ops h)) = requested h"
  by (simp_all add: send_input_def split: channel_answer.splits sum.splits stale_input.splits)

lemma extends_key: "extends e 0 0 h (snd (send_key env a e h))"
  using sends_key [of "inputs h" h e a env] by (auto simp: extends_def sends_def send_key_def)

lemma extends_pause: "extends e a p h1 h' \<Longrightarrow> extends e a p h1 (h' @ [Slept n])"
  "extends e a p (h1 @ [Slept n]) h' \<Longrightarrow> extends e a p h1 h'"
  by (simp_all add: extends_def)

lemma extends_attempt: "extends e 0 p (h @ [Staged LaunchInputAttempted]) h' \<Longrightarrow> extends e 1 p h h'"
  "extends e a p h (h @ [Staged LaunchInputSent])"
  by (auto simp: extends_def intro: exI [of _ 0])

lemma extends_type: "extends e 0 0 h (snd (type_chunks env e cs h))"
proof (induction cs arbitrary: h)
  case (Cons c cs)
  show ?case
    using extends_then [OF extends_key, of e 0 0 "\<lambda>_ h. type_chunks env e cs (h @ [Slept TYPE_CHUNK_GAP])" h env "TypeText c"]
      extends_pause(2) [OF Cons.IH] by simp
qed simp

lemma extends_bootstrap: "extends e 1 0 h (snd (inject_bootstrap env e h))"
proof -
  have "extends e (0 + (0 + (0 + (0 + 0)))) (0 + (0 + (0 + (0 + 0)))) (h @ [Staged LaunchInputAttempted])
      (snd (inject_bootstrap env e h))"
    unfolding inject_bootstrap_def
    by (intro extends_then extends_key extends_type extends_pause(2) [OF extends_key]) (simp add: extends_attempt)
  then show ?thesis using extends_attempt(1) by simp
qed

lemma extends_ping: "extends e 0 1 h (snd (ping env h))"
  by (auto simp: ping_def extends_def intro: exI [of _ 1] split: sum.split message.split)

lemma extends_await: "extends e 0 n h (snd (await_pong env n h))"
proof (induction n arbitrary: h)
  case (Suc n)
  obtain r h1 where p: "ping env h = (r, h1)" by fastforce
  then have "extends e 0 1 h h1" using extends_ping [of e h env] by simp
  moreover have "extends e 0 n h1 (snd (await_pong env n (h1 @ [Slept 100])))"
    using Suc.IH by (rule extends_pause(2))
  ultimately have "extends e 0 (Suc n) h (snd (await_pong env n (h1 @ [Slept 100])))" "extends e 0 (Suc n) h h1"
    using extends_trans [of e 0 1 h h1 0 n] by (auto intro: extends_mono)
  then show ?case by (simp add: p split: option.split sum.split)
qed simp

lemma extends_launches: "extends e k (60 * k) h (snd (launch_attempts env e k h))"
proof (induction k arbitrary: h)
  case (Suc k)
  have "extends e (1 + (0 + k)) (0 + (60 + 60 * k)) h (snd (launch_attempts env e (Suc k) h))"
    unfolding launch_attempts.simps
  proof (intro extends_then extends_bootstrap extends_await)
    show "extends e k (60 * k) h1 (snd (if alive then (Inr (), h1) else launch_attempts env e k h1))" for alive h1
      using Suc.IH by simp
  qed
  then show ?case by simp
qed simp

text \<open>A success is a pong: the last thing done is the ping that was answered.\<close>

lemma await_pong_alive: "await_pong env n h = (Inr True, h') \<Longrightarrow> \<exists>h0. ping env h0 = (Inr (), h')"
proof (induction n arbitrary: h)
  case (Suc n)
  then show ?case by (auto split: option.splits sum.splits prod.splits)
qed simp

lemma launched_alive: "launch_attempts env e k h = (Inr (), h') \<Longrightarrow> \<exists>h0. ping env h0 = (Inr (), h')"
proof (induction k arbitrary: h)
  case (Suc k)
  then show ?case
    by (auto simp: then_do_def dest: await_pong_alive split: sum.splits prod.splits if_splits)
qed simp

text \<open>
  C21. The bridge of a generation is launched at most once: a launch types at most three
  times and pings at most 180 times, all its keys are input of the caller's epoch, a second
  launch types nothing and fails, and a launch that succeeds ended with a pong of the bridge.
\<close>

theorem launch_once:
  assumes "deploy_and_launch env e started h = (r, started', h')"
  shows "attempts h' \<le> attempts h + 3
    \<and> (\<exists>n \<le> 180. requested h' = requested h @ replicate n Ping)
    \<and> (\<exists>bs. inputs h' = inputs h @ map (Pair e) bs)
    \<and> (inputs h' \<noteq> inputs h \<longrightarrow> \<not> started \<and> started')
    \<and> (started \<longrightarrow> started' \<and> attempts h' = attempts h \<and> (r = Inr () \<longrightarrow> se_ready env h))
    \<and> (r = Inr () \<longrightarrow> (\<exists>h0. ping env h0 = (Inr (), h')))"
proof (cases "se_ready env h")
  case True
  then have "ping env h = (r, h')" "started' = started"
    using assms by (simp_all add: deploy_and_launch_def split: prod.splits)
  moreover from this have "inputs h' = inputs h" "attempts h' = attempts h" "extends e 0 1 h h'"
    using extends_ping [of e h env] by (auto simp: ping_def split: sum.splits message.splits if_splits)
  ultimately show ?thesis using True extends_mono [of e 0 1 h h' 3 180] unfolding extends_def by auto
next
  case False
  show ?thesis
  proof (cases started)
    case True
    then show ?thesis using assms False by (auto simp: deploy_and_launch_def intro: exI [of _ 0])
  next
    case no: False
    then have l: "launch_attempts env e 3 (h @ [Slept SESSION_SETTLE]) = (r, h')" "started'"
      using assms False by (simp_all add: deploy_and_launch_def split: prod.splits)
    have "extends e 3 (60 * 3) (h @ [Slept SESSION_SETTLE]) h'"
      using extends_launches [of e 3 "h @ [Slept SESSION_SETTLE]" env] l by simp
    then have "extends e 3 180 h h'" using extends_pause(2) by simp
    moreover have "r = Inr () \<Longrightarrow> \<exists>h0. ping env h0 = (Inr (), h')" using launched_alive l(1) by blast
    ultimately show ?thesis using no l(2) unfolding extends_def by blast
  qed
qed

lemma launch_once_witness:
  "(let env = idle_env\<lparr>se_ready := \<lambda>_. True, se_request := \<lambda>_. Inr Pong\<rparr>
    in deploy_and_launch env 1 True [] = (Inr (), True, [Requested Ping])
       \<and> (\<exists>h0. ping env h0 = (Inr (), [Requested Ping])))
   \<and> deploy_and_launch idle_env 1 True []
       = (Inl (Bootstrap (lit ''launch already attempted for this generation; reconnect explicitly'')), True, [])
   \<and> attempts [] = attempts []"
proof (unfold Let_def, intro conjI)
  let ?env = "idle_env\<lparr>se_ready := \<lambda>_. True, se_request := \<lambda>_. Inr Pong\<rparr>"
  show d: "deploy_and_launch ?env 1 True [] = (Inr (), True, [Requested Ping])"
    by (simp add: deploy_and_launch_def ping_def idle_env_def)
  show "\<exists>h0. ping ?env h0 = (Inr (), [Requested Ping])" using launch_once [OF d] by blast
  show "deploy_and_launch idle_env 1 True []
       = (Inl (Bootstrap (lit ''launch already attempted for this generation; reconnect explicitly'')), True, [])"
    by (simp add: deploy_and_launch_def idle_env_def)
qed simp

text \<open>
  What one launch types, when no key is refused, is the Run shortcut, the selection of
  the old line, the launch line a character at a time and Enter, in that order; the text
  that is typed is exactly the launch line of the session's generation.
\<close>

theorem launch_types_the_line:
  assumes "inject_bootstrap env e h = (Inr (), h')"
  shows "inputs h' = inputs h @ map (\<lambda>k. (e, key_operations k)) (launch_keys (se_generation env))
    \<and> concat (map (\<lambda>k. case k of TypeText t \<Rightarrow> t | _ \<Rightarrow> []) (launch_keys (se_generation env)))
        = bridge_launch_command (se_generation env)"
proof -
  have "inputs h' = inputs h @ map (Pair e) (map key_operations (launch_keys (se_generation env)))"
    using sends_bootstrap [of e env h] assms by (auto simp: sends_def)
  moreover have "concat (map (\<lambda>k. case k of TypeText t \<Rightarrow> t | _ \<Rightarrow> []) (launch_keys g))
      = concat (chunk_str (bridge_launch_command g) TYPE_CHUNK_LEN)" for g
    by (simp add: launch_keys_def comp_def)
  ultimately show ?thesis by (simp add: chunk_str_concat comp_def)
qed

lemma idle_key: "fst (send_key idle_env a e h) = Inr ()"
  by (simp add: send_key_def send_input_def idle_env_def)

lemma idle_then: "fst m = Inr () \<Longrightarrow> (\<And>h. fst (f () h) = Inr ()) \<Longrightarrow> fst (then_do m f) = Inr ()"
  by (cases m) (simp add: then_do_def)

lemma idle_type: "fst (type_chunks idle_env e cs h) = Inr ()"
  by (induction cs arbitrary: h) (simp_all add: idle_then idle_key)

lemma idle_bootstrap: "fst (inject_bootstrap idle_env e h) = Inr ()"
  unfolding inject_bootstrap_def by (intro idle_then idle_key idle_type) simp

lemma launch_types_the_line_witness:
  "fst (inject_bootstrap idle_env 1 []) = Inr ()
   \<and> inputs (snd (inject_bootstrap idle_env 1 [])) = map (\<lambda>k. (1, key_operations k)) (launch_keys 1)"
proof -
  obtain h' where i: "inject_bootstrap idle_env 1 [] = (Inr (), h')"
    using idle_bootstrap [of 1 "[]"] by (metis prod.collapse)
  from launch_types_the_line [OF this] have "inputs h' = map (\<lambda>k. (1, key_operations k)) (launch_keys 1)"
    by (simp add: idle_env_def)
  with i show ?thesis by simp
qed

subsection \<open>Closes\<close>

datatype close_event = CloseCalled | JoinEnded join_outcome

fun close_step :: "close_event \<Rightarrow> close_state \<Rightarrow> close_state" where
  "close_step CloseCalled c = start_close c"
| "close_step (JoinEnded j) c = join_ends j c"

abbreviation close_run :: "close_event list \<Rightarrow> close_state \<Rightarrow> close_state" where
  "close_run es c \<equiv> fold close_step es c"

definition close_ok :: "close_state \<Rightarrow> bool" where
  "close_ok c \<longleftrightarrow> cs_joins c \<le> 1 \<and> (cs_result c = None \<longrightarrow> cs_joins c = 0) \<and> (cs_result c \<noteq> None \<longrightarrow> \<not> cs_thread c)"

lemma close_ok_step: "close_ok c \<Longrightarrow> close_ok (close_step ev c)"
  by (cases ev) (auto simp: close_ok_def start_close_def join_ends_def)

lemma close_ok_run: "close_ok c \<Longrightarrow> close_ok (close_run es c)"
  by (induction es arbitrary: c) (simp_all add: close_ok_step)

lemma close_answer_step: "close_answer c = Some a \<Longrightarrow> close_step ev c = c"
  by (cases ev) (auto simp: close_answer_def start_close_def join_ends_def split: option.splits)

lemma close_answer_run: "close_answer c = Some a \<Longrightarrow> close_run es c = c"
  by (induction es) (simp_all add: close_answer_step)

lemma close_waits_run:
  "cs_result c = Some None \<Longrightarrow> close_answer (close_run es c) =
     (case List.find (\<lambda>ev. ev \<noteq> CloseCalled) es of
        Some (JoinEnded j) \<Rightarrow> Some (map_sum SdkSession id (join_result j)) | _ \<Rightarrow> None)"
proof (induction es arbitrary: c)
  case (Cons ev es)
  show ?case
  proof (cases ev)
    case CloseCalled
    then show ?thesis using Cons by (simp add: start_close_def)
  next
    case (JoinEnded j)
    have "close_answer (join_ends j c) = Some (map_sum SdkSession id (join_result j))"
      using Cons.prems by (cases j) (simp_all add: join_ends_def close_answer_def)
    with JoinEnded show ?thesis by (simp add: close_answer_run)
  qed
qed (simp add: close_answer_def)

text \<open>
  However many callers close a session, before or after the join ends and whichever of
  them give up: the thread is joined at most once, every caller gets the one result of that
  join, late callers get the same answer at once, and an answer never changes.
\<close>

theorem one_join_for_all:
  "cs_joins (close_run es (new_close_state t)) \<le> 1
   \<and> close_answer (close_run (CloseCalled # es) (new_close_state True)) =
       (case List.find (\<lambda>ev. ev \<noteq> CloseCalled) es of
          Some (JoinEnded j) \<Rightarrow> Some (map_sum SdkSession id (join_result j)) | _ \<Rightarrow> None)
   \<and> close_answer (close_run (CloseCalled # es) (new_close_state False)) = Some (Inr ())"
proof (intro conjI)
  show "cs_joins (close_run es (new_close_state t)) \<le> 1"
    using close_ok_run [of "new_close_state t" es] by (simp add: close_ok_def new_close_state_def)
  show "close_answer (close_run (CloseCalled # es) (new_close_state True)) =
       (case List.find (\<lambda>ev. ev \<noteq> CloseCalled) es of
          Some (JoinEnded j) \<Rightarrow> Some (map_sum SdkSession id (join_result j)) | _ \<Rightarrow> None)"
    by (simp add: close_waits_run start_close_def new_close_state_def)
  have "close_answer (start_close (new_close_state False)) = Some (Inr ())"
    by (simp add: start_close_def new_close_state_def close_answer_def)
  then show "close_answer (close_run (CloseCalled # es) (new_close_state False)) = Some (Inr ())"
    by (simp add: close_answer_run)
qed

end
