(* ===== verification/Session_Files.thy ===== *)
theory Session_Files
  imports Rdp_Session
begin

text \<open>
  File transfer over the redirected drive (\<open>upload_file\<close>, \<open>download_file\<close> of
  \<open>rdpilot/src/session.rs\<close>): a file is staged in the share base under a unique name, the
  guest copies it, and checksums are compared. The local files are a map from paths to
  contents; what can fail in the operating system, the checksum function and the guest are
  fields of a record.
\<close>

subsection \<open>The environment\<close>

type_synonym files = "fs_path \<rightharpoonup> u8 list"

record transfer_env =
  te_root :: "fs_path option"
  te_nanos :: nat
  te_pid :: nat
  te_counter :: nat
  te_sha256 :: "u8 list \<Rightarrow> ustr"
  te_display :: "fs_path \<Rightarrow> ustr"
  te_missing :: ustr
  te_exists :: ustr
  te_open_fails :: "fs_path \<Rightarrow> files \<Rightarrow> ustr option"
  te_create_fails :: "fs_path \<Rightarrow> files \<Rightarrow> ustr option"
  te_read_stops :: "fs_path \<Rightarrow> files \<Rightarrow> (nat \<times> ustr) option"
  te_write_stops :: "fs_path \<Rightarrow> files \<Rightarrow> (nat \<times> ustr) option"
  te_remove_fails :: "fs_path \<Rightarrow> files \<Rightarrow> bool"
  te_request :: "file_transfer_request \<Rightarrow> files \<Rightarrow> (sdk_error + unit message) \<times> files"

text \<open>\<open>unique_share_name\<close>\<close>

definition share_name :: "transfer_env \<Rightarrow> ustr" where
  "share_name env = lit ''rdpilot-transfer-'' @ dec (te_nanos env) @ lit ''-'' @ dec (te_pid env) @ lit ''-''
     @ dec (te_counter env) @ lit ''.tmp''"

record transfer_outcome =
  to_bytes_transferred :: nat
  to_checksum :: ustr

definition open_file :: "transfer_env \<Rightarrow> fs_path \<Rightarrow> files \<Rightarrow> ustr + u8 list" where
  "open_file env p fs =
     (case te_open_fails env p fs of
        Some e \<Rightarrow> Inl e
      | None \<Rightarrow> (case fs p of None \<Rightarrow> Inl (te_missing env) | Some b \<Rightarrow> Inr b))"

definition create_new_file :: "transfer_env \<Rightarrow> fs_path \<Rightarrow> files \<Rightarrow> ustr + files" where
  "create_new_file env p fs =
     (if fs p \<noteq> None then Inl (te_exists env)
      else case te_create_fails env p fs of Some e \<Rightarrow> Inl e | None \<Rightarrow> Inr (fs(p \<mapsto> [])))"

text \<open>\<open>std::io::copy\<close> from an open file with the contents \<open>b\<close>: what was copied stays.\<close>

definition copy_file :: "transfer_env \<Rightarrow> fs_path \<Rightarrow> u8 list \<Rightarrow> fs_path \<Rightarrow> files \<Rightarrow> (ustr + unit) \<times> files" where
  "copy_file env src b dst fs =
     (case te_read_stops env src fs of
        Some (n, e) \<Rightarrow> (Inl e, fs(dst \<mapsto> take n b))
      | None \<Rightarrow>
          (case te_write_stops env dst fs of
             Some (n, e) \<Rightarrow> (Inl e, fs(dst \<mapsto> take n b))
           | None \<Rightarrow> (Inr (), fs(dst \<mapsto> b))))"

definition remove_file :: "transfer_env \<Rightarrow> fs_path \<Rightarrow> files \<Rightarrow> files" where
  "remove_file env p fs = (if te_remove_fails env p fs then fs else fs(p := None))"

definition sha256_file :: "transfer_env \<Rightarrow> fs_path \<Rightarrow> files \<Rightarrow> sdk_error + ustr" where
  "sha256_file env p fs =
     (case open_file env p fs of
        Inl e \<Rightarrow> Inl (Dvc (lit ''failed to open '' @ te_display env p @ lit '' for checksum: '' @ e))
      | Inr b \<Rightarrow>
          (case te_read_stops env p fs of
             Some (_, e) \<Rightarrow> Inl (Dvc (lit ''failed to read '' @ te_display env p @ lit '' while hashing: '' @ e))
           | None \<Rightarrow> Inr (te_sha256 env b)))"

subsection \<open>The transfers\<close>

definition transfer ::
  "transfer_env \<Rightarrow> file_transfer_op \<Rightarrow> ustr \<Rightarrow> ustr \<Rightarrow> files \<Rightarrow> (sdk_error + file_transfer_data) \<times> files" where
  "transfer env op remote share fs =
     (case te_request env \<lparr>ft_op = op, ft_remote_path = remote, ft_share_name = share\<rparr> fs of
        (Inl e, fs') \<Rightarrow> (Inl e, fs')
      | (Inr (FileTransferResult res), fs') \<Rightarrow>
          (if ft_success res then
             (case ft_data res of
                Some x \<Rightarrow> Inr x
              | None \<Rightarrow> Inl (Dvc (lit ''missing transfer result'')))
           else
             (let reason = (case ft_error res of Some e \<Rightarrow> e | None \<Rightarrow> lit ''transfer failed'')
              in if ft_error_kind res = Some (lit ''path_traversal'') then Inl (PathTraversal reason)
                 else Inl (BridgeRejected reason)), fs')
      | (Inr _, fs') \<Rightarrow> (Inl (Dvc (lit ''unexpected transfer response'')), fs'))"

definition NO_SHARE_ROOT :: sdk_error where
  "NO_SHARE_ROOT = SdkConfig (lit ''file transfer requires share_root'')"

definition staged_path :: "fs_path \<Rightarrow> transfer_env \<Rightarrow> fs_path" where
  "staged_path base env = path_join base (components (share_name env))"

text \<open>The error operator with the files as state.\<close>

definition on_files ::
  "(sdk_error + 'a) \<times> files \<Rightarrow> ('a \<Rightarrow> files \<Rightarrow> (sdk_error + 'b) \<times> files) \<Rightarrow> (sdk_error + 'b) \<times> files" where
  "on_files m f = (case m of (Inl e, fs) \<Rightarrow> (Inl e, fs) | (Inr x, fs) \<Rightarrow> f x fs)"

definition os_error :: "ustr + 'a \<Rightarrow> sdk_error + 'a" where
  "os_error r = map_sum Dvc id r"

definition stage_upload :: "transfer_env \<Rightarrow> fs_path \<Rightarrow> fs_path \<Rightarrow> files \<Rightarrow> (sdk_error + unit) \<times> files" where
  "stage_upload env local staged fs =
     on_files (os_error (open_file env local fs), fs) (\<lambda>b fs.
     (case create_new_file env staged fs of
        Inl e \<Rightarrow> (Inl (Dvc e), fs)
      | Inr fs \<Rightarrow> (case copy_file env local b staged fs of (r, fs) \<Rightarrow> (os_error r, fs))))"

definition upload_staged ::
  "transfer_env \<Rightarrow> fs_path \<Rightarrow> ustr \<Rightarrow> fs_path \<Rightarrow> files \<Rightarrow> (sdk_error + transfer_outcome) \<times> files" where
  "upload_staged env local remote staged fs =
     on_files (stage_upload env local staged fs) (\<lambda>_ fs.
     on_files (sha256_file env staged fs, fs) (\<lambda>hash fs.
     on_files (transfer env Upload remote (share_name env) fs) (\<lambda>res fs.
       if \<not> eq_ignore_ascii_case hash (ft_sha256 res) then (Inl (ChecksumMismatch (ft_sha256 res) hash), fs)
       else (Inr \<lparr>to_bytes_transferred = ft_bytes_transferred res, to_checksum = hash\<rparr>, fs))))"

text \<open>\<open>StagedFile\<close> removes the staged file however the call ends.\<close>

definition with_cleanup ::
  "transfer_env \<Rightarrow> fs_path \<Rightarrow> (sdk_error + 'a) \<times> files \<Rightarrow> (sdk_error + 'a) \<times> files" where
  "with_cleanup env staged m = (case m of (r, fs) \<Rightarrow> (r, remove_file env staged fs))"

definition upload_file ::
  "transfer_env \<Rightarrow> fs_path \<Rightarrow> ustr \<Rightarrow> files \<Rightarrow> (sdk_error + transfer_outcome) \<times> files" where
  "upload_file env local remote fs =
     (case te_root env of
        None \<Rightarrow> (Inl NO_SHARE_ROOT, fs)
      | Some base \<Rightarrow> with_cleanup env (staged_path base env)
          (upload_staged env local remote (staged_path base env) fs))"

definition write_download ::
  "transfer_env \<Rightarrow> fs_path \<Rightarrow> fs_path \<Rightarrow> files \<Rightarrow> (sdk_error + unit) \<times> files" where
  "write_download env staged local fs =
     on_files (os_error (open_file env staged fs), fs) (\<lambda>b fs.
     (case create_new_file env local fs of
        Inl e \<Rightarrow> (Inl (Dvc e), fs)
      | Inr fs \<Rightarrow>
          (case copy_file env staged b local fs of
             (Inl e, fs) \<Rightarrow> (Inl (Dvc e), remove_file env local fs)
           | (Inr _, fs) \<Rightarrow> (Inr (), fs))))"

definition download_staged ::
  "transfer_env \<Rightarrow> ustr \<Rightarrow> fs_path \<Rightarrow> fs_path \<Rightarrow> files \<Rightarrow> (sdk_error + transfer_outcome) \<times> files" where
  "download_staged env remote local staged fs =
     on_files (transfer env Download remote (share_name env) fs) (\<lambda>res fs.
     on_files (sha256_file env staged fs, fs) (\<lambda>hash fs.
       if \<not> eq_ignore_ascii_case hash (ft_sha256 res) then (Inl (ChecksumMismatch (ft_sha256 res) hash), fs)
       else
         on_files (write_download env staged local fs) (\<lambda>_ fs.
         on_files (sha256_file env local fs, fs) (\<lambda>written fs.
           if \<not> eq_ignore_ascii_case written hash then (Inl (ChecksumMismatch hash written), remove_file env local fs)
           else (Inr \<lparr>to_bytes_transferred = ft_bytes_transferred res, to_checksum = hash\<rparr>, fs)))))"

definition download_file ::
  "transfer_env \<Rightarrow> ustr \<Rightarrow> fs_path \<Rightarrow> files \<Rightarrow> (sdk_error + transfer_outcome) \<times> files" where
  "download_file env remote local fs =
     (case te_root env of
        None \<Rightarrow> (Inl NO_SHARE_ROOT, fs)
      | Some base \<Rightarrow> with_cleanup env (staged_path base env)
          (download_staged env remote local (staged_path base env) fs))"

subsection \<open>What a transfer changes\<close>

text \<open>
  The guest has the share base (see \<open>drive_confined\<close>): it changes no file outside of it.
\<close>

definition guest_confined :: "fs_path \<Rightarrow> transfer_env \<Rightarrow> bool" where
  "guest_confined base env \<longleftrightarrow>
     (\<forall>req fs p. \<not> starts_with_path p base \<longrightarrow> snd (te_request env req fs) p = fs p)"

text \<open>\<open>keeps_files base fresh fs fs'\<close>: outside of the base only the file \<open>fresh\<close> may differ, and only if it is new.\<close>

definition keeps_files :: "fs_path \<Rightarrow> fs_path option \<Rightarrow> files \<Rightarrow> files \<Rightarrow> bool" where
  "keeps_files base fresh fs fs' \<longleftrightarrow>
     (\<forall>p. \<not> starts_with_path p base \<longrightarrow> fs' p = fs p \<or> fresh = Some p \<and> fs p = None)"

lemma keeps_refl [simp]: "keeps_files base fresh fs fs"
  by (simp add: keeps_files_def)

lemma keeps_trans:
  assumes "keeps_files base fresh fs1 fs2" and "keeps_files base fresh fs2 fs3"
  shows "keeps_files base fresh fs1 fs3"
  unfolding keeps_files_def
proof (intro allI impI)
  fix p
  assume "\<not> starts_with_path p base"
  then have "fs2 p = fs1 p \<or> fresh = Some p \<and> fs1 p = None" "fs3 p = fs2 p \<or> fresh = Some p \<and> fs2 p = None"
    using assms by (simp_all add: keeps_files_def)
  then show "fs3 p = fs1 p \<or> fresh = Some p \<and> fs1 p = None" by auto
qed

lemma keeps_under: "starts_with_path p base \<Longrightarrow> keeps_files base fresh fs (fs(p := x))"
  by (simp add: keeps_files_def)

lemma keeps_fresh: "fs p = None \<Longrightarrow> keeps_files base (Some p) fs (fs(p := x))"
  by (simp add: keeps_files_def)

lemma keeps_on:
  assumes "keeps_files base fresh fs (snd m)" and "\<And>x. fst m = Inr x \<Longrightarrow> keeps_files base fresh (snd m) (snd (f x (snd m)))"
  shows "keeps_files base fresh fs (snd (on_files m f))"
proof (cases m)
  case (Pair r fs1)
  then show ?thesis using assms by (cases r) (auto simp: on_files_def intro: keeps_trans)
qed

lemma keeps_transfer:
  assumes "guest_confined base env"
  shows "keeps_files base fresh fs (snd (transfer env op remote share fs))"
proof -
  let ?req = "\<lparr>ft_op = op, ft_remote_path = remote, ft_share_name = share\<rparr>"
  obtain r fs' where q: "te_request env ?req fs = (r, fs')" by fastforce
  then have "snd (transfer env op remote share fs) = fs'"
    by (simp add: transfer_def split: sum.split message.split)
  moreover have "fs' p = fs p" if "\<not> starts_with_path p base" for p
    using assms that q unfolding guest_confined_def by (metis snd_conv)
  ultimately show ?thesis by (simp add: keeps_files_def)
qed

lemma keeps_remove: "starts_with_path p base \<Longrightarrow> keeps_files base fresh fs (remove_file env p fs)"
  by (simp add: remove_file_def keeps_under)

lemma keeps_cleanup:
  "starts_with_path staged base \<Longrightarrow> keeps_files base fresh fs (snd m) \<Longrightarrow>
   keeps_files base fresh fs (snd (with_cleanup env staged m))"
  by (cases m) (auto simp: with_cleanup_def intro: keeps_trans keeps_remove)

lemma keeps_create:
  "create_new_file env p fs = Inr fs' \<Longrightarrow> starts_with_path p base \<or> fresh = Some p \<Longrightarrow> keeps_files base fresh fs fs'"
  by (auto simp: create_new_file_def keeps_files_def split: option.splits if_splits)

lemma copy_changes: "copy_file env src b dst fs = (r, fs') \<Longrightarrow> \<exists>c. fs' = fs(dst \<mapsto> c)"
  by (auto simp: copy_file_def split: option.splits)

lemma keeps_stage:
  assumes "starts_with_path staged base"
  shows "keeps_files base fresh fs (snd (stage_upload env local staged fs))"
proof -
  have "keeps_files base fresh fs (snd (case create_new_file env staged fs of Inl e \<Rightarrow> (Inl (Dvc e), fs)
      | Inr fs \<Rightarrow> (case copy_file env local b staged fs of (r, fs) \<Rightarrow> (os_error r, fs))))" for b
  proof (cases "create_new_file env staged fs")
    case (Inr fs1)
    obtain r fs2 where c: "copy_file env local b staged fs1 = (r, fs2)" by fastforce
    then obtain x where "fs2 = fs1(staged \<mapsto> x)" using copy_changes by blast
    then have "keeps_files base fresh fs fs2"
      using keeps_create [OF Inr, of base fresh] keeps_under [OF assms] assms keeps_trans by blast
    then show ?thesis by (simp add: Inr c)
  qed simp
  then show ?thesis unfolding stage_upload_def by (intro keeps_on) (simp_all cong: sum.case_cong)
qed

lemma keeps_write:
  assumes "starts_with_path staged base"
  shows "keeps_files base (Some local) fs (snd (write_download env staged local fs))"
proof -
  have "keeps_files base (Some local) fs (snd (case create_new_file env local fs of Inl e \<Rightarrow> (Inl (Dvc e), fs)
      | Inr fs \<Rightarrow> (case copy_file env staged b local fs of
          (Inl e, fs) \<Rightarrow> (Inl (Dvc e), remove_file env local fs) | (Inr _, fs) \<Rightarrow> (Inr (), fs))))" for b
  proof (cases "create_new_file env local fs")
    case (Inr fs1)
    then have n: "fs local = None" "fs1 = fs(local \<mapsto> [])"
      by (auto simp: create_new_file_def split: option.splits if_splits)
    obtain r fs2 where c: "copy_file env staged b local fs1 = (r, fs2)" by fastforce
    then obtain x where "fs2 = fs1(local \<mapsto> x)" using copy_changes by blast
    then have "keeps_files base (Some local) fs fs2" "keeps_files base (Some local) fs (remove_file env local fs2)"
      using n by (simp_all add: keeps_files_def remove_file_def)
    then show ?thesis by (simp add: Inr c split: sum.split)
  qed simp
  then show ?thesis unfolding write_download_def by (intro keeps_on) (simp_all cong: sum.case_cong)
qed

lemma keeps_upload:
  assumes "guest_confined base env" and "starts_with_path staged base"
  shows "keeps_files base fresh fs (snd (upload_staged env local remote staged fs))"
  unfolding upload_staged_def
  by (intro keeps_on) (auto simp: keeps_stage [OF assms(2)] keeps_transfer [OF assms(1)])

lemma download_created: "write_download env staged local fs = (Inr u, fs') \<Longrightarrow> fs local = None"
  by (auto simp: write_download_def on_files_def create_new_file_def split: sum.splits prod.splits if_splits)

lemma keeps_download:
  assumes "guest_confined base env" and "starts_with_path staged base"
  shows "keeps_files base (Some local) fs (snd (download_staged env remote local staged fs))"
  unfolding download_staged_def
proof (rule keeps_on)
  show "keeps_files base (Some local) fs (snd (transfer env Download remote (share_name env) fs))"
    by (rule keeps_transfer [OF assms(1)])
  fix res
  let ?fs = "snd (transfer env Download remote (share_name env) fs)"
  let ?check = "\<lambda>hash fs. on_files (sha256_file env local fs, fs) (\<lambda>written fs.
           if \<not> eq_ignore_ascii_case written hash then (Inl (ChecksumMismatch hash written), remove_file env local fs)
           else (Inr \<lparr>to_bytes_transferred = ft_bytes_transferred res, to_checksum = hash\<rparr>, fs))"
  have written: "keeps_files base (Some local) ?fs (snd (on_files (write_download env staged local ?fs) (\<lambda>_. ?check hash)))" for hash
  proof (cases "write_download env staged local ?fs")
    case (Pair r fs1)
    have k: "keeps_files base (Some local) ?fs fs1"
      using keeps_write [OF assms(2), of local ?fs env] Pair by simp
    show ?thesis
    proof (cases r)
      case (Inr u)
      then have n: "?fs local = None" using download_created Pair by blast
      have "snd (?check hash fs1) = fs1 \<or> snd (?check hash fs1) = remove_file env local fs1"
        by (simp add: on_files_def split: sum.split)
      moreover have "keeps_files base (Some local) ?fs (remove_file env local fs1)"
        using k n by (auto simp: keeps_files_def remove_file_def)
      ultimately show ?thesis using k Pair Inr by (auto simp: on_files_def)
    qed (use k Pair in \<open>simp add: on_files_def\<close>)
  qed
  show "keeps_files base (Some local) ?fs (snd (on_files (sha256_file env staged ?fs, ?fs) (\<lambda>hash fs.
       if \<not> eq_ignore_ascii_case hash (ft_sha256 res) then (Inl (ChecksumMismatch (ft_sha256 res) hash), fs)
       else on_files (write_download env staged local fs) (\<lambda>_. ?check hash))))"
    using written by (simp add: on_files_def split: sum.split)
qed

lemma split_on_absent: "c \<notin> set s \<Longrightarrow> split_on c s = [s]"
  by (induction s) auto

lemma digits_no_slash: "ch CHR ''/'' \<notin> set (dec n)"
  using dec_digits [of "ch CHR ''/''" n] by (auto simp: is_ascii_digit_def ch_def)

lemma staged_under: "starts_with_path (staged_path base env) base"
proof -
  have "ch CHR ''/'' \<notin> set (share_name env)"
    using digits_no_slash by (auto simp: share_name_def lit_def ch_def)
  then have "split_on (ch CHR ''/'') (share_name env) = [share_name env]" by (rule split_on_absent)
  moreover have "hd (share_name env) = ch CHR ''r''" "share_name env \<noteq> []" "share_name env \<noteq> lit ''.''" "share_name env \<noteq> lit ''..''"
    by (simp_all add: share_name_def lit_def ch_def)
  ultimately have "components (share_name env) = [Normal (Utf8 (share_name env))]"
    by (simp add: components_def component_of_def ch_def List.map_filter_def)
  then show ?thesis by (simp add: staged_path_def starts_with_path_def)
qed

text \<open>
  C27. A transfer overwrites nothing: outside of the share root, where the guest cannot write,
  an upload changes no file, and a download can only make the one file that was asked for,
  and only if it was not there.
\<close>

theorem transfer_overwrites_nothing:
  assumes "guest_confined base env" and "te_root env = Some base" and "\<not> starts_with_path p base"
  shows "snd (upload_file env local remote fs) p = fs p
    \<and> (snd (download_file env remote local fs) p = fs p \<or> p = local \<and> fs p = None)"
proof
  have "keeps_files base None fs (snd (upload_file env local remote fs))"
    using keeps_cleanup [OF staged_under keeps_upload [OF assms(1) staged_under]] by (simp add: upload_file_def assms(2))
  then show "snd (upload_file env local remote fs) p = fs p" using assms(3) by (simp add: keeps_files_def)
  have "keeps_files base (Some local) fs (snd (download_file env remote local fs))"
    using keeps_cleanup [OF staged_under keeps_download [OF assms(1) staged_under]] by (simp add: download_file_def assms(2))
  then show "snd (download_file env remote local fs) p = fs p \<or> p = local \<and> fs p = None"
    using assms(3) by (auto simp: keeps_files_def)
qed

subsection \<open>What a success says\<close>

lemma on_files_Inr:
  assumes "on_files m f = (Inr y, fs')"
  obtains x fs1 where "m = (Inr x, fs1)" "f x fs1 = (Inr y, fs')"
  using assms by (auto simp: on_files_def split: prod.splits sum.splits)

lemma sha_content: "sha256_file env p fs = Inr h \<Longrightarrow> \<exists>b. fs p = Some b \<and> h = te_sha256 env b"
  by (auto simp: sha256_file_def open_file_def split: sum.splits option.splits)

lemma staged_content: "stage_upload env local staged fs = (Inr u, fs') \<Longrightarrow> \<exists>b. fs local = Some b \<and> fs staged = None \<and> fs' = fs(staged \<mapsto> b)"
  by (auto simp: stage_upload_def on_files_def os_error_def open_file_def create_new_file_def copy_file_def
      split: sum.splits option.splits prod.splits if_splits)

text \<open>
  C26. A successful transfer was verified: the checksum of an upload is that of the local
  file, and the guest reported the same one; the file that a download leaves has the
  checksum that the guest reported for it.
\<close>

theorem transfer_verified:
  assumes "te_root env = Some base"
  shows "(upload_file env local remote fs = (Inr res, fs') \<longrightarrow>
      (\<exists>b rep fs1. fs local = Some b \<and> to_checksum res = te_sha256 env b
        \<and> fst (transfer env Upload remote (share_name env) fs1) = Inr rep \<and> fs1 (staged_path base env) = Some b
        \<and> eq_ignore_ascii_case (te_sha256 env b) (ft_sha256 rep)))
    \<and> (download_file env remote local fs = (Inr res, fs') \<longrightarrow> local \<noteq> staged_path base env \<longrightarrow>
      (\<exists>b rep. fs' local = Some b \<and> fst (transfer env Download remote (share_name env) fs) = Inr rep
        \<and> eq_ignore_ascii_case (te_sha256 env b) (to_checksum res)
        \<and> eq_ignore_ascii_case (to_checksum res) (ft_sha256 rep)))"
proof (intro conjI impI)
  let ?st = "staged_path base env"
  assume "upload_file env local remote fs = (Inr res, fs')"
  then obtain fs2 where u: "upload_staged env local remote ?st fs = (Inr res, fs2)"
    by (auto simp: upload_file_def assms with_cleanup_def split: prod.splits)
  from u obtain hash rep fs1 fs3 fs4 where st: "stage_upload env local ?st fs = (Inr (), fs1)"
    and h: "sha256_file env ?st fs1 = Inr hash" and t: "transfer env Upload remote (share_name env) fs1 = (Inr rep, fs3)"
    and e: "eq_ignore_ascii_case hash (ft_sha256 rep)" "to_checksum res = hash"
    unfolding upload_staged_def by (elim on_files_Inr) (auto split: if_splits)
  from staged_content [OF st] obtain b where "fs local = Some b" "fs1 = fs(?st \<mapsto> b)" by blast
  moreover from sha_content [OF h] calculation have "hash = te_sha256 env b" by auto
  ultimately show "\<exists>b rep fs1. fs local = Some b \<and> to_checksum res = te_sha256 env b
        \<and> fst (transfer env Upload remote (share_name env) fs1) = Inr rep \<and> fs1 ?st = Some b
        \<and> eq_ignore_ascii_case (te_sha256 env b) (ft_sha256 rep)"
    using t e by (intro exI [of _ b] exI [of _ rep] exI [of _ fs1]) simp
next
  let ?st = "staged_path base env"
  assume d: "download_file env remote local fs = (Inr res, fs')" and ne: "local \<noteq> ?st"
  then obtain fs2 where u: "download_staged env remote local ?st fs = (Inr res, fs2)" and fs': "fs' = remove_file env ?st fs2"
    by (auto simp: download_file_def assms with_cleanup_def split: prod.splits)
  from u obtain rep hash written fs3 fs4 where t: "transfer env Download remote (share_name env) fs = (Inr rep, fs3)"
    and e: "eq_ignore_ascii_case hash (ft_sha256 rep)" "to_checksum res = hash"
    and w: "sha256_file env local fs2 = Inr written" "eq_ignore_ascii_case written hash"
    unfolding download_staged_def by (elim on_files_Inr) (auto elim!: on_files_Inr split: if_splits)
  from sha_content [OF w(1)] obtain b where "fs2 local = Some b" "written = te_sha256 env b" by blast
  then have "\<exists>b rep. fs2 local = Some b \<and> fst (transfer env Download remote (share_name env) fs) = Inr rep
        \<and> eq_ignore_ascii_case (te_sha256 env b) (to_checksum res) \<and> eq_ignore_ascii_case (to_checksum res) (ft_sha256 rep)"
    using t e w by (intro exI [of _ b] exI [of _ rep]) simp
  then show "\<exists>b rep. fs' local = Some b \<and> fst (transfer env Download remote (share_name env) fs) = Inr rep
        \<and> eq_ignore_ascii_case (te_sha256 env b) (to_checksum res)
        \<and> eq_ignore_ascii_case (to_checksum res) (ft_sha256 rep)"
    using ne by (simp add: fs' remove_file_def)
qed

subsection \<open>A sample\<close>

text \<open>A guest that copies: the share root is \<open>/s\<close>, and the guest's file holds one byte.\<close>

definition sample_base :: fs_path where "sample_base = [RootDir, Normal (Utf8 (lit ''s''))]"
definition local_path :: fs_path where "local_path = [RootDir, Normal (Utf8 (lit ''l''))]"

definition transfer_done :: "u8 list \<Rightarrow> unit message" where
  "transfer_done b = FileTransferResult \<lparr>ft_success = True,
     ft_data = Some \<lparr>ft_bytes_transferred = length b, ft_sha256 = map unat b\<rparr>, ft_error = None, ft_error_kind = None\<rparr>"

definition sample_transfer :: transfer_env where
  "sample_transfer = \<lparr>te_root = Some sample_base, te_nanos = 1, te_pid = 2, te_counter = 3,
     te_sha256 = map unat, te_display = (\<lambda>_. []), te_missing = lit ''missing'', te_exists = lit ''exists'',
     te_open_fails = (\<lambda>_ _. None), te_create_fails = (\<lambda>_ _. None), te_read_stops = (\<lambda>_ _. None),
     te_write_stops = (\<lambda>_ _. None), te_remove_fails = (\<lambda>_ _. False),
     te_request = (\<lambda>req fs.
       let st = path_join sample_base (components (ft_share_name req))
       in case ft_op req of
            Download \<Rightarrow> (Inr (transfer_done [7]), fs(st := if starts_with_path st sample_base then Some [7] else fs st))
          | Upload \<Rightarrow> (Inr (transfer_done (case fs st of Some b \<Rightarrow> b | None \<Rightarrow> [])), fs))\<rparr>"

lemma sample_confined: "guest_confined sample_base sample_transfer"
  by (auto simp: guest_confined_def sample_transfer_def Let_def split: file_transfer_op.split)

lemma local_outside: "\<not> starts_with_path local_path sample_base"
  by (simp add: starts_with_path_def local_path_def sample_base_def lit_def)

lemma local_not_staged: "local_path \<noteq> staged_path sample_base env"
  using staged_under [of sample_base env] local_outside by metis

lemma transfer_overwrites_nothing_witness:
  "snd (upload_file sample_transfer local_path [] [local_path \<mapsto> [1]]) local_path = Some [1]
   \<and> snd (download_file sample_transfer [] local_path [local_path \<mapsto> [1]]) local_path = Some [1]"
proof -
  have "te_root sample_transfer = Some sample_base" by (simp add: sample_transfer_def)
  from transfer_overwrites_nothing [OF sample_confined this local_outside, of local_path "[]" "[local_path \<mapsto> [1]]"]
  show ?thesis by simp
qed

lemma eq_case_refl: "eq_ignore_ascii_case h h"
  by (simp add: eq_ignore_ascii_case_def)

lemma sample_upload:
  "fst (upload_file sample_transfer local_path [] [local_path \<mapsto> [1]]) = Inr \<lparr>to_bytes_transferred = 1, to_checksum = [1]\<rparr>"
proof -
  have ne: "staged_path sample_base sample_transfer \<noteq> local_path" using local_not_staged by metis
  have st: "path_join sample_base (components (share_name sample_transfer)) = staged_path sample_base sample_transfer"
    by (simp add: staged_path_def)
  have e: "te_open_fails sample_transfer = (\<lambda>_ _. None)" "te_create_fails sample_transfer = (\<lambda>_ _. None)"
    "te_read_stops sample_transfer = (\<lambda>_ _. None)" "te_write_stops sample_transfer = (\<lambda>_ _. None)"
    "te_root sample_transfer = Some sample_base" "te_sha256 sample_transfer = map unat"
    by (simp_all add: sample_transfer_def)
  have g: "te_request sample_transfer \<lparr>ft_op = Upload, ft_remote_path = r, ft_share_name = share_name sample_transfer\<rparr> fs
      = (Inr (transfer_done (case fs (staged_path sample_base sample_transfer) of Some b \<Rightarrow> b | None \<Rightarrow> [])), fs)" for r fs
    by (simp add: sample_transfer_def staged_path_def Let_def)
  show ?thesis using ne
    by (simp add: upload_file_def upload_staged_def stage_upload_def on_files_def os_error_def open_file_def
        create_new_file_def copy_file_def sha256_file_def transfer_def g e with_cleanup_def transfer_done_def eq_case_refl)
qed

lemma transfer_verified_witness:
  "\<exists>b. [local_path \<mapsto> [1 :: u8]] local_path = Some b \<and> [1] = te_sha256 sample_transfer b"
proof -
  have r: "te_root sample_transfer = Some sample_base" by (simp add: sample_transfer_def)
  obtain fs' where "upload_file sample_transfer local_path [] [local_path \<mapsto> [1]]
      = (Inr \<lparr>to_bytes_transferred = 1, to_checksum = [1]\<rparr>, fs')"
    using sample_upload by (metis prod.collapse)
  then show ?thesis using transfer_verified [OF r] by fastforce
qed

subsection \<open>What remains after an error\<close>

text \<open>
  The clean-up of an upload is armed before the staged file is made: a file that was already
  there makes \<open>create_new\<close> fail, and is then removed.
\<close>

lemma upload_removes_foreign_file:
  assumes "te_root env = Some base" "fs (staged_path base env) = Some b" "\<not> te_remove_fails env (staged_path base env) fs"
    and "te_open_fails env local fs = None" "fs local = Some c"
  shows "upload_file env local remote fs = (Inl (Dvc (te_exists env)), fs(staged_path base env := None))"
  using assms by (simp add: upload_file_def upload_staged_def stage_upload_def on_files_def os_error_def open_file_def
      create_new_file_def with_cleanup_def remove_file_def)

text \<open>
  A download whose file cannot be read back fails, and the file that could not be verified
  stays: only a mismatch and a failed copy remove it.
\<close>

lemma download_leaves_unverified_file:
  assumes "transfer env Download remote (share_name env) fs = (Inr res, fs1)"
    and "sha256_file env staged fs1 = Inr hash" "eq_ignore_ascii_case hash (ft_sha256 res)"
    and "write_download env staged local fs1 = (Inr (), fs2)" "sha256_file env local fs2 = Inl e"
  shows "download_staged env remote local staged fs = (Inl e, fs2)"
  using assms by (simp add: download_staged_def on_files_def)

end
