(* ===== verification/Bridge_Channel.thy ===== *)
theory Bridge_Channel
  imports Drive_Backend Bridge_Protocol Daemon_Error
begin

text \<open>
  The daemon's end of the bridge channel (\<open>rdpilot/src/bridge.rs\<close>): \<open>BridgeShared\<close> with its
  requests, the one Cua attachment and its stream, retirement, and the processor of the
  frames that the guest sends. One definition per critical section of the state mutex; a
  request and an attach are cut at their awaits. \<open>bridge_step\<close> interleaves the sections of
  the callers, of the handles and of the session loop.

  Reply channels and streams are found by the number of the request or of the attachment;
  both come from the counter \<open>next\<close>. Times are milliseconds.
\<close>

subsection \<open>The state\<close>

definition STREAM_DEPTH :: nat where "STREAM_DEPTH = 8"
definition PENDING_LIMIT :: nat where "PENDING_LIMIT = 32"
definition LIVENESS_LIMIT :: nat where "LIVENESS_LIMIT = 35000"

text \<open>What the receiver of a \<open>oneshot\<close> sees.\<close>

datatype 'v reply_slot = SlotUnused | SlotWaiting | SlotReplied "'v message" | SlotDropped

text \<open>The channel \<open>output\<close> and the watch \<open>closed\<close> of an attachment.\<close>

record 'v stream =
  sm_queue :: "'v list"
  sm_sender :: bool
  sm_closed :: "ustr option"
  sm_reader :: bool

record bridge_attachment =
  at_id :: nat
  at_runtime :: nat

record 'v bridge =
  br_generation :: nat
  br_bundle_id :: ustr
  br_next :: nat
  br_ready :: bool
  br_failure :: "ustr option"
  br_last_rx :: "nat option"
  br_dead :: bool
  br_pending :: "nat list"
  br_attachment :: "bridge_attachment option"
  br_outgoing :: "'v envelope list"
  br_retire :: "'v envelope option"
  br_stages :: "bootstrap_stage list"
  br_replies :: "nat \<Rightarrow> 'v reply_slot"
  br_streams :: "nat \<Rightarrow> 'v stream"
  br_shutdown :: bool
  br_data_ready :: bool
  br_retire_ready :: bool

definition no_stream :: "'v stream" where
  "no_stream = \<lparr>sm_queue = [], sm_sender = False, sm_closed = None, sm_reader = False\<rparr>"

definition new_bridge :: "nat \<Rightarrow> ustr \<Rightarrow> 'v bridge" where
  "new_bridge generation bundle_id =
     \<lparr>br_generation = generation, br_bundle_id = bundle_id, br_next = 1, br_ready = False,
      br_failure = None, br_last_rx = None, br_dead = False, br_pending = [], br_attachment = None,
      br_outgoing = [], br_retire = None, br_stages = [], br_replies = (\<lambda>_. SlotUnused),
      br_streams = (\<lambda>_. no_stream), br_shutdown = False, br_data_ready = False, br_retire_ready = False\<rparr>"

definition attached_as :: "nat \<Rightarrow> 'v bridge \<Rightarrow> bool" where
  "attached_as i s \<longleftrightarrow> (\<exists>a. br_attachment s = Some a \<and> at_id a = i)"

lemma attached_as_code [code]:
  "attached_as i s = (case br_attachment s of None \<Rightarrow> False | Some a \<Rightarrow> at_id a = i)"
  by (simp add: attached_as_def split: option.split)

subsection \<open>The end of the channel\<close>

definition close_stream :: "ustr \<Rightarrow> 'v stream \<Rightarrow> 'v stream" where
  "close_stream reason c = c\<lparr>sm_sender := False, sm_closed := Some reason\<rparr>"

text \<open>\<open>state.attachment.take()\<close> with the reason to its handle.\<close>

definition take_attachment :: "ustr \<Rightarrow> 'v bridge \<Rightarrow> 'v bridge" where
  "take_attachment reason s =
     (case br_attachment s of
        None \<Rightarrow> s
      | Some a \<Rightarrow> s\<lparr>br_attachment := None,
          br_streams := (br_streams s)(at_id a := close_stream reason (br_streams s (at_id a)))\<rparr>)"

text \<open>\<open>pending.clear()\<close> drops the senders.\<close>

definition clear_pending :: "'v bridge \<Rightarrow> 'v bridge" where
  "clear_pending s =
     s\<lparr>br_pending := [],
       br_replies := (\<lambda>i. if i \<in> set (br_pending s) then SlotDropped else br_replies s i)\<rparr>"

definition invalidate :: "ustr \<Rightarrow> 'v bridge \<Rightarrow> 'v bridge" where
  "invalidate reason s =
     take_attachment reason
       (clear_pending (s\<lparr>br_failure := Some reason, br_dead := True, br_ready := False\<rparr>)
          \<lparr>br_outgoing := []\<rparr>)"

definition bridge_stop :: "ustr \<Rightarrow> 'v bridge \<Rightarrow> 'v bridge" where
  "bridge_stop reason s = (invalidate reason s)\<lparr>br_shutdown := True\<rparr>"

definition close_attachment_id :: "nat \<Rightarrow> ustr \<Rightarrow> 'v bridge \<Rightarrow> 'v bridge" where
  "close_attachment_id i reason s = (if attached_as i s then take_attachment reason s else s)"

definition check_liveness :: "nat \<Rightarrow> 'v bridge \<Rightarrow> 'v bridge" where
  "check_liveness now s =
     (if br_ready s \<and> (case br_last_rx s of None \<Rightarrow> False | Some t \<Rightarrow> LIVENESS_LIMIT < now - t)
      then invalidate (lit ''bridge heartbeat deadline exceeded; reconnect required'') s else s)"

definition bridge_ready :: "'v bridge \<Rightarrow> bool" where
  "bridge_ready s \<longleftrightarrow> br_ready s \<and> \<not> br_dead s"

subsection \<open>What the session loop takes\<close>

definition take_data :: "'v bridge \<Rightarrow> 'v envelope option \<times> 'v bridge" where
  "take_data s =
     (case br_outgoing s of
        [] \<Rightarrow> (None, s)
      | e # es \<Rightarrow> (Some e, s\<lparr>br_outgoing := es, br_data_ready := br_data_ready s \<or> es \<noteq> []\<rparr>))"

definition take_retire :: "'v bridge \<Rightarrow> 'v envelope option \<times> 'v bridge" where
  "take_retire s = (br_retire s, s\<lparr>br_retire := None\<rparr>)"

fun mcp_of :: "nat \<Rightarrow> 'v message \<Rightarrow> bool" where
  "mcp_of i (Mcp a _ _) \<longleftrightarrow> a = i"
| "mcp_of i _ \<longleftrightarrow> False"

definition retire_id :: "'v envelope option \<Rightarrow> nat" where
  "retire_id r = (case r of Some e \<Rightarrow> (case env_message e of Close a _ \<Rightarrow> a | _ \<Rightarrow> 0) | None \<Rightarrow> 0)"

text \<open>The second section of \<open>retire\<close>; the first one is \<open>close_attachment_id\<close>.\<close>

definition retire_section :: "nat \<Rightarrow> ustr \<Rightarrow> 'v bridge \<Rightarrow> 'v bridge" where
  "retire_section i reason s =
     s\<lparr>br_outgoing := filter (\<lambda>e. \<not> mcp_of i (env_message e)) (br_outgoing s),
       br_retire := (if retire_id (br_retire s) \<le> i
         then Some (new_envelope (br_generation s) 0 (Close i reason)) else br_retire s),
       br_retire_ready := True\<rparr>"

definition retire :: "nat \<Rightarrow> ustr \<Rightarrow> 'v bridge \<Rightarrow> 'v bridge" where
  "retire i reason s = retire_section i reason (close_attachment_id i reason s)"

subsection \<open>Requests\<close>

definition request_registers :: "'v message \<Rightarrow> 'v bridge \<Rightarrow> (sdk_error + 'v envelope) \<times> 'v bridge" where
  "request_registers msg s =
     (let i = br_next s; s1 = s\<lparr>br_next := i + 1\<rparr>
      in if br_dead s then (Inl (Dvc (lit ''bridge disconnected'')), s1)
         else if PENDING_LIMIT \<le> length (br_pending s) then (Inl (Dvc (lit ''bridge control queue full'')), s1)
         else (Inr (new_envelope (br_generation s) i msg),
               s1\<lparr>br_pending := br_pending s @ [i], br_replies := (br_replies s)(i := SlotWaiting)\<rparr>))"

text \<open>
  How the timed block of \<open>request\<close> ends: the loop no longer takes commands, the deadline
  passes, or the reply channel has something (or waits: \<open>None\<close>).
\<close>

datatype request_end = LoopGone | DeadlinePassed | ReplyPolled

fun request_answer :: "request_end \<Rightarrow> 'v reply_slot \<Rightarrow> (sdk_error + 'v message) option" where
  "request_answer LoopGone _ = Some (Inl (Dvc (lit ''RDP session closed'')))"
| "request_answer DeadlinePassed SlotWaiting = Some (Inl (Dvc (lit ''bridge control deadline exceeded'')))"
| "request_answer DeadlinePassed _ = None"
| "request_answer ReplyPolled (SlotReplied (ErrorMsg reason)) = Some (Inl (Dvc reason))"
| "request_answer ReplyPolled (SlotReplied m) = Some (Inr m)"
| "request_answer ReplyPolled SlotDropped = Some (Inl (Dvc (lit ''bridge closed before replying'')))"
| "request_answer ReplyPolled _ = None"

text \<open>The end of a request, also of one whose caller gave up (\<open>PendingRequest\<close>).\<close>

definition request_leaves :: "nat \<Rightarrow> 'v bridge \<Rightarrow> 'v bridge" where
  "request_leaves i s =
     s\<lparr>br_pending := filter (\<lambda>k. k \<noteq> i) (br_pending s), br_replies := (br_replies s)(i := SlotUnused)\<rparr>"

subsection \<open>The attachment\<close>

definition attach_checks :: "'v bridge \<Rightarrow> sdk_error + unit" where
  "attach_checks s =
     (if bridge_ready s then Inr ()
      else Inl (Dvc (lit ''Cua bridge is not ready; deploy the bundle first'')))"

definition attach_inserts :: "'v bridge \<Rightarrow> (sdk_error + nat) \<times> 'v bridge" where
  "attach_inserts s =
     (let i = br_next s; s1 = s\<lparr>br_next := i + 1\<rparr>
      in if br_attachment s \<noteq> None
         then (Inl (Dvc (lit ''target already has an active Cua attachment'')), s1)
         else (Inr i, s1\<lparr>br_attachment := Some \<lparr>at_id = i, at_runtime = 0\<rparr>,
                br_streams := (br_streams s)(i := \<lparr>sm_queue = [], sm_sender = True, sm_closed = None, sm_reader = True\<rparr>)\<rparr>))"

definition set_runtime :: "nat \<Rightarrow> nat \<Rightarrow> 'v bridge \<Rightarrow> 'v bridge" where
  "set_runtime i r s =
     (if attached_as i s then s\<lparr>br_attachment := Some \<lparr>at_id = i, at_runtime = r\<rparr>\<rparr> else s)"

text \<open>The reply to the \<open>Open\<close>; the result is the runtime of the handle.\<close>

definition attach_opened :: "nat \<Rightarrow> 'v message \<Rightarrow> 'v bridge \<Rightarrow> (sdk_error + nat) \<times> 'v bridge" where
  "attach_opened i response s =
     (case response of
        Opened a r \<Rightarrow>
          if a = i then
            if attached_as i s then (Inr r, set_runtime i r s)
            else (Inl (Dvc (lit ''attachment closed during open'')), s)
          else (Inl (Dvc (lit ''invalid bridge open acknowledgement'')), s)
      | _ \<Rightarrow> (Inl (Dvc (lit ''invalid bridge open acknowledgement'')), s))"

fun frame_error_str :: "ustr \<Rightarrow> frame_error \<Rightarrow> ustr" where
  "frame_error_str json SerializeError = json"
| "frame_error_str json PayloadError = json"
| "frame_error_str json FrameTooLarge = lit ''outer frame exceeds 16 MiB''"
| "frame_error_str json InvalidLength = lit ''invalid outer frame length''"
| "frame_error_str json (VersionMismatch v) =
     lit ''peer speaks bridge protocol '' @ dec v @ lit '', this side needs '' @ dec PROTOCOL_VERSION
     @ lit ''; use an rdpilot-bridge.exe built for this rdpilot version''"
| "frame_error_str json Truncated = lit ''truncated outer frame''"
| "frame_error_str json SubtractOverflow = lit ''attempt to subtract with overflow''"

text \<open>\<open>CuaAttachment::send\<close>: what is checked before the lock, and the section.\<close>

definition send_checks ::
  "ustr \<Rightarrow> ('v envelope \<Rightarrow> u8 list option) \<Rightarrow> nat \<Rightarrow> nat \<Rightarrow> 'v \<Rightarrow> 'v bridge \<Rightarrow> sdk_error + 'v envelope" where
  "send_checks json ser i r v s =
     (case sm_closed (br_streams s i) of
        Some reason \<Rightarrow> Inl (Dvc reason)
      | None \<Rightarrow>
          (let e = new_envelope (br_generation s) 0 (Mcp i r v)
           in case encode ser e of
                Inl err \<Rightarrow> Inl (Dvc (frame_error_str json err))
              | Inr _ \<Rightarrow> Inr e))"

datatype send_end = SendRefused sdk_error | SendFull | SendQueued

definition send_section :: "nat \<Rightarrow> 'v envelope \<Rightarrow> 'v bridge \<Rightarrow> send_end \<times> 'v bridge" where
  "send_section i e s =
     (if br_dead s \<or> \<not> attached_as i s then (SendRefused (Dvc (lit ''attachment closed'')), s)
      else if STREAM_DEPTH \<le> length (br_outgoing s) then (SendFull, s)
      else (SendQueued, s\<lparr>br_outgoing := br_outgoing s @ [e], br_data_ready := True\<rparr>))"

definition attachment_send ::
  "ustr \<Rightarrow> ('v envelope \<Rightarrow> u8 list option) \<Rightarrow> nat \<Rightarrow> nat \<Rightarrow> 'v \<Rightarrow> 'v bridge \<Rightarrow> (sdk_error + unit) \<times> 'v bridge" where
  "attachment_send json ser i r v s =
     (case send_checks json ser i r v s of
        Inl err \<Rightarrow> (Inl err, s)
      | Inr e \<Rightarrow>
          (case send_section i e s of
             (SendRefused err, s') \<Rightarrow> (Inl err, s')
           | (SendFull, s') \<Rightarrow>
               (Inl (Dvc (lit ''Cua outbound queue full'')), retire i (lit ''Cua outbound queue full'') s')
           | (SendQueued, s') \<Rightarrow> (Inr (), s')))"

text \<open>
  \<open>CuaAttachment::recv\<close>; \<open>None\<close> while it waits. The watch and the channel are dropped
  together, and the watch is polled first.
\<close>

definition attachment_recv :: "nat \<Rightarrow> 'v bridge \<Rightarrow> (sdk_error + 'v option) option \<times> 'v bridge" where
  "attachment_recv i s =
     (let c = br_streams s i
      in case sm_closed c of
           Some reason \<Rightarrow> (Some (Inl (Dvc reason)), s)
         | None \<Rightarrow>
             if \<not> sm_sender c then (Some (Inl (Dvc (lit ''bridge closed''))), s)
             else (case sm_queue c of
                     [] \<Rightarrow> (None, s)
                   | v # vs \<Rightarrow> (Some (Inr (Some v)), s\<lparr>br_streams := (br_streams s)(i := c\<lparr>sm_queue := vs\<rparr>)\<rparr>)))"

text \<open>The receiver of a dropped handle goes away.\<close>

definition reader_drops :: "nat \<Rightarrow> 'v bridge \<Rightarrow> 'v bridge" where
  "reader_drops i s = s\<lparr>br_streams := (br_streams s)(i := (br_streams s i)\<lparr>sm_reader := False\<rparr>)\<rparr>"

subsection \<open>The processor\<close>

definition bridge_start :: "'v bridge \<Rightarrow> 'v envelope \<times> 'v bridge" where
  "bridge_start s =
     (let s1 = take_attachment (lit ''bridge channel restarted'')
                 ((clear_pending (s\<lparr>br_ready := False\<rparr>))\<lparr>br_outgoing := []\<rparr>)
      in (new_envelope (br_generation s) 0 (Hello (br_bundle_id s)),
          s1\<lparr>br_stages := record_stage DvcChannelCreated (br_stages s1)\<rparr>))"

text \<open>\<open>pending.remove(control_id)\<close>, and the message to its caller.\<close>

definition deliver_reply :: "'v envelope \<Rightarrow> 'v bridge \<Rightarrow> 'v bridge" where
  "deliver_reply e s =
     (let i = env_control_id e
      in if i \<in> set (br_pending s)
         then s\<lparr>br_pending := filter (\<lambda>k. k \<noteq> i) (br_pending s),
                br_replies := (br_replies s)(i := SlotReplied (env_message e))\<rparr>
         else s)"

definition stream_accepts :: "'v stream \<Rightarrow> bool" where
  "stream_accepts c \<longleftrightarrow> sm_reader c \<and> length (sm_queue c) < STREAM_DEPTH"

definition push_stream :: "nat \<Rightarrow> 'v \<Rightarrow> 'v bridge \<Rightarrow> 'v bridge" where
  "push_stream i v s =
     s\<lparr>br_streams := (br_streams s)(i := (br_streams s i)\<lparr>sm_queue := sm_queue (br_streams s i) @ [v]\<rparr>)\<rparr>"

definition addressed :: "nat \<Rightarrow> nat \<Rightarrow> 'v bridge \<Rightarrow> bool" where
  "addressed i r s \<longleftrightarrow> br_attachment s = Some \<lparr>at_id = i, at_runtime = r\<rparr>"

text \<open>One frame; the second result is what goes back to the guest.\<close>

definition process_message :: "'v envelope \<Rightarrow> 'v bridge \<Rightarrow> 'v bridge \<times> 'v envelope list" where
  "process_message e s =
     (case env_message e of
        Ready bundle_id bridge_version \<Rightarrow>
          if bundle_id = br_bundle_id s
          then (deliver_reply e (s\<lparr>br_ready := True, br_stages := record_stage VersionReceived (br_stages s)\<rparr>), [])
          else (invalidate (lit ''rdpilot-bridge '' @ bridge_version @ lit '' runs bundle '' @ bundle_id
                  @ lit '', expected '' @ br_bundle_id s) s, [])
      | Opened i r \<Rightarrow> (deliver_reply e (set_runtime i r s), [])
      | Mcp i r v \<Rightarrow>
          if addressed i r s then
            if stream_accepts (br_streams s i) then (deliver_reply e (push_stream i v s), [])
            else (close_attachment_id i (lit ''Cua caller is not reading'') s,
                  [new_envelope (br_generation s) 0 (Close i (lit ''caller backpressure''))])
          else (deliver_reply e s, [])
      | Closed i reason \<Rightarrow> (close_attachment_id i reason s, [])
      | Pong \<Rightarrow> (deliver_reply e (s\<lparr>br_stages := record_stage PongReceived (br_stages s)\<rparr>), [])
      | _ \<Rightarrow> (deliver_reply e s, []))"

definition process_envelope :: "nat \<Rightarrow> 'v envelope \<Rightarrow> 'v bridge \<Rightarrow> 'v bridge \<times> 'v envelope list" where
  "process_envelope now e s =
     (if env_generation e \<noteq> br_generation s \<or> br_dead s then (s, [])
      else process_message e (s\<lparr>br_last_rx := Some now\<rparr>))"

fun process_frames :: "nat \<Rightarrow> 'v envelope list \<Rightarrow> 'v bridge \<Rightarrow> 'v bridge \<times> 'v envelope list" where
  "process_frames now [] s = (s, [])"
| "process_frames now (e # es) s =
     (let (s1, r1) = process_envelope now e s; (s2, r2) = process_frames now es s1 in (s2, r1 @ r2))"

text \<open>The decoding part of \<open>process\<close>: frames, or an error that ends the bridge.\<close>

definition decode_payload ::
  "ustr \<Rightarrow> (u8 list \<Rightarrow> 'v envelope option) \<Rightarrow> u8 list \<Rightarrow> 'v bridge \<times> decoder \<Rightarrow> 'v envelope list \<times> 'v bridge \<times> decoder" where
  "decode_payload json de payload sd =
     (case sd of (s, d) \<Rightarrow>
        (case push de d payload of
           (Inl err, d') \<Rightarrow> ([], invalidate (lit ''invalid bridge frame: '' @ frame_error_str json err) s, d')
         | (Inr frames, d') \<Rightarrow> (frames, s, d')))"

definition process_payload ::
  "ustr \<Rightarrow> (u8 list \<Rightarrow> 'v envelope option) \<Rightarrow> nat \<Rightarrow> u8 list \<Rightarrow> 'v bridge \<times> decoder
    \<Rightarrow> ('v bridge \<times> decoder) \<times> 'v envelope list" where
  "process_payload json de now payload sd =
     (case decode_payload json de payload sd of (frames, s, d) \<Rightarrow>
        (case process_frames now frames s of (s', responses) \<Rightarrow> ((s', d), responses)))"

definition processor_drops :: "'v bridge \<Rightarrow> 'v bridge" where
  "processor_drops s = invalidate (lit ''RDP bridge disconnected'') s"

subsection \<open>Steps\<close>

text \<open>
  The system around the shared state: the decoder, the decoded frames that wait for their
  section, the retirements between their two sections, and whether the loop is between a
  notification and its \<open>take\<close>. A label says what happened.
\<close>

record 'v bridge_system =
  bs_bridge :: "'v bridge"
  bs_decoder :: decoder
  bs_frames :: "'v envelope list"
  bs_retiring :: "(nat \<times> ustr) list"
  bs_data :: bool
  bs_retire :: bool

datatype 'v bridge_event =
    Asked "sdk_error + 'v envelope"
  | Answered nat "sdk_error + 'v message"
  | Framed "'v envelope"
  | Received nat "'v option"
  | Sent nat "'v envelope"
  | Passed "'v envelope"
  | RetiredTo "'v envelope"
  | Retired nat
  | Attached nat
  | OpenedAs nat nat
  | Silent

definition start_system :: "nat \<Rightarrow> ustr \<Rightarrow> 'v bridge_system" where
  "start_system generation bundle_id =
     \<lparr>bs_bridge = new_bridge generation bundle_id, bs_decoder = new_decoder, bs_frames = [],
      bs_retiring = [], bs_data = False, bs_retire = False\<rparr>"

definition on_bridge :: "('v bridge \<Rightarrow> 'v bridge) \<Rightarrow> 'v bridge_system \<Rightarrow> 'v bridge_system" where
  "on_bridge f y = y\<lparr>bs_bridge := f (bs_bridge y)\<rparr>"

abbreviation passed :: "('v envelope \<Rightarrow> 'v bridge_event) \<Rightarrow> 'v envelope option \<Rightarrow> 'v bridge_event" where
  "passed f x \<equiv> (case x of Some e \<Rightarrow> f e | None \<Rightarrow> Silent)"

inductive bridge_step ::
  "ustr \<Rightarrow> (u8 list \<Rightarrow> 'v envelope option) \<Rightarrow> 'v bridge_system \<Rightarrow> 'v bridge_event \<Rightarrow> 'v bridge_system \<Rightarrow> bool"
  for json de where
  Asks: "bridge_step json de y (Asked (fst (request_registers m (bs_bridge y))))
           (on_bridge (\<lambda>s. snd (request_registers m s)) y)"
| Answers: "br_replies (bs_bridge y) i \<noteq> SlotUnused \<Longrightarrow> request_answer en (br_replies (bs_bridge y) i) = Some r
     \<Longrightarrow> bridge_step json de y (Answered i r) (on_bridge (request_leaves i) y)"
| GivesUp: "br_replies (bs_bridge y) i \<noteq> SlotUnused \<Longrightarrow> bridge_step json de y Silent (on_bridge (request_leaves i) y)"
| Attaches: "attach_inserts (bs_bridge y) = (r, s)
     \<Longrightarrow> bridge_step json de y (case r of Inr i \<Rightarrow> Attached i | Inl _ \<Rightarrow> Silent) (y\<lparr>bs_bridge := s\<rparr>)"
| Opens: "attach_opened i m (bs_bridge y) = (r, s)
     \<Longrightarrow> bridge_step json de y (case r of Inr k \<Rightarrow> OpenedAs i k | Inl _ \<Rightarrow> Silent) (y\<lparr>bs_bridge := s\<rparr>)"
| Sends: "e = new_envelope (br_generation (bs_bridge y)) 0 (Mcp i r v) \<Longrightarrow> send_section i e (bs_bridge y) = (SendQueued, s)
     \<Longrightarrow> bridge_step json de y (Sent i e) (y\<lparr>bs_bridge := s\<rparr>)"
| Receives: "attachment_recv i (bs_bridge y) = (Some (Inr v), s)
     \<Longrightarrow> bridge_step json de y (Received i v) (y\<lparr>bs_bridge := s\<rparr>)"
| RetireStarts: "i < br_next (bs_bridge y) \<Longrightarrow> bridge_step json de y Silent
     ((on_bridge (close_attachment_id i reason) y)\<lparr>bs_retiring := (i, reason) # bs_retiring y\<rparr>)"
| RetireEnds: "(i, reason) \<in> set (bs_retiring y) \<Longrightarrow> bridge_step json de y (Retired i)
     ((on_bridge (retire_section i reason) y)\<lparr>bs_retiring := remove1 (i, reason) (bs_retiring y)\<rparr>)"
| ReaderDrops: "\<not> attached_as i (bs_bridge y) \<Longrightarrow> bridge_step json de y Silent (on_bridge (reader_drops i) y)"
| DataNotified: "br_data_ready (bs_bridge y) \<Longrightarrow> bridge_step json de y Silent
     ((on_bridge (\<lambda>s. s\<lparr>br_data_ready := False\<rparr>) y)\<lparr>bs_data := True\<rparr>)"
| TakesData: "bs_data y \<Longrightarrow> bridge_step json de y (passed Passed (fst (take_data (bs_bridge y))))
     ((on_bridge (\<lambda>s. snd (take_data s)) y)\<lparr>bs_data := False\<rparr>)"
| RetireNotified: "br_retire_ready (bs_bridge y) \<Longrightarrow> bridge_step json de y Silent
     ((on_bridge (\<lambda>s. s\<lparr>br_retire_ready := False\<rparr>) y)\<lparr>bs_retire := True\<rparr>)"
| TakesRetire: "bs_retire y \<Longrightarrow> bridge_step json de y (passed RetiredTo (fst (take_retire (bs_bridge y))))
     ((on_bridge (\<lambda>s. snd (take_retire s)) y)\<lparr>bs_retire := False\<rparr>)"
| Ticks: "bridge_step json de y Silent (on_bridge (check_liveness now) y)"
| ChannelStarts: "bs_frames y = [] \<Longrightarrow> bridge_step json de y Silent (on_bridge (\<lambda>s. snd (bridge_start s)) y)"
| Payload: "bs_frames y = [] \<Longrightarrow> decode_payload json de bytes (bs_bridge y, bs_decoder y) = (frames, s, d)
     \<Longrightarrow> bridge_step json de y Silent (y\<lparr>bs_bridge := s, bs_decoder := d, bs_frames := frames\<rparr>)"
| Frame: "bs_frames y = e # es \<Longrightarrow> bridge_step json de y (Framed e)
     ((on_bridge (\<lambda>s. fst (process_envelope now e s)) y)\<lparr>bs_frames := es\<rparr>)"
| StopsBridge: "bridge_step json de y Silent (on_bridge (bridge_stop reason) y)"
| ProcessorDrops: "bridge_step json de y Silent (on_bridge processor_drops y)"

text \<open>The reachable systems with what has happened, the newest event last.\<close>

inductive bridge_trace ::
  "ustr \<Rightarrow> (u8 list \<Rightarrow> 'v envelope option) \<Rightarrow> nat \<Rightarrow> ustr \<Rightarrow> 'v bridge_event list \<Rightarrow> 'v bridge_system \<Rightarrow> bool"
  for json de generation bundle_id where
  Started: "bridge_trace json de generation bundle_id [] (start_system generation bundle_id)"
| Stepped: "bridge_trace json de generation bundle_id tr y \<Longrightarrow> bridge_step json de y ev y'
     \<Longrightarrow> bridge_trace json de generation bundle_id (tr @ [ev]) y'"

end
