(* ===== verification/Bridge_Promises.thy ===== *)
theory Bridge_Promises
  imports Bridge_Channel "HOL-Library.Sublist"
begin

text \<open>
  Invariants of the bridge channel and what they give: bounds, the end of everything with
  the bridge, replies that belong to their request, a stream in the guest's order, no lost
  notification, and retirements that reach the guest.
\<close>

subsection \<open>The invariant\<close>

text \<open>Requests: who waits is registered, and the register is bounded.\<close>

definition requests_ok :: "'v bridge \<Rightarrow> bool" where
  "requests_ok s \<longleftrightarrow> distinct (br_pending s) \<and> length (br_pending s) \<le> PENDING_LIMIT
     \<and> (\<forall>i. i \<in> set (br_pending s) \<longleftrightarrow> br_replies s i = SlotWaiting)
     \<and> (\<forall>i. br_next s \<le> i \<longrightarrow> br_replies s i = SlotUnused)"

definition stream_ok :: "'v stream \<Rightarrow> bool" where
  "stream_ok c \<longleftrightarrow> length (sm_queue c) \<le> STREAM_DEPTH \<and> (sm_sender c \<longrightarrow> sm_closed c = None)
     \<and> (\<not> sm_sender c \<and> sm_closed c = None \<longrightarrow> sm_queue c = [])"

text \<open>Attachments: the sending end of a stream is in the shared state or dropped.\<close>

definition attachments_ok :: "'v bridge \<Rightarrow> bool" where
  "attachments_ok s \<longleftrightarrow> (\<forall>i. stream_ok (br_streams s i))
     \<and> (\<forall>i. sm_sender (br_streams s i) \<longleftrightarrow> attached_as i s)
     \<and> (\<forall>i. br_next s \<le> i \<longrightarrow> br_streams s i = no_stream)"

text \<open>The end: a bridge that is dead keeps nothing alive.\<close>

definition ends_ok :: "'v bridge \<Rightarrow> bool" where
  "ends_ok s \<longleftrightarrow> (br_dead s \<longleftrightarrow> br_failure s \<noteq> None)
     \<and> (br_dead s \<longrightarrow> \<not> br_ready s \<and> br_pending s = [] \<and> br_outgoing s = []
         \<and> (\<forall>i. sm_closed (br_streams s i) = None \<longrightarrow> sm_queue (br_streams s i) = []))"

definition mcp_envelope :: "nat \<Rightarrow> 'v envelope \<Rightarrow> bool" where
  "mcp_envelope g e \<longleftrightarrow> env_generation e = g \<and> (\<exists>i r v. env_message e = Mcp i r v)"

definition close_envelope :: "nat \<Rightarrow> 'v envelope \<Rightarrow> bool" where
  "close_envelope g e \<longleftrightarrow> env_generation e = g \<and> (\<exists>i reason. env_message e = Close i reason)"

lemma envelope_kinds [simp]:
  "mcp_envelope g (new_envelope g n (Mcp i r v))" "close_envelope g (new_envelope g n (Close i reason))"
  by (simp_all add: mcp_envelope_def close_envelope_def new_envelope_def)

definition outgoing_ok :: "'v bridge \<Rightarrow> bool" where
  "outgoing_ok s \<longleftrightarrow> length (br_outgoing s) \<le> STREAM_DEPTH
     \<and> list_all (mcp_envelope (br_generation s)) (br_outgoing s)
     \<and> pred_option (close_envelope (br_generation s)) (br_retire s)"

definition bridge_ok :: "'v bridge \<Rightarrow> bool" where
  "bridge_ok s \<longleftrightarrow> requests_ok s \<and> attachments_ok s \<and> ends_ok s \<and> outgoing_ok s"

lemmas bridge_ok_defs = bridge_ok_def requests_ok_def attachments_ok_def ends_ok_def outgoing_ok_def stream_ok_def
  attached_as_def no_stream_def

lemma requests_ok_frame [simp]:
  "requests_ok (s\<lparr>br_ready := x0\<rparr>) = requests_ok s"
  "requests_ok (s\<lparr>br_failure := x1\<rparr>) = requests_ok s"
  "requests_ok (s\<lparr>br_last_rx := x2\<rparr>) = requests_ok s"
  "requests_ok (s\<lparr>br_dead := x3\<rparr>) = requests_ok s"
  "requests_ok (s\<lparr>br_attachment := x4\<rparr>) = requests_ok s"
  "requests_ok (s\<lparr>br_outgoing := x5\<rparr>) = requests_ok s"
  "requests_ok (s\<lparr>br_retire := x6\<rparr>) = requests_ok s"
  "requests_ok (s\<lparr>br_stages := x7\<rparr>) = requests_ok s"
  "requests_ok (s\<lparr>br_streams := x8\<rparr>) = requests_ok s"
  "requests_ok (s\<lparr>br_shutdown := x9\<rparr>) = requests_ok s"
  "requests_ok (s\<lparr>br_data_ready := x10\<rparr>) = requests_ok s"
  "requests_ok (s\<lparr>br_retire_ready := x11\<rparr>) = requests_ok s"
  by (simp_all add: requests_ok_def attached_as_def)

lemma attachments_ok_frame [simp]:
  "attachments_ok (s\<lparr>br_ready := x0\<rparr>) = attachments_ok s"
  "attachments_ok (s\<lparr>br_failure := x1\<rparr>) = attachments_ok s"
  "attachments_ok (s\<lparr>br_last_rx := x2\<rparr>) = attachments_ok s"
  "attachments_ok (s\<lparr>br_dead := x3\<rparr>) = attachments_ok s"
  "attachments_ok (s\<lparr>br_pending := x4\<rparr>) = attachments_ok s"
  "attachments_ok (s\<lparr>br_outgoing := x5\<rparr>) = attachments_ok s"
  "attachments_ok (s\<lparr>br_retire := x6\<rparr>) = attachments_ok s"
  "attachments_ok (s\<lparr>br_stages := x7\<rparr>) = attachments_ok s"
  "attachments_ok (s\<lparr>br_replies := x8\<rparr>) = attachments_ok s"
  "attachments_ok (s\<lparr>br_shutdown := x9\<rparr>) = attachments_ok s"
  "attachments_ok (s\<lparr>br_data_ready := x10\<rparr>) = attachments_ok s"
  "attachments_ok (s\<lparr>br_retire_ready := x11\<rparr>) = attachments_ok s"
  by (simp_all add: attachments_ok_def attached_as_def)

lemma ends_ok_frame [simp]:
  "ends_ok (s\<lparr>br_next := x0\<rparr>) = ends_ok s"
  "ends_ok (s\<lparr>br_last_rx := x1\<rparr>) = ends_ok s"
  "ends_ok (s\<lparr>br_attachment := x2\<rparr>) = ends_ok s"
  "ends_ok (s\<lparr>br_retire := x3\<rparr>) = ends_ok s"
  "ends_ok (s\<lparr>br_stages := x4\<rparr>) = ends_ok s"
  "ends_ok (s\<lparr>br_replies := x5\<rparr>) = ends_ok s"
  "ends_ok (s\<lparr>br_shutdown := x6\<rparr>) = ends_ok s"
  "ends_ok (s\<lparr>br_data_ready := x7\<rparr>) = ends_ok s"
  "ends_ok (s\<lparr>br_retire_ready := x8\<rparr>) = ends_ok s"
  by (simp_all add: ends_ok_def attached_as_def)

lemma outgoing_ok_frame [simp]:
  "outgoing_ok (s\<lparr>br_next := x0\<rparr>) = outgoing_ok s"
  "outgoing_ok (s\<lparr>br_ready := x1\<rparr>) = outgoing_ok s"
  "outgoing_ok (s\<lparr>br_failure := x2\<rparr>) = outgoing_ok s"
  "outgoing_ok (s\<lparr>br_last_rx := x3\<rparr>) = outgoing_ok s"
  "outgoing_ok (s\<lparr>br_dead := x4\<rparr>) = outgoing_ok s"
  "outgoing_ok (s\<lparr>br_pending := x5\<rparr>) = outgoing_ok s"
  "outgoing_ok (s\<lparr>br_attachment := x6\<rparr>) = outgoing_ok s"
  "outgoing_ok (s\<lparr>br_stages := x7\<rparr>) = outgoing_ok s"
  "outgoing_ok (s\<lparr>br_replies := x8\<rparr>) = outgoing_ok s"
  "outgoing_ok (s\<lparr>br_streams := x9\<rparr>) = outgoing_ok s"
  "outgoing_ok (s\<lparr>br_shutdown := x10\<rparr>) = outgoing_ok s"
  "outgoing_ok (s\<lparr>br_data_ready := x11\<rparr>) = outgoing_ok s"
  "outgoing_ok (s\<lparr>br_retire_ready := x12\<rparr>) = outgoing_ok s"
  by (simp_all add: outgoing_ok_def attached_as_def)

lemma bridge_ok_new: "bridge_ok (new_bridge g b)"
  by (simp add: bridge_ok_defs new_bridge_def)

lemma attached_sends:
  assumes "attachments_ok s" and "br_attachment s = Some a"
  shows "sm_sender (br_streams s (at_id a))" and "at_id a < br_next s"
proof -
  show snd: "sm_sender (br_streams s (at_id a))" using assms by (simp add: attachments_ok_def attached_as_def)
  show "at_id a < br_next s"
  proof (rule ccontr)
    assume "\<not> at_id a < br_next s"
    then have "br_streams s (at_id a) = no_stream" using assms(1) by (simp add: attachments_ok_def)
    with snd show False by (simp add: no_stream_def)
  qed
qed

lemma attachments_ok_take:
  assumes "attachments_ok s"
  shows "attachments_ok (take_attachment reason s)"
proof (cases "br_attachment s")
  case (Some a)
  then show ?thesis using assms attached_sends [OF assms Some]
    by (auto simp: take_attachment_def close_stream_def attachments_ok_def stream_ok_def attached_as_def)
qed (simp add: take_attachment_def assms)

lemma take_unattached [simp]: "br_attachment (take_attachment reason s) = None"
  by (simp add: take_attachment_def split: option.split)

lemma take_fields [simp]:
  "br_generation (take_attachment reason s) = br_generation s"
  "br_bundle_id (take_attachment reason s) = br_bundle_id s"
  "br_next (take_attachment reason s) = br_next s"
  "br_ready (take_attachment reason s) = br_ready s"
  "br_failure (take_attachment reason s) = br_failure s"
  "br_dead (take_attachment reason s) = br_dead s"
  "br_pending (take_attachment reason s) = br_pending s"
  "br_outgoing (take_attachment reason s) = br_outgoing s"
  "br_retire (take_attachment reason s) = br_retire s"
  "br_replies (take_attachment reason s) = br_replies s"
  "br_stages (take_attachment reason s) = br_stages s"
  "br_data_ready (take_attachment reason s) = br_data_ready s"
  "br_retire_ready (take_attachment reason s) = br_retire_ready s"
  by (simp_all add: take_attachment_def split: option.split)

lemma take_queue [simp]: "sm_queue (br_streams (take_attachment reason s) i) = sm_queue (br_streams s i)"
  by (simp add: take_attachment_def close_stream_def split: option.split)

lemma take_closed:
  "attachments_ok s \<Longrightarrow> sm_closed (br_streams (take_attachment reason s) i) = None \<Longrightarrow> sm_queue (br_streams s i) = []"
  by (cases "br_attachment s")
    (auto simp: take_attachment_def close_stream_def attachments_ok_def stream_ok_def attached_as_def split: if_splits)

lemma bridge_ok_take [simp]:
  assumes "bridge_ok s"
  shows "bridge_ok (take_attachment reason s)"
proof -
  have a: "attachments_ok s" using assms by (simp add: bridge_ok_def)
  show ?thesis using assms attachments_ok_take [OF a] take_closed [OF a]
    by (simp add: bridge_ok_def requests_ok_def ends_ok_def outgoing_ok_def)
qed

lemma bridge_ok_close [simp]: "bridge_ok s \<Longrightarrow> bridge_ok (close_attachment_id i reason s)"
  by (simp add: close_attachment_id_def)

lemma attachments_ok_clear [simp]: "attachments_ok (clear_pending s) = attachments_ok s"
  by (simp add: clear_pending_def)

lemma clear_pending_frame:
  "clear_pending (s\<lparr>br_ready := r\<rparr>) = (clear_pending s)\<lparr>br_ready := r\<rparr>"
  "clear_pending (s\<lparr>br_dead := d\<rparr>) = (clear_pending s)\<lparr>br_dead := d\<rparr>"
  "clear_pending (s\<lparr>br_failure := f\<rparr>) = (clear_pending s)\<lparr>br_failure := f\<rparr>"
  by (simp_all add: clear_pending_def cong: if_cong)

lemma requests_ok_clear: "requests_ok s \<Longrightarrow> requests_ok (clear_pending s)"
  by (auto simp: requests_ok_def clear_pending_def)

lemma bridge_ok_invalidate [simp]:
  assumes "bridge_ok s"
  shows "bridge_ok (invalidate reason s)"
proof -
  let ?s = "(clear_pending (s\<lparr>br_failure := Some reason, br_dead := True, br_ready := False\<rparr>))\<lparr>br_outgoing := []\<rparr>"
  have a: "attachments_ok ?s" using assms by (simp add: bridge_ok_def)
  have "requests_ok (clear_pending s)" using assms by (simp add: bridge_ok_def requests_ok_clear)
  then have "requests_ok ?s" by (simp add: clear_pending_frame)
  then have "requests_ok (take_attachment reason ?s)" unfolding requests_ok_def by simp
  moreover have "ends_ok (take_attachment reason ?s)"
    using take_closed [OF a] by (simp add: ends_ok_def clear_pending_def)
  moreover have "outgoing_ok (take_attachment reason ?s)"
    using assms by (simp add: bridge_ok_def outgoing_ok_def clear_pending_def)
  ultimately show ?thesis using attachments_ok_take [OF a] by (simp add: bridge_ok_def invalidate_def)
qed

lemma bridge_ok_stop: "bridge_ok s \<Longrightarrow> bridge_ok (bridge_stop reason s)"
  using bridge_ok_invalidate [of s reason] by (simp add: bridge_stop_def bridge_ok_def)

lemma bridge_ok_liveness: "bridge_ok s \<Longrightarrow> bridge_ok (check_liveness now s)"
  by (simp add: check_liveness_def)

lemma bridge_ok_start:
  assumes "bridge_ok s"
  shows "bridge_ok (snd (bridge_start s))"
proof -
  have "ends_ok ((clear_pending s)\<lparr>br_ready := False, br_outgoing := []\<rparr>)"
    using assms by (auto simp: bridge_ok_def ends_ok_def clear_pending_def)
  then have "bridge_ok ((clear_pending s)\<lparr>br_ready := False, br_outgoing := []\<rparr>)"
    using assms requests_ok_clear [of s] by (simp add: bridge_ok_def outgoing_ok_def clear_pending_def)
  then have "bridge_ok ((clear_pending (s\<lparr>br_ready := False\<rparr>))\<lparr>br_outgoing := []\<rparr>)"
    by (simp add: clear_pending_frame)
  then have "bridge_ok (take_attachment (lit ''bridge channel restarted'') ((clear_pending (s\<lparr>br_ready := False\<rparr>))\<lparr>br_outgoing := []\<rparr>))"
    by simp
  then show ?thesis by (simp add: bridge_start_def Let_def bridge_ok_def)
qed

lemma requests_ok_registers:
  "requests_ok s \<Longrightarrow> length (br_pending s) < PENDING_LIMIT \<Longrightarrow>
   requests_ok (s\<lparr>br_next := br_next s + 1, br_pending := br_pending s @ [br_next s],
     br_replies := (br_replies s)(br_next s := SlotWaiting)\<rparr>)"
  by (auto simp: requests_ok_def)

lemma next_grows:
  "requests_ok s \<Longrightarrow> requests_ok (s\<lparr>br_next := Suc (br_next s)\<rparr>)"
  "attachments_ok s \<Longrightarrow> attachments_ok (s\<lparr>br_next := Suc (br_next s)\<rparr>)"
  by (simp_all add: requests_ok_def attachments_ok_def attached_as_def)

lemma bridge_ok_registers: "bridge_ok s \<Longrightarrow> bridge_ok (snd (request_registers m s))"
  using requests_ok_registers [of s] next_grows [of s]
  by (auto simp: request_registers_def Let_def bridge_ok_def ends_ok_def)

lemma requests_ok_removes:
  assumes "requests_ok s" and "r \<noteq> SlotWaiting" and "br_next s \<le> i \<Longrightarrow> r = SlotUnused"
  shows "requests_ok (s\<lparr>br_pending := filter (\<lambda>k. k \<noteq> i) (br_pending s), br_replies := (br_replies s)(i := r)\<rparr>)"
  using assms by (auto simp: requests_ok_def intro: le_trans [OF length_filter_le])

lemma bridge_ok_leaves: "bridge_ok s \<Longrightarrow> bridge_ok (request_leaves i s)"
  using requests_ok_removes [of s SlotUnused i] by (simp add: request_leaves_def bridge_ok_def ends_ok_def)

lemma attachments_ok_inserts:
  "attachments_ok s \<Longrightarrow> br_attachment s = None \<Longrightarrow> attachments_ok (s\<lparr>br_next := Suc (br_next s),
     br_attachment := Some \<lparr>at_id = br_next s, at_runtime = 0\<rparr>,
     br_streams := (br_streams s)(br_next s := \<lparr>sm_queue = [], sm_sender = True, sm_closed = None, sm_reader = True\<rparr>)\<rparr>)"
  by (auto simp: attachments_ok_def attached_as_def stream_ok_def)

lemma bridge_ok_inserts: "bridge_ok s \<Longrightarrow> attach_inserts s = (r, s') \<Longrightarrow> bridge_ok s'"
  using attachments_ok_inserts [of s] next_grows [of s]
  by (auto simp: attach_inserts_def Let_def bridge_ok_def ends_ok_def split: if_splits)

lemma bridge_ok_runtime [simp]: "bridge_ok s \<Longrightarrow> bridge_ok (set_runtime i r s)"
  by (auto simp: set_runtime_def bridge_ok_def attachments_ok_def attached_as_def)

lemma bridge_ok_opened: "bridge_ok s \<Longrightarrow> attach_opened i m s = (r, s') \<Longrightarrow> bridge_ok s'"
  by (cases m) (auto simp: attach_opened_def split: if_splits)

lemma bridge_ok_send:
  "bridge_ok s \<Longrightarrow> send_section i (new_envelope (br_generation s) 0 (Mcp i r v)) s = (x, s') \<Longrightarrow> bridge_ok s'"
  by (auto simp: send_section_def bridge_ok_def outgoing_ok_def ends_ok_def STREAM_DEPTH_def split: if_splits)

lemma stream_ok_reads:
  "stream_ok c \<Longrightarrow> sm_queue c = v # vs \<Longrightarrow> stream_ok (c\<lparr>sm_queue := vs\<rparr>)"
  by (auto simp: stream_ok_def)

lemma bridge_ok_stream:
  assumes "bridge_ok s" and "stream_ok c" and "sm_sender c = sm_sender (br_streams s i)"
    and "br_next s \<le> i \<Longrightarrow> c = no_stream" and "br_dead s \<Longrightarrow> sm_closed c = None \<Longrightarrow> sm_queue c = []"
  shows "bridge_ok (s\<lparr>br_streams := (br_streams s)(i := c)\<rparr>)"
  using assms by (auto simp: bridge_ok_def attachments_ok_def ends_ok_def attached_as_def)

lemma bridge_ok_recv:
  assumes ok: "bridge_ok s" and r: "attachment_recv i s = (x, s')"
  shows "bridge_ok s'"
proof (cases "s' = s")
  case False
  then obtain v vs where q: "sm_queue (br_streams s i) = v # vs" "sm_closed (br_streams s i) = None"
    and s': "s' = s\<lparr>br_streams := (br_streams s)(i := (br_streams s i)\<lparr>sm_queue := vs\<rparr>)\<rparr>"
    using r by (auto simp: attachment_recv_def Let_def split: option.splits list.splits if_splits)
  have "stream_ok (br_streams s i)" using ok by (simp add: bridge_ok_def attachments_ok_def)
  moreover have "br_streams s i \<noteq> no_stream" using q by (auto simp: no_stream_def)
  ultimately show ?thesis unfolding s' using ok q stream_ok_reads [of "br_streams s i" v vs]
    by (intro bridge_ok_stream) (auto simp: bridge_ok_def attachments_ok_def ends_ok_def)
qed (use ok in simp)

lemma bridge_ok_reader: "bridge_ok s \<Longrightarrow> bridge_ok (reader_drops i s)"
  unfolding reader_drops_def
  by (rule bridge_ok_stream) (auto simp: bridge_ok_def attachments_ok_def stream_ok_def ends_ok_def no_stream_def)

lemma bridge_ok_retire: "bridge_ok s \<Longrightarrow> bridge_ok (retire_section i reason s)"
  by (auto simp: retire_section_def bridge_ok_def outgoing_ok_def ends_ok_def list_all_iff
      intro: le_trans [OF length_filter_le])

lemma bridge_ok_take_data: "bridge_ok s \<Longrightarrow> bridge_ok (snd (take_data s))"
  by (auto simp: take_data_def bridge_ok_def outgoing_ok_def ends_ok_def split: list.split)

lemma bridge_ok_take_retire: "bridge_ok s \<Longrightarrow> bridge_ok (snd (take_retire s))"
  by (auto simp: take_retire_def bridge_ok_def outgoing_ok_def)

lemma bridge_ok_flags [simp]:
  "bridge_ok (s\<lparr>br_data_ready := b\<rparr>) = bridge_ok s"
  "bridge_ok (s\<lparr>br_retire_ready := b\<rparr>) = bridge_ok s"
  "bridge_ok (s\<lparr>br_stages := st\<rparr>) = bridge_ok s"
  "bridge_ok (s\<lparr>br_last_rx := t\<rparr>) = bridge_ok s"
  by (simp_all add: bridge_ok_def)

lemma bridge_ok_reply [simp]:
  assumes "bridge_ok s"
  shows "bridge_ok (deliver_reply e s)"
proof (cases "env_control_id e \<in> set (br_pending s)")
  case True
  with assms have "\<not> br_next s \<le> env_control_id e" by (auto simp: bridge_ok_def requests_ok_def)
  with assms show ?thesis
    using requests_ok_removes [of s "SlotReplied (env_message e)" "env_control_id e"]
    by (simp add: deliver_reply_def Let_def bridge_ok_def ends_ok_def)
qed (simp add: deliver_reply_def Let_def assms)

lemma bridge_ok_push:
  assumes "bridge_ok s" "addressed i r s" "stream_accepts (br_streams s i)" "\<not> br_dead s"
  shows "bridge_ok (push_stream i v s)"
proof -
  have "attached_as i s" using assms(2) by (simp add: addressed_def attached_as_def)
  then have "sm_sender (br_streams s i)" using assms(1) by (simp add: bridge_ok_def attachments_ok_def)
  then show ?thesis using assms unfolding push_stream_def
    by (intro bridge_ok_stream) (auto simp: bridge_ok_def attachments_ok_def stream_ok_def stream_accepts_def STREAM_DEPTH_def no_stream_def)
qed

lemma bridge_ok_ready: "bridge_ok s \<Longrightarrow> \<not> br_dead s \<Longrightarrow> bridge_ok (s\<lparr>br_ready := True\<rparr>)"
  by (simp add: bridge_ok_def ends_ok_def)

lemma bridge_ok_message:
  assumes "bridge_ok s" and "\<not> br_dead s"
  shows "bridge_ok (fst (process_message e s))"
  using assms bridge_ok_ready [OF assms]
  by (cases "env_message e") (simp_all add: process_message_def bridge_ok_push)

lemma bridge_ok_envelope: "bridge_ok s \<Longrightarrow> bridge_ok (fst (process_envelope now e s))"
  by (simp add: process_envelope_def bridge_ok_message)

lemma bridge_ok_decode: "bridge_ok s \<Longrightarrow> decode_payload json de bytes (s, d) = (frames, s', d') \<Longrightarrow> bridge_ok s'"
  by (auto simp: decode_payload_def split: prod.splits sum.splits)

lemmas bridge_ok_ops = bridge_ok_new bridge_ok_stop bridge_ok_liveness bridge_ok_start bridge_ok_registers
  bridge_ok_leaves bridge_ok_reader bridge_ok_retire bridge_ok_take_data
  bridge_ok_take_retire bridge_ok_envelope bridge_ok_push

lemma bridge_ok_step: "bridge_step json de y ev y' \<Longrightarrow> bridge_ok (bs_bridge y) \<Longrightarrow> bridge_ok (bs_bridge y')"
  by (induction rule: bridge_step.induct)
    (auto simp: on_bridge_def bridge_ok_ops processor_drops_def
      dest: bridge_ok_send bridge_ok_recv bridge_ok_decode bridge_ok_inserts bridge_ok_opened)

lemma bridge_ok_trace: "bridge_trace json de g b tr y \<Longrightarrow> bridge_ok (bs_bridge y)"
  by (induction rule: bridge_trace.induct) (simp_all add: start_system_def bridge_ok_new bridge_ok_step)

subsection \<open>What never changes back\<close>

lemma invalidate_fields [simp]:
  "br_generation (invalidate reason s) = br_generation s" "br_bundle_id (invalidate reason s) = br_bundle_id s"
  "br_next (invalidate reason s) = br_next s" "br_dead (invalidate reason s)" "\<not> br_ready (invalidate reason s)"
  "br_retire (invalidate reason s) = br_retire s" "br_attachment (invalidate reason s) = None"
  "br_outgoing (invalidate reason s) = []" "br_pending (invalidate reason s) = []"
  "br_failure (invalidate reason s) = Some reason" "br_retire_ready (invalidate reason s) = br_retire_ready s"
  by (simp_all add: invalidate_def clear_pending_def)

lemma close_fields [simp]:
  "br_generation (close_attachment_id i reason s) = br_generation s"
  "br_bundle_id (close_attachment_id i reason s) = br_bundle_id s"
  "br_next (close_attachment_id i reason s) = br_next s" "br_dead (close_attachment_id i reason s) = br_dead s"
  "br_ready (close_attachment_id i reason s) = br_ready s" "br_retire (close_attachment_id i reason s) = br_retire s"
  "br_outgoing (close_attachment_id i reason s) = br_outgoing s" "br_pending (close_attachment_id i reason s) = br_pending s"
  "br_replies (close_attachment_id i reason s) = br_replies s"
  "br_data_ready (close_attachment_id i reason s) = br_data_ready s"
  "br_retire_ready (close_attachment_id i reason s) = br_retire_ready s"
  by (simp_all add: close_attachment_id_def)

lemma reply_fields [simp]:
  "br_generation (deliver_reply e s) = br_generation s" "br_bundle_id (deliver_reply e s) = br_bundle_id s"
  "br_next (deliver_reply e s) = br_next s" "br_dead (deliver_reply e s) = br_dead s"
  "br_ready (deliver_reply e s) = br_ready s" "br_retire (deliver_reply e s) = br_retire s"
  "br_outgoing (deliver_reply e s) = br_outgoing s" "br_streams (deliver_reply e s) = br_streams s"
  "br_attachment (deliver_reply e s) = br_attachment s"
  "br_data_ready (deliver_reply e s) = br_data_ready s" "br_retire_ready (deliver_reply e s) = br_retire_ready s"
  by (simp_all add: deliver_reply_def Let_def)

lemma runtime_fields [simp]:
  "br_generation (set_runtime i r s) = br_generation s" "br_bundle_id (set_runtime i r s) = br_bundle_id s"
  "br_next (set_runtime i r s) = br_next s" "br_dead (set_runtime i r s) = br_dead s"
  "br_ready (set_runtime i r s) = br_ready s" "br_retire (set_runtime i r s) = br_retire s"
  "br_outgoing (set_runtime i r s) = br_outgoing s" "br_streams (set_runtime i r s) = br_streams s"
  "br_pending (set_runtime i r s) = br_pending s" "br_replies (set_runtime i r s) = br_replies s"
  "br_data_ready (set_runtime i r s) = br_data_ready s" "br_retire_ready (set_runtime i r s) = br_retire_ready s"
  by (simp_all add: set_runtime_def)

lemma push_fields [simp]:
  "br_generation (push_stream i v s) = br_generation s" "br_bundle_id (push_stream i v s) = br_bundle_id s"
  "br_next (push_stream i v s) = br_next s" "br_dead (push_stream i v s) = br_dead s"
  "br_ready (push_stream i v s) = br_ready s" "br_retire (push_stream i v s) = br_retire s"
  "br_outgoing (push_stream i v s) = br_outgoing s"
  "br_pending (push_stream i v s) = br_pending s" "br_replies (push_stream i v s) = br_replies s"
  "br_data_ready (push_stream i v s) = br_data_ready s" "br_retire_ready (push_stream i v s) = br_retire_ready s"
  by (simp_all add: push_stream_def)

lemmas bridge_ops = request_registers_def request_leaves_def attach_inserts_def attach_opened_def send_section_def
  attachment_recv_def reader_drops_def retire_section_def take_data_def take_retire_def check_liveness_def
  bridge_start_def decode_payload_def bridge_stop_def processor_drops_def process_envelope_def on_bridge_def

text \<open>Identity and counter; a dead bridge stays dead.\<close>

definition grows :: "'v bridge \<Rightarrow> 'v bridge \<Rightarrow> bool" where
  "grows s s' \<longleftrightarrow> br_generation s' = br_generation s \<and> br_bundle_id s' = br_bundle_id s \<and> br_next s \<le> br_next s'
     \<and> (br_dead s \<longrightarrow> br_dead s')"

lemma grows_message: "grows s (fst (process_message e s))"
  by (cases "env_message e") (simp_all add: process_message_def grows_def)

lemma grows_step: "bridge_step json de y ev y' \<Longrightarrow> grows (bs_bridge y) (bs_bridge y')"
proof (induction rule: bridge_step.induct)
  case (Frame y e es now)
  then show ?case using grows_message [of "bs_bridge y\<lparr>br_last_rx := Some now\<rparr>" e]
    by (simp add: process_envelope_def on_bridge_def grows_def)
qed (auto simp: bridge_ops grows_def Let_def clear_pending_def
    split: list.splits option.splits message.splits sum.splits prod.splits if_splits)

lemma identity_trace:
  "bridge_trace json de g b tr y \<Longrightarrow> br_generation (bs_bridge y) = g \<and> br_bundle_id (bs_bridge y) = b"
proof (induction rule: bridge_trace.induct)
  case (Stepped tr y ev y')
  then show ?case using grows_step [of json de y ev y'] by (simp add: grows_def)
qed (simp add: start_system_def new_bridge_def)

subsection \<open>The end\<close>



lemma ready_step:
  "bridge_step json de y ev y' \<Longrightarrow> br_ready (bs_bridge y') \<Longrightarrow> br_ready (bs_bridge y)
    \<or> (\<exists>e v. ev = Framed e \<and> env_generation e = br_generation (bs_bridge y) \<and> env_message e = Ready (br_bundle_id (bs_bridge y)) v)"
proof (induction rule: bridge_step.induct)
  case (Frame y e es now)
  then show ?case
    by (cases "env_message e") (auto simp: on_bridge_def process_envelope_def process_message_def split: if_splits)
qed (auto simp: bridge_ops Let_def clear_pending_def
    split: list.splits option.splits message.splits sum.splits prod.splits if_splits)

text \<open>
  The bridge is ready only after the guest said, in a frame of this generation, that it
  runs the bundle of this session; a guest that runs another one ends the bridge.
\<close>

theorem ready_names_the_bundle:
  assumes "bridge_trace json de g b tr y"
  shows "(br_ready (bs_bridge y) \<longrightarrow>
      (\<exists>e v. Framed e \<in> set tr \<and> env_generation e = g \<and> env_message e = Ready b v))
    \<and> (\<forall>e v b'. bs_frames y \<noteq> [] \<longrightarrow> hd (bs_frames y) = e \<longrightarrow> env_generation e = g \<longrightarrow> env_message e = Ready b' v \<longrightarrow>
        b' \<noteq> b \<longrightarrow> br_dead (fst (process_envelope now e (bs_bridge y))))"
proof
  show "br_ready (bs_bridge y) \<longrightarrow> (\<exists>e v. Framed e \<in> set tr \<and> env_generation e = g \<and> env_message e = Ready b v)"
    using assms
  proof (induction rule: bridge_trace.induct)
    case (Stepped tr y ev y')
    show ?case
      using ready_step [OF Stepped(2)] Stepped(3) identity_trace [OF Stepped(1)] by auto
  qed (simp add: start_system_def new_bridge_def)
  show "\<forall>e v b'. bs_frames y \<noteq> [] \<longrightarrow> hd (bs_frames y) = e \<longrightarrow> env_generation e = g \<longrightarrow> env_message e = Ready b' v \<longrightarrow>
        b' \<noteq> b \<longrightarrow> br_dead (fst (process_envelope now e (bs_bridge y)))"
    using identity_trace [OF assms] by (auto simp: process_envelope_def process_message_def)
qed

subsection \<open>Replies\<close>

lemma reply_step:
  "bridge_step json de y ev y' \<Longrightarrow> br_replies (bs_bridge y') i = SlotReplied m \<Longrightarrow>
    br_replies (bs_bridge y) i = SlotReplied m
    \<or> (\<exists>e. ev = Framed e \<and> env_generation e = br_generation (bs_bridge y) \<and> env_control_id e = i \<and> env_message e = m)"
proof (induction rule: bridge_step.induct)
  case (Frame y e es now)
  then show ?case
    by (cases "env_message e")
      (auto simp: on_bridge_def process_envelope_def process_message_def deliver_reply_def Let_def invalidate_def
        clear_pending_def split: if_splits)
qed (auto simp: bridge_ops invalidate_def Let_def clear_pending_def set_runtime_def
    split: list.splits option.splits message.splits sum.splits prod.splits if_splits)

lemma replied_frame:
  "bridge_trace json de g b tr y \<Longrightarrow> br_replies (bs_bridge y) i = SlotReplied m \<Longrightarrow>
    \<exists>e. Framed e \<in> set tr \<and> env_generation e = g \<and> env_control_id e = i \<and> env_message e = m"
proof (induction rule: bridge_trace.induct)
  case (Stepped tr y ev y')
  from reply_step [OF Stepped(2,4)] show ?case
    using Stepped(3) identity_trace [OF Stepped(1)] by auto
qed (simp add: start_system_def new_bridge_def)

fun answers_of :: "nat \<Rightarrow> 'v bridge_event list \<Rightarrow> (sdk_error + 'v message) list" where
  "answers_of i [] = []"
| "answers_of i (Answered k r # tr) = (if k = i then r # answers_of i tr else answers_of i tr)"
| "answers_of i (_ # tr) = answers_of i tr"

lemma request_answers_append [simp]: "answers_of i (tr @ tr') = answers_of i tr @ answers_of i tr'"
  by (induction i tr rule: answers_of.induct) simp_all

fun asked :: "'v bridge_event list \<Rightarrow> nat set" where
  "asked [] = {}"
| "asked (Asked (Inr e) # tr) = insert (env_control_id e) (asked tr)"
| "asked (_ # tr) = asked tr"

lemma asked_append [simp]: "asked (tr @ tr') = asked tr \<union> asked tr'"
  by (induction tr rule: asked.induct) auto

text \<open>A slot is in use from the request to its answer.\<close>

lemma slot_step:
  assumes "bridge_step json de y ev y'" and "bridge_ok (bs_bridge y)"
  shows "br_replies (bs_bridge y') i \<noteq> SlotUnused \<longrightarrow> answers_of i [ev] = []
      \<and> (br_replies (bs_bridge y) i \<noteq> SlotUnused \<or> i = br_next (bs_bridge y) \<and> i \<in> asked [ev])"
    and "answers_of i [ev] \<noteq> [] \<longrightarrow> br_replies (bs_bridge y) i \<noteq> SlotUnused \<and> length (answers_of i [ev]) = 1"
proof -
  have "\<forall>k. k \<in> set (br_pending (bs_bridge y)) \<longrightarrow> br_replies (bs_bridge y) k \<noteq> SlotUnused"
    using assms(2) by (auto simp: bridge_ok_def requests_ok_def)
  with assms(1) show "br_replies (bs_bridge y') i \<noteq> SlotUnused \<longrightarrow> answers_of i [ev] = []
      \<and> (br_replies (bs_bridge y) i \<noteq> SlotUnused \<or> i = br_next (bs_bridge y) \<and> i \<in> asked [ev])"
  proof (induction rule: bridge_step.induct)
    case (Frame y e es now)
    then show ?case
      by (cases "env_message e")
        (auto simp: on_bridge_def process_envelope_def process_message_def deliver_reply_def Let_def invalidate_def
          clear_pending_def split: if_splits)
  qed (auto simp: bridge_ops invalidate_def Let_def clear_pending_def set_runtime_def new_envelope_def
      split: list.splits option.splits message.splits sum.splits prod.splits if_splits)
  from assms(1) show "answers_of i [ev] \<noteq> [] \<longrightarrow> br_replies (bs_bridge y) i \<noteq> SlotUnused \<and> length (answers_of i [ev]) = 1"
    by (induction rule: bridge_step.induct) (auto split: option.splits sum.splits)
qed

lemma slots_trace:
  "bridge_trace json de g b tr y \<Longrightarrow> (br_replies (bs_bridge y) i \<noteq> SlotUnused \<longrightarrow> answers_of i tr = [] \<and> i \<in> asked tr)
     \<and> length (answers_of i tr) \<le> 1 \<and> (answers_of i tr \<noteq> [] \<longrightarrow> i \<in> asked tr \<and> i < br_next (bs_bridge y))"
proof (induction rule: bridge_trace.induct)
  case (Stepped tr y ev y')
  have ok: "bridge_ok (bs_bridge y)" using Stepped(1) by (rule bridge_ok_trace)
  have lt: "br_replies (bs_bridge y) i \<noteq> SlotUnused \<Longrightarrow> i < br_next (bs_bridge y)"
    using ok unfolding bridge_ok_def requests_ok_def by (meson not_le)
  have "br_next (bs_bridge y) \<le> br_next (bs_bridge y')" using grows_step [OF Stepped(2)] by (simp add: grows_def)
  then show ?case using slot_step [OF Stepped(2) ok, of i] Stepped(3) lt by auto
qed (simp add: start_system_def new_bridge_def)

text \<open>
  C24. A reply belongs to its request: a request is answered at most once, and a message is
  its answer only when a frame of this generation carried it with the number of this request.
\<close>

theorem reply_is_its_own:
  assumes "bridge_trace json de g b tr y"
  shows "length (answers_of i tr) \<le> 1
    \<and> (answers_of i tr \<noteq> [] \<longrightarrow> i \<in> asked tr)
    \<and> (Answered i (Inr m) \<in> set tr \<longrightarrow>
        (\<exists>e. Framed e \<in> set tr \<and> env_generation e = g \<and> env_control_id e = i \<and> env_message e = m))"
proof -
  have "Answered i (Inr m) \<in> set tr \<longrightarrow>
        (\<exists>e. Framed e \<in> set tr \<and> env_generation e = g \<and> env_control_id e = i \<and> env_message e = m)"
    using assms
  proof (induction rule: bridge_trace.induct)
    case (Stepped tr y ev y')
    have "br_replies (bs_bridge y) i = SlotReplied m" if "ev = Answered i (Inr m)"
      using Stepped(2) that
    proof (cases rule: bridge_step.cases)
      case (Answers j en r)
      then show ?thesis using that
        by (cases "(en, br_replies (bs_bridge y) j)" rule: request_answer.cases) auto
    qed (auto split: option.splits sum.splits)
    then show ?case using replied_frame [OF Stepped(1)] Stepped(3) by auto
  qed simp
  with slots_trace [OF assms, of i] show ?thesis by blast
qed

subsection \<open>The stream\<close>

fun received :: "nat \<Rightarrow> 'v bridge_event list \<Rightarrow> 'v list" where
  "received i [] = []"
| "received i (Received k (Some v) # tr) = (if k = i then v # received i tr else received i tr)"
| "received i (_ # tr) = received i tr"

lemma received_append [simp]: "received i (tr @ tr') = received i tr @ received i tr'"
  by (induction i tr rule: received.induct) simp_all

text \<open>
  What the guest sent to an attachment: its runtime is 0 until it is opened, and a message
  counts when it names the attachment and its runtime in a frame of the generation.
\<close>

definition note_frame :: "nat \<Rightarrow> nat \<Rightarrow> 'v envelope \<Rightarrow> (nat \<times> 'v list) option \<Rightarrow> (nat \<times> 'v list) option" where
  "note_frame g i e x =
     (case x of None \<Rightarrow> None
      | Some (r, vs) \<Rightarrow>
          if env_generation e \<noteq> g then x
          else (case env_message e of
                  Opened k r' \<Rightarrow> if k = i then Some (r', vs) else x
                | Mcp k r' v \<Rightarrow> if k = i \<and> r' = r then Some (r, vs @ [v]) else x
                | _ \<Rightarrow> x))"

fun note_event :: "nat \<Rightarrow> nat \<Rightarrow> 'v bridge_event \<Rightarrow> (nat \<times> 'v list) option \<Rightarrow> (nat \<times> 'v list) option" where
  "note_event g i (Attached k) x = (if k = i then Some (0, []) else x)"
| "note_event g i (OpenedAs k r) x = (if k = i then map_option (\<lambda>(_, vs). (r, vs)) x else x)"
| "note_event g i (Framed e) x = note_frame g i e x"
| "note_event g i _ x = x"

definition guest_sent :: "nat \<Rightarrow> nat \<Rightarrow> 'v bridge_event list \<Rightarrow> (nat \<times> 'v list) option" where
  "guest_sent g i tr = fold (note_event g i) tr None"

definition sent_values :: "(nat \<times> 'v list) option \<Rightarrow> 'v list" where
  "sent_values x = (case x of None \<Rightarrow> [] | Some (_, vs) \<Rightarrow> vs)"

lemma guest_sent_snoc: "guest_sent g i (tr @ [ev]) = note_event g i ev (guest_sent g i tr)"
  by (simp add: guest_sent_def)

lemma note_frame_grows: "prefix (sent_values x) (sent_values (note_frame g i e x))"
  by (cases "env_message e") (auto simp: note_frame_def sent_values_def split: option.split)

lemma note_frame_other:
  "(\<And>k r. env_message e \<noteq> Opened k r) \<Longrightarrow> (\<And>k r v. env_message e \<noteq> Mcp k r v) \<Longrightarrow> note_frame g i e x = x"
  by (cases x; cases "env_message e") (auto simp: note_frame_def)

lemma note_frame_foreign: "env_generation e \<noteq> g \<Longrightarrow> note_frame g i e x = x"
  by (cases x) (auto simp: note_frame_def)

definition stream_fits :: "nat \<Rightarrow> 'v bridge \<Rightarrow> 'v list \<Rightarrow> (nat \<times> 'v list) option \<Rightarrow> bool" where
  "stream_fits i s got x \<longleftrightarrow> prefix (got @ sm_queue (br_streams s i)) (sent_values x)
     \<and> (\<not> br_dead s \<longrightarrow> (\<forall>a. br_attachment s = Some a \<longrightarrow> at_id a = i \<longrightarrow>
          x = Some (at_runtime a, got @ sm_queue (br_streams s i))))
     \<and> (br_next s \<le> i \<longrightarrow> got = [] \<and> x = None)"

lemma fits_taken [simp]:
  "stream_fits i s got x \<Longrightarrow> stream_fits i (take_attachment reason s) got x"
  by (simp add: stream_fits_def)

lemma fits_closed [simp]: "stream_fits i s got x \<Longrightarrow> stream_fits i (close_attachment_id k reason s) got x"
  by (simp add: close_attachment_id_def)

lemma fits_invalidated [simp]: "stream_fits i s got x \<Longrightarrow> stream_fits i (invalidate reason s) got x"
  by (simp add: stream_fits_def invalidate_def clear_pending_def)

lemma fits_frame:
  assumes "br_streams s' = br_streams s" "br_dead s \<longrightarrow> br_dead s'" "br_attachment s' = br_attachment s" "br_next s \<le> br_next s'"
    and "stream_fits i s got x"
  shows "stream_fits i s' got x"
  using assms by (auto simp: stream_fits_def)

lemma fits_replied [simp]: "stream_fits i s got x \<Longrightarrow> stream_fits i (deliver_reply e s) got x"
  by (rule fits_frame [of _ s]) simp_all

lemma fits_grown:
  "stream_fits i s got x \<Longrightarrow> \<not> attached_as i s \<Longrightarrow> prefix (sent_values x) (sent_values x') \<Longrightarrow> (x = None \<Longrightarrow> x' = None)
    \<Longrightarrow> stream_fits i s got x'"
  by (auto simp: stream_fits_def attached_as_def intro: prefix_order.trans)

lemma fits_message:
  assumes fits: "stream_fits i s got x" and alive: "\<not> br_dead s" and g: "env_generation e = br_generation s"
    and at: "\<And>a. br_attachment s = Some a \<Longrightarrow> at_id a < br_next s"
  shows "stream_fits i (fst (process_message e s)) got (note_frame (br_generation s) i e x)"
proof (cases "env_message e")
  case (Mcp k r v)
  show ?thesis
  proof (cases "addressed k r s")
    case True
    then have a: "br_attachment s = Some \<lparr>at_id = k, at_runtime = r\<rparr>" by (simp add: addressed_def)
    then have "attached_as k s" by (simp add: attached_as_def)
    show ?thesis
    proof (cases "k = i")
      case True
      then have x: "x = Some (r, got @ sm_queue (br_streams s i))" using fits alive a by (simp add: stream_fits_def)
      then show ?thesis using Mcp g True a at [OF a] \<open>addressed k r s\<close> \<open>attached_as k s\<close> fits
        by (auto simp: process_message_def note_frame_def stream_fits_def push_stream_def sent_values_def
            close_attachment_id_def)
    next
      case False
      then have "stream_fits i (push_stream k v s) got x" using fits by (simp add: stream_fits_def push_stream_def)
      moreover have "note_frame (br_generation s) i e x = x"
        using False Mcp by (simp add: note_frame_def split: option.split)
      ultimately show ?thesis using Mcp fits by (simp add: process_message_def)
    qed
  next
    case False
    then have "fst (process_message e s) = deliver_reply e s" using Mcp by (simp add: process_message_def)
    moreover have "stream_fits i s got (note_frame (br_generation s) i e x)"
    proof (cases "attached_as i s")
      case True
      then obtain a where a: "br_attachment s = Some a" "at_id a = i" by (auto simp: attached_as_def)
      then have x: "x = Some (at_runtime a, got @ sm_queue (br_streams s i))" using fits alive by (simp add: stream_fits_def)
      have "note_frame (br_generation s) i e x = x" using Mcp False a x by (cases a) (auto simp: note_frame_def addressed_def)
      then show ?thesis using fits by simp
    next
      case no: False
      show ?thesis by (rule fits_grown [OF fits no note_frame_grows]) (simp add: note_frame_def)
    qed
    ultimately show ?thesis by simp
  qed
next
  case (Opened k r)
  then have "fst (process_message e s) = deliver_reply e (set_runtime k r s)" by (simp add: process_message_def)
  moreover have "stream_fits i (set_runtime k r s) got (note_frame (br_generation s) i e x)"
    using fits Opened g alive
    by (auto simp: stream_fits_def set_runtime_def attached_as_def note_frame_def sent_values_def split: option.splits)
  ultimately show ?thesis by simp
next
  case (Ready b v)
  then have n: "note_frame (br_generation s) i e x = x" by (simp add: note_frame_def split: option.split)
  have "stream_fits i (s\<lparr>br_ready := True, br_stages := st\<rparr>) got x" for st
    by (rule fits_frame [OF _ _ _ _ fits]) simp_all
  then show ?thesis using Ready fits n by (simp add: process_message_def)
next
  case Pong
  then have n: "note_frame (br_generation s) i e x = x" by (simp add: note_frame_def split: option.split)
  have "stream_fits i (s\<lparr>br_stages := st\<rparr>) got x" for st
    by (rule fits_frame [OF _ _ _ _ fits]) simp_all
  then show ?thesis using Pong n by (simp add: process_message_def)
qed (use fits in \<open>simp_all add: process_message_def note_frame_other\<close>)

lemma fits_inserts:
  assumes ok: "bridge_ok s" and fits: "stream_fits i s got x" and ins: "attach_inserts s = (r, s')"
  shows "stream_fits i s' got (note_event g i (case r of Inr k \<Rightarrow> Attached k | Inl _ \<Rightarrow> Silent) x)"
proof (cases "br_attachment s")
  case (Some a)
  then have "s' = s\<lparr>br_next := br_next s + 1\<rparr>" "\<exists>err. r = Inl err"
    using ins by (auto simp: attach_inserts_def Let_def)
  moreover have "stream_fits i (s\<lparr>br_next := br_next s + 1\<rparr>) got x" by (rule fits_frame [OF _ _ _ _ fits]) simp_all
  ultimately show ?thesis by auto
next
  case None
  let ?c = "\<lparr>sm_queue = [], sm_sender = True, sm_closed = None, sm_reader = True\<rparr>"
  have r: "r = Inr (br_next s)" and s': "s' = s\<lparr>br_next := br_next s + 1,
      br_attachment := Some \<lparr>at_id = br_next s, at_runtime = 0\<rparr>, br_streams := (br_streams s)(br_next s := ?c)\<rparr>"
    using ins None by (simp_all add: attach_inserts_def Let_def)
  show ?thesis
  proof (cases "i = br_next s")
    case True
    then have "got = []" using fits by (simp add: stream_fits_def)
    then show ?thesis using r s' True by (simp add: stream_fits_def sent_values_def)
  next
    case False
    then show ?thesis using r s' fits by (simp add: stream_fits_def)
  qed
qed

lemma fits_runtime:
  assumes "stream_fits i s got x" and "attached_as k s"
  shows "stream_fits i (set_runtime k r s) got (note_event g i (OpenedAs k r) x)"
proof (cases "k = i")
  case True
  have "sent_values (map_option (\<lambda>(_, vs). (r, vs)) x) = sent_values x"
    by (cases x) (auto simp: sent_values_def)
  then show ?thesis using assms True by (auto simp: stream_fits_def set_runtime_def attached_as_def)
qed (use assms in \<open>simp add: stream_fits_def set_runtime_def\<close>)

lemma fits_opens:
  assumes fits: "stream_fits i s got x" and op: "attach_opened k m s = (r, s')"
  shows "stream_fits i s' got (note_event g i (case r of Inr n \<Rightarrow> OpenedAs k n | Inl _ \<Rightarrow> Silent) x)"
proof (cases "\<exists>n. m = Opened k n \<and> attached_as k s")
  case True
  then obtain n where "m = Opened k n" "attached_as k s" by blast
  then show ?thesis using op fits_runtime [OF fits, of k n g] by (auto simp: attach_opened_def)
next
  case False
  then have "s' = s" "\<exists>err. r = Inl err" using op by (auto simp: attach_opened_def split: message.splits if_splits)
  then show ?thesis using fits by auto
qed

lemma fits_receives:
  assumes fits: "stream_fits i s got x" and r: "attachment_recv k s = (Some (Inr v), s')"
  shows "stream_fits i s' (got @ received i [Received k v]) x"
proof -
  obtain u vs where q: "sm_queue (br_streams s k) = u # vs" and v: "v = Some u"
    and s': "s' = s\<lparr>br_streams := (br_streams s)(k := (br_streams s k)\<lparr>sm_queue := vs\<rparr>)\<rparr>"
    and c: "sm_closed (br_streams s k) = None" and snd: "sm_sender (br_streams s k)"
    using r by (auto simp: attachment_recv_def Let_def split: option.splits list.splits if_splits)
  show ?thesis
  proof (cases "k = i")
    case True
    have "(got @ received i [Received k v]) @ sm_queue (br_streams s' i) = got @ sm_queue (br_streams s i)"
      using True q by (simp add: s' v)
    moreover have "br_dead s' = br_dead s" "br_attachment s' = br_attachment s" "br_next s' = br_next s" by (simp_all add: s')
    moreover have "\<not> br_next s \<le> i" using fits q True by (auto simp: stream_fits_def sent_values_def)
    ultimately show ?thesis using fits unfolding stream_fits_def by metis
  next
    case False
    then show ?thesis using fits unfolding s' v stream_fits_def by simp
  qed
qed

lemma fits_step:
  assumes "bridge_step json de y ev y'" and ok: "bridge_ok (bs_bridge y)"
    and fits: "stream_fits i (bs_bridge y) got x"
  shows "stream_fits i (bs_bridge y') (got @ received i [ev]) (note_event (br_generation (bs_bridge y)) i ev x)"
proof -
  have at: "at_id a < br_next (bs_bridge y)" if "br_attachment (bs_bridge y) = Some a" for a
    using attached_sends(2) that ok by (auto simp: bridge_ok_def)
  have idle: "stream_fits i s' got x" if "br_streams s' = br_streams (bs_bridge y)" "br_dead (bs_bridge y) \<longrightarrow> br_dead s'"
    "br_attachment s' = br_attachment (bs_bridge y)" "br_next (bs_bridge y) \<le> br_next s'" for s'
    using fits_frame [OF that fits] .
  show ?thesis using assms(1)
  proof (cases rule: bridge_step.cases)
    case (Attaches r s)
    then have a: "attach_inserts (bs_bridge y) = (r, s)" by simp
    show ?thesis using fits_inserts [OF ok fits a, of "br_generation (bs_bridge y)"] Attaches by (cases r) simp_all
  next
    case (Opens k m r s)
    then have a: "attach_opened k m (bs_bridge y) = (r, s)" by simp
    show ?thesis using fits_opens [OF fits a, of "br_generation (bs_bridge y)"] Opens by (cases r) simp_all
  next
    case (Receives k v s)
    then show ?thesis using fits_receives [OF fits] by simp
  next
    case (Frame e es now)
    let ?s = "bs_bridge y\<lparr>br_last_rx := Some now\<rparr>"
    have f: "stream_fits i ?s got x" by (rule idle) simp_all
    show ?thesis
    proof (cases "env_generation e \<noteq> br_generation (bs_bridge y) \<or> br_dead (bs_bridge y)")
      case True
      have "stream_fits i (bs_bridge y) got (note_frame (br_generation (bs_bridge y)) i e x)"
      proof (cases "env_generation e = br_generation (bs_bridge y)")
        case False
        then show ?thesis using fits by (simp add: note_frame_foreign)
      next
        case g: True
        with True have "br_dead (bs_bridge y)" by simp
        then show ?thesis using fits note_frame_grows [of x _ i e]
          by (auto simp: stream_fits_def note_frame_def intro: prefix_order.trans)
      qed
      then show ?thesis using Frame True by (simp add: on_bridge_def process_envelope_def)
    next
      case False
      then show ?thesis using Frame fits_message [OF f, of e] at
        by (simp add: on_bridge_def process_envelope_def)
    qed
  next
    case (ReaderDrops k)
    then show ?thesis using fits by (auto simp: stream_fits_def on_bridge_def reader_drops_def)
  next
    case (ChannelStarts)
    have "stream_fits i ((clear_pending (bs_bridge y\<lparr>br_ready := False\<rparr>))\<lparr>br_outgoing := []\<rparr>) got x"
      by (rule idle) (simp_all add: clear_pending_def)
    then have "stream_fits i (take_attachment (lit ''bridge channel restarted'')
      ((clear_pending (bs_bridge y\<lparr>br_ready := False\<rparr>))\<lparr>br_outgoing := []\<rparr>)) got x" by simp
    then show ?thesis using ChannelStarts
      by (simp add: on_bridge_def bridge_start_def Let_def) (erule fits_frame [rotated 4], simp_all)
  next
    case (StopsBridge reason)
    have "stream_fits i (bridge_stop reason (bs_bridge y)) got x"
      unfolding bridge_stop_def by (rule fits_frame [OF _ _ _ _ fits_invalidated [OF fits, of reason]]) simp_all
    then show ?thesis using StopsBridge by (simp add: on_bridge_def)
  next
    case (RetireStarts k reason)
    then show ?thesis using fits by (simp add: on_bridge_def)
  next
    case (Payload bytes frames s d)
    then show ?thesis using fits by (auto simp: decode_payload_def split: prod.splits sum.splits)
  next
    case (Ticks now)
    then show ?thesis using fits by (simp add: on_bridge_def check_liveness_def)
  next
    case (TakesData)
    then show ?thesis using idle [of "snd (take_data (bs_bridge y))"]
      by (simp add: on_bridge_def take_data_def split: list.splits)
  next
    case (TakesRetire)
    then show ?thesis using idle [of "snd (take_retire (bs_bridge y))"]
      by (simp add: on_bridge_def take_retire_def split: option.splits)
  next
    case (Asks m)
    then show ?thesis using idle [of "snd (request_registers m (bs_bridge y))"]
      by (simp add: on_bridge_def request_registers_def Let_def)
  next
    case (Sends e k r v s)
    then show ?thesis using idle [of s] by (auto simp: send_section_def split: if_splits)
  next
    case (Answers k en r)
    have "stream_fits i (request_leaves k (bs_bridge y)) got x" by (rule idle) (simp_all add: request_leaves_def)
    then show ?thesis using Answers by (simp add: on_bridge_def)
  next
    case (GivesUp k)
    have "stream_fits i (request_leaves k (bs_bridge y)) got x" by (rule idle) (simp_all add: request_leaves_def)
    then show ?thesis using GivesUp by (simp add: on_bridge_def)
  next
    case (RetireEnds k reason)
    have "stream_fits i (retire_section k reason (bs_bridge y)) got x" by (rule idle) (simp_all add: retire_section_def)
    then show ?thesis using RetireEnds by (simp add: on_bridge_def)
  next
    case (DataNotified)
    have "stream_fits i (bs_bridge y\<lparr>br_data_ready := False\<rparr>) got x" by (rule idle) simp_all
    then show ?thesis using DataNotified by (simp add: on_bridge_def)
  next
    case (RetireNotified)
    have "stream_fits i (bs_bridge y\<lparr>br_retire_ready := False\<rparr>) got x" by (rule idle) simp_all
    then show ?thesis using RetireNotified by (simp add: on_bridge_def)
  next
    case (ProcessorDrops)
    then show ?thesis using fits by (simp add: on_bridge_def processor_drops_def)
  qed
qed

lemma fits_trace:
  "bridge_trace json de g b tr y \<Longrightarrow> stream_fits i (bs_bridge y) (received i tr) (guest_sent g i tr)"
proof (induction rule: bridge_trace.induct)
  case (Stepped tr y ev y')
  from fits_step [OF Stepped(2) bridge_ok_trace [OF Stepped(1)] Stepped(3)] show ?case
    using identity_trace [OF Stepped(1)] by (simp add: guest_sent_snoc)
qed (simp add: start_system_def new_bridge_def stream_fits_def guest_sent_def no_stream_def sent_values_def)

text \<open>
  C23. The stream of an attachment is the guest's: what was received, followed by what is
  buffered, is a beginning of what the guest sent to this attachment and its runtime, and
  all of it while the attachment is open; nothing is lost, repeated, reordered or taken from
  another attachment or an earlier runtime.
\<close>

theorem stream_in_order:
  assumes "bridge_trace json de g b tr y"
  shows "prefix (received i tr @ sm_queue (br_streams (bs_bridge y) i)) (sent_values (guest_sent g i tr))
    \<and> (attached_as i (bs_bridge y) \<and> \<not> br_dead (bs_bridge y) \<longrightarrow>
        received i tr @ sm_queue (br_streams (bs_bridge y) i) = sent_values (guest_sent g i tr))"
  using fits_trace [OF assms, of i] by (auto simp: stream_fits_def attached_as_def sent_values_def)

subsection \<open>Notifications\<close>

text \<open>What waits for the loop has a notification that the loop has not acted on.\<close>

definition notified :: "'v bridge_system \<Rightarrow> bool" where
  "notified y \<longleftrightarrow> (br_outgoing (bs_bridge y) \<noteq> [] \<longrightarrow> br_data_ready (bs_bridge y) \<or> bs_data y)
     \<and> (br_retire (bs_bridge y) \<noteq> None \<longrightarrow> br_retire_ready (bs_bridge y) \<or> bs_retire y)"

definition keeps_waiting :: "'v bridge \<Rightarrow> 'v bridge \<Rightarrow> bool" where
  "keeps_waiting s s' \<longleftrightarrow> (br_outgoing s' \<noteq> [] \<longrightarrow> br_data_ready s' \<or> br_outgoing s \<noteq> [] \<and> br_data_ready s' = br_data_ready s)
     \<and> (br_retire s' \<noteq> None \<longrightarrow> br_retire_ready s' \<or> br_retire s \<noteq> None \<and> br_retire_ready s' = br_retire_ready s)"

lemma keeps_waiting_refl [simp]: "keeps_waiting s s"
  by (simp add: keeps_waiting_def)

lemma keeps_waiting_fields:
  "br_outgoing s' = br_outgoing s \<or> br_outgoing s' = [] \<Longrightarrow> br_retire s' = br_retire s
   \<Longrightarrow> br_data_ready s' = br_data_ready s \<Longrightarrow> br_retire_ready s' = br_retire_ready s \<Longrightarrow> keeps_waiting s s'"
  by (auto simp: keeps_waiting_def)

lemma invalidate_data_ready [simp]: "br_data_ready (invalidate reason s) = br_data_ready s"
  by (simp add: invalidate_def clear_pending_def)

lemma keeps_waiting_message: "keeps_waiting s (fst (process_message e s))"
  by (cases "env_message e") (auto simp: process_message_def intro!: keeps_waiting_fields)

lemma notified_keeps:
  assumes "keeps_waiting (bs_bridge y) (bs_bridge y')" "bs_data y' = bs_data y" "bs_retire y' = bs_retire y" "notified y"
  shows "notified y'"
  using assms by (auto simp: keeps_waiting_def notified_def)

lemma notified_step:
  assumes "bridge_step json de y ev y'" and "notified y"
  shows "notified y'"
  using assms(1)
proof (cases rule: bridge_step.cases)
  case (DataNotified)
  then show ?thesis using assms(2) by (simp add: notified_def on_bridge_def)
next
  case (TakesData)
  then show ?thesis using assms(2) by (auto simp: notified_def on_bridge_def take_data_def split: list.splits)
next
  case (RetireNotified)
  then show ?thesis using assms(2) by (simp add: notified_def on_bridge_def)
next
  case (TakesRetire)
  then show ?thesis using assms(2) by (auto simp: notified_def on_bridge_def take_retire_def)
next
  case (Frame e es now)
  then show ?thesis
    using keeps_waiting_message [of "bs_bridge y\<lparr>br_last_rx := Some now\<rparr>" e]
    by (intro notified_keeps [OF _ _ _ assms(2)]) (auto simp: on_bridge_def process_envelope_def keeps_waiting_def)
next
  case (ChannelStarts)
  then show ?thesis
    by (intro notified_keeps [OF _ _ _ assms(2)])
      (auto simp: on_bridge_def bridge_start_def Let_def clear_pending_def intro!: keeps_waiting_fields)
next
  case (StopsBridge reason)
  then show ?thesis
    by (intro notified_keeps [OF _ _ _ assms(2)]) (auto simp: on_bridge_def bridge_stop_def intro!: keeps_waiting_fields)
next
  case (Sends e i r v s)
  then show ?thesis
    by (intro notified_keeps [OF _ _ _ assms(2)]) (auto simp: send_section_def keeps_waiting_def split: if_splits)
next
  case (RetireEnds i reason)
  then show ?thesis
    by (intro notified_keeps [OF _ _ _ assms(2)]) (auto simp: on_bridge_def retire_section_def keeps_waiting_def)
next
  case (Receives i v s)
  then show ?thesis
    by (intro notified_keeps [OF _ _ _ assms(2)])
      (auto simp: attachment_recv_def Let_def split: option.splits list.splits if_splits intro!: keeps_waiting_fields)
next
  case (Opens i m r s)
  then show ?thesis
    by (intro notified_keeps [OF _ _ _ assms(2)])
      (cases m, auto simp: attach_opened_def split: if_splits intro!: keeps_waiting_fields)
next
  case (Attaches r s)
  then show ?thesis
    by (intro notified_keeps [OF _ _ _ assms(2)])
      (auto simp: attach_inserts_def Let_def split: if_splits intro!: keeps_waiting_fields)
next
  case (Payload bytes frames s d)
  then show ?thesis
    by (intro notified_keeps [OF _ _ _ assms(2)])
      (auto simp: decode_payload_def split: prod.splits sum.splits intro!: keeps_waiting_fields)
qed (intro notified_keeps [OF _ _ _ assms(2)];
     auto simp: on_bridge_def request_registers_def request_leaves_def reader_drops_def check_liveness_def
       processor_drops_def Let_def intro!: keeps_waiting_fields)+

lemma notified_trace: "bridge_trace json de g b tr y \<Longrightarrow> notified y"
proof (induction rule: bridge_trace.induct)
  case (Stepped tr y ev y')
  then show ?case by (blast intro: notified_step)
qed (simp add: start_system_def new_bridge_def notified_def)

text \<open>
  No notification is lost: whenever a message waits for the guest, the loop can take the
  oldest one, at most one notification away, and likewise a retirement.
\<close>

theorem waiting_data_is_taken:
  assumes "bridge_trace json de g b tr y"
  shows "(\<forall>e es. br_outgoing (bs_bridge y) = e # es \<longrightarrow>
      (\<exists>tr' y'. bridge_trace json de g b (tr @ tr' @ [Passed e]) y' \<and> length tr' \<le> 1 \<and> br_outgoing (bs_bridge y') = es))
    \<and> (\<forall>e. br_retire (bs_bridge y) = Some e \<longrightarrow>
      (\<exists>tr' y'. bridge_trace json de g b (tr @ tr' @ [RetiredTo e]) y' \<and> length tr' \<le> 1 \<and> br_retire (bs_bridge y') = None))"
proof (intro conjI allI impI)
  have n: "notified y" using assms by (rule notified_trace)
  have now: "\<exists>tr' y'. bridge_trace json de g b (tr @ tr' @ [ev]) y' \<and> length tr' \<le> 1 \<and> P y'"
    if "bridge_trace json de g b (tr @ [ev]) y'" "P y'" for ev y' P
    using that by (intro exI [of _ "[]"] exI [of _ y']) simp
  have soon: "\<exists>tr' y'. bridge_trace json de g b (tr @ tr' @ [ev]) y' \<and> length tr' \<le> 1 \<and> P y'"
    if "bridge_trace json de g b ((tr @ [Silent]) @ [ev]) y'" "P y'" for ev y' P
    using that by (intro exI [of _ "[Silent]"] exI [of _ y']) simp
  show "\<exists>tr' y'. bridge_trace json de g b (tr @ tr' @ [Passed e]) y' \<and> length tr' \<le> 1 \<and> br_outgoing (bs_bridge y') = es"
    if out: "br_outgoing (bs_bridge y) = e # es" for e es
  proof (cases "bs_data y")
    case True
    from bridge_trace.Stepped [OF assms bridge_step.TakesData [OF True]]
    have "bridge_trace json de g b (tr @ [Passed e]) ((on_bridge (\<lambda>s. snd (take_data s)) y)\<lparr>bs_data := False\<rparr>)"
      by (simp add: out take_data_def)
    then show ?thesis by (rule now) (simp add: on_bridge_def take_data_def out)
  next
    case False
    then have "br_data_ready (bs_bridge y)" using n out by (simp add: notified_def)
    let ?y = "(on_bridge (\<lambda>s. s\<lparr>br_data_ready := False\<rparr>) y)\<lparr>bs_data := True\<rparr>"
    have "bridge_trace json de g b (tr @ [Silent]) ?y"
      using bridge_trace.Stepped [OF assms bridge_step.DataNotified] \<open>br_data_ready (bs_bridge y)\<close> by blast
    moreover have "bs_data ?y" by simp
    ultimately have "bridge_trace json de g b ((tr @ [Silent]) @ [passed Passed (fst (take_data (bs_bridge ?y)))])
        ((on_bridge (\<lambda>s. snd (take_data s)) ?y)\<lparr>bs_data := False\<rparr>)"
      using bridge_trace.Stepped bridge_step.TakesData by blast
    then have "bridge_trace json de g b ((tr @ [Silent]) @ [Passed e]) ((on_bridge (\<lambda>s. snd (take_data s)) ?y)\<lparr>bs_data := False\<rparr>)"
      by (simp add: out take_data_def on_bridge_def)
    then show ?thesis by (rule soon) (simp add: on_bridge_def take_data_def out)
  qed
  show "\<exists>tr' y'. bridge_trace json de g b (tr @ tr' @ [RetiredTo e]) y' \<and> length tr' \<le> 1 \<and> br_retire (bs_bridge y') = None"
    if out: "br_retire (bs_bridge y) = Some e" for e
  proof (cases "bs_retire y")
    case True
    from bridge_trace.Stepped [OF assms bridge_step.TakesRetire [OF True]]
    have "bridge_trace json de g b (tr @ [RetiredTo e]) ((on_bridge (\<lambda>s. snd (take_retire s)) y)\<lparr>bs_retire := False\<rparr>)"
      by (simp add: out take_retire_def)
    then show ?thesis by (rule now) (simp add: on_bridge_def take_retire_def)
  next
    case False
    then have "br_retire_ready (bs_bridge y)" using n out by (simp add: notified_def)
    let ?y = "(on_bridge (\<lambda>s. s\<lparr>br_retire_ready := False\<rparr>) y)\<lparr>bs_retire := True\<rparr>"
    have "bridge_trace json de g b (tr @ [Silent]) ?y"
      using bridge_trace.Stepped [OF assms bridge_step.RetireNotified] \<open>br_retire_ready (bs_bridge y)\<close> by blast
    moreover have "bs_retire ?y" by simp
    ultimately have "bridge_trace json de g b ((tr @ [Silent]) @ [passed RetiredTo (fst (take_retire (bs_bridge ?y)))])
        ((on_bridge (\<lambda>s. snd (take_retire s)) ?y)\<lparr>bs_retire := False\<rparr>)"
      using bridge_trace.Stepped bridge_step.TakesRetire by blast
    then have "bridge_trace json de g b ((tr @ [Silent]) @ [RetiredTo e]) ((on_bridge (\<lambda>s. snd (take_retire s)) ?y)\<lparr>bs_retire := False\<rparr>)"
      by (simp add: out take_retire_def on_bridge_def)
    then show ?thesis by (rule soon) (simp add: on_bridge_def take_retire_def)
  qed
qed

subsection \<open>Retirement\<close>

lemma retire_step:
  assumes "bridge_step json de y ev y'" and "bridge_ok (bs_bridge y)"
  shows "(\<forall>e. br_retire (bs_bridge y) = Some e \<longrightarrow> ev = RetiredTo e \<or>
      (\<exists>e'. br_retire (bs_bridge y') = Some e' \<and> retire_id (Some e) \<le> retire_id (Some e')))
    \<and> (\<forall>i. ev = Retired i \<longrightarrow> (\<exists>e'. br_retire (bs_bridge y') = Some e' \<and> i \<le> retire_id (Some e')))"
  using assms(1)
proof (cases rule: bridge_step.cases)
  case (RetireEnds i reason)
  then show ?thesis
    by (cases "br_retire (bs_bridge y)") (auto simp: on_bridge_def retire_section_def new_envelope_def retire_id_def)
next
  case (Frame e es now)
  have "br_retire (fst (process_message e s)) = br_retire s" for s :: "'a bridge"
    by (cases "env_message e") (simp_all add: process_message_def)
  then show ?thesis using Frame by (simp add: on_bridge_def process_envelope_def)
next
  case (TakesRetire)
  then show ?thesis by (auto simp: on_bridge_def take_retire_def split: option.split)
qed (auto simp: bridge_ops Let_def clear_pending_def
    split: list.splits option.splits message.splits sum.splits prod.splits if_splits)

text \<open>
  A retirement is not overtaken by the loss of its message: after an attachment was
  retired, its own close or the close of a later attachment is waiting for the guest or was
  given to it.
\<close>

theorem retirement_is_kept:
  "bridge_trace json de g b tr y \<Longrightarrow> Retired i \<in> set tr \<Longrightarrow>
    \<exists>e. (br_retire (bs_bridge y) = Some e \<or> RetiredTo e \<in> set tr) \<and> i \<le> retire_id (Some e)"
proof (induction rule: bridge_trace.induct)
  case (Stepped tr y ev y')
  note r = retire_step [OF Stepped(2) bridge_ok_trace [OF Stepped(1)]]
  show ?case
  proof (cases "Retired i \<in> set tr")
    case True
    then obtain e where e: "br_retire (bs_bridge y) = Some e \<or> RetiredTo e \<in> set tr" "i \<le> retire_id (Some e)"
      using Stepped(3) by blast
    show ?thesis
    proof (cases "RetiredTo e \<in> set (tr @ [ev])")
      case False
      then obtain e' where "br_retire (bs_bridge y') = Some e'" "retire_id (Some e) \<le> retire_id (Some e')"
        using e r by auto
      then show ?thesis using e(2) le_trans by blast
    qed (use e in blast)
  next
    case False
    then have "ev = Retired i" using Stepped(4) by simp
    then show ?thesis using r by auto
  qed
qed simp

subsection \<open>Bounds\<close>

text \<open>
  The memory that a guest or a caller can make the bridge hold is bounded: at most 32
  requests, 8 messages to the guest and 8 per stream, one open attachment; and a bridge has
  ended exactly when it says why.
\<close>

theorem bridge_bounded:
  assumes "bridge_trace json de g b tr y"
  shows "length (br_pending (bs_bridge y)) \<le> PENDING_LIMIT \<and> length (br_outgoing (bs_bridge y)) \<le> STREAM_DEPTH
    \<and> length (sm_queue (br_streams (bs_bridge y) i)) \<le> STREAM_DEPTH
    \<and> (sm_sender (br_streams (bs_bridge y) i) \<longleftrightarrow> attached_as i (bs_bridge y))
    \<and> (br_dead (bs_bridge y) \<longleftrightarrow> br_failure (bs_bridge y) \<noteq> None)"
  using bridge_ok_trace [OF assms]
  by (simp add: bridge_ok_def requests_ok_def attachments_ok_def stream_ok_def ends_ok_def outgoing_ok_def)

subsection \<open>A sample\<close>

text \<open>
  A bridge with an open attachment: the guest was ready, an attachment was made and opened
  with runtime 7, the guest sent one message and the caller one.
\<close>

abbreviation ready_frame :: "unit envelope" where "ready_frame \<equiv> new_envelope 1 0 (Ready [98] [49])"
abbreviation opened_frame :: "unit envelope" where "opened_frame \<equiv> new_envelope 1 2 (Opened 1 7)"
abbreviation guest_frame :: "unit envelope" where "guest_frame \<equiv> new_envelope 1 0 (Mcp 1 7 ())"
abbreviation caller_frame :: "unit envelope" where "caller_frame \<equiv> new_envelope 1 0 (Mcp 1 7 ())"

definition sample_de :: "u8 list \<Rightarrow> unit envelope option" where
  "sample_de bytes = (if bytes = [0] then Some ready_frame else if bytes = [1] then Some opened_frame
     else Some guest_frame)"

definition sample_events :: "unit bridge_event list" where
  "sample_events = [Silent, Framed ready_frame, Attached 1, Asked (Inr (new_envelope 1 2 (Open 1))), Framed opened_frame,
     Answered 2 (Inr (Opened 1 7)), OpenedAs 1 7, Framed guest_frame, Sent 1 caller_frame]"

lemma new_envelope_version: "env_version (new_envelope g c m) = PROTOCOL_VERSION"
  by (simp add: new_envelope_def)

lemma sample_decoded:
  "push sample_de new_decoder [1, 0, 0, 0, 0, 1, 0, 0, 0, 1, 1, 0, 0, 0, 2] = (Inr [ready_frame, opened_frame, guest_frame], new_decoder)"
  by (subst push_run, simp add: new_decoder_def target_def)
    (simp add: new_envelope_version sample_de_def step_byte_def and_then_def one_frame_def complete_part_def new_decoder_def target_def
      from_le_bytes_def frame_list_def MAX_FRAME_BYTES_def)

lemma sample_trace:
  "\<exists>y. bridge_trace [] sample_de 1 [98] sample_events y \<and> attached_as 1 (bs_bridge y) \<and> br_ready (bs_bridge y)
     \<and> \<not> br_dead (bs_bridge y) \<and> sm_queue (br_streams (bs_bridge y) 1) = [()]
     \<and> br_outgoing (bs_bridge y) = [caller_frame]"
proof -
  let ?T = "bridge_trace [] sample_de 1 [98]"
  let ?s = "bs_bridge"
  define y0 :: "unit bridge_system" where "y0 = start_system 1 [98]"
  define y1 where "y1 = y0\<lparr>bs_frames := [ready_frame, opened_frame, guest_frame]\<rparr>"
  define y2 where "y2 = (on_bridge (\<lambda>s. fst (process_envelope 0 ready_frame s)) y1)\<lparr>bs_frames := [opened_frame, guest_frame]\<rparr>"
  define y3 where "y3 = y2\<lparr>bs_bridge := snd (attach_inserts (bs_bridge y2))\<rparr>"
  define y4 where "y4 = on_bridge (\<lambda>s. snd (request_registers (Open 1) s)) y3"
  define y5 where "y5 = (on_bridge (\<lambda>s. fst (process_envelope 0 opened_frame s)) y4)\<lparr>bs_frames := [guest_frame]\<rparr>"
  define y6 where "y6 = on_bridge (request_leaves 2) y5"
  define y7 where "y7 = y6\<lparr>bs_bridge := snd (attach_opened 1 (Opened 1 7) (bs_bridge y6))\<rparr>"
  define y8 where "y8 = (on_bridge (\<lambda>s. fst (process_envelope 0 guest_frame s)) y7)\<lparr>bs_frames := []\<rparr>"
  define y9 where "y9 = y8\<lparr>bs_bridge := snd (send_section 1 caller_frame (bs_bridge y8))\<rparr>"
  note eval = process_envelope_def process_message_def deliver_reply_def new_envelope_def on_bridge_def Let_def
    attach_inserts_def request_registers_def request_leaves_def attach_opened_def set_runtime_def attached_as_def
    send_section_def addressed_def stream_accepts_def push_stream_def STREAM_DEPTH_def PENDING_LIMIT_def no_stream_def
  have b0: "?s y0 = new_bridge 1 [98]" "bs_decoder y0 = new_decoder" "bs_frames y0 = []" by (simp_all add: y0_def start_system_def)
  have b2: "?s y2 = (new_bridge 1 [98])\<lparr>br_ready := True, br_last_rx := Some 0, br_stages := [VersionReceived]\<rparr>"
    by (simp add: y2_def y1_def b0 eval new_bridge_def record_stage_def)
  have b3: "attach_inserts (?s y2) = (Inr 1, ?s y3)" by (simp add: y3_def b2 eval new_bridge_def)
  have b4: "?s y4 = (?s y3)\<lparr>br_next := 3, br_pending := [2], br_replies := (br_replies (?s y3))(2 := SlotWaiting)\<rparr>"
    "fst (request_registers (Open 1) (?s y3)) = Inr (new_envelope 1 2 (Open 1))"
    by (simp_all add: y4_def y3_def b2 eval new_bridge_def numeral_2_eq_2)
  have b5: "br_replies (?s y5) 2 = SlotReplied (Opened 1 7)" "br_attachment (?s y5) = Some \<lparr>at_id = 1, at_runtime = 7\<rparr>"
    "br_dead (?s y5) = False" "br_ready (?s y5)" "br_outgoing (?s y5) = []" "br_generation (?s y5) = 1" "br_pending (?s y5) = []"
    "br_streams (?s y5) = br_streams (?s y3)"
    by (simp_all add: y5_def b4 y3_def b2 eval new_bridge_def)
  have b3s: "br_streams (?s y3) (Suc 0) = \<lparr>sm_queue = [], sm_sender = True, sm_closed = None, sm_reader = True\<rparr>"
    by (simp add: y3_def b2 eval new_bridge_def)
  have b6: "attach_opened 1 (Opened 1 7) (?s y6) = (Inr 7, ?s y7)"
    by (simp add: y7_def y6_def b5 eval)
  have b7: "br_attachment (?s y7) = Some \<lparr>at_id = 1, at_runtime = 7\<rparr>" "br_dead (?s y7) = False" "br_ready (?s y7)"
    "br_outgoing (?s y7) = []" "br_generation (?s y7) = 1" "br_pending (?s y7) = []"
    "br_streams (?s y7) (Suc 0) = \<lparr>sm_queue = [], sm_sender = True, sm_closed = None, sm_reader = True\<rparr>"
    using b3s by (simp_all add: y7_def y6_def b5 eval)
  have b8: "br_attachment (?s y8) = Some \<lparr>at_id = 1, at_runtime = 7\<rparr>" "br_dead (?s y8) = False" "br_ready (?s y8)"
    "br_outgoing (?s y8) = []" "br_generation (?s y8) = 1" "sm_queue (br_streams (?s y8) (Suc 0)) = [()]"
    by (simp_all add: y8_def b7 eval)
  have b9: "send_section 1 caller_frame (?s y8) = (SendQueued, ?s y9)"
    by (simp add: y9_def b8 eval)
  have t0: "?T [] y0" unfolding y0_def by (rule Started)
  have "decode_payload [] sample_de [1, 0, 0, 0, 0, 1, 0, 0, 0, 1, 1, 0, 0, 0, 2] (?s y0, bs_decoder y0)
      = ([ready_frame, opened_frame, guest_frame], ?s y0, bs_decoder y0)"
    by (simp add: decode_payload_def b0 sample_decoded)
  from bridge_trace.Stepped [OF t0 bridge_step.Payload [OF b0(3) this]]
  have t1: "?T [Silent] y1" by (simp add: y1_def)
  have "bs_frames y1 = ready_frame # [opened_frame, guest_frame]" by (simp add: y1_def)
  from bridge_trace.Stepped [OF t1 bridge_step.Frame [OF this, of "[]" sample_de 0]]
  have t2: "?T [Silent, Framed ready_frame] y2" by (simp add: y2_def)
  from bridge_trace.Stepped [OF t2 bridge_step.Attaches [OF b3]]
  have t3: "?T [Silent, Framed ready_frame, Attached 1] y3" by (simp add: y3_def)
  from bridge_trace.Stepped [OF t3 bridge_step.Asks [of "[]" sample_de y3 "Open 1"], unfolded b4(2)]
  have t4: "?T [Silent, Framed ready_frame, Attached 1, Asked (Inr (new_envelope 1 2 (Open 1)))] y4"
    by (simp add: y4_def)
  have "bs_frames y4 = opened_frame # [guest_frame]" by (simp add: y4_def y3_def y2_def on_bridge_def)
  from bridge_trace.Stepped [OF t4 bridge_step.Frame [OF this, of "[]" sample_de 0]]
  have t5: "?T [Silent, Framed ready_frame, Attached 1, Asked (Inr (new_envelope 1 2 (Open 1))), Framed opened_frame] y5"
    by (simp add: y5_def)
  have "request_answer ReplyPolled (br_replies (?s y5) 2) = Some (Inr (Opened 1 7))" "br_replies (?s y5) 2 \<noteq> SlotUnused"
    by (simp_all add: b5)
  from bridge_trace.Stepped [OF t5 bridge_step.Answers [OF this(2,1)]]
  have t6: "?T [Silent, Framed ready_frame, Attached 1, Asked (Inr (new_envelope 1 2 (Open 1))), Framed opened_frame,
     Answered 2 (Inr (Opened 1 7))] y6" by (simp add: y6_def)
  from bridge_trace.Stepped [OF t6 bridge_step.Opens [OF b6]]
  have t7: "?T [Silent, Framed ready_frame, Attached 1, Asked (Inr (new_envelope 1 2 (Open 1))), Framed opened_frame,
     Answered 2 (Inr (Opened 1 7)), OpenedAs 1 7] y7" by (simp add: y7_def)
  have "bs_frames y7 = guest_frame # []" by (simp add: y7_def y6_def y5_def on_bridge_def)
  from bridge_trace.Stepped [OF t7 bridge_step.Frame [OF this, of "[]" sample_de 0]]
  have t8: "?T [Silent, Framed ready_frame, Attached 1, Asked (Inr (new_envelope 1 2 (Open 1))), Framed opened_frame,
     Answered 2 (Inr (Opened 1 7)), OpenedAs 1 7, Framed guest_frame] y8" by (simp add: y8_def)
  have c: "caller_frame = new_envelope (br_generation (?s y8)) 0 (Mcp 1 7 ())" by (simp add: b8)
  from bridge_trace.Stepped [OF t8 bridge_step.Sends [OF c b9]]
  have t9: "?T sample_events y9" by (simp add: y9_def sample_events_def)
  have "attached_as 1 (?s y9) \<and> br_ready (?s y9) \<and> \<not> br_dead (?s y9) \<and> sm_queue (br_streams (?s y9) 1) = [()]
     \<and> br_outgoing (?s y9) = [caller_frame]"
    by (simp add: y9_def b8 eval)
  with t9 show ?thesis by blast
qed


lemma ready_names_the_bundle_witness:
  "\<exists>e v. Framed e \<in> set sample_events \<and> env_generation e = 1 \<and> env_message e = Ready [98] v"
  using sample_trace ready_names_the_bundle by blast

lemma reply_is_its_own_witness:
  "length (answers_of 2 sample_events) \<le> 1
   \<and> (\<exists>e. Framed e \<in> set sample_events \<and> env_generation e = 1 \<and> env_control_id e = 2 \<and> env_message e = Opened 1 7)"
proof -
  obtain y where "bridge_trace [] sample_de 1 [98] sample_events y" using sample_trace by blast
  from reply_is_its_own [OF this, of 2 "Opened 1 7"] show ?thesis by (simp add: sample_events_def)
qed

lemma stream_in_order_witness:
  "\<exists>y. bridge_trace [] sample_de 1 [98] sample_events y
     \<and> received 1 sample_events @ sm_queue (br_streams (bs_bridge y) 1) = [()]
     \<and> sent_values (guest_sent 1 1 sample_events) = [()]"
proof -
  obtain y where y: "bridge_trace [] sample_de 1 [98] sample_events y" "attached_as 1 (bs_bridge y)"
    "\<not> br_dead (bs_bridge y)" "sm_queue (br_streams (bs_bridge y) 1) = [()]" using sample_trace by blast
  have "received 1 sample_events = []" by (simp add: sample_events_def)
  with stream_in_order [OF y(1), of 1] y show ?thesis by auto
qed

lemma waiting_data_is_taken_witness:
  "\<exists>tr y. bridge_trace [] sample_de 1 [98] (sample_events @ tr @ [Passed caller_frame]) y \<and> length tr \<le> 1"
proof -
  obtain y where y: "bridge_trace [] sample_de 1 [98] sample_events y" "br_outgoing (bs_bridge y) = [caller_frame]"
    using sample_trace by blast
  with waiting_data_is_taken [OF y(1)] show ?thesis by blast
qed

lemma retirement_is_kept_witness:
  "\<exists>y :: unit bridge_system. bridge_trace [] sample_de 1 [98] [Silent, Retired 0] y
     \<and> (\<exists>e. br_retire (bs_bridge y) = Some e \<and> 0 \<le> retire_id (Some e))"
proof -
  let ?y = "start_system 1 [98] :: unit bridge_system"
  let ?y1 = "(on_bridge (close_attachment_id 0 []) ?y)\<lparr>bs_retiring := (0, []) # bs_retiring ?y\<rparr>"
  let ?y2 = "(on_bridge (retire_section 0 []) ?y1)\<lparr>bs_retiring := remove1 (0, []) (bs_retiring ?y1)\<rparr>"
  have "0 < br_next (bs_bridge ?y)" by (simp add: start_system_def new_bridge_def)
  from bridge_trace.Stepped [OF Started bridge_step.RetireStarts [OF this]]
  have t1: "bridge_trace [] sample_de 1 [98] [Silent] ?y1" by simp
  have "(0, []) \<in> set (bs_retiring ?y1)" by simp
  from bridge_trace.Stepped [OF t1 bridge_step.RetireEnds [OF this]]
  have t2: "bridge_trace [] sample_de 1 [98] [Silent, Retired 0] ?y2" by simp
  then have "\<exists>e. (br_retire (bs_bridge ?y2) = Some e \<or> RetiredTo e \<in> set [Silent, Retired 0]) \<and> 0 \<le> retire_id (Some e)"
    by (rule retirement_is_kept) simp
  with t2 show ?thesis by auto
qed

lemma bridge_bounded_witness: "\<exists>y. bridge_trace [] sample_de 1 [98] sample_events y \<and> length (br_outgoing (bs_bridge y)) \<le> 8"
  using sample_trace bridge_bounded [of "[]" sample_de 1 "[98]" sample_events] by (auto simp: STREAM_DEPTH_def)

subsection \<open>A restart\<close>

text \<open>
  \<open>start\<close> does not reset the decoder: what the old channel left of a frame swallows the
  first frame of the new one.
\<close>

lemma restart_keeps_partial_frame:
  "bs_decoder (on_bridge (\<lambda>s. snd (bridge_start s)) y) = bs_decoder y
   \<and> push sample_de new_decoder [1, 0] = (Inr [], \<lparr>buffer = [1, 0], expected = None\<rparr>)
   \<and> fst (push sample_de new_decoder [1, 0, 0, 0, 0]) = Inr [ready_frame]
   \<and> fst (push sample_de \<lparr>buffer = [1, 0], expected = None\<rparr> [1, 0, 0, 0, 0]) = Inr []"
proof -
  note eval = new_envelope_version sample_de_def step_byte_def and_then_def one_frame_def complete_part_def new_decoder_def target_def
        from_le_bytes_def frame_list_def MAX_FRAME_BYTES_def
  show ?thesis
  proof (intro conjI)
    show "push sample_de new_decoder [1, 0] = (Inr [], \<lparr>buffer = [1, 0], expected = None\<rparr>)"
      by (subst push_run, simp add: new_decoder_def target_def) (simp add: eval)
    show "fst (push sample_de new_decoder [1, 0, 0, 0, 0]) = Inr [ready_frame]"
      by (subst push_run, simp add: new_decoder_def target_def) (simp add: eval)
    show "fst (push sample_de \<lparr>buffer = [1, 0], expected = None\<rparr> [1, 0, 0, 0, 0]) = Inr []"
      by (subst push_run, simp add: target_def) (simp add: eval)
  qed (simp add: on_bridge_def)
qed

end
