(* ===== verification/Recording_Log.thy ===== *)
theory Recording_Log
  imports Session_Events Webm_Writer "HOL-Library.Sublist"
begin

text \<open>
  The event log of a recording (\<open>daemon/src/recording/log.rs\<close>): the bounded queue between the
  session's event log and the recorder, and the writer of \<open>events.jsonl\<close>. The JSON of an
  event is a parameter; where a write stops is an argument.
\<close>

subsection \<open>The queue\<close>

definition QUEUE_CAPACITY :: nat where "QUEUE_CAPACITY = 1024"

record event_queue =
  eq_events :: "session_event list"
  eq_lost :: nat
  eq_last :: "session_event option"
  eq_closed :: bool

definition new_queue :: event_queue where
  "new_queue = \<lparr>eq_events = [], eq_lost = 0, eq_last = None, eq_closed = False\<rparr>"

record drained =
  dr_events :: "session_event list"
  dr_lost :: nat
  dr_last :: "session_event option"
  dr_closed :: bool

definition drain_events :: "event_queue \<Rightarrow> drained \<times> event_queue" where
  "drain_events q =
     (\<lparr>dr_events = eq_events q, dr_lost = eq_lost q, dr_last = eq_last q, dr_closed = eq_closed q\<rparr>,
      q\<lparr>eq_events := [], eq_lost := 0, eq_last := None\<rparr>)"

definition on_event :: "session_event \<Rightarrow> event_queue \<Rightarrow> bool \<times> event_queue" where
  "on_event e q =
     (if eq_closed q then (False, q)
      else if QUEUE_CAPACITY \<le> length (eq_events q) then (False, q\<lparr>eq_lost := eq_lost q + 1\<rparr>)
      else (True, q\<lparr>eq_events := eq_events q @ [e]\<rparr>))"

definition on_detach :: "session_event \<Rightarrow> event_queue \<Rightarrow> event_queue" where
  "on_detach e q = q\<lparr>eq_last := Some e, eq_closed := True\<rparr>"

definition drop_sink :: "event_queue \<Rightarrow> event_queue" where
  "drop_sink q = q\<lparr>eq_closed := True\<rparr>"

text \<open>
  The session log and the recorder at work on the queue; the owner of the sink detaches it
  at most once and drops it then.
\<close>

datatype queue_event = Offers session_event | Detaches session_event | SinkDropped | Drains

fun queue_step :: "queue_event \<Rightarrow> event_queue \<times> drained list \<Rightarrow> event_queue \<times> drained list" where
  "queue_step (Offers e) (q, ds) = (snd (on_event e q), ds)"
| "queue_step (Detaches e) (q, ds) = (on_detach e q, ds)"
| "queue_step SinkDropped (q, ds) = (drop_sink q, ds)"
| "queue_step Drains (q, ds) = (snd (drain_events q), ds @ [fst (drain_events q)])"

definition queue_run :: "queue_event list \<Rightarrow> event_queue \<times> drained list" where
  "queue_run es = fold queue_step es (new_queue, [])"

text \<open>What was offered before the sink was gone.\<close>

fun offered :: "queue_event list \<Rightarrow> session_event list" where
  "offered [] = []"
| "offered (Offers e # es) = e # offered es"
| "offered (Drains # es) = offered es"
| "offered (_ # es) = []"

definition queue_closes :: "queue_event \<Rightarrow> bool" where
  "queue_closes ev \<longleftrightarrow> (case ev of Detaches _ \<Rightarrow> True | SinkDropped \<Rightarrow> True | _ \<Rightarrow> False)"

definition got_events :: "event_queue \<times> drained list \<Rightarrow> session_event list" where
  "got_events s = concat (map dr_events (snd s)) @ eq_events (fst s)"

definition got_lost :: "event_queue \<times> drained list \<Rightarrow> nat" where
  "got_lost s = sum_list (map dr_lost (snd s)) + eq_lost (fst s)"

lemma queue_run_snoc: "queue_run (es @ [ev]) = queue_step ev (queue_run es)"
  by (simp add: queue_run_def)

lemma offered_snoc:
  "offered (es @ [ev]) = offered es @ (case ev of Offers e \<Rightarrow> if list_ex queue_closes es then [] else [e] | _ \<Rightarrow> [])"
  by (induction es rule: offered.induct) (auto simp: queue_closes_def split: queue_event.splits)

lemma queue_closed_run: "eq_closed (fst (queue_run es)) \<longleftrightarrow> list_ex queue_closes es"
proof (induction es rule: rev_induct)
  case (snoc ev es)
  obtain q ds where r: "queue_run es = (q, ds)" by fastforce
  show ?case using snoc
    by (cases ev) (auto simp: queue_run_snoc r on_event_def on_detach_def drop_sink_def drain_events_def queue_closes_def)
qed (simp add: queue_run_def new_queue_def)

text \<open>
  C13. However the session log and the recorder interleave, every event that is offered to an
  attached recording either reaches the recorder or is counted as lost, exactly once; those
  that arrive keep their order; and the queue never holds more than 1024.
\<close>

theorem events_arrive_or_are_counted:
  "subseq (got_events (queue_run es)) (offered es)
   \<and> length (got_events (queue_run es)) + got_lost (queue_run es) = length (offered es)
   \<and> length (eq_events (fst (queue_run es))) \<le> QUEUE_CAPACITY"
proof (induction es rule: rev_induct)
  case (snoc ev es)
  obtain q ds where r: "queue_run es = (q, ds)" by fastforce
  have c: "eq_closed q \<longleftrightarrow> list_ex queue_closes es" using queue_closed_run [of es] r by simp
  show ?case
  proof (cases ev)
    case (Offers e)
    consider "eq_closed q" | "\<not> eq_closed q" "QUEUE_CAPACITY \<le> length (eq_events q)"
      | "\<not> eq_closed q" "length (eq_events q) < QUEUE_CAPACITY" by linarith
    then show ?thesis
      using snoc Offers c
      by cases (simp_all add: queue_run_snoc r on_event_def offered_snoc got_events_def got_lost_def
          list_emb_append_mono subseq_rev_drop_many flip: append_assoc)
  qed (use snoc in \<open>simp_all add: queue_run_snoc r on_detach_def drop_sink_def drain_events_def offered_snoc
        got_events_def got_lost_def\<close>)
qed (simp add: queue_run_def new_queue_def got_events_def got_lost_def)

subsection \<open>The file\<close>

record event_log =
  el_file :: bytes
  el_next_seq :: nat
  el_start_offset :: nat
  el_last_offset :: nat
  el_bytes :: nat

definition create_log :: "nat \<Rightarrow> event_log" where
  "create_log start_offset =
     \<lparr>el_file = [], el_next_seq = 1, el_start_offset = start_offset, el_last_offset = 0, el_bytes = 0\<rparr>"

definition timeline :: "nat \<Rightarrow> event_log \<Rightarrow> nat" where
  "timeline session_offset l = session_offset - el_start_offset l"

definition stamped :: "session_event \<Rightarrow> event_log \<Rightarrow> session_event" where
  "stamped e l = e\<lparr>ev_seq := el_next_seq l, ev_offset_ms := max (timeline (ev_offset_ms e) l) (el_last_offset l)\<rparr>"

definition newline :: u8 where "newline = 10"

text \<open>
  \<open>ser\<close> is the JSON of an event; \<open>stops n\<close> says whether a write at file length \<open>n\<close> fails,
  and after how many bytes.
\<close>

definition log_event ::
  "(session_event \<Rightarrow> bytes option) \<Rightarrow> (nat \<Rightarrow> nat option) \<Rightarrow> session_event \<Rightarrow> event_log \<Rightarrow> bool \<times> event_log" where
  "log_event ser stops e l =
     (let e' = stamped e l
      in case ser e' of
           None \<Rightarrow> (False, l)
         | Some json \<Rightarrow>
             (let line = json @ [newline]
              in case stops (length (el_file l)) of
                   Some k \<Rightarrow> (False, l\<lparr>el_file := el_file l @ take k line\<rparr>)
                 | None \<Rightarrow> (True, l\<lparr>el_file := el_file l @ line, el_next_seq := el_next_seq l + 1,
                     el_last_offset := ev_offset_ms e', el_bytes := el_bytes l + length line\<rparr>)))"

text \<open>The recorder's use of the log: after a failed write nothing more is written.\<close>

fun log_events ::
  "(session_event \<Rightarrow> bytes option) \<Rightarrow> (nat \<Rightarrow> nat option) \<Rightarrow> session_event list \<Rightarrow> event_log \<Rightarrow> session_event list \<times> event_log" where
  "log_events ser stops [] l = ([], l)"
| "log_events ser stops (e # es) l =
     (case log_event ser stops e l of
        (False, l') \<Rightarrow> ([], l')
      | (True, l') \<Rightarrow> (case log_events ser stops es l' of (ws, l'') \<Rightarrow> (stamped e l # ws, l'')))"

text \<open>A reader of \<^verbatim>\<open>events.jsonl\<close>: the complete lines.\<close>

fun read_lines :: "bytes \<Rightarrow> bytes \<Rightarrow> bytes list" where
  "read_lines acc [] = []"
| "read_lines acc (b # bs) = (if b = newline then acc # read_lines [] bs else read_lines (acc @ [b]) bs)"

lemma read_no_newline: "newline \<notin> set bs \<Longrightarrow> read_lines acc bs = []"
  by (induction acc bs rule: read_lines.induct) auto

lemma read_one_line: "newline \<notin> set js \<Longrightarrow> read_lines acc (js @ newline # bs) = (acc @ js) # read_lines [] bs"
  by (induction js arbitrary: acc) auto

lemma read_torn: "newline \<notin> set js \<Longrightarrow> length (read_lines [] (take k (js @ [newline]))) \<le> 1"
proof (cases "k \<le> length js")
  case True
  assume "newline \<notin> set js"
  then have "newline \<notin> set (take k js)" by (meson in_set_takeD)
  then show ?thesis using True by (simp add: read_no_newline)
next
  case False
  assume "newline \<notin> set js"
  then show ?thesis using False read_one_line [of js "[]" "[]"] by simp
qed

definition same_content :: "session_event \<Rightarrow> session_event \<Rightarrow> bool" where
  "same_content w e \<longleftrightarrow> ev_at w = ev_at e \<and> ev_frame_seq w = ev_frame_seq e \<and> ev_source w = ev_source e \<and> ev_kind w = ev_kind e"

definition complete_lines :: "bytes list \<Rightarrow> bytes" where
  "complete_lines ls = concat (map (\<lambda>l. l @ [newline]) ls)"

lemma read_complete: "list_all (\<lambda>l. newline \<notin> set l) ls \<Longrightarrow> read_lines [] (complete_lines ls @ bs) = ls @ read_lines [] bs"
  by (induction ls) (simp_all add: complete_lines_def read_one_line)

lemma log_event_cases:
  assumes "log_event ser stops e l = (ok, l')"
  obtains json where "ok" "ser (stamped e l) = Some json" "el_file l' = el_file l @ json @ [newline]"
      "el_next_seq l' = el_next_seq l + 1" "el_last_offset l' = ev_offset_ms (stamped e l)"
      "el_bytes l' = el_bytes l + length json + 1" "el_start_offset l' = el_start_offset l"
  | k json where "\<not> ok" "ser (stamped e l) = Some json" "el_file l' = el_file l @ take k (json @ [newline])"
  | "\<not> ok" "l' = l"
  using assms by (auto simp: log_event_def Let_def split: option.splits)

definition one_line :: "(session_event \<Rightarrow> bytes option) \<Rightarrow> bool" where
  "one_line ser \<longleftrightarrow> (\<forall>e js. ser e = Some js \<longrightarrow> newline \<notin> set js)"

lemma log_events_spec:
  assumes ser: "one_line ser"
  shows "log_events ser stops es l = (ws, l') \<Longrightarrow>
    map ev_seq ws = [el_next_seq l..<el_next_seq l + length ws]
    \<and> sorted (el_last_offset l # map ev_offset_ms ws)
    \<and> list_all2 same_content ws (take (length ws) es)
    \<and> (\<exists>torn. length (read_lines [] torn) \<le> 1 \<and> el_file l' = el_file l @ complete_lines (map (the \<circ> ser) ws) @ torn
        \<and> (length ws = length es \<longrightarrow> torn = [] \<and> el_bytes l' + length (el_file l) = el_bytes l + length (el_file l')))
    \<and> list_all (\<lambda>e. ser e \<noteq> None) ws"
proof (induction es arbitrary: l ws)
  case Nil
  then show ?case by (simp add: complete_lines_def)
next
  case (Cons e es)
  obtain ok l1 where s: "log_event ser stops e l = (ok, l1)" by fastforce
  from s show ?case
  proof (cases rule: log_event_cases)
    case (1 json)
    then obtain ws1 where r: "log_events ser stops es l1 = (ws1, l')" and ws: "ws = stamped e l # ws1"
      using Cons.prems s by (auto split: prod.splits)
    note IH = Cons.IH [OF r]
    have "[el_next_seq l..<el_next_seq l + length ws] = el_next_seq l # [el_next_seq l + 1..<el_next_seq l + 1 + length ws1]"
      by (simp add: ws upt_rec)
    moreover have "ev_seq (stamped e l) = el_next_seq l" "el_last_offset l \<le> ev_offset_ms (stamped e l)"
      "same_content (stamped e l) e" by (simp_all add: stamped_def same_content_def)
    ultimately have "map ev_seq ws = [el_next_seq l..<el_next_seq l + length ws]"
      "sorted (el_last_offset l # map ev_offset_ms ws)" "list_all2 same_content ws (take (length ws) (e # es))"
      "list_all (\<lambda>e. ser e \<noteq> None) ws"
      using IH 1 by (auto simp: ws)
    moreover from IH obtain torn where "length (read_lines [] torn) \<le> 1"
      "el_file l' = el_file l1 @ complete_lines (map (the \<circ> ser) ws1) @ torn"
      "length ws1 = length es \<longrightarrow> torn = [] \<and> el_bytes l' + length (el_file l1) = el_bytes l1 + length (el_file l')" by blast
    then have "length (read_lines [] torn) \<le> 1 \<and> el_file l' = el_file l @ complete_lines (map (the \<circ> ser) ws) @ torn
        \<and> (length ws = length (e # es) \<longrightarrow> torn = [] \<and> el_bytes l' + length (el_file l) = el_bytes l + length (el_file l'))"
      using 1 by (auto simp: ws complete_lines_def)
    ultimately show ?thesis by blast
  next
    case (2 k json)
    then have "ws = []" "l' = l1" using Cons.prems s by auto
    moreover have "length (read_lines [] (take k (json @ [newline]))) \<le> 1" using read_torn ser 2(2) unfolding one_line_def by blast
    ultimately show ?thesis using 2 by (auto simp: complete_lines_def intro!: exI [of _ "take k (json @ [newline])"])
  next
    case 3
    then have "ws = []" "l' = l" using Cons.prems s by auto
    then show ?thesis by (auto simp: complete_lines_def intro!: exI [of _ "[]"])
  qed
qed

text \<open>
  C14. The event file of a recording reads back: its complete lines are the events that were
  written, in order, numbered from 1 without a gap, with offsets that never decrease and all
  other fields as they were recorded; a write that is cut leaves at most one line more, and
  without a failure the byte count is the length of the file.
\<close>

theorem event_file_reads_back:
  assumes "one_line ser" and "log_events ser stops es (create_log start) = (ws, l)"
  shows "map ev_seq ws = [1..<length ws + 1] \<and> sorted (map ev_offset_ms ws)
    \<and> list_all2 same_content ws (take (length ws) es)
    \<and> (\<exists>more. length more \<le> 1 \<and> read_lines [] (el_file l) = map (the \<circ> ser) ws @ more
        \<and> (length ws = length es \<longrightarrow> more = [] \<and> el_bytes l = length (el_file l)))"
proof -
  let ?l = "create_log start"
  have spec: "map ev_seq ws = [el_next_seq ?l..<el_next_seq ?l + length ws]
    \<and> sorted (el_last_offset ?l # map ev_offset_ms ws)
    \<and> list_all2 same_content ws (take (length ws) es)
    \<and> (\<exists>torn. length (read_lines [] torn) \<le> 1 \<and> el_file l = el_file ?l @ complete_lines (map (the \<circ> ser) ws) @ torn
        \<and> (length ws = length es \<longrightarrow> torn = [] \<and> el_bytes l + length (el_file ?l) = el_bytes ?l + length (el_file l)))
    \<and> list_all (\<lambda>e. ser e \<noteq> None) ws"
    by (rule log_events_spec [OF assms])
  then have s: "map ev_seq ws = [1..<1 + length ws]" "sorted (map ev_offset_ms ws)"
    "list_all2 same_content ws (take (length ws) es)" "list_all (\<lambda>e. ser e \<noteq> None) ws"
    by (simp_all add: create_log_def)
  from spec obtain torn where t: "length (read_lines [] torn) \<le> 1" "el_file l = complete_lines (map (the \<circ> ser) ws) @ torn"
    "length ws = length es \<longrightarrow> torn = [] \<and> el_bytes l = length (el_file l)"
    unfolding create_log_def by auto
  have "list_all (\<lambda>l. newline \<notin> set l) (map (the \<circ> ser) ws)"
    using s(4) assms(1) by (auto simp: list_all_iff one_line_def)
  then have "read_lines [] (el_file l) = map (the \<circ> ser) ws @ read_lines [] torn" by (simp add: t read_complete)
  then show ?thesis using s t by auto
qed

text \<open>Two events, of which the second one's write is cut after one byte.\<close>

definition sample_event :: "nat \<Rightarrow> session_event" where
  "sample_event off = \<lparr>ev_seq = 0, ev_at = [], ev_offset_ms = off, ev_frame_seq = 0, ev_source = Cli, ev_kind = SessionEnded\<rparr>"

definition sample_ser :: "session_event \<Rightarrow> bytes option" where
  "sample_ser e = (if ev_seq e = 1 then Some [49] else Some [50])"

definition sample_stops :: "nat \<Rightarrow> nat option" where
  "sample_stops n = (if n = 2 then Some 1 else None)"

lemma event_file_reads_back_witness:
  "\<exists>ws l. log_events sample_ser sample_stops [sample_event 30, sample_event 20] (create_log 10) = (ws, l)
     \<and> map ev_seq ws = [1] \<and> map ev_offset_ms ws = [20] \<and> el_file l = [49, 10, 50]
     \<and> (\<exists>more. length more \<le> 1 \<and> read_lines [] (el_file l) = map (the \<circ> sample_ser) ws @ more)"
proof -
  obtain ws l where w: "log_events sample_ser sample_stops [sample_event 30, sample_event 20] (create_log 10) = (ws, l)" by fastforce
  have "one_line sample_ser" by (auto simp: one_line_def sample_ser_def newline_def split: if_splits)
  from event_file_reads_back [OF this w]
  have "\<exists>more. length more \<le> 1 \<and> read_lines [] (el_file l) = map (the \<circ> sample_ser) ws @ more" by blast
  moreover have "ws = [stamped (sample_event 30) (create_log 10)]" "el_file l = [49, 10, 50]"
    using w by (auto simp: log_event_def sample_ser_def sample_stops_def stamped_def timeline_def create_log_def
        sample_event_def newline_def)
  ultimately show ?thesis using w by (auto simp: stamped_def timeline_def create_log_def sample_event_def)
qed

end
