(* ===== verification/Recorder.thy ===== *)
theory Recorder
  imports Recording_Log I420_Frames Webm_Roundtrip
begin

text \<open>
  The recorder (\<open>daemon/src/recording/recorder.rs\<close>) with the mailbox of the capture stage
  (\<open>capture.rs\<close>): it writes the events, encodes the frames into segments and keeps the
  manifest. The encoder is the record of its functions over a state \<open>'e\<close>; the faults of the
  files are fields of the environment. Times are milliseconds of the recording timeline. The
  cost figures that are floating-point (times of calls) are not modelled.
\<close>

subsection \<open>The mailbox\<close>

record captured_frame =
  cf_offset_ms :: nat
  cf_frame_seq :: nat
  cf_width :: nat
  cf_height :: nat
  cf_rgba :: "u8 list"

record frame_take =
  ft_frame :: captured_frame
  ft_dropped :: nat
  ft_first_dropped_ms :: "nat option"

record mailbox =
  mb_frame :: "captured_frame option"
  mb_dropped :: nat
  mb_first_dropped_ms :: "nat option"
  mb_captured :: nat

definition new_mailbox :: mailbox where
  "new_mailbox = \<lparr>mb_frame = None, mb_dropped = 0, mb_first_dropped_ms = None, mb_captured = 0\<rparr>"

definition put_frame :: "captured_frame \<Rightarrow> mailbox \<Rightarrow> mailbox" where
  "put_frame f m =
     (let m1 = m\<lparr>mb_captured := mb_captured m + 1\<rparr>;
          m2 = (case mb_frame m1 of
                  None \<Rightarrow> m1
                | Some old \<Rightarrow> m1\<lparr>mb_dropped := mb_dropped m1 + 1,
                    mb_first_dropped_ms := (case mb_first_dropped_ms m1 of
                      None \<Rightarrow> Some (cf_offset_ms old) | Some t \<Rightarrow> Some t)\<rparr>)
      in m2\<lparr>mb_frame := Some f\<rparr>)"

definition take_frame :: "mailbox \<Rightarrow> frame_take option \<times> mailbox" where
  "take_frame m =
     (case mb_frame m of
        None \<Rightarrow> (None, m)
      | Some f \<Rightarrow>
          (Some \<lparr>ft_frame = f, ft_dropped = mb_dropped m, ft_first_dropped_ms = mb_first_dropped_ms m\<rparr>,
           m\<lparr>mb_frame := None, mb_dropped := 0, mb_first_dropped_ms := None\<rparr>))"

subsection \<open>The state\<close>

definition SEGMENT_MS :: nat where "SEGMENT_MS = 60000"
definition MAX_PENDING :: nat where "MAX_PENDING = 8"

record packet =
  pk_input_frameno :: nat
  pk_data :: bytes
  pk_key :: bool

record 'e rec_env =
  re_ser :: "session_event \<Rightarrow> bytes option"
  re_stops :: "nat \<Rightarrow> nat option"
  re_create :: "nat \<Rightarrow> nat \<Rightarrow> 'e option"
  re_send :: "i420 \<Rightarrow> bool \<Rightarrow> 'e \<Rightarrow> 'e option"
  re_receive :: "'e \<Rightarrow> (packet list \<times> 'e) option"
  re_flush :: "'e \<Rightarrow> packet list option"
  re_codec_config :: "'e \<Rightarrow> bytes"
  re_file_made :: "nat \<Rightarrow> bool"
  re_file_ok :: "nat \<Rightarrow> nat \<Rightarrow> bool"
  re_commits :: "nat \<Rightarrow> bool"
  re_sequence_header :: "bytes \<Rightarrow> bytes option"
  re_f64 :: "nat \<Rightarrow> bytes"
  re_start_wall :: int
  re_start_offset :: nat
  re_budget_bytes :: nat
  re_segment_ms :: nat

record pending_frame =
  pf_input_frameno :: nat
  pf_offset_ms :: nat

record 'e video_segment =
  sg_number :: nat
  sg_encoder :: 'e
  sg_writer :: segment_writer
  sg_first_offset :: nat
  sg_last_offset :: nat
  sg_width :: nat
  sg_height :: nat
  sg_pending :: "pending_frame list"
  sg_next_frameno :: nat
  sg_largest_packet :: nat

record frame_gap =
  gp_from :: nat
  gp_to :: nat
  gp_count :: nat

record segment_entry =
  sn_file :: ustr
  sn_start_offset_ms :: nat
  sn_end_offset_ms :: nat
  sn_frames :: nat
  sn_bytes :: nat
  sn_width :: nat
  sn_height :: nat

record figures =
  fg_frames_encoded :: nat
  fg_frames_dropped :: nat
  fg_gap_periods :: nat
  fg_held_at_close_max :: nat
  fg_events_lost :: nat

text \<open>
  \<open>rc_files\<close> are the finished segment files by number, \<open>rc_parts\<close> the unfinished ones.
  \<open>rc_written\<close> (the events in the file) and \<open>rc_sent\<close> (the capture times of the frames that
  the encoder of a segment took) are histories; no operation reads them.
\<close>

record 'e recorder =
  rc_log :: event_log
  rc_segment :: "'e video_segment option"
  rc_next_segment :: nat
  rc_closed_bytes :: nat
  rc_video_stopped :: bool
  rc_last_size :: "(nat \<times> nat) option"
  rc_last_frame_seq :: nat
  rc_gap :: "frame_gap option"
  rc_figures :: figures
  rc_failed :: bool
  rc_segments :: "segment_entry list"
  rc_files :: "nat \<Rightarrow> bytes option"
  rc_parts :: "nat set"
  rc_written :: "session_event list"
  rc_sent :: "nat \<Rightarrow> nat list"

definition new_recorder :: "'e rec_env \<Rightarrow> 'e recorder" where
  "new_recorder env =
     \<lparr>rc_log = create_log (re_start_offset env), rc_segment = None, rc_next_segment = 1, rc_closed_bytes = 0,
      rc_video_stopped = False, rc_last_size = None, rc_last_frame_seq = 0, rc_gap = None,
      rc_figures = \<lparr>fg_frames_encoded = 0, fg_frames_dropped = 0, fg_gap_periods = 0, fg_held_at_close_max = 0,
        fg_events_lost = 0\<rparr>,
      rc_failed = False, rc_segments = [], rc_files = (\<lambda>_. None), rc_parts = {}, rc_written = [],
      rc_sent = (\<lambda>_. [])\<rparr>"

subsection \<open>Events\<close>

definition own_event :: "'e rec_env \<Rightarrow> nat \<Rightarrow> event_kind \<Rightarrow> 'e recorder \<Rightarrow> session_event" where
  "own_event env now kind r =
     \<lparr>ev_seq = 0, ev_at = iso8601_millis_from_system_time (re_start_wall env + int (re_start_offset env + now) * 1000000),
      ev_offset_ms = re_start_offset env + now, ev_frame_seq = rc_last_frame_seq r, ev_source = Daemon, ev_kind = kind\<rparr>"

definition write_rec :: "'e rec_env \<Rightarrow> session_event \<Rightarrow> 'e recorder \<Rightarrow> 'e recorder" where
  "write_rec env e r =
     (if rc_failed r then r
      else (case log_event (re_ser env) (re_stops env) e (rc_log r) of
              (True, l) \<Rightarrow> r\<lparr>rc_log := l, rc_written := rc_written r @ [stamped e (rc_log r)]\<rparr>
            | (False, l) \<Rightarrow> r\<lparr>rc_log := l, rc_failed := True\<rparr>))"

definition write_own :: "'e rec_env \<Rightarrow> nat \<Rightarrow> event_kind \<Rightarrow> 'e recorder \<Rightarrow> 'e recorder" where
  "write_own env now kind r = write_rec env (own_event env now kind r) r"

definition handle_events :: "'e rec_env \<Rightarrow> session_event list \<Rightarrow> nat \<Rightarrow> nat \<Rightarrow> 'e recorder \<Rightarrow> 'e recorder" where
  "handle_events env events lost now r =
     (let r1 = fold (write_rec env) events r
      in if 0 < lost
         then write_own env now (EventsLost lost)
                (r1\<lparr>rc_figures := (rc_figures r1)\<lparr>fg_events_lost := fg_events_lost (rc_figures r1) + lost\<rparr>\<rparr>)
         else r1)"

definition close_gap :: "'e rec_env \<Rightarrow> nat \<Rightarrow> 'e recorder \<Rightarrow> 'e recorder" where
  "close_gap env now r =
     (case rc_gap r of
        None \<Rightarrow> r
      | Some g \<Rightarrow> write_own env now (FramesDropped (gp_from g) (gp_to g) (gp_count g)) (r\<lparr>rc_gap := None\<rparr>))"

definition stop_video :: "'e rec_env \<Rightarrow> nat \<Rightarrow> video_stop_reason \<Rightarrow> 'e recorder \<Rightarrow> 'e recorder" where
  "stop_video env now reason r =
     (if rc_video_stopped r then r else write_own env now (VideoStopped reason) (r\<lparr>rc_video_stopped := True\<rparr>))"

definition bytes_with_pending :: "'e recorder \<Rightarrow> nat" where
  "bytes_with_pending r =
     rc_closed_bytes r
     + (case rc_segment r of None \<Rightarrow> 0
        | Some s \<Rightarrow> writer_bytes (sg_writer s) + length (sg_pending s) * sg_largest_packet s)
     + el_bytes (rc_log r)"

subsection \<open>Segments\<close>

definition segment_file :: "nat \<Rightarrow> ustr" where
  "segment_file n = pad 6 n @ lit ''.webm''"

text \<open>\<open>mux\<close>: the segment is kept also when a packet does not fit.\<close>

fun mux ::
  "'e rec_env \<Rightarrow> packet list \<Rightarrow> nat \<Rightarrow> 'e video_segment \<Rightarrow> (video_stop_reason + nat) \<times> 'e video_segment" where
  "mux env [] n s = (Inr n, s)"
| "mux env (p # ps) n s =
     (case sg_pending s of
        [] \<Rightarrow> (Inl VideoEncoderError, s)
      | front # rest \<Rightarrow>
          (let s1 = s\<lparr>sg_pending := rest\<rparr>
           in if pf_input_frameno front \<noteq> pk_input_frameno p then (Inl VideoEncoderError, s1)
              else
                (let s2 = s1\<lparr>sg_largest_packet := max (sg_largest_packet s1) (length (pk_data p))\<rparr>
                 in case write_frame (re_file_ok env (sg_number s)) (re_sequence_header env) (re_f64 env 0)
                           (pf_offset_ms front - sg_first_offset s2) (pk_data p) (pk_key p) (sg_writer s2) of
                      None \<Rightarrow> (Inl VideoWriteError, s2)
                    | Some w \<Rightarrow> mux env ps (n + 1) (s2\<lparr>sg_writer := w\<rparr>))))"

definition open_segment :: "'e rec_env \<Rightarrow> nat \<Rightarrow> nat \<times> nat \<Rightarrow> nat \<Rightarrow> 'e recorder \<Rightarrow> bool \<times> 'e recorder" where
  "open_segment env offset dims now r =
     (let number = rc_next_segment r
      in case re_create env (fst dims) (snd dims) of
           None \<Rightarrow> (False, stop_video env now VideoEncoderError r)
         | Some encoder \<Rightarrow>
             if \<not> re_file_made env number then (False, stop_video env now VideoWriteError r)
             else (True, write_own env now (SegmentStarted number offset (fst dims) (snd dims))
               (r\<lparr>rc_next_segment := number + 1, rc_parts := insert number (rc_parts r),
                  rc_segment := Some \<lparr>sg_number = number, sg_encoder = encoder,
                    sg_writer = create_writer (fst dims) (snd dims) (re_codec_config env encoder),
                    sg_first_offset = offset, sg_last_offset = offset, sg_width = fst dims, sg_height = snd dims,
                    sg_pending = [], sg_next_frameno = 0, sg_largest_packet = 0\<rparr>\<rparr>)))"

definition send_picture :: "'e rec_env \<Rightarrow> i420 \<Rightarrow> nat \<Rightarrow> 'e recorder \<Rightarrow> (video_stop_reason + unit) \<times> 'e recorder" where
  "send_picture env picture offset r =
     (case rc_segment r of
        None \<Rightarrow> (Inr (), r)
      | Some s \<Rightarrow>
          (case re_send env picture (sg_next_frameno s = 0) (sg_encoder s) of
             None \<Rightarrow> (Inl VideoEncoderError, r)
           | Some enc \<Rightarrow>
               (let s1 = s\<lparr>sg_encoder := enc,
                      sg_pending := sg_pending s @ [\<lparr>pf_input_frameno = sg_next_frameno s, pf_offset_ms = offset\<rparr>],
                      sg_next_frameno := sg_next_frameno s + 1, sg_last_offset := offset\<rparr>;
                    r1 = r\<lparr>rc_segment := Some s1,
                      rc_sent := (rc_sent r)(sg_number s := rc_sent r (sg_number s) @ [offset])\<rparr>
                in case re_receive env enc of
                     None \<Rightarrow> (Inl VideoEncoderError, r1)
                   | Some (packets, enc') \<Rightarrow>
                       (case mux env packets 0 (s1\<lparr>sg_encoder := enc'\<rparr>) of
                          (Inl reason, s2) \<Rightarrow> (Inl reason, r1\<lparr>rc_segment := Some s2\<rparr>)
                        | (Inr muxed, s2) \<Rightarrow>
                            (let r2 = r1\<lparr>rc_segment := Some s2, rc_figures := (rc_figures r1)
                                   \<lparr>fg_frames_encoded := fg_frames_encoded (rc_figures r1) + muxed\<rparr>\<rparr>
                             in if MAX_PENDING < length (sg_pending s2) then (Inl VideoEncoderError, r2)
                                else (Inr (), r2))))))"

definition fail_video :: "'e rec_env \<Rightarrow> nat \<Rightarrow> video_stop_reason \<Rightarrow> 'e recorder \<Rightarrow> 'e recorder" where
  "fail_video env now reason r =
     (let r1 = (case rc_segment r of
                  None \<Rightarrow> r
                | Some s \<Rightarrow> r\<lparr>rc_segment := None, rc_parts := rc_parts r - {sg_number s}\<rparr>)
      in stop_video env now reason (close_gap env now r1))"

text \<open>\<open>finish\<close> of the writer: the size, and the file if it has a frame.\<close>

definition finish_file :: "'e rec_env \<Rightarrow> nat \<Rightarrow> 'e video_segment \<Rightarrow> (nat \<times> bytes option) option" where
  "finish_file env dur s =
     finish_segment (re_file_ok env (sg_number s)) (re_commits env (sg_number s)) (re_f64 env) dur (sg_writer s)"

definition finish_entry ::
  "'e rec_env \<Rightarrow> nat \<Rightarrow> segment_close_reason \<Rightarrow> 'e video_segment \<Rightarrow> nat \<Rightarrow> bytes option \<Rightarrow> 'e recorder \<Rightarrow> 'e recorder" where
  "finish_entry env fin reason s n file r =
     (let frames = sw_frames (sg_writer s);
          r1 = r\<lparr>rc_closed_bytes := rc_closed_bytes r + n, rc_parts := rc_parts r - {sg_number s},
                 rc_files := (rc_files r)(sg_number s := file)\<rparr>;
          r2 = (if 0 < n then r1\<lparr>rc_segments := rc_segments r1 @
                  [\<lparr>sn_file = segment_file (sg_number s), sn_start_offset_ms = sg_first_offset s, sn_end_offset_ms = fin,
                    sn_frames = frames, sn_bytes = n, sn_width = sg_width s, sn_height = sg_height s\<rparr>]\<rparr> else r1)
      in write_own env fin (SegmentClosed (sg_number s) frames n (fin - sg_first_offset s) reason) r2)"

definition close_segment :: "'e rec_env \<Rightarrow> nat \<Rightarrow> segment_close_reason \<Rightarrow> 'e recorder \<Rightarrow> 'e recorder" where
  "close_segment env fin reason r =
     (case rc_segment r of
        None \<Rightarrow> r
      | Some s0 \<Rightarrow>
          (let f = rc_figures r;
               r1 = r\<lparr>rc_segment := None,
                      rc_figures := f\<lparr>fg_held_at_close_max := max (fg_held_at_close_max f) (length (sg_pending s0))\<rparr>\<rparr>;
               (muxed, s) = (case re_flush env (sg_encoder s0) of
                  None \<Rightarrow> (Inl VideoEncoderError, s0)
                | Some packets \<Rightarrow> mux env packets 0 s0)
           in case muxed of
                Inl _ \<Rightarrow> fail_video env fin VideoEncoderError (r1\<lparr>rc_segment := Some s\<rparr>)
              | Inr n \<Rightarrow>
                  if sg_pending s \<noteq> [] then fail_video env fin VideoEncoderError (r1\<lparr>rc_segment := Some s\<rparr>)
                  else
                    (let r2 = r1\<lparr>rc_figures := (rc_figures r1)\<lparr>fg_frames_encoded := fg_frames_encoded (rc_figures r1) + n\<rparr>\<rparr>;
                         fin' = max fin (sg_last_offset s + 1)
                     in case finish_file env (fin' - sg_first_offset s) s of
                          None \<Rightarrow> stop_video env fin' VideoWriteError r2
                        | Some (nbytes, file) \<Rightarrow> finish_entry env fin' reason s nbytes file r2)))"

subsection \<open>Frames and time\<close>

text \<open>The first half of \<open>handle_frame\<close>: the drops that came with the frame.\<close>

definition note_drops :: "'e rec_env \<Rightarrow> frame_take \<Rightarrow> nat \<Rightarrow> 'e recorder \<Rightarrow> 'e recorder" where
  "note_drops env t now r =
     (let offset = cf_offset_ms (ft_frame t)
      in if 0 < ft_dropped t then
           (let f = (rc_figures r)\<lparr>fg_frames_dropped := fg_frames_dropped (rc_figures r) + ft_dropped t\<rparr>
            in case rc_gap r of
                 Some g \<Rightarrow> r\<lparr>rc_figures := f, rc_gap := Some (g\<lparr>gp_to := offset, gp_count := gp_count g + ft_dropped t\<rparr>)\<rparr>
               | None \<Rightarrow> r\<lparr>rc_figures := f\<lparr>fg_gap_periods := fg_gap_periods f + 1\<rparr>,
                   rc_gap := Some \<lparr>gp_from = (case ft_first_dropped_ms t of Some x \<Rightarrow> x | None \<Rightarrow> offset),
                     gp_to = offset, gp_count = ft_dropped t\<rparr>\<rparr>)
         else close_gap env now r)"

definition note_size :: "'e rec_env \<Rightarrow> captured_frame \<Rightarrow> nat \<Rightarrow> 'e recorder \<Rightarrow> 'e recorder" where
  "note_size env f now r =
     (let dims = (cf_width f, cf_height f);
          r1 = (if rc_last_size r \<noteq> None \<and> rc_last_size r \<noteq> Some dims
                then write_own env now (DesktopResized (cf_width f) (cf_height f))
                       (if rc_segment r \<noteq> None then close_segment env (cf_offset_ms f) SegResize r else r)
                else r)
      in r1\<lparr>rc_last_size := Some dims\<rparr>)"

definition encode_frame :: "'e rec_env \<Rightarrow> captured_frame \<Rightarrow> nat \<Rightarrow> 'e recorder \<Rightarrow> 'e recorder" where
  "encode_frame env f now r =
     (if re_budget_bytes env \<le> bytes_with_pending r then
        stop_video env now VideoSizeCap (close_segment env (max now (cf_offset_ms f)) SegSizeCap r)
      else
        (case send_picture env (from_rgba (cf_rgba f) (cf_width f) (cf_height f)) (cf_offset_ms f) r of
           (Inl reason, r) \<Rightarrow> fail_video env now reason r
         | (Inr _, r) \<Rightarrow> r))"

definition handle_frame :: "'e rec_env \<Rightarrow> frame_take \<Rightarrow> nat \<Rightarrow> 'e recorder \<Rightarrow> 'e recorder" where
  "handle_frame env t now r =
     (let f = ft_frame t;
          r1 = note_drops env t now r;
          r2 = note_size env f now (r1\<lparr>rc_last_frame_seq := cf_frame_seq f\<rparr>)
      in if rc_video_stopped r2 \<or> rc_failed r2 then r2
         else
           (let (ok, r3) = (if rc_segment r2 = None
                  then open_segment env (cf_offset_ms f) (cf_width f, cf_height f) now r2 else (True, r2))
            in if \<not> ok then r3 else encode_frame env f now r3))"

definition deadline :: "'e rec_env \<Rightarrow> 'e recorder \<Rightarrow> nat option" where
  "deadline env r = map_option (\<lambda>s. sg_first_offset s + re_segment_ms env) (rc_segment r)"

definition recorder_tick :: "'e rec_env \<Rightarrow> nat \<Rightarrow> 'e recorder \<Rightarrow> 'e recorder" where
  "recorder_tick env now r =
     (case deadline env r of
        None \<Rightarrow> r
      | Some d \<Rightarrow> if d \<le> now then close_segment env d SegDuration r else r)"

subsection \<open>The end\<close>

record stats =
  st_frames_captured :: nat
  st_frames_encoded :: nat
  st_frames_dropped :: nat
  st_gap_periods :: nat
  st_frames_held_at_close_max :: nat
  st_events_lost :: nat

record manifest =
  mn_ended_at :: "ustr option"
  mn_end_reason :: "ustr option"
  mn_duration_ms :: "nat option"
  mn_segments :: "segment_entry list"
  mn_stats :: "stats option"

definition finish_recording ::
  "'e rec_env \<Rightarrow> session_event option \<Rightarrow> nat \<Rightarrow> nat \<Rightarrow> 'e recorder \<Rightarrow> manifest \<times> 'e recorder" where
  "finish_recording env last_event now captured r =
     (let r1 = close_segment env now SegStop (close_gap env now r);
          final = (case last_event of Some e \<Rightarrow> e | None \<Rightarrow> own_event env now (RecordingStopped StopSessionClosed) r1);
          reason = (if rc_failed r1 then StopWriteError
                    else case ev_kind final of RecordingStopped x \<Rightarrow> x | _ \<Rightarrow> StopSessionClosed);
          f = rc_figures r1
      in (\<lparr>mn_ended_at = Some (ev_at (own_event env now SessionEnded r1)), mn_end_reason = Some (stop_reason_str reason),
           mn_duration_ms = Some now, mn_segments = rc_segments r1,
           mn_stats = Some \<lparr>st_frames_captured = captured, st_frames_encoded = fg_frames_encoded f,
             st_frames_dropped = fg_frames_dropped f, st_gap_periods = fg_gap_periods f,
             st_frames_held_at_close_max = fg_held_at_close_max f, st_events_lost = fg_events_lost f\<rparr>\<rparr>,
          write_rec env final r1))"

text \<open>
  One pass of the loop of \<open>run\<close>: what was drained, the times it reads, and the result;
  \<open>Inl\<close> when the recording is over.
\<close>

definition recorder_pass ::
  "'e rec_env \<Rightarrow> nat \<Rightarrow> nat \<Rightarrow> event_queue \<times> mailbox \<Rightarrow> 'e recorder
    \<Rightarrow> (manifest + unit) \<times> (event_queue \<times> mailbox) \<times> 'e recorder" where
  "recorder_pass env now later qm r =
     (let (d, q) = drain_events (fst qm);
          r1 = handle_events env (dr_events d) (dr_lost d) now r
      in if dr_closed d \<or> rc_failed r1 then
           (let (m, r2) = finish_recording env (dr_last d) later (mb_captured (snd qm)) r1 in (Inl m, (q, snd qm), r2))
         else
           (let (t, mb) = take_frame (snd qm);
                r2 = (case t of None \<Rightarrow> r1 | Some t \<Rightarrow> handle_frame env t now r1)
            in (Inr (), (q, mb), recorder_tick env later r2)))"

end
