(* ===== verification/Recorder_Promises.thy ===== *)
theory Recorder_Promises
  imports Recorder
begin

text \<open>
  What a recording keeps: every segment of the manifest is a file in which a demuxer finds
  every frame that was sent to it, with its capture time; the video ends once; and what is
  lost is written down.
\<close>

subsection \<open>Runs\<close>

text \<open>
  The calls that the loop makes, in any order. The capture stage takes frames at intervals
  of at least an eighth of a second, so their times increase: \<open>b\<close> is the earliest time of
  the next one.
\<close>

inductive rec_run :: "'e rec_env \<Rightarrow> nat \<Rightarrow> 'e recorder \<Rightarrow> bool" for env where
  Start: "rec_run env 0 (new_recorder env)"
| Events: "rec_run env b r \<Longrightarrow> rec_run env b (handle_events env es lost now r)"
| Frame: "rec_run env b r \<Longrightarrow> b \<le> cf_offset_ms (ft_frame t) \<Longrightarrow> cf_offset_ms (ft_frame t) < 2 ^ 64
    \<Longrightarrow> rec_run env (cf_offset_ms (ft_frame t) + 1) (handle_frame env t now r)"
| Tick: "rec_run env b r \<Longrightarrow> rec_run env b (recorder_tick env now r)"

subsection \<open>What writing an event keeps\<close>

definition same_video :: "'e recorder \<Rightarrow> 'e recorder \<Rightarrow> bool" where
  "same_video r r' \<longleftrightarrow> rc_segment r' = rc_segment r \<and> rc_next_segment r' = rc_next_segment r
     \<and> rc_segments r' = rc_segments r \<and> rc_files r' = rc_files r \<and> rc_sent r' = rc_sent r"

lemma write_rec_keeps [simp]:
  "rc_segment (write_rec env e r) = rc_segment r" "rc_next_segment (write_rec env e r) = rc_next_segment r"
  "rc_segments (write_rec env e r) = rc_segments r" "rc_files (write_rec env e r) = rc_files r"
  "rc_sent (write_rec env e r) = rc_sent r" "rc_parts (write_rec env e r) = rc_parts r"
  "rc_video_stopped (write_rec env e r) = rc_video_stopped r" "rc_figures (write_rec env e r) = rc_figures r"
  "rc_gap (write_rec env e r) = rc_gap r"
  by (auto simp: write_rec_def split: prod.split bool.split)

lemma write_own_keeps [simp]:
  "rc_segment (write_own env now k r) = rc_segment r" "rc_next_segment (write_own env now k r) = rc_next_segment r"
  "rc_segments (write_own env now k r) = rc_segments r" "rc_files (write_own env now k r) = rc_files r"
  "rc_sent (write_own env now k r) = rc_sent r" "rc_parts (write_own env now k r) = rc_parts r"
  "rc_video_stopped (write_own env now k r) = rc_video_stopped r" "rc_figures (write_own env now k r) = rc_figures r"
  "rc_gap (write_own env now k r) = rc_gap r"
  by (simp_all add: write_own_def)

lemma close_gap_keeps [simp]:
  "rc_segment (close_gap env now r) = rc_segment r" "rc_next_segment (close_gap env now r) = rc_next_segment r"
  "rc_segments (close_gap env now r) = rc_segments r" "rc_files (close_gap env now r) = rc_files r"
  "rc_sent (close_gap env now r) = rc_sent r" "rc_video_stopped (close_gap env now r) = rc_video_stopped r"
  "rc_figures (close_gap env now r) = rc_figures r"
  by (simp_all add: close_gap_def split: option.split)

lemma stop_video_keeps [simp]:
  "rc_segment (stop_video env now x r) = rc_segment r" "rc_next_segment (stop_video env now x r) = rc_next_segment r"
  "rc_segments (stop_video env now x r) = rc_segments r" "rc_files (stop_video env now x r) = rc_files r"
  "rc_sent (stop_video env now x r) = rc_sent r" "rc_video_stopped (stop_video env now x r)"
  "rc_figures (stop_video env now x r) = rc_figures r" "rc_gap (stop_video env now x r) = rc_gap r"
  by (simp_all add: stop_video_def)

lemma fail_video_keeps [simp]:
  "rc_segment (fail_video env now x r) = None" "rc_next_segment (fail_video env now x r) = rc_next_segment r"
  "rc_segments (fail_video env now x r) = rc_segments r" "rc_files (fail_video env now x r) = rc_files r"
  "rc_sent (fail_video env now x r) = rc_sent r" "rc_video_stopped (fail_video env now x r)"
  by (simp_all add: fail_video_def Let_def split: option.split)

lemma fold_write_keeps [simp]: "same_video r (fold (write_rec env) es r)"
  by (induction es arbitrary: r) (simp_all add: same_video_def)

lemma handle_events_keeps: "same_video r (handle_events env es lost now r)"
  using fold_write_keeps [of r env es] by (simp add: handle_events_def Let_def same_video_def)

lemma note_drops_keeps: "same_video r (note_drops env t now r)"
  by (simp add: note_drops_def Let_def same_video_def split: option.split)

subsection \<open>The frames of a segment\<close>

text \<open>The frames that a writer was given: their times are those of the frames sent so far.\<close>

definition frames_of :: "'e rec_env \<Rightarrow> 'e video_segment \<Rightarrow> (nat \<times> bytes \<times> bool) list \<Rightarrow> bool" where
  "frames_of env s fs \<longleftrightarrow> (\<exists>config. write_frames (re_file_ok env (sg_number s)) (re_sequence_header env) (re_f64 env 0) fs
     (create_writer (sg_width s) (sg_height s) config) = Some (sg_writer s))"

definition segment_ok :: "'e rec_env \<Rightarrow> nat list \<Rightarrow> 'e video_segment \<Rightarrow> bool" where
  "segment_ok env sent s \<longleftrightarrow>
     (\<exists>fs. frames_of env s fs
        \<and> map fst fs @ map (\<lambda>p. pf_offset_ms p - sg_first_offset s) (sg_pending s) = map (\<lambda>t. t - sg_first_offset s) sent)
     \<and> length (sg_pending s) \<le> length sent
     \<and> sorted_wrt (<) sent \<and> (\<forall>t \<in> set sent. sg_first_offset s \<le> t \<and> t \<le> sg_last_offset s \<and> t < 2 ^ 64)
     \<and> sg_first_offset s \<le> sg_last_offset s"

lemma write_frames_append:
  "write_frames ok sh z (fs @ gs) w = Option.bind (write_frames ok sh z fs w) (write_frames ok sh z gs)"
proof (induction fs arbitrary: w)
  case (Cons f fs)
  obtain t data key where "f = (t, data, key)" by (cases f)
  then show ?case using Cons by (cases "write_frame ok sh z t data key w") simp_all
qed simp

lemma frames_of_more:
  assumes "frames_of env s fs"
    and "write_frame (re_file_ok env (sg_number s)) (re_sequence_header env) (re_f64 env 0) t d k (sg_writer s) = Some w"
  shows "frames_of env (s\<lparr>sg_writer := w\<rparr>) (fs @ [(t, d, k)])"
proof -
  obtain config where "write_frames (re_file_ok env (sg_number s)) (re_sequence_header env) (re_f64 env 0) fs
     (create_writer (sg_width s) (sg_height s) config) = Some (sg_writer s)" using assms(1) by (auto simp: frames_of_def)
  then show ?thesis using assms(2) by (auto simp: frames_of_def write_frames_append intro!: exI [of _ config])
qed

lemma frames_of_cong:
  "sg_number s' = sg_number s \<Longrightarrow> sg_width s' = sg_width s \<Longrightarrow> sg_height s' = sg_height s \<Longrightarrow> sg_writer s' = sg_writer s
   \<Longrightarrow> frames_of env s' fs = frames_of env s fs"
  by (simp add: frames_of_def)

lemma segment_ok_mux:
  "mux env ps n s = (res, s') \<Longrightarrow> segment_ok env sent s \<Longrightarrow>
   sg_number s' = sg_number s \<and> sg_first_offset s' = sg_first_offset s \<and> sg_last_offset s' = sg_last_offset s
   \<and> sg_width s' = sg_width s \<and> sg_height s' = sg_height s
   \<and> (\<forall>m. res = Inr m \<longrightarrow> segment_ok env sent s')"
proof (induction ps arbitrary: n s)
  case (Cons p ps)
  show ?case
  proof (cases "sg_pending s")
    case Nil
    then show ?thesis using Cons.prems by auto
  next
    case (Cons front rest)
    let ?s2 = "s\<lparr>sg_pending := rest, sg_largest_packet := max (sg_largest_packet s) (length (pk_data p))\<rparr>"
    let ?w = "write_frame (re_file_ok env (sg_number s)) (re_sequence_header env) (re_f64 env 0)
        (pf_offset_ms front - sg_first_offset s) (pk_data p) (pk_key p) (sg_writer s)"
    show ?thesis
    proof (cases "pf_input_frameno front = pk_input_frameno p \<and> ?w \<noteq> None")
      case False
      then show ?thesis using Cons.prems Cons by (auto simp: Let_def split: option.splits if_splits)
    next
      case True
      then obtain w where w: "?w = Some w" by blast
      let ?s3 = "?s2\<lparr>sg_writer := w\<rparr>"
      have m: "mux env ps (n + 1) ?s3 = (res, s')"
        using Cons.prems(1) Cons True w by (simp add: Let_def)
      from Cons.prems(2) obtain fs where fs: "frames_of env s fs"
        "map fst fs @ map (\<lambda>p. pf_offset_ms p - sg_first_offset s) (sg_pending s) = map (\<lambda>t. t - sg_first_offset s) sent"
        by (auto simp: segment_ok_def)
      have "frames_of env (s\<lparr>sg_writer := w\<rparr>) (fs @ [(pf_offset_ms front - sg_first_offset s, pk_data p, pk_key p)])"
        by (rule frames_of_more [OF fs(1) w])
      then have "frames_of env ?s3 (fs @ [(pf_offset_ms front - sg_first_offset s, pk_data p, pk_key p)])"
        by (simp add: frames_of_def)
      moreover have "map fst (fs @ [(pf_offset_ms front - sg_first_offset s, pk_data p, pk_key p)])
          @ map (\<lambda>p. pf_offset_ms p - sg_first_offset ?s3) (sg_pending ?s3) = map (\<lambda>t. t - sg_first_offset ?s3) sent"
        using fs(2) Cons by simp
      ultimately have "segment_ok env sent ?s3" using Cons.prems(2) Cons unfolding segment_ok_def by auto
      from Cons.IH [OF m this] show ?thesis by simp
    qed
  qed
qed auto

text \<open>A finished segment: the file, and what a demuxer finds in it.\<close>

definition entry_ok :: "(nat \<Rightarrow> bytes option) \<Rightarrow> (nat \<Rightarrow> nat list) \<Rightarrow> nat \<Rightarrow> segment_entry \<Rightarrow> bool" where
  "entry_ok files sent n x \<longleftrightarrow>
     (\<exists>fl. files n = Some fl \<and> length fl = sn_bytes x
        \<and> (sn_bytes x < 2 ^ 56 - 1 \<longrightarrow>
             (\<exists>ks. demux fl = Some ks \<and> map fst ks = map (\<lambda>t. t - sn_start_offset_ms x) (sent n))))
     \<and> sn_file x = segment_file n \<and> sn_frames x = length (sent n) \<and> sent n \<noteq> []
     \<and> (\<forall>t \<in> set (sent n). sn_start_offset_ms x \<le> t \<and> t < sn_end_offset_ms x)"

lemma flush_frames: "flush_cluster ok w = Some w' \<Longrightarrow> sw_frames w' = sw_frames w"
  by (auto simp: flush_cluster_def put_def Let_def split: option.splits if_splits)

lemma emit_frames:
  assumes "emit ok t b w = Some w'"
  shows "sw_frames w' = sw_frames w"
proof (cases "flush_cluster ok w")
  case None
  then show ?thesis using assms by (auto simp: emit_def Let_def split: option.splits if_splits)
next
  case (Some z)
  have "sw_frames z = sw_frames w" by (rule flush_frames [OF Some])
  then show ?thesis using assms Some by (auto simp: emit_def Let_def split: option.splits if_splits)
qed

lemma emit_held_frames: "emit_held ok d w = Some w' \<Longrightarrow> sw_frames w' = sw_frames w"
  by (auto simp: emit_held_def dest: emit_frames split: option.splits)

lemma header_frames: "write_header ok sh z d w = Some w' \<Longrightarrow> sw_frames w' = sw_frames w"
  by (auto simp: write_header_def put_def Let_def bind_eq_Some_conv split: if_splits)

lemma write_frame_frames:
  assumes "write_frame ok sh z t d k w = Some w'"
  shows "sw_frames w' = Suc (sw_frames w)"
proof -
  obtain w1 where w1: "(if sw_data_start w = 0 then write_header ok sh z d w else Some w) = Some w1"
    using assms by (auto simp: write_frame_def bind_eq_Some_conv)
  then obtain w2 where w2: "emit_held ok None w1 = Some w2" and w': "sw_frames w' = Suc (sw_frames w2)"
    using assms by (auto simp: write_frame_def Let_def)
  have "sw_frames w1 = sw_frames w" using w1 header_frames by (metis option.inject)
  then show ?thesis using w' emit_held_frames [OF w2] by simp
qed

lemma write_frames_frames: "write_frames ok sh z fs w = Some w' \<Longrightarrow> sw_frames w' = sw_frames w + length fs"
proof (induction fs arbitrary: w)
  case (Cons f fs)
  obtain t d k where f: "f = (t, d, k)" by (cases f)
  with Cons.prems obtain w1 where "write_frame ok sh z t d k w = Some w1" "write_frames ok sh z fs w1 = Some w'"
    by (auto simp: bind_eq_Some_conv)
  then show ?case using write_frame_frames Cons.IH by fastforce
qed simp

lemma frames_of_count: "frames_of env s fs \<Longrightarrow> sw_frames (sg_writer s) = length fs"
  by (auto simp: frames_of_def create_writer_def dest!: write_frames_frames)

lemma clamp_sorted: "sorted (m # map fst fs) \<Longrightarrow> map fst (clamp_times m fs) = map fst fs"
  by (induction fs arbitrary: m) (auto simp: max_absorb1)

lemma no_frames_no_file:
  assumes "frames_of env s []" and "finish_file env dur s = Some (n, file)"
  shows "n = 0" "file = None"
proof -
  obtain config where w: "create_writer (sg_width s) (sg_height s) config = sg_writer s"
    using assms(1) by (auto simp: frames_of_def)
  note w = w [symmetric]
  have "finish_file env dur s = (if re_commits env (sg_number s) then Some (0, None) else None)"
    by (simp add: finish_file_def finish_segment_def w create_writer_def emit_held_def flush_cluster_def)
  then show "n = 0" "file = None" using assms(2) by (auto split: if_splits)
qed

lemma finished_entry:
  assumes s: "segment_ok env sent s" "sg_pending s = []" and f64: "\<And>x. length (re_f64 env x) = 8"
    and fin: "finish_file env dur s = Some (n, file)"
  shows "n = 0 \<and> file = None \<or>
    (\<exists>fl. file = Some fl \<and> length fl = n \<and> 0 < n \<and> sent \<noteq> [] \<and> sw_frames (sg_writer s) = length sent
      \<and> (n < 2 ^ 56 - 1 \<longrightarrow> (\<exists>ks. demux fl = Some ks \<and> map fst ks = map (\<lambda>t. t - sg_first_offset s) sent)))"
proof -
  from s obtain fs where fs: "frames_of env s fs" "map fst fs = map (\<lambda>t. t - sg_first_offset s) sent"
    and srt: "sorted_wrt (<) sent" and bnd: "\<forall>t \<in> set sent. sg_first_offset s \<le> t \<and> t < 2 ^ 64"
    by (auto simp: segment_ok_def)
  show ?thesis
  proof (cases "fs = []")
    case True
    then show ?thesis using no_frames_no_file [OF _ fin] fs(1) by blast
  next
    case False
    from fs(1) obtain config where w: "write_frames (re_file_ok env (sg_number s)) (re_sequence_header env) (re_f64 env 0) fs
      (create_writer (sg_width s) (sg_height s) config) = Some (sg_writer s)" by (auto simp: frames_of_def)
    have "\<forall>t \<in> set (map fst fs). t < 2 ^ 64" using bnd unfolding fs(2) by (auto intro: le_less_trans [OF diff_le_self])
    then have times: "\<forall>(t, _) \<in> set fs. t < 2 ^ 64" by auto
    obtain p q tr where wr: "writing (sg_writer s) p q (re_f64 env 0) tr (clamp_times 0 fs)"
      using frames_writing [OF w False f64 times] by blast
    from finished_file [OF wr fin [unfolded finish_file_def] f64]
    obtain fl pos d cues cls where fl: "file = Some fl" "n = length fl"
      "fl = header_bytes (fixed_size (n - (length segment_start + 8))) p q pos d tr @ concat (map plan_bytes cls) @ element CUES cues"
      by blast
    have "id_bytes SEGMENT \<noteq> []" by (simp add: id_bytes_def id_defs be_bytes_4 del: be_bytes.simps)
    then have "fl \<noteq> []" using arg_cong [OF fl(3), of length] by (auto simp: header_bytes_def)
    then have "0 < n" using fl(2) by simp
    have "sorted_wrt (\<lambda>x y. x - sg_first_offset s \<le> y - sg_first_offset s) sent"
      by (rule sorted_wrt_mono_rel [OF _ srt]) simp
    then have "sorted (map (\<lambda>t. t - sg_first_offset s) sent)" by (simp add: sorted_map)
    then have ct: "map fst (clamp_times 0 fs) = map fst fs" by (intro clamp_sorted) (simp add: fs(2))
    have "length sent = length fs" using fs(2) by (metis length_map)
    moreover have "demux fl = Some (clamp_times 0 fs)" if "n < 2 ^ 56 - 1"
      using finished_segment_demuxes [OF w False fin [unfolded finish_file_def] f64 f64 times that] fl(1) by auto
    ultimately show ?thesis using fl(1,2) \<open>0 < n\<close> fs(2) ct frames_of_count [OF fs(1)] False by (metis length_0_conv)
  qed
qed

subsection \<open>The archive and the open segment\<close>

text \<open>
  The manifest lists the finished files in the order of their numbers, and no other file
  exists; the open segment has the last number and no file yet.
\<close>

definition archive_ok ::
  "nat \<Rightarrow> (nat \<Rightarrow> bytes option) \<Rightarrow> (nat \<Rightarrow> nat list) \<Rightarrow> segment_entry list \<Rightarrow> bool" where
  "archive_ok next_number files sent entries \<longleftrightarrow>
     (\<forall>n \<ge> next_number. sent n = [] \<and> files n = None)
     \<and> (\<exists>ns. sorted_wrt (<) ns \<and> list_all2 (entry_ok files sent) ns entries \<and> (\<forall>n. files n \<noteq> None \<longleftrightarrow> n \<in> set ns))"

definition open_ok :: "'e rec_env \<Rightarrow> nat \<Rightarrow> 'e recorder \<Rightarrow> bool" where
  "open_ok env b r \<longleftrightarrow>
     (\<forall>s. rc_segment r = Some s \<longrightarrow> rc_next_segment r = sg_number s + 1 \<and> rc_files r (sg_number s) = None
        \<and> segment_ok env (rc_sent r (sg_number s)) s \<and> sg_first_offset s \<le> b
        \<and> (\<forall>t \<in> set (rc_sent r (sg_number s)). t < b))"

definition archived :: "'e recorder \<Rightarrow> bool" where
  "archived r \<longleftrightarrow> archive_ok (rc_next_segment r) (rc_files r) (rc_sent r) (rc_segments r)"

lemma same_archived: "same_video r r' \<Longrightarrow> archived r' \<longleftrightarrow> archived r"
  by (simp add: same_video_def archived_def)

lemma same_open: "same_video r r' \<Longrightarrow> open_ok env b r' \<longleftrightarrow> open_ok env b r"
  by (simp add: same_video_def open_ok_def)

lemma open_later: "open_ok env b r \<Longrightarrow> b \<le> c \<Longrightarrow> open_ok env c r"
  by (fastforce simp: open_ok_def)

lemma open_None: "rc_segment r = None \<Longrightarrow> open_ok env b r"
  by (simp add: open_ok_def)

lemma entries_cong:
  assumes "list_all2 (entry_ok files sent) ns es" and "\<And>n. n \<in> set ns \<Longrightarrow> files' n = files n \<and> sent' n = sent n"
  shows "list_all2 (entry_ok files' sent') ns es"
  using assms(1) by (rule list.rel_mono_strong) (simp add: entry_ok_def assms(2))

lemma archive_sends:
  assumes "archive_ok m files sent es" and "files n = None" and "n < m"
  shows "archive_ok m files (sent(n := ts)) es"
proof -
  from assms(1) obtain ns where "sorted_wrt (<) ns" "list_all2 (entry_ok files sent) ns es" "\<forall>n. files n \<noteq> None \<longleftrightarrow> n \<in> set ns"
    and "\<forall>n \<ge> m. sent n = [] \<and> files n = None" by (auto simp: archive_ok_def)
  moreover from this have "list_all2 (entry_ok files (sent(n := ts))) ns es"
    using assms(2) entries_cong [of files sent ns es files "sent(n := ts)"] by (metis fun_upd_other)
  ultimately show ?thesis using assms(3) unfolding archive_ok_def by (intro conjI exI [of _ ns]) auto
qed

lemma archive_opens: "archive_ok m files sent es \<Longrightarrow> archive_ok (Suc m) files sent es"
  by (auto simp: archive_ok_def)

lemma archive_adds:
  assumes "archive_ok (Suc n) files sent es" and "files n = None" and "entry_ok (files(n \<mapsto> fl)) sent n x"
  shows "archive_ok (Suc n) (files(n \<mapsto> fl)) sent (es @ [x])"
proof -
  from assms(1) obtain ns where ns: "sorted_wrt (<) ns" "list_all2 (entry_ok files sent) ns es" "\<forall>n. files n \<noteq> None \<longleftrightarrow> n \<in> set ns"
    and later: "\<forall>k \<ge> Suc n. sent k = [] \<and> files k = None" by (auto simp: archive_ok_def)
  have "k < n" if "k \<in> set ns" for k using that ns(3) later assms(2) by (metis less_antisym not_le)
  then have "sorted_wrt (<) (ns @ [n])" using ns(1) by (simp add: sorted_wrt_append)
  moreover have "list_all2 (entry_ok (files(n \<mapsto> fl)) sent) (ns @ [n]) (es @ [x])"
  proof (rule list_all2_appendI)
    show "list_all2 (entry_ok (files(n \<mapsto> fl)) sent) ns es"
      using entries_cong [OF ns(2), of "files(n \<mapsto> fl)" sent] assms(2) ns(3) by (metis fun_upd_other)
  qed (simp add: assms(3))
  ultimately show ?thesis using ns(3) later unfolding archive_ok_def by (intro conjI exI [of _ "ns @ [n]"]) auto
qed

subsection \<open>The operations\<close>

lemma stop_archived [simp]: "archived (stop_video env now x r) = archived r"
  by (simp add: archived_def)

lemma fail_archived [simp]: "archived (fail_video env now x r) = archived r"
  by (simp add: archived_def)

lemma finish_entry_ok:
  assumes a: "archived r" and n: "rc_next_segment r = sg_number s + 1" "rc_files r (sg_number s) = None"
    and s: "segment_ok env (rc_sent r (sg_number s)) s" "sg_pending s = []" and f64: "\<And>x. length (re_f64 env x) = 8"
    and fin: "finish_file env dur s = Some (k, file)" and t: "sg_last_offset s < fin"
  shows "archived (finish_entry env fin reason s k file r)"
  using finished_entry [OF s f64 fin]
proof
  assume "k = 0 \<and> file = None"
  then have "archive_ok (rc_next_segment r) ((rc_files r)(sg_number s := file)) (rc_sent r) (rc_segments r)"
    using a n(2) fun_upd_idem [of "rc_files r" "sg_number s" None] by (simp add: archived_def)
  then show ?thesis using \<open>k = 0 \<and> file = None\<close> by (simp add: finish_entry_def Let_def archived_def)
next
  let ?sent = "rc_sent r (sg_number s)"
  let ?x = "\<lparr>sn_file = segment_file (sg_number s), sn_start_offset_ms = sg_first_offset s, sn_end_offset_ms = fin,
    sn_frames = sw_frames (sg_writer s), sn_bytes = k, sn_width = sg_width s, sn_height = sg_height s\<rparr>"
  assume "\<exists>fl. file = Some fl \<and> length fl = k \<and> 0 < k \<and> ?sent \<noteq> [] \<and> sw_frames (sg_writer s) = length ?sent
      \<and> (k < 2 ^ 56 - 1 \<longrightarrow> (\<exists>ks. demux fl = Some ks \<and> map fst ks = map (\<lambda>t. t - sg_first_offset s) ?sent))"
  then obtain fl where fl: "file = Some fl" "length fl = k" "0 < k" "?sent \<noteq> []" "sw_frames (sg_writer s) = length ?sent"
      "k < 2 ^ 56 - 1 \<longrightarrow> (\<exists>ks. demux fl = Some ks \<and> map fst ks = map (\<lambda>t. t - sg_first_offset s) ?sent)" by blast
  have "\<forall>t \<in> set ?sent. sg_first_offset s \<le> t \<and> t < fin" using s(1) t by (auto simp: segment_ok_def intro: le_less_trans)
  then have "entry_ok ((rc_files r)(sg_number s \<mapsto> fl)) (rc_sent r) (sg_number s) ?x"
    using fl by (simp add: entry_ok_def)
  from archive_adds [OF _ n(2) this] a n(1) fl show ?thesis
    by (simp add: finish_entry_def Let_def archived_def)
qed

lemma finish_entry_segment [simp]: "rc_segment (finish_entry env fin reason s k file r) = rc_segment r"
  by (simp add: finish_entry_def Let_def)

lemma close_ok:
  assumes "archived r" and "open_ok env b r" and f64: "\<And>x. length (re_f64 env x) = 8"
  shows "archived (close_segment env fin reason r) \<and> rc_segment (close_segment env fin reason r) = None"
proof (cases "rc_segment r")
  case None
  then show ?thesis using assms(1) by (simp add: close_segment_def)
next
  case (Some s0)
  define r1 where "r1 = r\<lparr>rc_segment := None, rc_figures := (rc_figures r)
    \<lparr>fg_held_at_close_max := max (fg_held_at_close_max (rc_figures r)) (length (sg_pending s0))\<rparr>\<rparr>"
  have r1: "archived (r1\<lparr>rc_segment := x\<rparr>) \<and> archived r1" for x using assms(1) by (simp add: r1_def archived_def)
  note o = assms(2) [unfolded open_ok_def, rule_format, OF Some]
  obtain muxed s where m: "(case re_flush env (sg_encoder s0) of
      None \<Rightarrow> (Inl VideoEncoderError, s0) | Some packets \<Rightarrow> mux env packets 0 s0) = (muxed, s)" by fastforce
  note close = close_segment_def Some Let_def m r1_def
  show ?thesis
  proof (cases "\<exists>n. muxed = Inr n \<and> sg_pending s = []")
    case False
    then have "close_segment env fin reason r = fail_video env fin VideoEncoderError (r1\<lparr>rc_segment := Some s\<rparr>)"
      by (auto simp: close split: sum.split)
    then show ?thesis using r1 by simp
  next
    case True
    then obtain n where n: "muxed = Inr n" "sg_pending s = []" by blast
    then obtain packets where "mux env packets 0 s0 = (Inr n, s)" using m by (auto split: option.splits)
    from segment_ok_mux [OF this] o have s: "segment_ok env (rc_sent r (sg_number s)) s" "sg_number s = sg_number s0"
      by auto
    define r2 where "r2 = r1\<lparr>rc_figures := (rc_figures r1)\<lparr>fg_frames_encoded := fg_frames_encoded (rc_figures r1) + n\<rparr>\<rparr>"
    have r2: "archived r2" "rc_segment r2 = None" "rc_next_segment r2 = sg_number s + 1" "rc_files r2 (sg_number s) = None"
      "rc_sent r2 = rc_sent r"
      using assms(1) o s(2) by (simp_all add: r2_def r1_def archived_def)
    let ?fin = "max fin (sg_last_offset s + 1)"
    show ?thesis
    proof (cases "finish_file env (?fin - sg_first_offset s) s")
      case None
      then have "close_segment env fin reason r = stop_video env ?fin VideoWriteError r2"
        using n by (simp add: close r2_def)
      then show ?thesis using r2 by simp
    next
      case (Some kf)
      obtain k fl where kf: "kf = (k, fl)" by fastforce
      have "archived (finish_entry env ?fin reason s k fl r2)"
        by (rule finish_entry_ok [OF r2(1,3,4) _ n(2) f64 Some [unfolded kf]]) (simp_all add: r2(5) s(1))
      moreover have "close_segment env fin reason r = finish_entry env ?fin reason s k fl r2"
        using Some kf n by (simp add: close r2_def)
      ultimately show ?thesis using r2 by simp
    qed
  qed
qed

lemma open_segment_ok:
  assumes "archived r" and "rc_segment r = None" and "open_segment env off dims now r = (ok, r')"
  shows "archived r' \<and> open_ok env off r'"
proof (cases "re_create env (fst dims) (snd dims)")
  case None
  then show ?thesis using assms by (auto simp: open_segment_def open_None)
next
  case (Some enc)
  have fresh: "rc_sent r (rc_next_segment r) = []" "rc_files r (rc_next_segment r) = None"
    using assms(1) by (simp_all add: archived_def archive_ok_def)
  show ?thesis
  proof (cases "re_file_made env (rc_next_segment r)")
    case True
    then have r': "rc_next_segment r' = Suc (rc_next_segment r)" "rc_files r' = rc_files r" "rc_sent r' = rc_sent r"
      "rc_segments r' = rc_segments r"
      "rc_segment r' = Some \<lparr>sg_number = rc_next_segment r, sg_encoder = enc,
         sg_writer = create_writer (fst dims) (snd dims) (re_codec_config env enc),
         sg_first_offset = off, sg_last_offset = off, sg_width = fst dims, sg_height = snd dims,
         sg_pending = [], sg_next_frameno = 0, sg_largest_packet = 0\<rparr>"
      using assms(3) Some by (auto simp: open_segment_def Let_def)
    have "open_ok env off r'"
      unfolding open_ok_def r' by (auto simp: segment_ok_def frames_of_def fresh intro!: exI [of _ "[]"] exI [of _ "re_codec_config env enc"])
    then show ?thesis using assms(1) r' archive_opens by (simp add: archived_def)
  qed (use assms Some in \<open>auto simp: open_segment_def open_None\<close>)
qed

lemma send_ok:
  assumes a: "archived r" and o: "open_ok env off r" and off: "off < 2 ^ 64" and m: "send_picture env pic off r = (res, r')"
  shows "archived r' \<and> (res = Inr () \<longrightarrow> open_ok env (off + 1) r')"
proof (cases "rc_segment r")
  case None
  then show ?thesis using m a open_later [OF o] by (auto simp: send_picture_def)
next
  case (Some s)
  note o = o [unfolded open_ok_def, rule_format, OF Some]
  let ?n = "sg_number s"
  show ?thesis
  proof (cases "re_send env pic (sg_next_frameno s = 0) (sg_encoder s)")
    case None
    then show ?thesis using m a Some by (auto simp: send_picture_def)
  next
    case (Some enc)
    define s1 where "s1 = s\<lparr>sg_encoder := enc,
      sg_pending := sg_pending s @ [\<lparr>pf_input_frameno = sg_next_frameno s, pf_offset_ms = off\<rparr>],
      sg_next_frameno := sg_next_frameno s + 1, sg_last_offset := off\<rparr>"
    let ?sent = "rc_sent r ?n @ [off]"
    define r1 where "r1 = r\<lparr>rc_segment := Some s1, rc_sent := (rc_sent r)(?n := ?sent)\<rparr>"
    have a1: "archived (r1\<lparr>rc_segment := x, rc_figures := f\<rparr>) \<and> archived (r1\<lparr>rc_segment := x\<rparr>) \<and> archived r1" for x f
      using archive_sends [of "rc_next_segment r"] a o by (simp add: archived_def r1_def)
    have send: "send_picture env pic off r = (case re_receive env enc of
        None \<Rightarrow> (Inl VideoEncoderError, r1)
      | Some (packets, enc') \<Rightarrow> (case mux env packets 0 (s1\<lparr>sg_encoder := enc'\<rparr>) of
          (Inl reason, s2) \<Rightarrow> (Inl reason, r1\<lparr>rc_segment := Some s2\<rparr>)
        | (Inr k, s2) \<Rightarrow>
            (let r2 = r1\<lparr>rc_segment := Some s2, rc_figures := (rc_figures r1)
               \<lparr>fg_frames_encoded := fg_frames_encoded (rc_figures r1) + k\<rparr>\<rparr>
             in if MAX_PENDING < length (sg_pending s2) then (Inl VideoEncoderError, r2) else (Inr (), r2))))"
      by (simp only: send_picture_def \<open>rc_segment r = Some s\<close> Some option.case Let_def s1_def r1_def)
    show ?thesis
    proof (cases "re_receive env enc")
      case None
      then show ?thesis using m a1 by (auto simp: send)
    next
      case (Some pe)
      then obtain packets enc' where pe: "re_receive env enc = Some (packets, enc')" by (cases pe) auto
      let ?s = "s1\<lparr>sg_encoder := enc'\<rparr>"
      obtain mres s2 where mx: "mux env packets 0 ?s = (mres, s2)" by fastforce
      show ?thesis
      proof (cases mres)
        case (Inl x)
        then show ?thesis using m pe mx a1 by (auto simp: send)
      next
        case (Inr k)
        have "segment_ok env ?sent ?s"
        proof -
          from o obtain fs where "frames_of env s fs"
            "map fst fs @ map (\<lambda>p. pf_offset_ms p - sg_first_offset s) (sg_pending s)
              = map (\<lambda>t. t - sg_first_offset s) (rc_sent r ?n)" by (auto simp: segment_ok_def)
          moreover from this have "frames_of env ?s fs" by (simp add: frames_of_def s1_def)
          moreover have "sorted_wrt (<) ?sent" "\<forall>t \<in> set ?sent. sg_first_offset s \<le> t \<and> t \<le> off \<and> t < 2 ^ 64"
            "length (sg_pending ?s) \<le> length ?sent"
            using o off by (auto simp: segment_ok_def sorted_wrt_append s1_def less_imp_le)
          ultimately show ?thesis using o unfolding segment_ok_def by (auto simp: s1_def intro!: exI [of _ fs])
        qed
        from segment_ok_mux [OF mx this] Inr have s2: "segment_ok env ?sent s2" "sg_number s2 = ?n"
          "sg_first_offset s2 = sg_first_offset s" by (auto simp: s1_def)
        let ?r2 = "r1\<lparr>rc_segment := Some s2, rc_figures := (rc_figures r1)
               \<lparr>fg_frames_encoded := fg_frames_encoded (rc_figures r1) + k\<rparr>\<rparr>"
        have "r' = ?r2" using m pe mx Inr by (auto simp: send Let_def split: if_splits)
        moreover have "open_ok env (off + 1) ?r2"
          using s2 o by (auto simp: open_ok_def r1_def less_Suc_eq)
        ultimately show ?thesis using a1 by simp
      qed
    qed
  qed
qed

text \<open>A frame, then every call of the loop.\<close>

lemma note_size_ok:
  assumes "archived r" and "open_ok env b r" and "\<And>x. length (re_f64 env x) = 8"
  shows "archived (note_size env f now r) \<and> open_ok env b (note_size env f now r)"
proof -
  have up: "archived (r\<lparr>rc_last_size := x\<rparr>) = archived r" "open_ok env b (r\<lparr>rc_last_size := x\<rparr>) = open_ok env b r"
    "archived (write_own env now k r) = archived r" "open_ok env b (write_own env now k r) = open_ok env b r"
    for x k and r :: "'a recorder" by (simp_all add: archived_def open_ok_def)
  show ?thesis using close_ok [OF assms(1,2,3)] assms(1,2) by (simp add: note_size_def Let_def up open_None)
qed

lemma handle_frame_ok:
  assumes a: "archived r" and o: "open_ok env b r" and f64: "\<And>x. length (re_f64 env x) = 8"
    and t: "b \<le> cf_offset_ms (ft_frame t)" "cf_offset_ms (ft_frame t) < 2 ^ 64"
  shows "archived (handle_frame env t now r) \<and> open_ok env (cf_offset_ms (ft_frame t) + 1) (handle_frame env t now r)"
proof -
  let ?f = "ft_frame t" let ?off = "cf_offset_ms ?f"
  define r0 where "r0 = (note_drops env t now r)\<lparr>rc_last_frame_seq := cf_frame_seq ?f\<rparr>"
  have "same_video r r0" using note_drops_keeps [of r env t now] by (simp add: r0_def same_video_def)
  then have "archived r0" "open_ok env ?off r0" using a open_later [OF o t(1)] by (simp_all add: same_archived same_open)
  define r2 where "r2 = note_size env ?f now r0"
  have r2: "archived r2" "open_ok env ?off r2"
    using note_size_ok [OF \<open>archived r0\<close> \<open>open_ok env ?off r0\<close> f64] by (simp_all add: r2_def)
  obtain ok r3 where r3: "(if rc_segment r2 = None
      then open_segment env ?off (cf_width ?f, cf_height ?f) now r2 else (True, r2)) = (ok, r3)" by fastforce
  have r3_ok: "archived r3" "open_ok env ?off r3"
    using r2 open_segment_ok [OF r2(1)] r3 by (auto split: if_splits)
  have enc: "archived (encode_frame env ?f now r3) \<and> open_ok env (?off + 1) (encode_frame env ?f now r3)"
  proof (cases "re_budget_bytes env \<le> bytes_with_pending r3")
    case True
    then show ?thesis using close_ok [OF r3_ok f64] by (simp add: encode_frame_def open_None)
  next
    case False
    obtain res r4 where "send_picture env (from_rgba (cf_rgba ?f) (cf_width ?f) (cf_height ?f)) ?off r3 = (res, r4)" by fastforce
    then show ?thesis using send_ok [OF r3_ok t(2)] False by (cases res) (auto simp: encode_frame_def open_None)
  qed
  have "handle_frame env t now r = (if rc_video_stopped r2 \<or> rc_failed r2 then r2
      else if \<not> ok then r3 else encode_frame env ?f now r3)"
    by (simp only: handle_frame_def Let_def r0_def [symmetric] r2_def [symmetric] r3 prod.case)
  then show ?thesis using r2 r3_ok enc open_later [of env ?off _ "?off + 1"] by auto
qed

lemma tick_ok:
  assumes "archived r" and "open_ok env b r" and "\<And>x. length (re_f64 env x) = 8"
  shows "archived (recorder_tick env now r) \<and> open_ok env b (recorder_tick env now r)"
  using assms close_ok [OF assms] by (auto simp: recorder_tick_def open_None split: option.split)

lemma rec_run_ok:
  assumes "rec_run env b r" and f64: "\<And>x. length (re_f64 env x) = 8"
  shows "archived r \<and> open_ok env b r"
  using assms(1)
proof induction
  case Start
  then show ?case by (simp add: archived_def archive_ok_def new_recorder_def open_ok_def exI [of _ "[]"])
next
  case (Events b r es lost now)
  then show ?case using handle_events_keeps [of r env es lost now] by (simp add: same_archived same_open)
qed (use handle_frame_ok tick_ok f64 in blast)+

text \<open>
  C10. The manifest of a finished recording lists, in order, exactly the segment files that
  exist. Each file has the listed size, and a demuxer finds in it every frame that was sent
  to the encoder, at its capture time from the start of the segment; all of them lie between
  the listed start and end.
\<close>

theorem segments_keep_every_frame:
  assumes "rec_run env b r" and f64: "\<forall>x. length (re_f64 env x) = 8"
    and fin: "finish_recording env final now captured r = (m, r')"
  shows "\<exists>ns. sorted_wrt (<) ns \<and> list_all2 (entry_ok (rc_files r') (rc_sent r')) ns (mn_segments m)
    \<and> (\<forall>n. rc_files r' n \<noteq> None \<longleftrightarrow> n \<in> set ns)"
proof -
  let ?r1 = "close_segment env now SegStop (close_gap env now r)"
  have same: "same_video r (close_gap env now r)" by (simp add: same_video_def)
  have "archived (close_gap env now r)" "open_ok env b (close_gap env now r)"
    using rec_run_ok [OF assms(1)] f64 by (simp_all add: same_archived [OF same] same_open [OF same])
  then have "archived ?r1" using close_ok f64 by blast
  moreover have "mn_segments m = rc_segments ?r1" "rc_files r' = rc_files ?r1" "rc_sent r' = rc_sent ?r1"
    using fin by (auto simp: finish_recording_def Let_def)
  ultimately show ?thesis by (auto simp: archived_def archive_ok_def)
qed


subsection \<open>A recording\<close>

text \<open>An encoder that holds every frame until it is flushed.\<close>

definition holding_env :: "nat rec_env" where
  "holding_env = \<lparr>re_ser = (\<lambda>_. Some [123, 125]), re_stops = (\<lambda>_. None), re_create = (\<lambda>_ _. Some 0),
     re_send = (\<lambda>_ _ n. Some (n + 1)), re_receive = (\<lambda>n. Some ([], n)),
     re_flush = (\<lambda>n. Some (map (\<lambda>i. \<lparr>pk_input_frameno = i, pk_data = [of_nat i], pk_key = i = 0\<rparr>) [0..<n])),
     re_codec_config = (\<lambda>_. []), re_file_made = (\<lambda>_. True), re_file_ok = (\<lambda>_ _. True), re_commits = (\<lambda>_. True),
     re_sequence_header = (\<lambda>_. None), re_f64 = (\<lambda>_. replicate 8 0), re_start_wall = 0, re_start_offset = 0,
     re_budget_bytes = 1000000, re_segment_ms = SEGMENT_MS\<rparr>"

definition frame_at :: "nat \<Rightarrow> nat \<Rightarrow> frame_take" where
  "frame_at t dropped = \<lparr>ft_frame = \<lparr>cf_offset_ms = t, cf_frame_seq = t, cf_width = 1, cf_height = 1, cf_rgba = [9, 9, 9, 255]\<rparr>,
     ft_dropped = dropped, ft_first_dropped_ms = (if dropped = 0 then None else Some (t - 1))\<rparr>"

definition two_frames :: "nat recorder" where
  "two_frames = handle_frame holding_env (frame_at 250 1) 255 (handle_frame holding_env (frame_at 100 0) 101 (new_recorder holding_env))"

lemma two_frames_run: "rec_run holding_env 251 two_frames"
proof -
  have "rec_run holding_env (cf_offset_ms (ft_frame (frame_at 100 0)) + 1)
      (handle_frame holding_env (frame_at 100 0) 101 (new_recorder holding_env))"
    by (rule rec_run.Frame [OF rec_run.Start]) (simp_all add: frame_at_def)
  then have "rec_run holding_env (cf_offset_ms (ft_frame (frame_at 250 1)) + 1) two_frames"
    unfolding two_frames_def by (rule rec_run.Frame) (simp_all add: frame_at_def)
  then show ?thesis by (simp add: frame_at_def)
qed


lemmas call_defs = handle_frame_def note_drops_def close_gap_def note_size_def encode_frame_def open_segment_def
  bytes_with_pending_def writer_bytes_def create_writer_def send_picture_def Let_def MAX_PENDING_def
  write_own_def write_rec_def log_event_def stamped_def own_event_def timeline_def

lemma two_frames_sent: "rc_sent two_frames 1 = [100, 250]" "rc_segment two_frames \<noteq> None"
  by (simp_all add: call_defs two_frames_def holding_env_def frame_at_def new_recorder_def create_log_def newline_def)

lemma finish_entry_sent [simp]: "rc_sent (finish_entry env fin reason s k fl r) = rc_sent r"
  by (simp add: finish_entry_def Let_def)

lemma close_sent [simp]: "rc_sent (close_segment env fin reason r) = rc_sent r"
  by (simp add: close_segment_def Let_def split: option.split prod.split sum.split)

lemma finish_sent: "rc_sent (snd (finish_recording env final now captured r)) = rc_sent r"
  by (simp add: finish_recording_def Let_def)

lemma segments_keep_every_frame_witness:
  "\<exists>ns. list_all2 (entry_ok (rc_files (snd (finish_recording holding_env None 300 2 two_frames)))
       (rc_sent (snd (finish_recording holding_env None 300 2 two_frames)))) ns
       (mn_segments (fst (finish_recording holding_env None 300 2 two_frames)))
     \<and> rc_sent (snd (finish_recording holding_env None 300 2 two_frames)) 1 = [100, 250]"
proof -
  have "\<forall>x. length (re_f64 holding_env x) = 8" by (simp add: holding_env_def)
  from segments_keep_every_frame [OF two_frames_run this surjective_pairing, of None 300 2]
  show ?thesis using two_frames_sent(1) by (auto simp: finish_sent)
qed
end
