(* ===== verification/Recorder_Accounts.thy ===== *)
theory Recorder_Accounts
  imports Recorder_Promises
begin

text \<open>
  Nothing that a recording loses is lost silently: the capture stage, the session's event
  log and the recorder at work on the mailbox and the queue, and the books they keep.
\<close>

subsection \<open>The recording at work\<close>

text \<open>The events that only the recorder makes.\<close>

definition recorder_only :: "event_kind \<Rightarrow> bool" where
  "recorder_only k \<longleftrightarrow> (case k of FramesDropped _ _ _ \<Rightarrow> True | EventsLost _ \<Rightarrow> True | _ \<Rightarrow> False)"

text \<open>\<open>h\<close> is the number of frames that the recorder took.\<close>

inductive recording :: "'e rec_env \<Rightarrow> nat \<Rightarrow> event_queue \<times> mailbox \<Rightarrow> 'e recorder \<Rightarrow> bool" for env where
  Begins: "recording env 0 (new_queue, new_mailbox) (new_recorder env)"
| Captures: "recording env h (q, m) r \<Longrightarrow> recording env h (q, put_frame f m) r"
| EventComes: "recording env h (q, m) r \<Longrightarrow> \<not> recorder_only (ev_kind e) \<Longrightarrow> recording env h (snd (on_event e q), m) r"
| Stops: "recording env h (q, m) r \<Longrightarrow> \<not> recorder_only (ev_kind e) \<Longrightarrow> recording env h (on_detach e q, m) r"
| SinkGone: "recording env h (q, m) r \<Longrightarrow> recording env h (drop_sink q, m) r"
| Passes: "recording env h (q, m) r \<Longrightarrow> recorder_pass env now later (q, m) r = (Inr (), qm', r')
    \<Longrightarrow> recording env (h + (if mb_frame m = None then 0 else 1)) qm' r'"

subsection \<open>The books of the recorder\<close>

definition drops_in :: "session_event list \<Rightarrow> nat" where
  "drops_in es = sum_list (map (\<lambda>e. case ev_kind e of FramesDropped _ _ c \<Rightarrow> c | _ \<Rightarrow> 0) es)"

definition losses_in :: "session_event list \<Rightarrow> nat" where
  "losses_in es = sum_list (map (\<lambda>e. case ev_kind e of EventsLost c \<Rightarrow> c | _ \<Rightarrow> 0) es)"

definition gap_count :: "'e recorder \<Rightarrow> nat" where
  "gap_count r = (case rc_gap r of None \<Rightarrow> 0 | Some g \<Rightarrow> gp_count g)"

text \<open>\<open>owed d l r\<close>: the figures are those of the events but for \<open>d\<close> frames and \<open>l\<close> events.\<close>

definition owed :: "nat \<Rightarrow> nat \<Rightarrow> 'e recorder \<Rightarrow> bool" where
  "owed d l r \<longleftrightarrow> rc_failed r \<or>
     fg_frames_dropped (rc_figures r) = drops_in (rc_written r) + gap_count r + d
     \<and> fg_events_lost (rc_figures r) = losses_in (rc_written r) + l"

lemma owed_simps [simp]:
  "owed d l (r\<lparr>rc_segment := x1\<rparr>) = owed d l r" "owed d l (r\<lparr>rc_next_segment := x2\<rparr>) = owed d l r"
  "owed d l (r\<lparr>rc_closed_bytes := x3\<rparr>) = owed d l r" "owed d l (r\<lparr>rc_video_stopped := x4\<rparr>) = owed d l r"
  "owed d l (r\<lparr>rc_last_size := x5\<rparr>) = owed d l r" "owed d l (r\<lparr>rc_last_frame_seq := x6\<rparr>) = owed d l r"
  "owed d l (r\<lparr>rc_segments := x7\<rparr>) = owed d l r" "owed d l (r\<lparr>rc_files := x8\<rparr>) = owed d l r"
  "owed d l (r\<lparr>rc_parts := x9\<rparr>) = owed d l r" "owed d l (r\<lparr>rc_sent := x10\<rparr>) = owed d l r"
  "fg_frames_dropped f = fg_frames_dropped (rc_figures r) \<Longrightarrow> fg_events_lost f = fg_events_lost (rc_figures r)
    \<Longrightarrow> owed d l (r\<lparr>rc_figures := f\<rparr>) = owed d l r"
  by (simp_all add: owed_def gap_count_def)

lemma written_counts [simp]:
  "drops_in [] = 0" "losses_in [] = 0"
  "drops_in (es @ [stamped e l]) = drops_in es + (case ev_kind e of FramesDropped _ _ c \<Rightarrow> c | _ \<Rightarrow> 0)"
  "losses_in (es @ [stamped e l]) = losses_in es + (case ev_kind e of EventsLost c \<Rightarrow> c | _ \<Rightarrow> 0)"
  by (simp_all add: drops_in_def losses_in_def stamped_def)

lemma owed_write:
  assumes "owed (d + (case ev_kind e of FramesDropped _ _ c \<Rightarrow> c | _ \<Rightarrow> 0)) (l + (case ev_kind e of EventsLost c \<Rightarrow> c | _ \<Rightarrow> 0)) r"
  shows "owed d l (write_rec env e r)"
proof (cases "rc_failed r")
  case False
  obtain ok lg where lg: "log_event (re_ser env) (re_stops env) e (rc_log r) = (ok, lg)" by fastforce
  then show ?thesis using assms False by (cases ok) (auto simp: write_rec_def owed_def gap_count_def)
qed (use assms in \<open>simp add: write_rec_def owed_def\<close>)

lemma owed_plain: "\<not> recorder_only (ev_kind e) \<Longrightarrow> owed d l r \<Longrightarrow> owed d l (write_rec env e r)"
  by (rule owed_write) (auto simp: recorder_only_def split: event_kind.splits)

lemma own_kind [simp]: "ev_kind (own_event env now k r) = k"
  by (simp add: own_event_def)

lemma owed_own [simp]: "\<not> recorder_only k \<Longrightarrow> owed d l r \<Longrightarrow> owed d l (write_own env now k r)"
  by (simp add: write_own_def owed_plain)

lemma plain_kinds [simp]:
  "\<not> recorder_only (SegmentStarted a1 a2 a3 a4)" "\<not> recorder_only (SegmentClosed a1 a2 a3 a4 a5)"
  "\<not> recorder_only (VideoStopped a6)" "\<not> recorder_only (DesktopResized a7 a8)"
  by (simp_all add: recorder_only_def)

lemma owed_close_gap: "owed 0 l r \<Longrightarrow> owed 0 l (close_gap env now r)"
proof (cases "rc_gap r")
  case (Some g)
  assume "owed 0 l r"
  then have "owed (gp_count g) l (r\<lparr>rc_gap := None\<rparr>)" using Some by (auto simp: owed_def gap_count_def)
  then show ?thesis using Some unfolding close_gap_def write_own_def by (auto intro!: owed_write)
qed (simp add: close_gap_def)

lemma owed_events:
  assumes "\<forall>e \<in> set es. \<not> recorder_only (ev_kind e)" and "owed 0 0 r"
  shows "owed 0 0 (handle_events env es lost now r)"
proof -
  have f: "owed 0 0 (fold (write_rec env) es r)" using assms
    by (induction es arbitrary: r) (auto intro!: owed_plain)
  let ?r = "fold (write_rec env) es r"
  have "owed 0 lost (?r\<lparr>rc_figures := (rc_figures ?r)\<lparr>fg_events_lost := fg_events_lost (rc_figures ?r) + lost\<rparr>\<rparr>)"
    using f by (auto simp: owed_def gap_count_def)
  then show ?thesis using f unfolding handle_events_def Let_def write_own_def
    by (auto intro!: owed_write)
qed

lemma owed_stop: "owed d l r \<Longrightarrow> owed d l (stop_video env now x r)"
  by (simp add: stop_video_def)

lemma owed_fail: "owed 0 l r \<Longrightarrow> owed 0 l (fail_video env now x r)"
  by (auto simp: fail_video_def Let_def intro!: owed_stop owed_close_gap split: option.split)

lemma owed_finish_entry: "owed d l r \<Longrightarrow> owed d l (finish_entry env fin reason s k fl r)"
  by (simp add: finish_entry_def Let_def)

lemma owed_close:
  assumes "owed 0 l r"
  shows "owed 0 l (close_segment env fin reason r)"
proof (cases "rc_segment r")
  case None
  then show ?thesis using assms by (simp add: close_segment_def)
next
  case (Some s0)
  then show ?thesis using assms
    by (auto simp: close_segment_def Let_def intro!: owed_fail owed_stop owed_finish_entry split: option.split prod.split sum.split)
qed

lemma owed_note_drops:
  assumes "owed 0 l r"
  shows "owed 0 l (note_drops env t now r)"
proof (cases "0 < ft_dropped t")
  case True
  then show ?thesis using assms by (auto simp: note_drops_def Let_def owed_def gap_count_def split: option.split)
qed (use assms owed_close_gap in \<open>simp add: note_drops_def Let_def\<close>)

lemma owed_note_size: "owed 0 l r \<Longrightarrow> owed 0 l (note_size env f now r)"
  by (simp add: note_size_def Let_def owed_close)

lemma owed_open: "owed d l r \<Longrightarrow> open_segment env off dims now r = (ok, r') \<Longrightarrow> owed d l r'"
  by (auto simp: open_segment_def Let_def intro!: owed_stop split: option.splits if_splits)

lemma owed_send: "owed d l r \<Longrightarrow> send_picture env pic off r = (res, r') \<Longrightarrow> owed d l r'"
  by (auto simp: send_picture_def Let_def split: option.splits prod.splits sum.splits if_splits)

lemma owed_encode: "owed 0 l r \<Longrightarrow> owed 0 l (encode_frame env f now r)"
  by (auto simp: encode_frame_def intro!: owed_stop owed_close owed_fail dest: owed_send split: prod.split sum.split)

lemma owed_frame:
  assumes "owed 0 l r"
  shows "owed 0 l (handle_frame env t now r)"
proof -
  let ?r2 = "note_size env (ft_frame t) now ((note_drops env t now r)\<lparr>rc_last_frame_seq := cf_frame_seq (ft_frame t)\<rparr>)"
  have "owed 0 l ?r2" using assms by (simp add: owed_note_size owed_note_drops)
  then show ?thesis
    by (auto simp: handle_frame_def Let_def intro!: owed_encode dest: owed_open split: prod.split)
qed

lemma owed_tick: "owed 0 l r \<Longrightarrow> owed 0 l (recorder_tick env now r)"
  by (simp add: recorder_tick_def owed_close split: option.split)

subsection \<open>The dropped frames\<close>

definition dropped :: "'e recorder \<Rightarrow> nat" where
  "dropped r = fg_frames_dropped (rc_figures r)"

lemma dropped_simps [simp]:
  "dropped (write_rec env e r) = dropped r" "dropped (write_own env now k r) = dropped r"
  "dropped (close_gap env now r) = dropped r" "dropped (stop_video env now x r) = dropped r"
  by (simp_all add: dropped_def)

lemma dropped_fields [simp]:
  "dropped (r\<lparr>rc_segment := x1\<rparr>) = dropped r" "dropped (r\<lparr>rc_next_segment := x2\<rparr>) = dropped r"
  "dropped (r\<lparr>rc_closed_bytes := x3\<rparr>) = dropped r" "dropped (r\<lparr>rc_video_stopped := x4\<rparr>) = dropped r"
  "dropped (r\<lparr>rc_last_size := x5\<rparr>) = dropped r" "dropped (r\<lparr>rc_last_frame_seq := x6\<rparr>) = dropped r"
  "dropped (r\<lparr>rc_segments := x7\<rparr>) = dropped r" "dropped (r\<lparr>rc_files := x8\<rparr>) = dropped r"
  "dropped (r\<lparr>rc_parts := x9\<rparr>) = dropped r" "dropped (r\<lparr>rc_sent := x10\<rparr>) = dropped r"
  "dropped (r\<lparr>rc_gap := x11\<rparr>) = dropped r" "dropped (r\<lparr>rc_figures := f\<rparr>) = fg_frames_dropped f"
  by (simp_all add: dropped_def)

lemma dropped_events [simp]: "dropped (handle_events env es lost now r) = dropped r"
proof -
  have "rc_figures (fold (write_rec env) es r) = rc_figures r" by (induction es arbitrary: r) simp_all
  then show ?thesis by (simp add: handle_events_def Let_def dropped_def)
qed

lemma dropped_fail [simp]: "dropped (fail_video env now x r) = dropped r"
  by (simp add: fail_video_def Let_def split: option.split)

lemma dropped_finish_entry [simp]: "dropped (finish_entry env fin reason s k fl r) = dropped r"
  by (simp add: finish_entry_def Let_def)

lemma dropped_close [simp]: "dropped (close_segment env fin reason r) = dropped r"
  by (simp add: close_segment_def Let_def flip: dropped_def split: option.split prod.split sum.split)

lemma dropped_open: "open_segment env off dims now r = (ok, r') \<Longrightarrow> dropped r' = dropped r"
  by (auto simp: open_segment_def Let_def split: option.splits if_splits)

lemma dropped_send: "send_picture env pic off r = (res, r') \<Longrightarrow> dropped r' = dropped r"
  by (auto simp: send_picture_def Let_def split: option.splits prod.splits sum.splits if_splits simp flip: dropped_def)

lemma dropped_encode [simp]: "dropped (encode_frame env f now r) = dropped r"
  by (auto simp: encode_frame_def dest: dropped_send split: prod.split sum.split)

lemma dropped_size [simp]: "dropped (note_size env f now r) = dropped r"
  by (simp add: note_size_def Let_def)

lemma dropped_drops: "dropped (note_drops env t now r) = dropped r + ft_dropped t"
  by (auto simp: note_drops_def Let_def simp flip: dropped_def split: option.split)

lemma dropped_frame: "dropped (handle_frame env t now r) = dropped r + ft_dropped t"
  by (auto simp: handle_frame_def Let_def dropped_drops dest: dropped_open split: prod.split)

lemma dropped_tick [simp]: "dropped (recorder_tick env now r) = dropped r"
  by (simp add: recorder_tick_def split: option.split)

lemma gap_closed [simp]: "rc_gap (close_gap env now r) = None"
  by (simp add: close_gap_def split: option.split)

lemma gap_fail [simp]: "rc_gap (fail_video env now x r) = None"
  by (simp add: fail_video_def Let_def)

lemma gap_finish_entry [simp]: "rc_gap (finish_entry env fin reason s k fl r) = rc_gap r"
  by (simp add: finish_entry_def Let_def)

lemma gap_close: "rc_gap r = None \<Longrightarrow> rc_gap (close_segment env fin reason r) = None"
  by (simp add: close_segment_def Let_def split: option.split prod.split sum.split)

subsection \<open>The whole recording\<close>

definition queue_plain :: "event_queue \<Rightarrow> bool" where
  "queue_plain q \<longleftrightarrow> (\<forall>e \<in> set (eq_events q). \<not> recorder_only (ev_kind e))
     \<and> (\<forall>e. eq_last q = Some e \<longrightarrow> \<not> recorder_only (ev_kind e))"

definition waiting_frames :: "mailbox \<Rightarrow> nat" where
  "waiting_frames m = (if mb_frame m = None then 0 else 1)"

lemma pass_goes_on:
  assumes "recorder_pass env now later (q, m) r = (Inr (), qm', r')"
  obtains r1 where "r1 = handle_events env (eq_events q) (eq_lost q) now r" "qm' = (snd (drain_events q), snd (take_frame m))"
    "r' = recorder_tick env later (case fst (take_frame m) of None \<Rightarrow> r1 | Some t \<Rightarrow> handle_frame env t now r1)"
  using assms by (auto simp: recorder_pass_def Let_def drain_events_def split: prod.splits if_splits cong: option.case_cong)

lemma pass_ends:
  assumes "recorder_pass env now later (q, m) r = (Inl mn, qm', r')"
  shows "finish_recording env (eq_last q) later (mb_captured m) (handle_events env (eq_events q) (eq_lost q) now r) = (mn, r')"
  using assms by (auto simp: recorder_pass_def Let_def drain_events_def split: prod.splits if_splits)

lemma mailbox_counts:
  "mb_captured (put_frame f m) + mb_dropped m + waiting_frames m
     = mb_captured m + mb_dropped (put_frame f m) + waiting_frames (put_frame f m)"
  "mb_captured (snd (take_frame m)) = mb_captured m"
  "mb_dropped (snd (take_frame m)) + waiting_frames (snd (take_frame m))
      + (case fst (take_frame m) of None \<Rightarrow> 0 | Some t \<Rightarrow> Suc (ft_dropped t))
     = mb_dropped m + waiting_frames m"
  by (simp_all add: put_frame_def take_frame_def waiting_frames_def Let_def split: option.split)

lemma recording_books:
  "recording env h qm r \<Longrightarrow> queue_plain (fst qm) \<and> owed 0 0 r
     \<and> mb_captured (snd qm) = h + dropped r + mb_dropped (snd qm) + waiting_frames (snd qm)"
proof (induction h qm r rule: recording.induct)
  case Begins
  then show ?case
    by (simp add: queue_plain_def new_queue_def owed_def new_recorder_def gap_count_def dropped_def new_mailbox_def waiting_frames_def)
next
  case (Captures h q m r f)
  then show ?case using mailbox_counts(1) [of f m] by simp
next
  case (EventComes h q m r e)
  then show ?case by (auto simp: queue_plain_def on_event_def)
next
  case (Stops h q m r e)
  then show ?case by (auto simp: queue_plain_def on_detach_def)
next
  case (SinkGone h q m r)
  then show ?case by (auto simp: queue_plain_def drop_sink_def)
next
  case (Passes h q m r now later qm' r')
  from Passes.hyps(2) obtain r1 where p: "r1 = handle_events env (eq_events q) (eq_lost q) now r"
    "qm' = (snd (drain_events q), snd (take_frame m))"
    "r' = recorder_tick env later (case fst (take_frame m) of None \<Rightarrow> r1 | Some t \<Rightarrow> handle_frame env t now r1)"
    by (rule pass_goes_on)
  have r1: "owed 0 0 r1" "dropped r1 = dropped r"
    using Passes.IH by (simp_all add: p(1) owed_events queue_plain_def)
  then have r': "owed 0 0 r'" by (simp add: p(3) owed_tick owed_frame split: option.split)
  have "queue_plain (fst qm')" by (simp add: p(2) queue_plain_def drain_events_def)
  moreover have "mb_captured (snd qm') = h + (if mb_frame m = None then 0 else 1) + dropped r'
      + mb_dropped (snd qm') + waiting_frames (snd qm')"
    using Passes.IH mailbox_counts(2,3) [of m] r1(2)
    by (auto simp: p(2,3) dropped_frame take_frame_def split: option.splits)
  ultimately show ?case using r' by simp
qed

text \<open>
  C11. No loss of a recording is silent. Every captured frame was taken by the recorder, waits
  for it, or is counted as dropped; and unless the event file failed, the drops and the lost
  events that the recorder counts are those that it wrote into the file, but for the drops
  of the open gap. When the recording ends the figures of the manifest are those of the file.
\<close>

theorem losses_are_on_record:
  assumes "recording env h (q, m) r"
  shows "mb_captured m = h + fg_frames_dropped (rc_figures r) + mb_dropped m + waiting_frames m
    \<and> (\<not> rc_failed r \<longrightarrow> fg_frames_dropped (rc_figures r) = drops_in (rc_written r) + gap_count r
         \<and> fg_events_lost (rc_figures r) = losses_in (rc_written r))
    \<and> (\<forall>now later mn qm' r'. recorder_pass env now later (q, m) r = (Inl mn, qm', r') \<longrightarrow>
         (\<exists>st. mn_stats mn = Some st \<and> st_frames_captured st = h + st_frames_dropped st + mb_dropped m + waiting_frames m
            \<and> (\<not> rc_failed r' \<longrightarrow> st_frames_dropped st = drops_in (rc_written r') \<and> st_events_lost st = losses_in (rc_written r'))))"
proof (intro conjI allI impI)
  have b: "queue_plain q" "owed 0 0 r" "mb_captured m = h + dropped r + mb_dropped m + waiting_frames m"
    using recording_books [OF assms] by simp_all
  show "mb_captured m = h + fg_frames_dropped (rc_figures r) + mb_dropped m + waiting_frames m"
    using b(3) by (simp add: dropped_def)
  show "fg_frames_dropped (rc_figures r) = drops_in (rc_written r) + gap_count r"
    "fg_events_lost (rc_figures r) = losses_in (rc_written r)" if "\<not> rc_failed r"
    using b(2) that by (simp_all add: owed_def)
  fix now later mn qm' r'
  assume "recorder_pass env now later (q, m) r = (Inl mn, qm', r')"
  note fin = pass_ends [OF this]
  let ?r0 = "handle_events env (eq_events q) (eq_lost q) now r"
  let ?r1 = "close_segment env later SegStop (close_gap env later ?r0)"
  obtain final where r': "r' = write_rec env final ?r1" and kind: "\<not> recorder_only (ev_kind final)"
    and st: "mn_stats mn = Some \<lparr>st_frames_captured = mb_captured m, st_frames_encoded = fg_frames_encoded (rc_figures ?r1),
       st_frames_dropped = fg_frames_dropped (rc_figures ?r1), st_gap_periods = fg_gap_periods (rc_figures ?r1),
       st_frames_held_at_close_max = fg_held_at_close_max (rc_figures ?r1), st_events_lost = fg_events_lost (rc_figures ?r1)\<rparr>"
    using fin b(1) by (cases "eq_last q") (auto simp: finish_recording_def Let_def queue_plain_def recorder_only_def)
  have "owed 0 0 ?r0" using b(1,2) by (simp add: owed_events queue_plain_def)
  then have "owed 0 0 r'" unfolding r' by (intro owed_plain kind owed_close owed_close_gap)
  moreover have "rc_gap r' = None" by (simp add: r' gap_close)
  ultimately have "\<not> rc_failed r' \<longrightarrow> fg_frames_dropped (rc_figures r') = drops_in (rc_written r')
      \<and> fg_events_lost (rc_figures r') = losses_in (rc_written r')" by (auto simp: owed_def gap_count_def)
  moreover have "fg_frames_dropped (rc_figures ?r1) = dropped r" by (simp flip: dropped_def)
  ultimately show "\<exists>st. mn_stats mn = Some st \<and> st_frames_captured st = h + st_frames_dropped st + mb_dropped m + waiting_frames m
            \<and> (\<not> rc_failed r' \<longrightarrow> st_frames_dropped st = drops_in (rc_written r') \<and> st_events_lost st = losses_in (rc_written r'))"
    using b(3) by (simp add: st r')
qed

subsection \<open>The end of the video\<close>

definition video_over :: "'e recorder \<Rightarrow> bool" where
  "video_over r \<longleftrightarrow> (rc_video_stopped r \<longrightarrow> rc_segment r = None)"

lemma close_ends [simp]: "rc_segment (close_segment env fin reason r) = None"
  by (simp add: close_segment_def Let_def split: option.split prod.split sum.split)

lemma over_events: "video_over r \<Longrightarrow> video_over (handle_events env es lost now r)"
proof -
  have "rc_video_stopped (fold (write_rec env) es r) = rc_video_stopped r" by (induction es arbitrary: r) simp_all
  then show "video_over r \<Longrightarrow> video_over (handle_events env es lost now r)"
    using fold_write_keeps [of r env es] by (simp add: handle_events_def Let_def video_over_def same_video_def)
qed

lemma over_drops: "video_over r \<Longrightarrow> video_over (note_drops env t now r)"
proof -
  have "rc_video_stopped (close_gap env now r) = rc_video_stopped r" by simp
  then show "video_over r \<Longrightarrow> video_over (note_drops env t now r)"
    by (simp add: note_drops_def Let_def video_over_def split: option.split)
qed

lemma over_size: "video_over r \<Longrightarrow> video_over (note_size env f now r)"
  by (auto simp: note_size_def Let_def video_over_def)

lemma send_keeps_stop: "send_picture env pic off r = (res, r') \<Longrightarrow> rc_video_stopped r' = rc_video_stopped r"
  by (auto simp: send_picture_def Let_def split: option.splits prod.splits sum.splits if_splits)

lemma open_stops: "open_segment env off dims now r = (ok, r') \<Longrightarrow> rc_segment r = None \<Longrightarrow>
    (ok \<and> rc_video_stopped r' = rc_video_stopped r) \<or> (\<not> ok \<and> rc_segment r' = None)"
  by (auto simp: open_segment_def Let_def split: option.splits if_splits)

lemma over_encode: "\<not> rc_video_stopped r \<Longrightarrow> video_over (encode_frame env f now r)"
  by (auto simp: encode_frame_def video_over_def dest: send_keeps_stop split: prod.split sum.split)

lemma over_frame:
  assumes "video_over r"
  shows "video_over (handle_frame env t now r)"
proof -
  let ?r2 = "note_size env (ft_frame t) now ((note_drops env t now r)\<lparr>rc_last_frame_seq := cf_frame_seq (ft_frame t)\<rparr>)"
  have "video_over ((note_drops env t now r)\<lparr>rc_last_frame_seq := cf_frame_seq (ft_frame t)\<rparr>)"
    using over_drops [OF assms, of env t now] by (simp add: video_over_def)
  then have r2: "video_over ?r2" by (rule over_size)
  show ?thesis
  proof (cases "rc_video_stopped ?r2 \<or> rc_failed ?r2")
    case True
    then show ?thesis using r2 by (simp add: handle_frame_def Let_def)
  next
    case False
    obtain ok r3 where r3: "(if rc_segment ?r2 = None then open_segment env (cf_offset_ms (ft_frame t))
        (cf_width (ft_frame t), cf_height (ft_frame t)) now ?r2 else (True, ?r2)) = (ok, r3)" by fastforce
    then have "handle_frame env t now r = (if \<not> ok then r3 else encode_frame env (ft_frame t) now r3)"
      using False by (simp add: handle_frame_def Let_def)
    moreover have "ok \<and> \<not> rc_video_stopped r3 \<or> \<not> ok \<and> rc_segment r3 = None"
    proof (cases "rc_segment ?r2 = None")
      case True
      then show ?thesis using r3 open_stops [of env _ _ now ?r2 ok r3] False by simp
    qed (use r3 False in \<open>auto simp del: not_None_eq\<close>)
    ultimately show ?thesis using over_encode by (auto simp: video_over_def)
  qed
qed

lemma over_run: "rec_run env b r \<Longrightarrow> video_over r"
proof (induction rule: rec_run.induct)
  case (Tick b r now)
  then show ?case by (auto simp: video_over_def recorder_tick_def split: option.split)
qed (simp_all add: over_events over_frame, simp add: video_over_def new_recorder_def)

lemma size_when_over: "rc_segment r = None \<Longrightarrow> same_video r (note_size env f now r)"
  by (simp add: note_size_def Let_def same_video_def)

lemma frame_when_over:
  assumes "rc_segment r = None" and "rc_video_stopped r"
  shows "same_video r (handle_frame env t now r) \<and> rc_video_stopped (handle_frame env t now r)"
proof -
  define r1 where "r1 = (note_drops env t now r)\<lparr>rc_last_frame_seq := cf_frame_seq (ft_frame t)\<rparr>"
  have r1: "same_video r r1" using note_drops_keeps [of r env t now] by (simp add: r1_def same_video_def)
  have "rc_video_stopped (close_gap env now r) = rc_video_stopped r" by simp
  then have v1: "rc_video_stopped r1"
    using assms(2) by (simp add: r1_def note_drops_def Let_def split: option.split)
  have "rc_segment r1 = None" using r1 assms(1) by (simp add: same_video_def)
  then have "same_video r1 (note_size env (ft_frame t) now r1)" by (rule size_when_over)
  moreover have "rc_video_stopped (note_size env (ft_frame t) now r1)"
    using v1 \<open>rc_segment r1 = None\<close> by (simp add: note_size_def Let_def)
  ultimately show ?thesis using r1 by (simp add: handle_frame_def Let_def r1_def [symmetric] same_video_def)
qed

text \<open>
  C12. The end of the video is final. Once it has stopped (an encoder or write error, or the
  size cap) no segment is open, no frame, event or tick opens one or changes a finished one,
  and the manifest lists what was finished by then.
\<close>

theorem video_stop_is_final:
  assumes "rec_run env b r" and "rc_video_stopped r"
  shows "rc_segment r = None
    \<and> same_video r (handle_frame env t now r) \<and> rc_video_stopped (handle_frame env t now r)
    \<and> same_video r (handle_events env es lost now r) \<and> recorder_tick env now r = r
    \<and> mn_segments (fst (finish_recording env final now captured r)) = rc_segments r"
proof (intro conjI)
  show s: "rc_segment r = None" using over_run [OF assms(1)] assms(2) by (simp add: video_over_def)
  show "same_video r (handle_frame env t now r)" "rc_video_stopped (handle_frame env t now r)"
    using frame_when_over [OF s assms(2)] by simp_all
  show "recorder_tick env now r = r" by (simp add: recorder_tick_def deadline_def s)
  show "mn_segments (fst (finish_recording env final now captured r)) = rc_segments r"
    by (simp add: finish_recording_def close_segment_def s Let_def)
qed (rule handle_events_keeps)

subsection \<open>Samples\<close>

text \<open>An environment without an encoder: the first frame stops the video.\<close>

definition blind_env :: "nat rec_env" where
  "blind_env = holding_env\<lparr>re_create := (\<lambda>_ _. None)\<rparr>"

lemma video_stop_is_final_witness:
  "let r = handle_frame blind_env (frame_at 100 0) 101 (new_recorder blind_env)
   in rc_segment r = None \<and> same_video r (handle_frame blind_env (frame_at 200 2) 201 r)"
proof -
  let ?r = "handle_frame blind_env (frame_at 100 0) 101 (new_recorder blind_env)"
  have "rec_run blind_env (cf_offset_ms (ft_frame (frame_at 100 0)) + 1) ?r"
    by (rule rec_run.Frame [OF rec_run.Start]) (simp_all add: frame_at_def)
  moreover have "rc_video_stopped ?r"
    by (simp add: call_defs blind_env_def holding_env_def frame_at_def new_recorder_def stop_video_def)
  ultimately show ?thesis unfolding Let_def using video_stop_is_final by blast
qed

definition frame_of :: "nat \<Rightarrow> captured_frame" where
  "frame_of t = ft_frame (frame_at t 0)"

text \<open>Two frames are captured, and the session ends before the recorder takes one.\<close>

definition closing_event :: session_event where
  "closing_event = \<lparr>ev_seq = 0, ev_at = [], ev_offset_ms = 300, ev_frame_seq = 2, ev_source = Daemon,
     ev_kind = RecordingStopped StopSessionClosed\<rparr>"

lemma closing_run:
  "recording holding_env 0 (on_detach closing_event new_queue, put_frame (frame_of 250) (put_frame (frame_of 100) new_mailbox))
     (new_recorder holding_env)"
  by (intro recording.intros) (simp add: recorder_only_def closing_event_def)

lemma losses_are_on_record_witness:
  "mb_captured (put_frame (frame_of 250) (put_frame (frame_of 100) new_mailbox))
     = 0 + fg_frames_dropped (rc_figures (new_recorder holding_env)) + 1 + 1"
  using losses_are_on_record [OF closing_run] by (simp add: put_frame_def new_mailbox_def waiting_frames_def)

text \<open>
  Both frames are missing from the figures of the manifest: the recorder leaves the mailbox
  as it is when the recording ends.
\<close>

lemma last_frames_unreported:
  "\<exists>mn qm' r' st. recorder_pass holding_env 300 300
       (on_detach closing_event new_queue, put_frame (frame_of 250) (put_frame (frame_of 100) new_mailbox))
       (new_recorder holding_env) = (Inl mn, qm', r')
     \<and> mn_stats mn = Some st \<and> st_frames_captured st = 2 \<and> st_frames_encoded st = 0 \<and> st_frames_dropped st = 0"
  by (simp add: recorder_pass_def drain_events_def on_detach_def new_queue_def handle_events_def finish_recording_def
      close_segment_def close_gap_def put_frame_def new_mailbox_def new_recorder_def Let_def)

end
