(* ===== verification/Recording_Store.thy ===== *)
theory Recording_Store
  imports Recorder Json_Value "HOL-Library.Product_Lexorder"
begin

text \<open>
  The recordings on disk and their retention (\<open>daemon/src/recording/store.rs\<close>). The root is
  the list of its directories in the order of \<open>read_dir\<close>; the JSON of a manifest and of an
  event, and what fails in the file system, are fields of an environment.
\<close>

subsection \<open>Names\<close>

definition MAX_AGE_MS :: nat where "MAX_AGE_MS = 7 * 24 * 60 * 60 * 1000"
definition ID_LEN :: nat where "ID_LEN = 25"
definition MAX_SEGMENT :: nat where "MAX_SEGMENT = 999999"

definition is_digit :: "uchar \<Rightarrow> bool" where
  "is_digit c \<longleftrightarrow> 48 \<le> c \<and> c \<le> 57"

definition lower_hex :: "uchar \<Rightarrow> bool" where
  "lower_hex c \<longleftrightarrow> is_digit c \<or> 97 \<le> c \<and> c \<le> 102"

text \<open>On code points: a byte of another character is in none of the classes.\<close>

definition valid_rec_id :: "ustr \<Rightarrow> bool" where
  "valid_rec_id b \<longleftrightarrow> length b = ID_LEN \<and> list_all is_digit (take 8 b) \<and> b ! 8 = ch CHR ''T''
     \<and> list_all is_digit (take 6 (drop 9 b)) \<and> b ! 15 = ch CHR ''Z'' \<and> b ! 16 = ch CHR ''-''
     \<and> list_all lower_hex (drop 17 b)"

definition hex_digit :: "nat \<Rightarrow> uchar" where
  "hex_digit n = (if n < 10 then 48 + n else 87 + n)"

definition hex_byte :: "u8 \<Rightarrow> ustr" where
  "hex_byte b = [hex_digit (unat b div 16), hex_digit (unat b mod 16)]"

text \<open>\<open>random\<close> are the four bytes of \<open>getrandom\<close>, \<open>fallback\<close> those it is replaced by.\<close>

definition mint_id :: "int \<Rightarrow> u8 list option \<Rightarrow> u8 list \<Rightarrow> ustr" where
  "mint_id now random fallback =
     (let stamp = filter (\<lambda>c. c \<noteq> ch CHR ''-'' \<and> c \<noteq> ch CHR '':'') (iso8601_from_system_time now);
          bytes = (case random of Some b \<Rightarrow> b | None \<Rightarrow> fallback)
      in stamp @ lit ''-'' @ concat (map hex_byte bytes))"

subsection \<open>Directories\<close>

record stored_manifest = manifest +
  sm_id :: ustr
  sm_started_at :: ustr
  sm_started_unix_ms :: nat

definition finished :: "stored_manifest \<Rightarrow> bool" where
  "finished m \<longleftrightarrow> mn_ended_at m \<noteq> None"

text \<open>\<open>rd_segments\<close> are the names and lengths in \<^verbatim>\<open>segments\<close>, \<open>rd_rest\<close> the bytes of other files.\<close>

record rec_dir =
  rd_manifest :: "bytes option"
  rd_events :: "bytes option"
  rd_keep :: bool
  rd_segments :: "(ustr \<times> nat) list"
  rd_rest :: nat

type_synonym rec_store = "(ustr \<times> rec_dir) list"

text \<open>What stops \<open>create_recording\<close>: the root, the directory or its \<^verbatim>\<open>segments\<close>.\<close>

datatype create_fault = RootFault | DirFault | SegmentsFault

record store_env =
  se_parse :: "bytes \<Rightarrow> stored_manifest option"
  se_render :: "stored_manifest \<Rightarrow> bytes option"
  se_event :: "bytes \<Rightarrow> json option"
  se_write_fails :: "ustr \<Rightarrow> rec_dir \<Rightarrow> nat option"
  se_unmark_fails :: "ustr \<Rightarrow> bool"
  se_part_stays :: "ustr \<Rightarrow> ustr \<Rightarrow> bool"
  se_remains :: "ustr \<Rightarrow> rec_dir \<Rightarrow> rec_dir option"
  se_create_fault :: "ustr \<Rightarrow> create_fault option"

definition dir_bytes :: "rec_dir \<Rightarrow> nat" where
  "dir_bytes d = (case rd_manifest d of None \<Rightarrow> 0 | Some b \<Rightarrow> length b)
     + (case rd_events d of None \<Rightarrow> 0 | Some b \<Rightarrow> length b)
     + sum_list (map snd (rd_segments d)) + rd_rest d"

definition set_dir :: "ustr \<Rightarrow> rec_dir \<Rightarrow> rec_store \<Rightarrow> rec_store" where
  "set_dir n d st = map (\<lambda>(k, x). (k, if k = n then d else x)) st"

definition read_manifest :: "store_env \<Rightarrow> rec_dir \<Rightarrow> stored_manifest option" where
  "read_manifest env d = Option.bind (rd_manifest d) (se_parse env)"

text \<open>
  \<open>write_manifest\<close> and the mark go through \<open>write_atomic\<close>: the new content is there, or the old
  one is and a temporary file may be left.
\<close>

definition write_manifest :: "store_env \<Rightarrow> ustr \<Rightarrow> stored_manifest \<Rightarrow> rec_store \<Rightarrow> bool \<times> rec_store" where
  "write_manifest env n m st =
     (case (map_of st n, se_render env m) of
        (Some d, Some b) \<Rightarrow>
          (case se_write_fails env n d of
             None \<Rightarrow> (True, set_dir n (d\<lparr>rd_manifest := Some b\<rparr>) st)
           | Some k \<Rightarrow> (False, set_dir n (d\<lparr>rd_rest := k\<rparr>) st))
      | _ \<Rightarrow> (False, st))"

definition segment_path :: "ustr \<Rightarrow> nat \<Rightarrow> rec_store \<Rightarrow> (ustr \<times> ustr) option" where
  "segment_path n k st =
     (if k < 1 \<or> MAX_SEGMENT < k then None
      else if \<not> valid_rec_id n then None
      else (case map_of st n of
              None \<Rightarrow> None
            | Some d \<Rightarrow> if segment_file k \<in> fst ` set (rd_segments d) then Some (n, segment_file k) else None))"

datatype create_error = BadRecordingId | AlreadyExists | CreateIo

definition create_recording :: "store_env \<Rightarrow> ustr \<Rightarrow> rec_store \<Rightarrow> (create_error + unit) \<times> rec_store" where
  "create_recording env n st =
     (if \<not> valid_rec_id n then (Inl BadRecordingId, st)
      else if se_create_fault env n = Some RootFault then (Inl CreateIo, st)
      else if map_of st n \<noteq> None then (Inl AlreadyExists, st)
      else if se_create_fault env n = Some DirFault then (Inl CreateIo, st)
      else
        (let st' = st @ [(n, \<lparr>rd_manifest = None, rd_events = None, rd_keep = False, rd_segments = [], rd_rest = 0\<rparr>)]
         in if se_create_fault env n = Some SegmentsFault then (Inl CreateIo, st') else (Inr (), st')))"

datatype keep_error = KeepNotFound | KeepIo

definition set_keep :: "store_env \<Rightarrow> ustr \<Rightarrow> bool \<Rightarrow> rec_store \<Rightarrow> (keep_error + bool) \<times> rec_store" where
  "set_keep env n keep st =
     (case (if valid_rec_id n then map_of st n else None) of
        None \<Rightarrow> (Inl KeepNotFound, st)
      | Some d \<Rightarrow>
          (if rd_manifest d = None then (Inl KeepNotFound, st)
           else if keep = rd_keep d then (Inr False, st)
           else if keep then
             (case se_write_fails env n d of
                None \<Rightarrow> (Inr True, set_dir n (d\<lparr>rd_keep := True\<rparr>) st)
              | Some k \<Rightarrow> (Inl KeepIo, set_dir n (d\<lparr>rd_rest := k\<rparr>) st))
           else if se_unmark_fails env n then (Inl KeepIo, st)
           else (Inr True, set_dir n (d\<lparr>rd_keep := False\<rparr>) st)))"

subsection \<open>Scanning\<close>

record scanned =
  sc_manifest :: stored_manifest
  sc_bytes :: nat
  sc_kept :: bool

definition scan_entry :: "store_env \<Rightarrow> ustr \<times> rec_dir \<Rightarrow> scanned option" where
  "scan_entry env e =
     (if valid_rec_id (fst e)
      then map_option (\<lambda>m. \<lparr>sc_manifest = m, sc_bytes = dir_bytes (snd e), sc_kept = rd_keep (snd e)\<rparr>)
             (read_manifest env (snd e))
      else None)"

definition scan_key :: "scanned \<Rightarrow> nat \<times> ustr" where
  "scan_key s = (sm_started_unix_ms (sc_manifest s), sm_id (sc_manifest s))"

definition scan :: "store_env \<Rightarrow> rec_store \<Rightarrow> scanned list" where
  "scan env st = sort_key scan_key (List.map_filter (scan_entry env) st)"

text \<open>\<open>read_events\<close>: the complete lines that parse; each is parsed with its line break.\<close>

definition read_events :: "store_env \<Rightarrow> rec_dir \<Rightarrow> json list" where
  "read_events env d =
     (case rd_events d of
        None \<Rightarrow> []
      | Some b \<Rightarrow> List.map_filter (\<lambda>l. se_event env (l @ [newline])) (read_lines [] b))"

subsection \<open>Leftovers\<close>

text \<open>\<open>Path::extension\<close> is \<^verbatim>\<open>part\<close>.\<close>

definition is_part :: "ustr \<Rightarrow> bool" where
  "is_part n \<longleftrightarrow>
     (let suffix = takeWhile (\<lambda>c. c \<noteq> ch CHR ''.'') (rev n)
      in rev suffix = lit ''part'' \<and> Suc (length suffix) < length n)"

definition remove_parts :: "store_env \<Rightarrow> ustr \<Rightarrow> rec_dir \<Rightarrow> rec_dir" where
  "remove_parts env n d =
     d\<lparr>rd_segments := filter (\<lambda>(s, _). is_part s \<longrightarrow> se_part_stays env n s) (rd_segments d)\<rparr>"

definition json_u64 :: "json \<Rightarrow> nat option" where
  "json_u64 v = (case v of JPosInt n \<Rightarrow> Some n | _ \<Rightarrow> None)"

definition end_time :: "json list \<Rightarrow> ustr option" where
  "end_time events =
     (if events = [] then None else Option.bind (get_field (last events) (lit ''at'')) as_str)"

definition end_offset :: "json list \<Rightarrow> nat option" where
  "end_offset events =
     (if events = [] then None else Option.bind (get_field (last events) (lit ''offset_ms'')) json_u64)"

definition lost_manifest :: "json list \<Rightarrow> stored_manifest \<Rightarrow> stored_manifest" where
  "lost_manifest events m =
     m\<lparr>mn_ended_at := Some (case end_time events of Some t \<Rightarrow> t | None \<Rightarrow> sm_started_at m),
       mn_duration_ms := Some (case end_offset events of Some n \<Rightarrow> n | None \<Rightarrow> 0),
       mn_end_reason := Some (lit ''daemon_lost'')\<rparr>"

definition finalize_one :: "store_env \<Rightarrow> ustr set \<Rightarrow> scanned \<Rightarrow> ustr list \<times> rec_store \<Rightarrow> ustr list \<times> rec_store" where
  "finalize_one env active s = (\<lambda>(ids, st).
     let m = sc_manifest s; n = sm_id m
     in if finished m \<or> n \<in> active \<or> \<not> valid_rec_id n then (ids, st)
        else
          (let st1 = (case map_of st n of None \<Rightarrow> st | Some d \<Rightarrow> set_dir n (remove_parts env n d) st);
               events = (case map_of st1 n of None \<Rightarrow> [] | Some d \<Rightarrow> read_events env d);
               (ok, st2) = write_manifest env n (lost_manifest events m) st1
           in (if ok then ids @ [n] else ids, st2)))"

definition finalize_leftovers :: "store_env \<Rightarrow> ustr set \<Rightarrow> rec_store \<Rightarrow> ustr list \<times> rec_store" where
  "finalize_leftovers env active st = fold (finalize_one env active) (scan env st) ([], st)"

subsection \<open>Pruning\<close>

record prune_report =
  pr_deleted :: "ustr list"
  pr_kept_bytes :: nat
  pr_unkept_bytes :: nat
  pr_kept_over_budget :: bool

text \<open>\<open>remove_dir_all\<close> removes the directory, or leaves what it could not remove.\<close>

definition delete_recording :: "store_env \<Rightarrow> ustr \<Rightarrow> rec_store \<Rightarrow> bool \<times> rec_store" where
  "delete_recording env n st =
     (case (if valid_rec_id n then map_of st n else None) of
        None \<Rightarrow> (False, st)
      | Some d \<Rightarrow>
          (case se_remains env n d of
             None \<Rightarrow> (True, filter (\<lambda>(k, _). k \<noteq> n) st)
           | Some d' \<Rightarrow> (False, set_dir n d' st)))"

text \<open>The pass over the scan: kept ones and those too old, then the candidates that remain.\<close>

definition in_use :: "ustr set \<Rightarrow> scanned \<Rightarrow> bool" where
  "in_use active s \<longleftrightarrow> sm_id (sc_manifest s) \<in> active \<or> \<not> finished (sc_manifest s)"

fun prune_old ::
  "store_env \<Rightarrow> nat \<Rightarrow> ustr set \<Rightarrow> scanned list \<Rightarrow> prune_report \<Rightarrow> rec_store
    \<Rightarrow> (ustr \<times> nat) list \<times> prune_report \<times> rec_store" where
  "prune_old env now active [] r st = ([], r, st)"
| "prune_old env now active (s # ss) r st =
     (let n = sm_id (sc_manifest s)
      in if sc_kept s then prune_old env now active ss (r\<lparr>pr_kept_bytes := pr_kept_bytes r + sc_bytes s\<rparr>) st
         else
           (let due = \<not> in_use active s \<and> MAX_AGE_MS < now - sm_started_unix_ms (sc_manifest s);
                (ok, st1) = (if due then delete_recording env n st else (False, st))
            in if ok then prune_old env now active ss (r\<lparr>pr_deleted := pr_deleted r @ [n]\<rparr>) st1
               else
                 (let (cs, r2, st2) = prune_old env now active ss (r\<lparr>pr_unkept_bytes := pr_unkept_bytes r + sc_bytes s\<rparr>) st1
                  in (if in_use active s then cs else (n, sc_bytes s) # cs, r2, st2))))"

fun prune_over :: "store_env \<Rightarrow> nat \<Rightarrow> (ustr \<times> nat) list \<Rightarrow> prune_report \<Rightarrow> rec_store \<Rightarrow> prune_report \<times> rec_store" where
  "prune_over env budget [] r st = (r, st)"
| "prune_over env budget ((n, b) # cs) r st =
     (if pr_unkept_bytes r \<le> budget then (r, st)
      else
        (case delete_recording env n st of
           (True, st1) \<Rightarrow> prune_over env budget cs
             (r\<lparr>pr_unkept_bytes := pr_unkept_bytes r - b, pr_deleted := pr_deleted r @ [n]\<rparr>) st1
         | (False, st1) \<Rightarrow> prune_over env budget cs r st1))"

definition prune :: "store_env \<Rightarrow> nat \<Rightarrow> nat \<Rightarrow> ustr set \<Rightarrow> rec_store \<Rightarrow> prune_report \<times> rec_store" where
  "prune env now budget active st =
     (let (cs, r1, st1) = prune_old env now active (scan env st)
            \<lparr>pr_deleted = [], pr_kept_bytes = 0, pr_unkept_bytes = 0, pr_kept_over_budget = False\<rparr> st;
          (r2, st2) = prune_over env budget cs r1 st1
      in (r2\<lparr>pr_kept_over_budget := budget < pr_kept_bytes r2\<rparr>, st2))"

subsection \<open>What pruning may delete\<close>

text \<open>Each directory holds the manifest of its own recording, and no name occurs twice.\<close>

definition store_ok :: "store_env \<Rightarrow> rec_store \<Rightarrow> bool" where
  "store_ok env st \<longleftrightarrow> distinct (map fst st)
     \<and> (\<forall>(n, d) \<in> set st. \<forall>m. read_manifest env d = Some m \<longrightarrow> sm_id m = n)"

definition prunable :: "store_env \<Rightarrow> ustr set \<Rightarrow> ustr \<Rightarrow> rec_dir \<Rightarrow> bool" where
  "prunable env active n d \<longleftrightarrow> valid_rec_id n \<and> n \<notin> active \<and> \<not> rd_keep d
     \<and> (\<exists>m. read_manifest env d = Some m \<and> finished m)"

lemma map_of_set_dir: "map_of (set_dir n d st) k = (if k = n then map_option (\<lambda>_. d) (map_of st k) else map_of st k)"
  by (induction st) (auto simp: set_dir_def)

lemma map_of_without: "map_of (filter (\<lambda>(k, _). k \<noteq> n) st) k = (if k = n then None else map_of st k)"
  by (induction st) auto

lemma delete_other: "k \<noteq> n \<Longrightarrow> map_of (snd (delete_recording env n st)) k = map_of st k"
  by (simp add: delete_recording_def map_of_set_dir map_of_without split: option.split)

definition doomed :: "ustr set \<Rightarrow> scanned \<Rightarrow> bool" where
  "doomed active s \<longleftrightarrow> \<not> sc_kept s \<and> \<not> in_use active s"

lemma prune_old_other:
  "prune_old env now active ss r st = (cs, r', st') \<Longrightarrow>
   (\<forall>k. (\<forall>s \<in> set ss. doomed active s \<longrightarrow> sm_id (sc_manifest s) \<noteq> k) \<longrightarrow> map_of st' k = map_of st k)
   \<and> set (map fst cs) \<subseteq> (\<lambda>s. sm_id (sc_manifest s)) ` {s \<in> set ss. doomed active s}"
proof (induction ss arbitrary: r st cs r' st')
  case (Cons s ss)
  let ?n = "sm_id (sc_manifest s)"
  show ?case
  proof (cases "sc_kept s")
    case True
    then have "prune_old env now active ss (r\<lparr>pr_kept_bytes := pr_kept_bytes r + sc_bytes s\<rparr>) st = (cs, r', st')"
      using Cons.prems by (simp add: Let_def)
    from Cons.IH [OF this] show ?thesis by auto
  next
    case False
    obtain ok st1 where d: "(if \<not> in_use active s \<and> MAX_AGE_MS < now - sm_started_unix_ms (sc_manifest s)
      then delete_recording env ?n st else (False, st)) = (ok, st1)" by fastforce
    have st1: "map_of st1 k = map_of st k" if "doomed active s \<longrightarrow> ?n \<noteq> k" for k
      using d that False delete_other [of k ?n env st] by (auto simp: doomed_def split: if_splits)
    show ?thesis
    proof (cases ok)
      case True
      then have "prune_old env now active ss (r\<lparr>pr_deleted := pr_deleted r @ [?n]\<rparr>) st1 = (cs, r', st')"
        using Cons.prems False d by (simp add: Let_def)
      from Cons.IH [OF this] show ?thesis using st1 by auto
    next
      case nok: False
      obtain cs1 r2 st2 where p: "prune_old env now active ss (r\<lparr>pr_unkept_bytes := pr_unkept_bytes r + sc_bytes s\<rparr>) st1
          = (cs1, r2, st2)" by (cases "prune_old env now active ss (r\<lparr>pr_unkept_bytes := pr_unkept_bytes r + sc_bytes s\<rparr>) st1") auto
      then have "cs = (if in_use active s then cs1 else (?n, sc_bytes s) # cs1)" "st' = st2"
        using Cons.prems False nok d by (simp_all add: Let_def)
      then show ?thesis using Cons.IH [OF p] st1 False by (auto simp: doomed_def)
    qed
  qed
qed simp

lemma prune_over_other:
  "prune_over env budget cs r st = (r', st') \<Longrightarrow> k \<notin> set (map fst cs) \<Longrightarrow> map_of st' k = map_of st k"
proof (induction env budget cs r st rule: prune_over.induct)
  case (2 env budget n b cs r st)
  obtain ok st1 where d: "delete_recording env n st = (ok, st1)" by fastforce
  then have "map_of st1 k = map_of st k" using 2(4) delete_other [of k n env st] by auto
  then show ?case using 2 d by (cases ok) (auto split: if_splits)
qed simp

lemma scan_member:
  assumes "store_ok env st" and "s \<in> set (scan env st)"
  obtains n d where "map_of st n = Some d" "sm_id (sc_manifest s) = n" "valid_rec_id n" "read_manifest env d = Some (sc_manifest s)"
    "sc_kept s = rd_keep d" "sc_bytes s = dir_bytes d"
proof -
  from assms(2) obtain n d where e: "(n, d) \<in> set st" "scan_entry env (n, d) = Some s"
    by (auto simp: scan_def map_filter_def)
  then have "map_of st n = Some d" using assms(1) by (simp add: store_ok_def map_of_is_SomeI)
  moreover from e have "valid_rec_id n" "read_manifest env d = Some (sc_manifest s)" "sc_kept s = rd_keep d" "sc_bytes s = dir_bytes d"
    by (auto simp: scan_entry_def split: if_splits)
  moreover from this e(1) assms(1) have "sm_id (sc_manifest s) = n" by (auto simp: store_ok_def)
  ultimately show thesis using that by blast
qed

text \<open>
  C15. Pruning deletes nothing that it should keep: whatever the budget and the ages, and
  whatever fails, a recording that is marked as kept, is being written or has not ended is
  left as it is, and so is everything in the root that is not a readable recording.
\<close>

theorem prune_spares:
  assumes "store_ok env st" and "map_of st n = Some d" and "\<not> prunable env active n d"
  shows "map_of (snd (prune env now budget active st)) n = Some d"
proof -
  let ?r = "\<lparr>pr_deleted = [], pr_kept_bytes = 0, pr_unkept_bytes = 0, pr_kept_over_budget = False\<rparr>"
  obtain cs r1 st1 where p: "prune_old env now active (scan env st) ?r st = (cs, r1, st1)"
    by (cases "prune_old env now active (scan env st) ?r st") auto
  obtain r2 st2 where q: "prune_over env budget cs r1 st1 = (r2, st2)" by fastforce
  have no: "sm_id (sc_manifest s) \<noteq> n" if "s \<in> set (scan env st)" "doomed active s" for s
    using assms(1) that(1)
  proof (rule scan_member)
    fix k e
    assume "map_of st k = Some e" "sm_id (sc_manifest s) = k" "valid_rec_id k" "read_manifest env e = Some (sc_manifest s)"
      "sc_kept s = rd_keep e"
    then show ?thesis using assms(2,3) that(2) by (auto simp: prunable_def doomed_def in_use_def)
  qed
  have "map_of st1 n = map_of st n" "n \<notin> set (map fst cs)"
    using prune_old_other [OF p] no by blast+
  then have "map_of st2 n = Some d" using prune_over_other [OF q] assms(2) by simp
  then show ?thesis by (simp add: prune_def p q)
qed

subsection \<open>What pruning deletes\<close>

definition scan_id :: "scanned \<Rightarrow> ustr" where
  "scan_id s = sm_id (sc_manifest s)"

definition too_old :: "nat \<Rightarrow> ustr set \<Rightarrow> scanned \<Rightarrow> bool" where
  "too_old now active s \<longleftrightarrow> doomed active s \<and> MAX_AGE_MS < now - sm_started_unix_ms (sc_manifest s)"

definition without :: "ustr set \<Rightarrow> rec_store \<Rightarrow> rec_store" where
  "without ns st = filter (\<lambda>(k, _). k \<notin> ns) st"

lemma without_simps [simp]: "without {} st = st" "without ms (without ns st) = without (ns \<union> ms) st"
  by (auto simp: without_def intro!: filter_cong)

lemma map_of_without_set: "map_of (without ns st) k = (if k \<in> ns then None else map_of st k)"
  by (induction st) (auto simp: without_def)

lemma delete_present:
  assumes "\<forall>n d. se_remains env n d = None" and "map_of st n \<noteq> None" and "valid_rec_id n"
  shows "delete_recording env n st = (True, without {n} st)"
  using assms by (auto simp: delete_recording_def without_def intro!: filter_cong)

definition bytes_of :: "scanned list \<Rightarrow> nat" where
  "bytes_of ss = sum_list (map sc_bytes ss)"

lemma bytes_of_simps [simp]:
  "bytes_of [] = 0" "bytes_of (s # ss) = sc_bytes s + bytes_of ss" "bytes_of (ss @ ts) = bytes_of ss + bytes_of ts"
  by (simp_all add: bytes_of_def)

lemma prune_old_exact:
  assumes rm: "\<forall>n d. se_remains env n d = None"
  shows "\<forall>s \<in> set ss. valid_rec_id (scan_id s) \<and> map_of st (scan_id s) \<noteq> None \<Longrightarrow> distinct (map scan_id ss) \<Longrightarrow>
   prune_old env now active ss r st =
     (map (\<lambda>s. (scan_id s, sc_bytes s)) (filter (\<lambda>s. doomed active s \<and> \<not> too_old now active s) ss),
      r\<lparr>pr_deleted := pr_deleted r @ map scan_id (filter (too_old now active) ss),
        pr_kept_bytes := pr_kept_bytes r + bytes_of (filter sc_kept ss),
        pr_unkept_bytes := pr_unkept_bytes r + bytes_of (filter (\<lambda>s. \<not> sc_kept s \<and> \<not> too_old now active s) ss)\<rparr>,
      without (scan_id ` {s \<in> set ss. too_old now active s}) st)"
proof (induction ss arbitrary: r st)
  case (Cons s ss)
  have here: "valid_rec_id (scan_id s)" "map_of st (scan_id s) \<noteq> None" using Cons.prems(1) by auto
  have rest: "\<forall>t \<in> set ss. valid_rec_id (scan_id t) \<and> map_of st (scan_id t) \<noteq> None" "distinct (map scan_id ss)"
    using Cons.prems by auto
  show ?case
  proof (cases "too_old now active s")
    case True
    then have t: "\<not> sc_kept s" "\<not> in_use active s" "MAX_AGE_MS < now - sm_started_unix_ms (sc_manifest s)"
      by (simp_all add: too_old_def doomed_def)
    have "\<forall>t \<in> set ss. valid_rec_id (scan_id t) \<and> map_of (without {scan_id s} st) (scan_id t) \<noteq> None"
      using rest(1) Cons.prems(2) by (auto simp: map_of_without_set) (metis image_eqI)
    note IH = Cons.IH [OF this rest(2)]
    have "{x. (x = s \<or> x \<in> set ss) \<and> too_old now active x} = insert s {x \<in> set ss. too_old now active x}" using True by auto
    then show ?thesis
      using t True delete_present [OF rm here(2,1)] IH by (simp add: Let_def flip: scan_id_def)
  next
    case False
    have set: "{x. (x = s \<or> x \<in> set ss) \<and> too_old now active x} = {x \<in> set ss. too_old now active x}" using False by auto
    show ?thesis
    proof (cases "sc_kept s")
      case True
      then show ?thesis using Cons.IH [OF rest] False set by (simp add: doomed_def)
    next
      case nk: False
      then have "\<not> (\<not> in_use active s \<and> MAX_AGE_MS < now - sm_started_unix_ms (sc_manifest s))"
        using False by (simp add: too_old_def doomed_def)
      then show ?thesis using Cons.IH [OF rest] False set nk
        by (auto simp: Let_def doomed_def scan_id_def split: if_splits)
    qed
  qed
qed simp

lemma prune_over_exact:
  assumes rm: "\<forall>n d. se_remains env n d = None"
  shows "\<forall>s \<in> set ss. valid_rec_id (scan_id s) \<and> map_of st (scan_id s) \<noteq> None \<Longrightarrow> distinct (map scan_id ss) \<Longrightarrow>
   \<exists>k \<le> length ss. prune_over env budget (map (\<lambda>s. (scan_id s, sc_bytes s)) ss) r st =
     (r\<lparr>pr_unkept_bytes := pr_unkept_bytes r - bytes_of (take k ss), pr_deleted := pr_deleted r @ map scan_id (take k ss)\<rparr>,
      without (scan_id ` set (take k ss)) st)
     \<and> (pr_unkept_bytes r - bytes_of (take k ss) \<le> budget \<or> k = length ss)
     \<and> (\<forall>j < k. budget < pr_unkept_bytes r - bytes_of (take j ss))"
proof (induction ss arbitrary: r st)
  case (Cons s ss)
  show ?case
  proof (cases "pr_unkept_bytes r \<le> budget")
    case True
    then show ?thesis by (intro exI [of _ 0]) simp
  next
    case False
    let ?r = "r\<lparr>pr_unkept_bytes := pr_unkept_bytes r - sc_bytes s, pr_deleted := pr_deleted r @ [scan_id s]\<rparr>"
    have here: "valid_rec_id (scan_id s)" "map_of st (scan_id s) \<noteq> None" using Cons.prems(1) by auto
    have "\<forall>t \<in> set ss. valid_rec_id (scan_id t) \<and> map_of (without {scan_id s} st) (scan_id t) \<noteq> None" "distinct (map scan_id ss)"
      using Cons.prems by (auto simp: map_of_without_set) (metis image_eqI)
    from Cons.IH [OF this, of ?r] obtain k where k: "k \<le> length ss"
      "prune_over env budget (map (\<lambda>s. (scan_id s, sc_bytes s)) ss) ?r (without {scan_id s} st) =
        (?r\<lparr>pr_unkept_bytes := pr_unkept_bytes ?r - bytes_of (take k ss), pr_deleted := pr_deleted ?r @ map scan_id (take k ss)\<rparr>,
         without (scan_id ` set (take k ss)) (without {scan_id s} st))"
      "pr_unkept_bytes ?r - bytes_of (take k ss) \<le> budget \<or> k = length ss"
      "\<forall>j < k. budget < pr_unkept_bytes ?r - bytes_of (take j ss)" by blast
    have "budget < pr_unkept_bytes r - bytes_of (take j (s # ss))" if "j < Suc k" for j
      using that k(4) False by (cases j) auto
    then show ?thesis using False k(1,2,3) delete_present [OF rm here(2,1)]
      by (intro exI [of _ "Suc k"]) (auto simp: insert_def [symmetric])
  qed
qed simp

lemma scan_ids_distinct:
  assumes "store_ok env st"
  shows "distinct (map scan_id (scan env st))"
proof -
  have ids: "scan_id s = fst e" if "e \<in> set st" "scan_entry env e = Some s" for e s
    using that assms by (cases e) (auto simp: scan_entry_def store_ok_def scan_id_def split: if_splits)
  then have "map scan_id (List.map_filter (scan_entry env) st) = map fst (filter (\<lambda>e. scan_entry env e \<noteq> None) st)"
    by (induction st) (auto simp: map_filter_def)
  moreover have "distinct (map fst (filter (\<lambda>e. scan_entry env e \<noteq> None) st))"
    using assms by (simp add: store_ok_def distinct_map_filter)
  ultimately have "distinct (map scan_id (List.map_filter (scan_entry env) st))" by simp
  then show ?thesis by (simp add: scan_def distinct_map)
qed

lemma scan_present:
  assumes "store_ok env st" and "s \<in> set (scan env st)"
  shows "valid_rec_id (scan_id s) \<and> map_of st (scan_id s) \<noteq> None"
  using scan_member [OF assms] by (metis option.distinct(1) scan_id_def)

text \<open>
  C16. What pruning deletes when the file system lets it: every recording that is too old, then
  the oldest of the others, one by one and only while the unkept ones together are over the
  budget; it stops under the budget or when only kept and used ones are left. The report is
  what was done, and the directories that remain are unchanged.
\<close>

theorem prune_deletes_oldest:
  assumes ok: "store_ok env st" and rm: "\<forall>n d. se_remains env n d = None"
    and ss: "ss = scan env st" "old = filter (too_old now active) ss"
      "young = filter (\<lambda>s. doomed active s \<and> \<not> too_old now active s) ss"
      "unkept = bytes_of (filter (\<lambda>s. \<not> sc_kept s \<and> \<not> too_old now active s) ss)"
  shows "\<exists>k \<le> length young.
    prune env now budget active st =
      (\<lparr>pr_deleted = map scan_id (old @ take k young), pr_kept_bytes = bytes_of (filter sc_kept ss),
        pr_unkept_bytes = unkept - bytes_of (take k young),
        pr_kept_over_budget = budget < bytes_of (filter sc_kept ss)\<rparr>,
       without (scan_id ` set (old @ take k young)) st)
    \<and> (unkept - bytes_of (take k young) \<le> budget \<or> k = length young)
    \<and> (\<forall>j < k. budget < unkept - bytes_of (take j young))
    \<and> sorted (map scan_key young)"
proof -
  let ?r = "\<lparr>pr_deleted = [], pr_kept_bytes = 0, pr_unkept_bytes = 0, pr_kept_over_budget = False\<rparr>"
  let ?r1 = "\<lparr>pr_deleted = map scan_id old, pr_kept_bytes = bytes_of (filter sc_kept ss),
    pr_unkept_bytes = unkept, pr_kept_over_budget = False\<rparr>"
  let ?st1 = "without (scan_id ` set old) st"
  have d: "distinct (map scan_id ss)" using scan_ids_distinct [OF ok] by (simp add: ss)
  have present: "\<forall>s \<in> set ss. valid_rec_id (scan_id s) \<and> map_of st (scan_id s) \<noteq> None"
    using scan_present [OF ok] by (simp add: ss)
  have old: "prune_old env now active ss ?r st = (map (\<lambda>s. (scan_id s, sc_bytes s)) young, ?r1, ?st1)"
    using prune_old_exact [OF rm present d, of now active ?r] by (simp add: ss(2-4))
  have "\<forall>s \<in> set young. valid_rec_id (scan_id s) \<and> map_of ?st1 (scan_id s) \<noteq> None"
  proof
    fix s
    assume s: "s \<in> set young"
    then have "scan_id s \<notin> scan_id ` set old" using d by (auto simp: ss(2,3) distinct_map dest: inj_onD)
    then show "valid_rec_id (scan_id s) \<and> map_of ?st1 (scan_id s) \<noteq> None"
      using s present by (auto simp: map_of_without_set ss(3))
  qed
  moreover have "distinct (map scan_id young)" using d by (simp add: ss(3) distinct_map_filter)
  ultimately obtain k where k: "k \<le> length young"
    "prune_over env budget (map (\<lambda>s. (scan_id s, sc_bytes s)) young) ?r1 ?st1 =
      (?r1\<lparr>pr_unkept_bytes := pr_unkept_bytes ?r1 - bytes_of (take k young),
        pr_deleted := pr_deleted ?r1 @ map scan_id (take k young)\<rparr>, without (scan_id ` set (take k young)) ?st1)"
    "pr_unkept_bytes ?r1 - bytes_of (take k young) \<le> budget \<or> k = length young"
    "\<forall>j < k. budget < pr_unkept_bytes ?r1 - bytes_of (take j young)"
    using prune_over_exact [OF rm, of young ?st1 budget ?r1] by blast
  have "sorted (map scan_key ss)" by (simp add: ss(1) scan_def)
  then have "sorted (map scan_key young)" unfolding ss(3) by (rule sorted_filter)
  then show ?thesis using k old by (intro exI [of _ k]) (simp add: prune_def ss(1) image_Un)
qed

subsection \<open>A daemon that was lost\<close>

lemma complete_Cons: "complete_lines (l # ls) = l @ newline # complete_lines ls"
  by (simp add: complete_lines_def)

lemma read_cut:
  "list_all (\<lambda>l. newline \<notin> set l) ls \<Longrightarrow> \<exists>j \<le> length ls. read_lines [] (take k (complete_lines ls)) = take j ls"
proof (induction ls arbitrary: k)
  case (Cons l ls)
  show ?case
  proof (cases "k \<le> length l")
    case True
    have "newline \<notin> set (take k l)" using Cons.prems by (auto dest: in_set_takeD)
    then have "read_lines [] (take k (complete_lines (l # ls))) = take 0 (l # ls)"
      using True by (simp add: complete_Cons read_no_newline)
    then show ?thesis by blast
  next
    case False
    then have "take k (complete_lines (l # ls)) = l @ newline # take (k - Suc (length l)) (complete_lines ls)"
      by (cases "k - length l") (auto simp: complete_Cons intro!: arg_cong2 [of _ _ _ _ take])
    moreover from Cons obtain j where "j \<le> length ls"
      "read_lines [] (take (k - Suc (length l)) (complete_lines ls)) = take j ls" by fastforce
    ultimately have "read_lines [] (take k (complete_lines (l # ls))) = take (Suc j) (l # ls)"
      using Cons.prems by (simp add: read_one_line)
    then show ?thesis using \<open>j \<le> length ls\<close> by (metis Suc_le_mono length_Cons)
  qed
qed (simp add: complete_lines_def)

lemma unstopped_file:
  "log_events ser (\<lambda>_. None) es l = (ws, l') \<Longrightarrow>
    el_file l' = el_file l @ complete_lines (map (the \<circ> ser) ws) \<and> list_all (\<lambda>e. ser e \<noteq> None) ws"
proof (induction es arbitrary: l ws)
  case (Cons e es)
  show ?case
  proof (cases "ser (stamped e l)")
    case None
    then show ?thesis using Cons.prems by (simp add: log_event_def complete_lines_def)
  next
    case (Some js)
    let ?l = "l\<lparr>el_file := el_file l @ js @ [newline], el_next_seq := el_next_seq l + 1,
      el_last_offset := ev_offset_ms (stamped e l), el_bytes := el_bytes l + length (js @ [newline])\<rparr>"
    obtain ws1 where "log_events ser (\<lambda>_. None) es ?l = (ws1, l')" "ws = stamped e l # ws1"
      using Cons.prems Some by (auto simp: log_event_def Let_def split: prod.splits)
    then show ?thesis using Cons.IH [of ?l ws1] Some by (simp add: complete_Cons)
  qed
qed (simp add: complete_lines_def)

text \<open>The JSON of these events reads back, and that of a manifest.\<close>

definition events_read_back :: "store_env \<Rightarrow> (session_event \<Rightarrow> bytes option) \<Rightarrow> session_event list \<Rightarrow> bool" where
  "events_read_back env ser ws \<longleftrightarrow>
     (\<forall>e \<in> set ws. \<forall>js. ser e = Some js \<longrightarrow> (\<exists>v. se_event env (js @ [newline]) = Some v
        \<and> get_field v (lit ''at'') = Some (JString (ev_at e))
        \<and> get_field v (lit ''offset_ms'') = Some (JPosInt (ev_offset_ms e))))"

definition manifest_reads_back :: "store_env \<Rightarrow> stored_manifest \<Rightarrow> bool" where
  "manifest_reads_back env m \<longleftrightarrow> (\<exists>b. se_render env m = Some b \<and> se_parse env b = Some m)"

text \<open>The manifest of a recording that ended after its first \<open>j\<close> events.\<close>

definition ended_after :: "session_event list \<Rightarrow> nat \<Rightarrow> stored_manifest \<Rightarrow> stored_manifest" where
  "ended_after ws j m = m\<lparr>
     mn_ended_at := Some (if j = 0 then sm_started_at m else ev_at (ws ! (j - 1))),
     mn_duration_ms := Some (if j = 0 then 0 else ev_offset_ms (ws ! (j - 1))),
     mn_end_reason := Some (lit ''daemon_lost'')\<rparr>"

lemma finalize_other:
  assumes "scan_id s \<noteq> n"
  shows "map_of (snd (finalize_one env active s (ids, st))) n = map_of st n \<and> set ids \<subseteq> set (fst (finalize_one env active s (ids, st)))"
  using assms by (auto simp: finalize_one_def Let_def write_manifest_def map_of_set_dir scan_id_def
      split: option.split prod.split if_splits)

lemma finalize_others:
  "n \<notin> scan_id ` set ss \<Longrightarrow> map_of (snd (fold (finalize_one env active) ss (ids, st))) n = map_of st n
     \<and> set ids \<subseteq> set (fst (fold (finalize_one env active) ss (ids, st)))"
proof (induction ss arbitrary: ids st)
  case (Cons s ss)
  obtain ids1 st1 where f: "finalize_one env active s (ids, st) = (ids1, st1)" by fastforce
  then show ?case using Cons.IH [of ids1 st1] Cons.prems finalize_other [of s n env active ids st] by auto
qed simp

lemma events_of_lines:
  assumes "events_read_back env ser ws" and "list_all (\<lambda>e. ser e \<noteq> None) ws"
  shows "\<exists>vs. List.map_filter (\<lambda>l. se_event env (l @ [newline])) (map (the \<circ> ser) ws) = vs \<and> length vs = length ws
    \<and> end_time vs = (if ws = [] then None else Some (ev_at (last ws)))
    \<and> end_offset vs = (if ws = [] then None else Some (ev_offset_ms (last ws)))"
  using assms
proof (induction ws rule: rev_induct)
  case (snoc e ws)
  then obtain js where "ser e = Some js" by auto
  then obtain v where v: "se_event env (js @ [newline]) = Some v" "get_field v (lit ''at'') = Some (JString (ev_at e))"
    "get_field v (lit ''offset_ms'') = Some (JPosInt (ev_offset_ms e))"
    using snoc.prems(1) unfolding events_read_back_def by fastforce
  have "events_read_back env ser ws" using snoc.prems(1) by (simp add: events_read_back_def)
  then have "length (List.map_filter (\<lambda>l. se_event env (l @ [newline])) (map (the \<circ> ser) ws)) = length ws"
    using snoc by (auto simp: comp_def)
  then show ?case using v \<open>ser e = Some js\<close>
    by (simp add: map_filter_def end_time_def end_offset_def json_u64_def comp_def)
qed (simp add: map_filter_def end_time_def end_offset_def)

text \<open>
  C17. A recording that a daemon left behind is ended where its events end. However the event
  file was cut, its complete lines are a prefix of the events that were written; the manifest
  gets the time and the offset of the newest of them (or the start, if there is none) and the
  reason \<^verbatim>\<open>daemon_lost\<close>, the id is reported, and no unfinished segment stays that can be removed.
\<close>

theorem leftover_ends_at_last_event:
  assumes ok: "store_ok env st" and d: "map_of st n = Some d" "valid_rec_id n" "n \<notin> active"
    and m: "read_manifest env d = Some m" "\<not> finished m"
    and log: "log_events ser (\<lambda>_. None) es (create_log start) = (ws, l)" "rd_events d = Some (take k (el_file l))"
    and ser: "one_line ser" "events_read_back env ser ws"
    and wr: "\<forall>j \<le> length ws. manifest_reads_back env (ended_after ws j m)" "\<forall>n d. se_write_fails env n d = None"
  shows "\<exists>j \<le> length ws. \<exists>d'. read_lines [] (take k (el_file l)) = map (the \<circ> ser) (take j ws)
    \<and> map_of (snd (finalize_leftovers env active st)) n = Some d' \<and> n \<in> set (fst (finalize_leftovers env active st))
    \<and> read_manifest env d' = Some (ended_after ws j m)
    \<and> rd_events d' = rd_events d \<and> (\<forall>(s, _) \<in> set (rd_segments d'). is_part s \<longrightarrow> se_part_stays env n s)"
proof -
  have content: "el_file l = complete_lines (map (the \<circ> ser) ws)" and some: "list_all (\<lambda>e. ser e \<noteq> None) ws"
    using unstopped_file [OF log(1)] by (simp_all add: create_log_def)
  have one: "list_all (\<lambda>l. newline \<notin> set l) (map (the \<circ> ser) ws)"
    using some ser(1) by (auto simp: list_all_iff one_line_def)
  from read_cut [OF one] obtain j where j: "j \<le> length ws"
    "read_lines [] (take k (el_file l)) = map (the \<circ> ser) (take j ws)" by (auto simp: content take_map)
  have evs: "events_read_back env ser (take j ws)" using ser(2) by (auto simp: events_read_back_def dest: in_set_takeD)
  obtain vs where vs: "read_events env (remove_parts env n d) = vs"
    "end_time vs = (if take j ws = [] then None else Some (ev_at (last (take j ws))))"
    "end_offset vs = (if take j ws = [] then None else Some (ev_offset_ms (last (take j ws))))"
    using events_of_lines [OF evs] some j(2) log(2)
    by (auto simp: read_events_def remove_parts_def list_all_iff dest: in_set_takeD)
  have lastj: "last (take j ws) = ws ! (j - 1)" if "j \<noteq> 0" "ws \<noteq> []"
    using that j(1) by (simp add: last_conv_nth min_def)
  define s where "s = \<lparr>sc_manifest = m, sc_bytes = dir_bytes d, sc_kept = rd_keep d\<rparr>"
  have id: "sm_id m = n" using ok d(1) m(1) by (auto simp: store_ok_def dest!: map_of_SomeD)
  have "(n, d) \<in> set st" "scan_entry env (n, d) = Some s"
    using d(1,2) m(1) by (simp_all add: scan_entry_def s_def map_of_SomeD)
  then have "s \<in> set (scan env st)" by (force simp: scan_def map_filter_def)
  then obtain xs ys where sc: "scan env st = xs @ s # ys" by (auto dest: split_list)
  have sid: "scan_id s = n" by (simp add: s_def scan_id_def id)
  then have nx: "n \<notin> scan_id ` set xs" "n \<notin> scan_id ` set ys" using scan_ids_distinct [OF ok] by (auto simp: sc)
  obtain ids1 st1 where f1: "fold (finalize_one env active) xs ([], st) = (ids1, st1)" by fastforce
  have st1: "map_of st1 n = Some d" using finalize_others [OF nx(1), of env active "[]" st] f1 d(1) by simp
  let ?m = "lost_manifest vs m"
  have ended: "?m = ended_after ws j m"
    using vs(2,3) lastj j(1) by (auto simp: lost_manifest_def ended_after_def)
  obtain b where b: "se_render env ?m = Some b" "se_parse env b = Some ?m"
    using wr(1) j(1) unfolding manifest_reads_back_def ended by blast
  let ?d = "(remove_parts env n d)\<lparr>rd_manifest := Some b\<rparr>"
  obtain st2 where f2: "finalize_one env active s (ids1, st1) = (ids1 @ [n], st2)" "map_of st2 n = Some ?d"
    using st1 d(2,3) m(2) vs(1) b(1) wr(2)
    by (auto simp: finalize_one_def s_def id Let_def write_manifest_def map_of_set_dir)
  have final: "map_of (snd (finalize_leftovers env active st)) n = Some ?d" "n \<in> set (fst (finalize_leftovers env active st))"
    using finalize_others [OF nx(2), of env active "ids1 @ [n]" st2] f2 by (auto simp: finalize_leftovers_def sc f1)
  show ?thesis using j final b(2)
    by (intro exI [of _ j] conjI exI [of _ ?d]) (auto simp: read_manifest_def remove_parts_def ended)
qed

subsection \<open>Samples\<close>

text \<open>
  Three finished recordings of one hundred bytes, the middle one kept, and one that a lost
  daemon left. The sample parser reads the number of the start from the first byte.
\<close>

definition rec_name :: "nat \<Rightarrow> ustr" where
  "rec_name k = replicate 8 48 @ [84] @ replicate 6 48 @ [90, 45] @ replicate 7 48 @ [48 + k]"

definition stored :: "nat \<Rightarrow> stored_manifest" where
  "stored k = \<lparr>mn_ended_at = (if k = 4 then None else Some []), mn_end_reason = None, mn_duration_ms = None, mn_segments = [],
     mn_stats = None, sm_id = rec_name k, sm_started_at = [], sm_started_unix_ms = k\<rparr>"

definition sample_store_env :: store_env where
  "sample_store_env = \<lparr>se_parse = (\<lambda>b. case b of x # _ \<Rightarrow> Some (stored (unat x)) | [] \<Rightarrow> None),
     se_render = (\<lambda>_. None), se_event = (\<lambda>_. None), se_write_fails = (\<lambda>_ _. None), se_unmark_fails = (\<lambda>_. False),
     se_part_stays = (\<lambda>_ _. False), se_remains = (\<lambda>_ _. None),
     se_create_fault = (\<lambda>_. None)\<rparr>"

definition sample_dir :: "nat \<Rightarrow> rec_dir" where
  "sample_dir k = \<lparr>rd_manifest = Some [of_nat k], rd_events = None, rd_keep = (k = 2), rd_segments = [(segment_file 1, 99)], rd_rest = 0\<rparr>"

definition sample_root :: rec_store where
  "sample_root = [(rec_name 3, sample_dir 3), (rec_name 1, sample_dir 1), (rec_name 2, sample_dir 2)]"

lemma rec_name_inj [simp]: "rec_name j = rec_name k \<longleftrightarrow> j = k"
  by (simp add: rec_name_def)

lemma stored_read [simp]: "k < 5 \<Longrightarrow> read_manifest sample_store_env (sample_dir k) = Some (stored k)"
  by (simp add: read_manifest_def sample_store_env_def sample_dir_def unat_of_nat)

lemma sample_store_ok: "store_ok sample_store_env sample_root"
  by (simp add: store_ok_def sample_root_def stored_def)

lemma sample_valid [simp]: "k < 10 \<Longrightarrow> valid_rec_id (rec_name k)"
  by (simp add: valid_rec_id_def rec_name_def ID_LEN_def ch_def is_digit_def lower_hex_def numeral_eq_Suc)

lemma prune_spares_witness:
  "map_of (snd (prune sample_store_env 10 0 {} sample_root)) (rec_name 2) = Some (sample_dir 2)"
proof (rule prune_spares [OF sample_store_ok])
  show "map_of sample_root (rec_name 2) = Some (sample_dir 2)" by (simp add: sample_root_def)
  show "\<not> prunable sample_store_env {} (rec_name 2) (sample_dir 2)" by (simp add: prunable_def sample_dir_def)
qed

lemma sample_scan:
  "scan sample_store_env sample_root
     = map (\<lambda>k. \<lparr>sc_manifest = stored k, sc_bytes = 100, sc_kept = (k = 2)\<rparr>) [1, 2, 3]"
  by (simp add: scan_def sample_root_def map_filter_def scan_entry_def scan_key_def stored_def dir_bytes_def less_eq_prod_def)
    (simp add: sample_dir_def)

lemma prune_deletes_oldest_witness:
  "pr_deleted (fst (prune sample_store_env 10 150 {} sample_root)) = [rec_name 1]"
proof -
  let ?s = "\<lambda>k. \<lparr>sc_manifest = stored k, sc_bytes = 100, sc_kept = (k = 2)\<rparr>"
  have old: "filter (too_old 10 {}) (scan sample_store_env sample_root) = []"
    and young: "filter (\<lambda>s. doomed {} s \<and> \<not> too_old 10 {} s) (scan sample_store_env sample_root) = [?s 1, ?s 3]"
    and unkept: "bytes_of (filter (\<lambda>s. \<not> sc_kept s \<and> \<not> too_old 10 {} s) (scan sample_store_env sample_root)) = 200"
    by (simp_all add: sample_scan too_old_def doomed_def in_use_def finished_def stored_def MAX_AGE_MS_def)
  have rm: "\<forall>n d. se_remains sample_store_env n d = None" by (simp add: sample_store_env_def)
  show ?thesis
    using prune_deletes_oldest [OF sample_store_ok rm refl old [symmetric] young [symmetric] unkept [symmetric], of 150]
  proof (elim exE conjE, goal_cases)
    case (1 k)
    have "k = 0 \<or> k = 1 \<or> k = 2" using 1(1) by auto
    moreover have "k \<noteq> 0" using 1(3) by (cases k) auto
    moreover have "k \<noteq> 2" using 1(4) by (auto dest: spec [of _ 1])
    ultimately have "k = 1" by blast
    then show ?thesis by (simp add: 1(2) scan_id_def stored_def)
  qed
qed

text \<open>A lost recording: one event was written, the next one only in part.\<close>

definition lost_event :: "nat \<Rightarrow> session_event" where
  "lost_event k = \<lparr>ev_seq = k, ev_at = [k], ev_offset_ms = 7 * k, ev_frame_seq = 0, ev_source = Daemon, ev_kind = SessionEnded\<rparr>"

definition lost_ser :: "session_event \<Rightarrow> bytes option" where
  "lost_ser e = Some [if ev_seq e = 1 then 49 else 50]"

definition lost_env :: store_env where
  "lost_env = sample_store_env\<lparr>
     se_event := (\<lambda>b. case b of x # _ \<Rightarrow> Some (JObject [(lit ''at'', JString [unat x - 48]), (lit ''offset_ms'', JPosInt (7 * (unat x - 48)))]) | [] \<Rightarrow> None),
     se_parse := (\<lambda>b. case b of [x] \<Rightarrow> Some (stored (unat x)) | [_, x] \<Rightarrow> Some (ended_after [lost_event 1, lost_event 2] (unat x) (stored 4)) | _ \<Rightarrow> None),
     se_render := (\<lambda>m. Some [0, of_nat (case mn_duration_ms m of Some n \<Rightarrow> n div 7 | None \<Rightarrow> 0)])\<rparr>"

lemma lost_log:
  "log_events lost_ser (\<lambda>_. None) [lost_event 1, lost_event 2] (create_log 0)
     = ([lost_event 1, lost_event 2], \<lparr>el_file = [49, 10, 50, 10], el_next_seq = 3, el_start_offset = 0, el_last_offset = 14, el_bytes = 4\<rparr>)"
  by (simp add: log_event_def create_log_def lost_ser_def stamped_def timeline_def lost_event_def newline_def Let_def)

definition lost_root :: rec_store where
  "lost_root = [(rec_name 4, \<lparr>rd_manifest = Some [4], rd_events = Some (take 3 [49, 10, 50, 10]), rd_keep = False,
     rd_segments = [(segment_file 1, 9), (segment_file 2 @ lit ''.part'', 3)], rd_rest = 0\<rparr>)]"

lemma lost_reads:
  "one_line lost_ser" "events_read_back lost_env lost_ser [lost_event 1, lost_event 2]"
  "j \<le> 2 \<Longrightarrow> manifest_reads_back lost_env (ended_after [lost_event 1, lost_event 2] j (stored 4))"
proof -
  show "one_line lost_ser" by (simp add: one_line_def lost_ser_def newline_def)
  show "events_read_back lost_env lost_ser [lost_event 1, lost_event 2]"
    by (simp add: events_read_back_def lost_ser_def lost_env_def lost_event_def get_field_def lit_def)
  assume "j \<le> 2"
  then have "j = 0 \<or> j = 1 \<or> j = 2" by auto
  then show "manifest_reads_back lost_env (ended_after [lost_event 1, lost_event 2] j (stored 4))"
    by (auto simp: manifest_reads_back_def lost_env_def ended_after_def lost_event_def)
qed

lemma leftover_ends_at_last_event_witness:
  "\<exists>d'. map_of (snd (finalize_leftovers lost_env {} lost_root)) (rec_name 4) = Some d'
     \<and> read_manifest lost_env d' = Some (ended_after [lost_event 1, lost_event 2] 1 (stored 4))"
proof -
  let ?d = "\<lparr>rd_manifest = Some [4], rd_events = Some (take 3 [49, 10, 50, 10]), rd_keep = False,
     rd_segments = [(segment_file 1, 9), (segment_file 2 @ lit ''.part'', 3)], rd_rest = 0\<rparr>"
  have m: "read_manifest lost_env ?d = Some (stored 4)" by (simp add: read_manifest_def lost_env_def)
  have ok: "store_ok lost_env lost_root" using m by (simp add: store_ok_def lost_root_def stored_def)
  have d: "map_of lost_root (rec_name 4) = Some ?d" by (simp add: lost_root_def)
  have nf: "\<not> finished (stored 4)" by (simp add: finished_def stored_def)
  have k: "rd_events ?d = Some (take 3 (el_file \<lparr>el_file = [49, 10, 50, 10], el_next_seq = 3, el_start_offset = 0,
    el_last_offset = 14, el_bytes = 4\<rparr>))" by simp
  have wr: "\<forall>n d. se_write_fails lost_env n d = None" by (simp add: lost_env_def sample_store_env_def)
  have ms: "\<forall>j \<le> length [lost_event 1, lost_event 2]. manifest_reads_back lost_env (ended_after [lost_event 1, lost_event 2] j (stored 4))"
    using lost_reads(3) by auto
  have one: "length (read_lines [] (take 3 [49, 10, 50, 10 :: u8])) = 1" by (simp add: newline_def)
  show ?thesis
    using leftover_ends_at_last_event [OF ok d sample_valid _ m nf lost_log k lost_reads(1,2) ms wr, of "{}"]
  proof (elim meta_impE exE conjE, goal_cases)
    case (3 j d')
    have "length (take j [lost_event 1, lost_event 2]) = 1"
      using arg_cong [OF 3(2), of length] one by simp
    then have "j = 1" using 3(1) by simp
    then show ?case using 3 by blast
  qed simp_all
qed

end
