(* ===== verification/Spec2Isabelle.thy ===== *)
theory Spec2Isabelle
  imports Bridge_Protocol Control_Safety Cua_Gate Cua_Calls Host_Expand Idle_Reaper Drive_Promises Webm_Roundtrip I420_Frames
    Transfer_Progress Session_Files Bridge_Promises Recorder_Accounts Recording_Store
begin

text \<open>
  A verification development of rdpilot, which gives a coding agent a Windows desktop over
  RDP and lets a human watch it and take control.

  The program. One daemon (\<^verbatim>\<open>crates/rdpilot-daemon\<close>) keeps the RDP sessions. An agent
  drives a session with native actions or, through an attachment, with the tools of Cua; a
  human may take the control lease of the session in the viewer, and then the agent has to
  wait. Every session has a loop (\<^verbatim>\<open>crates/rdpilot/src/session_loop.rs\<close>) that alone writes
  input to the connection; it is told of each change of control by a new input epoch and
  refuses older ones. What happens is recorded in the session's event log. A bridge in the
  guest speaks the protocol of \<^verbatim>\<open>crates/rdpilot-bridge-protocol\<close>. Which host to connect to is
  resolved from an ssh_config-like hosts file (\<^verbatim>\<open>crates/rdpilot-config/src/hosts\<close>).

  Shared theories.
  \<^item> \<open>Rd_Prelude\<close>: integer types, the newest entries of a list, and two interfaces, a
    bounded queue and a store where the first value wins.
  \<^item> \<open>Rd_Text\<close>: Rust's \<open>str\<close> as lists of code points, with the character classes, trimming
    and numbers that the source uses.
  \<^item> \<open>Json_Value\<close>: JSON values as \<open>serde_json\<close> has them (objects are sorted by key).

  Control (\<^verbatim>\<open>daemon/src/control.rs\<close>, \<^verbatim>\<open>rdpilot/src/session_loop.rs\<close>).
  \<^item> \<open>Raw_Input\<close>: \<open>coalesce\<close> and \<open>track\<close> over viewer input. Coalescing keeps what the
    guest can see; what is tracked as held is what the last events say.
  \<^item> \<open>Session_Events\<close> (\<^verbatim>\<open>daemon/src/events.rs\<close>): the ring of 200 events, its pages and its
    recorder sink. The ring is gapless, pages are complete or say what is missing.
  \<^item> \<open>Session_Loop\<close>: one iteration of \<open>run_loop\<close> as a function of the \<open>select!\<close> arm that
    fired, with \<open>LoopInput\<close> and \<open>LifecycleOwner\<close>. The epoch fence, the releases behind a
    confirmed epoch and the first cause of an end are shown over any list of iterations.
  \<^item> \<open>Control_Lease\<close>: \<open>SessionControl\<close>, one definition per critical section on the record
    \<open>control\<close> (\<open>State\<close> in the source). A \<open>take_within\<close> is cut at its awaits.
  \<^item> \<open>Control_Facts\<close>: what each section guarantees on its own.
  \<^item> \<open>Control_Steps\<close>: tasks and loop interleaved, an inductive relation \<open>sys_step\<close> whose
    steps are the sections, the loop's iterations and the passing of time; six invariants of
    the reachable systems, by rule induction.
  \<^item> \<open>Control_Safety\<close>: what they give. A granted lease is exclusive, a former holder's input
    is refused, and the agent is admitted only when all releases were sent.

  Sessions of the daemon (\<^verbatim>\<open>daemon/src/registry.rs\<close>, \<^verbatim>\<open>reconcile.rs\<close>, \<^verbatim>\<open>lifecycle.rs\<close>).
  \<^item> \<open>Record_Book\<close>: the file that says which sessions a killed daemon left behind, its
    rewrite by rename, and \<open>RecordBook\<close>, which is shown to implement a map with owners.
  \<^item> \<open>Daemon_Error\<close>: the errors from SDK to exit code (\<^verbatim>\<open>error.rs\<close>, \<^verbatim>\<open>error_map.rs\<close>).
  \<^item> \<open>Session_Registry\<close>: the map of entries and every critical section on it. The objects
    a session shares (\<open>Arc\<close>s in the source) are the cell of its generation.
    \<open>Registry_Facts\<close>: the invariant of the map; the four removals share one contract, the
    locale \<open>removal_section\<close>.
  \<^item> \<open>Registry_Steps\<close>: opens, connect tasks, closes and end hooks as program counters per
    generation, interleaved at every lock and await by \<open>daemon_step\<close>. \<open>Registry_Safety\<close>
    has the invariant of each generation and its preservation, \<open>Registry_Promises\<close> what
    follows for sessions and names, and for the records in the file while the disk works.
  \<^item> \<open>Idle_Reaper\<close>: the reaper, the watcher that ends an unused daemon, and the exit.

  Cua (\<^verbatim>\<open>daemon/src/ipc/cua_gate.rs\<close>, \<^verbatim>\<open>daemon/src/events.rs\<close>).
  \<^item> \<open>Cua_Gate\<close>: \<open>CuaGate::inbound\<close> and \<open>outbound\<close> with batches. The calls in flight are a
    ledger between the gate and the lease (the interface \<open>in_flight_ledger\<close>).
  \<^item> \<open>Cua_Calls\<close>: \<open>CuaCallTracker\<close>; starts and ends in the log are paired.

  Sessions of the SDK (\<^verbatim>\<open>rdpilot/src/input.rs\<close>, \<^verbatim>\<open>session.rs\<close>).
  \<^item> \<open>Agent_Input\<close>: keys with names and scancodes, mouse and key actions, and the
    operations that they become. Every action releases what it presses.
  \<^item> \<open>Rdp_Session\<close>: input with its bounds checks, the launch of the bridge through the Run
    dialog, ping, and the shared close. The loop and the guest are the environment: a record
    of functions of the history.
  \<^item> \<open>Session_Files\<close>: uploads and downloads through the redirected drive, over a map of
    local files with every failure of the operating system; what a transfer may change, and
    that a reported transfer has moved the content.

  Transfers (\<^verbatim>\<open>daemon/src/transfer.rs\<close>). \<open>Transfer_Queue\<close>: callers, worker and jobs of
  one queue, interleaved at each await by \<open>transfer_step\<close>. \<open>Transfer_Promises\<close>: jobs run
  in order and one at a time, and an answer is the result of the caller's own job.
  \<open>Transfer_Progress\<close>: in a fair run every caller that is present is answered or leaves,
  by a rank that the steps of worker, caller and job bring down.

  Redirected drive (\<^verbatim>\<open>rdpilot/src/rdpdr_backend.rs\<close>, \<^verbatim>\<open>bootstrap.rs\<close>).
  \<^item> \<open>Unix_Path\<close>: paths as \<^verbatim>\<open>std::path\<close> has them, lists of components.
  \<^item> \<open>Drive_Backend\<close>: \<open>RdpilotDriveBackend\<close>, one definition per handler and their
    dispatch, over an operating system that is a record of its calls.
  \<^item> \<open>Drive_Safety\<close>: what any sequence of requests can read and change. \<open>Drive_Promises\<close>:
    handles, uploads (a file is renamed into place when its content has the announced
    length or none was announced), enumerations (every name once, in order, then the end),
    with samples and what the guest may still do.

  Recording (\<^verbatim>\<open>daemon/src/recording\<close>).
  \<^item> \<open>Webm_Writer\<close> (\<^verbatim>\<open>webm.rs\<close>): EBML elements and \<open>SegmentWriter\<close>. \<open>Webm_Demux\<close> is a reader
    of the format, written from the format and not from the writer; \<open>Webm_Roundtrip\<close> shows
    that it finds the frames of every finished segment.
  \<^item> \<open>I420_Frames\<close> (\<^verbatim>\<open>i420.rs\<close>): the colour conversion and its ranges.
  \<^item> \<open>Recording_Log\<close> (\<^verbatim>\<open>log.rs\<close>): the queue of events and the writer of \<^verbatim>\<open>events.jsonl\<close>; what
    is offered arrives or is counted, and the file reads back.
  \<^item> \<open>Recorder\<close> (\<^verbatim>\<open>recorder.rs\<close>, \<^verbatim>\<open>capture.rs\<close>): the mailbox, the recorder and one pass of its
    loop, over an encoder that is a record of functions. \<open>Recorder_Promises\<close>: every frame of a
    finished segment is in its file, by \<open>Webm_Roundtrip\<close>. \<open>Recorder_Accounts\<close>: the books of
    what is lost, over any interleaving of capture, events and passes; the end of the video.
  \<^item> \<open>Recording_Store\<close> (\<^verbatim>\<open>store.rs\<close>): the recordings on disk; what pruning deletes and what it
    must not, and how a recording of a lost daemon is ended.

  Bridge. \<open>Bridge_Protocol\<close>: the length-prefixed codec with its bounded decoder, and the
  validation of a bundle manifest. \<open>Bridge_Channel\<close> (\<^verbatim>\<open>rdpilot/src/bridge.rs\<close>): requests, the
  Cua attachment, its stream and its retirement, one definition per section of the state
  mutex, and the processor of the decoded frames; \<open>bridge_step\<close> interleaves callers, handles
  and loop. \<open>Bridge_Promises\<close>: its invariant, what a caller can rely on, and the
  little that a bridge still does after its end.

  Hosts (\<^verbatim>\<open>config/src/hosts\<close>).
  \<^item> \<open>Host_Pattern\<close> (\<^verbatim>\<open>pattern.rs\<close>): the matcher is the loop of the source; it is shown to
    end and to decide what \<open>*\<close> and \<open>?\<close> mean.
  \<^item> \<open>Host_Parse\<close> (\<^verbatim>\<open>parse.rs\<close>): lines, words, commands, with round trips.
  \<^item> \<open>Host_Target\<close> (\<^verbatim>\<open>keywords.rs\<close>, \<^verbatim>\<open>target.rs\<close>): the keyword table, validation, URLs.
  \<^item> \<open>Host_Resolve\<close> (\<^verbatim>\<open>resolve.rs\<close>): \<open>resolve_host\<close> with nested files. \<open>Host_Facts\<close> shows
    that reading does not depend on the settings found so far, so a resolution is a list of
    candidates of which the first per slot is kept. \<open>Host_Properties\<close> draws the conclusions.
  \<^item> \<open>Host_Expand\<close> (\<^verbatim>\<open>expand.rs\<close>): \<open>PasswordCommand\<close>; token values cannot inject.

  \<open>Time_Format\<close> holds the time stamps (\<^verbatim>\<open>daemon/src/registry.rs\<close>).

  Bounds and termination. All definitions are total. The decoder's loop, the text splitters
  and \<open>expand_loop\<close> consume their input; the matcher is a \<open>while_option\<close> that is proved to
  return; the three mutually recursive readers of hosts files end because a file is read
  only below 16 nested ones, the bound of the source. The watcher of an empty registry loops
  until it fires: the number of its ticks is an argument, and enough of them are shown to
  fire. Counters
  that the source keeps in a \<open>u64\<close> are natural numbers; epochs saturate at \<open>u64_max\<close>, and
  what needs room below it says so.

  Parameters. What the repository does not contain is an argument: the JSON serialiser of
  the codec, the input and RDP libraries of the loop, the clock, the operating system of the
  drive (the record \<open>os\<close>), the other file systems, the AV1 encoder and the crates \<open>glob\<close>, \<open>url\<close> and \<open>percent-encoding\<close>. Hypotheses on them state what they document
  and are discharged in the witnesses.

  Not modelled: dispatch, the service and the capture loop of recordings, the
  viewer's HTTP server, the bundle cache and transport framing. Not modelled at all: sockets,
  processes, Windows calls, command line parsing and rendering.
\<close>

end
